(* ===== verification/Prelude.thy ===== *)
theory Prelude
  imports Main "HOL-Library.Word" "HOL-Library.Monad_Syntax" "HOL-Library.Multiset"
begin

text \<open>
  The vocabulary every component shares: the widths of Rust's integers, the
  arithmetic of a build with \<open>overflow-checks = true\<close>, byte slices, formatted
  text, and the general list lemmas the component proofs rest on.

  \<^item> \<open>u8\<close>, \<open>u16\<close> and \<open>u32\<close> are words of that width.
  \<^item> \<open>u64\<close> and \<open>usize\<close> are natural numbers. Every place where the code adds,
    subtracts or multiplies them without \<open>saturating_\<close> or \<open>wrapping_\<close> goes
    through a checked operation that yields \<open>None\<close> when the result leaves the
    range. \<open>Cargo.toml\<close> sets \<open>overflow-checks = true\<close> in the release profile,
    so that \<open>None\<close> is a panic of the program.
  \<^item> A computation that may panic has an \<open>option\<close> type, \<open>None\<close> being the panic.
    An \<open>Option\<close> of the source is an \<open>option\<close> of its own inside.
\<close>

section \<open>Machine integers\<close>

type_synonym u8 = "8 word"
type_synonym u16 = "16 word"
type_synonym u32 = "32 word"
type_synonym u64 = nat
type_synonym usize = nat
type_synonym bytes = "u8 list"

text \<open>A result of a computation that may panic.\<close>

type_synonym 'a rust = "'a option"

named_theorems rust_defs \<open>the definitions of the checked and saturating operations\<close>

definition u64_max :: nat where
  "u64_max = 2 ^ 64 - 1"

text \<open>An allocation holds at most \<open>isize::MAX\<close> bytes.\<close>

definition isize_max :: nat where
  "isize_max = 2 ^ 63 - 1"

definition add64 :: "nat \<Rightarrow> nat \<Rightarrow> nat rust" where
  [rust_defs]: "add64 a b = (if a + b \<le> u64_max then Some (a + b) else None)"

definition sub64 :: "nat \<Rightarrow> nat \<Rightarrow> nat rust" where
  [rust_defs]: "sub64 a b = (if b \<le> a then Some (a - b) else None)"

definition mul64 :: "nat \<Rightarrow> nat \<Rightarrow> nat rust" where
  [rust_defs]: "mul64 a b = (if a * b \<le> u64_max then Some (a * b) else None)"

text \<open>\<open>saturating_add\<close> on \<open>u64\<close>; \<open>saturating_sub\<close> is the subtraction of \<open>nat\<close>.\<close>

definition sat_add64 :: "nat \<Rightarrow> nat \<Rightarrow> nat" where
  [rust_defs]: "sat_add64 a b = min (a + b) u64_max"

text \<open>\<open>saturating_add\<close>, \<open>saturating_sub\<close> and checked \<open>+\<close> at a word's own width.\<close>

definition sat_addw :: "'a::len word \<Rightarrow> 'a word \<Rightarrow> 'a word" where
  [rust_defs]: "sat_addw a b = (if unat a + unat b < 2 ^ LENGTH('a) then a + b else - 1)"

definition sat_subw :: "'a::len word \<Rightarrow> 'a word \<Rightarrow> 'a word" where
  [rust_defs]: "sat_subw a b = (if b \<le> a then a - b else 0)"

definition addw :: "'a::len word \<Rightarrow> 'a word \<Rightarrow> 'a word rust" where
  [rust_defs]: "addw a b = (if unat a + unat b < 2 ^ LENGTH('a) then Some (a + b) else None)"

text \<open>\<open>Iterator::sum\<close> on \<open>u64\<close>, which panics when the sum leaves the range.\<close>

definition sum64 :: "u64 list \<Rightarrow> u64 rust" where
  "sum64 xs = foldl (\<lambda>acc x. acc \<bind> (\<lambda>s. add64 s x)) (Some 0) xs"

lemma add64_Some [simp]: "add64 a b = Some c \<longleftrightarrow> c = a + b \<and> a + b \<le> u64_max"
  by (auto simp: add64_def)

lemma sub64_Some [simp]: "sub64 a b = Some c \<longleftrightarrow> c = a - b \<and> b \<le> a"
  by (auto simp: sub64_def)

lemma add64_ok [simp]: "a + b \<le> u64_max \<Longrightarrow> add64 a b = Some (a + b)"
  by simp

lemma sub64_ok [simp]: "b \<le> a \<Longrightarrow> sub64 a b = Some (a - b)"
  by simp

lemma sum64_from: "foldl (\<lambda>acc x. acc \<bind> (\<lambda>s. add64 s x)) (Some s) xs = (if s \<le> u64_max \<and> s + sum_list xs \<le> u64_max \<or> xs = [] then Some (s + sum_list xs) else None)"
proof (induction xs arbitrary: s)
  case (Cons x xs)
  have n: "foldl (\<lambda>acc x. acc \<bind> (\<lambda>s. add64 s x)) None ys = None" for ys by (induction ys) simp_all
  show ?case
  proof (cases "s + x \<le> u64_max")
    case True
    then show ?thesis using Cons [of "s + x"] by (auto simp: add.assoc)
  next
    case False
    then show ?thesis using n by (simp add: add64_def)
  qed
qed simp

lemma sum64_eq: "sum64 xs = (if sum_list xs \<le> u64_max then Some (sum_list xs) else None)"
  using sum64_from [of 0 xs] by (auto simp: sum64_def)

lemma sat_add64_le_max [simp]: "sat_add64 a b \<le> u64_max"
  by (simp add: sat_add64_def)

lemma sat_add64_mono: "a \<le> u64_max \<Longrightarrow> a \<le> sat_add64 a b"
  by (simp add: sat_add64_def)

lemma sat_add64_exact: "a + b \<le> u64_max \<Longrightarrow> sat_add64 a b = a + b"
  by (simp add: sat_add64_def)

lemma unat_sat_addw:
  fixes a b :: "'a::len word"
  shows "unat (sat_addw a b) = min (unat a + unat b) (2 ^ LENGTH('a) - 1)"
  by (auto simp: sat_addw_def unat_word_ariths unsigned_minus_1_eq_mask mask_eq_exp_minus_1 min_def)

lemma unat_sat_subw: "unat (sat_subw a b) = unat a - unat b"
  by (auto simp: sat_subw_def unat_sub word_le_nat_alt)

lemma sat_addw_ge: "(a :: 'a::len word) \<le> sat_addw a b"
proof -
  have "unat a < 2 ^ LENGTH('a)" by (rule unsigned_less)
  then have "unat a \<le> 2 ^ LENGTH('a) - 1" by linarith
  then show ?thesis by (simp add: word_le_nat_alt unat_sat_addw)
qed

lemma unat_u32_less [simp]: "unat (w :: u32) < 4294967296"
  using unsigned_less [of w] by simp

section \<open>Slices\<close>

text \<open>\<open>&xs[a..b]\<close>: a panic when the range is not inside the slice.\<close>

definition byte_slice :: "'a list \<Rightarrow> nat \<Rightarrow> nat \<Rightarrow> 'a list rust" where
  [rust_defs]: "byte_slice xs a b = (if a \<le> b \<and> b \<le> length xs then Some (take (b - a) (drop a xs)) else None)"

text \<open>\<open>xs[i]\<close>: a panic when the index is out of range.\<close>

definition index :: "'a list \<Rightarrow> nat \<Rightarrow> 'a rust" where
  [rust_defs]: "index xs i = (if i < length xs then Some (xs ! i) else None)"

lemma byte_slice_Some:
  "byte_slice xs a b = Some ys \<longleftrightarrow> a \<le> b \<and> b \<le> length xs \<and> ys = take (b - a) (drop a xs)"
  by (auto simp: byte_slice_def)

lemma byte_slice_ok: "a \<le> b \<Longrightarrow> b \<le> length xs \<Longrightarrow> byte_slice xs a b = Some (take (b - a) (drop a xs))"
  by (simp add: byte_slice_def)

text \<open>\<open>u16::from_be_bytes\<close>.\<close>

definition be16 :: "u8 \<Rightarrow> u8 \<Rightarrow> u16" where
  "be16 hi lo = ucast hi * 256 + ucast lo"

lemma unat_be16: "unat (be16 hi lo) = unat hi * 256 + unat lo"
proof -
  have "unat hi < 256" "unat lo < 256" using unsigned_less [of hi] unsigned_less [of lo] by simp_all
  then show ?thesis
    by (simp add: be16_def unat_word_ariths unsigned_ucast_eq take_bit_nat_eq_self)
qed

text \<open>The bytes of a \<open>u16\<close>.\<close>

definition hi8 :: "u16 \<Rightarrow> u8" where
  "hi8 w = ucast (drop_bit 8 w)"

definition lo8 :: "u16 \<Rightarrow> u8" where
  "lo8 w = ucast w"

lemma unat_hi8: "unat (hi8 w) = unat w div 256"
proof -
  have "unat w < 65536" using unsigned_less [of w] by simp
  then have "unat w div 256 < 256" by simp
  moreover have "unat (w div 256) = unat w div 256" by (simp add: unat_div)
  ultimately show ?thesis
    by (simp add: hi8_def unsigned_ucast_eq drop_bit_eq_div take_bit_nat_eq_self)
qed

lemma unat_lo8: "unat (lo8 w) = unat w mod 256"
  by (simp add: lo8_def unsigned_ucast_eq take_bit_eq_mod)

lemma be16_split: "be16 (hi8 w) (lo8 w) = w"
proof -
  have "unat (be16 (hi8 w) (lo8 w)) = unat w" by (simp add: unat_be16 unat_hi8 unat_lo8)
  then show ?thesis by (rule unsigned_word_eqI)
qed

lemma split_be16: "hi8 (be16 a b) = a" "lo8 (be16 a b) = b"
proof -
  have "unat b < 256" using unsigned_less [of b] by simp
  then have "unat (hi8 (be16 a b)) = unat a" "unat (lo8 (be16 a b)) = unat b"
    by (simp_all add: unat_hi8 unat_lo8 unat_be16)
  then show "hi8 (be16 a b) = a" "lo8 (be16 a b) = b" by (auto intro: unsigned_word_eqI)
qed

section \<open>Formatted text\<close>

text \<open>
  The argument of \<open>format!\<close> kept as the fragments of its template: literal text,
  and the values it interpolates with the radix they are printed in (\<open>Hex2\<close> is
  \<open>{:02X}\<close>, \<open>Hex2l\<close> is \<open>{:02x}\<close>). Two findings
  have the same text exactly when the template and the values agree; how a number
  or an address is rendered as characters is left to the formatter.
\<close>

datatype 'k frag =
    Lit string
  | Dec nat
  | Hex2 u8
  | Hex2l u8
  | Hex4 u16
  | Hex0x u8
  | Hex0X4 u16
  | Ip4 "32 word"
  | Ip6 "128 word"
  | Octets "u8 list"
  | Mac "u8 list"
  | Entries "(u8 \<times> nat) list"
  | Key 'k

type_synonym 'k fmt = "'k frag list"

section \<open>Options and lists\<close>

lemma option_eqI: "(\<And>v. x = Some v \<longleftrightarrow> y = Some v) \<Longrightarrow> x = y"
  by (cases x; cases y) auto

lemma sum_list_filter_split:
  "sum_list (map f (filter P xs)) + sum_list (map f (filter (\<lambda>x. \<not> P x) xs)) = (sum_list (map f xs) :: nat)"
  by (induction xs) auto

lemma mset_eq_sum_list_map:
  "mset xs = mset ys \<Longrightarrow> sum_list (map f xs) = (sum_list (map f ys) :: nat)"
  by (metis mset_map sum_mset_sum_list)

lemma take_drop_nth:
  "a + i < length xs \<Longrightarrow> i < n \<Longrightarrow> take n (drop a xs) ! i = xs ! (a + i)"
  by (simp add: less_diff_conv add.commute)

lemma min_le_iff_nat: "min a b \<le> (c :: nat) \<longleftrightarrow> a \<le> c \<or> b \<le> c"
  by (simp add: min_le_iff_disj)

end
