(* ===== verification/Findings.thy ===== *)
theory Findings
  imports Prelude "HOL-Library.Product_Lexorder"
begin

text \<open>
  The event and finding vocabulary shared by the whole pipeline
  (\<open>src/findings.rs\<close>, \<open>src/reassembly/handler.rs\<close>), IP addresses with the order
  \<open>IpAddr\<close> derives, the canonical \<open>FlowKey\<close> of \<open>src/reassembly/flow.rs\<close>, and the
  decoded packet of \<open>src/decoder.rs\<close> that enters the reassembler.

  The text of a finding is kept as the fragments given to \<open>format!\<close>. Its
  \<open>timestamp\<close> is the number of seconds handed to \<open>DateTime::from_timestamp\<close>
  (the crate \<open>chrono\<close> turns it into a calendar date), or \<open>None\<close> where the code
  stores \<open>None\<close>.
\<close>

section \<open>Addresses and flow keys\<close>

datatype ip_addr = V4 "32 word" | V6 "128 word"

text \<open>\<open>IpAddr\<close> derives \<open>Ord\<close>: every IPv4 address is below every IPv6 address, and
  within a family addresses compare by their octets, most significant first.\<close>

instantiation ip_addr :: linorder
begin

fun less_eq_ip_addr :: "ip_addr \<Rightarrow> ip_addr \<Rightarrow> bool" where
  "less_eq_ip_addr (V4 a) (V4 b) = (a \<le> b)"
| "less_eq_ip_addr (V4 _) (V6 _) = True"
| "less_eq_ip_addr (V6 _) (V4 _) = False"
| "less_eq_ip_addr (V6 a) (V6 b) = (a \<le> b)"

definition less_ip_addr :: "ip_addr \<Rightarrow> ip_addr \<Rightarrow> bool" where
  "less_ip_addr a b = (a \<le> b \<and> \<not> b \<le> a)"

instance
proof
  fix x y z :: ip_addr
  show "(x < y) = (x \<le> y \<and> \<not> y \<le> x)" by (rule less_ip_addr_def)
  show "x \<le> x" by (cases x) auto
  show "x \<le> y \<Longrightarrow> y \<le> z \<Longrightarrow> x \<le> z" by (cases x; cases y; cases z) auto
  show "x \<le> y \<Longrightarrow> y \<le> x \<Longrightarrow> x = y" by (cases x; cases y) auto
  show "x \<le> y \<or> y \<le> x" by (cases x; cases y) auto
qed

end

record flow_key =
  lower_ip :: ip_addr
  lower_port :: u16
  upper_ip :: ip_addr
  upper_port :: u16

text \<open>\<open>FlowKey::new\<close>: the endpoints in the order of the pair (address, port).\<close>

definition flow_key_new :: "ip_addr \<Rightarrow> u16 \<Rightarrow> ip_addr \<Rightarrow> u16 \<Rightarrow> flow_key" where
  "flow_key_new ip_a port_a ip_b port_b =
     (if (ip_a, port_a) \<le> (ip_b, port_b)
      then \<lparr>lower_ip = ip_a, lower_port = port_a, upper_ip = ip_b, upper_port = port_b\<rparr>
      else \<lparr>lower_ip = ip_b, lower_port = port_b, upper_ip = ip_a, upper_port = port_a\<rparr>)"

section \<open>Stream events\<close>

datatype direction = ClientToServer | ServerToClient

datatype close_reason = FinClose | RstClose | TimeoutClose | MemoryPressureClose

text \<open>
  The trait \<open>StreamHandler\<close>: what the reassembler calls on its handler. A handler is
  a state of type \<open>'h\<close> and the two callbacks; a callback that panics yields \<open>None\<close>.
\<close>

record 'h stream_handler =
  on_data :: "'h \<Rightarrow> flow_key \<Rightarrow> direction \<Rightarrow> bytes \<Rightarrow> u64 \<Rightarrow> u32 \<Rightarrow> 'h rust"
  on_flow_close :: "'h \<Rightarrow> flow_key \<Rightarrow> close_reason \<Rightarrow> 'h rust"

section \<open>Findings\<close>

datatype verdict = Likely | Unlikely | Inconclusive | Possible

datatype confidence = High | Medium | Low

datatype threat_category =
    Reconnaissance | LateralMovement | C2 | Exfiltration | CredentialAccess
  | Persistence | Execution | Anomaly | Suspicious | Impact

record finding =
  category :: threat_category
  verdict :: verdict
  confidence :: confidence
  summary :: "flow_key fmt"
  evidence :: "flow_key fmt list"
  mitre_techniques :: "string list"
  source_ip :: "ip_addr option"
  timestamp :: "u32 option"
  direction :: "direction option"

text \<open>An address as it is printed.\<close>

fun ip_frag :: "ip_addr \<Rightarrow> 'k frag" where
  "ip_frag (V4 a) = Ip4 a"
| "ip_frag (V6 a) = Ip6 a"

text \<open>
  \<open>AnalysisSummary\<close> of \<open>src/analyzer/mod.rs\<close>. The entries of \<open>detail\<close> are kept as a
  map; a value is a number, the object of a distribution over byte codes or 16-bit codes,
  whose keys are printings of the codes, the object of a list of counts, whose keys are the
  indices, or an object of named values.
\<close>

datatype detail_value =
  Num u64 | Distribution "u8 \<rightharpoonup> u64" | Distribution16 "u16 \<rightharpoonup> u64" | Counts "u64 list" | Object "(string \<times> detail_value) list"

record analysis_summary =
  analyzer_name :: string
  packets_analyzed :: u64
  detail :: "string \<rightharpoonup> detail_value"

section \<open>Decoded packets\<close>

datatype protocol = Tcp | Udp | Icmp | Other u8

datatype transport_info =
    TcpInfo (tcp_src_port: u16) (tcp_dst_port: u16) (seq_number: u32)
      (syn_flag: bool) (ack_flag: bool) (fin_flag: bool) (rst_flag: bool)
  | UdpInfo (udp_src_port: u16) (udp_dst_port: u16)
  | NoTransport

record parsed_packet =
  src_ip :: ip_addr
  dst_ip :: ip_addr
  protocol :: protocol
  transport :: transport_info
  payload :: bytes
  packet_len :: usize

section \<open>Properties of flow keys\<close>

text \<open>The endpoints of a key, lower first.\<close>

definition endpoints :: "flow_key \<Rightarrow> (ip_addr \<times> u16) set" where
  "endpoints k = {(lower_ip k, lower_port k), (upper_ip k, upper_port k)}"

lemma flow_key_new_endpoints: "endpoints (flow_key_new a p b q) = {(a, p), (b, q)}"
  by (auto simp: endpoints_def flow_key_new_def)

lemma flow_key_new_ordered:
  "(lower_ip (flow_key_new a p b q), lower_port (flow_key_new a p b q))
   \<le> (upper_ip (flow_key_new a p b q), upper_port (flow_key_new a p b q))"
  by (auto simp: flow_key_new_def)

lemma flow_key_new_commute: "flow_key_new a p b q = flow_key_new b q a p"
  by (auto simp: flow_key_new_def)

lemma flow_key_new_eq_iff:
  "flow_key_new a p b q = flow_key_new c r d s \<longleftrightarrow> {(a, p), (b, q)} = {(c, r), (d, s)}"
proof
  assume "flow_key_new a p b q = flow_key_new c r d s"
  then show "{(a, p), (b, q)} = {(c, r), (d, s)}"
    by (metis flow_key_new_endpoints)
next
  assume "{(a, p), (b, q)} = {(c, r), (d, s)}"
  then have "(a, p) = (c, r) \<and> (b, q) = (d, s) \<or> (a, p) = (d, s) \<and> (b, q) = (c, r)"
    by (simp only: doubleton_eq_iff)
  then show "flow_key_new a p b q = flow_key_new c r d s"
    using flow_key_new_commute [of a p b q] by auto
qed

end
