(* ===== verification/Containers.thy ===== *)
theory Containers
  imports Prelude "HOL-Library.AList"
begin

text \<open>
  The two containers of the standard library the program keeps its state in.

  \<^item> \<open>BTreeMap\<close> as a list of entries in strictly ascending key order, which is the
    order its iterators and \<open>range\<close> follow.
  \<^item> \<open>HashMap\<close> as a list of entries with distinct keys. The order its iterators
    visit the entries in is unspecified; \<open>hm_iter\<close> takes it from a \<open>hash_seed\<close>,
    which ranks the keys given the current contents. Every order of the entries is
    the order of some seed, so a theorem for all seeds is a theorem for all
    iteration orders.

  The locale \<open>weighted_map\<close> states what a client relies on: lookups after updates
  and removals, and that a removal or update changes the set of entries by exactly
  the entry of its key. From this it derives once the conservation laws for any
  additive measure of the entries, which carry both the byte accounting of a
  segment buffer (a \<open>BTreeMap\<close>) and the memory accounting of the flow table (a
  \<open>HashMap\<close>).
\<close>

section \<open>The interface\<close>

definition weight :: "('v \<Rightarrow> nat) \<Rightarrow> ('k \<times> 'v) list \<Rightarrow> nat" where
  "weight w m = sum_list (map (\<lambda>e. w (snd e)) m)"

lemma weight_Nil [simp]: "weight w [] = 0"
  by (simp add: weight_def)

lemma weight_Cons [simp]: "weight w (e # m) = w (snd e) + weight w m"
  by (simp add: weight_def)

lemma weight_append [simp]: "weight w (m @ n) = weight w m + weight w n"
  by (simp add: weight_def)

lemma weight_mset: "mset m = mset n \<Longrightarrow> weight w m = weight w n"
  unfolding weight_def by (rule mset_eq_sum_list_map)

lemma weight_length: "weight (\<lambda>_. Suc 0) m = length m"
  by (induction m) auto

lemma weight_ge: "(k, v) \<in> set m \<Longrightarrow> w v \<le> weight w m"
  by (induction m) auto

lemma filter_key_absent: "k \<notin> fst ` set m \<Longrightarrow> filter (\<lambda>e. fst e \<noteq> k) m = m"
  by (auto simp: filter_id_conv)

lemma weight_filter_key:
  "distinct (map fst m) \<Longrightarrow>
   weight w (filter (\<lambda>e. fst e \<noteq> k) m) + (case map_of m k of None \<Rightarrow> 0 | Some v \<Rightarrow> w v) = weight w m"
proof (induction m)
  case Nil
  then show ?case by simp
next
  case (Cons e m)
  show ?case
  proof (cases "fst e = k")
    case True
    with Cons.prems have "k \<notin> fst ` set m" by auto
    then have "filter (\<lambda>e. fst e \<noteq> k) m = m" by (rule filter_key_absent)
    with True show ?thesis by (cases e) simp
  next
    case False
    with Cons show ?thesis by (cases e) auto
  qed
qed

locale weighted_map =
  fixes get :: "'m \<Rightarrow> 'k \<Rightarrow> 'v option"
    and put :: "'k \<Rightarrow> 'v \<Rightarrow> 'm \<Rightarrow> 'm"
    and remove :: "'k \<Rightarrow> 'm \<Rightarrow> 'm"
    and entries :: "'m \<Rightarrow> ('k \<times> 'v) list"
    and inv :: "'m \<Rightarrow> bool"
  assumes get_entries: "inv m \<Longrightarrow> get m k = map_of (entries m) k"
    and distinct_entries: "inv m \<Longrightarrow> distinct (map fst (entries m))"
    and entries_put:
      "inv m \<Longrightarrow> mset (entries (put k v m)) = add_mset (k, v) (mset (filter (\<lambda>e. fst e \<noteq> k) (entries m)))"
    and entries_remove:
      "inv m \<Longrightarrow> mset (entries (remove k m)) = mset (filter (\<lambda>e. fst e \<noteq> k) (entries m))"
    and inv_put: "inv m \<Longrightarrow> inv (put k v m)"
    and inv_remove: "inv m \<Longrightarrow> inv (remove k m)"
begin

lemma set_put: "inv m \<Longrightarrow> set (entries (put k v m)) = insert (k, v) {e \<in> set (entries m). fst e \<noteq> k}"
  by (metis entries_put set_mset_add_mset_insert set_mset_mset set_filter)

lemma set_remove: "inv m \<Longrightarrow> set (entries (remove k m)) = {e \<in> set (entries m). fst e \<noteq> k}"
  by (metis entries_remove set_mset_mset set_filter)

lemma get_iff: "inv m \<Longrightarrow> get m k = Some v \<longleftrightarrow> (k, v) \<in> set (entries m)"
  by (simp add: get_entries distinct_entries)

lemma get_put: "inv m \<Longrightarrow> get (put k v m) k' = (if k' = k then Some v else get m k')"
  by (rule option_eqI) (auto simp: get_iff inv_put set_put)

lemma get_remove: "inv m \<Longrightarrow> get (remove k m) k' = (if k' = k then None else get m k')"
  by (rule option_eqI) (auto simp: get_iff inv_remove set_remove)

lemma weight_put:
  "inv m \<Longrightarrow> weight w (entries (put k v m)) + (case get m k of None \<Rightarrow> 0 | Some old \<Rightarrow> w old)
             = weight w (entries m) + w v"
proof -
  assume m: "inv m"
  have "mset (entries (put k v m)) = mset ((k, v) # filter (\<lambda>e. fst e \<noteq> k) (entries m))"
    using m by (simp add: entries_put)
  then have "weight w (entries (put k v m)) = w v + weight w (filter (\<lambda>e. fst e \<noteq> k) (entries m))"
    by (metis weight_mset weight_Cons snd_conv)
  with weight_filter_key [OF distinct_entries [OF m], of w k] m show ?thesis
    by (simp add: get_entries)
qed

lemma weight_remove:
  "inv m \<Longrightarrow> weight w (entries (remove k m)) + (case get m k of None \<Rightarrow> 0 | Some old \<Rightarrow> w old)
             = weight w (entries m)"
proof -
  assume m: "inv m"
  have "weight w (entries (remove k m)) = weight w (filter (\<lambda>e. fst e \<noteq> k) (entries m))"
    using m by (intro weight_mset) (simp add: entries_remove)
  with weight_filter_key [OF distinct_entries [OF m], of w k] m show ?thesis
    by (simp add: get_entries)
qed

lemma size_put:
  "inv m \<Longrightarrow> length (entries (put k v m)) = (if get m k = None then Suc (length (entries m)) else length (entries m))"
  using weight_put [of m "\<lambda>_. Suc 0" k v] by (auto simp: weight_length split: option.splits)

lemma size_remove:
  "inv m \<Longrightarrow> length (entries (remove k m)) = (if get m k = None then length (entries m) else length (entries m) - 1)"
  using weight_remove [of m "\<lambda>_. Suc 0" k] by (auto simp: weight_length split: option.splits)

end

section \<open>BTreeMap\<close>

text \<open>
  Keys are \<open>nat\<close> (the \<open>u64\<close> offsets of the segment buffer). \<open>bt_range_to\<close> is
  the iterator of \<open>range(..k)\<close>.
\<close>

type_synonym 'v btree_map = "(nat \<times> 'v) list"

definition bt_ok :: "'v btree_map \<Rightarrow> bool" where
  "bt_ok m = sorted_wrt (<) (map fst m)"

definition bt_get :: "'v btree_map \<Rightarrow> nat \<Rightarrow> 'v option" where
  "bt_get m k = map_of m k"

fun bt_insert :: "nat \<Rightarrow> 'v \<Rightarrow> 'v btree_map \<Rightarrow> 'v btree_map" where
  "bt_insert k v [] = [(k, v)]"
| "bt_insert k v ((a, b) # m) =
     (if k < a then (k, v) # (a, b) # m
      else if k = a then (k, v) # m
      else (a, b) # bt_insert k v m)"

definition bt_remove :: "nat \<Rightarrow> 'v btree_map \<Rightarrow> 'v btree_map" where
  "bt_remove k m = filter (\<lambda>e. fst e \<noteq> k) m"

definition bt_range_to :: "nat \<Rightarrow> 'v btree_map \<Rightarrow> 'v btree_map" where
  "bt_range_to k m = takeWhile (\<lambda>e. fst e < k) m"

lemma bt_ok_Nil [simp]: "bt_ok []"
  by (simp add: bt_ok_def)

lemma bt_ok_Cons [simp]: "bt_ok ((k, v) # m) \<longleftrightarrow> (\<forall>e \<in> set m. k < fst e) \<and> bt_ok m"
  by (auto simp: bt_ok_def)

lemma fst_set_bt_insert: "fst ` set (bt_insert k v m) = insert k (fst ` set m)"
  by (induction k v m rule: bt_insert.induct) auto

lemma bt_ok_iff: "bt_ok (e # m) \<longleftrightarrow> (\<forall>k \<in> fst ` set m. fst e < k) \<and> bt_ok m"
  by (cases e) auto

lemma bt_ok_insert: "bt_ok m \<Longrightarrow> bt_ok (bt_insert k v m)"
  by (induction k v m rule: bt_insert.induct)
     (auto simp: bt_ok_iff fst_set_bt_insert simp del: bt_ok_Cons)

lemma bt_ok_distinct: "bt_ok m \<Longrightarrow> distinct (map fst m)"
  by (simp add: bt_ok_def strict_sorted_iff)

lemma mset_bt_insert:
  "bt_ok m \<Longrightarrow> mset (bt_insert k v m) = add_mset (k, v) (mset (filter (\<lambda>e. fst e \<noteq> k) m))"
proof (induction k v m rule: bt_insert.induct)
  case (2 k v a b m)
  consider "k < a" | "k = a" | "a < k" by linarith
  then show ?case
  proof cases
    case 1
    with "2.prems" have "filter (\<lambda>e. fst e \<noteq> k) ((a, b) # m) = (a, b) # m"
      by (auto simp: filter_id_conv)
    with 1 show ?thesis by (simp only: bt_insert.simps if_True) simp
  next
    case 2
    with "2.prems" have "filter (\<lambda>e. fst e \<noteq> k) m = m"
      by (auto simp: filter_id_conv)
    with 2 show ?thesis by simp
  next
    case 3
    with "2.IH" "2.prems" show ?thesis by auto
  qed
qed simp

lemma bt_ok_remove: "bt_ok m \<Longrightarrow> bt_ok (bt_remove k m)"
  by (induction m) (auto simp: bt_remove_def)

interpretation btree: weighted_map bt_get bt_insert bt_remove "\<lambda>m. m" bt_ok
  by unfold_locales
     (simp_all add: bt_get_def bt_remove_def bt_ok_distinct bt_ok_insert mset_bt_insert
        bt_ok_remove [unfolded bt_remove_def])

lemma set_bt_range_to: "bt_ok m \<Longrightarrow> set (bt_range_to k m) = {e \<in> set m. fst e < k}"
  unfolding bt_range_to_def by (induction m) (auto, metis fst_conv order_less_trans)

section \<open>HashMap\<close>

type_synonym ('k, 'v) hash_map = "('k \<times> 'v) list"

type_synonym 'k hash_seed = "'k list \<Rightarrow> 'k \<Rightarrow> nat"

definition hm_ok :: "('k, 'v) hash_map \<Rightarrow> bool" where
  "hm_ok m = distinct (map fst m)"

definition hm_get :: "('k, 'v) hash_map \<Rightarrow> 'k \<Rightarrow> 'v option" where
  "hm_get m k = map_of m k"

definition hm_insert :: "'k \<Rightarrow> 'v \<Rightarrow> ('k, 'v) hash_map \<Rightarrow> ('k, 'v) hash_map" where
  "hm_insert k v m = AList.update k v m"

definition hm_remove :: "'k \<Rightarrow> ('k, 'v) hash_map \<Rightarrow> ('k, 'v) hash_map" where
  "hm_remove k m = AList.delete k m"

text \<open>The order \<open>iter\<close>, \<open>keys\<close> and \<open>values\<close> visit the entries in.\<close>

definition hm_iter :: "'k hash_seed \<Rightarrow> ('k, 'v) hash_map \<Rightarrow> ('k \<times> 'v) list" where
  "hm_iter seed m = sort_key (\<lambda>e. seed (map fst m) (fst e)) m"

lemma hm_ok_Nil [simp]: "hm_ok []"
  by (simp add: hm_ok_def)

lemma mset_hm_insert:
  "hm_ok m \<Longrightarrow> mset (hm_insert k v m) = add_mset (k, v) (mset (filter (\<lambda>e. fst e \<noteq> k) m))"
  unfolding hm_ok_def hm_insert_def
proof (induction m)
  case (Cons e m)
  show ?case
  proof (cases "fst e = k")
    case True
    with Cons.prems have "filter (\<lambda>e. fst e \<noteq> k) m = m" by (intro filter_key_absent) auto
    with True show ?thesis by (cases e) simp
  next
    case False
    with Cons show ?thesis by (cases e) auto
  qed
qed simp

lemma hm_ok_insert: "hm_ok m \<Longrightarrow> hm_ok (hm_insert k v m)"
  by (simp add: hm_ok_def hm_insert_def distinct_update)

lemma hm_ok_remove: "hm_ok m \<Longrightarrow> hm_ok (hm_remove k m)"
  by (simp add: hm_ok_def hm_remove_def distinct_delete)

lemma hm_remove_eq: "hm_remove k m = filter (\<lambda>e. fst e \<noteq> k) m"
  by (auto simp: hm_remove_def AList.delete_eq case_prod_unfold intro: filter_cong)

lemma hm_get_insert [simp]: "hm_get (hm_insert k v m) k' = (if k' = k then Some v else hm_get m k')"
  by (simp add: hm_get_def hm_insert_def update_conv')

lemma hm_get_remove [simp]: "hm_get (hm_remove k m) k' = (if k' = k then None else hm_get m k')"
  by (simp add: hm_get_def hm_remove_def delete_conv')

lemma hm_get_Nil [simp]: "hm_get [] k = None"
  by (simp add: hm_get_def)

lemma hm_empty:
  assumes "\<And>k. hm_get m k = None"
  shows "m = []"
proof (cases m)
  case (Cons e m')
  then show ?thesis using assms [of "fst e"] by (cases e) (simp add: hm_get_def)
qed

lemma hm_insert_twice: "hm_insert k v (hm_insert k w m) = hm_insert k v m"
  unfolding hm_insert_def by (induction m) auto

interpretation hmap: weighted_map hm_get hm_insert hm_remove "\<lambda>m. m" hm_ok
  by unfold_locales
     (simp_all add: hm_get_def hm_ok_def [symmetric] hm_ok_insert hm_ok_remove mset_hm_insert
        hm_remove_eq [symmetric])

lemma mset_hm_iter [simp]: "mset (hm_iter seed m) = mset m"
  by (simp add: hm_iter_def)

lemma set_hm_iter [simp]: "set (hm_iter seed m) = set m"
  by (simp add: hm_iter_def)

lemma distinct_fst_mset: "mset xs = mset ys \<Longrightarrow> distinct (map fst xs) = distinct (map fst ys)"
  by (metis mset_eq_imp_distinct_iff mset_map)

lemma distinct_hm_iter: "hm_ok m \<Longrightarrow> distinct (map fst (hm_iter seed m))"
  using distinct_fst_mset [OF mset_hm_iter [of seed m]] by (simp add: hm_ok_def)

text \<open>Every order of the entries is the iteration order of some seed.\<close>

lemma distinct_rank:
  assumes "distinct ks" and "i < length ks"
  shows "length (takeWhile (\<lambda>k. k \<noteq> ks ! i) ks) = i"
  using assms by (induction ks arbitrary: i) (auto simp: nth_Cons split: nat.splits)

lemma hm_iter_any_order:
  assumes "hm_ok m" and "mset ys = mset m"
  shows "\<exists>seed. hm_iter seed m = ys"
proof -
  let ?ks = "map fst ys"
  let ?pos = "\<lambda>k. length (takeWhile (\<lambda>k'. k' \<noteq> k) ?ks)"
  have d: "distinct ?ks"
    using assms distinct_fst_mset by (auto simp: hm_ok_def)
  have pos: "?pos (fst (ys ! i)) = i" if "i < length ys" for i
    using distinct_rank [OF d, of i] that by simp
  have srt: "sorted (map (\<lambda>e. ?pos (fst e)) ys)"
    by (auto simp: sorted_iff_nth_mono pos)
  have inj: "inj_on (\<lambda>e. ?pos (fst e)) (set m)"
  proof -
    have "inj_on (\<lambda>e. ?pos (fst e)) (set ys)"
      by (rule inj_onI) (metis in_set_conv_nth pos)
    then show ?thesis using assms(2) by (metis set_mset_mset)
  qed
  have sets: "set ys = set m" using assms(2) by (metis set_mset_mset)
  have "sort_key (\<lambda>e. ?pos (fst e)) m = ys"
  proof (rule properties_for_sort_key [OF assms(2) _ srt])
    fix k assume k: "k \<in> set ys"
    have eq: "filter (\<lambda>x. ?pos (fst k) = ?pos (fst x)) zs = filter ((=) k) zs" if "set zs = set m" for zs
      using inj that k sets by (intro filter_cong) (auto dest: inj_onD)
    have "filter ((=) k) ys = filter ((=) k) m"
      by (metis replicate_length_filter mset_filter size_mset assms(2))
    with eq sets show "filter (\<lambda>x. ?pos (fst k) = ?pos (fst x)) ys = filter (\<lambda>x. ?pos (fst k) = ?pos (fst x)) m"
      by simp
  qed
  then show ?thesis
    unfolding hm_iter_def by (intro exI [where x = "\<lambda>_. ?pos"]) simp
qed

end
