(* ===== verification/Flow.thy ===== *)
theory Flow
  imports Findings Containers
begin

text \<open>
  Per-flow state of \<open>src/reassembly/flow.rs\<close>: \<open>FlowDirection\<close> (the segment buffer
  of one direction with its counters and latches), \<open>TcpFlow\<close> and its state
  machine. The operations on the buffer itself are in theory \<open>Segment\<close>.

  Field names carry a prefix, \<open>fd_\<close> for \<open>FlowDirection\<close> and \<open>fl_\<close> for
  \<open>TcpFlow\<close>.
\<close>

section \<open>Definitions\<close>

datatype flow_state = New | SynSent | Established | Closing | Closed

record flow_direction =
  fd_isn :: "u32 option"
  fd_base_offset :: u64
  fd_segments :: "bytes btree_map"
  fd_buffered_bytes :: usize
  fd_reassembled_bytes :: usize
  fd_overlap_count :: u32
  fd_overlap_alert_fired :: bool
  fd_small_segment_run :: u32
  fd_small_segment_alert_fired :: bool
  fd_out_of_window_count :: u32
  fd_out_of_window_alert_fired :: bool
  fd_fin_seen :: bool
  fd_rst_seen :: bool
  fd_depth_exceeded :: bool

definition flow_direction_new :: flow_direction where
  "flow_direction_new =
     \<lparr>fd_isn = None, fd_base_offset = 0, fd_segments = [], fd_buffered_bytes = 0,
      fd_reassembled_bytes = 0, fd_overlap_count = 0, fd_overlap_alert_fired = False,
      fd_small_segment_run = 0, fd_small_segment_alert_fired = False,
      fd_out_of_window_count = 0, fd_out_of_window_alert_fired = False,
      fd_fin_seen = False, fd_rst_seen = False, fd_depth_exceeded = False\<rparr>"

definition set_isn :: "u32 \<Rightarrow> flow_direction \<Rightarrow> flow_direction" where
  "set_isn seq d =
     (if fd_isn d = None then d\<lparr>fd_isn := Some seq, fd_base_offset := 1\<rparr> else d)"

definition infer_isn :: "u32 \<Rightarrow> flow_direction \<Rightarrow> flow_direction" where
  "infer_isn first_seq d =
     (if fd_isn d = None then d\<lparr>fd_isn := Some (first_seq - 1), fd_base_offset := 1\<rparr> else d)"

definition segment_count :: "flow_direction \<Rightarrow> usize" where
  "segment_count d = length (fd_segments d)"

definition segment_at :: "flow_direction \<Rightarrow> u64 \<Rightarrow> bytes option" where
  "segment_at d off = bt_get (fd_segments d) off"

text \<open>\<open>FlowDirection::memory_used\<close>; its \<open>debug_assert\<close>, compiled out of a release
  build, is the invariant \<open>fd_counted\<close> of theory \<open>Segment\<close>.\<close>

definition dir_memory_used :: "flow_direction \<Rightarrow> usize" where
  "dir_memory_used d = fd_buffered_bytes d"

record tcp_flow =
  fl_key :: flow_key
  fl_client_to_server :: flow_direction
  fl_server_to_client :: flow_direction
  fl_state :: flow_state
  fl_partial :: bool
  fl_first_seen :: u32
  fl_last_seen :: u32
  fl_last_activity_index :: u64
  fl_initiator :: "(ip_addr \<times> u16) option"
  fl_fin_count :: u8

definition tcp_flow_new :: "flow_key \<Rightarrow> u32 \<Rightarrow> tcp_flow" where
  "tcp_flow_new k ts =
     \<lparr>fl_key = k, fl_client_to_server = flow_direction_new,
      fl_server_to_client = flow_direction_new, fl_state = New, fl_partial = False,
      fl_first_seen = ts, fl_last_seen = ts, fl_last_activity_index = 0,
      fl_initiator = None, fl_fin_count = 0\<rparr>"

definition set_initiator :: "ip_addr \<Rightarrow> u16 \<Rightarrow> tcp_flow \<Rightarrow> tcp_flow" where
  "set_initiator ip port f =
     (if fl_initiator f = None then f\<lparr>fl_initiator := Some (ip, port)\<rparr> else f)"

definition flow_direction_of :: "tcp_flow \<Rightarrow> ip_addr \<Rightarrow> u16 \<Rightarrow> direction" where
  "flow_direction_of f ip port =
     (if fl_initiator f = Some (ip, port) then ClientToServer else ServerToClient)"

text \<open>\<open>get_direction_mut\<close>: reading the selected direction and writing it back.\<close>

fun get_direction :: "direction \<Rightarrow> tcp_flow \<Rightarrow> flow_direction" where
  "get_direction ClientToServer f = fl_client_to_server f"
| "get_direction ServerToClient f = fl_server_to_client f"

fun set_direction :: "direction \<Rightarrow> flow_direction \<Rightarrow> tcp_flow \<Rightarrow> tcp_flow" where
  "set_direction ClientToServer d f = f\<lparr>fl_client_to_server := d\<rparr>"
| "set_direction ServerToClient d f = f\<lparr>fl_server_to_client := d\<rparr>"

definition on_syn :: "tcp_flow \<Rightarrow> tcp_flow" where
  "on_syn f = (if fl_state f = New then f\<lparr>fl_state := SynSent\<rparr> else f)"

definition on_syn_ack :: "tcp_flow \<Rightarrow> tcp_flow" where
  "on_syn_ack f =
     (if fl_state f = SynSent \<or> fl_state f = New then f\<lparr>fl_state := Established\<rparr> else f)"

definition on_data_without_syn :: "tcp_flow \<Rightarrow> tcp_flow" where
  "on_data_without_syn f =
     (if fl_state f = New then f\<lparr>fl_state := Established, fl_partial := True\<rparr> else f)"

definition on_fin :: "tcp_flow \<Rightarrow> tcp_flow" where
  "on_fin f =
     (let n = sat_addw (fl_fin_count f) 1;
          f1 = f\<lparr>fl_fin_count := n\<rparr>
      in if 2 \<le> n then f1\<lparr>fl_state := Closed\<rparr>
         else if fl_state f1 = Established \<or> fl_state f1 = SynSent then f1\<lparr>fl_state := Closing\<rparr>
         else f1)"

definition on_rst :: "tcp_flow \<Rightarrow> tcp_flow" where
  "on_rst f = f\<lparr>fl_state := Closed\<rparr>"

definition flow_memory_used :: "tcp_flow \<Rightarrow> usize rust" where
  "flow_memory_used f =
     add64 (dir_memory_used (fl_client_to_server f)) (dir_memory_used (fl_server_to_client f))"

section \<open>Basic lemmas\<close>

lemma get_set_direction [simp]:
  "get_direction dir (set_direction dir' d f) = (if dir = dir' then d else get_direction dir f)"
  by (cases dir; cases dir') auto

lemma set_direction_frame [simp]:
  "fl_key (set_direction dir d f) = fl_key f"
  "fl_state (set_direction dir d f) = fl_state f"
  "fl_last_seen (set_direction dir d f) = fl_last_seen f"
  "fl_last_activity_index (set_direction dir d f) = fl_last_activity_index f"
  "fl_initiator (set_direction dir d f) = fl_initiator f"
  "fl_fin_count (set_direction dir d f) = fl_fin_count f"
  "fl_partial (set_direction dir d f) = fl_partial f"
  by (cases dir, auto)+

lemma direction_of_set_direction [simp]:
  "flow_direction_of (set_direction dir d f) ip p = flow_direction_of f ip p"
  by (simp add: flow_direction_of_def)

text \<open>Transitions of the state machine leave the two segment buffers alone.\<close>

lemma transitions_keep_directions [simp]:
  "get_direction dir (set_initiator ip p f) = get_direction dir f"
  "get_direction dir (on_syn f) = get_direction dir f"
  "get_direction dir (on_syn_ack f) = get_direction dir f"
  "get_direction dir (on_data_without_syn f) = get_direction dir f"
  "get_direction dir (on_fin f) = get_direction dir f"
  "get_direction dir (on_rst f) = get_direction dir f"
  by (cases dir; simp add: set_initiator_def on_syn_def on_syn_ack_def on_data_without_syn_def
        on_fin_def on_rst_def Let_def)+

lemma transitions_keep_key [simp]:
  "fl_key (set_initiator ip p f) = fl_key f"
  "fl_key (on_syn f) = fl_key f"
  "fl_key (on_syn_ack f) = fl_key f"
  "fl_key (on_data_without_syn f) = fl_key f"
  "fl_key (on_fin f) = fl_key f"
  "fl_key (on_rst f) = fl_key f"
  by (simp_all add: set_initiator_def on_syn_def on_syn_ack_def on_data_without_syn_def
        on_fin_def on_rst_def Let_def)

section \<open>The state machine as a step relation\<close>

text \<open>The events the engine raises on a flow, and one rule per transition.\<close>

inductive flow_step :: "tcp_flow \<Rightarrow> tcp_flow \<Rightarrow> bool" where
  syn: "flow_step f (on_syn f)"
| syn_ack: "flow_step f (on_syn_ack f)"
| data: "flow_step f (on_data_without_syn f)"
| fin: "flow_step f (on_fin f)"
| rst: "flow_step f (on_rst f)"

inductive_cases flow_stepE: "flow_step f g"

fun state_rank :: "flow_state \<Rightarrow> nat" where
  "state_rank New = 0"
| "state_rank SynSent = 1"
| "state_rank Established = 2"
| "state_rank Closing = 3"
| "state_rank Closed = 4"

lemma flow_step_rank: "flow_step f g \<Longrightarrow> state_rank (fl_state f) \<le> state_rank (fl_state g)"
  by (cases "fl_state f")
     (auto elim!: flow_stepE simp: on_syn_def on_syn_ack_def on_data_without_syn_def
        on_fin_def on_rst_def Let_def)

lemma flow_step_fin_count: "flow_step f g \<Longrightarrow> fl_fin_count f \<le> fl_fin_count g"
  by (auto elim!: flow_stepE simp: on_syn_def on_syn_ack_def on_data_without_syn_def
        on_fin_def on_rst_def Let_def sat_addw_ge)

lemma flow_steps_rank: "flow_step\<^sup>*\<^sup>* f g \<Longrightarrow> state_rank (fl_state f) \<le> state_rank (fl_state g)"
  by (induction rule: rtranclp_induct) (auto dest: flow_step_rank)

lemma state_rank_inj: "state_rank s = state_rank t \<Longrightarrow> s = t"
  by (cases s; cases t) auto

end
