(* ===== verification/Reassembly.thy ===== *)
theory Reassembly
  imports Segment
begin

text \<open>
  The reassembly engine: \<open>TcpReassembler\<close> of \<open>src/reassembly/mod.rs\<close>, its
  configuration and counters (\<open>config.rs\<close>, \<open>stats.rs\<close>), and flow retirement and
  finding emission (\<open>lifecycle.rs\<close>).

  The engine is a record (prefix \<open>ra_\<close>). A method that calls its handler takes the
  handler's operations and state and returns both states; a panic, in the engine or
  in the handler, is \<open>None\<close>. The flow table is a \<open>HashMap\<close>: where the code visits
  it, the order comes from the field \<open>ra_seed\<close>, so a theorem about every engine is a
  theorem about every iteration order.
\<close>

section \<open>Configuration and counters\<close>

record reassembly_config =
  cfg_max_depth :: usize
  cfg_memcap :: usize
  cfg_flow_timeout_secs :: u32
  cfg_max_flows :: usize
  cfg_max_segments_per_direction :: usize
  cfg_max_receive_window :: usize
  cfg_overlap_alert_threshold :: u32
  cfg_small_segment_alert_threshold :: u32
  cfg_small_segment_max_bytes :: u16
  cfg_small_segment_ignore_ports :: "u16 list"
  cfg_out_of_window_alert_threshold :: u32
  cfg_expiry_sweep_interval :: u64
  cfg_idle_packet_threshold :: u64

definition reassembly_config_default :: reassembly_config where
  "reassembly_config_default =
     \<lparr>cfg_max_depth = 10 * 1024 * 1024, cfg_memcap = 1024 * 1024 * 1024,
      cfg_flow_timeout_secs = 300, cfg_max_flows = 100000,
      cfg_max_segments_per_direction = 10000, cfg_max_receive_window = 1048576,
      cfg_overlap_alert_threshold = 50, cfg_small_segment_alert_threshold = 100,
      cfg_small_segment_max_bytes = 16, cfg_small_segment_ignore_ports = [23, 513],
      cfg_out_of_window_alert_threshold = 100, cfg_expiry_sweep_interval = 8192,
      cfg_idle_packet_threshold = 65536\<rparr>"

record reassembly_stats =
  st_packets_processed :: u64
  st_packets_tcp :: u64
  st_packets_skipped_non_tcp :: u64
  st_flows_total :: u64
  st_flows_partial :: u64
  st_flows_expired :: u64
  st_flows_rst :: u64
  st_flows_fin :: u64
  st_segments_inserted :: u64
  st_segments_duplicates :: u64
  st_segments_overlaps :: u64
  st_segments_out_of_window :: u64
  st_segments_segment_limit :: u64
  st_segments_depth_exceeded :: u64
  st_bytes_reassembled :: u64
  st_evictions :: u64
  st_dropped_findings :: u64

definition reassembly_stats_default :: reassembly_stats where
  "reassembly_stats_default =
     \<lparr>st_packets_processed = 0, st_packets_tcp = 0, st_packets_skipped_non_tcp = 0,
      st_flows_total = 0, st_flows_partial = 0, st_flows_expired = 0, st_flows_rst = 0,
      st_flows_fin = 0, st_segments_inserted = 0, st_segments_duplicates = 0,
      st_segments_overlaps = 0, st_segments_out_of_window = 0, st_segments_segment_limit = 0,
      st_segments_depth_exceeded = 0, st_bytes_reassembled = 0, st_evictions = 0,
      st_dropped_findings = 0\<rparr>"

section \<open>The engine\<close>

definition max_findings :: usize where
  "max_findings = 10000"

definition plural_s :: "u64 \<Rightarrow> string" where
  "plural_s n = (if n = 1 then [] else ''s'')"

record tcp_fields =
  tf_src_port :: u16
  tf_dst_port :: u16
  tf_seq :: u32
  tf_syn :: bool
  tf_ack :: bool
  tf_fin :: bool
  tf_rst :: bool

datatype post_handshake = Continue | FlowClosed

datatype eviction_trigger = MaxFlows | MemCap

record reassembler =
  ra_config :: reassembly_config
  ra_flows :: "(flow_key, tcp_flow) hash_map"
  ra_stats :: reassembly_stats
  ra_findings :: "finding list"
  ra_total_memory :: usize
  ra_finalized :: bool
  ra_last_expiry_sweep_secs :: u32
  ra_packet_index :: u64
  ra_seed :: "flow_key hash_seed"

text \<open>\<open>TcpReassembler::new\<close>: the five \<open>assert!\<close>s, then the empty engine.\<close>

definition reassembler_new :: "flow_key hash_seed \<Rightarrow> reassembly_config \<Rightarrow> reassembler rust" where
  "reassembler_new seed config =
     (if cfg_max_depth config > 0 \<and> cfg_memcap config > 0 \<and> cfg_max_flows config > 0 \<and>
         cfg_max_segments_per_direction config > 0 \<and> cfg_max_receive_window config > 0
      then Some \<lparr>ra_config = config, ra_flows = [], ra_stats = reassembly_stats_default,
                 ra_findings = [], ra_total_memory = 0, ra_finalized = False,
                 ra_last_expiry_sweep_secs = 0, ra_packet_index = 0, ra_seed = seed\<rparr>
      else None)"

text \<open>\<open>self.stats.c = self.stats.c.saturating_add(1)\<close>.\<close>

definition bump :: "((u64 \<Rightarrow> u64) \<Rightarrow> reassembly_stats \<Rightarrow> reassembly_stats) \<Rightarrow> reassembler \<Rightarrow> reassembler" where
  "bump upd r = r\<lparr>ra_stats := upd (\<lambda>n. sat_add64 n 1) (ra_stats r)\<rparr>"

text \<open>The push of a finding under the cap \<open>MAX_FINDINGS\<close>.\<close>

definition push_finding :: "finding \<Rightarrow> reassembler \<Rightarrow> reassembler" where
  "push_finding f r =
     (if length (ra_findings r) < max_findings then r\<lparr>ra_findings := ra_findings r @ [f]\<rparr>
      else bump st_dropped_findings_update r)"

subsection \<open>Flow retirement (\<open>lifecycle.rs\<close>)\<close>

text \<open>The loop \<open>for (offset, data) in &flushed\<close>.\<close>

fun deliver ::
  "'h stream_handler \<Rightarrow> flow_key \<Rightarrow> direction \<Rightarrow> u32 \<Rightarrow> (u64 \<times> bytes) list
   \<Rightarrow> reassembly_stats \<times> 'h \<Rightarrow> (reassembly_stats \<times> 'h) rust"
where
  "deliver H key dir ts [] sh = Some sh"
| "deliver H key dir ts ((off, data) # rest) (s, h) = do {
     n \<leftarrow> add64 (st_bytes_reassembled s) (length data);
     h' \<leftarrow> on_data H h key dir data off ts;
     deliver H key dir ts rest (s\<lparr>st_bytes_reassembled := n\<rparr>, h')
   }"

definition close_flow ::
  "'h stream_handler \<Rightarrow> flow_key \<Rightarrow> close_reason \<Rightarrow> reassembler \<times> 'h \<Rightarrow> (reassembler \<times> 'h) rust"
where
  "close_flow H key reason rh =
     (let (r, h) = rh in
      case hm_get (ra_flows r) key of
        None \<Rightarrow> Some (r, h)
      | Some flow \<Rightarrow> do {
          let close_timestamp = fl_last_seen flow;
          flow_mem \<leftarrow> flow_memory_used flow;
          (d1, flushed1) \<leftarrow> flush_contiguous (get_direction ClientToServer flow);
          (s1, h1) \<leftarrow> deliver H key ClientToServer close_timestamp flushed1 (ra_stats r, h);
          (d2, flushed2) \<leftarrow> flush_contiguous (get_direction ServerToClient flow);
          (s2, h2) \<leftarrow> deliver H key ServerToClient close_timestamp flushed2 (s1, h1);
          mem \<leftarrow> sub64 (ra_total_memory r) flow_mem;
          h3 \<leftarrow> on_flow_close H h2 key reason;
          Some (r\<lparr>ra_flows := hm_remove key (ra_flows r), ra_stats := s2, ra_total_memory := mem\<rparr>, h3)
        })"

text \<open>The victims in the order \<open>sort_by\<close> leaves them; it is stable, as \<open>sort_key\<close> is.\<close>

definition eviction_candidates :: "reassembler \<Rightarrow> (flow_key \<times> bool \<times> u32) list" where
  "eviction_candidates r =
     sort_key (\<lambda>(_, is_established, last_seen). (is_established, last_seen))
       (map (\<lambda>(key, flow). (key, fl_state flow = Established, fl_last_seen flow))
          (hm_iter (ra_seed r) (ra_flows r)))"

fun evict_loop ::
  "'h stream_handler \<Rightarrow> usize \<Rightarrow> (flow_key \<times> bool \<times> u32) list \<Rightarrow> reassembler \<times> 'h \<Rightarrow> (reassembler \<times> 'h) rust"
where
  "evict_loop H target [] rh = Some rh"
| "evict_loop H target ((key, _, _) # rest) (r, h) =
     (if ra_total_memory r \<le> cfg_memcap (ra_config r) \<and> length (ra_flows r) \<le> target then Some (r, h)
      else do {
        rh' \<leftarrow> close_flow H key MemoryPressureClose (bump st_evictions_update r, h);
        evict_loop H target rest rh'
      })"

definition flow_count_target :: "eviction_trigger \<Rightarrow> reassembly_config \<Rightarrow> usize rust" where
  "flow_count_target trigger c =
     (case trigger of
        MaxFlows \<Rightarrow> do { n \<leftarrow> mul64 (cfg_max_flows c) 9; Some (min (n div 10) (cfg_max_flows c - 1)) }
      | MemCap \<Rightarrow> Some (cfg_max_flows c - 1))"

definition evict_flows ::
  "'h stream_handler \<Rightarrow> eviction_trigger \<Rightarrow> reassembler \<times> 'h \<Rightarrow> (reassembler \<times> 'h) rust"
where
  "evict_flows H trigger rh = do {
     target \<leftarrow> flow_count_target trigger (ra_config (fst rh));
     evict_loop H target (eviction_candidates (fst rh)) rh
   }"

definition generate_conflicting_overlap_finding ::
  "flow_key \<Rightarrow> ip_addr \<Rightarrow> u32 \<Rightarrow> reassembler \<Rightarrow> reassembler"
where
  "generate_conflicting_overlap_finding key src ts =
     push_finding \<lparr>category = Anomaly, verdict = Likely, confidence = High,
       summary = [Lit ''Conflicting TCP segment overlap on flow '', Key key],
       evidence = [[Lit ''Retransmitted segment contains different data'']],
       mitre_techniques = [''T1036''], source_ip = Some src, timestamp = Some ts, direction = None\<rparr>"

definition generate_truncated_finding ::
  "flow_key \<Rightarrow> ip_addr \<Rightarrow> u32 \<Rightarrow> reassembler \<Rightarrow> reassembler"
where
  "generate_truncated_finding key src ts r =
     push_finding \<lparr>category = Anomaly, verdict = Inconclusive, confidence = Low,
       summary = [Lit ''Stream depth exceeded on flow '', Key key],
       evidence = [[Lit ''Max depth '', Dec (cfg_max_depth (ra_config r)), Lit '' bytes reached'']],
       mitre_techniques = [], source_ip = Some src, timestamp = Some ts, direction = None\<rparr> r"

subsection \<open>The per-packet path (\<open>mod.rs\<close>)\<close>

definition extract_tcp_context ::
  "parsed_packet \<Rightarrow> reassembler \<Rightarrow> reassembler \<times> (flow_key \<times> tcp_fields) option"
where
  "extract_tcp_context p r =
     (if protocol p \<noteq> Tcp then (bump st_packets_skipped_non_tcp_update r, None)
      else case transport p of
        TcpInfo sp dp seq syn ack fin rst \<Rightarrow>
          (r, Some (flow_key_new (src_ip p) sp (dst_ip p) dp,
                    \<lparr>tf_src_port = sp, tf_dst_port = dp, tf_seq = seq, tf_syn = syn, tf_ack = ack,
                     tf_fin = fin, tf_rst = rst\<rparr>))
      | _ \<Rightarrow> (r, None))"

text \<open>The end of \<open>get_or_create_flow\<close>: stamp the flow that is now in the table.\<close>

definition touch_flow :: "flow_key \<Rightarrow> u32 \<Rightarrow> reassembler \<Rightarrow> reassembler rust" where
  "touch_flow key ts r =
     (case hm_get (ra_flows r) key of
        None \<Rightarrow> None
      | Some f \<Rightarrow> Some (r\<lparr>ra_flows := hm_insert key
          (f\<lparr>fl_last_seen := ts, fl_last_activity_index := ra_packet_index r\<rparr>) (ra_flows r)\<rparr>))"

definition create_flow :: "flow_key \<Rightarrow> u32 \<Rightarrow> reassembler \<Rightarrow> reassembler" where
  "create_flow key ts r =
     bump st_flows_total_update (r\<lparr>ra_flows := hm_insert key (tcp_flow_new key ts) (ra_flows r)\<rparr>)"

definition get_or_create_flow ::
  "'h stream_handler \<Rightarrow> flow_key \<Rightarrow> u32 \<Rightarrow> reassembler \<times> 'h \<Rightarrow> ((reassembler \<times> bool) \<times> 'h) rust"
where
  "get_or_create_flow H key ts rh =
     (let (r, h) = rh in
      if hm_get (ra_flows r) key = None then
        if cfg_max_flows (ra_config r) \<le> length (ra_flows r) then do {
          (r1, h1) \<leftarrow> evict_flows H MaxFlows (r, h);
          if cfg_max_flows (ra_config r1) \<le> length (ra_flows r1) then Some ((r1, False), h1)
          else do { r2 \<leftarrow> touch_flow key ts (create_flow key ts r1); Some ((r2, True), h1) }
        }
        else do { r2 \<leftarrow> touch_flow key ts (create_flow key ts r); Some ((r2, True), h) }
      else do { r2 \<leftarrow> touch_flow key ts r; Some ((r2, True), h) })"

text \<open>The state changes of \<open>apply_handshake_flags\<close> on the flow, flag by flag.\<close>

definition handshake_syn :: "parsed_packet \<Rightarrow> tcp_fields \<Rightarrow> tcp_flow \<Rightarrow> tcp_flow" where
  "handshake_syn p tcp f =
     (if tf_syn tcp \<and> \<not> tf_ack tcp then
        let f1 = set_initiator (src_ip p) (tf_src_port tcp) f;
            dir = flow_direction_of f1 (src_ip p) (tf_src_port tcp)
        in on_syn (set_direction dir (set_isn (tf_seq tcp) (get_direction dir f1)) f1)
      else f)"

definition handshake_syn_ack :: "parsed_packet \<Rightarrow> tcp_fields \<Rightarrow> tcp_flow \<Rightarrow> tcp_flow" where
  "handshake_syn_ack p tcp f =
     (if tf_syn tcp \<and> tf_ack tcp then
        let f1 = set_initiator (dst_ip p) (tf_dst_port tcp) f;
            dir = flow_direction_of f1 (src_ip p) (tf_src_port tcp)
        in on_syn_ack (set_direction dir (set_isn (tf_seq tcp) (get_direction dir f1)) f1)
      else f)"

definition handshake_fin :: "parsed_packet \<Rightarrow> tcp_fields \<Rightarrow> tcp_flow \<Rightarrow> tcp_flow" where
  "handshake_fin p tcp f =
     (if tf_fin tcp then
        let dir = flow_direction_of f (src_ip p) (tf_src_port tcp)
        in on_fin (set_direction dir ((get_direction dir f)\<lparr>fd_fin_seen := True\<rparr>) f)
      else f)"

definition put_flow :: "flow_key \<Rightarrow> tcp_flow \<Rightarrow> reassembler \<Rightarrow> reassembler" where
  "put_flow key f r = r\<lparr>ra_flows := hm_insert key f (ra_flows r)\<rparr>"

definition apply_handshake_flags ::
  "'h stream_handler \<Rightarrow> parsed_packet \<Rightarrow> flow_key \<Rightarrow> tcp_fields \<Rightarrow> reassembler \<times> 'h
   \<Rightarrow> ((reassembler \<times> post_handshake) \<times> 'h) rust"
where
  "apply_handshake_flags H p key tcp rh =
     (let (r, h) = rh in
      case hm_get (ra_flows r) key of
        None \<Rightarrow> None
      | Some f \<Rightarrow>
          (let f1 = handshake_syn_ack p tcp (handshake_syn p tcp f) in
           if tf_rst tcp then do {
             (r1, h1) \<leftarrow> close_flow H key RstClose (bump st_flows_rst_update (put_flow key (on_rst f1) r), h);
             Some ((r1, FlowClosed), h1)
           }
           else Some ((put_flow key (handshake_fin p tcp f1) r, Continue), h)))"

text \<open>The mid-stream join at the start of \<open>insert_payload_segment\<close>.\<close>

definition join_midstream :: "parsed_packet \<Rightarrow> tcp_fields \<Rightarrow> tcp_flow \<Rightarrow> tcp_flow" where
  "join_midstream p tcp f =
     (if fl_state f = New then
        let f1 = set_initiator (src_ip p) (tf_src_port tcp) (on_data_without_syn f);
            dir = flow_direction_of f1 (src_ip p) (tf_src_port tcp)
        in set_direction dir (infer_isn (tf_seq tcp) (get_direction dir f1)) f1
      else f)"

definition reached_window :: "insert_result \<Rightarrow> bool" where
  "reached_window res = (res \<notin> {OutOfWindow, SegmentLimitReached, DepthExceeded, IsnMissing})"

definition track_small_segment :: "u16 \<Rightarrow> bytes \<Rightarrow> insert_result \<Rightarrow> flow_direction \<Rightarrow> flow_direction" where
  "track_small_segment max_bytes data res d =
     (if data \<noteq> [] \<and> reached_window res then
        if length data < unat max_bytes
        then d\<lparr>fd_small_segment_run := sat_addw (fd_small_segment_run d) 1\<rparr>
        else d\<lparr>fd_small_segment_run := 0\<rparr>
      else d)"

text \<open>The final \<open>match result\<close>.\<close>

definition count_insert_result ::
  "insert_result \<Rightarrow> usize \<Rightarrow> flow_key \<Rightarrow> ip_addr \<Rightarrow> u32 \<Rightarrow> reassembler \<Rightarrow> reassembler"
where
  "count_insert_result res bytes_added key src ts r =
     (case res of
        Inserted \<Rightarrow> bump st_segments_inserted_update r
      | Duplicate \<Rightarrow> bump st_segments_duplicates_update r
      | PartialOverlap \<Rightarrow> bump st_segments_inserted_update (bump st_segments_overlaps_update r)
      | ConflictingOverlap \<Rightarrow>
          generate_conflicting_overlap_finding key src ts (bump st_segments_overlaps_update r)
      | Truncated \<Rightarrow> generate_truncated_finding key src ts (bump st_segments_inserted_update r)
      | DepthExceeded \<Rightarrow> bump st_segments_depth_exceeded_update r
      | SegmentLimitReached \<Rightarrow>
          (let r1 = bump st_segments_segment_limit_update r in
           if bytes_added > 0 then bump st_segments_inserted_update (bump st_segments_overlaps_update r1) else r1)
      | OutOfWindow \<Rightarrow> bump st_segments_out_of_window_update r
      | IsnMissing \<Rightarrow> r)"

definition insert_payload_segment ::
  "parsed_packet \<Rightarrow> flow_key \<Rightarrow> tcp_fields \<Rightarrow> u32 \<Rightarrow> reassembler \<Rightarrow> (reassembler \<times> direction) rust"
where
  "insert_payload_segment p key tcp ts r =
     (case hm_get (ra_flows r) key of
        None \<Rightarrow> None
      | Some f0 \<Rightarrow> do {
          let r1 = (if fl_state f0 = New then bump st_flows_partial_update r else r);
          let f = join_midstream p tcp f0;
          let dir = flow_direction_of f (src_ip p) (tf_src_port tcp);
          let d0 = get_direction dir f;
          let d1 = (if fd_isn d0 = None then infer_isn (tf_seq tcp) d0 else d0);
          (d2, res) \<leftarrow> insert_segment d1 (tf_seq tcp) (payload p) (cfg_max_depth (ra_config r))
             (cfg_max_segments_per_direction (ra_config r)) (cfg_max_receive_window (ra_config r));
          let bytes_added = fd_buffered_bytes d2 - fd_buffered_bytes d1;
          mem \<leftarrow> add64 (ra_total_memory r) bytes_added;
          let d3 = track_small_segment (cfg_small_segment_max_bytes (ra_config r)) (payload p) res d2;
          let r2 = (put_flow key (set_direction dir d3 f) r1)\<lparr>ra_total_memory := mem\<rparr>;
          Some (count_insert_result res bytes_added key (src_ip p) ts r2, dir)
        })"

text \<open>The three threshold checks of \<open>check_anomaly_thresholds\<close>: each flips its latch and
  pushes its finding, the latch also when the cap drops the finding.\<close>

definition check_overlap ::
  "flow_key \<Rightarrow> ip_addr \<Rightarrow> direction \<Rightarrow> u32 \<Rightarrow> flow_direction \<times> reassembler \<Rightarrow> flow_direction \<times> reassembler"
where
  "check_overlap key src dir ts dr =
     (let (d, r) = dr in
      if fd_overlap_count d > cfg_overlap_alert_threshold (ra_config r) \<and> \<not> fd_overlap_alert_fired d
      then (d\<lparr>fd_overlap_alert_fired := True\<rparr>,
            push_finding \<lparr>category = Anomaly, verdict = Likely, confidence = Medium,
              summary = [Lit ''Excessive segment overlaps ('', Dec (unat (fd_overlap_count d)),
                         Lit '') on flow '', Key key],
              evidence = [[Lit ''Possible evasion attempt'']],
              mitre_techniques = [''T1036''], source_ip = Some src, timestamp = Some ts,
              direction = Some dir\<rparr> r)
      else (d, r))"

definition check_small_segments ::
  "flow_key \<Rightarrow> ip_addr \<Rightarrow> direction \<Rightarrow> u32 \<Rightarrow> flow_direction \<times> reassembler \<Rightarrow> flow_direction \<times> reassembler"
where
  "check_small_segments key src dir ts dr =
     (let (d, r) = dr in
      if fd_small_segment_run d > cfg_small_segment_alert_threshold (ra_config r) \<and>
         \<not> fd_small_segment_alert_fired d \<and>
         \<not> list_ex (\<lambda>p. p = lower_port key \<or> p = upper_port key) (cfg_small_segment_ignore_ports (ra_config r))
      then (d\<lparr>fd_small_segment_alert_fired := True\<rparr>,
            push_finding \<lparr>category = Anomaly, verdict = Inconclusive, confidence = Medium,
              summary = [Lit ''Excessive consecutive small segments ('', Dec (unat (fd_small_segment_run d)),
                         Lit '') on flow '', Key key],
              evidence = [[Lit ''Long unbroken run of undersized TCP segments; possible segmentation-based IDS evasion'']],
              mitre_techniques = [], source_ip = Some src, timestamp = Some ts,
              direction = Some dir\<rparr> r)
      else (d, r))"

definition check_out_of_window ::
  "flow_key \<Rightarrow> ip_addr \<Rightarrow> direction \<Rightarrow> u32 \<Rightarrow> flow_direction \<times> reassembler \<Rightarrow> flow_direction \<times> reassembler"
where
  "check_out_of_window key src dir ts dr =
     (let (d, r) = dr in
      if fd_out_of_window_count d > cfg_out_of_window_alert_threshold (ra_config r) \<and>
         \<not> fd_out_of_window_alert_fired d
      then (d\<lparr>fd_out_of_window_alert_fired := True\<rparr>,
            push_finding \<lparr>category = Anomaly, verdict = Inconclusive, confidence = Low,
              summary = [Lit ''Excessive out-of-window segments ('', Dec (unat (fd_out_of_window_count d)),
                         Lit '') on flow '', Key key],
              evidence = [[Lit ''max_receive_window='', Dec (cfg_max_receive_window (ra_config r)),
                           Lit '' bytes; possible misconfiguration, evasion, or capture corruption'']],
              mitre_techniques = [], source_ip = Some src, timestamp = Some ts,
              direction = Some dir\<rparr> r)
      else (d, r))"

definition check_anomaly_thresholds ::
  "parsed_packet \<Rightarrow> flow_key \<Rightarrow> direction \<Rightarrow> u32 \<Rightarrow> reassembler \<Rightarrow> reassembler rust"
where
  "check_anomaly_thresholds p key dir ts r =
     (case hm_get (ra_flows r) key of
        None \<Rightarrow> None
      | Some f \<Rightarrow>
          (let (d, r1) = check_out_of_window key (src_ip p) dir ts
                          (check_small_segments key (src_ip p) dir ts
                            (check_overlap key (src_ip p) dir ts (get_direction dir f, r)))
           in Some (put_flow key (set_direction dir d f) r1)))"

definition flush_contiguous_data ::
  "'h stream_handler \<Rightarrow> flow_key \<Rightarrow> direction \<Rightarrow> u32 \<Rightarrow> reassembler \<times> 'h \<Rightarrow> (reassembler \<times> 'h) rust"
where
  "flush_contiguous_data H key dir ts rh =
     (let (r, h) = rh in
      case hm_get (ra_flows r) key of
        None \<Rightarrow> None
      | Some f \<Rightarrow> do {
          let d = get_direction dir f;
          (d', flushed) \<leftarrow> flush_contiguous d;
          freed \<leftarrow> sub64 (fd_buffered_bytes d) (fd_buffered_bytes d');
          mem \<leftarrow> sub64 (ra_total_memory r) freed;
          (s, h') \<leftarrow> deliver H key dir ts flushed (ra_stats r, h);
          Some ((put_flow key (set_direction dir d' f) r)\<lparr>ra_total_memory := mem, ra_stats := s\<rparr>, h')
        })"

subsection \<open>Expiry\<close>

text \<open>The loop over \<open>expired_keys\<close>, shared by the three sweeps.\<close>

fun expire_loop ::
  "'h stream_handler \<Rightarrow> flow_key list \<Rightarrow> reassembler \<times> 'h \<Rightarrow> (reassembler \<times> 'h) rust"
where
  "expire_loop H [] rh = Some rh"
| "expire_loop H (key # rest) (r, h) = do {
     rh' \<leftarrow> close_flow H key TimeoutClose (bump st_flows_expired_update r, h);
     expire_loop H rest rh'
   }"

definition select_flows :: "(tcp_flow \<Rightarrow> bool) \<Rightarrow> reassembler \<Rightarrow> flow_key list" where
  "select_flows P r = map fst (filter (\<lambda>(key, flow). P flow) (hm_iter (ra_seed r) (ra_flows r)))"

definition timed_out :: "u32 \<Rightarrow> u32 \<Rightarrow> tcp_flow \<Rightarrow> bool" where
  "timed_out timeout current_time f =
     (current_time > fl_last_seen f \<and> current_time - fl_last_seen f > timeout)"

definition expire_idle_by_timeout ::
  "'h stream_handler \<Rightarrow> u32 \<Rightarrow> reassembler \<times> 'h \<Rightarrow> (reassembler \<times> 'h) rust"
where
  "expire_idle_by_timeout H current_time rh =
     (let r = fst rh in
      expire_loop H (select_flows (timed_out (cfg_flow_timeout_secs (ra_config r)) current_time) r) rh)"

definition packet_idle :: "u64 \<Rightarrow> u64 \<Rightarrow> tcp_flow \<Rightarrow> bool" where
  "packet_idle threshold current f = (current - fl_last_activity_index f > threshold)"

definition expire_idle_by_packet_index ::
  "'h stream_handler \<Rightarrow> reassembler \<times> 'h \<Rightarrow> (reassembler \<times> 'h) rust"
where
  "expire_idle_by_packet_index H rh =
     (let r = fst rh in
      expire_loop H
        (select_flows (packet_idle (cfg_idle_packet_threshold (ra_config r)) (ra_packet_index r)) r) rh)"

definition expire_flows ::
  "'h stream_handler \<Rightarrow> u32 \<Rightarrow> reassembler \<times> 'h \<Rightarrow> (reassembler \<times> 'h) rust"
where
  "expire_flows H current_time rh =
     (let r = fst rh in
      expire_loop H
        (select_flows (\<lambda>f. fl_state f = Closed \<or>
            timed_out (cfg_flow_timeout_secs (ra_config r)) current_time f) r) rh)"

subsection \<open>The entry points\<close>

definition sweep_by_time :: "'h stream_handler \<Rightarrow> u32 \<Rightarrow> reassembler \<times> 'h \<Rightarrow> (reassembler \<times> 'h) rust" where
  "sweep_by_time H ts rh =
     (let (r, h) = rh in
      if ts > ra_last_expiry_sweep_secs r
      then expire_idle_by_timeout H ts (r\<lparr>ra_last_expiry_sweep_secs := ts\<rparr>, h)
      else Some (r, h))"

text \<open>\<open>u64::is_multiple_of\<close> with a zero interval holds only of zero, as \<open>dvd\<close> does.\<close>

definition sweep_by_index :: "'h stream_handler \<Rightarrow> reassembler \<times> 'h \<Rightarrow> (reassembler \<times> 'h) rust" where
  "sweep_by_index H rh =
     (if cfg_expiry_sweep_interval (ra_config (fst rh)) dvd ra_packet_index (fst rh)
      then expire_idle_by_packet_index H rh else Some rh)"

definition process_payload ::
  "'h stream_handler \<Rightarrow> parsed_packet \<Rightarrow> flow_key \<Rightarrow> tcp_fields \<Rightarrow> u32 \<Rightarrow> reassembler \<times> 'h
   \<Rightarrow> (reassembler \<times> 'h) rust"
where
  "process_payload H p key tcp ts rh =
     (if payload p \<noteq> [] then do {
        (r1, dir) \<leftarrow> insert_payload_segment p key tcp ts (fst rh);
        r2 \<leftarrow> check_anomaly_thresholds p key dir ts r1;
        flush_contiguous_data H key dir ts (r2, snd rh)
      }
      else Some rh)"

definition close_if_closed ::
  "'h stream_handler \<Rightarrow> flow_key \<Rightarrow> reassembler \<times> 'h \<Rightarrow> (reassembler \<times> 'h) rust"
where
  "close_if_closed H key rh =
     (let (r, h) = rh in
      case hm_get (ra_flows r) key of
        Some f \<Rightarrow> if fl_state f = Closed then close_flow H key FinClose (bump st_flows_fin_update r, h)
                   else Some (r, h)
      | None \<Rightarrow> Some (r, h))"

definition enforce_memcap :: "'h stream_handler \<Rightarrow> reassembler \<times> 'h \<Rightarrow> (reassembler \<times> 'h) rust" where
  "enforce_memcap H rh =
     (if ra_total_memory (fst rh) > cfg_memcap (ra_config (fst rh)) then evict_flows H MemCap rh else Some rh)"

text \<open>From the flow lookup on, for a packet that is a TCP segment.\<close>

definition process_segment ::
  "'h stream_handler \<Rightarrow> parsed_packet \<Rightarrow> flow_key \<Rightarrow> tcp_fields \<Rightarrow> u32 \<Rightarrow> reassembler \<times> 'h
   \<Rightarrow> (reassembler \<times> 'h) rust"
where
  "process_segment H p key tcp ts rh = do {
     ((r4, admitted), h4) \<leftarrow> get_or_create_flow H key ts rh;
     if \<not> admitted then Some (r4, h4)
     else do {
       ((r5, post), h5) \<leftarrow> apply_handshake_flags H p key tcp (r4, h4);
       if post = FlowClosed then Some (r5, h5)
       else do {
         rh6 \<leftarrow> process_payload H p key tcp ts (r5, h5);
         rh7 \<leftarrow> close_if_closed H key rh6;
         enforce_memcap H rh7
       }
     }
   }"

definition process_packet ::
  "'h stream_handler \<Rightarrow> parsed_packet \<Rightarrow> u32 \<Rightarrow> reassembler \<times> 'h \<Rightarrow> (reassembler \<times> 'h) rust"
where
  "process_packet H p ts rh = do {
     let (r, h) = rh;
     idx \<leftarrow> add64 (ra_packet_index r) 1;
     rh1 \<leftarrow> sweep_by_time H ts ((bump st_packets_processed_update r)\<lparr>ra_packet_index := idx\<rparr>, h);
     (r2, h2) \<leftarrow> sweep_by_index H rh1;
     (case extract_tcp_context p r2 of
        (r3, None) \<Rightarrow> Some (r3, h2)
      | (r3, Some (key, tcp)) \<Rightarrow> process_segment H p key tcp ts (bump st_packets_tcp_update r3, h2))
   }"

fun close_all ::
  "'h stream_handler \<Rightarrow> flow_key list \<Rightarrow> reassembler \<times> 'h \<Rightarrow> (reassembler \<times> 'h) rust"
where
  "close_all H [] rh = Some rh"
| "close_all H (key # rest) rh = do { rh' \<leftarrow> close_flow H key TimeoutClose rh; close_all H rest rh' }"

definition segment_limit_finding :: "u64 \<Rightarrow> finding" where
  "segment_limit_finding n =
     \<lparr>category = Anomaly, verdict = Inconclusive, confidence = Medium,
      summary = [Dec n, Lit '' segment'', Lit (plural_s n), Lit '' dropped due to per-flow segment count limit''],
      evidence = [[Lit ''Segment count limit prevents BTreeMap overhead explosion''],
                  [Lit ''May indicate segmentation-based evasion attempt'']],
      mitre_techniques = [], source_ip = None, timestamp = None, direction = None\<rparr>"

definition finalize :: "'h stream_handler \<Rightarrow> reassembler \<times> 'h \<Rightarrow> (reassembler \<times> 'h) rust" where
  "finalize H rh =
     (let (r, h) = rh in
      if ra_finalized r then Some (r, h)
      else do {
        (r1, h1) \<leftarrow> close_all H (map fst (hm_iter (ra_seed r) (ra_flows r))) (r\<lparr>ra_finalized := True\<rparr>, h);
        let n = st_segments_segment_limit (ra_stats r1);
        Some (if n > 0 then r1\<lparr>ra_findings := ra_findings r1 @ [segment_limit_finding n]\<rparr> else r1, h1)
      })"

definition reassembler_summarize :: "reassembler \<Rightarrow> analysis_summary rust" where
  "reassembler_summarize r = do {
     let s = ra_stats r;
     completed \<leftarrow> add64 (st_flows_fin s) (st_flows_rst s);
     Some \<lparr>analyzer_name = ''TCP Reassembly'', packets_analyzed = st_packets_tcp s,
       detail = [''packets_processed'' \<mapsto> Num (st_packets_processed s),
                 ''packets_skipped_non_tcp'' \<mapsto> Num (st_packets_skipped_non_tcp s),
                 ''flows_total'' \<mapsto> Num (st_flows_total s),
                 ''flows_partial'' \<mapsto> Num (st_flows_partial s),
                 ''flows_fin'' \<mapsto> Num (st_flows_fin s),
                 ''flows_rst'' \<mapsto> Num (st_flows_rst s),
                 ''flows_completed'' \<mapsto> Num completed,
                 ''flows_expired'' \<mapsto> Num (st_flows_expired s),
                 ''evictions'' \<mapsto> Num (st_evictions s),
                 ''segments_inserted'' \<mapsto> Num (st_segments_inserted s),
                 ''segments_duplicates'' \<mapsto> Num (st_segments_duplicates s),
                 ''segments_overlaps'' \<mapsto> Num (st_segments_overlaps s),
                 ''segments_out_of_window'' \<mapsto> Num (st_segments_out_of_window s),
                 ''segments_segment_limit'' \<mapsto> Num (st_segments_segment_limit s),
                 ''segments_depth_exceeded'' \<mapsto> Num (st_segments_depth_exceeded s),
                 ''bytes_reassembled'' \<mapsto> Num (st_bytes_reassembled s),
                 ''dropped_findings'' \<mapsto> Num (st_dropped_findings s)]\<rparr>
   }"

text \<open>The engine fed with a capture.\<close>

fun process_packets ::
  "'h stream_handler \<Rightarrow> (parsed_packet \<times> u32) list \<Rightarrow> reassembler \<times> 'h \<Rightarrow> (reassembler \<times> 'h) rust"
where
  "process_packets H [] rh = Some rh"
| "process_packets H ((p, ts) # ps) rh = do { rh' \<leftarrow> process_packet H p ts rh; process_packets H ps rh' }"

end
