(* ===== verification/Replay.thy ===== *)
theory Replay
  imports Reassembly
begin

text \<open>
  The interface between the engine and its handler. The engine sees the handler only
  through two callbacks and never looks at its state, so a run of the engine is a run
  with a handler that merely records the events, followed by the real handler fed
  with the recording. Every question about the engine is therefore answered on the
  recording, and every question about a handler on a list of events.
\<close>

section \<open>Events\<close>

datatype stream_event =
    DataEvent flow_key direction bytes u64 u32
  | CloseEvent flow_key close_reason

definition recorder :: "stream_event list stream_handler" where
  "recorder =
     \<lparr>on_data = (\<lambda>es key dir data off ts. Some (es @ [DataEvent key dir data off ts])),
      on_flow_close = (\<lambda>es key reason. Some (es @ [CloseEvent key reason]))\<rparr>"

fun handle_event :: "'h stream_handler \<Rightarrow> stream_event \<Rightarrow> 'h \<Rightarrow> 'h rust" where
  "handle_event H (DataEvent key dir data off ts) h = on_data H h key dir data off ts"
| "handle_event H (CloseEvent key reason) h = on_flow_close H h key reason"

fun replay :: "'h stream_handler \<Rightarrow> stream_event list \<Rightarrow> 'h \<Rightarrow> 'h rust" where
  "replay H [] h = Some h"
| "replay H (e # es) h = do { h' \<leftarrow> handle_event H e h; replay H es h' }"

lemma replay_append: "replay H (es @ es') h = do { h' \<leftarrow> replay H es h; replay H es' h' }"
proof (induction es arbitrary: h)
  case (Cons e es)
  then show ?case by (cases "handle_event H e h") auto
qed simp

section \<open>Operations that only replay\<close>

text \<open>\<open>f\<close> run with the handler \<open>H\<close> does what \<open>g\<close> records.\<close>

definition replays ::
  "'h stream_handler \<Rightarrow> ('h \<Rightarrow> ('b \<times> 'h) rust) \<Rightarrow> (stream_event list \<Rightarrow> ('b \<times> stream_event list) rust) \<Rightarrow> bool"
where
  "replays H f g \<longleftrightarrow>
     (\<forall>es. g es = do { (y, new) \<leftarrow> g []; Some (y, es @ new) }) \<and>
     (\<forall>h. f h = do { (y, new) \<leftarrow> g []; h' \<leftarrow> replay H new h; Some (y, h') })"

named_theorems replay_intro \<open>rules that build replaying operations\<close>

lemma replays_panic [replay_intro]: "replays H (\<lambda>_. None) (\<lambda>_. None)"
  by (simp add: replays_def)

lemma replays_return [replay_intro]: "replays H (\<lambda>h. Some (y, h)) (\<lambda>es. Some (y, es))"
  by (simp add: replays_def)

lemma replays_on_data [replay_intro]:
  "replays H (\<lambda>h. do { h' \<leftarrow> on_data H h key dir data off ts; Some (y, h') })
             (\<lambda>es. do { es' \<leftarrow> on_data recorder es key dir data off ts; Some (y, es') })"
  by (auto simp: replays_def recorder_def Option.bind_assoc)

lemma replays_on_flow_close [replay_intro]:
  "replays H (\<lambda>h. do { h' \<leftarrow> on_flow_close H h key reason; Some (y, h') })
             (\<lambda>es. do { es' \<leftarrow> on_flow_close recorder es key reason; Some (y, es') })"
  by (auto simp: replays_def recorder_def Option.bind_assoc)

lemma replays_bind [replay_intro]:
  assumes "replays H f g" and "\<And>y. replays H (\<lambda>h. f' (y, h)) (\<lambda>es. g' (y, es))"
  shows "replays H (\<lambda>h. f h \<bind> f') (\<lambda>es. g es \<bind> g')"
proof (cases "g []")
  case None
  then have "g es = None" "f h = None" for es h using assms(1) by (simp_all add: replays_def)
  then show ?thesis by (simp add: replays_def)
next
  case (Some r)
  obtain y n1 where r: "r = (y, n1)" by force
  have g: "g es = Some (y, es @ n1)" and f: "f h = do { h' \<leftarrow> replay H n1 h; Some (y, h') }" for es h
    using assms(1) unfolding replays_def by (simp_all add: Some r)
  have g': "g' (y, es) = do { (z, new) \<leftarrow> g' (y, []); Some (z, es @ new) }"
    and f': "f' (y, h) = do { (z, new) \<leftarrow> g' (y, []); h' \<leftarrow> replay H new h; Some (z, h') }" for es h
    using assms(2) [of y] unfolding replays_def by blast+
  show ?thesis
  proof (cases "g' (y, [])")
    case None
    have "g' (y, es) = None" for es by (subst g') (simp add: None)
    moreover have "f' (y, h) = None" for h by (subst f') (simp add: None)
    ultimately show ?thesis by (auto simp: replays_def g f)
  next
    case (Some r2)
    obtain z n2 where r2: "r2 = (z, n2)" by force
    have g'2: "g' (y, es) = Some (z, es @ n2)" for es by (subst g') (simp add: Some r2)
    have f'2: "f' (y, h) = do { h' \<leftarrow> replay H n2 h; Some (z, h') }" for h by (subst f') (simp add: Some r2)
    show ?thesis by (auto simp: replays_def g f g'2 f'2 replay_append Option.bind_assoc)
  qed
qed

lemma replays_pure [replay_intro]:
  assumes "\<And>y. replays H (f' y) (g' y)"
  shows "replays H (\<lambda>h. m \<bind> (\<lambda>y. f' y h)) (\<lambda>es. m \<bind> (\<lambda>y. g' y es))"
  using assms by (cases m) (simp_all add: replays_panic)

lemma replays_if [replay_intro]:
  "(b \<Longrightarrow> replays H f g) \<Longrightarrow> (\<not> b \<Longrightarrow> replays H f' g') \<Longrightarrow>
   replays H (\<lambda>h. if b then f h else f' h) (\<lambda>es. if b then g es else g' es)"
  by (cases b) auto

lemma replays_option [replay_intro]:
  "(x = None \<Longrightarrow> replays H f g) \<Longrightarrow> (\<And>v. x = Some v \<Longrightarrow> replays H (f' v) (g' v)) \<Longrightarrow>
   replays H (\<lambda>h. case x of None \<Rightarrow> f h | Some v \<Rightarrow> f' v h) (\<lambda>es. case x of None \<Rightarrow> g es | Some v \<Rightarrow> g' v es)"
  by (cases x) auto

section \<open>The engine replays\<close>

lemma deliver_replays [replay_intro]:
  "replays H (\<lambda>h. deliver H key dir ts ch (s, h)) (\<lambda>es. deliver recorder key dir ts ch (s, es))"
proof (induction ch arbitrary: s)
  case (Cons c ch)
  obtain off data where c: "c = (off, data)" by force
  have "replays H (\<lambda>h. do { h' \<leftarrow> on_data H h key dir data off ts; deliver H key dir ts ch (s', h') })
      (\<lambda>es. do { es' \<leftarrow> on_data recorder es key dir data off ts; deliver recorder key dir ts ch (s', es') })" for s'
    using replays_bind [OF replays_on_data, of H "\<lambda>(_, h). deliver H key dir ts ch (s', h)"
        "\<lambda>(_, es). deliver recorder key dir ts ch (s', es)" key dir data off ts] Cons.IH
    by (simp add: Option.bind_assoc)
  then show ?case by (auto simp: c intro: replays_pure)
qed (simp add: replay_intro)

lemma close_flow_replays:
  "replays H (\<lambda>h. close_flow H key reason (r, h)) (\<lambda>es. close_flow recorder key reason (r, es))"
  unfolding close_flow_def
  by (simp only: split_paired_all prod.case Let_def | rule replays_return replays_panic deliver_replays
      replays_on_flow_close replays_if replays_option replays_pure | rule replays_bind)+

lemma evict_loop_replays:
  "replays H (\<lambda>h. evict_loop H t cs (r, h)) (\<lambda>es. evict_loop recorder t cs (r, es))"
proof (induction cs arbitrary: r)
  case (Cons c cs)
  obtain k b l where c: "c = (k, b, l)" by (cases c) auto
  show ?case
    unfolding c evict_loop.simps
    by (rule Cons.IH close_flow_replays replays_return replays_if | rule replays_bind)+
qed (simp add: replays_return)

lemma evict_flows_replays:
  "replays H (\<lambda>h. evict_flows H t (r, h)) (\<lambda>es. evict_flows recorder t (r, es))"
  unfolding evict_flows_def fst_conv by (rule evict_loop_replays replays_pure)+

lemma get_or_create_flow_replays:
  "replays H (\<lambda>h. get_or_create_flow H key ts (r, h)) (\<lambda>es. get_or_create_flow recorder key ts (r, es))"
  unfolding get_or_create_flow_def
  by (simp only: split_paired_all prod.case Let_def | rule replays_return evict_flows_replays
      replays_if replays_option replays_pure | rule replays_bind)+

lemma apply_handshake_flags_replays:
  "replays H (\<lambda>h. apply_handshake_flags H p key tcp (r, h)) (\<lambda>es. apply_handshake_flags recorder p key tcp (r, es))"
  unfolding apply_handshake_flags_def
  by (simp only: split_paired_all prod.case Let_def | rule replays_return replays_panic close_flow_replays
      replays_if replays_option replays_pure | rule replays_bind)+

lemma flush_contiguous_data_replays:
  "replays H (\<lambda>h. flush_contiguous_data H key dir ts (r, h)) (\<lambda>es. flush_contiguous_data recorder key dir ts (r, es))"
  unfolding flush_contiguous_data_def
  by (simp only: split_paired_all prod.case Let_def | rule replays_return replays_panic deliver_replays
      replays_if replays_option replays_pure | rule replays_bind)+

lemma expire_loop_replays:
  "replays H (\<lambda>h. expire_loop H ks (r, h)) (\<lambda>es. expire_loop recorder ks (r, es))"
proof (induction ks arbitrary: r)
  case (Cons k ks)
  show ?case
    unfolding expire_loop.simps by (rule Cons.IH close_flow_replays | rule replays_bind)+
qed (simp add: replays_return)

lemma sweeps_replay:
  "replays H (\<lambda>h. sweep_by_time H ts (r, h)) (\<lambda>es. sweep_by_time recorder ts (r, es))"
  "replays H (\<lambda>h. sweep_by_index H (r, h)) (\<lambda>es. sweep_by_index recorder (r, es))"
  "replays H (\<lambda>h. expire_flows H ts (r, h)) (\<lambda>es. expire_flows recorder ts (r, es))"
  unfolding sweep_by_time_def sweep_by_index_def expire_flows_def expire_idle_by_timeout_def
    expire_idle_by_packet_index_def
  by (simp only: prod.case Let_def fst_conv | rule replays_return expire_loop_replays replays_if)+

lemma process_payload_replays:
  "replays H (\<lambda>h. process_payload H p key tcp ts (r, h)) (\<lambda>es. process_payload recorder p key tcp ts (r, es))"
  unfolding process_payload_def
  by (simp only: split_paired_all prod.case fst_conv snd_conv | rule replays_return flush_contiguous_data_replays
      replays_if replays_pure | rule replays_bind)+

lemma close_if_closed_replays:
  "replays H (\<lambda>h. close_if_closed H key (r, h)) (\<lambda>es. close_if_closed recorder key (r, es))"
  unfolding close_if_closed_def
  by (simp only: split_paired_all prod.case Let_def | rule replays_return close_flow_replays
      replays_if replays_option)+

lemma enforce_memcap_replays:
  "replays H (\<lambda>h. enforce_memcap H (r, h)) (\<lambda>es. enforce_memcap recorder (r, es))"
  unfolding enforce_memcap_def fst_conv by (rule replays_return evict_flows_replays replays_if)+

lemma process_segment_replays:
  "replays H (\<lambda>h. process_segment H p key tcp ts (r, h)) (\<lambda>es. process_segment recorder p key tcp ts (r, es))"
  unfolding process_segment_def
  by (simp only: split_paired_all prod.case | rule replays_return get_or_create_flow_replays
      apply_handshake_flags_replays process_payload_replays close_if_closed_replays enforce_memcap_replays
      replays_if | rule replays_bind)+

lemma process_packet_replays:
  "replays H (\<lambda>h. process_packet H p ts (r, h)) (\<lambda>es. process_packet recorder p ts (r, es))"
proof -
  have tail: "replays H
      (\<lambda>h. case extract_tcp_context p r2 of (r3, None) \<Rightarrow> Some (r3, h)
           | (r3, Some (key, tcp)) \<Rightarrow> process_segment H p key tcp ts (bump st_packets_tcp_update r3, h))
      (\<lambda>h. case extract_tcp_context p r2 of (r3, None) \<Rightarrow> Some (r3, h)
           | (r3, Some (key, tcp)) \<Rightarrow> process_segment recorder p key tcp ts (bump st_packets_tcp_update r3, h))" for r2
    by (cases "extract_tcp_context p r2"; cases "snd (extract_tcp_context p r2)")
       (auto simp: replays_return process_segment_replays)
  show ?thesis
    unfolding process_packet_def
    by (simp only: split_paired_all prod.case Let_def | rule tail sweeps_replay replays_pure | rule replays_bind)+
qed

lemma process_packets_replays:
  "replays H (\<lambda>h. process_packets H ps (r, h)) (\<lambda>es. process_packets recorder ps (r, es))"
proof (induction ps arbitrary: r)
  case (Cons q ps)
  show ?case
    by (cases q) (simp only: process_packets.simps, rule replays_bind process_packet_replays Cons.IH, rule Cons.IH process_packet_replays, rule Cons.IH)
qed (simp add: replays_return)

lemma close_all_replays:
  "replays H (\<lambda>h. close_all H ks (r, h)) (\<lambda>es. close_all recorder ks (r, es))"
proof (induction ks arbitrary: r)
  case (Cons k ks)
  show ?case
    unfolding close_all.simps by (rule Cons.IH close_flow_replays | rule replays_bind)+
qed (simp add: replays_return)

lemma finalize_replays: "replays H (\<lambda>h. finalize H (r, h)) (\<lambda>es. finalize recorder (r, es))"
  unfolding finalize_def
  by (simp only: split_paired_all prod.case Let_def | rule replays_return close_all_replays replays_if | rule replays_bind)+

end
