(* ===== verification/Segment_Gaps.thy ===== *)
theory Segment_Gaps
  imports Segment
begin

text \<open>
  The byte view of a segment buffer, the shape of a well-formed buffer, and the
  correctness of the two pure kernels of \<open>insert_segment\<close>: \<open>segment_overlap\<close>
  and \<open>select_gaps\<close>.
\<close>

section \<open>Well-formed buffers and their byte view\<close>

text \<open>Segments ascending, non-empty and disjoint, none below the bound.\<close>

fun seg_chain :: "nat \<Rightarrow> bytes btree_map \<Rightarrow> bool" where
  "seg_chain lb [] = True"
| "seg_chain lb ((o1, s) # m) = (lb \<le> o1 \<and> s \<noteq> [] \<and> seg_chain (o1 + length s) m)"

fun byte_at :: "bytes btree_map \<Rightarrow> nat \<Rightarrow> u8 option" where
  "byte_at [] x = None"
| "byte_at ((o1, s) # m) x =
     (if o1 \<le> x \<and> x < o1 + length s then Some (s ! (x - o1)) else byte_at m x)"

lemma seg_chain_mono: "seg_chain lb m \<Longrightarrow> lb' \<le> lb \<Longrightarrow> seg_chain lb' m"
  by (cases m) auto

lemma seg_chain_keys: "seg_chain lb m \<Longrightarrow> (o1, s) \<in> set m \<Longrightarrow> lb \<le> o1 \<and> s \<noteq> []"
proof (induction lb m rule: seg_chain.induct)
  case (2 lb a t m)
  then show ?case by (auto dest: le_trans [of lb a] intro: le_trans)
qed simp

lemma seg_chain_bt_ok: "seg_chain lb m \<Longrightarrow> bt_ok m"
proof (induction lb m rule: seg_chain.induct)
  case (2 lb a t m)
  then have "a < b" if "(b, s) \<in> set m" for b s
    using seg_chain_keys [of "a + length t" m b s] that by (cases t) auto
  with 2 show ?case by auto
qed simp

lemma byte_at_below: "seg_chain lb m \<Longrightarrow> x < lb \<Longrightarrow> byte_at m x = None"
  by (induction lb m rule: seg_chain.induct) auto

lemma byte_at_Some_mem:
  "byte_at m x = Some b \<Longrightarrow> \<exists>o1 s. (o1, s) \<in> set m \<and> o1 \<le> x \<and> x < o1 + length s \<and> b = s ! (x - o1)"
  by (induction m x rule: byte_at.induct) (auto split: if_splits)

lemma byte_at_mem:
  "seg_chain lb m \<Longrightarrow> (o1, s) \<in> set m \<Longrightarrow> o1 \<le> x \<Longrightarrow> x < o1 + length s \<Longrightarrow> byte_at m x = Some (s ! (x - o1))"
proof (induction lb m rule: seg_chain.induct)
  case (2 lb a t m)
  show ?case
  proof (cases "(o1, s) = (a, t)")
    case True
    with 2 show ?thesis by simp
  next
    case False
    with "2.prems" have m: "(o1, s) \<in> set m" and c: "seg_chain (a + length t) m" by auto
    with seg_chain_keys [OF c m] "2.prems" "2.IH" show ?thesis by auto
  qed
qed simp

lemma byte_at_None_iff:
  "seg_chain lb m \<Longrightarrow> byte_at m x = None \<longleftrightarrow> (\<forall>(o1, s) \<in> set m. \<not> (o1 \<le> x \<and> x < o1 + length s))"
proof
  assume "seg_chain lb m" and "byte_at m x = None"
  then show "\<forall>(o1, s) \<in> set m. \<not> (o1 \<le> x \<and> x < o1 + length s)"
    by (metis (no_types, lifting) byte_at_mem case_prodI2 option.distinct(1))
next
  assume "\<forall>(o1, s) \<in> set m. \<not> (o1 \<le> x \<and> x < o1 + length s)"
  then show "byte_at m x = None"
    using byte_at_Some_mem [of m x] by (cases "byte_at m x") fastforce+
qed

text \<open>Two entries that share an offset are the same entry.\<close>

lemma seg_chain_disjoint:
  "seg_chain lb m \<Longrightarrow> (o1, s) \<in> set m \<Longrightarrow> (o2, t) \<in> set m
   \<Longrightarrow> o1 \<le> x \<Longrightarrow> x < o1 + length s \<Longrightarrow> o2 \<le> x \<Longrightarrow> x < o2 + length t \<Longrightarrow> o1 = o2 \<and> s = t"
proof (induction lb m rule: seg_chain.induct)
  case (2 lb a u m)
  then have c: "seg_chain (a + length u) m" by simp
  show ?case
    using "2.prems" "2.IH" c seg_chain_keys [OF c, of o1 s] seg_chain_keys [OF c, of o2 t] by auto
qed simp

lemma bt_insert_free:
  assumes "seg_chain lb m" and "lb \<le> k" and "s \<noteq> []"
    and "\<And>x. k \<le> x \<Longrightarrow> x < k + length s \<Longrightarrow> byte_at m x = None"
  shows "seg_chain lb (bt_insert k s m)"
    and "byte_at (bt_insert k s m) x =
           (if k \<le> x \<and> x < k + length s then Some (s ! (x - k)) else byte_at m x)"
    and "bt_get m k = None"
proof -
  have "seg_chain lb (bt_insert k s m) \<and> bt_get m k = None \<and>
        byte_at (bt_insert k s m) x =
           (if k \<le> x \<and> x < k + length s then Some (s ! (x - k)) else byte_at m x)"
    using assms
  proof (induction lb m rule: seg_chain.induct)
    case (1 lb)
    then show ?case by (simp add: bt_get_def)
  next
    case (2 lb a t m)
    have c: "seg_chain (a + length t) m" and t: "t \<noteq> []" using "2.prems" by auto
    have free: "\<not> (a \<le> y \<and> y < a + length t)" "byte_at m y = None"
      if "k \<le> y" "y < k + length s" for y
      using "2.prems"(4) [OF that] by (auto split: if_splits)
    have ks: "k < k + length s" using \<open>s \<noteq> []\<close> by simp
    consider "k < a" | "a + length t \<le> k"
      using free(1) [of k] ks by linarith
    then show ?case
    proof cases
      case 1
      have "k + length s \<le> a"
        using free(1) [of a] 1 t by (cases "a < k + length s") auto
      moreover have "map_of m k = None"
        using seg_chain_keys [OF c] 1 by (auto simp: map_of_eq_None_iff) fastforce
      ultimately show ?thesis using 1 "2.prems" by (auto simp: bt_get_def)
    next
      case 2
      with t have "a < k" "k \<noteq> a" by (cases t; simp)+
      with 2 "2.IH" c free(2) \<open>s \<noteq> []\<close> "2.prems" show ?thesis
        by (auto simp: bt_get_def)
    qed
  qed
  then show "seg_chain lb (bt_insert k s m)"
    and "byte_at (bt_insert k s m) x =
           (if k \<le> x \<and> x < k + length s then Some (s ! (x - k)) else byte_at m x)"
    and "bt_get m k = None" by auto
qed

section \<open>Overlap of one segment\<close>

lemma slices_differ_iff:
  assumes "a \<le> p" "p + n \<le> a + length xs" "b \<le> p" "p + n \<le> b + length ys"
  shows "take n (drop (p - a) xs) \<noteq> take n (drop (p - b) ys) \<longleftrightarrow>
         (\<exists>x. p \<le> x \<and> x < p + n \<and> xs ! (x - a) \<noteq> ys ! (x - b))"
proof -
  have "take n (drop (p - a) xs) = take n (drop (p - b) ys) \<longleftrightarrow>
        (\<forall>i < n. xs ! ((p + i) - a) = ys ! ((p + i) - b))"
    using assms by (auto simp: list_eq_iff_nth_eq)
  also have "\<dots> \<longleftrightarrow> (\<forall>x. p \<le> x \<and> x < p + n \<longrightarrow> xs ! (x - a) = ys ! (x - b))"
    by (metis add_less_cancel_left le_add1 le_iff_add)
  finally show ?thesis by auto
qed

lemma segment_overlap_eq:
  assumes "ns + length nd \<le> u64_max" and "eo + length ed \<le> u64_max"
  shows "segment_overlap ns nd eo ed =
    Some (ranges_overlap ns (ns + length nd) eo (eo + length ed),
          \<exists>x. ns \<le> x \<and> x < ns + length nd \<and> eo \<le> x \<and> x < eo + length ed \<and> nd ! (x - ns) \<noteq> ed ! (x - eo))"
proof (cases "ranges_overlap ns (ns + length nd) eo (eo + length ed)")
  case False
  with assms show ?thesis
    by (auto simp: segment_overlap_def ranges_overlap_def)
next
  case True
  let ?p = "max ns eo" and ?q = "min (ns + length nd) (eo + length ed)"
  from True have pq: "?p < ?q \<or> ?p \<le> ?q" by (auto simp: ranges_overlap_def)
  then have le: "?p \<le> ?q" by auto
  have "take (?q - ?p) (drop (?p - ns) nd) \<noteq> take (?q - ?p) (drop (?p - eo) ed) \<longleftrightarrow>
        (\<exists>x. ?p \<le> x \<and> x < ?p + (?q - ?p) \<and> nd ! (x - ns) \<noteq> ed ! (x - eo))"
    by (rule slices_differ_iff) (use le in auto)
  moreover have "byte_slice nd (?p - ns) (?q - ns) = Some (take (?q - ?p) (drop (?p - ns) nd))"
    and "byte_slice ed (?p - eo) (?q - eo) = Some (take (?q - ?p) (drop (?p - eo) ed))"
    using le by (auto simp: byte_slice_def)
  ultimately show ?thesis
    using True assms le by (auto simp: segment_overlap_def Let_def)
qed

section \<open>Gap selection\<close>

text \<open>Non-empty half-open ranges, ascending and disjoint, inside the given bounds.\<close>

fun gap_chain :: "nat \<Rightarrow> nat \<Rightarrow> (nat \<times> nat) list \<Rightarrow> bool" where
  "gap_chain lb ub [] = True"
| "gap_chain lb ub ((a, b) # g) = (lb \<le> a \<and> a < b \<and> b \<le> ub \<and> gap_chain b ub g)"

definition in_ranges :: "(nat \<times> nat) list \<Rightarrow> nat \<Rightarrow> bool" where
  "in_ranges rs x = (\<exists>(a, b) \<in> set rs. a \<le> x \<and> x < b)"

lemma in_ranges_simps [simp]:
  "in_ranges [] x = False"
  "in_ranges ((a, b) # rs) x = ((a \<le> x \<and> x < b) \<or> in_ranges rs x)"
  "in_ranges (rs @ rs') x = (in_ranges rs x \<or> in_ranges rs' x)"
  by (auto simp: in_ranges_def)

lemma gap_chain_mono: "gap_chain lb ub g \<Longrightarrow> lb' \<le> lb \<Longrightarrow> gap_chain lb' ub g"
  by (cases g) auto

lemma gap_chain_bounds: "gap_chain lb ub g \<Longrightarrow> in_ranges g x \<Longrightarrow> lb \<le> x \<and> x < ub"
  by (induction lb ub g rule: gap_chain.induct) auto

lemma select_gaps_loop_acc:
  "select_gaps_loop ns ne rs fully gaps cur =
     (let (f, g, c) = select_gaps_loop ns ne rs False [] cur in (fully \<or> f, gaps @ g, c))"
proof (induction rs arbitrary: fully gaps cur)
  case (Cons r rs)
  obtain es ee where r: "r = (es, ee)" by force
  show ?case
    unfolding r
    by (subst (1 2) select_gaps_loop.simps)
       (subst (1 2 3 4) Cons.IH, auto simp: Let_def split: prod.splits)
qed simp

lemma select_gaps_loop_fully:
  "fst (select_gaps_loop ns ne rs fully gaps cur) \<longleftrightarrow>
     fully \<or> (\<exists>(es, ee) \<in> set rs. ranges_overlap ns ne es ee \<and> es \<le> ns \<and> ne \<le> ee)"
  by (induction ns ne rs fully gaps cur rule: select_gaps_loop.induct) auto

lemma select_gaps_loop_sweep:
  assumes "sorted (map fst rs)" and "\<forall>(a, b) \<in> set rs. a \<le> b" and "ns \<le> cur"
    and "select_gaps_loop ns ne rs False [] cur = (f, g, c)"
    and "G = (if c < ne then g @ [(c, ne)] else g)"
  shows "gap_chain cur ne G \<and> (\<forall>x. in_ranges G x \<longleftrightarrow> cur \<le> x \<and> x < ne \<and> \<not> in_ranges rs x)"
  using assms
proof (induction rs arbitrary: cur f g c G)
  case Nil
  then show ?case by auto
next
  case (Cons r rs)
  obtain es ee where r: "r = (es, ee)" by force
  have srt: "sorted (map fst rs)" and le: "\<forall>(a, b) \<in> set rs. a \<le> b" and esee: "es \<le> ee"
    and later: "\<And>a b. (a, b) \<in> set rs \<Longrightarrow> es \<le> a"
    using Cons.prems(1,2) by (auto simp: r)
  show ?case
  proof (cases "ranges_overlap ns ne es ee")
    case False
    then have "select_gaps_loop ns ne rs False [] cur = (f, g, c)"
      using Cons.prems(4) by (simp add: r)
    note IH = Cons.IH [OF srt le Cons.prems(3) this Cons.prems(5)]
    have "\<not> (es \<le> x \<and> x < ee)" if "cur \<le> x" "x < ne" for x
      using False Cons.prems(3) that unfolding ranges_overlap_def by linarith
    then have "in_ranges G x \<longleftrightarrow> cur \<le> x \<and> x < ne \<and> \<not> in_ranges (r # rs) x" for x
      using IH unfolding r in_ranges_simps by blast
    with IH show ?thesis by blast
  next
    case True
    let ?h = "if cur < es then [(cur, min es ne)] else []"
    obtain f' g' c' where l: "select_gaps_loop ns ne rs False [] (max cur ee) = (f', g', c')"
      by (metis prod_cases3)
    have "select_gaps_loop ns ne (r # rs) False [] cur =
          select_gaps_loop ns ne rs (es \<le> ns \<and> ne \<le> ee) ?h (max cur ee)"
      using True by (cases "es \<le> ns \<and> ne \<le> ee") (auto simp: r)
    also have "\<dots> = ((es \<le> ns \<and> ne \<le> ee) \<or> f', ?h @ g', c')"
      by (subst select_gaps_loop_acc) (simp add: l)
    finally have "select_gaps_loop ns ne (r # rs) False [] cur = ((es \<le> ns \<and> ne \<le> ee) \<or> f', ?h @ g', c')" .
    then have g: "g = ?h @ g'" and c: "c = c'"
      using Cons.prems(4) by auto
    define G' where "G' = (if c' < ne then g' @ [(c', ne)] else g')"
    have G: "G = ?h @ G'" using Cons.prems(5) by (simp add: g c G'_def)
    have ns: "ns \<le> max cur ee" using Cons.prems(3) by simp
    from Cons.IH [OF srt le ns l G'_def]
    have ch: "gap_chain (max cur ee) ne G'"
      and cov: "\<And>x. in_ranges G' x \<longleftrightarrow> max cur ee \<le> x \<and> x < ne \<and> \<not> in_ranges rs x" by auto
    have before: "\<not> in_ranges rs x" if "x < es" for x
      using later that by (fastforce simp: in_ranges_def)
    have "gap_chain cur ne G"
      using ch True esee by (auto simp: G ranges_overlap_def intro: gap_chain_mono)
    moreover have "in_ranges G x \<longleftrightarrow> cur \<le> x \<and> x < ne \<and> \<not> in_ranges (r # rs) x" for x
      using cov [of x] before [of x] True by (auto simp: G r ranges_overlap_def not_less)
    ultimately show ?thesis by blast
  qed
qed

lemma select_gaps_spec:
  assumes "sorted (map fst rs)" and "\<forall>(a, b) \<in> set rs. a \<le> b"
  shows "gap_chain ns ne (sg_gaps (select_gaps ns ne rs))"
    and "in_ranges (sg_gaps (select_gaps ns ne rs)) x \<longleftrightarrow> ns \<le> x \<and> x < ne \<and> \<not> in_ranges rs x"
proof -
  obtain f g c where l: "select_gaps_loop ns ne rs False [] ns = (f, g, c)" by (metis prod_cases3)
  note sweep = select_gaps_loop_sweep [OF assms order_refl l refl]
  show "gap_chain ns ne (sg_gaps (select_gaps ns ne rs))"
    and "in_ranges (sg_gaps (select_gaps ns ne rs)) x \<longleftrightarrow> ns \<le> x \<and> x < ne \<and> \<not> in_ranges rs x"
    using sweep by (auto simp: select_gaps_def l)
qed

lemma select_gaps_fully:
  "sg_fully_covered (select_gaps ns ne rs) \<longleftrightarrow>
     (\<exists>(es, ee) \<in> set rs. ranges_overlap ns ne es ee \<and> es \<le> ns \<and> ne \<le> ee)"
  using select_gaps_loop_fully [of ns ne rs False "[]" ns]
  by (auto simp: select_gaps_def split: prod.splits)

end
