(* ===== verification/Segment_Insert.thy ===== *)
theory Segment_Insert
  imports Segment_Gaps
begin

text \<open>
  \<open>insert_segment\<close> on the byte view. The first-wins policy is the function
  \<open>first_wins\<close>; the insertion refines it, keeps the buffer well-formed, its byte
  counter exact and its depth and segment limits respected, and never panics.
\<close>

section \<open>Invariants of a direction\<close>

text \<open>The highest end of a segment: a 32-bit offset and one allocation.\<close>

definition seg_limit :: nat where
  "seg_limit = 2 ^ 32 + isize_max"

text \<open>The \<open>debug_assert\<close> of \<open>memory_used\<close>: the counter is the sum of the segment lengths.\<close>

definition fd_counted :: "flow_direction \<Rightarrow> bool" where
  "fd_counted d = (fd_buffered_bytes d = weight length (fd_segments d))"

definition fd_shape :: "flow_direction \<Rightarrow> bool" where
  "fd_shape d = (seg_chain 0 (fd_segments d) \<and> fd_counted d)"

definition fd_ok :: "usize \<Rightarrow> usize \<Rightarrow> flow_direction \<Rightarrow> bool" where
  "fd_ok max_depth max_segments d =
     (fd_shape d \<and>
      (\<forall>(o1, s) \<in> set (fd_segments d). o1 + length s \<le> seg_limit) \<and>
      fd_base_offset d \<le> seg_limit \<and>
      fd_reassembled_bytes d + fd_buffered_bytes d \<le> max_depth \<and>
      length (fd_segments d) \<le> max_segments)"

lemma isize_bounds [simp]: "seg_limit \<le> u64_max" "isize_max + isize_max \<le> u64_max" "isize_max \<le> u64_max"
  by (simp_all add: isize_max_def seg_limit_def u64_max_def)

lemma seg_limit_alloc: "off < 2 ^ 32 \<Longrightarrow> n \<le> isize_max \<Longrightarrow> off + n \<le> seg_limit"
  by (simp add: seg_limit_def)

lemma seq_offset_less [simp]: "seq_offset seq isn < 4294967296"
  using unat_u32_less [of "seq - isn"] by (simp add: seq_offset_def)

lemma fd_shape_new [simp]: "fd_shape flow_direction_new"
  by (simp add: fd_shape_def fd_counted_def flow_direction_new_def)

lemma fd_ok_new [simp]: "fd_ok dep n flow_direction_new"
  by (simp add: fd_ok_def) (simp add: flow_direction_new_def)

section \<open>The overlap scan\<close>

definition hits :: "u64 \<Rightarrow> bytes \<Rightarrow> u64 \<times> bytes \<Rightarrow> bool" where
  "hits ns nd e = ranges_overlap ns (ns + length nd) (fst e) (fst e + length (snd e))"

definition clashes :: "u64 \<Rightarrow> bytes \<Rightarrow> u64 \<times> bytes \<Rightarrow> bool" where
  "clashes ns nd e = (\<exists>x. ns \<le> x \<and> x < ns + length nd \<and> fst e \<le> x \<and> x < fst e + length (snd e)
                          \<and> nd ! (x - ns) \<noteq> snd e ! (x - fst e))"

lemma clashes_hits: "clashes ns nd e \<Longrightarrow> hits ns nd e"
  by (auto simp: clashes_def hits_def ranges_overlap_def)

lemma scan_overlaps_eq:
  assumes "ns + length nd \<le> u64_max" and "\<forall>(o1, s) \<in> set m. o1 + length s \<le> u64_max"
  shows "scan_overlaps ns nd m ho hc rs =
    Some (ho \<or> (\<exists>e \<in> set m. hits ns nd e), hc \<or> (\<exists>e \<in> set m. clashes ns nd e),
          rs @ map (\<lambda>e. (fst e, fst e + length (snd e))) (filter (hits ns nd) m))"
  using assms
proof (induction m arbitrary: ho hc rs)
  case (Cons e m)
  obtain o1 s where e: "e = (o1, s)" by force
  have "o1 + length s \<le> u64_max" using Cons.prems(2) by (simp add: e)
  moreover note segment_overlap_eq [OF Cons.prems(1) this]
  moreover have "clashes ns nd (o1, s) \<Longrightarrow> hits ns nd (o1, s)" by (rule clashes_hits)
  ultimately show ?case
    using Cons by (auto simp: e hits_def clashes_def)
qed simp

lemma range_to_keep:
  "seg_chain lb m \<Longrightarrow> set (bt_range_to ub m) = {e \<in> set m. fst e < ub}"
  by (simp add: set_bt_range_to seg_chain_bt_ok)

lemma hits_in_range: "hits ns nd e \<Longrightarrow> fst e < ns + length nd"
  by (simp add: hits_def ranges_overlap_def)

text \<open>What the scan finds, on the byte view.\<close>

lemma scan_hits_iff:
  assumes "seg_chain 0 m" and "nd \<noteq> []"
  shows "(\<exists>e \<in> set (bt_range_to (ns + length nd) m). hits ns nd e) \<longleftrightarrow>
         (\<exists>x. ns \<le> x \<and> x < ns + length nd \<and> byte_at m x \<noteq> None)"
proof
  assume "\<exists>e \<in> set (bt_range_to (ns + length nd) m). hits ns nd e"
  then obtain o1 s where m: "(o1, s) \<in> set m" and h: "hits ns nd (o1, s)"
    by (auto simp: range_to_keep [OF assms(1)])
  have "s \<noteq> []" using seg_chain_keys [OF assms(1) m] by simp
  with h assms(2) have "ns \<le> max ns o1" "max ns o1 < ns + length nd" "o1 \<le> max ns o1" "max ns o1 < o1 + length s"
    by (auto simp: hits_def ranges_overlap_def)
  then show "\<exists>x. ns \<le> x \<and> x < ns + length nd \<and> byte_at m x \<noteq> None"
    using byte_at_mem [OF assms(1) m] by blast
next
  assume "\<exists>x. ns \<le> x \<and> x < ns + length nd \<and> byte_at m x \<noteq> None"
  then obtain x o1 s where "ns \<le> x" "x < ns + length nd" "(o1, s) \<in> set m" "o1 \<le> x" "x < o1 + length s"
    by (metis not_None_eq byte_at_Some_mem)
  then show "\<exists>e \<in> set (bt_range_to (ns + length nd) m). hits ns nd e"
    by (intro bexI [of _ "(o1, s)"]) (auto simp: range_to_keep [OF assms(1)] hits_def ranges_overlap_def)
qed

lemma scan_clashes_iff:
  assumes "seg_chain 0 m"
  shows "(\<exists>e \<in> set (bt_range_to (ns + length nd) m). clashes ns nd e) \<longleftrightarrow>
         (\<exists>x b. ns \<le> x \<and> x < ns + length nd \<and> byte_at m x = Some b \<and> b \<noteq> nd ! (x - ns))"
proof
  assume "\<exists>e \<in> set (bt_range_to (ns + length nd) m). clashes ns nd e"
  then obtain o1 s x where "(o1, s) \<in> set m" "ns \<le> x" "x < ns + length nd" "o1 \<le> x" "x < o1 + length s"
      "nd ! (x - ns) \<noteq> s ! (x - o1)"
    by (auto simp: range_to_keep [OF assms] clashes_def)
  then show "\<exists>x b. ns \<le> x \<and> x < ns + length nd \<and> byte_at m x = Some b \<and> b \<noteq> nd ! (x - ns)"
    using byte_at_mem [OF assms] by metis
next
  assume "\<exists>x b. ns \<le> x \<and> x < ns + length nd \<and> byte_at m x = Some b \<and> b \<noteq> nd ! (x - ns)"
  then obtain x o1 s where "ns \<le> x" "x < ns + length nd" "(o1, s) \<in> set m" "o1 \<le> x" "x < o1 + length s"
      "s ! (x - o1) \<noteq> nd ! (x - ns)"
    by (metis byte_at_Some_mem)
  then show "\<exists>e \<in> set (bt_range_to (ns + length nd) m). clashes ns nd e"
    by (intro bexI [of _ "(o1, s)"]) (auto simp: range_to_keep [OF assms] clashes_def)
qed

definition hit_ranges :: "u64 \<Rightarrow> bytes \<Rightarrow> bytes btree_map \<Rightarrow> (u64 \<times> u64) list" where
  "hit_ranges ns nd m =
     map (\<lambda>e. (fst e, fst e + length (snd e))) (filter (hits ns nd) (bt_range_to (ns + length nd) m))"

lemma in_hit_ranges_iff:
  assumes "seg_chain 0 m" and "ns \<le> x" and "x < ns + length nd"
  shows "in_ranges (hit_ranges ns nd m) x \<longleftrightarrow> byte_at m x \<noteq> None"
proof -
  have "in_ranges (hit_ranges ns nd m) x \<longleftrightarrow>
        (\<exists>(o1, s) \<in> set m. hits ns nd (o1, s) \<and> o1 < ns + length nd \<and> o1 \<le> x \<and> x < o1 + length s)"
    by (auto simp: in_ranges_def hit_ranges_def range_to_keep [OF assms(1)])
  also have "\<dots> \<longleftrightarrow> (\<exists>(o1, s) \<in> set m. o1 \<le> x \<and> x < o1 + length s)"
    using assms(2,3) by (intro bex_cong) (auto simp: hits_def ranges_overlap_def)
  also have "\<dots> \<longleftrightarrow> byte_at m x \<noteq> None"
    using byte_at_None_iff [OF assms(1), of x] by auto
  finally show ?thesis .
qed

lemma bt_ok_range_to: "bt_ok m \<Longrightarrow> bt_ok (bt_range_to k m)"
  unfolding bt_range_to_def by (induction m) (auto, metis fst_conv set_takeWhileD)

lemma bt_ok_filter: "bt_ok m \<Longrightarrow> bt_ok (filter P m)"
  by (induction m) auto

lemma hit_ranges_sorted:
  assumes "seg_chain 0 m"
  shows "sorted (map fst (hit_ranges ns nd m))" and "\<forall>(a, b) \<in> set (hit_ranges ns nd m). a \<le> b"
proof -
  have "bt_ok (filter (hits ns nd) (bt_range_to (ns + length nd) m))"
    using seg_chain_bt_ok [OF assms] by (intro bt_ok_filter bt_ok_range_to)
  then show "sorted (map fst (hit_ranges ns nd m))"
    by (auto simp: hit_ranges_def comp_def bt_ok_def strict_sorted_iff)
qed (auto simp: hit_ranges_def)


section \<open>Storing one segment\<close>

lemma put_segment_free:
  assumes "fd_shape d" and "s \<noteq> []" and "fd_buffered_bytes d + length s \<le> u64_max"
    and "\<And>x. k \<le> x \<Longrightarrow> x < k + length s \<Longrightarrow> byte_at (fd_segments d) x = None"
  defines "d' \<equiv> d\<lparr>fd_segments := bt_insert k s (fd_segments d),
                    fd_buffered_bytes := fd_buffered_bytes d + length s\<rparr>"
  shows "put_segment k s d = Some d'" and "fd_shape d'"
    and "byte_at (fd_segments d') x =
           (if k \<le> x \<and> x < k + length s then Some (s ! (x - k)) else byte_at (fd_segments d) x)"
    and "length (fd_segments d') = Suc (length (fd_segments d))"
    and "set (fd_segments d') = insert (k, s) (set (fd_segments d))"
proof -
  let ?m = "fd_segments d"
  have c: "seg_chain 0 ?m" and cnt: "fd_buffered_bytes d = weight length ?m"
    using assms(1) by (auto simp: fd_shape_def fd_counted_def)
  have ok: "bt_ok ?m" using c by (rule seg_chain_bt_ok)
  note ins = bt_insert_free [OF c le0 assms(2) assms(4)]
  show "put_segment k s d = Some d'"
    using assms(3) by (simp add: put_segment_def ins(3) d'_def)
  have "weight length (bt_insert k s ?m) = weight length ?m + length s"
    using btree.weight_put [OF ok, of length k s] by (simp add: ins(3))
  then show "fd_shape d'"
    using ins(1) cnt by (simp add: fd_shape_def fd_counted_def d'_def)
  show "byte_at (fd_segments d') x =
           (if k \<le> x \<and> x < k + length s then Some (s ! (x - k)) else byte_at ?m x)"
    using ins(2) by (simp add: d'_def)
  show "length (fd_segments d') = Suc (length ?m)"
    using btree.size_put [OF ok, of k s] by (simp add: ins(3) d'_def)
  have "{e \<in> set ?m. fst e \<noteq> k} = set ?m"
    using ins(3) by (auto simp: bt_get_def map_of_eq_None_iff)
  then show "set (fd_segments d') = insert (k, s) (set ?m)"
    using btree.set_put [OF ok, of k s] by (simp add: d'_def)
qed

section \<open>Filling the gaps\<close>

text \<open>What an insertion of \<open>nd\<close> at \<open>ns\<close> may do to a direction: keep every byte it
  had, add only bytes of \<open>nd\<close> at their own offsets, and touch nothing but the
  buffer and its byte counter.\<close>

definition grows :: "u64 \<Rightarrow> bytes \<Rightarrow> flow_direction \<Rightarrow> flow_direction \<Rightarrow> bool" where
  "grows ns nd d d' \<longleftrightarrow>
     fd_shape d' \<and>
     d' = d\<lparr>fd_segments := fd_segments d', fd_buffered_bytes := fd_buffered_bytes d'\<rparr> \<and>
     set (fd_segments d) \<subseteq> set (fd_segments d') \<and>
     (\<forall>(o1, s) \<in> set (fd_segments d'). (o1, s) \<in> set (fd_segments d) \<or> ns \<le> o1 \<and> o1 + length s \<le> ns + length nd) \<and>
     (\<forall>x b. byte_at (fd_segments d) x = Some b \<longrightarrow> byte_at (fd_segments d') x = Some b) \<and>
     (\<forall>x b. byte_at (fd_segments d') x = Some b \<longrightarrow>
        byte_at (fd_segments d) x = Some b \<or> ns \<le> x \<and> x < ns + length nd \<and> b = nd ! (x - ns))"

lemma grows_refl: "fd_shape d \<Longrightarrow> grows ns nd d d"
  by (auto simp: grows_def)

lemma buffer_frame_trans:
  "d2 = d1\<lparr>fd_segments := fd_segments d2, fd_buffered_bytes := fd_buffered_bytes d2\<rparr> \<Longrightarrow>
   d3 = d2\<lparr>fd_segments := fd_segments d3, fd_buffered_bytes := fd_buffered_bytes d3\<rparr> \<Longrightarrow>
   d3 = d1\<lparr>fd_segments := fd_segments d3, fd_buffered_bytes := fd_buffered_bytes d3\<rparr>"
  by (cases d1; cases d2; cases d3) simp

lemma grows_trans:
  assumes 1: "grows ns nd d1 d2" and 2: "grows ns nd d2 d3"
  shows "grows ns nd d1 d3"
proof -
  have "d3 = d1\<lparr>fd_segments := fd_segments d3, fd_buffered_bytes := fd_buffered_bytes d3\<rparr>"
    using 1 2 buffer_frame_trans unfolding grows_def by blast
  moreover have "\<forall>(o1, s) \<in> set (fd_segments d3).
      (o1, s) \<in> set (fd_segments d1) \<or> ns \<le> o1 \<and> o1 + length s \<le> ns + length nd"
    using 1 2 unfolding grows_def by fast
  ultimately show ?thesis
    using 1 2 unfolding grows_def by blast
qed

lemma put_segment_grows:
  assumes "fd_shape d" and "a < b" and "ns \<le> a" and "b \<le> ns + length nd"
    and "fd_buffered_bytes d + (b - a) \<le> u64_max"
    and "\<And>x. a \<le> x \<Longrightarrow> x < b \<Longrightarrow> byte_at (fd_segments d) x = None"
  obtains d' where "put_segment a (take (b - a) (drop (a - ns) nd)) d = Some d'" and "grows ns nd d d'"
    and "\<And>x. byte_at (fd_segments d') x =
          (if a \<le> x \<and> x < b then Some (nd ! (x - ns)) else byte_at (fd_segments d) x)"
    and "length (fd_segments d') = Suc (length (fd_segments d))"
    and "fd_buffered_bytes d' = fd_buffered_bytes d + (b - a)"
proof -
  let ?s = "take (b - a) (drop (a - ns) nd)"
  have len: "length ?s = b - a" and ne: "?s \<noteq> []" using assms(2-4) by auto
  have ab: "a + length ?s = b" using len assms(2) by simp
  have free: "byte_at (fd_segments d) x = None" if "a \<le> x" "x < a + length ?s" for x
    using that assms(6) ab by simp
  have nth: "?s ! (x - a) = nd ! (x - ns)" if "a \<le> x" "x < b" for x
    using that assms(2-4) by simp
  have bnd: "fd_buffered_bytes d + length ?s \<le> u64_max" using assms(5) len by simp
  note put = put_segment_free [where k = a, OF assms(1) ne bnd free]
  show thesis
  proof (rule that [OF put(1)])
    show view: "byte_at (fd_segments (d\<lparr>fd_segments := bt_insert a ?s (fd_segments d),
        fd_buffered_bytes := fd_buffered_bytes d + length ?s\<rparr>)) x =
        (if a \<le> x \<and> x < b then Some (nd ! (x - ns)) else byte_at (fd_segments d) x)" for x
      using put(3) [of x] nth [of x] ab by auto
    show "grows ns nd d (d\<lparr>fd_segments := bt_insert a ?s (fd_segments d),
        fd_buffered_bytes := fd_buffered_bytes d + length ?s\<rparr>)"
      unfolding grows_def
      using put(2) put(5) view free ab assms(3,4)
      by (auto split: if_splits)
  qed (use put(4) len in auto)
qed


text \<open>When the slots run out: the holes before some point are filled, none behind it.\<close>

definition cut_short :: "usize \<Rightarrow> u64 \<Rightarrow> bytes \<Rightarrow> (nat \<Rightarrow> bool) \<Rightarrow> flow_direction \<Rightarrow> bool" where
  "cut_short ms ns nd hole d' \<longleftrightarrow>
     ms \<le> length (fd_segments d') \<and>
     (\<exists>n < length nd. \<forall>x. hole x \<longrightarrow> (byte_at (fd_segments d') x \<noteq> None \<longleftrightarrow> x < ns + n))"

lemma fill_gaps_spec:
  assumes "fd_shape d" and "gap_chain lb (ns + length nd) gaps" and "ns \<le> lb"
    and "fd_buffered_bytes d + (ns + length nd - lb) \<le> u64_max"
    and "\<And>x. in_ranges gaps x \<Longrightarrow> byte_at (fd_segments d) x = None"
  shows "\<exists>d' ex. fill_gaps ns nd ms gaps d = Some (d', ex) \<and> grows ns nd d d' \<and>
           fd_buffered_bytes d' \<le> fd_buffered_bytes d + (ns + length nd - lb) \<and>
           (\<not> ex \<longrightarrow> (\<forall>x. in_ranges gaps x \<longrightarrow> byte_at (fd_segments d') x \<noteq> None)) \<and>
           (length (fd_segments d) \<le> ms \<longrightarrow> length (fd_segments d') \<le> ms) \<and>
           (ex \<longrightarrow> cut_short ms ns nd (in_ranges gaps) d')"
  using assms
proof (induction gaps arbitrary: d lb)
  case Nil
  then show ?case by (auto intro: grows_refl)
next
  case (Cons g gaps)
  obtain a b where g: "g = (a, b)" by force
  have ab: "lb \<le> a" "a < b" "b \<le> ns + length nd" and gc: "gap_chain b (ns + length nd) gaps"
    using Cons.prems(2) by (auto simp: g)
  show ?case
  proof (cases "ms \<le> length (fd_segments d)")
    case True
    have "a - ns < length nd" using ab Cons.prems(3) by linarith
    moreover have "\<not> x < ns + (a - ns)" if "in_ranges (g # gaps) x" for x
      using that gap_chain_bounds [OF gc, of x] ab Cons.prems(3) by (auto simp: g)
    ultimately have "cut_short ms ns nd (in_ranges (g # gaps)) d"
      using True Cons.prems(5) unfolding cut_short_def by (intro conjI exI [of _ "a - ns"]) simp_all
    moreover have "fill_gaps ns nd ms (g # gaps) d = Some (d, True)" using True by (simp add: g)
    ultimately show ?thesis using grows_refl [OF Cons.prems(1)] by (intro exI [of _ d] exI [of _ True]) simp
  next
    case False
    have nsa: "ns \<le> a" using ab Cons.prems(3) by simp
    have bnd: "fd_buffered_bytes d + (b - a) \<le> u64_max" using Cons.prems(4) ab by linarith
    have free: "byte_at (fd_segments d) x = None" if "a \<le> x" "x < b" for x
      using Cons.prems(5) [of x] that by (simp add: g)
    from put_segment_grows [OF Cons.prems(1) ab(2) nsa ab(3) bnd free]
    obtain d1 where put: "put_segment a (take (b - a) (drop (a - ns) nd)) d = Some d1"
      and gr: "grows ns nd d d1"
      and view: "\<And>x. byte_at (fd_segments d1) x =
          (if a \<le> x \<and> x < b then Some (nd ! (x - ns)) else byte_at (fd_segments d) x)"
      and len: "length (fd_segments d1) = Suc (length (fd_segments d))"
      and buf: "fd_buffered_bytes d1 = fd_buffered_bytes d + (b - a)" by metis
    have sl: "byte_slice nd (a - ns) (b - ns) = Some (take (b - a) (drop (a - ns) nd))"
      using ab nsa by (auto simp: byte_slice_def)
    have idx: "a - ns < length nd" "b - ns \<le> length nd" "ns \<le> b" using ab nsa by linarith+
    moreover have "take (b - a) (drop (a - ns) nd) \<noteq> []" using ab idx by simp
    ultimately have step: "fill_gaps ns nd ms (g # gaps) d = fill_gaps ns nd ms gaps d1"
      using False nsa put by (simp add: g sl)
    have "\<exists>d' ex. fill_gaps ns nd ms gaps d1 = Some (d', ex) \<and> grows ns nd d1 d' \<and>
           fd_buffered_bytes d' \<le> fd_buffered_bytes d1 + (ns + length nd - b) \<and>
           (\<not> ex \<longrightarrow> (\<forall>x. in_ranges gaps x \<longrightarrow> byte_at (fd_segments d') x \<noteq> None)) \<and>
           (length (fd_segments d1) \<le> ms \<longrightarrow> length (fd_segments d') \<le> ms) \<and>
           (ex \<longrightarrow> cut_short ms ns nd (in_ranges gaps) d')"
    proof (rule Cons.IH [OF _ gc])
      show "fd_shape d1" using gr by (simp add: grows_def)
      show "ns \<le> b" using nsa ab by simp
      show "fd_buffered_bytes d1 + (ns + length nd - b) \<le> u64_max"
        using Cons.prems(4) ab buf by linarith
      show "byte_at (fd_segments d1) x = None" if "in_ranges gaps x" for x
        using gap_chain_bounds [OF gc that] Cons.prems(5) [of x] that view [of x] by (simp add: g)
    qed
    then obtain d' ex where fg: "fill_gaps ns nd ms gaps d1 = Some (d', ex)" and gr': "grows ns nd d1 d'"
      and bl: "fd_buffered_bytes d' \<le> fd_buffered_bytes d1 + (ns + length nd - b)"
      and nx: "\<not> ex \<Longrightarrow> (\<forall>x. in_ranges gaps x \<longrightarrow> byte_at (fd_segments d') x \<noteq> None)"
      and ln: "length (fd_segments d1) \<le> ms \<Longrightarrow> length (fd_segments d') \<le> ms"
      and cs: "ex \<Longrightarrow> cut_short ms ns nd (in_ranges gaps) d'" by blast
    have held: "byte_at (fd_segments d') x \<noteq> None" if "a \<le> x" "x < b" for x
      using view [of x] that gr' unfolding grows_def by auto
    have "cut_short ms ns nd (in_ranges (g # gaps)) d'" if e: ex
    proof -
      obtain n where n: "ms \<le> length (fd_segments d')" "n < length nd"
          "\<And>x. in_ranges gaps x \<Longrightarrow> byte_at (fd_segments d') x \<noteq> None \<longleftrightarrow> x < ns + n"
        using cs [OF e] unfolding cut_short_def by blast
      obtain a' b' rest where "gaps = (a', b') # rest" using e fg by (cases gaps) auto
      then have "max n (b - ns) < length nd" using gc nsa ab n(2) by auto
      moreover have "byte_at (fd_segments d') x \<noteq> None \<longleftrightarrow> x < ns + max n (b - ns)" if x: "in_ranges (g # gaps) x" for x
      proof (cases "a \<le> x \<and> x < b")
        case True
        then show ?thesis using held [of x] nsa by auto
      next
        case False
        then have "in_ranges gaps x" using x by (auto simp: g)
        then show ?thesis using n(3) [of x] gap_chain_bounds [OF gc, of x] by auto
      qed
      ultimately show ?thesis using n(1) unfolding cut_short_def by blast
    qed
    moreover from held have "\<not> ex \<Longrightarrow> \<forall>x. in_ranges (g # gaps) x \<longrightarrow> byte_at (fd_segments d') x \<noteq> None"
      using nx by (auto simp: g)
    moreover have "fd_buffered_bytes d' \<le> fd_buffered_bytes d + (ns + length nd - lb)"
      using bl buf ab by linarith
    ultimately show ?thesis
      using fg step grows_trans [OF gr gr'] ln len False by auto
  qed
qed


section \<open>Insertion\<close>

text \<open>The three questions the result depends on, on the byte view.\<close>

definition touched :: "bytes btree_map \<Rightarrow> u64 \<Rightarrow> bytes \<Rightarrow> bool" where
  "touched m ns nd = (\<exists>x. ns \<le> x \<and> x < ns + length nd \<and> byte_at m x \<noteq> None)"

definition covered :: "bytes btree_map \<Rightarrow> u64 \<Rightarrow> bytes \<Rightarrow> bool" where
  "covered m ns nd = (\<forall>x. ns \<le> x \<and> x < ns + length nd \<longrightarrow> byte_at m x \<noteq> None)"

definition conflicting :: "bytes btree_map \<Rightarrow> u64 \<Rightarrow> bytes \<Rightarrow> bool" where
  "conflicting m ns nd = (\<exists>x b. ns \<le> x \<and> x < ns + length nd \<and> byte_at m x = Some b \<and> b \<noteq> nd ! (x - ns))"

definition count_overlap :: "u64 \<Rightarrow> bytes \<Rightarrow> flow_direction \<Rightarrow> flow_direction" where
  "count_overlap ns nd d =
     (if touched (fd_segments d) ns nd then d\<lparr>fd_overlap_count := sat_addw (fd_overlap_count d) 1\<rparr> else d)"

definition trimmed_result :: "flow_direction \<Rightarrow> u64 \<Rightarrow> bytes \<Rightarrow> bool \<Rightarrow> bool \<Rightarrow> insert_result" where
  "trimmed_result d ns nd truncated exhausted =
     (if \<not> touched (fd_segments d) ns nd then (if truncated then Truncated else Inserted)
      else if covered (fd_segments d) ns nd
      then (if conflicting (fd_segments d) ns nd then ConflictingOverlap else Duplicate)
      else if exhausted then SegmentLimitReached
      else if truncated then Truncated
      else PartialOverlap)"

lemma count_overlap_simps [simp]:
  "fd_segments (count_overlap ns nd d) = fd_segments d"
  "fd_buffered_bytes (count_overlap ns nd d) = fd_buffered_bytes d"
  "fd_shape (count_overlap ns nd d) = fd_shape d"
  by (simp_all add: count_overlap_def fd_shape_def fd_counted_def)

lemma gap_chain_nonempty: "gap_chain lb ub g \<Longrightarrow> g \<noteq> [] \<longleftrightarrow> (\<exists>x. in_ranges g x)"
  by (cases g) auto

lemma fully_covered_covered:
  assumes "seg_chain 0 m" and "sg_fully_covered (select_gaps ns (ns + length nd) (hit_ranges ns nd m))"
  shows "covered m ns nd"
proof -
  from assms(2) obtain es ee where "(es, ee) \<in> set (hit_ranges ns nd m)" "es \<le> ns" "ns + length nd \<le> ee"
    by (auto simp: select_gaps_fully)
  then have "in_ranges (hit_ranges ns nd m) x" if "ns \<le> x" "x < ns + length nd" for x
    using that by (auto simp: in_ranges_def intro!: bexI [of _ "(es, ee)"])
  then show ?thesis
    using in_hit_ranges_iff [OF assms(1)] by (auto simp: covered_def)
qed

text \<open>The gap branch of \<open>insert_trimmed\<close>.\<close>

definition hole_of :: "bytes btree_map \<Rightarrow> u64 \<Rightarrow> bytes \<Rightarrow> nat \<Rightarrow> bool" where
  "hole_of m ns nd x \<longleftrightarrow> ns \<le> x \<and> x < ns + length nd \<and> byte_at m x = None"

lemma fill_selected_gaps:
  assumes "fd_shape d" and "fd_buffered_bytes d + length nd \<le> u64_max"
    and "gaps = sg_gaps (select_gaps ns (ns + length nd) (hit_ranges ns nd (fd_segments d)))"
  shows "gaps \<noteq> [] \<longleftrightarrow> \<not> covered (fd_segments d) ns nd"
    and "\<exists>d' ex. fill_gaps ns nd ms gaps d = Some (d', ex) \<and> grows ns nd d d' \<and>
           fd_buffered_bytes d' \<le> fd_buffered_bytes d + length nd \<and>
           (\<not> ex \<longrightarrow> covered (fd_segments d') ns nd) \<and>
           (length (fd_segments d) \<le> ms \<longrightarrow> length (fd_segments d') \<le> ms) \<and>
           (ex \<longrightarrow> cut_short ms ns nd (hole_of (fd_segments d) ns nd) d')"
proof -
  let ?m = "fd_segments d"
  have c: "seg_chain 0 ?m" using assms(1) by (simp add: fd_shape_def)
  note spec = select_gaps_spec [OF hit_ranges_sorted [OF c], of ns "ns + length nd" ns nd]
  have gc: "gap_chain ns (ns + length nd) gaps" using spec(1) by (simp add: assms(3))
  have gx: "in_ranges gaps x \<longleftrightarrow> ns \<le> x \<and> x < ns + length nd \<and> byte_at ?m x = None" for x
    using spec(2) [of x] in_hit_ranges_iff [OF c, of ns x nd] by (auto simp: assms(3))
  show "gaps \<noteq> [] \<longleftrightarrow> \<not> covered ?m ns nd"
    unfolding gap_chain_nonempty [OF gc] gx covered_def by auto
  have bnd: "fd_buffered_bytes d + (ns + length nd - ns) \<le> u64_max" using assms(2) by simp
  from fill_gaps_spec [OF assms(1) gc order_refl bnd, of ms] gx
  obtain d' ex where fg: "fill_gaps ns nd ms gaps d = Some (d', ex)" and gr: "grows ns nd d d'"
    and bl: "fd_buffered_bytes d' \<le> fd_buffered_bytes d + (ns + length nd - ns)"
    and nx: "\<not> ex \<Longrightarrow> (\<forall>x. in_ranges gaps x \<longrightarrow> byte_at (fd_segments d') x \<noteq> None)"
    and ln: "length ?m \<le> ms \<Longrightarrow> length (fd_segments d') \<le> ms"
    and cs: "ex \<Longrightarrow> cut_short ms ns nd (in_ranges gaps) d'" by blast
  have "in_ranges gaps = hole_of ?m ns nd" using gx by (auto simp: hole_of_def fun_eq_iff)
  then have cs': "ex \<longrightarrow> cut_short ms ns nd (hole_of ?m ns nd) d'" using cs by simp
  have "covered (fd_segments d') ns nd" if "\<not> ex"
    unfolding covered_def
  proof (intro allI impI)
    fix x assume x: "ns \<le> x \<and> x < ns + length nd"
    show "byte_at (fd_segments d') x \<noteq> None"
    proof (cases "byte_at ?m x")
      case None
      with nx [OF that] gx x show ?thesis by blast
    next
      case (Some b)
      with gr show ?thesis unfolding grows_def by auto
    qed
  qed
  with fg gr bl ln cs' show "\<exists>d' ex. fill_gaps ns nd ms gaps d = Some (d', ex) \<and> grows ns nd d d' \<and>
           fd_buffered_bytes d' \<le> fd_buffered_bytes d + length nd \<and>
           (\<not> ex \<longrightarrow> covered (fd_segments d') ns nd) \<and>
           (length ?m \<le> ms \<longrightarrow> length (fd_segments d') \<le> ms) \<and>
           (ex \<longrightarrow> cut_short ms ns nd (hole_of ?m ns nd) d')" by auto
qed

lemma insert_trimmed_spec:
  assumes "fd_shape d" and "nd \<noteq> []" and "ns + length nd \<le> u64_max"
    and "\<forall>(o1, s) \<in> set (fd_segments d). o1 + length s \<le> u64_max"
    and "fd_buffered_bytes d + length nd \<le> u64_max" and "length (fd_segments d) < ms"
  shows "\<exists>d' ex. insert_trimmed d ns nd tr ms = Some (d', trimmed_result d ns nd tr ex) \<and>
           grows ns nd (count_overlap ns nd d) d' \<and>
           fd_buffered_bytes d' \<le> fd_buffered_bytes d + length nd \<and>
           (trimmed_result d ns nd tr ex \<noteq> SegmentLimitReached \<longrightarrow> covered (fd_segments d') ns nd) \<and>
           length (fd_segments d') \<le> ms \<and>
           (trimmed_result d ns nd tr ex = SegmentLimitReached \<longrightarrow> cut_short ms ns nd (hole_of (fd_segments d) ns nd) d')"
proof -
  let ?m = "fd_segments d" and ?d1 = "count_overlap ns nd d"
  have c: "seg_chain 0 ?m" using assms(1) by (simp add: fd_shape_def)
  have "\<forall>(o1, s) \<in> set (bt_range_to (ns + length nd) ?m). o1 + length s \<le> u64_max"
    using assms(4) by (auto simp: range_to_keep [OF c])
  from scan_overlaps_eq [OF assms(3) this, of False False "[]"]
  have scan: "scan_overlaps ns nd (bt_range_to (ns + length nd) ?m) False False [] =
      Some (touched ?m ns nd, conflicting ?m ns nd, hit_ranges ns nd ?m)"
    using scan_hits_iff [OF c assms(2), of ns] scan_clashes_iff [OF c, of ns nd]
    by (simp add: touched_def conflicting_def hit_ranges_def)
  show ?thesis
  proof (cases "touched ?m ns nd")
    case False
    then have free: "byte_at ?m x = None" if "ns \<le> x" "x < ns + length nd" for x
      using that by (auto simp: touched_def)
    have b: "fd_buffered_bytes d + (ns + length nd - ns) \<le> u64_max" and lt: "ns < ns + length nd"
      using assms(2,5) by auto
    from put_segment_grows [OF assms(1) lt order_refl order_refl b free]
    obtain d' where put: "put_segment ns nd d = Some d'" and gr: "grows ns nd d d'"
      and view: "\<And>x. byte_at (fd_segments d') x =
          (if ns \<le> x \<and> x < ns + length nd then Some (nd ! (x - ns)) else byte_at ?m x)"
      and len: "length (fd_segments d') = Suc (length ?m)"
      and buf: "fd_buffered_bytes d' = fd_buffered_bytes d + (ns + length nd - ns)"
      by (metis (no_types, lifting) diff_self_eq_0 drop0 diff_add_inverse take_all_iff order_refl)
    have "covered (fd_segments d') ns nd" using view by (auto simp: covered_def)
    with put gr len buf False assms(3,6) show ?thesis
      by (auto simp: insert_trimmed_def scan trimmed_result_def count_overlap_def)
  next
    case True
    let ?sg = "select_gaps ns (ns + length nd) (hit_ranges ns nd ?m)"
    have shape1: "fd_shape ?d1" using assms(1) by simp
    show ?thesis
    proof (cases "sg_fully_covered ?sg")
      case fc: True
      with fully_covered_covered [OF c] have "covered ?m ns nd" by blast
      with fc True assms show ?thesis
        by (auto simp: insert_trimmed_def scan trimmed_result_def count_overlap_def Let_def
              intro!: grows_refl simp: fd_shape_def fd_counted_def)
    next
      case fc: False
      have b1: "fd_buffered_bytes ?d1 + length nd \<le> u64_max" using assms(5) by simp
      have sgeq: "sg_gaps ?sg = sg_gaps (select_gaps ns (ns + length nd) (hit_ranges ns nd (fd_segments ?d1)))"
        by simp
      note gaps = fill_selected_gaps [OF shape1 b1 sgeq]
      from gaps(2) [of ms] obtain d' ex where fg: "fill_gaps ns nd ms (sg_gaps ?sg) ?d1 = Some (d', ex)"
        and gr: "grows ns nd ?d1 d'" and bl: "fd_buffered_bytes d' \<le> fd_buffered_bytes d + length nd"
        and nx: "\<not> ex \<Longrightarrow> covered (fd_segments d') ns nd"
        and ln: "length (fd_segments d') \<le> ms"
        and cs: "ex \<Longrightarrow> cut_short ms ns nd (hole_of ?m ns nd) d'" using assms(6) by auto
      have cov: "covered (fd_segments d') ns nd" if "covered ?m ns nd"
        using that gr unfolding covered_def grows_def by fastforce
      have d1: "?d1 = d\<lparr>fd_overlap_count := sat_addw (fd_overlap_count d) 1\<rparr>"
        using True by (simp add: count_overlap_def)
      have "insert_trimmed d ns nd tr ms = Some (d', trimmed_result d ns nd tr ex)"
        using True fc fg gaps(1) assms(3)
        by (auto simp: insert_trimmed_def scan trimmed_result_def Let_def d1 simp del: count_overlap_simps)
      moreover have "trimmed_result d ns nd tr ex \<noteq> SegmentLimitReached \<longrightarrow> covered (fd_segments d') ns nd"
        using True cov nx by (auto simp: trimmed_result_def)
      moreover have "trimmed_result d ns nd tr ex = SegmentLimitReached \<longrightarrow> cut_short ms ns nd (hole_of ?m ns nd) d'"
        using cs by (auto simp: trimmed_result_def split: if_splits)
      ultimately show ?thesis using gr bl ln by blast
    qed
  qed
qed


text \<open>The bytes of a payload that the depth limit still admits.\<close>

definition depth_trim :: "usize \<Rightarrow> flow_direction \<Rightarrow> bytes \<Rightarrow> bytes" where
  "depth_trim max_depth d data = take (max_depth - (fd_reassembled_bytes d + fd_buffered_bytes d)) data"

definition depth_cut :: "usize \<Rightarrow> flow_direction \<Rightarrow> bytes \<Rightarrow> bool" where
  "depth_cut max_depth d data = (max_depth < fd_reassembled_bytes d + fd_buffered_bytes d + length data)"

text \<open>The guards before the buffer is touched.\<close>

definition admissible :: "usize \<Rightarrow> usize \<Rightarrow> usize \<Rightarrow> flow_direction \<Rightarrow> u64 \<Rightarrow> bytes \<Rightarrow> bool" where
  "admissible max_depth max_segments window d off data \<longleftrightarrow>
     fd_base_offset d \<le> off + length data \<and>
     off \<le> sat_add64 (fd_base_offset d) window \<and>
     length (fd_segments d) < max_segments \<and>
     fd_reassembled_bytes d + fd_buffered_bytes d < max_depth"

lemma insert_segment_empty [simp]: "insert_segment d seq [] dep ms w = Some (d, Inserted)"
  by (simp add: insert_segment_def)

lemma insert_segment_no_isn:
  "data \<noteq> [] \<Longrightarrow> fd_isn d = None \<Longrightarrow> insert_segment d seq data dep ms w = Some (d, IsnMissing)"
  by (simp add: insert_segment_def)

lemma offset_arith:
  assumes "length data \<le> isize_max"
  shows "seq_offset seq isn + length data \<le> seg_limit" and "seq_offset seq isn + length data \<le> u64_max"
proof -
  show "seq_offset seq isn + length data \<le> seg_limit"
    using assms by (intro seg_limit_alloc) simp_all
  then show "seq_offset seq isn + length data \<le> u64_max"
    using isize_bounds(1) le_trans by blast
qed

lemma held_arith:
  assumes "fd_ok dep ms d" and "dep \<le> isize_max" and "length data \<le> isize_max"
  shows "fd_reassembled_bytes d + fd_buffered_bytes d \<le> u64_max"
    and "fd_reassembled_bytes d + fd_buffered_bytes d + length data \<le> u64_max"
proof -
  have "fd_reassembled_bytes d + fd_buffered_bytes d \<le> isize_max"
    using assms(1,2) by (simp add: fd_ok_def)
  then show "fd_reassembled_bytes d + fd_buffered_bytes d \<le> u64_max"
    and "fd_reassembled_bytes d + fd_buffered_bytes d + length data \<le> u64_max"
    using assms(3) isize_bounds(2,3) by linarith+
qed

lemma insert_segment_rejects:
  assumes "fd_ok dep ms d" and "dep \<le> isize_max" and "length data \<le> isize_max"
    and "data \<noteq> []" and "fd_isn d = Some isn"
    and "\<not> admissible dep ms w d (seq_offset seq isn) data"
  shows "insert_segment d seq data dep ms w =
      (if seq_offset seq isn + length data < fd_base_offset d \<or>
          sat_add64 (fd_base_offset d) w < seq_offset seq isn
       then Some (d\<lparr>fd_out_of_window_count := sat_addw (fd_out_of_window_count d) 1\<rparr>, OutOfWindow)
       else if ms \<le> length (fd_segments d) then Some (d, SegmentLimitReached)
       else Some (d\<lparr>fd_depth_exceeded := True\<rparr>, DepthExceeded))"
proof -
  note ar = offset_arith [OF assms(3), of seq isn] held_arith [OF assms(1-3)]
  have "\<not> (dep \<le> fd_reassembled_bytes d + fd_buffered_bytes d \<and>
        fd_reassembled_bytes d + fd_buffered_bytes d + length data \<le> dep)"
    using assms(4) by (cases data) auto
  with assms(4-6) ar(2-4) show ?thesis
    by (auto simp: insert_segment_def admissible_def Let_def not_le not_less)
qed

lemma insert_segment_admits:
  assumes "fd_ok dep ms d" and "dep \<le> isize_max" and "length data \<le> isize_max"
    and "data \<noteq> []" and "fd_isn d = Some isn"
    and "admissible dep ms w d (seq_offset seq isn) data"
  defines "nd \<equiv> depth_trim dep d data" and "trn \<equiv> depth_cut dep d data"
    and "off \<equiv> seq_offset seq isn"
  obtains d1 d' ex where "d1 = d\<lparr>fd_depth_exceeded := fd_depth_exceeded d \<or> trn\<rparr>"
    and "insert_segment d seq data dep ms w = Some (d', trimmed_result d off nd trn ex)"
    and "grows off nd (count_overlap off nd d1) d'"
    and "fd_buffered_bytes d' \<le> fd_buffered_bytes d + length nd"
    and "trimmed_result d off nd trn ex \<noteq> SegmentLimitReached \<Longrightarrow> covered (fd_segments d') off nd"
    and "length (fd_segments d') \<le> ms"
    and "trimmed_result d off nd trn ex = SegmentLimitReached \<Longrightarrow> cut_short ms off nd (hole_of (fd_segments d) off nd) d'"
proof -
  note ar = offset_arith [OF assms(3), of seq isn] held_arith [OF assms(1-3)]
  let ?d1 = "d\<lparr>fd_depth_exceeded := fd_depth_exceeded d \<or> trn\<rparr>"
  have nd: "nd \<noteq> []" "length nd \<le> length data"
    using assms(4,6) by (auto simp: nd_def depth_trim_def admissible_def)
  have full: "nd = data" if "\<not> trn"
    using that by (simp add: nd_def depth_trim_def trn_def depth_cut_def)
  have shape: "fd_shape ?d1"
    using assms(1) by (simp add: fd_ok_def fd_shape_def fd_counted_def)
  have "off + length nd \<le> u64_max" using ar(2) nd(2) by (simp add: off_def)
  moreover have "\<forall>(o1, s) \<in> set (fd_segments ?d1). o1 + length s \<le> u64_max"
    using assms(1) le_trans [OF _ isize_bounds(1)] by (fastforce simp: fd_ok_def)
  moreover have "fd_buffered_bytes ?d1 + length nd \<le> u64_max" using ar(4) nd(2) by simp
  moreover have "length (fd_segments ?d1) < ms" using assms(6) by (simp add: admissible_def)
  ultimately obtain d' ex where it: "insert_trimmed ?d1 off nd trn ms = Some (d', trimmed_result ?d1 off nd trn ex)"
      and rest: "grows off nd (count_overlap off nd ?d1) d'" "fd_buffered_bytes d' \<le> fd_buffered_bytes ?d1 + length nd"
      "trimmed_result ?d1 off nd trn ex \<noteq> SegmentLimitReached \<longrightarrow> covered (fd_segments d') off nd"
      "length (fd_segments d') \<le> ms"
      "trimmed_result ?d1 off nd trn ex = SegmentLimitReached \<longrightarrow> cut_short ms off nd (hole_of (fd_segments ?d1) off nd) d'"
    using insert_trimmed_spec [OF shape nd(1), of off ms trn] by blast
  have tr: "trimmed_result ?d1 off nd trn ex = trimmed_result d off nd trn ex"
    by (simp add: trimmed_result_def)
  have "insert_segment d seq data dep ms w = insert_trimmed ?d1 off nd trn ms"
  proof (cases trn)
    case True
    then show ?thesis
      using assms(4-6) ar by (auto simp: insert_segment_def admissible_def off_def nd_def depth_trim_def
          trn_def depth_cut_def Let_def)
  next
    case False
    have "d\<lparr>fd_depth_exceeded := fd_depth_exceeded d\<rparr> = d" by simp
    with False full assms(4-6) ar show ?thesis
      by (auto simp: insert_segment_def admissible_def off_def trn_def depth_cut_def Let_def)
  qed
  with it rest show thesis by (intro that [of ?d1 d' ex]) (auto simp: tr)
qed

end
