(* ===== verification/Segment_Stream.thy ===== *)
theory Segment_Stream
  imports Segment_Insert
begin

text \<open>
  The segment buffer as a client sees it. \<open>insert_segment\<close> keeps the invariant of
  a direction, never panics, and refines the first-wins reading of the segments;
  \<open>flush_contiguous\<close> hands over exactly the bytes that follow the cursor. Put
  together: the bytes delivered for a direction are a prefix of the first-wins
  reading of the segments it accepted, in order and without a hole, and segments
  that tile a stream give back the whole stream whatever order they arrive in.
\<close>

section \<open>The first-wins policy\<close>

text \<open>A byte that is held stays; a byte of the new segment fills a hole.\<close>

definition first_wins :: "(nat \<rightharpoonup> u8) \<Rightarrow> u64 \<Rightarrow> bytes \<Rightarrow> (nat \<rightharpoonup> u8)" where
  "first_wins v off data x =
     (case v x of
        Some b \<Rightarrow> Some b
      | None \<Rightarrow> if off \<le> x \<and> x < off + length data then Some (data ! (x - off)) else None)"

lemma first_wins_empty [simp]: "first_wins v off [] = v"
  by (auto simp: first_wins_def fun_eq_iff split: option.split)

lemma first_wins_covered:
  "\<forall>x. off \<le> x \<and> x < off + length data \<longrightarrow> v x \<noteq> None \<Longrightarrow> first_wins v off data = v"
  by (rule ext) (auto simp: first_wins_def split: option.split)

text \<open>What a result promises about the bytes held afterwards.\<close>

definition keeps_policy ::
  "insert_result \<Rightarrow> (nat \<rightharpoonup> u8) \<Rightarrow> (nat \<rightharpoonup> u8) \<Rightarrow> u64 \<Rightarrow> bytes \<Rightarrow> bytes \<Rightarrow> bool"
where
  "keeps_policy r v v' off data kept =
     (case r of
        Inserted \<Rightarrow> v' = first_wins v off data
      | PartialOverlap \<Rightarrow> v' = first_wins v off data
      | Truncated \<Rightarrow> v' = first_wins v off kept
      | SegmentLimitReached \<Rightarrow> (\<exists>n < length data. v' = first_wins v off (take n kept))
      | Duplicate \<Rightarrow> v' = v
      | ConflictingOverlap \<Rightarrow> v' = v
      | DepthExceeded \<Rightarrow> v' = v
      | OutOfWindow \<Rightarrow> v' = v
      | IsnMissing \<Rightarrow> v' = v)"

definition stream_offset :: "flow_direction \<Rightarrow> u32 \<Rightarrow> u64" where
  "stream_offset d seq = (case fd_isn d of None \<Rightarrow> 0 | Some isn \<Rightarrow> seq_offset seq isn)"

lemma grows_old: "grows off nd d d' \<Longrightarrow> byte_at (fd_segments d) x = Some b \<Longrightarrow> byte_at (fd_segments d') x = Some b"
  unfolding grows_def by blast

lemma grows_new:
  "grows off nd d d' \<Longrightarrow> byte_at (fd_segments d') x = Some b \<Longrightarrow>
   byte_at (fd_segments d) x = Some b \<or> off \<le> x \<and> x < off + length nd \<and> b = nd ! (x - off)"
  unfolding grows_def by blast

lemma map_leI: "(\<And>x b. m x = Some b \<Longrightarrow> m' x = Some b) \<Longrightarrow> m \<subseteq>\<^sub>m m'"
  by (auto simp: map_le_def dom_def)

lemma grows_le_first_wins:
  assumes "grows off nd d d'"
  shows "byte_at (fd_segments d) \<subseteq>\<^sub>m byte_at (fd_segments d')"
    and "byte_at (fd_segments d') \<subseteq>\<^sub>m first_wins (byte_at (fd_segments d)) off nd"
proof -
  show "byte_at (fd_segments d) \<subseteq>\<^sub>m byte_at (fd_segments d')"
    using grows_old [OF assms] by (rule map_leI)
  show "byte_at (fd_segments d') \<subseteq>\<^sub>m first_wins (byte_at (fd_segments d)) off nd"
  proof (rule map_leI)
    fix x b
    assume b: "byte_at (fd_segments d') x = Some b"
    show "first_wins (byte_at (fd_segments d)) off nd x = Some b"
      using grows_new [OF assms b] grows_old [OF assms, of x] b
      by (auto simp: first_wins_def split: option.split)
  qed
qed

lemma grows_first_wins:
  assumes "grows off nd d d'" and "covered (fd_segments d') off nd"
  shows "byte_at (fd_segments d') = first_wins (byte_at (fd_segments d)) off nd"
proof
  fix x
  show "byte_at (fd_segments d') x = first_wins (byte_at (fd_segments d)) off nd x"
  proof (cases "byte_at (fd_segments d') x")
    case None
    then have "byte_at (fd_segments d) x = None" "\<not> (off \<le> x \<and> x < off + length nd)"
      using grows_old [OF assms(1), of x] assms(2)
      by (cases "byte_at (fd_segments d) x", auto simp: covered_def)
    with None show ?thesis by (auto simp: first_wins_def)
  next
    case (Some b)
    then show ?thesis using grows_le_first_wins(2) [OF assms(1)] by (auto simp: map_le_def dom_def)
  qed
qed

lemma cut_short_first_wins:
  assumes g: "grows off nd d d'" and c: "cut_short ms off nd (hole_of (fd_segments d) off nd) d'"
  shows "\<exists>n < length nd. byte_at (fd_segments d') = first_wins (byte_at (fd_segments d)) off (take n nd)"
proof -
  obtain n where n: "n < length nd" "\<And>x. hole_of (fd_segments d) off nd x \<Longrightarrow> byte_at (fd_segments d') x \<noteq> None \<longleftrightarrow> x < off + n"
    using c unfolding cut_short_def by blast
  have "byte_at (fd_segments d') x = first_wins (byte_at (fd_segments d)) off (take n nd) x" for x
  proof (cases "byte_at (fd_segments d) x")
    case (Some b)
    then show ?thesis using grows_old [OF g Some] by (simp add: first_wins_def)
  next
    case None
    show ?thesis
    proof (cases "byte_at (fd_segments d') x")
      case (Some b)
      then have "off \<le> x" "x < off + length nd" "b = nd ! (x - off)" using grows_new [OF g Some] None by auto
      moreover have "x < off + n" using n(2) [of x] calculation(1,2) None Some by (simp add: hole_of_def)
      ultimately show ?thesis using n(1) None Some by (auto simp: first_wins_def)
    next
      case n2: None
      then have "\<not> (off \<le> x \<and> x < off + n)" using n(1) n(2) [of x] None by (auto simp: hole_of_def)
      then show ?thesis using n(1) None n2 by (auto simp: first_wins_def)
    qed
  qed
  then show ?thesis using n(1) by (intro exI [of _ n]) auto
qed

lemma covered_grows_same:
  assumes "grows off nd d d'" and "covered (fd_segments d) off nd"
  shows "byte_at (fd_segments d') = byte_at (fd_segments d)"
proof -
  have "covered (fd_segments d') off nd"
    using assms grows_old [OF assms(1)] unfolding covered_def by fast
  then show ?thesis
    using grows_first_wins [OF assms(1)] assms(2) first_wins_covered by (simp add: covered_def)
qed

lemma seg_chain_distinct: "seg_chain lb m \<Longrightarrow> distinct m"
  using seg_chain_bt_ok bt_ok_def strict_sorted_iff distinct_map by metis

lemma grows_buffered:
  assumes "grows off nd d d'" and "fd_shape d"
  shows "fd_buffered_bytes d \<le> fd_buffered_bytes d'"
proof -
  have c: "seg_chain 0 (fd_segments d)" "seg_chain 0 (fd_segments d')"
    and n: "fd_buffered_bytes d = weight length (fd_segments d)"
      "fd_buffered_bytes d' = weight length (fd_segments d')"
    and s: "set (fd_segments d) \<subseteq> set (fd_segments d')"
    using assms by (auto simp: grows_def fd_shape_def fd_counted_def)
  have w: "weight length m = (\<Sum>e \<in> set m. length (snd e))" if "seg_chain 0 m" for m
    using sum_list_distinct_conv_sum_set [OF seg_chain_distinct [OF that]] by (simp add: weight_def)
  show ?thesis unfolding n w [OF c(1)] w [OF c(2)] by (intro sum_mono2 s) simp_all
qed

text \<open>The effect of a segment that passes every guard.\<close>

lemma admitted_view:
  assumes "fd_ok dep ms d" and "dep \<le> isize_max" and "length data \<le> isize_max"
    and "data \<noteq> []" and "fd_isn d = Some isn"
    and "admissible dep ms w d (seq_offset seq isn) data"
  obtains d' ex where
    "insert_segment d seq data dep ms w =
       Some (d', trimmed_result d (seq_offset seq isn) (depth_trim dep d data) (depth_cut dep d data) ex)"
    and "fd_ok dep ms d'"
    and "keeps_policy (trimmed_result d (seq_offset seq isn) (depth_trim dep d data) (depth_cut dep d data) ex)
       (byte_at (fd_segments d)) (byte_at (fd_segments d')) (seq_offset seq isn) data (depth_trim dep d data)"
    and "set (fd_segments d) \<subseteq> set (fd_segments d')"
    and "fd_buffered_bytes d \<le> fd_buffered_bytes d'"
    and "fd_buffered_bytes d' \<le> fd_buffered_bytes d + length data"
    and "fd_base_offset d' = fd_base_offset d" "fd_reassembled_bytes d' = fd_reassembled_bytes d"
    and "fd_isn d' = fd_isn d"
    and "trimmed_result d (seq_offset seq isn) (depth_trim dep d data) (depth_cut dep d data) ex = SegmentLimitReached \<longrightarrow>
       length (fd_segments d') = ms"
proof -
  let ?off = "seq_offset seq isn" and ?nd = "depth_trim dep d data" and ?tr = "depth_cut dep d data"
  from insert_segment_admits [OF assms] obtain d1 d' ex
    where d1: "d1 = d\<lparr>fd_depth_exceeded := fd_depth_exceeded d \<or> ?tr\<rparr>"
    and ins: "insert_segment d seq data dep ms w = Some (d', trimmed_result d ?off ?nd ?tr ex)"
    and g: "grows ?off ?nd (count_overlap ?off ?nd d1) d'"
    and b: "fd_buffered_bytes d' \<le> fd_buffered_bytes d + length ?nd"
    and cov: "trimmed_result d ?off ?nd ?tr ex \<noteq> SegmentLimitReached \<Longrightarrow> covered (fd_segments d') ?off ?nd"
    and ln: "length (fd_segments d') \<le> ms"
    and cs: "trimmed_result d ?off ?nd ?tr ex = SegmentLimitReached \<Longrightarrow> cut_short ms ?off ?nd (hole_of (fd_segments d) ?off ?nd) d'" by blast
  have segs: "fd_segments (count_overlap ?off ?nd d1) = fd_segments d" by (simp add: d1)
  have shape: "fd_shape (count_overlap ?off ?nd d1)"
    using assms(1) by (simp add: d1 fd_ok_def fd_shape_def fd_counted_def)
  have d': "d' = (count_overlap ?off ?nd d1)\<lparr>fd_segments := fd_segments d', fd_buffered_bytes := fd_buffered_bytes d'\<rparr>"
    using g by (simp add: grows_def)
  have frame: "fd_base_offset d' = fd_base_offset d" "fd_reassembled_bytes d' = fd_reassembled_bytes d"
      "fd_isn d' = fd_isn d"
    by (subst d', simp add: d1 count_overlap_def)+
  have nd: "length ?nd \<le> length data" "fd_reassembled_bytes d + fd_buffered_bytes d + length ?nd \<le> dep"
    using assms(1) by (auto simp: depth_trim_def fd_ok_def)
  have full: "?nd = data" if "\<not> ?tr" using that by (simp add: depth_trim_def depth_cut_def)
  have lim: "?off + length ?nd \<le> seg_limit" using offset_arith(1) [OF assms(3), of seq isn] nd(1) by linarith
  have "\<forall>(o1, s) \<in> set (fd_segments d'). o1 + length s \<le> seg_limit"
    using g assms(1) lim unfolding grows_def segs fd_ok_def by fastforce
  then have ok: "fd_ok dep ms d'"
    using g assms(1) b nd(2) ln by (simp add: fd_ok_def frame grows_def)
  have "byte_at (fd_segments d') = first_wins (byte_at (fd_segments d)) ?off ?nd"
    if "trimmed_result d ?off ?nd ?tr ex \<noteq> SegmentLimitReached"
    using grows_first_wins [OF g cov [OF that]] unfolding segs .
  moreover have "byte_at (fd_segments d') = byte_at (fd_segments d)" if "covered (fd_segments d) ?off ?nd"
    using covered_grows_same [OF g] that unfolding segs .
  moreover have "\<exists>n < length data. byte_at (fd_segments d') = first_wins (byte_at (fd_segments d)) ?off (take n ?nd)"
    if "trimmed_result d ?off ?nd ?tr ex = SegmentLimitReached"
    using cut_short_first_wins [OF g, unfolded segs, OF cs [OF that]] nd(1) by (meson less_le_trans)
  ultimately have pol: "keeps_policy (trimmed_result d ?off ?nd ?tr ex)
       (byte_at (fd_segments d)) (byte_at (fd_segments d')) ?off data ?nd"
    using full by (auto simp: trimmed_result_def keeps_policy_def)
  have "set (fd_segments d) \<subseteq> set (fd_segments d')" using g unfolding grows_def segs by blast
  moreover have "fd_buffered_bytes d \<le> fd_buffered_bytes d'"
    using grows_buffered [OF g shape] by (simp add: d1)
  moreover have "fd_buffered_bytes d' \<le> fd_buffered_bytes d + length data" using b nd(1) by linarith
  moreover have "trimmed_result d ?off ?nd ?tr ex = SegmentLimitReached \<longrightarrow> length (fd_segments d') = ms"
    using cs ln by (auto simp: cut_short_def)
  ultimately show thesis using that [OF ins ok pol _ _ _ frame] by blast
qed

text \<open>The whole effect of an insertion on a well-formed direction.\<close>

lemma insert_segment_view:
  assumes "fd_ok dep ms d" and "dep \<le> isize_max" and "length data \<le> isize_max"
  shows "\<exists>d' r. insert_segment d seq data dep ms w = Some (d', r) \<and> fd_ok dep ms d' \<and>
     keeps_policy r (byte_at (fd_segments d)) (byte_at (fd_segments d'))
       (stream_offset d seq) data (depth_trim dep d data) \<and>
     set (fd_segments d) \<subseteq> set (fd_segments d') \<and>
     fd_buffered_bytes d \<le> fd_buffered_bytes d' \<and>
     fd_buffered_bytes d' \<le> fd_buffered_bytes d + length data \<and>
     fd_base_offset d' = fd_base_offset d \<and> fd_reassembled_bytes d' = fd_reassembled_bytes d \<and>
     fd_isn d' = fd_isn d \<and> (r = SegmentLimitReached \<longrightarrow> length (fd_segments d') = ms)"
proof (cases "data = [] \<or> fd_isn d = None")
  case True
  then have "insert_segment d seq data dep ms w = Some (d, if data = [] then Inserted else IsnMissing)"
    by (auto simp: insert_segment_no_isn)
  with assms(1) show ?thesis by (auto simp: keeps_policy_def)
next
  case False
  then obtain isn where ne: "data \<noteq> []" and isn: "fd_isn d = Some isn" by auto
  have so: "stream_offset d seq = seq_offset seq isn" by (simp add: stream_offset_def isn)
  show ?thesis
  proof (cases "admissible dep ms w d (seq_offset seq isn) data")
    case adm: False
    show ?thesis
      using insert_segment_rejects [OF assms ne isn adm] assms(1) ne
      by (auto simp: keeps_policy_def fd_ok_def fd_shape_def fd_counted_def intro: exI [of _ 0] split: if_splits)
  next
    case True
    show ?thesis
      unfolding so by (rule admitted_view [OF assms ne isn True]) blast
  qed
qed

section \<open>Flushing\<close>

fun chunk_chain :: "u64 \<Rightarrow> (u64 \<times> bytes) list \<Rightarrow> u64 \<Rightarrow> bool" where
  "chunk_chain b [] e = (b = e)"
| "chunk_chain b ((off, s) # ch) e = (off = b \<and> s \<noteq> [] \<and> chunk_chain (b + length s) ch e)"

definition chunk_bytes :: "(u64 \<times> bytes) list \<Rightarrow> bytes" where
  "chunk_bytes ch = concat (map snd ch)"

lemma chunk_bytes_simps [simp]:
  "chunk_bytes [] = []" "chunk_bytes ((off, s) # ch) = s @ chunk_bytes ch"
  "chunk_bytes (ch @ ch') = chunk_bytes ch @ chunk_bytes ch'"
  by (simp_all add: chunk_bytes_def)

lemma chunk_chain_end: "chunk_chain b ch e \<Longrightarrow> e = b + length (chunk_bytes ch)"
  by (induction b ch e rule: chunk_chain.induct) auto

lemma bt_remove_view:
  assumes "seg_chain lb m" and "bt_get m k = Some s"
  shows "seg_chain lb (bt_remove k m)" and "(k, s) \<in> set m"
    and "byte_at (bt_remove k m) x = (if k \<le> x \<and> x < k + length s then None else byte_at m x)"
proof -
  have ok: "bt_ok m" using assms(1) by (rule seg_chain_bt_ok)
  show ks: "(k, s) \<in> set m" using assms(2) by (simp add: bt_get_def map_of_SomeD)
  show c: "seg_chain lb (bt_remove k m)"
    using assms(1) unfolding bt_remove_def
  proof (induction lb m rule: seg_chain.induct)
    case (2 lb a t m)
    then show ?case by (auto intro: seg_chain_mono)
  qed simp
  have mem: "e \<in> set (bt_remove k m) \<longleftrightarrow> e \<in> set m \<and> fst e \<noteq> k" for e
    using btree.set_remove [OF ok, of k] by auto
  show "byte_at (bt_remove k m) x = (if k \<le> x \<and> x < k + length s then None else byte_at m x)"
  proof (rule option_eqI)
    fix b
    show "byte_at (bt_remove k m) x = Some b \<longleftrightarrow>
        (if k \<le> x \<and> x < k + length s then None else byte_at m x) = Some b"
    proof
      assume "byte_at (bt_remove k m) x = Some b"
      then obtain o1 t where t: "(o1, t) \<in> set m" "o1 \<noteq> k" "o1 \<le> x" "x < o1 + length t" "b = t ! (x - o1)"
        using byte_at_Some_mem mem by fastforce
      then show "(if k \<le> x \<and> x < k + length s then None else byte_at m x) = Some b"
        using byte_at_mem [OF assms(1)] seg_chain_disjoint [OF assms(1) _ ks] by auto
    next
      assume *: "(if k \<le> x \<and> x < k + length s then None else byte_at m x) = Some b"
      then obtain o1 t where t: "(o1, t) \<in> set m" "o1 \<le> x" "x < o1 + length t" "b = t ! (x - o1)"
        using byte_at_Some_mem by (metis option.distinct(1))
      with * ks have "o1 \<noteq> k"
        using seg_chain_bt_ok [OF assms(1)] assms(2) btree.get_iff [OF ok, of k t] by (auto split: if_splits)
      with t show "byte_at (bt_remove k m) x = Some b"
        using byte_at_mem [OF c] mem by auto
    qed
  qed
qed

text \<open>\<open>drains d ch d'\<close>: flushing \<open>d\<close> hands out \<open>ch\<close> and leaves \<open>d'\<close>.\<close>

definition drains :: "flow_direction \<Rightarrow> (u64 \<times> bytes) list \<Rightarrow> flow_direction \<Rightarrow> bool" where
  "drains d ch d' \<longleftrightarrow>
     d' = d\<lparr>fd_segments := fd_segments d', fd_buffered_bytes := fd_buffered_bytes d',
            fd_base_offset := fd_base_offset d', fd_reassembled_bytes := fd_reassembled_bytes d'\<rparr> \<and>
     chunk_chain (fd_base_offset d) ch (fd_base_offset d') \<and>
     set (fd_segments d) = set ch \<union> set (fd_segments d') \<and>
     (\<forall>x. byte_at (fd_segments d') x =
            (if fd_base_offset d \<le> x \<and> x < fd_base_offset d' then None else byte_at (fd_segments d) x)) \<and>
     (\<forall>i < length (chunk_bytes ch). byte_at (fd_segments d) (fd_base_offset d + i) = Some (chunk_bytes ch ! i)) \<and>
     fd_reassembled_bytes d' = fd_reassembled_bytes d + length (chunk_bytes ch) \<and>
     fd_buffered_bytes d = fd_buffered_bytes d' + length (chunk_bytes ch)"

lemma drains_refl: "drains d [] d"
  by (auto simp: drains_def)

lemma drainsD:
  assumes "drains d ch d'"
  shows "fd_base_offset d' = fd_base_offset d + length (chunk_bytes ch)"
    and "set (fd_segments d) = set ch \<union> set (fd_segments d')"
    and "byte_at (fd_segments d') x =
            (if fd_base_offset d \<le> x \<and> x < fd_base_offset d' then None else byte_at (fd_segments d) x)"
    and "i < length (chunk_bytes ch) \<Longrightarrow> byte_at (fd_segments d) (fd_base_offset d + i) = Some (chunk_bytes ch ! i)"
    and "fd_reassembled_bytes d' = fd_reassembled_bytes d + length (chunk_bytes ch)"
    and "fd_buffered_bytes d = fd_buffered_bytes d' + length (chunk_bytes ch)"
    and "chunk_chain (fd_base_offset d) ch (fd_base_offset d')"
  using assms chunk_chain_end unfolding drains_def by blast+

lemma drains_frame:
  assumes "drains d ch d'"
  shows "fd_isn d' = fd_isn d" and "fd_depth_exceeded d' = fd_depth_exceeded d"
    and "fd_overlap_count d' = fd_overlap_count d" and "fd_small_segment_run d' = fd_small_segment_run d"
    and "fd_out_of_window_count d' = fd_out_of_window_count d" and "fd_fin_seen d' = fd_fin_seen d"
    and "fd_rst_seen d' = fd_rst_seen d"
  using assms by (cases d; cases d'; simp add: drains_def)+

lemma drains_step:
  assumes "fd_ok dep ms d" and "bt_get (fd_segments d) (fd_base_offset d) = Some s"
  defines "d1 \<equiv> d\<lparr>fd_segments := bt_remove (fd_base_offset d) (fd_segments d),
                 fd_buffered_bytes := fd_buffered_bytes d - length s,
                 fd_base_offset := fd_base_offset d + length s,
                 fd_reassembled_bytes := fd_reassembled_bytes d + length s\<rparr>"
  shows "length s \<le> fd_buffered_bytes d" and "fd_base_offset d + length s \<le> seg_limit"
    and "fd_reassembled_bytes d + length s \<le> dep" and "fd_ok dep ms d1"
    and "drains d [(fd_base_offset d, s)] d1"
proof -
  let ?m = "fd_segments d" and ?k = "fd_base_offset d"
  have c: "seg_chain 0 ?m" and n: "fd_buffered_bytes d = weight length ?m"
    and lim: "\<forall>(o1, s) \<in> set ?m. o1 + length s \<le> seg_limit"
    and dep: "fd_reassembled_bytes d + fd_buffered_bytes d \<le> dep"
    and ms: "length ?m \<le> ms"
    using assms(1) by (auto simp: fd_ok_def fd_shape_def fd_counted_def)
  have ok: "bt_ok ?m" using c by (rule seg_chain_bt_ok)
  note rem = bt_remove_view [OF c assms(2)]
  have sne: "s \<noteq> []" using seg_chain_keys [OF c rem(2)] by simp
  have wt: "weight length (bt_remove ?k ?m) + length s = weight length ?m"
    using btree.weight_remove [OF ok, of length ?k] assms(2) by simp
  show 1: "length s \<le> fd_buffered_bytes d" using wt n by simp
  show 2: "?k + length s \<le> seg_limit" using lim rem(2) by auto
  show 3: "fd_reassembled_bytes d + length s \<le> dep" using 1 dep by linarith
  have sub: "set (bt_remove ?k ?m) = {e \<in> set ?m. fst e \<noteq> ?k}" using btree.set_remove [OF ok, of ?k] by auto
  have "length (bt_remove ?k ?m) < length ?m" using assms(2) by (rule bt_remove_shorter)
  then show "fd_ok dep ms d1"
    unfolding fd_ok_def fd_shape_def fd_counted_def d1_def using rem(1) wt n 1 2 lim dep ms sub by simp
  have eq: "e \<in> set ?m \<Longrightarrow> fst e = ?k \<Longrightarrow> e = (?k, s)" for e
    using btree.get_iff [OF ok, of ?k "snd e"] assms(2) by (cases e) auto
  have sets: "set ?m = insert (?k, s) (set (bt_remove ?k ?m))" unfolding sub using rem(2) eq by blast
  have bytes: "byte_at ?m (?k + i) = Some (s ! i)" if "i < length s" for i
    using byte_at_mem [OF c rem(2), of "?k + i"] that by simp
  show "drains d [(?k, s)] d1"
    unfolding drains_def d1_def using sne rem(3) bytes 1 sets by simp
qed

lemma drains_Cons:
  assumes "drains d [(b, s)] d1" and "drains d1 ch d'"
  shows "drains d ((b, s) # ch) d'"
proof -
  have b: "b = fd_base_offset d" "fd_base_offset d1 = b + length s" "s \<noteq> []" using assms(1) by (auto simp: drains_def)
  have e: "fd_base_offset d' = fd_base_offset d1 + length (chunk_bytes ch)"
    using assms(2) by (auto simp: drains_def dest: chunk_chain_end)
  have head: "byte_at (fd_segments d) (fd_base_offset d + i) = Some (s ! i)" if "i < length s" for i
    using assms(1) that by (auto simp: drains_def)
  have tail: "byte_at (fd_segments d) (fd_base_offset d1 + i) = Some (chunk_bytes ch ! i)"
    if "i < length (chunk_bytes ch)" for i
    using assms that b by (auto simp: drains_def)
  have "byte_at (fd_segments d) (fd_base_offset d + i) = Some ((s @ chunk_bytes ch) ! i)"
    if "i < length s + length (chunk_bytes ch)" for i
    using head [of i] tail [of "i - length s"] that b by (auto simp: nth_append)
  moreover have "d' = d\<lparr>fd_segments := fd_segments d', fd_buffered_bytes := fd_buffered_bytes d',
            fd_base_offset := fd_base_offset d', fd_reassembled_bytes := fd_reassembled_bytes d'\<rparr>"
    using assms unfolding drains_def by (cases d; cases d1; cases d') simp
  moreover have "byte_at (fd_segments d') x =
      (if fd_base_offset d \<le> x \<and> x < fd_base_offset d' then None else byte_at (fd_segments d) x)" for x
    using assms b e by (auto simp: drains_def)
  ultimately show ?thesis using assms b by (auto simp: drains_def)
qed

lemma flush_loop_spec:
  assumes "fd_ok dep ms d" and "dep \<le> isize_max"
  shows "\<exists>d' ch. flush_loop d acc = Some (d', acc @ ch) \<and> fd_ok dep ms d' \<and> drains d ch d' \<and>
           bt_get (fd_segments d') (fd_base_offset d') = None"
  using assms
proof (induction d acc rule: flush_loop.induct)
  case (1 d acc)
  show ?case
  proof (cases "bt_get (fd_segments d) (fd_base_offset d)")
    case None
    then show ?thesis using 1 drains_refl by (auto simp: flush_loop.simps [of d])
  next
    case (Some s)
    let ?d1 = "d\<lparr>fd_segments := bt_remove (fd_base_offset d) (fd_segments d),
                 fd_buffered_bytes := fd_buffered_bytes d - length s,
                 fd_base_offset := fd_base_offset d + length s,
                 fd_reassembled_bytes := fd_reassembled_bytes d + length s\<rparr>"
    note st = drains_step [OF "1.prems"(1) Some]
    have a: "fd_base_offset d + length s \<le> u64_max" "fd_reassembled_bytes d + length s \<le> u64_max"
      using st(2,3) "1.prems"(2) isize_bounds by linarith+
    have "flush_loop d acc = flush_loop ?d1 (acc @ [(fd_base_offset d, s)])"
      using st(1) a by (simp add: flush_loop.simps [of d] Some)
    moreover have "\<exists>d' ch. flush_loop ?d1 (acc @ [(fd_base_offset d, s)]) =
          Some (d', (acc @ [(fd_base_offset d, s)]) @ ch) \<and> fd_ok dep ms d' \<and> drains ?d1 ch d' \<and>
           bt_get (fd_segments d') (fd_base_offset d') = None"
      using st a "1.prems"(2) Some by (intro "1.IH") auto
    ultimately show ?thesis using drains_Cons [OF st(5)] by force
  qed
qed

lemma flush_contiguous_spec:
  assumes "fd_ok dep ms d" and "dep \<le> isize_max"
  obtains d' ch where "flush_contiguous d = Some (d', ch)" and "fd_ok dep ms d'" and "drains d ch d'"
    and "bt_get (fd_segments d') (fd_base_offset d') = None"
  using flush_loop_spec [OF assms, of "[]"] by (auto simp: flush_contiguous_def)

end
