(* ===== verification/Stream_Delivery.thy ===== *)
theory Stream_Delivery
  imports Segment_Stream
begin

text \<open>
  What a direction delivers over a whole run of segments, each inserted and then
  flushed as the engine does, and the two ways a retransmission can hurt it.
\<close>

section \<open>Runs of segments\<close>

text \<open>\<open>insert_segment\<close> followed by \<open>flush_contiguous\<close>, for a list of arriving segments.\<close>

fun receive ::
  "usize \<Rightarrow> usize \<Rightarrow> usize \<Rightarrow> flow_direction \<Rightarrow> (u32 \<times> bytes) list
   \<Rightarrow> (flow_direction \<times> insert_result list \<times> bytes) rust"
where
  "receive dep ms w d [] = Some (d, [], [])"
| "receive dep ms w d ((seq, data) # ps) = do {
     (d1, r) \<leftarrow> insert_segment d seq data dep ms w;
     (d2, ch) \<leftarrow> flush_contiguous d1;
     (d3, rs, out) \<leftarrow> receive dep ms w d2 ps;
     Some (d3, r # rs, chunk_bytes ch @ out)
   }"

text \<open>The reference: every segment read in order of arrival, the first copy of a byte winning.\<close>

definition first_wins_all :: "u32 \<Rightarrow> (u32 \<times> bytes) list \<Rightarrow> (nat \<rightharpoonup> u8) \<Rightarrow> (nat \<rightharpoonup> u8)" where
  "first_wins_all isn ps v = fold (\<lambda>(seq, data) v. first_wins v (seq_offset seq isn) data) ps v"

lemma first_wins_all_simps [simp]:
  "first_wins_all isn [] v = v"
  "first_wins_all isn ((seq, data) # ps) v = first_wins_all isn ps (first_wins v (seq_offset seq isn) data)"
  by (simp_all add: first_wins_all_def)

text \<open>A direction whose buffer is the part of the reading ahead of the cursor, the rest delivered.\<close>

definition tracks :: "bytes \<Rightarrow> (nat \<rightharpoonup> u8) \<Rightarrow> flow_direction \<Rightarrow> bool" where
  "tracks out seen d \<longleftrightarrow>
     fd_base_offset d = Suc (length out) \<and>
     (\<forall>i < length out. seen (Suc i) = Some (out ! i)) \<and>
     (\<forall>x \<ge> fd_base_offset d. byte_at (fd_segments d) x = seen x)"

definition accepting :: "insert_result \<Rightarrow> bool" where
  "accepting r = (r = Inserted \<or> r = PartialOverlap \<or> r = Duplicate \<or> r = ConflictingOverlap)"

lemma keeps_policy_accepting:
  assumes "keeps_policy r v v' off data kept" and "accepting r"
    and "r = Duplicate \<or> r = ConflictingOverlap \<Longrightarrow> \<forall>x. off \<le> x \<and> x < off + length data \<longrightarrow> v x \<noteq> None"
  shows "v' = first_wins v off data"
  using assms first_wins_covered by (auto simp: accepting_def keeps_policy_def)

lemma tracks_flush:
  assumes "tracks out seen d" and "drains d ch d'"
  shows "tracks (out @ chunk_bytes ch) seen d'"
proof -
  note dr = drainsD [OF assms(2)]
  have "seen (Suc i) = Some ((out @ chunk_bytes ch) ! i)" if "i < length out + length (chunk_bytes ch)" for i
  proof (cases "i < length out")
    case True
    then show ?thesis using assms(1) by (simp add: tracks_def nth_append)
  next
    case False
    define j where "j = i - length out"
    have j: "i = length out + j" "j < length (chunk_bytes ch)" using False that by (simp_all add: j_def)
    show ?thesis using assms(1) dr(4) [OF j(2)] by (simp add: tracks_def nth_append j(1))
  qed
  moreover have "byte_at (fd_segments d') x = seen x" if "fd_base_offset d' \<le> x" for x
    using assms(1) dr(1,3) that by (simp add: tracks_def)
  ultimately show ?thesis using assms(1) dr(1) by (simp add: tracks_def)
qed

lemma tracks_insert:
  assumes "tracks out seen d" and "byte_at (fd_segments d') = first_wins (byte_at (fd_segments d)) off data"
    and "fd_base_offset d' = fd_base_offset d"
  shows "tracks out (first_wins seen off data) d'"
  using assms by (auto simp: tracks_def first_wins_def split: option.splits)

section \<open>Results\<close>

text \<open>The result as a function of the bytes held: the guards in their order, then what
  the admitted part of the payload meets in the buffer.\<close>

definition segment_outcome ::
  "usize \<Rightarrow> usize \<Rightarrow> usize \<Rightarrow> flow_direction \<Rightarrow> u64 \<Rightarrow> bytes \<Rightarrow> bool \<Rightarrow> insert_result"
where
  "segment_outcome dep ms w d off data exhausted =
     (if off + length data < fd_base_offset d \<or> sat_add64 (fd_base_offset d) w < off then OutOfWindow
      else if ms \<le> length (fd_segments d) then SegmentLimitReached
      else if dep \<le> fd_reassembled_bytes d + fd_buffered_bytes d then DepthExceeded
      else trimmed_result d off (depth_trim dep d data) (depth_cut dep d data) exhausted)"

lemma insert_segment_outcome:
  assumes "fd_ok dep ms d" and "dep \<le> isize_max" and "length data \<le> isize_max"
    and "data \<noteq> []" and "fd_isn d = Some isn"
    and "insert_segment d seq data dep ms w = Some (d', r)"
  shows "\<exists>ex. r = segment_outcome dep ms w d (seq_offset seq isn) data ex"
proof (cases "admissible dep ms w d (seq_offset seq isn) data")
  case False
  then show ?thesis
    using insert_segment_rejects [OF assms(1-5) False] assms(6)
    by (auto simp: segment_outcome_def admissible_def split: if_splits)
next
  case True
  show ?thesis
    by (rule admitted_view [OF assms(1-5) True])
       (use assms(6) True in \<open>auto simp: segment_outcome_def admissible_def\<close>)
qed

text \<open>Once the depth limit has cut a payload the direction stays marked.\<close>

lemma insert_segment_depth_latch:
  assumes "fd_ok dep ms d" and "dep \<le> isize_max" and "length data \<le> isize_max"
    and "insert_segment d seq data dep ms w = Some (d', r)" and "\<not> fd_depth_exceeded d'"
  shows "\<not> fd_depth_exceeded d"
    and "r = Duplicate \<or> r = ConflictingOverlap \<Longrightarrow>
         \<forall>x. stream_offset d seq \<le> x \<and> x < stream_offset d seq + length data \<longrightarrow> byte_at (fd_segments d) x \<noteq> None"
proof -
  have "\<not> fd_depth_exceeded d \<and> (r = Duplicate \<or> r = ConflictingOverlap \<longrightarrow>
         (\<forall>x. stream_offset d seq \<le> x \<and> x < stream_offset d seq + length data \<longrightarrow> byte_at (fd_segments d) x \<noteq> None))"
  proof (cases "data = [] \<or> fd_isn d = None")
    case True
    then have "insert_segment d seq data dep ms w = Some (d, if data = [] then Inserted else IsnMissing)"
      by (auto simp: insert_segment_no_isn)
    then show ?thesis using assms(4,5) by auto
  next
    case False
    then obtain isn where ne: "data \<noteq> []" and isn: "fd_isn d = Some isn" by auto
    let ?off = "seq_offset seq isn" and ?nd = "depth_trim dep d data" and ?tr = "depth_cut dep d data"
    show ?thesis
    proof (cases "admissible dep ms w d ?off data")
      case adm: False
      show ?thesis
        using insert_segment_rejects [OF assms(1-3) ne isn adm] assms(4,5) by (auto split: if_splits)
    next
      case True
      from insert_segment_admits [OF assms(1-3) ne isn True] assms(4) obtain d1 ex
        where d1: "d1 = d\<lparr>fd_depth_exceeded := fd_depth_exceeded d \<or> ?tr\<rparr>"
        and r: "r = trimmed_result d ?off ?nd ?tr ex"
        and g: "grows ?off ?nd (count_overlap ?off ?nd d1) d'" by (metis option.inject prod.inject)
      have "d' = (count_overlap ?off ?nd d1)\<lparr>fd_segments := fd_segments d', fd_buffered_bytes := fd_buffered_bytes d'\<rparr>"
        using g unfolding grows_def by blast
      then have "fd_depth_exceeded d' = (fd_depth_exceeded d \<or> ?tr)"
        by (metis (no_types, lifting) count_overlap_def d1 flow_direction.select_convs(14)
            flow_direction.surjective flow_direction.update_convs(3) flow_direction.update_convs(4)
            flow_direction.update_convs(6) flow_direction.update_convs(14))
      with assms(5) have "\<not> ?tr" "\<not> fd_depth_exceeded d" by auto
      then show ?thesis
        using r by (auto simp: trimmed_result_def depth_cut_def depth_trim_def covered_def stream_offset_def isn
            split: if_splits)
    qed
  qed
  then show "\<not> fd_depth_exceeded d"
    and "r = Duplicate \<or> r = ConflictingOverlap \<Longrightarrow>
         \<forall>x. stream_offset d seq \<le> x \<and> x < stream_offset d seq + length data \<longrightarrow> byte_at (fd_segments d) x \<noteq> None"
    by auto
qed

section \<open>Delivery\<close>

lemma receive_step:
  assumes "fd_ok dep ms d" and "dep \<le> isize_max" and "length data \<le> isize_max"
  obtains d1 r d2 ch where "insert_segment d seq data dep ms w = Some (d1, r)"
    and "flush_contiguous d1 = Some (d2, ch)" and "drains d1 ch d2"
    and "fd_ok dep ms d1" and "fd_ok dep ms d2" and "bt_get (fd_segments d2) (fd_base_offset d2) = None"
proof -
  obtain d1 r where i: "insert_segment d seq data dep ms w = Some (d1, r)" and ok: "fd_ok dep ms d1"
    using insert_segment_view [OF assms, of seq w] by blast
  show thesis
    by (rule flush_contiguous_spec [OF ok assms(2)]) (rule that [OF i _ _ ok])
qed

lemma receive_total:
  assumes "fd_ok dep ms d" and "dep \<le> isize_max" and "\<forall>(seq, data) \<in> set ps. length data \<le> isize_max"
  shows "\<exists>d' rs out. receive dep ms w d ps = Some (d', rs, out) \<and> fd_ok dep ms d'"
  using assms
proof (induction ps arbitrary: d)
  case (Cons p ps)
  obtain seq data where p: "p = (seq, data)" by force
  have n: "length data \<le> isize_max" using Cons.prems(3) p by simp
  obtain d1 r d2 ch where "insert_segment d seq data dep ms w = Some (d1, r)"
      "flush_contiguous d1 = Some (d2, ch)" "fd_ok dep ms d2"
    by (rule receive_step [OF Cons.prems(1,2) n])
  with Cons.IH [OF _ Cons.prems(2)] Cons.prems(3) p show ?case by fastforce
qed simp

lemma receive_depth_latch:
  assumes "fd_ok dep ms d" and "dep \<le> isize_max" and "\<forall>(seq, data) \<in> set ps. length data \<le> isize_max"
    and "receive dep ms w d ps = Some (d', rs, out)" and "\<not> fd_depth_exceeded d'"
  shows "\<not> fd_depth_exceeded d"
  using assms
proof (induction ps arbitrary: d rs out)
  case (Cons p ps)
  obtain seq data where p: "p = (seq, data)" by force
  have n: "length data \<le> isize_max" using Cons.prems(3) p by simp
  obtain d1 r d2 ch where i: "insert_segment d seq data dep ms w = Some (d1, r)"
      and f: "flush_contiguous d1 = Some (d2, ch)" and dr: "drains d1 ch d2" and ok: "fd_ok dep ms d2"
    by (rule receive_step [OF Cons.prems(1,2) n])
  have "\<not> fd_depth_exceeded d2"
    using Cons.IH [OF ok Cons.prems(2)] Cons.prems(3-5) by (auto simp: p i f bind_eq_Some_conv)
  then show ?case
    using insert_segment_depth_latch(1) [OF Cons.prems(1,2) n i] drains_frame(2) [OF dr] by simp
qed simp

lemma receive_tracks:
  assumes "fd_ok dep ms d" and "dep \<le> isize_max" and "\<forall>(seq, data) \<in> set ps. length data \<le> isize_max"
    and "fd_isn d = Some isn" and "tracks out0 seen d"
    and "receive dep ms w d ps = Some (d', rs, out)" and "\<forall>r \<in> set rs. accepting r"
    and "\<not> fd_depth_exceeded d'"
  shows "tracks (out0 @ out) (first_wins_all isn ps seen) d'"
  using assms
proof (induction ps arbitrary: d seen out0 rs out)
  case (Cons p ps)
  obtain seq data where p: "p = (seq, data)" by force
  have n: "length data \<le> isize_max" using Cons.prems(3) p by simp
  obtain d1 r d2 ch where i: "insert_segment d seq data dep ms w = Some (d1, r)"
      and f: "flush_contiguous d1 = Some (d2, ch)" and dr: "drains d1 ch d2"
      and ok: "fd_ok dep ms d1" "fd_ok dep ms d2"
    by (rule receive_step [OF Cons.prems(1,2) n])
  obtain rs' out' where rec: "receive dep ms w d2 ps = Some (d', rs', out')"
      and rs: "rs = r # rs'" and out: "out = chunk_bytes ch @ out'"
    using Cons.prems(6) by (auto simp: p i f bind_eq_Some_conv)
  have v: "keeps_policy r (byte_at (fd_segments d)) (byte_at (fd_segments d1)) (stream_offset d seq) data
        (depth_trim dep d data)"
    and fr: "fd_base_offset d1 = fd_base_offset d" "fd_isn d1 = fd_isn d"
    using insert_segment_view [OF Cons.prems(1,2) n, of seq w] i by auto
  have isn2: "fd_isn d2 = Some isn" using drains_frame(1) [OF dr] fr(2) Cons.prems(4) by simp
  have step: "tracks (out0 @ chunk_bytes ch) (first_wins seen (seq_offset seq isn) data) d2"
    if "\<not> fd_depth_exceeded d1"
  proof -
    have "byte_at (fd_segments d1) = first_wins (byte_at (fd_segments d)) (stream_offset d seq) data"
      using keeps_policy_accepting [OF v] insert_segment_depth_latch(2) [OF Cons.prems(1,2) n i that]
        Cons.prems(7) rs by auto
    then have "tracks out0 (first_wins seen (seq_offset seq isn) data) d1"
      using tracks_insert [OF Cons.prems(5) _ fr(1)] Cons.prems(4) by (simp add: stream_offset_def)
    then show ?thesis using dr by (rule tracks_flush)
  qed
  have IH: "tracks o2 s2 d2 \<Longrightarrow> tracks (o2 @ out') (first_wins_all isn ps s2) d'" for o2 s2
    using Cons.IH [OF ok(2) Cons.prems(2) _ isn2 _ rec _ Cons.prems(8)] Cons.prems(3,7) rs by simp
  have "\<not> fd_depth_exceeded d2"
    using receive_depth_latch [OF ok(2) Cons.prems(2) _ rec Cons.prems(8)] Cons.prems(3) by simp
  then have "\<not> fd_depth_exceeded d1" using drains_frame(2) [OF dr] by simp
  then show ?case
    using IH [OF step] by (simp add: p out)
qed simp

section \<open>Segments that tile a stream\<close>

lemma insert_segment_plain:
  assumes "fd_ok dep ms d" and "dep \<le> isize_max" and "length data \<le> isize_max"
    and "data \<noteq> []" and "fd_isn d = Some isn"
    and "admissible dep ms w d (seq_offset seq isn) data"
    and "\<not> touched (fd_segments d) (seq_offset seq isn) data" and "\<not> depth_cut dep d data"
  shows "insert_segment d seq data dep ms w =
    Some (d\<lparr>fd_segments := bt_insert (seq_offset seq isn) data (fd_segments d),
            fd_buffered_bytes := fd_buffered_bytes d + length data\<rparr>, Inserted)"
proof -
  let ?off = "seq_offset seq isn"
  note ar = offset_arith [OF assms(3), of seq isn] held_arith [OF assms(1-3)]
  have shape: "fd_shape d" using assms(1) by (simp add: fd_ok_def)
  then have c: "seg_chain 0 (fd_segments d)" by (simp add: fd_shape_def)
  have "\<forall>(o1, s) \<in> set (bt_range_to (?off + length data) (fd_segments d)). o1 + length s \<le> u64_max"
    using assms(1) le_trans [OF _ isize_bounds(1)] by (fastforce simp: range_to_keep [OF c] fd_ok_def)
  from scan_overlaps_eq [OF ar(2) this, of False False "[]"]
  have scan: "\<exists>hc rs. scan_overlaps ?off data (bt_range_to (?off + length data) (fd_segments d)) False False [] =
      Some (False, hc, rs)"
    using scan_hits_iff [OF c assms(4), of ?off] assms(7) by (simp add: touched_def)
  have "put_segment ?off data d = Some (d\<lparr>fd_segments := bt_insert ?off data (fd_segments d),
            fd_buffered_bytes := fd_buffered_bytes d + length data\<rparr>)"
    using assms(7) ar(4) by (intro put_segment_free(1) [OF shape assms(4)]) (auto simp: touched_def)
  then have "insert_trimmed d ?off data False ms =
    Some (d\<lparr>fd_segments := bt_insert ?off data (fd_segments d),
            fd_buffered_bytes := fd_buffered_bytes d + length data\<rparr>, Inserted)"
    using scan ar(2) by (auto simp: insert_trimmed_def)
  moreover have "insert_segment d seq data dep ms w = insert_trimmed d ?off data False ms"
    using assms(4-6,8) ar by (auto simp: insert_segment_def admissible_def depth_cut_def Let_def)
  ultimately show ?thesis by simp
qed

text \<open>Tracking with nothing behind the cursor and nothing left to flush.\<close>

definition settled :: "bytes \<Rightarrow> (nat \<rightharpoonup> u8) \<Rightarrow> flow_direction \<Rightarrow> bool" where
  "settled out seen d \<longleftrightarrow>
     tracks out seen d \<and> (\<forall>(o1, s) \<in> set (fd_segments d). fd_base_offset d \<le> o1) \<and>
     byte_at (fd_segments d) (fd_base_offset d) = None"

lemma flush_ahead:
  assumes "\<forall>(o1, s) \<in> set (fd_segments d). fd_base_offset d \<le> o1" and "drains d ch d'"
    and "fd_ok dep ms d'" and m: "(o1, s) \<in> set (fd_segments d')"
  shows "fd_base_offset d' \<le> o1"
proof (rule ccontr)
  note dr = drainsD [OF assms(2)]
  have c: "seg_chain 0 (fd_segments d')" using assms(3) by (simp add: fd_ok_def fd_shape_def)
  assume "\<not> fd_base_offset d' \<le> o1"
  moreover have "fd_base_offset d \<le> o1" using assms(1) dr(2) m by auto
  ultimately have "byte_at (fd_segments d') o1 = None" using dr(3) by simp
  moreover have "byte_at (fd_segments d') o1 = Some (s ! 0)"
    using byte_at_mem [OF c m, of o1] seg_chain_keys [OF c m] by simp
  ultimately show False by simp
qed

lemma flush_stops_at_hole:
  assumes "\<forall>(o1, s) \<in> set (fd_segments d). fd_base_offset d \<le> o1" and "drains d ch d'"
    and "fd_ok dep ms d'" and "bt_get (fd_segments d') (fd_base_offset d') = None"
  shows "byte_at (fd_segments d') (fd_base_offset d') = None"
proof (rule ccontr)
  assume "byte_at (fd_segments d') (fd_base_offset d') \<noteq> None"
  then obtain o1 s where m: "(o1, s) \<in> set (fd_segments d')" "o1 \<le> fd_base_offset d'"
    using byte_at_Some_mem by blast
  with flush_ahead [OF assms(1-3) m(1)] have "(fd_base_offset d', s) \<in> set (fd_segments d')" by simp
  then show False
    using assms(4) by (simp add: bt_get_def map_of_eq_None_iff image_iff) (metis fst_conv)
qed

lemma flush_settles:
  assumes "tracks out seen d" and "\<forall>(o1, s) \<in> set (fd_segments d). fd_base_offset d \<le> o1"
    and "drains d ch d'" and "fd_ok dep ms d'" and "bt_get (fd_segments d') (fd_base_offset d') = None"
  shows "settled (out @ chunk_bytes ch) seen d'"
  using tracks_flush [OF assms(1,3)] flush_ahead [OF assms(2-4)] flush_stops_at_hole [OF assms(2-5)]
  by (auto simp: settled_def)

text \<open>One tile: it is new, lies ahead of the cursor, and is within every limit.\<close>

lemma receive_tile:
  assumes "fd_ok dep ms d" and "dep \<le> isize_max" and "fd_isn d = Some isn" and "settled out seen d"
    and "data \<noteq> []" and "1 \<le> seq_offset seq isn" and "seq_offset seq isn \<le> w"
    and "\<forall>x. seq_offset seq isn \<le> x \<and> x < seq_offset seq isn + length data \<longrightarrow> seen x = None"
    and "fd_reassembled_bytes d + fd_buffered_bytes d + length data \<le> dep"
    and "length (fd_segments d) < ms"
  obtains d1 d2 ch where "insert_segment d seq data dep ms w = Some (d1, Inserted)"
    and "flush_contiguous d1 = Some (d2, ch)" and "fd_ok dep ms d2"
    and "settled (out @ chunk_bytes ch) (first_wins seen (seq_offset seq isn) data) d2"
    and "fd_isn d2 = Some isn"
    and "fd_reassembled_bytes d2 + fd_buffered_bytes d2 = fd_reassembled_bytes d + fd_buffered_bytes d + length data"
    and "length (fd_segments d2) \<le> Suc (length (fd_segments d))"
proof -
  let ?off = "seq_offset seq isn"
  have n: "length data \<le> isize_max" using assms(2,9) by linarith
  have off_seen: "seen ?off = None" using assms(5,8) by simp
  have tr: "tracks out seen d" using assms(4) by (simp add: settled_def)
  have base: "fd_base_offset d \<le> ?off"
  proof (rule ccontr)
    assume "\<not> fd_base_offset d \<le> ?off"
    then have "?off - 1 < length out" "Suc (?off - 1) = ?off" using tr assms(6) by (auto simp: tracks_def)
    then show False using tr off_seen unfolding tracks_def by (metis option.distinct(1))
  qed
  have free: "byte_at (fd_segments d) x = None" if "?off \<le> x" "x < ?off + length data" for x
    using tr assms(8) base that by (auto simp: tracks_def)
  have "0 < length data" using assms(5) by simp
  then have held: "fd_reassembled_bytes d + fd_buffered_bytes d < dep" using assms(9) by linarith
  have lim: "?off \<le> sat_add64 (fd_base_offset d) w"
  proof -
    have "?off \<le> u64_max"
      by (rule le_trans [OF less_imp_le [OF seq_offset_less]]) (simp add: u64_max_def)
    then show ?thesis using assms(7) by (simp add: sat_add64_def)
  qed
  let ?d1 = "d\<lparr>fd_segments := bt_insert ?off data (fd_segments d),
            fd_buffered_bytes := fd_buffered_bytes d + length data\<rparr>"
  have ins: "insert_segment d seq data dep ms w = Some (?d1, Inserted)"
    using free held lim base assms(9,10)
    by (intro insert_segment_plain [OF assms(1,2) n assms(5,3)]) (auto simp: admissible_def touched_def depth_cut_def)
  have shape: "fd_shape d" using assms(1) by (simp add: fd_ok_def)
  have b: "fd_buffered_bytes d + length data \<le> u64_max" using held_arith(2) [OF assms(1,2) n] by linarith
  note put = put_segment_free [OF shape assms(5) b free]
  have view: "byte_at (fd_segments ?d1) = first_wins (byte_at (fd_segments d)) ?off data"
    using put(3) free by (auto simp: fun_eq_iff first_wins_def split: option.split)
  have ahead: "\<forall>(o1, s) \<in> set (fd_segments ?d1). fd_base_offset ?d1 \<le> o1"
    using put(5) assms(4) base by (auto simp: settled_def)
  obtain d2 ch where f: "flush_contiguous ?d1 = Some (d2, ch)" and dr: "drains ?d1 ch d2"
      and ok: "fd_ok dep ms ?d1" "fd_ok dep ms d2" and none: "bt_get (fd_segments d2) (fd_base_offset d2) = None"
    by (rule receive_step [OF assms(1,2) n, of seq w]) (use ins in auto)
  have "set (fd_segments d2) \<subseteq> set (fd_segments ?d1)" using drainsD(2) [OF dr] by blast
  moreover have "distinct (fd_segments d2)"
    using ok(2) seg_chain_distinct by (auto simp: fd_ok_def fd_shape_def)
  ultimately have "length (fd_segments d2) \<le> length (fd_segments ?d1)"
    by (metis List.finite_set card_length card_mono distinct_card le_trans)
  then have ln: "length (fd_segments d2) \<le> Suc (length (fd_segments d))" using put(4) by simp
  have t1: "tracks out (first_wins seen ?off data) ?d1" using tracks_insert [OF tr view] by simp
  have "settled (out @ chunk_bytes ch) (first_wins seen ?off data) d2"
    by (rule flush_settles [OF t1 ahead dr ok(2) none])
  with ln show thesis
    using drainsD(5,6) [OF dr] drains_frame(1) [OF dr] assms(3) by (intro that [OF ins f ok(2)]) simp_all
qed

text \<open>Two segments that share no offset.\<close>

definition apart :: "u32 \<Rightarrow> u32 \<times> bytes \<Rightarrow> u32 \<times> bytes \<Rightarrow> bool" where
  "apart isn p q =
     (seq_offset (fst p) isn + length (snd p) \<le> seq_offset (fst q) isn \<or>
      seq_offset (fst q) isn + length (snd q) \<le> seq_offset (fst p) isn)"

lemma sorted_wrt_perm:
  assumes "mset xs = mset ys" and "sorted_wrt R xs" and "symp R"
  shows "sorted_wrt R ys"
  using assms
proof (induction ys arbitrary: xs)
  case (Cons y ys)
  then obtain as bs where xs: "xs = as @ y # bs" by (metis list.set_intros(1) set_mset_mset split_list)
  have "mset (as @ bs) = mset ys" using Cons.prems(1) by (simp add: xs)
  moreover have "sorted_wrt R (as @ bs)" using Cons.prems(2) by (auto simp: xs sorted_wrt_append)
  moreover have "R y z" if "z \<in> set ys" for z
  proof -
    have "z \<in> set (as @ bs)" using that \<open>mset (as @ bs) = mset ys\<close> by (metis set_mset_mset)
    then show ?thesis using Cons.prems(2) sympD [OF Cons.prems(3)] by (auto simp: xs sorted_wrt_append)
  qed
  ultimately show ?case using Cons.IH [of "as @ bs"] Cons.prems(3) by simp
qed simp

lemma symp_apart: "symp (apart isn)"
  by (auto simp: symp_def apart_def)

lemma receive_apart:
  assumes "fd_ok dep ms d" and "dep \<le> isize_max" and "fd_isn d = Some isn" and "settled out seen d"
    and "sorted_wrt (apart isn) ps"
    and "\<forall>(seq, data) \<in> set ps. data \<noteq> [] \<and> 1 \<le> seq_offset seq isn \<and> seq_offset seq isn \<le> w \<and>
           (\<forall>x. seq_offset seq isn \<le> x \<and> x < seq_offset seq isn + length data \<longrightarrow> seen x = None)"
    and "fd_reassembled_bytes d + fd_buffered_bytes d + sum_list (map (length \<circ> snd) ps) \<le> dep"
    and "length (fd_segments d) + length ps \<le> ms"
  shows "\<exists>d' rs out'. receive dep ms w d ps = Some (d', rs, out') \<and> set rs \<subseteq> {Inserted} \<and>
     settled (out @ out') (first_wins_all isn ps seen) d'"
  using assms
proof (induction ps arbitrary: d seen out)
  case (Cons p ps)
  obtain seq data where p: "p = (seq, data)" by force
  let ?seen = "first_wins seen (seq_offset seq isn) data"
  from Cons.prems(6-8) obtain d1 d2 ch where st: "insert_segment d seq data dep ms w = Some (d1, Inserted)"
      "flush_contiguous d1 = Some (d2, ch)" "fd_ok dep ms d2" "settled (out @ chunk_bytes ch) ?seen d2"
      "fd_isn d2 = Some isn"
      "fd_reassembled_bytes d2 + fd_buffered_bytes d2 = fd_reassembled_bytes d + fd_buffered_bytes d + length data"
      "length (fd_segments d2) \<le> Suc (length (fd_segments d))"
    by (rule_tac receive_tile [OF Cons.prems(1-4), of data seq w]) (auto simp: p)
  have fresh: "\<forall>(seq, data) \<in> set ps. data \<noteq> [] \<and> 1 \<le> seq_offset seq isn \<and> seq_offset seq isn \<le> w \<and>
           (\<forall>x. seq_offset seq isn \<le> x \<and> x < seq_offset seq isn + length data \<longrightarrow> ?seen x = None)"
    using Cons.prems(5,6) by (fastforce simp: p apart_def first_wins_def)
  have "\<exists>d' rs out'. receive dep ms w d2 ps = Some (d', rs, out') \<and> set rs \<subseteq> {Inserted} \<and>
     settled ((out @ chunk_bytes ch) @ out') (first_wins_all isn ps ?seen) d'"
    using Cons.prems(5,7,8) st(6,7) fresh
    by (intro Cons.IH [OF st(3) Cons.prems(2) st(5,4)]) (auto simp: p)
  then show ?case by (auto simp: p st(1,2))
qed auto

fun tiles :: "u32 \<Rightarrow> nat \<Rightarrow> bytes list \<Rightarrow> (u32 \<times> bytes) list" where
  "tiles isn off [] = []"
| "tiles isn off (s # ss) = (isn + of_nat off, s) # tiles isn (off + length s) ss"

lemma seq_offset_of_nat: "off < 2 ^ 32 \<Longrightarrow> seq_offset (isn + of_nat off) isn = off"
  by (simp add: seq_offset_def unat_of_nat take_bit_nat_eq_self)

lemma tiles_bounds:
  "off + length (concat ss) < 2 ^ 32 \<Longrightarrow> (seq, data) \<in> set (tiles isn off ss) \<Longrightarrow>
   data \<in> set ss \<and> off \<le> seq_offset seq isn \<and> seq_offset seq isn + length data \<le> off + length (concat ss)"
proof (induction ss arbitrary: off)
  case (Cons s ss)
  have "seq_offset (isn + of_nat off) isn = off" using Cons.prems(1) by (intro seq_offset_of_nat) simp
  then show ?case using Cons.IH [of "off + length s"] Cons.prems by auto
qed simp

lemma tiles_apart: "off + length (concat ss) < 2 ^ 32 \<Longrightarrow> sorted_wrt (apart isn) (tiles isn off ss)"
proof (induction ss arbitrary: off)
  case (Cons s ss)
  have so: "seq_offset (isn + of_nat off) isn = off" using Cons.prems by (intro seq_offset_of_nat) simp
  have "apart isn (isn + of_nat off, s) p" if "p \<in> set (tiles isn (off + length s) ss)" for p
    using tiles_bounds [of "off + length s" ss "fst p" "snd p" isn] that Cons.prems so
    by (auto simp: apart_def)
  then show ?case using Cons.IH [of "off + length s"] Cons.prems by auto
qed simp

lemma tiles_total [simp]:
  "sum_list (map (length \<circ> snd) (tiles isn off ss)) = length (concat ss)"
  "length (tiles isn off ss) = length ss"
  by (induction ss arbitrary: off) auto

lemma tiles_cover:
  "off + length (concat ss) < 2 ^ 32 \<Longrightarrow> off \<le> x \<Longrightarrow> x < off + length (concat ss) \<Longrightarrow>
   \<exists>(seq, data) \<in> set (tiles isn off ss). seq_offset seq isn \<le> x \<and> x < seq_offset seq isn + length data \<and>
      data ! (x - seq_offset seq isn) = concat ss ! (x - off)"
proof (induction ss arbitrary: off)
  case (Cons s ss)
  have so: "seq_offset (isn + of_nat off) isn = off" using Cons.prems(1) by (intro seq_offset_of_nat) simp
  show ?case
  proof (cases "x < off + length s")
    case True
    then have "x - off < length s" using Cons.prems(2) by linarith
    then show ?thesis using True Cons.prems so by (simp add: nth_append)
  next
    case False
    then show ?thesis using Cons.IH [of "off + length s"] Cons.prems by (auto simp: nth_append)
  qed
qed simp

lemma first_wins_all_apart:
  assumes "sorted_wrt (apart isn) ps" and "(seq, data) \<in> set ps"
    and "seq_offset seq isn \<le> x" and "x < seq_offset seq isn + length data" and "v x = None"
  shows "first_wins_all isn ps v x = Some (data ! (x - seq_offset seq isn))"
  using assms
proof (induction ps arbitrary: v)
  case (Cons p ps)
  obtain sq dt where p: "p = (sq, dt)" by force
  show ?case
  proof (cases "(seq, data) = p")
    case True
    then have "first_wins v (seq_offset sq isn) dt x = Some (data ! (x - seq_offset seq isn))"
      using Cons.prems(3-5) by (auto simp: p first_wins_def)
    moreover have "first_wins_all isn qs u x = Some b" if "u x = Some b" for qs u b
      using that by (induction qs arbitrary: u) (auto simp: first_wins_def)
    ultimately show ?thesis by (simp add: p)
  next
    case False
    then have m: "(seq, data) \<in> set ps" using Cons.prems(2) by simp
    then have "apart isn p (seq, data)" using Cons.prems(1) by simp
    then have "first_wins v (seq_offset sq isn) dt x = None"
      using Cons.prems(3-5) by (auto simp: p apart_def first_wins_def)
    with Cons.IH m Cons.prems show ?thesis by (simp add: p)
  qed
qed simp

lemma first_wins_all_outside:
  "v x = None \<Longrightarrow> \<forall>(seq, data) \<in> set ps. \<not> (seq_offset seq isn \<le> x \<and> x < seq_offset seq isn + length data) \<Longrightarrow>
   first_wins_all isn ps v x = None"
proof (induction ps arbitrary: v)
  case (Cons p ps)
  obtain sq dt where p: "p = (sq, dt)" by force
  have "first_wins v (seq_offset sq isn) dt x = None" using Cons.prems by (auto simp: p first_wins_def)
  with Cons show ?case by (simp add: p)
qed simp

lemma fd_ok_set_isn: "fd_ok dep ms (set_isn isn flow_direction_new)"
  using fd_ok_new [of dep ms]
  by (simp add: fd_ok_def set_isn_def flow_direction_new_def fd_shape_def fd_counted_def seg_limit_def)

lemma start_direction [simp]:
  "fd_isn (set_isn isn flow_direction_new) = Some isn"
  "fd_base_offset (set_isn isn flow_direction_new) = 1"
  "fd_segments (set_isn isn flow_direction_new) = []"
  "fd_reassembled_bytes (set_isn isn flow_direction_new) = 0"
  "fd_buffered_bytes (set_isn isn flow_direction_new) = 0"
  by (simp_all add: set_isn_def flow_direction_new_def)

lemma settled_start: "settled [] Map.empty (set_isn isn flow_direction_new)"
  by (simp add: settled_def tracks_def)

lemma receive_tiles:
  assumes "\<forall>s \<in> set ss. s \<noteq> []" and "length (concat ss) \<le> dep" and "dep \<le> isize_max"
    and "length (concat ss) \<le> w" and "length ss \<le> ms" and "length (concat ss) + 1 < 2 ^ 32"
    and "mset ps = mset (tiles isn 1 ss)"
  shows "\<exists>d' rs. receive dep ms w (set_isn isn flow_direction_new) ps = Some (d', rs, concat ss) \<and>
     set rs \<subseteq> {Inserted}"
proof -
  let ?n = "length (concat ss)" and ?seen = "first_wins_all isn ps Map.empty"
  have lim: "1 + ?n < 2 ^ 32" using assms(6) by simp
  have mem: "p \<in> set ps \<longleftrightarrow> p \<in> set (tiles isn 1 ss)" for p using assms(7) by (metis set_mset_mset)
  have ap: "sorted_wrt (apart isn) ps"
    using sorted_wrt_perm [OF assms(7) [symmetric] tiles_apart [OF lim] symp_apart] .
  have sums: "sum_list (map (length \<circ> snd) ps) = ?n" "length ps = length ss"
    using mset_eq_sum_list_map [OF assms(7)] mset_eq_length [OF assms(7)] by simp_all
  have place: "\<forall>(seq, data) \<in> set ps. data \<noteq> [] \<and> 1 \<le> seq_offset seq isn \<and> seq_offset seq isn \<le> w \<and>
           (\<forall>x. seq_offset seq isn \<le> x \<and> x < seq_offset seq isn + length data \<longrightarrow> (Map.empty x :: u8 option) = None)"
  proof (clarify, intro conjI allI impI)
    fix seq data
    assume "(seq, data) \<in> set ps"
    then have b: "data \<in> set ss" "1 \<le> seq_offset seq isn" "seq_offset seq isn + length data \<le> 1 + ?n"
      using tiles_bounds [OF lim] mem by blast+
    then show "data \<noteq> []" "1 \<le> seq_offset seq isn" using assms(1) by auto
    then have "0 < length data" by simp
    with b(3) assms(4) show "seq_offset seq isn \<le> w" by linarith
  qed simp
  from receive_apart [OF fd_ok_set_isn [of dep ms] assms(3) start_direction(1) settled_start ap place] sums assms(2,5)
  obtain d' rs out where r: "receive dep ms w (set_isn isn flow_direction_new) ps = Some (d', rs, out)"
      "set rs \<subseteq> {Inserted}" and st: "settled out ?seen d'" by auto
  have full: "?seen x = Some (concat ss ! (x - 1))" if "1 \<le> x" "x < 1 + ?n" for x
    using tiles_cover [OF lim that, of isn] first_wins_all_apart [OF ap] mem by fastforce
  have none: "?seen x = None" if "1 + ?n \<le> x" for x
    using first_wins_all_outside [of Map.empty x ps isn] tiles_bounds [OF lim] mem that by fastforce
  have "length out = ?n"
  proof (rule antisym)
    have seen: "\<forall>i < length out. ?seen (Suc i) = Some (out ! i)" and base: "fd_base_offset d' = Suc (length out)"
      and "byte_at (fd_segments d') (fd_base_offset d') = ?seen (fd_base_offset d')"
      "byte_at (fd_segments d') (fd_base_offset d') = None"
      using st by (auto simp: settled_def tracks_def)
    then have "?seen (Suc (length out)) = None" by simp
    then show "?n \<le> length out" using full [of "Suc (length out)"] by (cases "?n \<le> length out") auto
    show "length out \<le> ?n" using seen none [of "Suc ?n"] by (cases "length out \<le> ?n") auto
  qed
  moreover have "out ! i = concat ss ! i" if "i < ?n" for i
    using st full [of "Suc i"] that calculation by (auto simp: settled_def tracks_def)
  ultimately have "out = concat ss" by (simp add: nth_equalityI)
  with r show ?thesis by blast
qed

section \<open>Segments behind the cursor\<close>

lemma chunk_chain_keys: "chunk_chain b ch e \<Longrightarrow> (o1, s) \<in> set ch \<Longrightarrow> b \<le> o1"
  by (induction b ch e rule: chunk_chain.induct) auto

lemma receive_keeps_stale:
  assumes "fd_ok dep ms d" and "dep \<le> isize_max" and "\<forall>(seq, data) \<in> set ps. length data \<le> isize_max"
    and "(o1, s) \<in> set (fd_segments d)" and "o1 < fd_base_offset d"
  shows "\<exists>d' rs out. receive dep ms w d ps = Some (d', rs, out) \<and> (o1, s) \<in> set (fd_segments d') \<and>
           o1 < fd_base_offset d'"
  using assms
proof (induction ps arbitrary: d)
  case (Cons p ps)
  obtain seq data where p: "p = (seq, data)" by force
  have n: "length data \<le> isize_max" using Cons.prems(3) p by simp
  obtain d1 r d2 ch where i: "insert_segment d seq data dep ms w = Some (d1, r)"
      and f: "flush_contiguous d1 = Some (d2, ch)" and dr: "drains d1 ch d2" and ok: "fd_ok dep ms d2"
    by (rule receive_step [OF Cons.prems(1,2) n])
  have m1: "(o1, s) \<in> set (fd_segments d1)" and b1: "fd_base_offset d1 = fd_base_offset d"
    using insert_segment_view [OF Cons.prems(1,2) n, of seq w] i Cons.prems(4) by auto
  have "(o1, s) \<notin> set ch" using chunk_chain_keys [OF drainsD(7) [OF dr]] Cons.prems(5) b1 by fastforce
  then have "(o1, s) \<in> set (fd_segments d2)" using drainsD(2) [OF dr] m1 by blast
  moreover have "o1 < fd_base_offset d2" using drainsD(1) [OF dr] b1 Cons.prems(5) by simp
  ultimately obtain d' rs out where "receive dep ms w d2 ps = Some (d', rs, out)"
      "(o1, s) \<in> set (fd_segments d')" "o1 < fd_base_offset d'"
    using Cons.IH [OF ok Cons.prems(2)] Cons.prems(3) by auto
  then show ?case by (auto simp: p i f)
qed simp

lemma stale_insert:
  assumes "fd_ok dep ms d" and "dep \<le> isize_max" and "fd_isn d = Some isn" and "data \<noteq> []"
    and "seq_offset seq isn \<le> fd_base_offset d" and "fd_base_offset d \<le> seq_offset seq isn + length data"
    and "\<not> touched (fd_segments d) (seq_offset seq isn) data"
    and "fd_reassembled_bytes d + fd_buffered_bytes d + length data \<le> dep" and "length (fd_segments d) < ms"
  obtains d1 where "insert_segment d seq data dep ms w = Some (d1, Inserted)" and "fd_ok dep ms d1"
    and "(seq_offset seq isn, data) \<in> set (fd_segments d1)" and "fd_base_offset d1 = fd_base_offset d"
proof -
  let ?off = "seq_offset seq isn"
  have n: "length data \<le> isize_max" using assms(2,8) by linarith
  have "0 < length data" using assms(4) by simp
  then have "fd_reassembled_bytes d + fd_buffered_bytes d < dep" using assms(8) by linarith
  moreover have "fd_base_offset d \<le> u64_max" using assms(1) isize_bounds(1) unfolding fd_ok_def by linarith
  ultimately have "admissible dep ms w d ?off data" "\<not> depth_cut dep d data"
    using assms(5,6,8,9) sat_add64_mono [of "fd_base_offset d" w]
    by (auto simp: admissible_def depth_cut_def intro: le_trans)
  note ins = insert_segment_plain [OF assms(1,2) n assms(4,3) this(1) assms(7) this(2)]
  have "seg_chain 0 (fd_segments d)" using assms(1) by (simp add: fd_ok_def fd_shape_def)
  then have "bt_ok (fd_segments d)" by (rule seg_chain_bt_ok)
  then have "(?off, data) \<in> set (bt_insert ?off data (fd_segments d))" by (simp add: btree.set_put)
  moreover have "fd_ok dep ms (d\<lparr>fd_segments := bt_insert ?off data (fd_segments d),
            fd_buffered_bytes := fd_buffered_bytes d + length data\<rparr>)"
    using insert_segment_view [OF assms(1,2) n, of seq w] ins by simp
  ultimately show thesis by (intro that [OF ins]) simp_all
qed

text \<open>A segment that straddles the cursor blocks it.\<close>

lemma flush_blocked:
  assumes "fd_ok dep ms d" and "(o1, s) \<in> set (fd_segments d)" and "o1 < fd_base_offset d"
    and "fd_base_offset d < o1 + length s"
  shows "flush_contiguous d = Some (d, [])"
proof -
  have c: "seg_chain 0 (fd_segments d)" using assms(1) by (simp add: fd_ok_def fd_shape_def)
  have "bt_get (fd_segments d) (fd_base_offset d) = None"
  proof (rule ccontr)
    assume "bt_get (fd_segments d) (fd_base_offset d) \<noteq> None"
    then obtain t where t: "(fd_base_offset d, t) \<in> set (fd_segments d)"
      by (auto simp: bt_get_def dest: map_of_SomeD)
    then have "t \<noteq> []" using seg_chain_keys [OF c] by blast
    then show False
      using seg_chain_disjoint [OF c assms(2) t, of "fd_base_offset d"] assms(3,4) by simp
  qed
  then show ?thesis by (simp add: flush_contiguous_def flush_loop.simps [of d])
qed

lemma receive_blocked:
  assumes "fd_ok dep ms d" and "dep \<le> isize_max" and "\<forall>(seq, data) \<in> set ps. length data \<le> isize_max"
    and "(o1, s) \<in> set (fd_segments d)" and "o1 < fd_base_offset d" and "fd_base_offset d < o1 + length s"
  shows "\<exists>d' rs. receive dep ms w d ps = Some (d', rs, []) \<and> fd_base_offset d' = fd_base_offset d"
  using assms
proof (induction ps arbitrary: d)
  case (Cons p ps)
  obtain seq data where p: "p = (seq, data)" by force
  have n: "length data \<le> isize_max" using Cons.prems(3) p by simp
  obtain d1 r where i: "insert_segment d seq data dep ms w = Some (d1, r)" and ok: "fd_ok dep ms d1"
      and m: "(o1, s) \<in> set (fd_segments d1)" and b: "fd_base_offset d1 = fd_base_offset d"
    using insert_segment_view [OF Cons.prems(1,2) n, of seq w] Cons.prems(4) by blast
  have "flush_contiguous d1 = Some (d1, [])" using flush_blocked [OF ok m] Cons.prems(5,6) b by simp
  with Cons.IH [OF ok Cons.prems(2) _ m] Cons.prems(3,5,6) show ?case by (auto simp: p i b)
qed simp

section \<open>Properties\<close>

text \<open>The equations that run the buffer on a concrete input.\<close>

lemmas segment_eval =
  insert_segment_def insert_trimmed_def seq_offset_def put_segment_def segment_overlap_def
  ranges_overlap_def select_gaps_def flush_contiguous_def flush_loop.simps set_isn_def
  flow_direction_new_def bt_get_def bt_remove_def bt_range_to_def u64_max_def rust_defs Let_def

text \<open>The direction reached when two bytes have arrived after the SYN and been flushed.\<close>

definition sample_direction :: flow_direction where
  "sample_direction = (set_isn 7 flow_direction_new)\<lparr>fd_base_offset := 3, fd_reassembled_bytes := 2\<rparr>"

lemma sample_direction_reached:
  "receive 100 10 50 (set_isn 7 flow_direction_new) [(8, [97, 98])] = Some (sample_direction, [Inserted], [97, 98])"
  by (simp add: segment_eval sample_direction_def)

lemma sample_direction_ok: "fd_ok 100 10 sample_direction"
  by (simp add: sample_direction_def fd_ok_def fd_shape_def fd_counted_def seg_limit_def isize_max_def)

text \<open>C1. Reordering tolerance: cut a stream into non-empty segments in any way, let them
  arrive in any order after the SYN that fixed the initial sequence number, and a
  direction whose depth, window and segment limits admit the stream delivers exactly
  the stream, every segment being reported as \<open>Inserted\<close>.\<close>

theorem reassembly_any_order:
  assumes "\<forall>s \<in> set ss. s \<noteq> []" and "mset ps = mset (tiles isn 1 ss)"
    and "length (concat ss) \<le> max_depth" and "max_depth \<le> isize_max"
    and "length (concat ss) \<le> max_receive_window" and "length ss \<le> max_segments"
    and "length (concat ss) + 1 < 2 ^ 32"
  shows "\<exists>d' rs. receive max_depth max_segments max_receive_window (set_isn isn flow_direction_new) ps =
           Some (d', rs, concat ss) \<and> set rs \<subseteq> {Inserted}"
  using assms by (intro receive_tiles) auto

theorem reassembly_any_order_witness:
  "\<exists>d' rs. receive 100 10 50 (set_isn 4294967294 flow_direction_new) [(1, [99]), (4294967295, [97, 98])] =
     Some (d', rs, [97, 98, 99]) \<and> set rs \<subseteq> {Inserted}"
  using reassembly_any_order [of "[[97, 98], [99]]" "[(1, [99]), (4294967295, [97, 98])]" 4294967294 100 50 10]
  by (simp add: isize_max_def)

text \<open>C2. The bytes a direction delivers are the first-wins reading of the segments it was
  given: whatever segments arrive, the run returns, and when each was accepted and
  the depth limit cut none, the \<open>i\<close>-th delivered byte is the first byte received for
  stream offset \<open>i + 1\<close>, and the cursor stands right after the last one.\<close>

theorem delivery_first_wins:
  assumes "max_depth \<le> isize_max" and "\<forall>(seq, data) \<in> set ps. length data \<le> isize_max"
  shows "\<exists>d' rs out.
    receive max_depth max_segments max_receive_window (set_isn isn flow_direction_new) ps = Some (d', rs, out) \<and>
    ((\<forall>r \<in> set rs. accepting r) \<and> \<not> fd_depth_exceeded d' \<longrightarrow>
       fd_base_offset d' = Suc (length out) \<and>
       (\<forall>i < length out. first_wins_all isn ps Map.empty (Suc i) = Some (out ! i)))"
proof -
  obtain d' rs out where r: "receive max_depth max_segments max_receive_window (set_isn isn flow_direction_new) ps =
      Some (d', rs, out)"
    using receive_total [OF fd_ok_set_isn assms] by blast
  have "tracks [] Map.empty (set_isn isn flow_direction_new)" using settled_start by (simp add: settled_def)
  note tr = receive_tracks [OF fd_ok_set_isn assms start_direction(1) this r]
  show ?thesis
    by (intro exI conjI, rule r) (use tr in \<open>auto simp: tracks_def\<close>)
qed

theorem delivery_first_wins_witness:
  "\<exists>d' rs out. receive 100 10 50 (set_isn 7 flow_direction_new) [(10, [1, 2]), (8, [3, 4, 5])] = Some (d', rs, out) \<and>
    ((\<forall>r \<in> set rs. accepting r) \<and> \<not> fd_depth_exceeded d' \<longrightarrow>
       fd_base_offset d' = Suc (length out) \<and>
       (\<forall>i < length out. first_wins_all 7 [(10, [1, 2]), (8, [3, 4, 5])] Map.empty (Suc i) = Some (out ! i)))"
  by (rule delivery_first_wins) (simp_all add: isize_max_def)



text \<open>\<open>insert_segment\<close> never panics on a well-formed direction and keeps it
  well-formed: segments ascending, disjoint and non-empty, the byte counter equal to
  the bytes held, the depth and segment limits respected. The counter never goes
  down, which is the \<open>debug_assert\<close> of \<open>insert_payload_segment\<close>.\<close>

theorem insert_segment_invariant:
  assumes "fd_ok max_depth max_segments d" and "max_depth \<le> isize_max" and "length data \<le> isize_max"
  shows "\<exists>d' r. insert_segment d seq data max_depth max_segments max_receive_window = Some (d', r) \<and>
           fd_ok max_depth max_segments d' \<and> fd_buffered_bytes d \<le> fd_buffered_bytes d'"
  using insert_segment_view [OF assms, of seq max_receive_window] by blast

theorem insert_segment_invariant_witness:
  "\<exists>d' r. insert_segment (set_isn 7 flow_direction_new) 9 [1, 2] 100 10 50 = Some (d', r) \<and>
           fd_ok 100 10 d' \<and> fd_buffered_bytes (set_isn 7 flow_direction_new) \<le> fd_buffered_bytes d'"
  by (rule insert_segment_invariant [OF fd_ok_set_isn]) (simp_all add: isize_max_def)

text \<open>The result of \<open>insert_segment\<close> is decided by the guards in their order and then
  by the bytes held under the admitted part of the payload: \<open>Inserted\<close> when none is
  held, \<open>Duplicate\<close> or \<open>ConflictingOverlap\<close> when all are held (the latter when one
  differs), and otherwise \<open>PartialOverlap\<close>, \<open>Truncated\<close> or \<open>SegmentLimitReached\<close>
  even when a held byte differs.\<close>

theorem insert_segment_classifies:
  assumes "fd_ok max_depth max_segments d" and "max_depth \<le> isize_max" and "length data \<le> isize_max"
    and "data \<noteq> []" and "fd_isn d = Some isn"
    and "insert_segment d seq data max_depth max_segments max_receive_window = Some (d', r)"
  shows "\<exists>exhausted. r = segment_outcome max_depth max_segments max_receive_window d (seq_offset seq isn) data exhausted"
  using assms by (rule insert_segment_outcome)

theorem insert_segment_classifies_witness:
  "\<exists>exhausted. Inserted = segment_outcome 100 10 50 (set_isn 7 flow_direction_new) (seq_offset 10 7) [1] exhausted"
  using insert_segment_classifies [OF fd_ok_set_isn [of 100 10 7], of "[1]" 7 10 50
      "(set_isn 7 flow_direction_new)\<lparr>fd_segments := [(3, [1])], fd_buffered_bytes := 1\<rparr>" Inserted]
  by (simp add: segment_eval isize_max_def)

text \<open>\<open>flush_contiguous\<close> never panics on a well-formed direction; it hands out
  consecutive chunks from the cursor, moves the cursor to their end, takes exactly
  those bytes out of the buffer and moves them from the buffered to the reassembled
  count. When no segment starts behind the cursor it stops only at a hole.\<close>

theorem flush_contiguous_drains:
  assumes "fd_ok max_depth max_segments d" and "max_depth \<le> isize_max"
  shows "\<exists>d' ch. flush_contiguous d = Some (d', ch) \<and> fd_ok max_depth max_segments d' \<and> drains d ch d' \<and>
           ((\<forall>(o1, s) \<in> set (fd_segments d). fd_base_offset d \<le> o1) \<longrightarrow>
              byte_at (fd_segments d') (fd_base_offset d') = None)"
proof -
  obtain d' ch where f: "flush_contiguous d = Some (d', ch)" "fd_ok max_depth max_segments d'" "drains d ch d'"
      and none: "bt_get (fd_segments d') (fd_base_offset d') = None"
    by (rule flush_contiguous_spec [OF assms])
  have "byte_at (fd_segments d') (fd_base_offset d') = None"
    if "\<forall>(o1, s) \<in> set (fd_segments d). fd_base_offset d \<le> o1"
    using flush_stops_at_hole [OF that f(3,2) none] .
  with f show ?thesis by blast
qed

theorem flush_contiguous_drains_witness:
  "\<exists>d' ch. flush_contiguous (set_isn 7 flow_direction_new) = Some (d', ch) \<and> fd_ok 100 10 d' \<and>
     drains (set_isn 7 flow_direction_new) ch d' \<and>
           ((\<forall>(o1, s) \<in> set (fd_segments (set_isn 7 flow_direction_new)).
               fd_base_offset (set_isn 7 flow_direction_new) \<le> o1) \<longrightarrow>
              byte_at (fd_segments d') (fd_base_offset d') = None)"
  by (rule flush_contiguous_drains [OF fd_ok_set_isn]) (simp add: isize_max_def)

text \<open>A retransmission that ends exactly at the cursor, of bytes that have been
  flushed, is not recognised as old: it is stored and reported as \<open>Inserted\<close>, and no
  later segment or flush ever takes it out of the buffer again.\<close>

theorem retransmission_at_cursor_kept:
  assumes "fd_ok max_depth max_segments d" and "max_depth \<le> isize_max"
    and "fd_isn d = Some isn" and "data \<noteq> []" and "seq_offset seq isn + length data = fd_base_offset d"
    and "\<not> touched (fd_segments d) (seq_offset seq isn) data"
    and "fd_reassembled_bytes d + fd_buffered_bytes d + length data \<le> max_depth"
    and "length (fd_segments d) < max_segments"
    and "\<forall>(seq, data) \<in> set ps. length data \<le> isize_max"
  shows "\<exists>d1 d' rs out. insert_segment d seq data max_depth max_segments max_receive_window = Some (d1, Inserted) \<and>
           receive max_depth max_segments max_receive_window d1 ps = Some (d', rs, out) \<and>
           (seq_offset seq isn, data) \<in> set (fd_segments d') \<and> seq_offset seq isn < fd_base_offset d'"
proof -
  let ?off = "seq_offset seq isn"
  have lt: "?off < fd_base_offset d" using assms(4,5) by (metis length_greater_0_conv less_add_same_cancel1)
  obtain d1 where i: "insert_segment d seq data max_depth max_segments max_receive_window = Some (d1, Inserted)"
      "fd_ok max_depth max_segments d1" "(?off, data) \<in> set (fd_segments d1)" "fd_base_offset d1 = fd_base_offset d"
    using assms(5) lt by (elim stale_insert [OF assms(1-4) _ _ assms(6-8), of max_receive_window, rotated -1]) simp_all
  with receive_keeps_stale [OF i(2) assms(2,9) i(3)] lt show ?thesis by auto
qed

theorem retransmission_at_cursor_kept_witness:
  "\<exists>d1 d' rs out. insert_segment sample_direction 8 [97, 98] 100 10 50 = Some (d1, Inserted) \<and>
     receive 100 10 50 d1 [(10, [99])] = Some (d', rs, out) \<and>
     (seq_offset 8 7, [97, 98]) \<in> set (fd_segments d') \<and> seq_offset 8 7 < fd_base_offset d'"
  using sample_direction_ok
  by (intro retransmission_at_cursor_kept) (simp_all add: sample_direction_def segment_eval isize_max_def touched_def)

text \<open>C4. A segment that starts behind the cursor and ends beyond it, as a retransmission
  that carries old and new bytes does, is stored under its own start, where the flush
  does not look: from then on the direction delivers nothing, whatever arrives.\<close>

theorem straddling_segment_blocks:
  assumes "fd_ok max_depth max_segments d" and "max_depth \<le> isize_max"
    and "fd_isn d = Some isn" and "seq_offset seq isn < fd_base_offset d"
    and "fd_base_offset d < seq_offset seq isn + length data"
    and "\<not> touched (fd_segments d) (seq_offset seq isn) data"
    and "fd_reassembled_bytes d + fd_buffered_bytes d + length data \<le> max_depth"
    and "length (fd_segments d) < max_segments"
    and "\<forall>(seq, data) \<in> set ps. length data \<le> isize_max"
  shows "\<exists>d1 d' rs. insert_segment d seq data max_depth max_segments max_receive_window = Some (d1, Inserted) \<and>
           receive max_depth max_segments max_receive_window d1 ps = Some (d', rs, []) \<and>
           fd_base_offset d' = fd_base_offset d"
proof -
  let ?off = "seq_offset seq isn"
  have ne: "data \<noteq> []" using assms(4,5) by auto
  obtain d1 where i: "insert_segment d seq data max_depth max_segments max_receive_window = Some (d1, Inserted)"
      "fd_ok max_depth max_segments d1" "(?off, data) \<in> set (fd_segments d1)" "fd_base_offset d1 = fd_base_offset d"
    using assms(4,5) by (elim stale_insert [OF assms(1-3) ne _ _ assms(6-8), of max_receive_window, rotated -1]) simp_all
  with receive_blocked [OF i(2) assms(2,9) i(3)] assms(4,5) show ?thesis by auto
qed

theorem straddling_segment_blocks_witness:
  "\<exists>d1 d' rs. insert_segment sample_direction 8 [97, 98, 99] 100 10 50 = Some (d1, Inserted) \<and>
     receive 100 10 50 d1 [(10, [99]), (11, [100])] = Some (d', rs, []) \<and>
     fd_base_offset d' = fd_base_offset sample_direction"
  using sample_direction_ok
  by (intro straddling_segment_blocks [where isn = 7]) (simp_all add: sample_direction_def segment_eval isize_max_def touched_def)

end
