(* ===== verification/Engine_Inv.thy ===== *)
theory Engine_Inv
  imports Replay Stream_Delivery
begin

text \<open>
  The invariant of the engine together with the events it has emitted. It ties the
  memory counter to the flow table, every segment buffer to its limits, and the
  position of every buffer to the bytes handed to the handler so far. Each step of
  the engine keeps it and cannot panic.
\<close>

section \<open>Traces\<close>

text \<open>The bytes handed over for each direction of each flow since the flow last closed.\<close>

fun trace_step :: "stream_event \<Rightarrow> (flow_key \<times> direction \<Rightarrow> nat) \<Rightarrow> (flow_key \<times> direction \<Rightarrow> nat)" where
  "trace_step (DataEvent key dir data off ts) c = c((key, dir) := c (key, dir) + length data)"
| "trace_step (CloseEvent key reason) c = c((key, ClientToServer) := 0, (key, ServerToClient) := 0)"

definition delivered :: "stream_event list \<Rightarrow> flow_key \<times> direction \<Rightarrow> nat" where
  "delivered es = fold trace_step es (\<lambda>_. 0)"

text \<open>Each chunk is non-empty and starts right after the bytes already handed over.\<close>

fun event_ok :: "(flow_key \<times> direction \<Rightarrow> nat) \<Rightarrow> stream_event \<Rightarrow> bool" where
  "event_ok c (DataEvent key dir data off ts) = (data \<noteq> [] \<and> off = Suc (c (key, dir)))"
| "event_ok c (CloseEvent key reason) = True"

fun wf_from :: "(flow_key \<times> direction \<Rightarrow> nat) \<Rightarrow> stream_event list \<Rightarrow> bool" where
  "wf_from c [] = True"
| "wf_from c (e # es) = (event_ok c e \<and> wf_from (trace_step e c) es)"

definition wf_trace :: "stream_event list \<Rightarrow> bool" where
  "wf_trace es = wf_from (\<lambda>_. 0) es"

fun event_bytes :: "stream_event \<Rightarrow> nat" where
  "event_bytes (DataEvent key dir data off ts) = length data"
| "event_bytes (CloseEvent key reason) = 0"

definition trace_bytes :: "stream_event list \<Rightarrow> nat" where
  "trace_bytes es = sum_list (map event_bytes es)"

lemma wf_from_append: "wf_from c (es @ es') \<longleftrightarrow> wf_from c es \<and> wf_from (fold trace_step es c) es'"
  by (induction es arbitrary: c) auto

lemma trace_append [simp]:
  "delivered (es @ es') = fold trace_step es' (delivered es)"
  "wf_trace (es @ es') \<longleftrightarrow> wf_trace es \<and> wf_from (delivered es) es'"
  "trace_bytes (es @ es') = trace_bytes es + trace_bytes es'"
  by (simp_all add: delivered_def wf_trace_def wf_from_append trace_bytes_def)

lemma trace_empty [simp]: "delivered [] = (\<lambda>_. 0)" "wf_trace []" "trace_bytes [] = 0"
  by (simp_all add: delivered_def wf_trace_def trace_bytes_def)

definition chunk_events :: "flow_key \<Rightarrow> direction \<Rightarrow> u32 \<Rightarrow> (u64 \<times> bytes) list \<Rightarrow> stream_event list" where
  "chunk_events key dir ts ch = map (\<lambda>(off, data). DataEvent key dir data off ts) ch"

lemma chunk_events_simps [simp]:
  "chunk_events key dir ts [] = []"
  "chunk_events key dir ts ((off, data) # ch) = DataEvent key dir data off ts # chunk_events key dir ts ch"
  by (simp_all add: chunk_events_def)

lemma chunk_events_fold:
  "fold trace_step (chunk_events key dir ts ch) c = c((key, dir) := c (key, dir) + length (chunk_bytes ch))"
  by (induction ch arbitrary: c) (auto simp: add.assoc)

lemma chunk_events_wf:
  "chunk_chain b ch e \<Longrightarrow> b = Suc (c (key, dir)) \<Longrightarrow> wf_from c (chunk_events key dir ts ch)"
  by (induction b ch e arbitrary: c rule: chunk_chain.induct) auto

lemma trace_bytes_chunks [simp]: "trace_bytes (chunk_events key dir ts ch) = length (chunk_bytes ch)"
  by (induction ch) (auto simp: trace_bytes_def)

section \<open>The invariant\<close>

definition config_ok :: "reassembly_config \<Rightarrow> bool" where
  "config_ok c \<longleftrightarrow>
     0 < cfg_max_depth c \<and> 0 < cfg_memcap c \<and> 0 < cfg_max_flows c \<and>
     0 < cfg_max_segments_per_direction c \<and> 0 < cfg_max_receive_window c \<and>
     cfg_max_depth c \<le> isize_max \<and> cfg_max_flows c * 9 \<le> u64_max"

text \<open>Nothing is buffered before the initial sequence number is known.\<close>

definition fd_started :: "flow_direction \<Rightarrow> bool" where
  "fd_started d \<longleftrightarrow>
     (case fd_isn d of None \<Rightarrow> fd_base_offset d = 0 \<and> fd_segments d = [] | Some _ \<Rightarrow> 1 \<le> fd_base_offset d)"

definition dir_ok :: "reassembly_config \<Rightarrow> flow_direction \<Rightarrow> bool" where
  "dir_ok c d \<longleftrightarrow> fd_ok (cfg_max_depth c) (cfg_max_segments_per_direction c) d \<and> fd_started d"

definition flow_ok :: "reassembly_config \<Rightarrow> flow_key \<Rightarrow> tcp_flow \<Rightarrow> bool" where
  "flow_ok c key f \<longleftrightarrow> fl_key f = key \<and> (\<forall>dir. dir_ok c (get_direction dir f))"

definition flow_mem :: "tcp_flow \<Rightarrow> nat" where
  "flow_mem f = fd_buffered_bytes (fl_client_to_server f) + fd_buffered_bytes (fl_server_to_client f)"

text \<open>The bytes handed over according to the cursor of a direction.\<close>

definition position :: "reassembler \<Rightarrow> flow_key \<times> direction \<Rightarrow> nat" where
  "position r kd =
     (case hm_get (ra_flows r) (fst kd) of
        None \<Rightarrow> 0
      | Some f \<Rightarrow> fd_base_offset (get_direction (snd kd) f) - 1)"

definition engine_ok :: "reassembler \<Rightarrow> stream_event list \<Rightarrow> bool" where
  "engine_ok r es \<longleftrightarrow>
     config_ok (ra_config r) \<and> hm_ok (ra_flows r) \<and>
     (\<forall>(key, f) \<in> set (ra_flows r). flow_ok (ra_config r) key f) \<and>
     ra_total_memory r = weight flow_mem (ra_flows r) \<and>
     length (ra_flows r) \<le> cfg_max_flows (ra_config r) \<and>
     wf_trace es \<and> delivered es = position r \<and>
     st_bytes_reassembled (ra_stats r) = trace_bytes es \<and>
     ra_total_memory r + st_bytes_reassembled (ra_stats r) \<le> u64_max"

lemma engine_okD:
  assumes "engine_ok r es"
  shows "config_ok (ra_config r)" and "hm_ok (ra_flows r)"
    and "hm_get (ra_flows r) key = Some f \<Longrightarrow> flow_ok (ra_config r) key f"
    and "ra_total_memory r = weight flow_mem (ra_flows r)"
    and "length (ra_flows r) \<le> cfg_max_flows (ra_config r)"
    and "wf_trace es" and "delivered es = position r"
    and "st_bytes_reassembled (ra_stats r) = trace_bytes es"
    and "ra_total_memory r + st_bytes_reassembled (ra_stats r) \<le> u64_max"
  using assms hmap.get_iff [of "ra_flows r" key f] by (auto simp: engine_ok_def)

text \<open>Fields the invariant does not look at.\<close>

lemma bump_frame [simp]:
  "ra_config (bump upd r) = ra_config r" "ra_flows (bump upd r) = ra_flows r"
  "ra_findings (bump upd r) = ra_findings r" "ra_total_memory (bump upd r) = ra_total_memory r"
  "ra_finalized (bump upd r) = ra_finalized r" "ra_packet_index (bump upd r) = ra_packet_index r"
  "ra_last_expiry_sweep_secs (bump upd r) = ra_last_expiry_sweep_secs r" "ra_seed (bump upd r) = ra_seed r"
  "ra_stats (bump upd r) = upd (\<lambda>n. sat_add64 n 1) (ra_stats r)"
  by (simp_all add: bump_def)

lemma push_finding_frame [simp]:
  "ra_config (push_finding fi r) = ra_config r" "ra_flows (push_finding fi r) = ra_flows r"
  "ra_total_memory (push_finding fi r) = ra_total_memory r"
  "ra_finalized (push_finding fi r) = ra_finalized r" "ra_packet_index (push_finding fi r) = ra_packet_index r"
  "ra_last_expiry_sweep_secs (push_finding fi r) = ra_last_expiry_sweep_secs r"
  "ra_seed (push_finding fi r) = ra_seed r"
  "st_bytes_reassembled (ra_stats (push_finding fi r)) = st_bytes_reassembled (ra_stats r)"
  by (simp_all add: push_finding_def)

lemma engine_ok_cong:
  assumes "engine_ok r es" and "ra_config r' = ra_config r" and "ra_flows r' = ra_flows r"
    and "ra_total_memory r' = ra_total_memory r"
    and "st_bytes_reassembled (ra_stats r') = st_bytes_reassembled (ra_stats r)"
  shows "engine_ok r' es"
proof -
  have "position r' = position r" using assms(3) by (simp add: position_def fun_eq_iff)
  then show ?thesis using assms unfolding engine_ok_def by simp
qed

section \<open>Replacing one flow\<close>

lemma flow_mem_set_direction:
  "flow_mem (set_direction dir d f) + fd_buffered_bytes (get_direction dir f) = flow_mem f + fd_buffered_bytes d"
  by (cases dir) (auto simp: flow_mem_def)

lemma flow_mem_get: "fd_buffered_bytes (get_direction dir f) \<le> flow_mem f"
  by (cases dir) (auto simp: flow_mem_def)

lemma flow_mem_transitions [simp]:
  "flow_mem (set_initiator ip p f) = flow_mem f" "flow_mem (on_syn f) = flow_mem f"
  "flow_mem (on_syn_ack f) = flow_mem f" "flow_mem (on_data_without_syn f) = flow_mem f"
  "flow_mem (on_fin f) = flow_mem f" "flow_mem (on_rst f) = flow_mem f"
  by (simp_all add: flow_mem_def set_initiator_def on_syn_def on_syn_ack_def on_data_without_syn_def
      on_fin_def on_rst_def Let_def)

lemma flow_ok_mem_bound:
  assumes "flow_ok c key f" and "config_ok c"
  shows "flow_memory_used f = Some (flow_mem f)"
proof -
  have "fd_buffered_bytes (get_direction dir f) \<le> isize_max" for dir
    using assms unfolding flow_ok_def dir_ok_def fd_ok_def config_ok_def by (meson add_leD2 le_trans)
  from this [of ClientToServer] this [of ServerToClient]
  have "fd_buffered_bytes (fl_client_to_server f) + fd_buffered_bytes (fl_server_to_client f) \<le> u64_max"
    using isize_bounds(2) unfolding get_direction.simps by linarith
  then show ?thesis by (simp add: flow_memory_used_def dir_memory_used_def flow_mem_def)
qed

lemma put_flow_frame [simp]:
  "ra_config (put_flow key f r) = ra_config r" "ra_flows (put_flow key f r) = hm_insert key f (ra_flows r)"
  "ra_stats (put_flow key f r) = ra_stats r" "ra_findings (put_flow key f r) = ra_findings r"
  "ra_total_memory (put_flow key f r) = ra_total_memory r" "ra_finalized (put_flow key f r) = ra_finalized r"
  "ra_packet_index (put_flow key f r) = ra_packet_index r" "ra_seed (put_flow key f r) = ra_seed r"
  "ra_last_expiry_sweep_secs (put_flow key f r) = ra_last_expiry_sweep_secs r"
  by (simp_all add: put_flow_def)

text \<open>Writing back a flow: the counter moves with the bytes it holds, the trace with its cursors.\<close>

lemma engine_ok_write:
  assumes "engine_ok r es" and "hm_get (ra_flows r) key = Some f" and "flow_ok (ra_config r) key f'"
    and "ra_config r' = ra_config r" and "ra_flows r' = hm_insert key f' (ra_flows r)"
    and "ra_total_memory r' + flow_mem f = ra_total_memory r + flow_mem f'"
    and "wf_from (delivered es) new"
    and "\<And>dir. fold trace_step new (delivered es) (key, dir) = fd_base_offset (get_direction dir f') - 1"
    and "\<And>k dir. k \<noteq> key \<Longrightarrow> fold trace_step new (delivered es) (k, dir) = delivered es (k, dir)"
    and "st_bytes_reassembled (ra_stats r') = st_bytes_reassembled (ra_stats r) + trace_bytes new"
    and "ra_total_memory r' + st_bytes_reassembled (ra_stats r') \<le> u64_max"
  shows "engine_ok r' (es @ new)"
proof -
  note ok = engine_okD [OF assms(1)]
  have get: "hm_get (ra_flows r') k = (if k = key then Some f' else hm_get (ra_flows r) k)" for k
    using hmap.get_put [OF ok(2)] assms(5) by simp
  have "weight flow_mem (ra_flows r') + flow_mem f = weight flow_mem (ra_flows r) + flow_mem f'"
    using hmap.weight_put [OF ok(2), of flow_mem key f'] assms(2,5) by simp
  then have mem: "ra_total_memory r' = weight flow_mem (ra_flows r')" using assms(6) ok(4) by simp
  have len: "length (ra_flows r') \<le> cfg_max_flows (ra_config r')"
    using hmap.size_put [OF ok(2), of key f'] assms(2,4,5) ok(5) by simp
  have "flow_ok (ra_config r') k g" if "(k, g) \<in> set (ra_flows r')" for k g
    using that hmap.set_put [OF ok(2), of key f'] assms(1,3,4,5) by (auto simp: engine_ok_def)
  moreover have "fold trace_step new (delivered es) = position r'"
  proof (rule ext, clarify)
    fix k dir
    show "fold trace_step new (delivered es) (k, dir) = position r' (k, dir)"
      using assms(8) [of dir] assms(9) [of k dir] get [of k] ok(7)
      by (cases "k = key") (simp_all add: position_def)
  qed
  ultimately show ?thesis
    unfolding engine_ok_def trace_append
    using ok(1,6,8) assms(4,5,7,10,11) mem len hm_ok_insert [OF ok(2), of key f'] by auto
qed

text \<open>The case in which neither memory nor cursors move.\<close>

lemma engine_ok_put_flow:
  assumes "engine_ok r es" and "hm_get (ra_flows r) key = Some f" and "flow_ok (ra_config r) key f'"
    and "flow_mem f' = flow_mem f"
    and "\<And>dir. fd_base_offset (get_direction dir f') - 1 = fd_base_offset (get_direction dir f) - 1"
  shows "engine_ok (put_flow key f' r) es"
  using engine_ok_write [OF assms(1-3), of "put_flow key f' r" "[]"] assms(2,4,5) engine_okD(7,9) [OF assms(1)]
  by (simp add: position_def trace_bytes_def)

section \<open>Closing a flow\<close>

lemma recorder_simps [simp]:
  "on_data recorder es key dir data off ts = Some (es @ [DataEvent key dir data off ts])"
  "on_flow_close recorder es key reason = Some (es @ [CloseEvent key reason])"
  by (simp_all add: recorder_def)

lemma deliver_recorder:
  "st_bytes_reassembled s + length (chunk_bytes ch) \<le> u64_max \<Longrightarrow>
   deliver recorder key dir ts ch (s, es) =
     Some (s\<lparr>st_bytes_reassembled := st_bytes_reassembled s + length (chunk_bytes ch)\<rparr>,
           es @ chunk_events key dir ts ch)"
proof (induction ch arbitrary: s es)
  case (Cons c ch)
  obtain off data where "c = (off, data)" by force
  with Cons show ?case by (simp add: add.assoc)
qed simp

lemma flush_dir:
  assumes "dir_ok c d" and "config_ok c"
  obtains d' ch where "flush_contiguous d = Some (d', ch)" and "dir_ok c d'" and "drains d ch d'"
    and "\<And>cnt key dir ts. cnt (key, dir) = fd_base_offset d - 1 \<Longrightarrow> wf_from cnt (chunk_events key dir ts ch)"
    and "fd_base_offset d' - 1 = fd_base_offset d - 1 + length (chunk_bytes ch)"
proof -
  from assms obtain d' ch where f: "flush_contiguous d = Some (d', ch)" and dr: "drains d ch d'"
      and ok: "fd_ok (cfg_max_depth c) (cfg_max_segments_per_direction c) d'"
    unfolding dir_ok_def config_ok_def by (metis flush_contiguous_spec)
  note facts = drainsD [OF dr] drains_frame [OF dr]
  have st: "fd_started d" using assms(1) by (simp add: dir_ok_def)
  show thesis
  proof (cases "fd_isn d")
    case None
    with st facts(2) have "ch = []" "fd_segments d' = []" by (auto simp: fd_started_def)
    with None st facts show thesis
      by (intro that [OF f _ dr]) (use ok in \<open>auto simp: dir_ok_def fd_started_def\<close>)
  next
    case (Some isn)
    then have "1 \<le> fd_base_offset d" using st by (simp add: fd_started_def)
    with Some facts show thesis
      by (intro that [OF f _ dr]) (use ok in \<open>auto simp: dir_ok_def fd_started_def intro: chunk_events_wf\<close>)
  qed
qed

text \<open>What no step but the entry points themselves changes.\<close>

definition engine_frame :: "reassembler \<Rightarrow> reassembler \<Rightarrow> bool" where
  "engine_frame r r' \<longleftrightarrow>
     ra_config r' = ra_config r \<and> ra_seed r' = ra_seed r \<and> ra_finalized r' = ra_finalized r \<and>
     ra_packet_index r' = ra_packet_index r \<and> ra_last_expiry_sweep_secs r' = ra_last_expiry_sweep_secs r"

lemma engine_frame_refl [simp]: "engine_frame r r"
  by (simp add: engine_frame_def)

lemma engine_frame_trans: "engine_frame r1 r2 \<Longrightarrow> engine_frame r2 r3 \<Longrightarrow> engine_frame r1 r3"
  by (simp add: engine_frame_def)

lemma engine_frame_steps [simp]:
  "engine_frame r (bump upd r)" "engine_frame r (push_finding fi r)" "engine_frame r (put_flow key f r)"
  by (simp_all add: engine_frame_def)

definition held :: "reassembler \<Rightarrow> nat" where
  "held r = ra_total_memory r + st_bytes_reassembled (ra_stats r)"

definition end_events :: "flow_key \<Rightarrow> close_reason \<Rightarrow> u32 \<Rightarrow> (u64 \<times> bytes) list \<Rightarrow> (u64 \<times> bytes) list \<Rightarrow> stream_event list" where
  "end_events key reason ts ch1 ch2 =
     chunk_events key ClientToServer ts ch1 @ chunk_events key ServerToClient ts ch2 @ [CloseEvent key reason]"

lemma end_events_fold:
  "fold trace_step (end_events key reason ts ch1 ch2) c =
     c((key, ClientToServer) := 0, (key, ServerToClient) := 0)"
  by (auto simp: end_events_def chunk_events_fold fun_eq_iff)

lemma trace_bytes_end [simp]:
  "trace_bytes (end_events key reason ts ch1 ch2) = length (chunk_bytes ch1) + length (chunk_bytes ch2)"
  by (simp add: end_events_def) (simp add: trace_bytes_def)

lemma engine_ok_remove:
  assumes "engine_ok r es" and "hm_get (ra_flows r) key = Some f"
    and "ra_config r' = ra_config r" and "ra_flows r' = hm_remove key (ra_flows r)"
    and "ra_total_memory r' + flow_mem f = ra_total_memory r"
    and "wf_from (delivered es) new"
    and "fold trace_step new (delivered es) = (delivered es)((key, ClientToServer) := 0, (key, ServerToClient) := 0)"
    and "st_bytes_reassembled (ra_stats r') = st_bytes_reassembled (ra_stats r) + trace_bytes new"
    and "trace_bytes new \<le> flow_mem f"
  shows "engine_ok r' (es @ new)"
proof -
  note ok = engine_okD [OF assms(1)]
  have get: "hm_get (ra_flows r') k = (if k = key then None else hm_get (ra_flows r) k)" for k
    using hmap.get_remove [OF ok(2)] assms(4) by simp
  have mem: "ra_total_memory r' = weight flow_mem (ra_flows r')"
    using hmap.weight_remove [OF ok(2), of flow_mem key] assms(2,4,5) ok(4) by simp
  have len: "length (ra_flows r') \<le> cfg_max_flows (ra_config r')"
    using hmap.size_remove [OF ok(2), of key] assms(2-4) ok(5) by simp
  have flows: "flow_ok (ra_config r') k g" if "(k, g) \<in> set (ra_flows r')" for k g
    using that hmap.set_remove [OF ok(2), of key] assms(1,3,4) by (auto simp: engine_ok_def)
  have "fold trace_step new (delivered es) = position r'"
  proof (rule ext, clarify)
    fix k dir
    show "fold trace_step new (delivered es) (k, dir) = position r' (k, dir)"
      unfolding assms(7) using get [of k] fun_cong [OF ok(7), of "(k, dir)"]
      by (cases "k = key"; cases dir) (simp_all add: position_def)
  qed
  then show ?thesis
    unfolding engine_ok_def trace_append
    using ok(1,6,8,9) assms(3,4,5,6,8,9) mem len flows hm_ok_remove [OF ok(2), of key] by auto
qed

lemma close_flow_ok:
  assumes "engine_ok r es" and "hm_get (ra_flows r) key = Some f"
  obtains r' ch1 ch2 where
    "close_flow recorder key reason (r, es) = Some (r', es @ end_events key reason (fl_last_seen f) ch1 ch2)"
    and "engine_ok r' (es @ end_events key reason (fl_last_seen f) ch1 ch2)"
    and "engine_frame r r'" and "ra_findings r' = ra_findings r"
    and "ra_flows r' = hm_remove key (ra_flows r)" and "held r' \<le> held r"
    and "\<exists>n. ra_stats r' = (ra_stats r)\<lparr>st_bytes_reassembled := n\<rparr>"
    and "ra_total_memory r' + flow_mem f = ra_total_memory r"
proof -
  note ok = engine_okD [OF assms(1)]
  have fok: "flow_ok (ra_config r) key f" using ok(3) assms(2) .
  then have d: "dir_ok (ra_config r) (get_direction dir f)" for dir by (simp add: flow_ok_def)
  note mem = flow_ok_mem_bound [OF fok ok(1)]
  obtain d1 ch1 where f1: "flush_contiguous (get_direction ClientToServer f) = Some (d1, ch1)"
      "drains (get_direction ClientToServer f) ch1 d1"
    and w1: "\<And>cnt key dir ts. cnt (key, dir) = fd_base_offset (get_direction ClientToServer f) - 1 \<Longrightarrow>
         wf_from cnt (chunk_events key dir ts ch1)"
    by (rule flush_dir [OF d ok(1)]) blast
  obtain d2 ch2 where f2: "flush_contiguous (get_direction ServerToClient f) = Some (d2, ch2)"
      "drains (get_direction ServerToClient f) ch2 d2"
    and w2: "\<And>cnt key dir ts. cnt (key, dir) = fd_base_offset (get_direction ServerToClient f) - 1 \<Longrightarrow>
         wf_from cnt (chunk_events key dir ts ch2)"
    by (rule flush_dir [OF d ok(1)]) blast
  let ?n1 = "length (chunk_bytes ch1)" and ?n2 = "length (chunk_bytes ch2)" and ?b = "st_bytes_reassembled (ra_stats r)"
  let ?new = "end_events key reason (fl_last_seen f) ch1 ch2"
  have n: "?n1 + ?n2 \<le> flow_mem f"
    using drainsD(6) [OF f1(2)] drainsD(6) [OF f2(2)] by (simp add: flow_mem_def)
  have le: "flow_mem f \<le> ra_total_memory r"
    using hmap.weight_remove [OF ok(2), of flow_mem key] assms(2) ok(4) by simp
  have b: "?b + ?n1 \<le> u64_max" "?b + ?n1 + ?n2 \<le> u64_max" using n le ok(9) by linarith+
  define r' where "r' = r\<lparr>ra_flows := hm_remove key (ra_flows r),
      ra_stats := (ra_stats r)\<lparr>st_bytes_reassembled := ?b + ?n1 + ?n2\<rparr>,
      ra_total_memory := ra_total_memory r - flow_mem f\<rparr>"
  have cl: "close_flow recorder key reason (r, es) = Some (r', es @ ?new)"
    using assms(2) mem f1(1) f2(1) b le
    by (simp add: close_flow_def deliver_recorder end_events_def r'_def Let_def)
  have pos: "delivered es (key, dir) = fd_base_offset (get_direction dir f) - 1" for dir
    using ok(7) assms(2) by (simp add: position_def)
  have "wf_from (delivered es) ?new"
    using w1 [of "delivered es" key ClientToServer] w2 [of "(delivered es)((key, ClientToServer) :=
        delivered es (key, ClientToServer) + ?n1)" key ServerToClient] pos
    by (simp add: end_events_def wf_from_append chunk_events_fold)
  then have "engine_ok r' (es @ ?new)"
    using n le by (intro engine_ok_remove [OF assms]) (simp_all add: r'_def end_events_fold)
  then show thesis
    using n le by (intro that [OF cl]) (auto simp: r'_def engine_frame_def held_def)
qed

end
