(* ===== verification/Engine_Steps.thy ===== *)
theory Engine_Steps
  imports Engine_Inv
begin

text \<open>
  Every step of the engine keeps the invariant of theory \<open>Engine_Inv\<close> and cannot
  panic, with what the step does to the flow table and to the counters.
\<close>

section \<open>Sweeps and eviction\<close>

definition without :: "flow_key set \<Rightarrow> (flow_key, tcp_flow) hash_map \<Rightarrow> (flow_key, tcp_flow) hash_map" where
  "without ks m = filter (\<lambda>e. fst e \<notin> ks) m"

lemma without_simps [simp]:
  "without {} m = m" "without ks (without ks' m) = without (ks' \<union> ks) m"
  "hm_remove k m = without {k} m"
  by (auto simp: without_def hm_remove_eq intro!: filter_cong)

lemma without_all: "fst ` set m \<subseteq> ks \<Longrightarrow> without ks m = []"
  by (auto simp: without_def filter_empty_conv)

lemma length_without: "length (without ks m) \<le> length m"
  by (simp add: without_def)

text \<open>One step of a sweep, whether or not the flow is still there.\<close>

definition shrinks :: "reassembler \<Rightarrow> flow_key set \<Rightarrow> reassembler \<Rightarrow> bool" where
  "shrinks r ks r' \<longleftrightarrow>
     engine_frame r r' \<and> ra_findings r' = ra_findings r \<and> held r' \<le> held r \<and>
     ra_total_memory r' \<le> ra_total_memory r \<and>
     ra_flows r' = without ks (ra_flows r) \<and>
     st_segments_segment_limit (ra_stats r') = st_segments_segment_limit (ra_stats r)"

lemma shrinks_trans: "shrinks r ks r' \<Longrightarrow> shrinks r' ks' r'' \<Longrightarrow> shrinks r (ks \<union> ks') r''"
  by (auto simp: shrinks_def intro: engine_frame_trans)

lemma close_flow_step:
  assumes "engine_ok r es"
  obtains r' es' where "close_flow recorder key reason (r, es) = Some (r', es')" and "engine_ok r' es'"
    and "shrinks r {key} r'"
proof (cases "hm_get (ra_flows r) key")
  case None
  then have "key \<notin> fst ` set (ra_flows r)" by (simp add: hm_get_def map_of_eq_None_iff)
  then have "without {key} (ra_flows r) = ra_flows r" by (auto simp: without_def filter_id_conv)
  with None assms show thesis by (intro that [of r es]) (simp_all add: close_flow_def shrinks_def)
next
  case (Some f)
  show thesis
    by (rule close_flow_ok [OF assms Some, where reason = reason])
       (rule that, assumption, assumption, auto simp: shrinks_def)
qed

lemma engine_ok_bump:
  "engine_ok r es \<Longrightarrow> st_bytes_reassembled (upd (\<lambda>n. sat_add64 n 1) (ra_stats r)) = st_bytes_reassembled (ra_stats r)
   \<Longrightarrow> engine_ok (bump upd r) es"
  by (erule engine_ok_cong) simp_all

lemma expire_loop_step:
  assumes "engine_ok r es"
  shows "\<exists>r' es'. expire_loop recorder ks (r, es) = Some (r', es') \<and> engine_ok r' es' \<and> shrinks r (set ks) r'"
  using assms
proof (induction ks arbitrary: r es)
  case Nil
  then show ?case by (simp add: shrinks_def)
next
  case (Cons k ks)
  let ?r = "bump st_flows_expired_update r"
  have "engine_ok ?r es" using Cons.prems by (rule engine_ok_bump) simp
  then obtain r1 es1 where c: "close_flow recorder k TimeoutClose (?r, es) = Some (r1, es1)" "engine_ok r1 es1"
      "shrinks ?r {k} r1"
    by (rule close_flow_step)
  obtain r2 es2 where e: "expire_loop recorder ks (r1, es1) = Some (r2, es2)" "engine_ok r2 es2" "shrinks r1 (set ks) r2"
    using Cons.IH [OF c(2)] by blast
  have "shrinks r {} ?r" by (simp add: shrinks_def held_def)
  then have "shrinks r (set (k # ks)) r2" using shrinks_trans c(3) e(3) by (metis Un_empty_left insert_is_Un list.simps(15))
  with c(1) e show ?case by simp
qed

definition within_limits :: "nat \<Rightarrow> reassembler \<Rightarrow> bool" where
  "within_limits target r \<longleftrightarrow> ra_total_memory r \<le> cfg_memcap (ra_config r) \<and> length (ra_flows r) \<le> target"

text \<open>The loop closes a prefix of the candidates and stops at the first point within the limits.\<close>

lemma evict_loop_step:
  assumes "engine_ok r es"
  shows "\<exists>n r' es'. evict_loop recorder t cs (r, es) = Some (r', es') \<and> engine_ok r' es' \<and>
           shrinks r (fst ` set (take n cs)) r' \<and> (within_limits t r' \<or> length cs \<le> n) \<and>
           (n = 0 \<or> \<not> within_limits t r)"
  using assms
proof (induction cs arbitrary: r es)
  case Nil
  then show ?case by (simp add: shrinks_def)
next
  case (Cons c cs)
  obtain k b l where c: "c = (k, b, l)" by (cases c) auto
  let ?r = "bump st_evictions_update r"
  show ?case
  proof (cases "within_limits t r")
    case True
    with Cons.prems have "evict_loop recorder t (c # cs) (r, es) = Some (r, es)" "shrinks r {} r"
      by (auto simp: c within_limits_def shrinks_def)
    with Cons.prems True show ?thesis by (intro exI [of _ 0]) auto
  next
    case False
    have "engine_ok ?r es" using Cons.prems by (rule engine_ok_bump) simp
    then obtain r1 es1 where cl: "close_flow recorder k MemoryPressureClose (?r, es) = Some (r1, es1)"
        "engine_ok r1 es1" "shrinks ?r {k} r1"
      by (rule close_flow_step)
    obtain n r2 es2 where e: "evict_loop recorder t cs (r1, es1) = Some (r2, es2)" "engine_ok r2 es2"
        "shrinks r1 (fst ` set (take n cs)) r2" "within_limits t r2 \<or> length cs \<le> n"
      using Cons.IH [OF cl(2)] by blast
    have "shrinks r {} ?r" by (simp add: shrinks_def held_def)
    then have "shrinks r ({} \<union> ({k} \<union> fst ` set (take n cs))) r2" using shrinks_trans cl(3) e(3) by blast
    then have "shrinks r (fst ` set (take (Suc n) (c # cs))) r2" by (simp add: c)
    moreover have "evict_loop recorder t (c # cs) (r, es) = Some (r2, es2)"
      using False cl(1) e(1) by (auto simp: c within_limits_def)
    ultimately show ?thesis using e False by (intro exI [of _ "Suc n"]) auto
  qed
qed

lemma candidates_keys: "fst ` set (eviction_candidates r) = fst ` set (ra_flows r)"
  by (force simp: eviction_candidates_def)

lemma candidates_sorted:
  "sorted (map (\<lambda>(_, est, seen). (est, seen)) (eviction_candidates r))"
  unfolding eviction_candidates_def by (rule sorted_sort_key)

lemma flow_count_target_ok:
  assumes "config_ok c"
  obtains t where "flow_count_target trigger c = Some t" and "t < cfg_max_flows c"
proof (cases trigger)
  case MaxFlows
  show thesis
    by (rule that [of "min (cfg_max_flows c * 9 div 10) (cfg_max_flows c - 1)"])
       (use assms in \<open>simp_all add: MaxFlows flow_count_target_def mul64_def config_ok_def min_less_iff_disj div_less_iff_less_mult\<close>)
next
  case MemCap
  show thesis
    by (rule that [of "cfg_max_flows c - 1"]) (use assms in \<open>simp_all add: MemCap flow_count_target_def config_ok_def\<close>)
qed

lemma evict_flows_step:
  assumes "engine_ok r es"
  obtains n t r' es' where "evict_flows recorder trigger (r, es) = Some (r', es')" and "engine_ok r' es'"
    and "flow_count_target trigger (ra_config r) = Some t" and "t < cfg_max_flows (ra_config r)"
    and "shrinks r (fst ` set (take n (eviction_candidates r))) r'" and "within_limits t r'"
    and "n = 0 \<or> \<not> within_limits t r"
proof -
  obtain t where t: "flow_count_target trigger (ra_config r) = Some t" "t < cfg_max_flows (ra_config r)"
    using flow_count_target_ok engine_okD(1) [OF assms] by metis
  from evict_loop_step [OF assms, of t "eviction_candidates r"] obtain n r' es'
    where e: "evict_loop recorder t (eviction_candidates r) (r, es) = Some (r', es')" "engine_ok r' es'"
      "shrinks r (fst ` set (take n (eviction_candidates r))) r'"
      "within_limits t r' \<or> length (eviction_candidates r) \<le> n" "n = 0 \<or> \<not> within_limits t r" by blast
  have "within_limits t r'"
  proof (rule disjE [OF e(4)])
    assume "length (eviction_candidates r) \<le> n"
    then have "ra_flows r' = []"
      using e(3) candidates_keys [of r] without_all [of "ra_flows r"] by (simp add: shrinks_def)
    then show ?thesis using engine_okD(4) [OF e(2)] by (simp add: within_limits_def)
  qed
  with e t show thesis by (intro that [of r' es' t n]) (simp_all add: evict_flows_def)
qed

section \<open>The per-packet steps\<close>

text \<open>A step that keeps the entry-point fields and the cap on findings, and lets the bytes
  in hand grow by at most \<open>n\<close>.\<close>

definition advances :: "nat \<Rightarrow> reassembler \<Rightarrow> reassembler \<Rightarrow> bool" where
  "advances n r r' \<longleftrightarrow>
     engine_frame r r' \<and> held r' \<le> held r + n \<and> ra_total_memory r' \<le> ra_total_memory r + n \<and>
     (length (ra_findings r) \<le> max_findings \<longrightarrow> length (ra_findings r') \<le> max_findings)"

lemma advances_trans: "advances m r r' \<Longrightarrow> advances n r' r'' \<Longrightarrow> advances (m + n) r r''"
  by (auto simp: advances_def intro: engine_frame_trans)

lemma advances_refl [simp]: "advances 0 r r"
  by (simp add: advances_def)

lemma shrinks_advances: "shrinks r ks r' \<Longrightarrow> advances 0 r r'"
  by (simp add: advances_def shrinks_def)

lemma advances_bump:
  "st_bytes_reassembled (upd (\<lambda>n. sat_add64 n 1) (ra_stats r)) = st_bytes_reassembled (ra_stats r)
   \<Longrightarrow> advances 0 r (bump upd r)"
  by (simp add: advances_def held_def)

lemma advances_push_finding: "advances 0 r (push_finding fi r)"
  by (simp add: advances_def held_def) (simp add: push_finding_def)

lemma advances_put_flow: "advances 0 r (put_flow key f r)"
  by (simp add: advances_def held_def)

lemma dir_ok_cong:
  assumes "dir_ok c d" and "fd_isn d' = fd_isn d" and "fd_base_offset d' = fd_base_offset d"
    and "fd_segments d' = fd_segments d" and "fd_buffered_bytes d' = fd_buffered_bytes d"
    and "fd_reassembled_bytes d' = fd_reassembled_bytes d"
  shows "dir_ok c d'"
  using assms unfolding dir_ok_def fd_ok_def fd_shape_def fd_counted_def fd_started_def by (auto split: option.splits)

lemma dir_ok_isn:
  assumes "dir_ok c d"
  shows "dir_ok c (set_isn seq d)" and "dir_ok c (infer_isn seq d)"
    and "fd_base_offset (set_isn seq d) - 1 = fd_base_offset d - 1"
    and "fd_base_offset (infer_isn seq d) - 1 = fd_base_offset d - 1"
    and "fd_buffered_bytes (set_isn seq d) = fd_buffered_bytes d"
    and "fd_buffered_bytes (infer_isn seq d) = fd_buffered_bytes d"
  using assms
  by (cases "fd_isn d"; simp add: dir_ok_def fd_ok_def fd_shape_def fd_counted_def fd_started_def set_isn_def
      infer_isn_def seg_limit_def)+

lemma flow_ok_set_direction:
  "flow_ok c key f \<Longrightarrow> dir_ok c d \<Longrightarrow> flow_ok c key (set_direction dir d f)"
  by (simp add: flow_ok_def)

lemma flow_ok_transitions:
  assumes "flow_ok c key f"
  shows "flow_ok c key (set_initiator ip p f)" and "flow_ok c key (on_syn f)" and "flow_ok c key (on_syn_ack f)"
    and "flow_ok c key (on_data_without_syn f)" and "flow_ok c key (on_fin f)" and "flow_ok c key (on_rst f)"
  using assms by (simp_all add: flow_ok_def)

text \<open>A change to a flow that moves neither memory nor cursors.\<close>

definition quiet :: "reassembly_config \<Rightarrow> flow_key \<Rightarrow> tcp_flow \<Rightarrow> tcp_flow \<Rightarrow> bool" where
  "quiet c key f f' \<longleftrightarrow>
     flow_ok c key f' \<and> flow_mem f' = flow_mem f \<and>
     (\<forall>dir. fd_base_offset (get_direction dir f') - 1 = fd_base_offset (get_direction dir f) - 1)"

lemma quiet_trans: "quiet c key f g \<Longrightarrow> quiet c key g h \<Longrightarrow> quiet c key f h"
  by (simp add: quiet_def)

lemma quiet_refl: "flow_ok c key f \<Longrightarrow> quiet c key f f"
  by (simp add: quiet_def)

lemma quiet_transition:
  assumes "flow_ok c key f"
  shows "quiet c key f (set_initiator ip p f)" and "quiet c key f (on_syn f)" and "quiet c key f (on_syn_ack f)"
    and "quiet c key f (on_data_without_syn f)" and "quiet c key f (on_fin f)" and "quiet c key f (on_rst f)"
  using assms flow_ok_transitions by (simp_all add: quiet_def)

lemma quiet_set_direction:
  assumes "flow_ok c key f" and "dir_ok c d"
    and "fd_buffered_bytes d = fd_buffered_bytes (get_direction dir f)"
    and "fd_base_offset d - 1 = fd_base_offset (get_direction dir f) - 1"
  shows "quiet c key f (set_direction dir d f)"
  using assms flow_mem_set_direction [of dir d f] flow_ok_set_direction by (simp add: quiet_def)

lemma quiet_set_isn:
  assumes "flow_ok c key f"
  shows "quiet c key f (set_direction dir (set_isn seq (get_direction dir f)) f)"
    and "quiet c key f (set_direction dir (infer_isn seq (get_direction dir f)) f)"
proof -
  have "dir_ok c (get_direction dir f)" using assms by (simp add: flow_ok_def)
  note d = dir_ok_isn [OF this, of seq]
  show "quiet c key f (set_direction dir (set_isn seq (get_direction dir f)) f)"
    by (rule quiet_set_direction [OF assms d(1,5,3)])
  show "quiet c key f (set_direction dir (infer_isn seq (get_direction dir f)) f)"
    by (rule quiet_set_direction [OF assms d(2,6,4)])
qed

lemma quietD: "quiet c key f f' \<Longrightarrow> flow_ok c key f'"
  by (simp add: quiet_def)

lemma quiet_transitions:
  assumes "quiet c key f g"
  shows "quiet c key f (set_initiator ip p g)" and "quiet c key f (on_syn g)" and "quiet c key f (on_syn_ack g)"
    and "quiet c key f (on_data_without_syn g)" and "quiet c key f (on_fin g)" and "quiet c key f (on_rst g)"
    and "quiet c key f (set_direction dir (set_isn seq (get_direction dir g)) g)"
    and "quiet c key f (set_direction dir (infer_isn seq (get_direction dir g)) g)"
  using quiet_trans [OF assms] quiet_transition [OF quietD [OF assms]] quiet_set_isn [OF quietD [OF assms]] by blast+

lemma quiet_handshake:
  assumes "quiet c key f g"
  shows "quiet c key f (handshake_syn p tcp g)" and "quiet c key f (handshake_syn_ack p tcp g)"
    and "quiet c key f (handshake_fin p tcp g)" and "quiet c key f (join_midstream p tcp g)"
proof -
  show "quiet c key f (handshake_syn p tcp g)" "quiet c key f (handshake_syn_ack p tcp g)"
    "quiet c key f (join_midstream p tcp g)"
    unfolding handshake_syn_def handshake_syn_ack_def join_midstream_def Let_def
    by (simp_all add: assms quiet_transitions del: transitions_keep_directions)
  have "quiet c key f (set_direction dir ((get_direction dir g)\<lparr>fd_fin_seen := True\<rparr>) g)" for dir
  proof (rule quiet_trans [OF assms], rule quiet_set_direction [OF quietD [OF assms]])
    show "dir_ok c ((get_direction dir g)\<lparr>fd_fin_seen := True\<rparr>)"
      by (rule dir_ok_cong [of c "get_direction dir g"]) (use quietD [OF assms] in \<open>simp_all add: flow_ok_def\<close>)
  qed simp_all
  then show "quiet c key f (handshake_fin p tcp g)"
    unfolding handshake_fin_def Let_def by (simp add: assms quiet_transitions)
qed

lemma put_quiet:
  assumes "engine_ok r es" and "hm_get (ra_flows r) key = Some f" and "quiet (ra_config r) key f f'"
  shows "engine_ok (put_flow key f' r) es" and "hm_get (ra_flows (put_flow key f' r)) key = Some f'"
  using assms engine_okD(2) [OF assms(1)]
  by (auto simp: quiet_def hmap.get_put intro: engine_ok_put_flow)

section \<open>Flow lookup and handshake\<close>

lemma flow_ok_new: "flow_ok c key (tcp_flow_new key ts)"
proof -
  have "dir_ok c flow_direction_new"
    using fd_ok_new by (simp add: dir_ok_def fd_started_def) (simp add: flow_direction_new_def)
  moreover have "get_direction dir (tcp_flow_new key ts) = flow_direction_new" for dir
    by (cases dir) (simp_all add: tcp_flow_new_def)
  ultimately show ?thesis by (simp add: flow_ok_def) (simp add: tcp_flow_new_def)
qed

lemma new_flow_simps [simp]:
  "flow_mem (tcp_flow_new key ts) = 0"
  "fd_base_offset (get_direction dir (tcp_flow_new key ts)) = 0"
  by (simp_all add: flow_mem_def tcp_flow_new_def flow_direction_new_def)
     (cases dir; simp add: flow_direction_new_def)

lemma engine_ok_create:
  assumes "engine_ok r es" and "hm_get (ra_flows r) key = None"
    and "length (ra_flows r) < cfg_max_flows (ra_config r)"
  shows "engine_ok (create_flow key ts r) es"
    and "hm_get (ra_flows (create_flow key ts r)) key = Some (tcp_flow_new key ts)"
    and "advances 0 r (create_flow key ts r)"
proof -
  note ok = engine_okD [OF assms(1)]
  let ?f = "tcp_flow_new key ts"
  have fl: "ra_flows (create_flow key ts r) = hm_insert key ?f (ra_flows r)" by (simp add: create_flow_def)
  have fr: "ra_config (create_flow key ts r) = ra_config r" "ra_total_memory (create_flow key ts r) = ra_total_memory r"
      "st_bytes_reassembled (ra_stats (create_flow key ts r)) = st_bytes_reassembled (ra_stats r)"
    by (simp_all add: create_flow_def)
  show get: "hm_get (ra_flows (create_flow key ts r)) key = Some ?f" using hmap.get_put [OF ok(2)] fl by simp
  have "position (create_flow key ts r) = position r"
    by (rule ext) (auto simp: position_def fl hmap.get_put [OF ok(2)] assms(2) split: option.splits)
  moreover have "weight flow_mem (hm_insert key ?f (ra_flows r)) = weight flow_mem (ra_flows r)"
    using hmap.weight_put [OF ok(2), of flow_mem key ?f] assms(2) by simp
  moreover have "flow_ok (ra_config r) k g" if "(k, g) \<in> set (hm_insert key ?f (ra_flows r))" for k g
    using that hmap.set_put [OF ok(2), of key ?f] assms(1) flow_ok_new by (auto simp: engine_ok_def)
  moreover have "length (hm_insert key ?f (ra_flows r)) \<le> cfg_max_flows (ra_config r)"
    using hmap.size_put [OF ok(2), of key ?f] assms(2,3) by simp
  ultimately show "engine_ok (create_flow key ts r) es"
    unfolding engine_ok_def fl fr using ok(1,4,6,7,8,9) hm_ok_insert [OF ok(2), of key ?f] by auto
  show "advances 0 r (create_flow key ts r)"
    by (simp add: advances_def held_def fr engine_frame_def) (simp add: create_flow_def)
qed

lemma touch_flow_step:
  fixes ts :: u32
  assumes "engine_ok r es" and "hm_get (ra_flows r) key = Some f"
  defines "f' \<equiv> f\<lparr>fl_last_seen := ts, fl_last_activity_index := ra_packet_index r\<rparr>"
  shows "touch_flow key ts r = Some (put_flow key f' r)"
    and "engine_ok (put_flow key f' r) es" and "hm_get (ra_flows (put_flow key f' r)) key = Some f'"
proof -
  have dirs: "get_direction dir f' = get_direction dir f" for dir by (cases dir) (simp_all add: f'_def)
  have "quiet (ra_config r) key f f'"
    using engine_okD(3) [OF assms(1,2)] by (simp add: quiet_def flow_ok_def dirs) (simp add: f'_def flow_mem_def)
  from put_quiet [OF assms(1,2) this]
  show "engine_ok (put_flow key f' r) es" "hm_get (ra_flows (put_flow key f' r)) key = Some f'" .
  show "touch_flow key ts r = Some (put_flow key f' r)"
    using assms(2) by (simp add: touch_flow_def put_flow_def f'_def)
qed

lemma touch_step:
  assumes "engine_ok r es" and "hm_get (ra_flows r) key \<noteq> None"
  obtains r' f' where "touch_flow key ts r = Some r'" and "engine_ok r' es" and "advances 0 r r'"
    and "hm_get (ra_flows r') key = Some f'" and "fl_last_seen f' = ts"
    and "fl_last_activity_index f' = ra_packet_index r"
    and "f' = (the (hm_get (ra_flows r) key))\<lparr>fl_last_seen := ts, fl_last_activity_index := ra_packet_index r\<rparr>"
proof -
  obtain f where f: "hm_get (ra_flows r) key = Some f" using assms(2) by auto
  show thesis
    using touch_flow_step [OF assms(1) f] advances_put_flow f by (intro that) auto
qed

lemma get_or_create_flow_step:
  assumes "engine_ok r es"
  obtains r' es' f where "get_or_create_flow recorder key ts (r, es) = Some ((r', True), es')"
    and "engine_ok r' es'" and "advances 0 r r'" and "hm_get (ra_flows r') key = Some f"
    and "fl_last_seen f = ts" and "fl_last_activity_index f = ra_packet_index r"
    and "f = (case hm_get (ra_flows r) key of Some g \<Rightarrow> g | None \<Rightarrow> tcp_flow_new key ts)
           \<lparr>fl_last_seen := ts, fl_last_activity_index := ra_packet_index r\<rparr>"
proof -
  note result = that
  have fin: thesis if r1: "engine_ok r1 es1" "advances 0 r r1" and none: "hm_get (ra_flows r1) key = None"
      "length (ra_flows r1) < cfg_max_flows (ra_config r1)" "hm_get (ra_flows r) key = None"
    and eq: "get_or_create_flow recorder key ts (r, es) =
        do { r2 \<leftarrow> touch_flow key ts (create_flow key ts r1); Some ((r2, True), es1) }" for r1 es1
  proof -
    note cr = engine_ok_create [OF r1(1) none(1,2), of ts]
    have ix: "ra_packet_index (create_flow key ts r1) = ra_packet_index r"
      using r1(2) by (simp add: create_flow_def advances_def engine_frame_def)
    have ne: "hm_get (ra_flows (create_flow key ts r1)) key \<noteq> None" using cr(2) by simp
    obtain r' f' where t: "touch_flow key ts (create_flow key ts r1) = Some r'" "engine_ok r' es1"
        "advances 0 (create_flow key ts r1) r'" "hm_get (ra_flows r') key = Some f'" "fl_last_seen f' = ts"
        "fl_last_activity_index f' = ra_packet_index (create_flow key ts r1)"
        "f' = (the (hm_get (ra_flows (create_flow key ts r1)) key))
           \<lparr>fl_last_seen := ts, fl_last_activity_index := ra_packet_index (create_flow key ts r1)\<rparr>"
      by (rule touch_step [OF cr(1) ne])
    have "advances 0 r r'" using advances_trans [OF advances_trans [OF r1(2) cr(3)] t(3)] by simp
    with t eq ix cr(2) none(3) show thesis by (intro result [of r' es1 f']) simp_all
  qed
  show thesis
  proof (cases "hm_get (ra_flows r) key")
    case None
    show thesis
    proof (cases "length (ra_flows r) < cfg_max_flows (ra_config r)")
      case True
      with None assms show thesis by (intro fin [of r es]) (simp_all add: get_or_create_flow_def)
    next
      case False
      obtain n t r1 es1 where e: "evict_flows recorder MaxFlows (r, es) = Some (r1, es1)" "engine_ok r1 es1"
          "t < cfg_max_flows (ra_config r)" "shrinks r (fst ` set (take n (eviction_candidates r))) r1"
          "within_limits t r1"
        by (rule evict_flows_step [OF assms])
      have lt: "length (ra_flows r1) < cfg_max_flows (ra_config r1)"
        using e(3-5) by (simp add: within_limits_def shrinks_def engine_frame_def)
      have "hm_get (ra_flows r1) key = None"
        using None e(4) by (auto simp: shrinks_def without_def hm_get_def map_of_eq_None_iff)
      with e lt None False show thesis
        by (intro fin [of r1 es1]) (auto simp: get_or_create_flow_def shrinks_advances)
    qed
  next
    case (Some f)
    show thesis
      by (rule touch_step [OF assms, of key ts]) (use Some in \<open>auto simp: get_or_create_flow_def intro: that\<close>)
  qed
qed

lemma apply_handshake_flags_step:
  assumes "engine_ok r es" and "hm_get (ra_flows r) key = Some f"
  obtains (closed) r' es' where "apply_handshake_flags recorder p key tcp (r, es) = Some ((r', FlowClosed), es')"
    and "engine_ok r' es'" and "advances 0 r r'" and "tf_rst tcp" and "hm_get (ra_flows r') key = None"
  | (continue) r' f' where "apply_handshake_flags recorder p key tcp (r, es) = Some ((r', Continue), es)"
    and "engine_ok r' es" and "advances 0 r r'" and "\<not> tf_rst tcp" and "hm_get (ra_flows r') key = Some f'"
    and "f' = handshake_fin p tcp (handshake_syn_ack p tcp (handshake_syn p tcp f))"
proof -
  let ?f1 = "handshake_syn_ack p tcp (handshake_syn p tcp f)"
  have ok: "flow_ok (ra_config r) key f" using engine_okD(3) [OF assms] .
  then have q: "quiet (ra_config r) key f ?f1" by (intro quiet_handshake quiet_refl)
  show thesis
  proof (cases "tf_rst tcp")
    case True
    let ?r = "bump st_flows_rst_update (put_flow key (on_rst ?f1) r)"
    note put = put_quiet [OF assms quiet_transitions(6) [OF q]]
    have "engine_ok ?r es" using put(1) by (rule engine_ok_bump) simp
    then obtain r1 es1 where c: "close_flow recorder key RstClose (?r, es) = Some (r1, es1)" "engine_ok r1 es1"
        "shrinks ?r {key} r1"
      by (rule close_flow_step)
    have "advances 0 r ?r" by (simp add: advances_def held_def engine_frame_def)
    from advances_trans [OF this shrinks_advances [OF c(3)]] have "advances 0 r r1" by simp
    moreover have "hm_get (ra_flows r1) key = None"
      using c(3) by (simp add: shrinks_def without_def hm_get_def map_of_eq_None_iff) blast
    ultimately show thesis
      using True c by (intro closed) (simp_all add: apply_handshake_flags_def assms(2) Let_def)
  next
    case False
    note put = put_quiet [OF assms quiet_handshake(3) [OF q]]
    have "apply_handshake_flags recorder p key tcp (r, es) = Some ((put_flow key (handshake_fin p tcp ?f1) r, Continue), es)"
      using False by (simp add: apply_handshake_flags_def assms(2) Let_def)
    then show thesis by (rule continue [OF _ put(1) advances_put_flow False put(2) refl])
  qed
qed

end
