(* ===== verification/Engine_Packet.thy ===== *)
theory Engine_Packet
  imports Engine_Steps
begin

text \<open>
  The payload steps of \<open>process_packet\<close>, and the packet as a whole: it never panics,
  keeps the invariant of the engine, and ends within every limit.
\<close>

section \<open>Payload\<close>

lemma track_small_segment_frame [simp]:
  "fd_isn (track_small_segment mx data res d) = fd_isn d"
  "fd_base_offset (track_small_segment mx data res d) = fd_base_offset d"
  "fd_segments (track_small_segment mx data res d) = fd_segments d"
  "fd_buffered_bytes (track_small_segment mx data res d) = fd_buffered_bytes d"
  "fd_reassembled_bytes (track_small_segment mx data res d) = fd_reassembled_bytes d"
  by (simp_all add: track_small_segment_def)

lemma count_insert_result_frame:
  "ra_flows (count_insert_result res n key src ts r) = ra_flows r"
  "ra_config (count_insert_result res n key src ts r) = ra_config r"
  "ra_total_memory (count_insert_result res n key src ts r) = ra_total_memory r"
  "st_bytes_reassembled (ra_stats (count_insert_result res n key src ts r)) = st_bytes_reassembled (ra_stats r)"
  by (cases res; simp add: count_insert_result_def generate_conflicting_overlap_finding_def
      generate_truncated_finding_def Let_def)+

lemma count_insert_result_advances: "advances 0 r (count_insert_result res n key src ts r)"
  by (cases res; simp add: count_insert_result_def generate_conflicting_overlap_finding_def
      generate_truncated_finding_def Let_def advances_def held_def engine_frame_def)
     (simp_all add: push_finding_def)

lemma dir_insert:
  assumes "dir_ok c d" and "config_ok c" and "fd_isn d \<noteq> None" and "length data \<le> isize_max"
  obtains d' res where
    "insert_segment d seq data (cfg_max_depth c) (cfg_max_segments_per_direction c) (cfg_max_receive_window c) = Some (d', res)"
    and "dir_ok c d'" and "fd_base_offset d' = fd_base_offset d"
    and "fd_buffered_bytes d \<le> fd_buffered_bytes d'" and "fd_buffered_bytes d' \<le> fd_buffered_bytes d + length data"
proof -
  have ok: "fd_ok (cfg_max_depth c) (cfg_max_segments_per_direction c) d" and st: "fd_started d"
    and dep: "cfg_max_depth c \<le> isize_max"
    using assms(1,2) by (auto simp: dir_ok_def config_ok_def)
  obtain d' res where i: "insert_segment d seq data (cfg_max_depth c) (cfg_max_segments_per_direction c)
        (cfg_max_receive_window c) = Some (d', res)" "fd_ok (cfg_max_depth c) (cfg_max_segments_per_direction c) d'"
      "fd_base_offset d' = fd_base_offset d" "fd_isn d' = fd_isn d"
      "fd_buffered_bytes d \<le> fd_buffered_bytes d'" "fd_buffered_bytes d' \<le> fd_buffered_bytes d + length data"
    using insert_segment_view [OF ok dep assms(4), of seq "cfg_max_receive_window c"] by blast
  have "fd_started d'" using st i(3,4) assms(3) by (auto simp: fd_started_def split: option.splits)
  with i show thesis by (intro that) (simp_all add: dir_ok_def)
qed

lemma insert_payload_segment_step:
  assumes "engine_ok r es" and "hm_get (ra_flows r) key = Some f0"
    and "length (payload p) \<le> isize_max" and "held r + length (payload p) \<le> u64_max"
  obtains r' dir f' where "insert_payload_segment p key tcp ts r = Some (r', dir)" and "engine_ok r' es"
    and "advances (length (payload p)) r r'" and "hm_get (ra_flows r') key = Some f'"
proof -
  let ?c = "ra_config r" and ?f = "join_midstream p tcp f0"
  let ?dir = "flow_direction_of ?f (src_ip p) (tf_src_port tcp)"
  let ?d0 = "get_direction ?dir ?f"
  let ?d1 = "if fd_isn ?d0 = None then infer_isn (tf_seq tcp) ?d0 else ?d0"
  let ?g = "set_direction ?dir ?d1 ?f"
  let ?r1 = "if fl_state f0 = New then bump st_flows_partial_update r else r"
  note ok = engine_okD [OF assms(1)]
  have q0: "quiet ?c key f0 ?f" using ok(3) [OF assms(2)] by (intro quiet_handshake quiet_refl)
  have dok: "dir_ok ?c ?d0" using quietD [OF q0] by (simp add: flow_ok_def)
  have q: "quiet ?c key f0 ?g"
    using quiet_transitions(8) [OF q0] quiet_trans [OF q0 quiet_set_direction [OF quietD [OF q0] dok]] by simp
  have d1: "dir_ok ?c ?d1" "fd_isn ?d1 \<noteq> None"
    using dir_ok_isn(2) [OF dok] dok by (auto simp: infer_isn_def)
  obtain d2 res where ins: "insert_segment ?d1 (tf_seq tcp) (payload p) (cfg_max_depth ?c)
        (cfg_max_segments_per_direction ?c) (cfg_max_receive_window ?c) = Some (d2, res)"
      and d2: "dir_ok ?c d2" "fd_base_offset d2 = fd_base_offset ?d1"
      and b: "fd_buffered_bytes ?d1 \<le> fd_buffered_bytes d2" "fd_buffered_bytes d2 \<le> fd_buffered_bytes ?d1 + length (payload p)"
    by (rule dir_insert [OF d1(1) ok(1) d1(2) assms(3)])
  let ?add = "fd_buffered_bytes d2 - fd_buffered_bytes ?d1"
  let ?d3 = "track_small_segment (cfg_small_segment_max_bytes ?c) (payload p) res d2"
  let ?h = "set_direction ?dir ?d3 ?f"
  define r2 where "r2 = (put_flow key ?h ?r1)\<lparr>ra_total_memory := ra_total_memory r + ?add\<rparr>"
  have add: "?add \<le> length (payload p)" using b by linarith
  have lim: "ra_total_memory r + ?add \<le> u64_max" using add assms(4) by (simp add: held_def)
  have d3: "dir_ok ?c ?d3" by (rule dir_ok_cong [OF d2(1)]) simp_all
  have mem: "flow_mem ?h = flow_mem f0 + ?add"
    using flow_mem_set_direction [of ?dir ?d3 ?f] flow_mem_set_direction [of ?dir ?d1 ?f] q b(1)
    by (simp add: quiet_def)
  have base: "fd_base_offset (get_direction dr ?h) - 1 = fd_base_offset (get_direction dr f0) - 1" for dr
    using q d2(2) unfolding quiet_def by (metis get_set_direction track_small_segment_frame(2))
  have "engine_ok r2 (es @ [])"
  proof (rule engine_ok_write [OF assms(1,2)])
    show "flow_ok (ra_config r) key ?h" using quietD [OF q0] d3 by (rule flow_ok_set_direction)
    show "ra_total_memory r2 + flow_mem f0 = ra_total_memory r + flow_mem ?h" by (simp add: r2_def mem)
    show "fold trace_step [] (delivered es) (key, dr) = fd_base_offset (get_direction dr ?h) - 1" for dr
      unfolding base using ok(7) assms(2) by (simp add: position_def)
    show "ra_total_memory r2 + st_bytes_reassembled (ra_stats r2) \<le> u64_max"
      using add assms(4) by (simp add: r2_def held_def)
  qed (simp_all add: r2_def trace_bytes_def)
  then have ok2: "engine_ok r2 es" by simp
  let ?r' = "count_insert_result res ?add key (src_ip p) ts r2"
  have ok': "engine_ok ?r' es" by (rule engine_ok_cong [OF ok2]) (simp_all add: count_insert_result_frame)
  have "advances (length (payload p)) r r2"
    using add by (simp add: advances_def engine_frame_def held_def r2_def)
  from advances_trans [OF this count_insert_result_advances] have adv: "advances (length (payload p)) r ?r'" by simp
  have get: "hm_get (ra_flows ?r') key = Some ?h"
    by (simp add: count_insert_result_frame r2_def hmap.get_put [OF ok(2)])
  have "insert_payload_segment p key tcp ts r = Some (?r', ?dir)"
    unfolding insert_payload_segment_def Let_def assms(2) using ins lim by (simp add: r2_def)
  then show thesis by (rule that [OF _ ok' adv get])
qed

text \<open>A threshold check either does nothing or flips a latch and pushes a finding.\<close>

definition latched :: "flow_direction \<Rightarrow> reassembler \<Rightarrow> flow_direction \<times> reassembler \<Rightarrow> bool" where
  "latched d r dr \<longleftrightarrow> dr = (d, r) \<or>
     (\<exists>fi. snd dr = push_finding fi r) \<and> fd_isn (fst dr) = fd_isn d \<and> fd_base_offset (fst dr) = fd_base_offset d \<and>
     fd_segments (fst dr) = fd_segments d \<and> fd_buffered_bytes (fst dr) = fd_buffered_bytes d \<and>
     fd_reassembled_bytes (fst dr) = fd_reassembled_bytes d"

lemma latched_intros:
  "latched d r (d, r)"
  "fd_isn d' = fd_isn d \<Longrightarrow> fd_base_offset d' = fd_base_offset d \<Longrightarrow> fd_segments d' = fd_segments d \<Longrightarrow>
   fd_buffered_bytes d' = fd_buffered_bytes d \<Longrightarrow> fd_reassembled_bytes d' = fd_reassembled_bytes d \<Longrightarrow>
   latched d r (d', push_finding fi r)"
  "latched d r x \<Longrightarrow> latched d r y \<Longrightarrow> latched d r (if b then x else y)"
  by (auto simp: latched_def)

lemma checks_latched:
  "latched d r (check_overlap key src dir ts (d, r))"
  "latched d r (check_small_segments key src dir ts (d, r))"
  "latched d r (check_out_of_window key src dir ts (d, r))"
  unfolding check_overlap_def check_small_segments_def check_out_of_window_def Let_def prod.case
  by (intro latched_intros; simp)+

lemma latched_frame:
  assumes "latched d r (d', r')"
  shows "dir_ok c d \<Longrightarrow> dir_ok c d'" and "fd_buffered_bytes d' = fd_buffered_bytes d"
    and "fd_base_offset d' = fd_base_offset d" and "ra_flows r' = ra_flows r"
    and "engine_ok r es \<Longrightarrow> engine_ok r' es" and "advances 0 r r'"
proof -
  have "engine_ok r es \<Longrightarrow> engine_ok (push_finding fi r) es" for fi by (erule engine_ok_cong) simp_all
  then show "engine_ok r es \<Longrightarrow> engine_ok r' es" using assms by (auto simp: latched_def)
  show "dir_ok c d \<Longrightarrow> dir_ok c d'" using assms dir_ok_cong [of c d d'] by (auto simp: latched_def)
qed (use assms advances_push_finding in \<open>auto simp: latched_def\<close>)

lemma check_anomaly_thresholds_step:
  assumes "engine_ok r es" and "hm_get (ra_flows r) key = Some f"
  obtains r' f' where "check_anomaly_thresholds p key dir ts r = Some r'" and "engine_ok r' es"
    and "advances 0 r r'" and "hm_get (ra_flows r') key = Some f'"
proof -
  let ?d = "get_direction dir f"
  obtain d1 r1 where c1: "check_overlap key (src_ip p) dir ts (?d, r) = (d1, r1)" by force
  obtain d2 r2 where c2: "check_small_segments key (src_ip p) dir ts (d1, r1) = (d2, r2)" by force
  obtain d3 r3 where c3: "check_out_of_window key (src_ip p) dir ts (d2, r2) = (d3, r3)" by force
  note f1 = latched_frame [OF checks_latched(1) [of ?d r key "src_ip p" dir ts, unfolded c1]]
  note f2 = latched_frame [OF checks_latched(2) [of d1 r1 key "src_ip p" dir ts, unfolded c2]]
  note f3 = latched_frame [OF checks_latched(3) [of d2 r2 key "src_ip p" dir ts, unfolded c3]]
  have ok3: "engine_ok r3 es" using f3(5) [OF f2(5) [OF f1(5) [OF assms(1)]]] .
  have get3: "hm_get (ra_flows r3) key = Some f" using f1(4) f2(4) f3(4) assms(2) by simp
  have adv: "advances 0 r r3" using advances_trans [OF advances_trans [OF f1(6) f2(6)] f3(6)] by simp
  have fok: "flow_ok (ra_config r3) key f" using engine_okD(3) [OF ok3 get3] .
  have "dir_ok (ra_config r3) ?d" using fok by (simp add: flow_ok_def)
  then have "dir_ok (ra_config r3) d3" using f1(1) f2(1) f3(1) by blast
  then have "quiet (ra_config r3) key f (set_direction dir d3 f)"
    using f1(2,3) f2(2,3) f3(2,3) by (intro quiet_set_direction [OF fok]) simp_all
  note put = put_quiet [OF ok3 get3 this]
  have "check_anomaly_thresholds p key dir ts r = Some (put_flow key (set_direction dir d3 f) r3)"
    by (simp add: check_anomaly_thresholds_def assms(2) c1 c2 c3)
  moreover have "advances 0 r (put_flow key (set_direction dir d3 f) r3)"
    using advances_trans [OF adv advances_put_flow] by simp
  ultimately show thesis using put by (intro that)
qed

lemma flush_contiguous_data_step:
  assumes "engine_ok r es" and "hm_get (ra_flows r) key = Some f"
  obtains r' es' f' where "flush_contiguous_data recorder key dir ts (r, es) = Some (r', es')" and "engine_ok r' es'"
    and "advances 0 r r'" and "hm_get (ra_flows r') key = Some f'" and "fl_state f' = fl_state f"
proof -
  note ok = engine_okD [OF assms(1)]
  let ?d = "get_direction dir f"
  have fok: "flow_ok (ra_config r) key f" using ok(3) assms(2) .
  then have dok: "dir_ok (ra_config r) ?d" by (simp add: flow_ok_def)
  obtain d' ch where fl: "flush_contiguous ?d = Some (d', ch)" and d': "dir_ok (ra_config r) d'"
      and dr: "drains ?d ch d'"
      and wf: "\<And>cnt key dir ts. cnt (key, dir) = fd_base_offset ?d - 1 \<Longrightarrow> wf_from cnt (chunk_events key dir ts ch)"
      and base: "fd_base_offset d' - 1 = fd_base_offset ?d - 1 + length (chunk_bytes ch)"
    by (rule flush_dir [OF dok ok(1)]) blast
  let ?n = "length (chunk_bytes ch)" and ?f' = "set_direction dir d' f" and ?new = "chunk_events key dir ts ch"
  have buf: "fd_buffered_bytes ?d = fd_buffered_bytes d' + ?n" using drainsD(6) [OF dr] .
  have "flow_mem f \<le> ra_total_memory r"
    using hmap.weight_remove [OF ok(2), of flow_mem key] assms(2) ok(4) by simp
  then have n: "?n \<le> ra_total_memory r" using buf flow_mem_get [of dir f] by linarith
  then have b: "st_bytes_reassembled (ra_stats r) + ?n \<le> u64_max" using ok(9) by linarith
  define r' where "r' = (put_flow key ?f' r)\<lparr>ra_total_memory := ra_total_memory r - ?n,
      ra_stats := (ra_stats r)\<lparr>st_bytes_reassembled := st_bytes_reassembled (ra_stats r) + ?n\<rparr>\<rparr>"
  have eq: "flush_contiguous_data recorder key dir ts (r, es) = Some (r', es @ ?new)"
    using assms(2) fl buf n b by (simp add: flush_contiguous_data_def deliver_recorder r'_def Let_def)
  have pos: "delivered es (key, dr) = fd_base_offset (get_direction dr f) - 1" for dr
    using ok(7) assms(2) by (simp add: position_def)
  have "engine_ok r' (es @ ?new)"
  proof (rule engine_ok_write [OF assms])
    show "flow_ok (ra_config r) key ?f'" using fok d' by (rule flow_ok_set_direction)
    show "ra_total_memory r' + flow_mem f = ra_total_memory r + flow_mem ?f'"
      using flow_mem_set_direction [of dir d' f] buf n by (simp add: r'_def)
    show "wf_from (delivered es) ?new" using wf pos by simp
    show "fold trace_step ?new (delivered es) (key, dr) = fd_base_offset (get_direction dr ?f') - 1" for dr
      using pos base by (simp add: chunk_events_fold)
    show "ra_total_memory r' + st_bytes_reassembled (ra_stats r') \<le> u64_max"
      using ok(9) n by (simp add: r'_def)
  qed (simp_all add: r'_def chunk_events_fold)
  moreover have "advances 0 r r'" using n by (simp add: r'_def advances_def held_def engine_frame_def)
  moreover have "hm_get (ra_flows r') key = Some ?f'" by (simp add: r'_def hmap.get_put [OF ok(2)])
  ultimately show thesis using eq by (intro that [of r' "es @ ?new" ?f']) simp_all
qed

section \<open>The packet\<close>

lemma process_payload_step:
  assumes "engine_ok r es" and "hm_get (ra_flows r) key = Some f"
    and "length (payload p) \<le> isize_max" and "held r + length (payload p) \<le> u64_max"
  obtains r' es' where "process_payload recorder p key tcp ts (r, es) = Some (r', es')" and "engine_ok r' es'"
    and "advances (length (payload p)) r r'"
proof (cases "payload p = []")
  case True
  with assms(1) show thesis by (intro that [of r es]) (simp_all add: process_payload_def)
next
  case False
  obtain r1 dir f1 where 1: "insert_payload_segment p key tcp ts r = Some (r1, dir)" "engine_ok r1 es"
      "advances (length (payload p)) r r1" "hm_get (ra_flows r1) key = Some f1"
    by (rule insert_payload_segment_step [OF assms])
  obtain r2 f2 where 2: "check_anomaly_thresholds p key dir ts r1 = Some r2" "engine_ok r2 es"
      "advances 0 r1 r2" "hm_get (ra_flows r2) key = Some f2"
    by (rule check_anomaly_thresholds_step [OF 1(2,4)])
  obtain r3 es3 f3 where 3: "flush_contiguous_data recorder key dir ts (r2, es) = Some (r3, es3)" "engine_ok r3 es3"
      "advances 0 r2 r3" "hm_get (ra_flows r3) key = Some f3" "fl_state f3 = fl_state f2"
    by (rule flush_contiguous_data_step [OF 2(2,4)])
  have "advances (length (payload p)) r r3"
    using advances_trans [OF advances_trans [OF 1(3) 2(3)] 3(3)] by simp
  with False 1(1) 2(1) 3 show thesis by (intro that [of r3 es3]) (simp_all add: process_payload_def)
qed

lemma close_if_closed_step:
  assumes "engine_ok r es"
  obtains r' es' where "close_if_closed recorder key (r, es) = Some (r', es')" and "engine_ok r' es'"
    and "advances 0 r r'"
proof (cases "\<exists>f. hm_get (ra_flows r) key = Some f \<and> fl_state f = Closed")
  case True
  then obtain f where f: "hm_get (ra_flows r) key = Some f" "fl_state f = Closed" by blast
  let ?r = "bump st_flows_fin_update r"
  have "engine_ok ?r es" using assms by (rule engine_ok_bump) simp
  then obtain r1 es1 where c: "close_flow recorder key FinClose (?r, es) = Some (r1, es1)" "engine_ok r1 es1"
      "shrinks ?r {key} r1"
    by (rule close_flow_step)
  have "advances 0 r ?r" by (rule advances_bump) simp
  from advances_trans [OF this shrinks_advances [OF c(3)]] have "advances 0 r r1" by simp
  with c f show thesis by (intro that [of r1 es1]) (simp_all add: close_if_closed_def)
next
  case False
  with assms show thesis
    by (intro that [of r es]) (auto simp: close_if_closed_def split: option.split)
qed

lemma enforce_memcap_step:
  assumes "engine_ok r es"
  obtains r' es' where "enforce_memcap recorder (r, es) = Some (r', es')" and "engine_ok r' es'"
    and "advances 0 r r'" and "ra_total_memory r' \<le> cfg_memcap (ra_config r')"
proof (cases "cfg_memcap (ra_config r) < ra_total_memory r")
  case True
  obtain n t r1 es1 where e: "evict_flows recorder MemCap (r, es) = Some (r1, es1)" "engine_ok r1 es1"
      "shrinks r (fst ` set (take n (eviction_candidates r))) r1" "within_limits t r1"
    by (rule evict_flows_step [OF assms])
  with True show thesis
    by (intro that [of r1 es1]) (simp_all add: enforce_memcap_def within_limits_def shrinks_advances)
next
  case False
  with assms show thesis by (intro that [of r es]) (simp_all add: enforce_memcap_def)
qed

lemma process_segment_step:
  assumes "engine_ok r es" and "length (payload p) \<le> isize_max" and "held r + length (payload p) \<le> u64_max"
    and "ra_total_memory r \<le> cfg_memcap (ra_config r)"
  obtains r' es' where "process_segment recorder p key tcp ts (r, es) = Some (r', es')" and "engine_ok r' es'"
    and "advances (length (payload p)) r r'" and "ra_total_memory r' \<le> cfg_memcap (ra_config r')"
proof -
  obtain r1 es1 f1 where 1: "get_or_create_flow recorder key ts (r, es) = Some ((r1, True), es1)" "engine_ok r1 es1"
      "advances 0 r r1" "hm_get (ra_flows r1) key = Some f1"
    by (rule get_or_create_flow_step [OF assms(1)])
  show thesis
  proof (rule apply_handshake_flags_step [OF 1(2,4), where p = p and tcp = tcp])
    fix r2 es2
    assume 2: "apply_handshake_flags recorder p key tcp (r1, es1) = Some ((r2, FlowClosed), es2)" "engine_ok r2 es2"
      "advances 0 r1 r2"
    have adv: "advances 0 r r2" using advances_trans [OF 1(3) 2(3)] by simp
    then have "ra_total_memory r2 \<le> cfg_memcap (ra_config r2)" "advances (length (payload p)) r r2"
      using assms(4) by (auto simp: advances_def engine_frame_def)
    with 1 2 show thesis by (intro that [of r2 es2]) (simp_all add: process_segment_def)
  next
    fix r2 f2
    assume 2: "apply_handshake_flags recorder p key tcp (r1, es1) = Some ((r2, Continue), es1)" "engine_ok r2 es1"
      "advances 0 r1 r2" "hm_get (ra_flows r2) key = Some f2"
    have adv2: "advances 0 r r2" using advances_trans [OF 1(3) 2(3)] by simp
    then have "held r2 + length (payload p) \<le> u64_max" using assms(3) by (simp add: advances_def)
    then obtain r3 es3 where 3: "process_payload recorder p key tcp ts (r2, es1) = Some (r3, es3)" "engine_ok r3 es3"
        "advances (length (payload p)) r2 r3"
      by (rule process_payload_step [OF 2(2,4) assms(2)])
    obtain r4 es4 where 4: "close_if_closed recorder key (r3, es3) = Some (r4, es4)" "engine_ok r4 es4" "advances 0 r3 r4"
      by (rule close_if_closed_step [OF 3(2)])
    obtain r5 es5 where 5: "enforce_memcap recorder (r4, es4) = Some (r5, es5)" "engine_ok r5 es5" "advances 0 r4 r5"
        "ra_total_memory r5 \<le> cfg_memcap (ra_config r5)"
      by (rule enforce_memcap_step [OF 4(2)])
    have "advances (length (payload p)) r r5"
      using advances_trans [OF advances_trans [OF advances_trans [OF adv2 3(3)] 4(3)] 5(3)] by simp
    with 1 2 3 4 5 show thesis by (intro that [of r5 es5]) (simp_all add: process_segment_def)
  qed
qed

lemma sweep_steps:
  assumes "engine_ok r es"
  shows "\<exists>r' es'. sweep_by_time recorder ts (r, es) = Some (r', es') \<and> engine_ok r' es' \<and>
           advances 0 (r\<lparr>ra_last_expiry_sweep_secs := max (ra_last_expiry_sweep_secs r) ts\<rparr>) r'"
    and "\<exists>r' es'. sweep_by_index recorder (r, es) = Some (r', es') \<and> engine_ok r' es' \<and> advances 0 r r'"
proof -
  show "\<exists>r' es'. sweep_by_index recorder (r, es) = Some (r', es') \<and> engine_ok r' es' \<and> advances 0 r r'"
    using expire_loop_step [OF assms] shrinks_advances assms
    by (auto simp: sweep_by_index_def expire_idle_by_packet_index_def Let_def) blast
  show "\<exists>r' es'. sweep_by_time recorder ts (r, es) = Some (r', es') \<and> engine_ok r' es' \<and>
           advances 0 (r\<lparr>ra_last_expiry_sweep_secs := max (ra_last_expiry_sweep_secs r) ts\<rparr>) r'"
  proof (cases "ra_last_expiry_sweep_secs r < ts")
    case True
    have "engine_ok (r\<lparr>ra_last_expiry_sweep_secs := ts\<rparr>) es" by (rule engine_ok_cong [OF assms]) simp_all
    from expire_loop_step [OF this] shrinks_advances True show ?thesis
      by (auto simp: sweep_by_time_def expire_idle_by_timeout_def Let_def max_def) blast
  next
    case False
    then have "r\<lparr>ra_last_expiry_sweep_secs := max (ra_last_expiry_sweep_secs r) ts\<rparr> = r" by (simp add: max_def)
    with False assms show ?thesis by (simp add: sweep_by_time_def)
  qed
qed

text \<open>What is true between packets.\<close>

definition ready :: "reassembler \<Rightarrow> stream_event list \<Rightarrow> bool" where
  "ready r es \<longleftrightarrow>
     engine_ok r es \<and> ra_total_memory r \<le> cfg_memcap (ra_config r) \<and> length (ra_findings r) \<le> max_findings"

lemma process_packet_step:
  assumes "ready r es" and "length (payload p) \<le> isize_max" and "held r + length (payload p) \<le> u64_max"
    and "ra_packet_index r < u64_max"
  obtains r' es' where "process_packet recorder p ts (r, es) = Some (r', es')" and "ready r' es'"
    and "held r' \<le> held r + length (payload p)" and "ra_packet_index r' = Suc (ra_packet_index r)"
    and "ra_config r' = ra_config r" and "ra_finalized r' = ra_finalized r"
proof -
  note result = that
  let ?r0 = "(bump st_packets_processed_update r)\<lparr>ra_packet_index := Suc (ra_packet_index r)\<rparr>"
  let ?r0' = "?r0\<lparr>ra_last_expiry_sweep_secs := max (ra_last_expiry_sweep_secs ?r0) ts\<rparr>"
  have ok: "engine_ok r es" using assms(1) by (simp add: ready_def)
  have "engine_ok ?r0 es" by (rule engine_ok_cong [OF ok]) simp_all
  from sweep_steps(1) [OF this, of ts] obtain r1 es1
    where 1: "sweep_by_time recorder ts (?r0, es) = Some (r1, es1)" "engine_ok r1 es1" "advances 0 ?r0' r1" by blast
  from sweep_steps(2) [OF 1(2)] obtain r2 es2
    where 2: "sweep_by_index recorder (r1, es1) = Some (r2, es2)" "engine_ok r2 es2" "advances 0 r1 r2" by blast
  have adv: "advances 0 ?r0' r2" using advances_trans [OF 1(3) 2(3)] by simp
  have pre: "process_packet recorder p ts (r, es) =
      (case extract_tcp_context p r2 of (r3, None) \<Rightarrow> Some (r3, es2)
       | (r3, Some (key, tcp)) \<Rightarrow> process_segment recorder p key tcp ts (bump st_packets_tcp_update r3, es2))"
    using assms(4) 1(1) 2(1) by (simp add: process_packet_def)
  have goal: thesis if g: "process_packet recorder p ts (r, es) = Some (r', es')" "engine_ok r' es'"
    "advances (length (payload p)) r2 r'" "ra_total_memory r' \<le> cfg_memcap (ra_config r')" for r' es'
  proof -
    have "advances (length (payload p)) ?r0' r'" using advances_trans [OF adv g(3)] by simp
    then show thesis
      using g assms(1) by (intro result [OF g(1)]) (auto simp: ready_def advances_def engine_frame_def held_def)
  qed
  have mem: "ra_total_memory r2 \<le> cfg_memcap (ra_config r2)" "held r2 \<le> held r"
    using adv assms(1) by (auto simp: advances_def engine_frame_def ready_def held_def)
  show thesis
  proof (cases "snd (extract_tcp_context p r2)")
    case None
    let ?r3 = "fst (extract_tcp_context p r2)"
    have r3: "?r3 = r2 \<or> ?r3 = bump st_packets_skipped_non_tcp_update r2"
      by (auto simp: extract_tcp_context_def split: transport_info.split)
    have "engine_ok ?r3 es2" by (rule engine_ok_cong [OF 2(2)]) (use r3 in auto)
    moreover have "advances (length (payload p)) r2 ?r3" using r3 by (auto simp: advances_def held_def)
    moreover have "ra_total_memory ?r3 \<le> cfg_memcap (ra_config ?r3)" using r3 mem by auto
    moreover have "process_packet recorder p ts (r, es) = Some (?r3, es2)"
      using None pre by (cases "extract_tcp_context p r2") simp
    ultimately show thesis by (intro goal [of ?r3 es2])
  next
    case (Some kt)
    obtain key tcp where kt: "kt = (key, tcp)" by force
    let ?r3 = "bump st_packets_tcp_update r2"
    have x: "extract_tcp_context p r2 = (r2, Some (key, tcp))"
      using Some kt by (auto simp: extract_tcp_context_def split: if_splits transport_info.splits)
    have ok3: "engine_ok ?r3 es2" by (rule engine_ok_cong [OF 2(2)]) simp_all
    have "held ?r3 + length (payload p) \<le> u64_max" "ra_total_memory ?r3 \<le> cfg_memcap (ra_config ?r3)"
      using mem assms(3) by (simp_all add: held_def)
    from process_segment_step [OF ok3 assms(2) this] obtain r4 es4
      where 4: "process_segment recorder p key tcp ts (?r3, es2) = Some (r4, es4)" "engine_ok r4 es4"
        "advances (length (payload p)) ?r3 r4" "ra_total_memory r4 \<le> cfg_memcap (ra_config r4)" by metis
    have "advances 0 r2 ?r3" by (rule advances_bump) simp
    from advances_trans [OF this 4(3)] have "advances (length (payload p)) r2 r4" by simp
    with 4 x pre show thesis by (intro goal [of r4 es4]) simp_all
  qed
qed

end
