(* ===== verification/Engine_Run.thy ===== *)
theory Engine_Run
  imports Engine_Packet
begin

text \<open>
  Whole captures, and the contract between the engine and a handler: a handler whose
  callbacks keep an invariant and do not panic can be driven by the engine through
  any capture.
\<close>

section \<open>Captures\<close>

definition capture_bytes :: "(parsed_packet \<times> u32) list \<Rightarrow> nat" where
  "capture_bytes ps = sum_list (map (\<lambda>(p, ts). length (payload p)) ps)"

text \<open>What the engine relies on of a capture: buffers of at most \<open>isize::MAX\<close> bytes, and
  totals that a 64-bit counter can hold.\<close>

definition capture_ok :: "(parsed_packet \<times> u32) list \<Rightarrow> bool" where
  "capture_ok ps \<longleftrightarrow>
     (\<forall>(p, ts) \<in> set ps. length (payload p) \<le> isize_max) \<and> capture_bytes ps \<le> u64_max \<and> length ps \<le> u64_max"

lemma process_packets_step:
  assumes "ready r es" and "\<forall>(p, ts) \<in> set ps. length (payload p) \<le> isize_max"
    and "held r + capture_bytes ps \<le> u64_max" and "ra_packet_index r + length ps \<le> u64_max"
  shows "\<exists>r' es'. process_packets recorder ps (r, es) = Some (r', es') \<and> ready r' es' \<and>
           held r' \<le> held r + capture_bytes ps \<and> ra_config r' = ra_config r \<and> ra_finalized r' = ra_finalized r \<and>
           ra_packet_index r' = ra_packet_index r + length ps"
  using assms
proof (induction ps arbitrary: r es)
  case Nil
  then show ?case by simp
next
  case (Cons q ps)
  obtain p ts where q: "q = (p, ts)" by force
  have n: "length (payload p) \<le> isize_max" "held r + length (payload p) \<le> u64_max" "ra_packet_index r < u64_max"
    using Cons.prems(2-4) by (auto simp: q capture_bytes_def)
  obtain r1 es1 where s: "process_packet recorder p ts (r, es) = Some (r1, es1)" "ready r1 es1"
      "held r1 \<le> held r + length (payload p)" "ra_packet_index r1 = Suc (ra_packet_index r)"
      "ra_config r1 = ra_config r" "ra_finalized r1 = ra_finalized r"
    by (rule process_packet_step [OF Cons.prems(1) n])
  have "held r1 + capture_bytes ps \<le> u64_max" "ra_packet_index r1 + length ps \<le> u64_max"
    using Cons.prems(3,4) s(3,4) by (auto simp: q capture_bytes_def)
  with Cons.IH [OF s(2)] Cons.prems(2) obtain r2 es2
    where "process_packets recorder ps (r1, es1) = Some (r2, es2)" "ready r2 es2"
      "held r2 \<le> held r1 + capture_bytes ps" "ra_config r2 = ra_config r1" "ra_finalized r2 = ra_finalized r1"
      "ra_packet_index r2 = ra_packet_index r1 + length ps" by auto
  with s show ?case by (auto simp: q capture_bytes_def)
qed

lemma new_engine:
  assumes "config_ok c"
  obtains r where "reassembler_new seed c = Some r" and "ready r []" and "held r = 0" and "ra_packet_index r = 0"
    and "ra_config r = c" and "\<not> ra_finalized r"
proof -
  let ?r = "\<lparr>ra_config = c, ra_flows = [], ra_stats = reassembly_stats_default,
                 ra_findings = [], ra_total_memory = 0, ra_finalized = False,
                 ra_last_expiry_sweep_secs = 0, ra_packet_index = 0, ra_seed = seed\<rparr>"
  have "position ?r = (\<lambda>_. 0)" by (simp add: position_def hm_get_def fun_eq_iff)
  then have "ready ?r []"
    using assms by (simp add: ready_def engine_ok_def reassembly_stats_default_def)
  moreover have "reassembler_new seed c = Some ?r" using assms by (simp add: reassembler_new_def config_ok_def)
  ultimately show thesis by (intro that [of ?r]) (simp_all add: held_def reassembly_stats_default_def)
qed

section \<open>End of the capture\<close>

lemma close_all_step:
  assumes "engine_ok r es"
  shows "\<exists>r' es'. close_all recorder ks (r, es) = Some (r', es') \<and> engine_ok r' es' \<and> shrinks r (set ks) r'"
  using assms
proof (induction ks arbitrary: r es)
  case Nil
  then show ?case by (simp add: shrinks_def)
next
  case (Cons k ks)
  obtain r1 es1 where c: "close_flow recorder k TimeoutClose (r, es) = Some (r1, es1)" "engine_ok r1 es1"
      "shrinks r {k} r1"
    by (rule close_flow_step [OF Cons.prems])
  obtain r2 es2 where e: "close_all recorder ks (r1, es1) = Some (r2, es2)" "engine_ok r2 es2" "shrinks r1 (set ks) r2"
    using Cons.IH [OF c(2)] by blast
  have "shrinks r (set (k # ks)) r2" using shrinks_trans [OF c(3) e(3)] by simp
  with c(1) e show ?case by auto
qed

lemma finalize_step:
  assumes "engine_ok r es" and "\<not> ra_finalized r"
  obtains r' es' where "finalize recorder (r, es) = Some (r', es')" and "engine_ok r' es'"
    and "ra_flows r' = []" and "ra_total_memory r' = 0" and "ra_finalized r'" and "held r' \<le> held r"
    and "ra_findings r' = ra_findings r @
           (if st_segments_segment_limit (ra_stats r) > 0
            then [segment_limit_finding (st_segments_segment_limit (ra_stats r))] else [])"
proof -
  let ?r0 = "r\<lparr>ra_finalized := True\<rparr>" and ?ks = "map fst (hm_iter (ra_seed r) (ra_flows r))"
  have "engine_ok ?r0 es" by (rule engine_ok_cong [OF assms(1)]) simp_all
  from close_all_step [OF this, of ?ks] obtain r1 es1
    where c: "close_all recorder ?ks (?r0, es) = Some (r1, es1)" "engine_ok r1 es1" "shrinks ?r0 (set ?ks) r1" by blast
  have empty: "ra_flows r1 = []" using c(3) without_all [of "ra_flows r"] by (simp add: shrinks_def)
  let ?n = "st_segments_segment_limit (ra_stats r1)"
  let ?r2 = "if 0 < ?n then r1\<lparr>ra_findings := ra_findings r1 @ [segment_limit_finding ?n]\<rparr> else r1"
  have eq: "finalize recorder (r, es) = Some (?r2, es1)" using assms(2) c(1) by (simp add: finalize_def Let_def)
  have ok: "engine_ok ?r2 es1" by (rule engine_ok_cong [OF c(2)]) simp_all
  have "ra_total_memory r1 = 0" using engine_okD(4) [OF c(2)] empty by simp
  with c(3) empty show thesis by (intro that [OF eq ok]) (auto simp: shrinks_def engine_frame_def held_def)
qed

section \<open>The handler's side\<close>

text \<open>The recorder only ever appends.\<close>

lemma replays_extends:
  assumes "replays H f g" and "g es = Some (y, es')"
  shows "\<exists>new. es' = es @ new \<and> g [] = Some (y, new)"
proof -
  have "g es = do { (y, new) \<leftarrow> g []; Some (y, es @ new) }" using assms(1) unfolding replays_def by blast
  with assms(2) show ?thesis by (cases "g []") auto
qed

text \<open>
  The contract of a handler. The invariant is indexed by the number of bytes the
  handler must still be able to take, so that a handler with counters of a fixed
  width can state how far they reach.
\<close>

locale stream_client =
  fixes H :: "'h stream_handler" and I :: "nat \<Rightarrow> 'h \<Rightarrow> bool"
  assumes on_data_safe: "I (n + length data) h \<Longrightarrow> \<exists>h'. on_data H h key dir data off ts = Some h' \<and> I n h'"
    and on_flow_close_safe: "I n h \<Longrightarrow> \<exists>h'. on_flow_close H h key reason = Some h' \<and> I n h'"
    and budget_mono: "I (n + k) h \<Longrightarrow> I n h"
begin

lemma handle_event_safe: "I (n + event_bytes e) h \<Longrightarrow> \<exists>h'. handle_event H e h = Some h' \<and> I n h'"
  using on_data_safe on_flow_close_safe by (cases e) auto

lemma replay_safe: "I (n + trace_bytes es) h \<Longrightarrow> \<exists>h'. replay H es h = Some h' \<and> I n h'"
proof (induction es arbitrary: h)
  case (Cons e es)
  have "n + trace_bytes (e # es) = n + trace_bytes es + event_bytes e" by (simp add: trace_bytes_def)
  with Cons.prems obtain h1 where "handle_event H e h = Some h1" "I (n + trace_bytes es) h1"
    using handle_event_safe by metis
  with Cons.IH show ?case by auto
qed simp

text \<open>Any operation of the engine that the recorder survives, the client survives.\<close>

lemma replays_safe:
  assumes "replays H f g" and "g es = Some (y, es @ new)" and "I (n + trace_bytes new) h"
  shows "\<exists>h'. f h = Some (y, h') \<and> I n h' \<and> replay H new h = Some h'"
proof -
  have "g [] = Some (y, new)" using replays_extends [OF assms(1,2)] by simp
  moreover obtain h' where "replay H new h = Some h'" "I n h'" using replay_safe [OF assms(3)] by blast
  moreover have "f h = do { (y, new) \<leftarrow> g []; h' \<leftarrow> replay H new h; Some (y, h') }"
    using assms(1) unfolding replays_def by blast
  ultimately show ?thesis by simp
qed

text \<open>A whole capture, from a fresh engine.\<close>

lemma capture_safe:
  assumes "config_ok c" and "capture_ok ps" and "I (capture_bytes ps) h"
  obtains r r' h' es where "reassembler_new seed c = Some r" and "process_packets H ps (r, h) = Some (r', h')"
    and "ready r' es" and "ra_config r' = c" and "replay H es h = Some h'" and "trace_bytes es \<le> capture_bytes ps"
    and "\<not> ra_finalized r'" and "I (capture_bytes ps - trace_bytes es) h'" and "held r' \<le> capture_bytes ps"
proof -
  obtain r where r: "reassembler_new seed c = Some r" "ready r []" "held r = 0" "ra_packet_index r = 0"
      "ra_config r = c" "\<not> ra_finalized r"
    by (rule new_engine [OF assms(1)])
  from process_packets_step [OF r(2), of ps] assms(2) r(3,4) obtain r' es
    where p: "process_packets recorder ps (r, []) = Some (r', es)" "ready r' es" "held r' \<le> capture_bytes ps"
      "ra_config r' = c" "\<not> ra_finalized r'"
    using r(5,6) by (auto simp: capture_ok_def)
  have tb: "trace_bytes es \<le> capture_bytes ps"
    using p(2,3) by (simp add: ready_def engine_ok_def held_def)
  then have "I (capture_bytes ps - trace_bytes es + trace_bytes es) h" using assms(3) by simp
  from replays_safe [OF process_packets_replays _ this, of ps r "[]" r'] p(1)
  obtain h' where "process_packets H ps (r, h) = Some (r', h')" "I (capture_bytes ps - trace_bytes es) h'"
      "replay H es h = Some h'" by auto
  with r(1) p tb show thesis by (intro that)
qed

text \<open>The same with the end of the capture: every flow is closed, and what the handler was given is a
  trace the engine vouches for.\<close>

lemma run_safe:
  assumes "config_ok c" and "capture_ok ps" and "I (capture_bytes ps) h"
  obtains r r1 h1 r2 h2 es where "reassembler_new seed c = Some r" and "process_packets H ps (r, h) = Some (r1, h1)"
    and "finalize H (r1, h1) = Some (r2, h2)" and "engine_ok r2 es" and "ra_flows r2 = []" and "replay H es h = Some h2"
    and "I 0 h2"
proof -
  obtain r r1 h1 es where c: "reassembler_new seed c = Some r" "process_packets H ps (r, h) = Some (r1, h1)"
      and ok: "ready r1 es" and rp: "replay H es h = Some h1" and nf: "\<not> ra_finalized r1"
      and i: "I (capture_bytes ps - trace_bytes es) h1" and hd: "held r1 \<le> capture_bytes ps"
    by (rule capture_safe [OF assms])
  have eok: "engine_ok r1 es" using ok by (simp add: ready_def)
  obtain r2 es2 where f: "finalize recorder (r1, es) = Some (r2, es2)" "engine_ok r2 es2" "ra_flows r2 = []" "held r2 \<le> held r1"
    by (rule finalize_step [OF eok nf])
  obtain new where e: "es2 = es @ new"
    using replays_extends [OF finalize_replays [of H r1] f(1)] by blast
  have "trace_bytes es + trace_bytes new \<le> capture_bytes ps"
    using f(2,4) hd by (simp add: e engine_ok_def held_def)
  then have "I (0 + (capture_bytes ps - trace_bytes es - trace_bytes new) + trace_bytes new) h1" using i by simp
  from replays_safe [OF finalize_replays f(1) [unfolded e] this] obtain h2
    where h: "finalize H (r1, h1) = Some (r2, h2)" "I (0 + (capture_bytes ps - trace_bytes es - trace_bytes new)) h2"
      "replay H new h1 = Some h2" by blast
  have "replay H es2 h = Some h2" using rp h(3) by (simp add: e replay_append)
  with c h(1) f(2,3) budget_mono [OF h(2)] show thesis by (intro that)
qed

end

interpretation recording: stream_client recorder "\<lambda>_ _. True"
  by unfold_locales simp_all

end
