(* ===== verification/Engine_Close.thy ===== *)
theory Engine_Close
  imports Engine_Run
begin

text \<open>
  What the engine tells its handler when flows end: the events of a close, of the loops that close several flows, and
  the point at which eviction stops.
\<close>

section \<open>The events of a close\<close>

text \<open>The bytes that are still contiguous, client first, then the close itself.\<close>

definition final_events :: "close_reason \<Rightarrow> flow_key \<Rightarrow> tcp_flow \<Rightarrow> stream_event list" where
  "final_events reason key f =
     (let rest = (\<lambda>dir. chunk_events key dir (fl_last_seen f) (snd (the (flush_contiguous (get_direction dir f)))))
      in rest ClientToServer @ rest ServerToClient @ [CloseEvent key reason])"

lemma final_events_last: "\<exists>new. final_events reason key f = new @ [CloseEvent key reason]"
  by (simp add: final_events_def Let_def)

lemma deliver_events: "deliver recorder key dir ts ch (s, es) = Some (s', es') \<Longrightarrow> es' = es @ chunk_events key dir ts ch"
proof (induction ch arbitrary: s es)
  case (Cons c ch)
  obtain off data where "c = (off, data)" by fastforce
  then show ?case using Cons.prems Cons.IH [of _ "es @ [DataEvent key dir data off ts]"] by (auto split: bind_splits)
qed simp

lemma close_flow_events:
  assumes "hm_get (ra_flows r) key = Some f" and "close_flow recorder key reason (r, es) = Some (r', es')"
  shows "es' = es @ final_events reason key f" "ra_flows r' = hm_remove key (ra_flows r)"
proof -
  show "es' = es @ final_events reason key f"
    using assms by (auto simp: close_flow_def final_events_def Let_def split: bind_splits prod.splits dest!: deliver_events)
  show "ra_flows r' = hm_remove key (ra_flows r)"
    using assms by (auto simp: close_flow_def Let_def split: bind_splits prod.splits)
qed

text \<open>The endings of the flows named by a list of keys.\<close>

definition endings :: "close_reason \<Rightarrow> (flow_key, tcp_flow) hash_map \<Rightarrow> flow_key list \<Rightarrow> stream_event list" where
  "endings reason fs ks = concat (map (\<lambda>k. final_events reason k (the (hm_get fs k))) ks)"

lemma endings_simps [simp]:
  "endings reason fs [] = []" "endings reason fs (k # ks) = final_events reason k (the (hm_get fs k)) @ endings reason fs ks"
  by (simp_all add: endings_def)

lemma endings_remove: "hm_ok fs \<Longrightarrow> k \<notin> set ks \<Longrightarrow> endings reason (hm_remove k fs) ks = endings reason fs ks"
  unfolding endings_def by (intro arg_cong [where f = concat] map_cong) (auto simp del: without_simps simp: hmap.get_remove)

lemma close_all_events:
  assumes "distinct ks" and "hm_ok (ra_flows r)" and "\<forall>k \<in> set ks. hm_get (ra_flows r) k \<noteq> None"
    and "close_all recorder ks (r, es) = Some (r', es')"
  shows "es' = es @ endings TimeoutClose (ra_flows r) ks"
  using assms
proof (induction ks arbitrary: r es)
  case (Cons k ks)
  obtain f where f: "hm_get (ra_flows r) k = Some f" using Cons.prems(3) by auto
  obtain r1 es1 where c: "close_flow recorder k TimeoutClose (r, es) = Some (r1, es1)" "close_all recorder ks (r1, es1) = Some (r', es')"
    using Cons.prems(4) by (auto split: bind_splits)
  note e = close_flow_events [OF f c(1)]
  have "es' = es1 @ endings TimeoutClose (ra_flows r1) ks"
    using Cons.prems(1-3) e(2) by (intro Cons.IH [OF _ _ _ c(2)]) (auto simp del: without_simps simp: hm_ok_remove hmap.get_remove)
  then show ?case using e f Cons.prems(1,2) by (simp add: endings_remove del: without_simps)
qed simp

lemma hm_iter_keys:
  assumes "hm_ok m"
  shows "distinct (map fst (hm_iter seed m))" "\<forall>k \<in> set (map fst (hm_iter seed m)). hm_get m k \<noteq> None"
  using distinct_hm_iter [OF assms] hmap.get_iff [OF assms] by auto

lemma endings_all:
  assumes "hm_ok m"
  shows "endings reason m (map fst (hm_iter seed m)) = concat (map (\<lambda>(k, f). final_events reason k f) (hm_iter seed m))"
  unfolding endings_def map_map comp_def
  by (intro arg_cong [where f = concat] map_cong) (auto simp: hmap.get_iff [OF assms, symmetric])

lemma finalize_events:
  assumes "engine_ok r es" and "\<not> ra_finalized r" and "finalize recorder (r, es) = Some (r', es')"
  shows "es' = es @ concat (map (\<lambda>(k, f). final_events TimeoutClose k f) (hm_iter (ra_seed r) (ra_flows r)))"
proof -
  note ok = engine_okD(2) [OF assms(1)]
  obtain r1 where "close_all recorder (map fst (hm_iter (ra_seed r) (ra_flows r))) (r\<lparr>ra_finalized := True\<rparr>, es) = Some (r1, es')"
    using assms(2,3) by (auto simp: finalize_def Let_def split: bind_splits)
  from close_all_events [OF hm_iter_keys(1) [OF ok] _ _ this] show ?thesis using hm_iter_keys(2) [OF ok] ok endings_all [OF ok] by simp
qed

section \<open>Where eviction stops\<close>

definition table_fits :: "reassembly_config \<Rightarrow> usize \<Rightarrow> (flow_key, tcp_flow) hash_map \<Rightarrow> bool" where
  "table_fits c target fs \<longleftrightarrow> weight flow_mem fs \<le> cfg_memcap c \<and> length fs \<le> target"

lemma evict_loop_exact:
  assumes "engine_ok r es" and "distinct (map fst cs)" and "\<forall>c \<in> set cs. hm_get (ra_flows r) (fst c) \<noteq> None"
    and "evict_loop recorder t cs (r, es) = Some (r', es')"
  shows "\<exists>n \<le> length cs. ra_flows r' = without (fst ` set (take n cs)) (ra_flows r) \<and>
     es' = es @ endings MemoryPressureClose (ra_flows r) (map fst (take n cs)) \<and>
     (\<forall>m < n. \<not> table_fits (ra_config r) t (without (fst ` set (take m cs)) (ra_flows r))) \<and>
     (n < length cs \<longrightarrow> table_fits (ra_config r) t (ra_flows r'))"
  using assms
proof (induction cs arbitrary: r es)
  case (Cons c cs)
  obtain k b l where c: "c = (k, b, l)" by (cases c) auto
  note ok = engine_okD [OF Cons.prems(1)]
  have fits: "table_fits (ra_config r) t (ra_flows r) \<longleftrightarrow> ra_total_memory r \<le> cfg_memcap (ra_config r) \<and> length (ra_flows r) \<le> t"
    using ok(4) by (simp add: table_fits_def)
  show ?case
  proof (cases "table_fits (ra_config r) t (ra_flows r)")
    case True
    then show ?thesis using Cons.prems(4) fits by (intro exI [of _ 0]) (auto simp: c)
  next
    case False
    let ?r = "bump st_evictions_update r"
    obtain f where f: "hm_get (ra_flows ?r) k = Some f" using Cons.prems(3) by (auto simp: c)
    have "engine_ok ?r es" using Cons.prems(1) by (rule engine_ok_bump) simp
    then obtain r1 es1 where cl: "close_flow recorder k MemoryPressureClose (?r, es) = Some (r1, es1)" "engine_ok r1 es1" "shrinks ?r {k} r1"
      by (rule close_flow_step)
    have rest: "evict_loop recorder t cs (r1, es1) = Some (r', es')" using Cons.prems(4) False fits cl(1) by (auto simp: c)
    have cfg: "ra_config r1 = ra_config r" using cl(3) by (simp add: shrinks_def engine_frame_def)
    note e = close_flow_events [OF f cl(1), simplified bump_frame]
    have k: "k \<notin> set (map fst cs)" "distinct (map fst cs)" using Cons.prems(2) by (auto simp: c)
    have "\<forall>c \<in> set cs. hm_get (ra_flows r1) (fst c) \<noteq> None"
      using Cons.prems(3) e(2) k(1) by (auto simp del: without_simps simp: hmap.get_remove [OF ok(2)])
    from Cons.IH [OF cl(2) k(2) this rest] obtain n where n: "n \<le> length cs" "ra_flows r' = without (fst ` set (take n cs)) (ra_flows r1)"
        "es' = es1 @ endings MemoryPressureClose (ra_flows r1) (map fst (take n cs))"
        "\<forall>m < n. \<not> table_fits (ra_config r) t (without (fst ` set (take m cs)) (ra_flows r1))"
        "n < length cs \<longrightarrow> table_fits (ra_config r) t (ra_flows r')" unfolding cfg by blast
    have w: "without (fst ` set (take m cs)) (ra_flows r1) = without (fst ` set (take (Suc m) (c # cs))) (ra_flows r)" for m
      using e(2) by (simp add: c)
    have "endings MemoryPressureClose (ra_flows r1) (map fst (take n cs)) = endings MemoryPressureClose (ra_flows r) (map fst (take n cs))"
      using e(2) k(1) in_set_takeD by (fastforce simp del: without_simps intro: endings_remove [OF ok(2)])
    then have "es' = es @ endings MemoryPressureClose (ra_flows r) (map fst (take (Suc n) (c # cs)))" using n(3) e(1) f by (simp add: c)
    moreover have "\<not> table_fits (ra_config r) t (without (fst ` set (take m (c # cs))) (ra_flows r))" if "m < Suc n" for m
      using that False n(4) w by (cases m) auto
    ultimately show ?thesis using n(1,2,5) w by (intro exI [of _ "Suc n"]) auto
  qed
qed auto

lemma candidates_distinct:
  assumes "hm_ok (ra_flows r)"
  shows "distinct (map fst (eviction_candidates r))" "\<forall>c \<in> set (eviction_candidates r). hm_get (ra_flows r) (fst c) \<noteq> None"
proof -
  have "mset (map fst (eviction_candidates r)) = mset (map fst (hm_iter (ra_seed r) (ra_flows r)))"
    unfolding eviction_candidates_def mset_map mset_sort by (simp add: multiset.map_comp comp_def case_prod_unfold)
  then show "distinct (map fst (eviction_candidates r))" using hm_iter_keys(1) [OF assms] mset_eq_imp_distinct_iff by blast
  show "\<forall>c \<in> set (eviction_candidates r). hm_get (ra_flows r) (fst c) \<noteq> None"
    using hmap.get_iff [OF assms] by (auto simp: eviction_candidates_def)
qed

section \<open>Sweeps spare the flows they do not select\<close>

lemma without_selected:
  assumes "hm_ok (ra_flows r)"
  shows "without (set (select_flows P r)) (ra_flows r) = filter (\<lambda>(key, f). \<not> P f) (ra_flows r)"
  unfolding without_def
proof (rule filter_cong [OF refl], clarify)
  fix key f
  assume m: "(key, f) \<in> set (ra_flows r)"
  have "key \<in> set (select_flows P r) \<longleftrightarrow> (\<exists>g. (key, g) \<in> set (ra_flows r) \<and> P g)"
    by (force simp: select_flows_def)
  also have "\<dots> \<longleftrightarrow> P f" using m hmap.get_iff [OF assms, of key] by (metis option.inject)
  finally show "(fst (key, f) \<notin> set (select_flows P r)) = (\<not> P f)" by simp
qed

lemma filtered_get: "hm_ok m \<Longrightarrow> hm_get (filter (\<lambda>(k, f). \<not> P f) m) k = Some f \<longleftrightarrow> hm_get m k = Some f \<and> \<not> P f"
  by (auto simp: hm_get_def hm_ok_def distinct_map_filter)

lemma expire_get:
  assumes "engine_ok r es" and "expire_loop recorder (select_flows P r) (r, es) = Some (r', es')"
  shows "hm_get (ra_flows r') k = Some f \<longleftrightarrow> hm_get (ra_flows r) k = Some f \<and> \<not> P f"
proof -
  have ok: "hm_ok (ra_flows r)" using engine_okD(2) [OF assms(1)] .
  have "ra_flows r' = filter (\<lambda>(key, f). \<not> P f) (ra_flows r)"
    using expire_loop_step [OF assms(1), of "select_flows P r"] without_selected [OF ok, of P] assms(2) by (auto simp: shrinks_def)
  then show ?thesis by (simp add: filtered_get [OF ok])
qed

lemma sweeps_get:
  assumes ok: "engine_ok r es" and t: "sweep_by_time recorder ts (r, es) = Some (r1, es1)" and i: "sweep_by_index recorder (r1, es1) = Some (r2, es2)"
  shows "hm_get (ra_flows r2) k = Some f \<Longrightarrow> hm_get (ra_flows r) k = Some f"
    and "hm_get (ra_flows r) k = Some f \<Longrightarrow> \<not> timed_out (cfg_flow_timeout_secs (ra_config r)) ts f \<Longrightarrow>
      \<not> packet_idle (cfg_idle_packet_threshold (ra_config r)) (ra_packet_index r) f \<Longrightarrow> hm_get (ra_flows r2) k = Some f"
proof -
  have r1: "engine_ok r1 es1" "ra_config r1 = ra_config r" "ra_packet_index r1 = ra_packet_index r"
    using sweep_steps(1) [OF ok, of ts] t by (auto simp: advances_def engine_frame_def)
  have "engine_ok (r\<lparr>ra_last_expiry_sweep_secs := ts\<rparr>) es" by (rule engine_ok_cong [OF ok]) simp_all
  from expire_get [OF this, of "timed_out (cfg_flow_timeout_secs (ra_config r)) ts" r1 es1 k f] t
  have 1: "hm_get (ra_flows r1) k = Some f \<longrightarrow> hm_get (ra_flows r) k = Some f"
    "hm_get (ra_flows r) k = Some f \<and> \<not> timed_out (cfg_flow_timeout_secs (ra_config r)) ts f \<longrightarrow> hm_get (ra_flows r1) k = Some f"
    by (auto simp: sweep_by_time_def expire_idle_by_timeout_def select_flows_def split: if_splits)
  from expire_get [OF r1(1), of "packet_idle (cfg_idle_packet_threshold (ra_config r1)) (ra_packet_index r1)" r2 es2 k f] i
  have 2: "hm_get (ra_flows r2) k = Some f \<longrightarrow> hm_get (ra_flows r1) k = Some f"
    "hm_get (ra_flows r1) k = Some f \<and> \<not> packet_idle (cfg_idle_packet_threshold (ra_config r)) (ra_packet_index r) f \<longrightarrow> hm_get (ra_flows r2) k = Some f"
    by (auto simp: sweep_by_index_def expire_idle_by_packet_index_def r1(2,3) split: if_splits)
  show "hm_get (ra_flows r2) k = Some f \<Longrightarrow> hm_get (ra_flows r) k = Some f" using 1(1) 2(1) by blast
  show "hm_get (ra_flows r) k = Some f \<Longrightarrow> \<not> timed_out (cfg_flow_timeout_secs (ra_config r)) ts f \<Longrightarrow>
      \<not> packet_idle (cfg_idle_packet_threshold (ra_config r)) (ra_packet_index r) f \<Longrightarrow> hm_get (ra_flows r2) k = Some f" using 1(2) 2(2) by blast
qed

section \<open>A packet that carries only a FIN\<close>

text \<open>The flow as the FIN finds it, stamped, and what the FIN makes of it.\<close>

definition fin_flow :: "parsed_packet \<Rightarrow> tcp_fields \<Rightarrow> u32 \<Rightarrow> u64 \<Rightarrow> tcp_flow \<Rightarrow> tcp_flow" where
  "fin_flow p tcp ts idx f = handshake_fin p tcp (f\<lparr>fl_last_seen := ts, fl_last_activity_index := idx\<rparr>)"

definition fin_outcome :: "flow_key \<Rightarrow> tcp_flow \<Rightarrow> reassembler \<Rightarrow> stream_event list \<Rightarrow> bool" where
  "fin_outcome key g r' es' \<longleftrightarrow>
     (if fl_state g = Closed then hm_get (ra_flows r') key = None \<and> (\<exists>new. es' = new @ [CloseEvent key FinClose])
      else hm_get (ra_flows r') key = Some g)"

lemma fin_segment:
  assumes ok: "engine_ok r es" and mem: "ra_total_memory r \<le> cfg_memcap (ra_config r)"
    and tcp: "tf_fin tcp" "\<not> tf_syn tcp" "\<not> tf_rst tcp" "payload p = []"
  shows "\<exists>r' es'. process_segment recorder p key tcp ts (r, es) = Some (r', es') \<and>
    fin_outcome key (fin_flow p tcp ts (ra_packet_index r) (case hm_get (ra_flows r) key of Some f \<Rightarrow> f | None \<Rightarrow> tcp_flow_new key ts)) r' es'"
proof -
  let ?f = "(case hm_get (ra_flows r) key of Some f \<Rightarrow> f | None \<Rightarrow> tcp_flow_new key ts)
     \<lparr>fl_last_seen := ts, fl_last_activity_index := ra_packet_index r\<rparr>"
  let ?g = "handshake_fin p tcp ?f"
  obtain r1 es1 f where 0: "get_or_create_flow recorder key ts (r, es) = Some ((r1, True), es1)" "engine_ok r1 es1" "advances 0 r r1"
      "hm_get (ra_flows r1) key = Some f" "fl_last_seen f = ts" "fl_last_activity_index f = ra_packet_index r" "f = ?f"
    by (rule get_or_create_flow_step [OF ok])
  note 1 = 0(1-3) 0(4) [unfolded 0(7)]
  let ?r2 = "put_flow key ?g r1"
  have q: "quiet (ra_config r1) key ?f ?g" using engine_okD(3) [OF 1(2,4)] by (intro quiet_handshake quiet_refl)
  note put = put_quiet [OF 1(2,4) q]
  have ah: "apply_handshake_flags recorder p key tcp (r1, es1) = Some ((?r2, Continue), es1)"
    using tcp by (simp add: apply_handshake_flags_def 1(4) handshake_syn_def handshake_syn_ack_def)
  have mem1: "ra_total_memory r1 \<le> cfg_memcap (ra_config r1)" using 1(3) mem by (auto simp: advances_def engine_frame_def)
  have run: "process_segment recorder p key tcp ts (r, es) = do { rh \<leftarrow> close_if_closed recorder key (?r2, es1); enforce_memcap recorder rh }"
    using 1(1) ah tcp(4) by (simp add: process_segment_def process_payload_def)
  show ?thesis
  proof (cases "fl_state ?g = Closed")
    case False
    then have "process_segment recorder p key tcp ts (r, es) = Some (?r2, es1)"
      unfolding run using put(2) mem1 by (simp add: close_if_closed_def enforce_memcap_def)
    then show ?thesis using put(2) False by (auto simp: fin_outcome_def fin_flow_def)
  next
    case True
    let ?r3 = "bump st_flows_fin_update ?r2"
    have get: "hm_get (ra_flows ?r3) key = Some ?g" using put(2) by simp
    have "engine_ok ?r3 es1" using put(1) by (rule engine_ok_bump) simp
    then obtain r4 es4 where c: "close_flow recorder key FinClose (?r3, es1) = Some (r4, es4)" "shrinks ?r3 {key} r4"
      by (rule close_flow_step)
    note e = close_flow_events [OF get c(1)]
    have "ra_total_memory r4 \<le> cfg_memcap (ra_config r4)" using c(2) mem1 by (auto simp: shrinks_def engine_frame_def)
    then have "process_segment recorder p key tcp ts (r, es) = Some (r4, es4)"
      unfolding run using put(2) True c(1) by (simp add: close_if_closed_def enforce_memcap_def)
    moreover have "hm_get (ra_flows r4) key = None"
      using e(2) hmap.get_remove [OF engine_okD(2) [OF \<open>engine_ok ?r3 es1\<close>], of key key] by (simp del: without_simps)
    moreover have "\<exists>new. es4 = new @ [CloseEvent key FinClose]"
      using e(1) final_events_last [of FinClose key ?g] by (metis append_assoc)
    ultimately show ?thesis using True by (auto simp: fin_outcome_def fin_flow_def)
  qed
qed

lemma fin_packet:
  assumes rd: "ready r es" and ix: "ra_packet_index r < u64_max" and held: "held r \<le> u64_max"
    and p: "protocol p = Tcp" "payload p = []" "transport p = TcpInfo sp dp seq False ack True False"
  defines "key \<equiv> flow_key_new (src_ip p) sp (dst_ip p) dp"
    and "tcp \<equiv> \<lparr>tf_src_port = sp, tf_dst_port = dp, tf_seq = seq, tf_syn = False, tf_ack = ack, tf_fin = True, tf_rst = False\<rparr>"
  obtains r' es' f where "process_packet recorder p ts (r, es) = Some (r', es')" and "ready r' es'" and "held r' \<le> held r"
    and "ra_packet_index r' = Suc (ra_packet_index r)" and "ra_config r' = ra_config r"
    and "fin_outcome key (fin_flow p tcp ts (Suc (ra_packet_index r)) f) r' es'"
    and "f = tcp_flow_new key ts \<or> hm_get (ra_flows r) key = Some f"
    and "\<forall>g. hm_get (ra_flows r) key = Some g \<and> \<not> timed_out (cfg_flow_timeout_secs (ra_config r)) ts g \<and>
       \<not> packet_idle (cfg_idle_packet_threshold (ra_config r)) (Suc (ra_packet_index r)) g \<longrightarrow> f = g"
proof -
  let ?r0 = "(bump st_packets_processed_update r)\<lparr>ra_packet_index := Suc (ra_packet_index r)\<rparr>"
  have n: "length (payload p) \<le> isize_max" "held r + length (payload p) \<le> u64_max" using held p(2) by simp_all
  obtain r' es' where run0: "process_packet recorder p ts (r, es) = Some (r', es')" "ready r' es'" "held r' \<le> held r + length (payload p)"
      "ra_packet_index r' = Suc (ra_packet_index r)" "ra_config r' = ra_config r" "ra_finalized r' = ra_finalized r"
    by (rule process_packet_step [OF rd n ix])
  then have run: "process_packet recorder p ts (r, es) = Some (r', es')" "ready r' es'" "held r' \<le> held r"
      "ra_packet_index r' = Suc (ra_packet_index r)" "ra_config r' = ra_config r" using p(2) by simp_all
  have "engine_ok r es" "ra_total_memory r \<le> cfg_memcap (ra_config r)" using rd by (simp_all add: ready_def)
  then have ok0: "engine_ok ?r0 es" using engine_ok_cong [of r es ?r0] by simp
  obtain r1 es1 where 1: "sweep_by_time recorder ts (?r0, es) = Some (r1, es1)" "engine_ok r1 es1"
      "advances 0 (?r0\<lparr>ra_last_expiry_sweep_secs := max (ra_last_expiry_sweep_secs ?r0) ts\<rparr>) r1"
    using sweep_steps(1) [OF ok0, of ts] by blast
  obtain r2 es2 where 2: "sweep_by_index recorder (r1, es1) = Some (r2, es2)" "engine_ok r2 es2" "advances 0 r1 r2"
    using sweep_steps(2) [OF 1(2)] by blast
  have fr: "ra_packet_index r2 = Suc (ra_packet_index r)" "ra_config r2 = ra_config r" "ra_total_memory r2 \<le> cfg_memcap (ra_config r2)"
    using 1(3) 2(3) \<open>ra_total_memory r \<le> cfg_memcap (ra_config r)\<close> by (auto simp: advances_def engine_frame_def)
  let ?r3 = "bump st_packets_tcp_update r2"
  let ?f = "case hm_get (ra_flows r2) key of Some f \<Rightarrow> f | None \<Rightarrow> tcp_flow_new key ts"
  have ok3: "engine_ok ?r3 es2" by (rule engine_ok_cong [OF 2(2)]) simp_all
  have "process_packet recorder p ts (r, es) = process_segment recorder p key tcp ts (?r3, es2)"
    using ix 1(1) 2(1) p by (simp add: process_packet_def extract_tcp_context_def key_def tcp_def)
  moreover obtain r4 es4 where "process_segment recorder p key tcp ts (?r3, es2) = Some (r4, es4)"
      "fin_outcome key (fin_flow p tcp ts (Suc (ra_packet_index r)) ?f) r4 es4"
    using fin_segment [OF ok3, of tcp p key ts] fr p(2) by (auto simp: tcp_def)
  ultimately have out: "fin_outcome key (fin_flow p tcp ts (Suc (ra_packet_index r)) ?f) r' es'" using run(1) by simp
  note get = sweeps_get [OF ok0 1(1) 2(1), of key, simplified]
  show thesis
  proof (rule that [OF run out])
    show "?f = tcp_flow_new key ts \<or> hm_get (ra_flows r) key = Some ?f"
      using get(1) by (auto split: option.splits)
    show "\<forall>g. hm_get (ra_flows r) key = Some g \<and> \<not> timed_out (cfg_flow_timeout_secs (ra_config r)) ts g \<and>
       \<not> packet_idle (cfg_idle_packet_threshold (ra_config r)) (Suc (ra_packet_index r)) g \<longrightarrow> ?f = g"
      using get(2) by auto
  qed
qed

lemma fin_flow_first:
  assumes "fl_fin_count f = 0" and "fl_state f \<noteq> Closed" and "tf_fin tcp"
  shows "fl_state (fin_flow p tcp ts idx f) \<noteq> Closed" "fl_fin_count (fin_flow p tcp ts idx f) = 1"
    "fl_last_seen (fin_flow p tcp ts idx f) = ts" "fl_last_activity_index (fin_flow p tcp ts idx f) = idx"
proof -
  have s: "fl_state (set_direction dir d g) = fl_state g" "fl_fin_count (set_direction dir d g) = fl_fin_count g"
    "fl_last_seen (set_direction dir d g) = fl_last_seen g" "fl_last_activity_index (set_direction dir d g) = fl_last_activity_index g" for dir d g
    by (cases dir; simp)+
  have "sat_addw (0 :: u8) 1 = 1" "\<not> (2 :: u8) \<le> 1" by (simp_all add: sat_addw_def word_le_nat_alt)
  then show "fl_state (fin_flow p tcp ts idx f) \<noteq> Closed" "fl_fin_count (fin_flow p tcp ts idx f) = 1"
    "fl_last_seen (fin_flow p tcp ts idx f) = ts" "fl_last_activity_index (fin_flow p tcp ts idx f) = idx"
    using assms by (simp_all add: fin_flow_def handshake_fin_def on_fin_def Let_def s)
qed

lemma fin_flow_second:
  assumes "1 \<le> fl_fin_count f" and "tf_fin tcp"
  shows "fl_state (fin_flow p tcp ts idx f) = Closed"
proof -
  have s: "fl_fin_count (set_direction dir d g) = fl_fin_count g" for dir d g by (cases dir; simp)
  have "2 \<le> sat_addw (fl_fin_count f) 1" using assms(1) by (simp add: word_le_nat_alt unat_sat_addw)
  then show ?thesis using assms(2) by (simp add: fin_flow_def handshake_fin_def on_fin_def Let_def s)
qed

end
