(* ===== verification/Engine_Props.thy ===== *)
theory Engine_Props
  imports Engine_Close
begin

text \<open>The properties of the reassembly engine.\<close>

section \<open>A sample configuration and capture\<close>

definition sample_config :: reassembly_config where
  "sample_config = reassembly_config_default"

lemma sample_config_ok: "config_ok sample_config"
  by (simp add: sample_config_def reassembly_config_default_def config_ok_def isize_max_def u64_max_def)

definition sample_packet :: "bool \<Rightarrow> bool \<Rightarrow> u32 \<Rightarrow> bytes \<Rightarrow> parsed_packet" where
  "sample_packet syn fin seq data =
     \<lparr>src_ip = V4 1, dst_ip = V4 2, protocol = Tcp,
      transport = TcpInfo 1000 502 seq syn False fin False, payload = data, packet_len = 60\<rparr>"

definition sample_capture :: "(parsed_packet \<times> u32) list" where
  "sample_capture = [(sample_packet True False 7 [], 1), (sample_packet False False 8 [1, 2], 2)]"

lemma sample_capture_ok: "capture_ok sample_capture"
  by (simp add: capture_ok_def capture_bytes_def sample_capture_def sample_packet_def isize_max_def u64_max_def)

text \<open>An engine that has not seen a packet, and engines that hold one flow, for any configuration.\<close>

definition engine_of :: "reassembly_config \<Rightarrow> reassembler" where
  "engine_of c = the (reassembler_new (\<lambda>_ _. 0) c)"

definition sample_key :: flow_key where
  "sample_key = flow_key_new (V4 1) 1000 (V4 2) 502"

definition engine_with_flow :: "reassembly_config \<Rightarrow> reassembler" where
  "engine_with_flow c = create_flow sample_key 3 (engine_of c)"

lemma engine_of_ready:
  assumes "config_ok c"
  shows "ready (engine_of c) []" "\<not> ra_finalized (engine_of c)" "held (engine_of c) = 0" "ra_config (engine_of c) = c"
    "ra_flows (engine_of c) = []" "ra_packet_index (engine_of c) = 0" "engine_ok (engine_of c) []"
proof -
  obtain r where r: "reassembler_new (\<lambda>_ _. 0) c = Some r" "ready r []" "held r = 0" "ra_packet_index r = 0" "ra_config r = c" "\<not> ra_finalized r"
    by (rule new_engine [OF assms])
  then show "ready (engine_of c) []" "\<not> ra_finalized (engine_of c)" "held (engine_of c) = 0" "ra_config (engine_of c) = c"
    "ra_packet_index (engine_of c) = 0" "engine_ok (engine_of c) []"
    by (simp_all add: engine_of_def ready_def)
  show "ra_flows (engine_of c) = []" using r(1) by (auto simp: engine_of_def reassembler_new_def split: if_splits)
qed

lemma engine_with_flow_ok:
  assumes "config_ok c"
  shows "engine_ok (engine_with_flow c) []" "ra_flows (engine_with_flow c) = [(sample_key, tcp_flow_new sample_key 3)]"
    "\<not> ra_finalized (engine_with_flow c)" "ra_config (engine_with_flow c) = c"
proof -
  note e = engine_of_ready [OF assms]
  have "hm_get (ra_flows (engine_of c)) sample_key = None" "length (ra_flows (engine_of c)) < cfg_max_flows (ra_config (engine_of c))"
    using assms e(4,5) by (simp_all add: hm_get_def config_ok_def)
  from engine_ok_create [OF e(7) this, of 3] show "engine_ok (engine_with_flow c) []" by (simp add: engine_with_flow_def)
  show "ra_flows (engine_with_flow c) = [(sample_key, tcp_flow_new sample_key 3)]" "\<not> ra_finalized (engine_with_flow c)" "ra_config (engine_with_flow c) = c"
    using e by (simp_all add: engine_with_flow_def create_flow_def hm_insert_def)
qed

definition sample_engine :: reassembler where
  "sample_engine = engine_of sample_config"

lemma sample_engine_ready: "ready sample_engine []" "\<not> ra_finalized sample_engine" "held sample_engine = 0"
    "ra_config sample_engine = sample_config"
  using engine_of_ready [OF sample_config_ok] by (simp_all add: sample_engine_def)

lemma sample_engine_ok: "engine_ok sample_engine []"
  using sample_engine_ready(1) by (simp add: ready_def)

text \<open>What closing the sample flow tells the handler: no byte is left, so only the close.\<close>

lemma sample_final_events [simp]: "final_events reason sample_key (tcp_flow_new sample_key 3) = [CloseEvent sample_key reason]"
  by (simp add: final_events_def tcp_flow_new_def flush_contiguous_def flush_loop.simps flow_direction_new_def bt_get_def chunk_events_def)

lemma sample_endings [simp]:
  "hm_iter seed [(sample_key, f)] = [(sample_key, f)]" "hm_get [(sample_key, f)] sample_key = Some f"
  by (simp_all add: hm_iter_def hm_get_def)

section \<open>Safety of a capture\<close>

text \<open>C5. No capture makes the engine panic, whatever handler it drives, as long as the
  handler keeps its own contract: the engine is built, processes every packet, and
  between packets the memory counter is exactly the sum of the bytes buffered by the
  flows (so it can neither drift nor underflow), memory is within the memcap, the
  flow table within \<open>max_flows\<close>, findings within \<open>MAX_FINDINGS\<close>, and every direction
  of every flow well-formed and within its depth and segment limits.\<close>

theorem capture_never_panics:
  assumes "config_ok c" and "capture_ok ps" and "stream_client H I" and "I (capture_bytes ps) h"
  shows "\<exists>r r' h'. reassembler_new seed c = Some r \<and> process_packets H ps (r, h) = Some (r', h') \<and>
     ra_total_memory r' = weight flow_mem (ra_flows r') \<and> ra_total_memory r' \<le> cfg_memcap c \<and>
     length (ra_flows r') \<le> cfg_max_flows c \<and> length (ra_findings r') \<le> max_findings \<and>
     (\<forall>(key, f) \<in> set (ra_flows r'). \<forall>dir.
        fd_ok (cfg_max_depth c) (cfg_max_segments_per_direction c) (get_direction dir f))"
proof -
  obtain r r' h' es where r: "reassembler_new seed c = Some r" "process_packets H ps (r, h) = Some (r', h')"
      and ok: "ready r' es" "ra_config r' = c"
    by (rule stream_client.capture_safe [OF assms(3,1,2,4), where seed = seed])
  have "\<forall>(key, f) \<in> set (ra_flows r'). \<forall>dir.
        fd_ok (cfg_max_depth c) (cfg_max_segments_per_direction c) (get_direction dir f)"
    using ok by (fastforce simp: ready_def engine_ok_def flow_ok_def dir_ok_def)
  with r ok show ?thesis by (auto simp: ready_def engine_ok_def)
qed

theorem capture_never_panics_witness:
  "\<exists>r r' h'. reassembler_new (\<lambda>_ _. 0) sample_config = Some r \<and>
     process_packets recorder sample_capture (r, []) = Some (r', h') \<and>
     ra_total_memory r' = weight flow_mem (ra_flows r') \<and> ra_total_memory r' \<le> cfg_memcap sample_config \<and>
     length (ra_flows r') \<le> cfg_max_flows sample_config \<and> length (ra_findings r') \<le> max_findings \<and>
     (\<forall>(key, f) \<in> set (ra_flows r'). \<forall>dir.
        fd_ok (cfg_max_depth sample_config) (cfg_max_segments_per_direction sample_config) (get_direction dir f))"
  using capture_never_panics [OF sample_config_ok sample_capture_ok recording.stream_client_axioms,
      where h = "[]" and seed = "\<lambda>_ _. 0"] by simp

text \<open>C6. What a handler is given over a capture is an ordered stream: its final state is
  the result of a list of events in which every chunk of a direction is non-empty and
  starts exactly where the previous chunk of that direction ended, counting from
  offset 1 when the flow was opened, a close starting the count afresh; and the bytes
  handed over are those the counter \<open>bytes_reassembled\<close> reports.\<close>

theorem handler_sees_ordered_stream:
  assumes "config_ok c" and "capture_ok ps" and "stream_client H I" and "I (capture_bytes ps) h"
  shows "\<exists>r r' h' es. reassembler_new seed c = Some r \<and> process_packets H ps (r, h) = Some (r', h') \<and>
     replay H es h = Some h' \<and> wf_trace es \<and>
     trace_bytes es = st_bytes_reassembled (ra_stats r') \<and> trace_bytes es \<le> capture_bytes ps"
proof -
  obtain r r' h' es where "reassembler_new seed c = Some r" "process_packets H ps (r, h) = Some (r', h')"
      "ready r' es" "replay H es h = Some h'" "trace_bytes es \<le> capture_bytes ps"
    by (rule stream_client.capture_safe [OF assms(3,1,2,4), where seed = seed])
  then show ?thesis by (auto simp: ready_def engine_ok_def)
qed

theorem handler_sees_ordered_stream_witness:
  "\<exists>r r' h' es. reassembler_new (\<lambda>_ _. 0) sample_config = Some r \<and>
     process_packets recorder sample_capture (r, []) = Some (r', h') \<and>
     replay recorder es [] = Some h' \<and> wf_trace es \<and>
     trace_bytes es = st_bytes_reassembled (ra_stats r') \<and> trace_bytes es \<le> capture_bytes sample_capture"
  using handler_sees_ordered_stream [OF sample_config_ok sample_capture_ok recording.stream_client_axioms,
      where h = "[]" and seed = "\<lambda>_ _. 0"] by simp

section \<open>End of capture\<close>

text \<open>C7. \<open>finalize\<close> after a capture never panics and closes every flow, telling the
  handler so: in the order the table is visited, each flow of the table gives the
  bytes of each direction that are still contiguous at its cursor, client first, and
  then one close with reason \<open>Timeout\<close>, and nothing else is sent. Afterwards the
  table is empty, no memory is accounted, and one summary finding is added exactly
  when a segment was dropped by the segment limit, even beyond \<open>MAX_FINDINGS\<close>. A
  second call changes nothing and tells the handler nothing.\<close>

theorem finalize_closes_everything:
  assumes "engine_ok r es" and "\<not> ra_finalized r"
  shows "\<exists>r' es'. finalize recorder (r, es) = Some (r', es') \<and> ra_flows r' = [] \<and> ra_total_memory r' = 0 \<and>
     ra_findings r' = ra_findings r @
       (if st_segments_segment_limit (ra_stats r) > 0
        then [segment_limit_finding (st_segments_segment_limit (ra_stats r))] else []) \<and>
     es' = es @ concat (map (\<lambda>(key, f). final_events TimeoutClose key f) (hm_iter (ra_seed r) (ra_flows r))) \<and>
     wf_trace es' \<and> finalize recorder (r', es') = Some (r', es')"
proof -
  obtain r' es' where f: "finalize recorder (r, es) = Some (r', es')" and ok: "engine_ok r' es'"
      and fl: "ra_flows r' = []" "ra_total_memory r' = 0" "ra_finalized r'"
      and fi: "ra_findings r' = ra_findings r @
           (if st_segments_segment_limit (ra_stats r) > 0
            then [segment_limit_finding (st_segments_segment_limit (ra_stats r))] else [])"
    by (rule finalize_step [OF assms])
  have "finalize recorder (r', es') = Some (r', es')" using fl(3) by (simp add: finalize_def)
  then show ?thesis using f fl(1,2) fi engine_okD(6) [OF ok] finalize_events [OF assms f] by blast
qed

theorem finalize_closes_everything_witness:
  "\<exists>r' es'. finalize recorder (engine_with_flow sample_config, []) = Some (r', es') \<and> ra_flows r' = [] \<and> ra_total_memory r' = 0 \<and>
     ra_findings r' = ra_findings (engine_with_flow sample_config) @
       (if st_segments_segment_limit (ra_stats (engine_with_flow sample_config)) > 0
        then [segment_limit_finding (st_segments_segment_limit (ra_stats (engine_with_flow sample_config)))] else []) \<and>
     es' = [CloseEvent sample_key TimeoutClose] \<and>
     wf_trace es' \<and> finalize recorder (r', es') = Some (r', es')"
  using finalize_closes_everything [OF engine_with_flow_ok(1,3) [OF sample_config_ok]]
  by (simp add: engine_with_flow_ok(2) [OF sample_config_ok])

section \<open>Expiry and eviction\<close>

text \<open>C8. The idle sweep is exact: \<open>expire_idle_by_timeout\<close> never panics and keeps precisely
  the flows seen within the timeout, whatever order the table is visited in; the
  public \<open>expire_flows\<close> also retires the flows in state \<open>Closed\<close>, and the sweep by
  packet index keeps precisely the flows with recent enough activity.\<close>

theorem expiry_is_exact:
  assumes "engine_ok r es"
  shows "\<exists>r1 es1 r2 es2 r3 es3.
     expire_idle_by_timeout recorder now (r, es) = Some (r1, es1) \<and>
     ra_flows r1 = filter (\<lambda>(key, f). \<not> (now > fl_last_seen f \<and>
        unat now - unat (fl_last_seen f) > unat (cfg_flow_timeout_secs (ra_config r)))) (ra_flows r) \<and>
     expire_flows recorder now (r, es) = Some (r2, es2) \<and>
     ra_flows r2 = filter (\<lambda>(key, f). fl_state f \<noteq> Closed) (ra_flows r1) \<and>
     expire_idle_by_packet_index recorder (r, es) = Some (r3, es3) \<and>
     ra_flows r3 = filter (\<lambda>(key, f). ra_packet_index r \<le> fl_last_activity_index f + cfg_idle_packet_threshold (ra_config r))
        (ra_flows r)"
proof -
  have ok: "hm_ok (ra_flows r)" using engine_okD(2) [OF assms] .
  have sweep: "\<exists>r' es'. expire_loop recorder (select_flows P r) (r, es) = Some (r', es') \<and>
      ra_flows r' = filter (\<lambda>(key, f). \<not> P f) (ra_flows r)" for P
    using expire_loop_step [OF assms, of "select_flows P r"] without_selected [OF ok, of P]
    by (auto simp: shrinks_def)
  let ?T = "cfg_flow_timeout_secs (ra_config r)"
  have t: "timed_out ?T now f \<longleftrightarrow> now > fl_last_seen f \<and> unat now - unat (fl_last_seen f) > unat ?T" for f
    by (auto simp: timed_out_def word_less_nat_alt unat_sub word_le_nat_alt)
  obtain r1 es1 where 1: "expire_loop recorder (select_flows (timed_out ?T now) r) (r, es) = Some (r1, es1)"
      "ra_flows r1 = filter (\<lambda>(key, f). \<not> timed_out ?T now f) (ra_flows r)" using sweep by blast
  obtain r2 es2 where 2: "expire_loop recorder (select_flows (\<lambda>f. fl_state f = Closed \<or> timed_out ?T now f) r) (r, es) =
        Some (r2, es2)"
      "ra_flows r2 = filter (\<lambda>(key, f). \<not> (fl_state f = Closed \<or> timed_out ?T now f)) (ra_flows r)" using sweep by blast
  obtain r3 es3 where 3: "expire_loop recorder
        (select_flows (packet_idle (cfg_idle_packet_threshold (ra_config r)) (ra_packet_index r)) r) (r, es) = Some (r3, es3)"
      "ra_flows r3 = filter (\<lambda>(key, f). \<not> packet_idle (cfg_idle_packet_threshold (ra_config r)) (ra_packet_index r) f)
        (ra_flows r)" using sweep by blast
  have "ra_flows r2 = filter (\<lambda>(key, f). fl_state f \<noteq> Closed) (ra_flows r1)"
    unfolding 1(2) 2(2) filter_filter by (rule filter_cong) auto
  moreover have "ra_flows r3 =
      filter (\<lambda>(key, f). ra_packet_index r \<le> fl_last_activity_index f + cfg_idle_packet_threshold (ra_config r)) (ra_flows r)"
    unfolding 3(2) by (rule filter_cong) (auto simp: packet_idle_def)
  moreover have "ra_flows r1 = filter (\<lambda>(key, f). \<not> (now > fl_last_seen f \<and>
        unat now - unat (fl_last_seen f) > unat ?T)) (ra_flows r)"
    unfolding 1(2) t ..
  ultimately show ?thesis
    unfolding expire_idle_by_timeout_def expire_flows_def expire_idle_by_packet_index_def Let_def fst_conv
    using 1(1) 2(1) 3(1) by blast
qed

theorem expiry_is_exact_witness:
  "\<exists>r1 es1 r2 es2 r3 es3.
     expire_idle_by_timeout recorder 1000 (engine_with_flow sample_config, []) = Some (r1, es1) \<and> ra_flows r1 = [] \<and>
     expire_flows recorder 1000 (engine_with_flow sample_config, []) = Some (r2, es2) \<and> ra_flows r2 = [] \<and>
     expire_idle_by_packet_index recorder (engine_with_flow sample_config, []) = Some (r3, es3) \<and>
     ra_flows r3 = [(sample_key, tcp_flow_new sample_key 3)]"
proof -
  let ?e = "engine_with_flow sample_config"
  have "ra_packet_index ?e = 0" "cfg_flow_timeout_secs (ra_config ?e) = 300" "fl_last_seen (tcp_flow_new sample_key 3) = 3"
    using engine_of_ready(6) [OF sample_config_ok] engine_with_flow_ok(4) [OF sample_config_ok]
    by (simp_all add: engine_with_flow_def create_flow_def sample_config_def reassembly_config_default_def tcp_flow_new_def)
  then show ?thesis
    using expiry_is_exact [OF engine_with_flow_ok(1) [OF sample_config_ok], of 1000]
    by (auto simp: engine_with_flow_ok(2) [OF sample_config_ok])
qed






section \<open>Flow lookup\<close>

text \<open>C10. A TCP packet is never turned away for lack of room: after the eviction that
  \<open>get_or_create_flow\<close> runs at capacity there always is a free slot, so it answers
  true, the packet's flow is in the table with the packet's timestamp and index, and
  the table is within \<open>max_flows\<close>. The branch that drops the packet is never taken.\<close>

theorem flow_always_admitted:
  assumes "engine_ok r es"
  shows "\<exists>r' es' f. get_or_create_flow recorder key ts (r, es) = Some ((r', True), es') \<and>
     hm_get (ra_flows r') key = Some f \<and> fl_key f = key \<and> fl_last_seen f = ts \<and>
     fl_last_activity_index f = ra_packet_index r \<and> length (ra_flows r') \<le> cfg_max_flows (ra_config r')"
proof -
  obtain r' es' f where g: "get_or_create_flow recorder key ts (r, es) = Some ((r', True), es')"
      "engine_ok r' es'" "hm_get (ra_flows r') key = Some f" "fl_last_seen f = ts"
      "fl_last_activity_index f = ra_packet_index r"
    by (rule get_or_create_flow_step [OF assms])
  then show ?thesis using engine_okD(3,5) [OF g(2)] by (auto simp: flow_ok_def)
qed

theorem flow_always_admitted_witness:
  "\<exists>r' es' f. get_or_create_flow recorder (flow_key_new (V4 1) 5 (V4 2) 6) 9 (sample_engine, []) = Some ((r', True), es') \<and>
     hm_get (ra_flows r') (flow_key_new (V4 1) 5 (V4 2) 6) = Some f \<and> fl_key f = flow_key_new (V4 1) 5 (V4 2) 6 \<and>
     fl_last_seen f = 9 \<and> fl_last_activity_index f = ra_packet_index sample_engine \<and>
     length (ra_flows r') \<le> cfg_max_flows (ra_config r')"
  by (rule flow_always_admitted [OF sample_engine_ok])

lemma extract_tcp_context_key:
  "extract_tcp_context p r = (r1, Some (k, tcp)) \<Longrightarrow>
   k = flow_key_new (src_ip p) (tf_src_port tcp) (dst_ip p) (tf_dst_port tcp)"
  by (auto simp: extract_tcp_context_def split: if_splits transport_info.splits)

text \<open>Two packets are filed under the same flow exactly when they connect the same two
  endpoints, in either direction.\<close>

theorem flow_key_identifies_connection:
  assumes "extract_tcp_context p r = (r1, Some (k, tcp))" and "extract_tcp_context q s = (s1, Some (l, tcp'))"
  shows "k = l \<longleftrightarrow> {(src_ip p, tf_src_port tcp), (dst_ip p, tf_dst_port tcp)} =
                   {(src_ip q, tf_src_port tcp'), (dst_ip q, tf_dst_port tcp')}"
  unfolding extract_tcp_context_key [OF assms(1)] extract_tcp_context_key [OF assms(2)] by (rule flow_key_new_eq_iff)

theorem flow_key_identifies_connection_witness:
  "(flow_key_new (V4 1) 1000 (V4 2) 502 = flow_key_new (V4 1) 1000 (V4 2) 502) \<longleftrightarrow>
   {(V4 1, 1000), (V4 2, 502)} = {(V4 1, 1000 :: u16), (V4 2, 502)}"
  using flow_key_identifies_connection [of "sample_packet True False 7 []" sample_engine sample_engine
      "flow_key_new (V4 1) 1000 (V4 2) 502"
      "\<lparr>tf_src_port = 1000, tf_dst_port = 502, tf_seq = 7, tf_syn = True, tf_ack = False, tf_fin = False, tf_rst = False\<rparr>"
      "sample_packet False False 8 [1]" sample_engine sample_engine
      "flow_key_new (V4 1) 1000 (V4 2) 502"
      "\<lparr>tf_src_port = 1000, tf_dst_port = 502, tf_seq = 8, tf_syn = False, tf_ack = False, tf_fin = False, tf_rst = False\<rparr>"]
  by (simp add: extract_tcp_context_def sample_packet_def)

section \<open>State machine and alerts\<close>

text \<open>C11. One FIN and its retransmission close a flow: \<open>on_fin\<close> counts FINs of either
  direction. When a packet that carries only a FIN is processed on an engine whose
  flow, if there is one, is not closed and has seen no FIN, the flow is still in the
  table afterwards and open; when the same packet comes a second time within the
  timeout, the flow is closed with reason \<open>Fin\<close> at the end of that packet, as the last
  thing the handler hears, and removed from the table, although the other side has not
  sent a FIN. Neither packet makes the engine panic.\<close>

theorem repeated_fin_closes:
  assumes "ready r es" and "held r \<le> u64_max" and "ra_packet_index r + 2 \<le> u64_max"
    and p: "protocol p = Tcp" "payload p = []" "transport p = TcpInfo sp dp seq False ack True False"
    and flow: "\<forall>f. hm_get (ra_flows r) (flow_key_new (src_ip p) sp (dst_ip p) dp) = Some f \<longrightarrow> fl_fin_count f = 0 \<and> fl_state f \<noteq> Closed"
    and "0 < cfg_idle_packet_threshold (ra_config r)"
    and t2: "\<not> (t1 < t2 \<and> unat t2 - unat t1 > unat (cfg_flow_timeout_secs (ra_config r)))"
  shows "\<exists>r1 es1 g r2 es2. process_packet recorder p t1 (r, es) = Some (r1, es1) \<and>
     hm_get (ra_flows r1) (flow_key_new (src_ip p) sp (dst_ip p) dp) = Some g \<and> fl_state g \<noteq> Closed \<and>
     process_packet recorder p t2 (r1, es1) = Some (r2, es2 @ [CloseEvent (flow_key_new (src_ip p) sp (dst_ip p) dp) FinClose]) \<and>
     hm_get (ra_flows r2) (flow_key_new (src_ip p) sp (dst_ip p) dp) = None"
proof -
  let ?key = "flow_key_new (src_ip p) sp (dst_ip p) dp"
  let ?tcp = "\<lparr>tf_src_port = sp, tf_dst_port = dp, tf_seq = seq, tf_syn = False, tf_ack = ack, tf_fin = True, tf_rst = False\<rparr>"
  have ix: "ra_packet_index r < u64_max" "Suc (ra_packet_index r) < u64_max" using assms(3) by simp_all
  obtain r1 es1 f where 1: "process_packet recorder p t1 (r, es) = Some (r1, es1)" "ready r1 es1" "held r1 \<le> held r"
      "ra_packet_index r1 = Suc (ra_packet_index r)" "ra_config r1 = ra_config r"
      "fin_outcome ?key (fin_flow p ?tcp t1 (Suc (ra_packet_index r)) f) r1 es1"
      "f = tcp_flow_new ?key t1 \<or> hm_get (ra_flows r) ?key = Some f"
    by (rule fin_packet [OF assms(1) ix(1) assms(2) p])
  let ?g = "fin_flow p ?tcp t1 (Suc (ra_packet_index r)) f"
  have "fl_fin_count f = 0" "fl_state f \<noteq> Closed" using 1(7) flow by (auto simp: tcp_flow_new_def)
  note g = fin_flow_first [OF this, of ?tcp p t1 "Suc (ra_packet_index r)", simplified]
  have get: "hm_get (ra_flows r1) ?key = Some ?g" using 1(6) g(1) by (simp add: fin_outcome_def)
  have stays: "\<not> timed_out (cfg_flow_timeout_secs (ra_config r1)) t2 ?g"
      "\<not> packet_idle (cfg_idle_packet_threshold (ra_config r1)) (Suc (ra_packet_index r1)) ?g"
    using t2 assms(8) g(3,4) by (auto simp: timed_out_def packet_idle_def 1(4,5) word_less_nat_alt unat_sub word_le_nat_alt)
  have n1: "ra_packet_index r1 < u64_max" "held r1 \<le> u64_max" using 1(3,4) ix(2) assms(2) by simp_all
  obtain r2 es2 f2 where 2: "process_packet recorder p t2 (r1, es1) = Some (r2, es2)"
      "fin_outcome ?key (fin_flow p ?tcp t2 (Suc (ra_packet_index r1)) f2) r2 es2"
      "\<forall>g. hm_get (ra_flows r1) ?key = Some g \<and> \<not> timed_out (cfg_flow_timeout_secs (ra_config r1)) t2 g \<and>
       \<not> packet_idle (cfg_idle_packet_threshold (ra_config r1)) (Suc (ra_packet_index r1)) g \<longrightarrow> f2 = g"
    by (rule fin_packet [OF 1(2) n1 p])
  have "f2 = ?g" using 2(3) get stays by blast
  then have "fl_state (fin_flow p ?tcp t2 (Suc (ra_packet_index r1)) f2) = Closed" using g(2) by (intro fin_flow_second) simp_all
  then obtain new where "hm_get (ra_flows r2) ?key = None" "es2 = new @ [CloseEvent ?key FinClose]" using 2(2) by (auto simp: fin_outcome_def)
  then show ?thesis using 1(1) get g(1) 2(1) by blast
qed

theorem repeated_fin_closes_witness:
  "\<exists>r1 es1 g r2 es2. process_packet recorder (sample_packet False True 8 []) 1 (sample_engine, []) = Some (r1, es1) \<and>
     hm_get (ra_flows r1) sample_key = Some g \<and> fl_state g \<noteq> Closed \<and>
     process_packet recorder (sample_packet False True 8 []) 2 (r1, es1) = Some (r2, es2 @ [CloseEvent sample_key FinClose]) \<and>
     hm_get (ra_flows r2) sample_key = None"
proof -
  note e = engine_of_ready [OF sample_config_ok]
  have k: "flow_key_new (src_ip (sample_packet False True 8 [])) 1000 (dst_ip (sample_packet False True 8 [])) 502 = sample_key"
    by (simp add: sample_packet_def sample_key_def)
  show ?thesis
    using repeated_fin_closes [of sample_engine "[]" "sample_packet False True 8 []" 1000 502 8 False 1 2] e
    unfolding k by (simp add: sample_engine_def hm_get_def u64_max_def sample_config_def reassembly_config_default_def sample_packet_def)
qed

text \<open>Flow states only move forward, from \<open>New\<close> through \<open>SynSent\<close>, \<open>Established\<close> and
  \<open>Closing\<close> to \<open>Closed\<close>, whatever events arrive in whatever order, and \<open>Closed\<close> is final.\<close>

theorem flow_state_moves_forward:
  assumes "flow_step\<^sup>*\<^sup>* f g"
  shows "state_rank (fl_state f) \<le> state_rank (fl_state g) \<and> (fl_state f = Closed \<longrightarrow> fl_state g = Closed)"
  using flow_steps_rank [OF assms] by (cases "fl_state g") auto

theorem flow_state_moves_forward_witness:
  "state_rank (fl_state (on_rst (tcp_flow_new (flow_key_new (V4 1) 5 (V4 2) 6) 0))) \<le>
     state_rank (fl_state (on_fin (on_rst (tcp_flow_new (flow_key_new (V4 1) 5 (V4 2) 6) 0)))) \<and>
   fl_state (on_fin (on_rst (tcp_flow_new (flow_key_new (V4 1) 5 (V4 2) 6) 0))) = Closed"
  using flow_state_moves_forward [OF r_into_rtranclp, OF flow_step.fin,
      of "on_rst (tcp_flow_new (flow_key_new (V4 1) 5 (V4 2) 6) 0)"]
  by (simp add: on_rst_def)

text \<open>The alerts that are still due for a direction.\<close>

definition overlap_due :: "reassembly_config \<Rightarrow> flow_direction \<Rightarrow> bool" where
  "overlap_due c d \<longleftrightarrow> fd_overlap_count d > cfg_overlap_alert_threshold c \<and> \<not> fd_overlap_alert_fired d"

definition small_due :: "reassembly_config \<Rightarrow> flow_key \<Rightarrow> flow_direction \<Rightarrow> bool" where
  "small_due c key d \<longleftrightarrow>
     fd_small_segment_run d > cfg_small_segment_alert_threshold c \<and> \<not> fd_small_segment_alert_fired d \<and>
     lower_port key \<notin> set (cfg_small_segment_ignore_ports c) \<and>
     upper_port key \<notin> set (cfg_small_segment_ignore_ports c)"

definition window_due :: "reassembly_config \<Rightarrow> flow_direction \<Rightarrow> bool" where
  "window_due c d \<longleftrightarrow>
     fd_out_of_window_count d > cfg_out_of_window_alert_threshold c \<and> \<not> fd_out_of_window_alert_fired d"

definition alert_due :: "reassembly_config \<Rightarrow> flow_key \<Rightarrow> flow_direction \<Rightarrow> bool" where
  "alert_due c key d \<longleftrightarrow> overlap_due c d \<or> small_due c key d \<or> window_due c d"

lemma check_overlap_effect:
  "\<exists>fi. check_overlap key src dir ts (d, r) =
     (if overlap_due (ra_config r) d then (d\<lparr>fd_overlap_alert_fired := True\<rparr>, push_finding fi r) else (d, r))"
  unfolding check_overlap_def overlap_due_def Let_def prod.case by (rule exI) (rule refl)

lemma check_small_segments_effect:
  "\<exists>fi. check_small_segments key src dir ts (d, r) =
     (if small_due (ra_config r) key d then (d\<lparr>fd_small_segment_alert_fired := True\<rparr>, push_finding fi r) else (d, r))"
proof -
  have "list_ex (\<lambda>p. p = lower_port key \<or> p = upper_port key) ports \<longleftrightarrow>
      lower_port key \<in> set ports \<or> upper_port key \<in> set ports" for ports
    by (induction ports) auto
  then show ?thesis
    unfolding check_small_segments_def small_due_def Let_def prod.case by (simp only: de_Morgan_disj) (rule exI, rule refl)
qed

lemma check_out_of_window_effect:
  "\<exists>fi. check_out_of_window key src dir ts (d, r) =
     (if window_due (ra_config r) d then (d\<lparr>fd_out_of_window_alert_fired := True\<rparr>, push_finding fi r) else (d, r))"
  unfolding check_out_of_window_def window_due_def Let_def prod.case by (rule exI) (rule refl)

lemma checks_effect:
  assumes "check_out_of_window key src dir ts (check_small_segments key src dir ts (check_overlap key src dir ts (d, r))) = (d', r')"
  shows "\<not> alert_due (ra_config r') key d'" and "\<not> alert_due (ra_config r) key d \<Longrightarrow> d' = d \<and> r' = r"
proof -
  obtain d1 r1 where c1: "check_overlap key src dir ts (d, r) = (d1, r1)" by force
  obtain d2 r2 where c2: "check_small_segments key src dir ts (d1, r1) = (d2, r2)" by force
  have c3: "check_out_of_window key src dir ts (d2, r2) = (d', r')" using assms c1 c2 by simp
  obtain a where a: "(d1, r1) = (if overlap_due (ra_config r) d then (d\<lparr>fd_overlap_alert_fired := True\<rparr>, push_finding a r) else (d, r))"
    using check_overlap_effect [of key src dir ts d r] c1 by auto
  obtain b where b: "(d2, r2) = (if small_due (ra_config r1) key d1 then (d1\<lparr>fd_small_segment_alert_fired := True\<rparr>, push_finding b r1) else (d1, r1))"
    using check_small_segments_effect [of key src dir ts d1 r1] c2 by auto
  obtain w where w: "(d', r') = (if window_due (ra_config r2) d2 then (d2\<lparr>fd_out_of_window_alert_fired := True\<rparr>, push_finding w r2) else (d2, r2))"
    using check_out_of_window_effect [of key src dir ts d2 r2] c3 by auto
  have 1: "\<not> overlap_due (ra_config r1) d1" "ra_config r1 = ra_config r"
    using a by (auto simp: overlap_due_def split: if_splits)
  have 2: "\<not> small_due (ra_config r2) key d2" "\<not> overlap_due (ra_config r2) d2" "ra_config r2 = ra_config r"
    using b 1 by (auto simp: overlap_due_def small_due_def split: if_splits)
  show "\<not> alert_due (ra_config r') key d'"
    using w 2 by (auto simp: alert_due_def overlap_due_def small_due_def window_due_def split: if_splits)
  show "\<not> alert_due (ra_config r) key d \<Longrightarrow> d' = d \<and> r' = r"
    using a b w by (auto simp: alert_due_def split: if_splits)
qed

text \<open>Threshold alerts fire once: when \<open>check_anomaly_thresholds\<close> runs again on a flow
  with no new segment, it adds no finding and counts none as dropped, also when the
  cap on findings swallowed the first alert; and right after it ran, no alert of that
  direction is due.\<close>

theorem alerts_fire_once:
  assumes "engine_ok r es" and "hm_get (ra_flows r) key = Some f"
  shows "\<exists>r1 f1. check_anomaly_thresholds p key dir ts r = Some r1 \<and> hm_get (ra_flows r1) key = Some f1 \<and>
     \<not> alert_due (ra_config r1) key (get_direction dir f1) \<and>
     (\<exists>r2. check_anomaly_thresholds p' key dir ts' r1 = Some r2 \<and>
        ra_findings r2 = ra_findings r1 \<and> ra_stats r2 = ra_stats r1)"
proof -
  obtain d1 r1 where c: "check_out_of_window key (src_ip p) dir ts (check_small_segments key (src_ip p) dir ts
      (check_overlap key (src_ip p) dir ts (get_direction dir f, r))) = (d1, r1)" by force
  let ?f1 = "set_direction dir d1 f" and ?r1 = "put_flow key (set_direction dir d1 f) r1"
  obtain x f' where x: "check_anomaly_thresholds p key dir ts r = Some x" "engine_ok x es" "hm_get (ra_flows x) key = Some f'"
    by (rule check_anomaly_thresholds_step [OF assms])
  have e1: "check_anomaly_thresholds p key dir ts r = Some ?r1"
    by (simp add: check_anomaly_thresholds_def assms(2) c)
  then have x1: "x = ?r1" using x(1) by simp
  have "hm_ok (hm_insert key ?f1 (ra_flows r1))" using engine_okD(2) [OF x(2)] x1 by simp
  then have get1: "hm_get (ra_flows ?r1) key = Some ?f1"
    by (simp add: hm_get_def hm_insert_def update_conv')
  note eff = checks_effect [OF c]
  obtain d2 r2 where c2: "check_out_of_window key (src_ip p') dir ts' (check_small_segments key (src_ip p') dir ts'
      (check_overlap key (src_ip p') dir ts' (d1, ?r1))) = (d2, r2)" by force
  have "d2 = d1 \<and> r2 = ?r1" using checks_effect(2) [OF c2] eff(1) by simp
  then have "check_anomaly_thresholds p' key dir ts' ?r1 = Some (put_flow key (set_direction dir d1 ?f1) ?r1)"
    using c2 get1 by (simp add: check_anomaly_thresholds_def)
  then show ?thesis using e1 get1 eff(1) by (intro exI [of _ ?r1] exI [of _ ?f1]) simp
qed

theorem alerts_fire_once_witness:
  "\<exists>r1 f1. check_anomaly_thresholds (sample_packet False False 8 [1]) sample_key ClientToServer 3 (engine_with_flow sample_config) = Some r1 \<and>
     hm_get (ra_flows r1) sample_key = Some f1 \<and>
     \<not> alert_due (ra_config r1) sample_key (get_direction ClientToServer f1) \<and>
     (\<exists>r2. check_anomaly_thresholds (sample_packet False False 9 [2]) sample_key ClientToServer 4 r1 = Some r2 \<and>
        ra_findings r2 = ra_findings r1 \<and> ra_stats r2 = ra_stats r1)"
  by (rule alerts_fire_once [OF engine_with_flow_ok(1) [OF sample_config_ok]]) (simp add: engine_with_flow_ok(2) [OF sample_config_ok])

end
