(* ===== verification/Modbus.thy ===== *)
theory Modbus
  imports Findings Containers
begin

text \<open>
  The Modbus TCP analyzer (\<open>src/analyzer/modbus.rs\<close>): header parser, validity gate,
  function-code classifier, the pending-transaction table, the detectors of
  \<open>process_pdu\<close>, and the stream walk of \<open>on_data\<close> with its carry buffers.

  Prefixes: \<open>mh_\<close> for \<open>MbapHeader\<close>, \<open>mf_\<close> for \<open>ModbusFlowState\<close>, \<open>ma_\<close> for
  \<open>ModbusAnalyzer\<close>. The two counters the code increments with a plain \<open>+= 1\<close>, the
  function-code distribution and the exception window, are checked additions; the
  others saturate. In message templates \<open>{:#06X}\<close> is the literal \<open>0x\<close> followed by
  four hexadecimal digits, and an em dash is written as two hyphens.
\<close>

section \<open>Header and classification\<close>

record mbap_header =
  mh_transaction_id :: u16
  mh_protocol_id :: u16
  mh_length :: u16
  mh_unit_id :: u8
  mh_function_code :: u8

datatype function_code_class = Read | Write | Diagnostic | Exception | Unknown

definition max_pending_transactions :: usize where
  "max_pending_transactions = 256"

definition modbus_max_findings :: usize where
  "modbus_max_findings = 10000"

definition max_adu_carry_bytes :: usize where
  "max_adu_carry_bytes = 260"

definition t0831_window_secs :: u32 where
  "t0831_window_secs = 5"

definition write_burst_window_secs :: u32 where
  "write_burst_window_secs = 1"

definition write_sustained_window_secs :: u32 where
  "write_sustained_window_secs = 2"

definition default_write_burst_threshold :: u32 where
  "default_write_burst_threshold = 20"

definition default_write_sustained_threshold :: u32 where
  "default_write_sustained_threshold = 10"

definition exception_rate_threshold :: u32 where
  "exception_rate_threshold = 5"

definition exception_window_secs :: u32 where
  "exception_window_secs = 10"

definition parse_mbap_header :: "bytes \<Rightarrow> mbap_header option" where
  "parse_mbap_header data =
     (if length data < 8 then None
      else Some \<lparr>mh_transaction_id = be16 (data ! 0) (data ! 1),
                 mh_protocol_id = be16 (data ! 2) (data ! 3),
                 mh_length = be16 (data ! 4) (data ! 5),
                 mh_unit_id = data ! 6,
                 mh_function_code = data ! 7\<rparr>)"

definition is_valid_modbus_adu :: "mbap_header \<Rightarrow> bool" where
  "is_valid_modbus_adu h = (mh_protocol_id h = 0 \<and> mh_length h \<ge> 2 \<and> mh_length h \<le> 254)"

definition classify_fc :: "u8 \<Rightarrow> function_code_class" where
  "classify_fc fc =
     (if fc \<ge> 0x80 then Exception
      else if fc \<in> {0x05, 0x06, 0x0F, 0x10, 0x15, 0x16, 0x17} then Write
      else if fc \<in> {0x08, 0x2B} then Diagnostic
      else if fc \<in> {0x01, 0x02, 0x03, 0x04, 0x07, 0x0B, 0x0C, 0x11, 0x14, 0x18} then Read
      else Unknown)"

section \<open>Per-flow state\<close>

record modbus_flow_state =
  mf_pending :: "(u16 \<times> u8, u8 \<times> u32) hash_map"
  mf_write_count :: u64
  mf_exception_count :: u64
  mf_pdu_count :: u64
  mf_last_ts :: u32
  mf_window_write_count :: u32
  mf_window_start_ts :: u32
  mf_window_burst_emitted :: bool
  mf_sustained_window_start_ts :: u32
  mf_sustained_window_write_count :: u32
  mf_sustained_burst_emitted :: bool
  mf_t0831_window_start_ts :: u32
  mf_t0831_window_write_count :: u32
  mf_t0831_burst_emitted :: bool
  mf_exception_window_counts :: "(u8, u32) hash_map"
  mf_exception_window_start_ts :: "(u8, u32) hash_map"
  mf_exception_burst_emitted :: "(u8, bool) hash_map"
  mf_is_non_modbus :: bool
  mf_carry_c2s :: bytes
  mf_carry_s2c :: bytes

definition modbus_flow_state_default :: modbus_flow_state where
  "modbus_flow_state_default =
     \<lparr>mf_pending = [], mf_write_count = 0, mf_exception_count = 0, mf_pdu_count = 0, mf_last_ts = 0,
      mf_window_write_count = 0, mf_window_start_ts = 0, mf_window_burst_emitted = False,
      mf_sustained_window_start_ts = 0, mf_sustained_window_write_count = 0,
      mf_sustained_burst_emitted = False, mf_t0831_window_start_ts = 0,
      mf_t0831_window_write_count = 0, mf_t0831_burst_emitted = False,
      mf_exception_window_counts = [], mf_exception_window_start_ts = [],
      mf_exception_burst_emitted = [], mf_is_non_modbus = False, mf_carry_c2s = [], mf_carry_s2c = []\<rparr>"

definition insert_request ::
  "u16 \<Rightarrow> u8 \<Rightarrow> u8 \<Rightarrow> u32 \<Rightarrow> modbus_flow_state \<Rightarrow> modbus_flow_state \<times> (u8 \<times> u32) option"
where
  "insert_request txn_id unit_id fc ts f =
     (let key = (txn_id, unit_id); old = hm_get (mf_pending f) key;
          f' = f\<lparr>mf_pending := hm_insert key (fc, ts) (mf_pending f)\<rparr>
      in if old \<noteq> None then (f', old)
         else if max_pending_transactions \<le> length (mf_pending f) then (f, None)
         else (f', old))"

definition match_response :: "u16 \<Rightarrow> u8 \<Rightarrow> u8 \<Rightarrow> modbus_flow_state \<Rightarrow> modbus_flow_state \<times> (u8 \<times> u32) option" where
  "match_response txn_id unit_id fc f =
     (f\<lparr>mf_pending := hm_remove (txn_id, unit_id) (mf_pending f)\<rparr>, hm_get (mf_pending f) (txn_id, unit_id))"

unbundle bit_operations_syntax

definition attribute_exception :: "u16 \<Rightarrow> u8 \<Rightarrow> u8 \<Rightarrow> modbus_flow_state \<Rightarrow> modbus_flow_state \<times> u8 option" where
  "attribute_exception txn_id unit_id exception_fc f =
     (let original_fc = exception_fc AND 0x7F; key = (txn_id, unit_id) in
      case hm_get (mf_pending f) key of
        Some (stored_fc, _) \<Rightarrow>
          if stored_fc = original_fc
          then (f\<lparr>mf_pending := hm_remove key (mf_pending f)\<rparr>, Some original_fc) else (f, None)
      | None \<Rightarrow> (f, None))"

section \<open>The analyzer\<close>

record modbus_analyzer =
  ma_write_burst_threshold :: u32
  ma_write_sustained_threshold :: u32
  ma_duplicate_inflight_txn :: u64
  ma_total_pdu_count :: u64
  ma_total_write_count :: u64
  ma_total_exception_count :: u64
  ma_parse_errors :: u64
  ma_fn_code_counts :: "(u8, u64) hash_map"
  ma_all_findings :: "finding list"
  ma_dropped_findings :: u64
  ma_dropped_transactions :: u64
  ma_total_flows_analyzed :: u64
  ma_flows :: "(flow_key, modbus_flow_state) hash_map"

definition modbus_analyzer_new :: "u32 \<Rightarrow> u32 \<Rightarrow> modbus_analyzer" where
  "modbus_analyzer_new burst sustained =
     \<lparr>ma_write_burst_threshold = burst, ma_write_sustained_threshold = sustained,
      ma_duplicate_inflight_txn = 0, ma_total_pdu_count = 0, ma_total_write_count = 0,
      ma_total_exception_count = 0, ma_parse_errors = 0, ma_fn_code_counts = [],
      ma_all_findings = [], ma_dropped_findings = 0, ma_dropped_transactions = 0,
      ma_total_flows_analyzed = 0, ma_flows = []\<rparr>"

text \<open>What the detectors know of the PDU they look at.\<close>

record pdu_context =
  pc_client_ip :: ip_addr
  pc_server_ip :: ip_addr
  pc_direction :: direction
  pc_header :: mbap_header
  pc_fc :: u8
  pc_data :: bytes
  pc_timestamp :: u32

definition resolve_endpoints :: "flow_key \<Rightarrow> ip_addr \<times> ip_addr" where
  "resolve_endpoints key =
     (if lower_port key = 502 then (upper_ip key, lower_ip key) else (lower_ip key, upper_ip key))"

definition pdu_source :: "pdu_context \<Rightarrow> ip_addr" where
  "pdu_source c = (case pc_direction c of ClientToServer \<Rightarrow> pc_client_ip c | ServerToClient \<Rightarrow> pc_server_ip c)"

definition pdu_finding ::
  "pdu_context \<Rightarrow> threat_category \<Rightarrow> verdict \<Rightarrow> confidence \<Rightarrow> ip_addr \<Rightarrow> string list \<Rightarrow> flow_key fmt \<Rightarrow> flow_key fmt \<Rightarrow> finding"
where
  "pdu_finding c cat v conf src techniques summ ev =
     \<lparr>category = cat, verdict = v, confidence = conf, summary = summ, evidence = [ev],
      mitre_techniques = techniques, source_ip = Some src, timestamp = Some (pc_timestamp c),
      direction = Some (pc_direction c)\<rparr>"

definition unit_frag :: "pdu_context \<Rightarrow> flow_key frag" where
  "unit_frag c = Dec (unat (mh_unit_id (pc_header c)))"

definition txn_frags :: "pdu_context \<Rightarrow> flow_key fmt" where
  "txn_frags c = [Lit '' TxnID=0x'', Hex4 (mh_transaction_id (pc_header c)), Lit '' UnitID='', unit_frag c]"

text \<open>The direction-independent match: reconnaissance and unknown function codes.\<close>

definition recon_findings :: "pdu_context \<Rightarrow> finding list" where
  "recon_findings c =
     (if pc_fc c = 0x11 then
        [pdu_finding c Anomaly Inconclusive Medium (pdu_source c) [''T0888'']
           [Lit ''Modbus recon: Report Server ID (FC 0x11) from unit '', unit_frag c]
           (Lit ''FC=0x11'' # txn_frags c)]
      else if pc_fc c = 0x2B then
        (if 9 \<le> length (pc_data c) \<and> pc_data c ! 8 = 0x0E then
           [pdu_finding c Anomaly Inconclusive Medium (pdu_source c) [''T0888'']
              [Lit ''Modbus recon: Read Device Identification (MEI 0x2B/0x0E) on unit '', unit_frag c]
              (Lit ''FC=0x2B MEI type=0x0E'' # txn_frags c)]
         else [])
      else if classify_fc (pc_fc c) = Unknown then
        [pdu_finding c Anomaly Inconclusive Low (pdu_source c) []
           [Lit ''Modbus unknown function code: 0x'', Hex2 (pc_fc c), Lit '' on unit '', unit_frag c]
           (Lit ''FC=0x'' # Hex2 (pc_fc c) # txn_frags c)]
      else [])"

subsection \<open>Requests\<close>

definition note_request ::
  "pdu_context \<Rightarrow> modbus_analyzer \<times> modbus_flow_state \<Rightarrow> modbus_analyzer \<times> modbus_flow_state"
where
  "note_request c mf =
     (let (m, f) = mf; h = pc_header c in
      if classify_fc (pc_fc c) \<noteq> Exception then
        let m1 = (if hm_get (mf_pending f) (mh_transaction_id h, mh_unit_id h) = None \<and>
                     max_pending_transactions \<le> length (mf_pending f)
                  then m\<lparr>ma_dropped_transactions := sat_add64 (ma_dropped_transactions m) 1\<rparr> else m);
            (f1, overwrite) = insert_request (mh_transaction_id h) (mh_unit_id h) (pc_fc c) (pc_timestamp c) f
        in (if overwrite \<noteq> None
            then m1\<lparr>ma_duplicate_inflight_txn := sat_add64 (ma_duplicate_inflight_txn m1) 1\<rparr> else m1, f1)
      else (m, f))"

definition is_register_write :: "u8 \<Rightarrow> bool" where
  "is_register_write fc = (fc \<in> {0x06, 0x10, 0x16, 0x17})"

definition is_coil_write :: "u8 \<Rightarrow> bool" where
  "is_coil_write fc = (fc \<in> {0x05, 0x0F})"

text \<open>The T0831 window: the update and whether the co-tag fires.\<close>

definition t0831_update :: "pdu_context \<Rightarrow> modbus_flow_state \<Rightarrow> modbus_flow_state \<times> bool" where
  "t0831_update c f =
     (if is_register_write (pc_fc c) then
        if sat_subw (pc_timestamp c) (mf_t0831_window_start_ts f) > t0831_window_secs
        then (f\<lparr>mf_t0831_window_start_ts := pc_timestamp c, mf_t0831_window_write_count := 1,
                mf_t0831_burst_emitted := False\<rparr>, False)
        else let f1 = f\<lparr>mf_t0831_window_write_count := sat_addw (mf_t0831_window_write_count f) 1\<rparr> in
             if mf_t0831_window_write_count f1 \<ge> 2 \<and> \<not> mf_t0831_burst_emitted f1
             then (f1\<lparr>mf_t0831_burst_emitted := True\<rparr>, True) else (f1, False)
      else (f, False))"

definition write_finding :: "pdu_context \<Rightarrow> bool \<Rightarrow> finding" where
  "write_finding c emit_t0831 =
     pdu_finding c Execution Likely Medium (pc_client_ip c)
       ([''T1692.001''] @
        (if is_register_write (pc_fc c) then [''T0836''] else if is_coil_write (pc_fc c) then [''T0835''] else []) @
        (if emit_t0831 then [''T0831''] else []))
       [Lit ''Modbus write command observed: FC 0x'', Hex2 (pc_fc c), Lit '' from unit '', unit_frag c]
       (Lit ''FC=0x'' # Hex2 (pc_fc c) # txn_frags c @ [Lit '' ADU bytes 0..'', Dec (length (pc_data c))])"

text \<open>The burst detector, a window of one second.\<close>

definition burst_finding :: "pdu_context \<Rightarrow> u32 \<Rightarrow> modbus_flow_state \<Rightarrow> finding" where
  "burst_finding c threshold f =
     pdu_finding c Execution Likely High (pc_client_ip c) [''T0806'', ''T1692.001'']
       [Lit ''Modbus write burst: '', Dec (unat (mf_window_write_count f)), Lit '' writes within '',
        Dec (unat write_burst_window_secs), Lit ''s window (unit '', unit_frag c, Lit '', threshold '',
        Dec (unat threshold), Lit ''/s)'']
       [Lit ''Burst threshold exceeded: '', Dec (unat (mf_window_write_count f)),
        Lit '' write FCs in 1s window; window_write_count='', Dec (unat (mf_window_write_count f)),
        Lit '' window_start_ts='', Dec (unat (mf_window_start_ts f)), Lit '' threshold='', Dec (unat threshold),
        Lit '' FC=0x'', Hex2 (pc_fc c), Lit '' UnitID='', unit_frag c]"

definition burst_update :: "pdu_context \<Rightarrow> u32 \<Rightarrow> modbus_flow_state \<Rightarrow> modbus_flow_state \<times> finding list" where
  "burst_update c threshold f =
     (if sat_subw (pc_timestamp c) (mf_window_start_ts f) > write_burst_window_secs
      then (f\<lparr>mf_window_start_ts := pc_timestamp c, mf_window_write_count := 1, mf_window_burst_emitted := False\<rparr>, [])
      else let f1 = f\<lparr>mf_window_write_count := sat_addw (mf_window_write_count f) 1\<rparr> in
           if mf_window_write_count f1 > threshold \<and> \<not> mf_window_burst_emitted f1
           then (f1\<lparr>mf_window_burst_emitted := True\<rparr>, [burst_finding c threshold f1]) else (f1, []))"

text \<open>The sustained detector, a window of at least two seconds.\<close>

definition sustained_finding :: "pdu_context \<Rightarrow> u32 \<Rightarrow> u32 \<Rightarrow> modbus_flow_state \<Rightarrow> finding" where
  "sustained_finding c threshold elapsed_secs f =
     pdu_finding c Execution Likely High (pc_client_ip c) [''T0806'', ''T1692.001'']
       [Lit ''Modbus write burst: '', Dec (unat (mf_sustained_window_write_count f)), Lit '' writes over '',
        Dec (unat elapsed_secs), Lit ''s window (unit '', unit_frag c, Lit '', >'', Dec (unat threshold), Lit ''/s avg)'']
       [Lit ''Sustained write rate exceeded: '', Dec (unat (mf_sustained_window_write_count f)), Lit '' writes over '',
        Dec (unat elapsed_secs), Lit '' seconds (>'', Dec (unat threshold), Lit ''/s average); sustained_window_start_ts='',
        Dec (unat (mf_sustained_window_start_ts f)), Lit '' FC=0x'', Hex2 (pc_fc c), Lit '' UnitID='', unit_frag c]"

text \<open>The product of two \<open>u32\<close> values fits a \<open>u64\<close>, so where the source evaluates it only
  after the other conjuncts, the model may evaluate it first.\<close>

definition sustained_update ::
  "pdu_context \<Rightarrow> u32 \<Rightarrow> modbus_flow_state \<Rightarrow> (modbus_flow_state \<times> finding list) rust"
where
  "sustained_update c threshold f =
     (if mf_sustained_window_write_count f = 0
      then Some (f\<lparr>mf_sustained_window_start_ts := pc_timestamp c, mf_sustained_window_write_count := 1,
                   mf_sustained_burst_emitted := False\<rparr>, [])
      else do {
        let f1 = f\<lparr>mf_sustained_window_write_count := sat_addw (mf_sustained_window_write_count f) 1\<rparr>;
        let elapsed_secs = sat_subw (pc_timestamp c) (mf_sustained_window_start_ts f1);
        limit \<leftarrow> mul64 (unat threshold) (unat elapsed_secs);
        let fires = (elapsed_secs \<ge> write_sustained_window_secs \<and> \<not> mf_sustained_burst_emitted f1 \<and>
                     unat (mf_sustained_window_write_count f1) > limit);
        let found = (if fires then [sustained_finding c threshold elapsed_secs f1] else []);
        let f2 = (if fires then f1\<lparr>mf_sustained_burst_emitted := True\<rparr> else f1);
        Some (if elapsed_secs \<ge> write_sustained_window_secs
              then f2\<lparr>mf_sustained_window_start_ts := pc_timestamp c, mf_sustained_window_write_count := 1,
                      mf_sustained_burst_emitted := False\<rparr>
              else f2, found)
      })"

definition detect_write ::
  "pdu_context \<Rightarrow> modbus_analyzer \<times> modbus_flow_state \<Rightarrow> ((modbus_analyzer \<times> modbus_flow_state) \<times> finding list) rust"
where
  "detect_write c mf = do {
     let (m, f) = mf;
     let m1 = m\<lparr>ma_total_write_count := sat_add64 (ma_total_write_count m) 1\<rparr>;
     let f1 = f\<lparr>mf_write_count := sat_add64 (mf_write_count f) 1\<rparr>;
     let (f2, emit_t0831) = t0831_update c f1;
     let (f3, burst) = burst_update c (ma_write_burst_threshold m1) f2;
     (f4, sustained) \<leftarrow> sustained_update c (ma_write_sustained_threshold m1) f3;
     Some ((m1, f4), write_finding c emit_t0831 # burst @ sustained)
   }"

definition detect_diagnostic :: "pdu_context \<Rightarrow> finding list" where
  "detect_diagnostic c =
     (if pc_fc c = 0x08 \<and> 10 \<le> length (pc_data c) then
        let sub_func = be16 (pc_data c ! 8) (pc_data c ! 9) in
        if sub_func = 0x0001 \<or> sub_func = 0x0004 then
          [pdu_finding c Anomaly Likely High (pc_client_ip c) [''T0814'']
             [Lit ''Modbus Diagnostics DoS sub-function 0x'', Hex4 sub_func, Lit '' detected'']
             [Lit ''FC=0x08 sub-func=0x'', Hex4 sub_func, Lit '' unit_id=0x'', Hex2 (mh_unit_id (pc_header c))]]
        else if sub_func = 0x000A then
          [pdu_finding c Anomaly Inconclusive Medium (pc_client_ip c) []
             [Lit ''Modbus anti-forensic: Clear Counters (0x08/0x000A) sent to unit '', unit_frag c]
             (Lit ''FC=0x08 SubFunc=0x000A'' # txn_frags c)]
        else []
      else [])"

subsection \<open>Responses\<close>

definition exception_code :: "pdu_context \<Rightarrow> u8" where
  "exception_code c = (if 9 \<le> length (pc_data c) then pc_data c ! 8 else 0xFF)"

definition exception_finding :: "pdu_context \<Rightarrow> u32 \<Rightarrow> finding" where
  "exception_finding c cur_count =
     (let exc_code = exception_code c; orig_fc = pc_fc c AND 0x7F in
      pdu_finding c Anomaly Inconclusive Medium (pc_server_ip c)
        (if exc_code = 0x01 \<or> exc_code = 0x02 then [''T0888''] else [])
        (if exc_code = 0x01 then
           [Lit ''Modbus recon: '', Dec (unat cur_count), Lit '' Illegal Function exceptions in window (unit '',
            unit_frag c, Lit '') -- possible FC scanning'']
         else if exc_code = 0x02 then
           [Lit ''Modbus recon: '', Dec (unat cur_count), Lit '' Illegal Data Address exceptions in window (unit '',
            unit_frag c, Lit '') -- possible register map enumeration'']
         else
           [Lit ''Modbus exception anomaly: '', Dec (unat cur_count), Lit '' exceptions code 0x'', Hex2 exc_code,
            Lit '' in window (unit '', unit_frag c, Lit '')''])
        [Lit ''exception_fc=0x'', Hex2 (pc_fc c), Lit '' exception_code=0x'', Hex2 exc_code,
         Lit '' window_count='', Dec (unat cur_count), Lit '' original_fc=0x'', Hex2 orig_fc])"

definition exception_update :: "pdu_context \<Rightarrow> modbus_flow_state \<Rightarrow> (modbus_flow_state \<times> finding list) rust" where
  "exception_update c f = do {
     let exc_code = exception_code c;
     let start = (case hm_get (mf_exception_window_start_ts f) exc_code of Some t \<Rightarrow> t | None \<Rightarrow> pc_timestamp c);
     if sat_subw (pc_timestamp c) start > exception_window_secs
     then Some (f\<lparr>mf_exception_window_counts := hm_insert exc_code 1 (mf_exception_window_counts f),
                  mf_exception_window_start_ts := hm_insert exc_code (pc_timestamp c) (mf_exception_window_start_ts f),
                  mf_exception_burst_emitted := hm_insert exc_code False (mf_exception_burst_emitted f)\<rparr>, [])
     else do {
       let starts = (if hm_get (mf_exception_window_start_ts f) exc_code = None
                     then hm_insert exc_code (pc_timestamp c) (mf_exception_window_start_ts f)
                     else mf_exception_window_start_ts f);
       cur_count \<leftarrow> addw (case hm_get (mf_exception_window_counts f) exc_code of Some n \<Rightarrow> n | None \<Rightarrow> 0) 1;
       let emitted = (hm_get (mf_exception_burst_emitted f) exc_code = Some True);
       let f1 = f\<lparr>mf_exception_window_start_ts := starts,
                  mf_exception_window_counts := hm_insert exc_code cur_count (mf_exception_window_counts f)\<rparr>;
       Some (if cur_count > exception_rate_threshold \<and> \<not> emitted
             then (f1\<lparr>mf_exception_burst_emitted := hm_insert exc_code True (mf_exception_burst_emitted f1)\<rparr>,
                   [exception_finding c cur_count])
             else (f1, []))
     }
   }"

definition detect_response ::
  "pdu_context \<Rightarrow> modbus_analyzer \<times> modbus_flow_state \<Rightarrow> ((modbus_analyzer \<times> modbus_flow_state) \<times> finding list) rust"
where
  "detect_response c mf =
     (let (m, f) = mf; h = pc_header c in
      if classify_fc (pc_fc c) = Exception then do {
        let m1 = m\<lparr>ma_total_exception_count := sat_add64 (ma_total_exception_count m) 1\<rparr>;
        let f1 = f\<lparr>mf_exception_count := sat_add64 (mf_exception_count f) 1\<rparr>;
        let f2 = fst (attribute_exception (mh_transaction_id h) (mh_unit_id h) (pc_fc c) f1);
        (f3, found) \<leftarrow> exception_update c f2;
        Some ((m1, f3), found)
      }
      else Some ((m, fst (match_response (mh_transaction_id h) (mh_unit_id h) (pc_fc c) f)), []))"

definition detect_request ::
  "pdu_context \<Rightarrow> modbus_analyzer \<times> modbus_flow_state \<Rightarrow> ((modbus_analyzer \<times> modbus_flow_state) \<times> finding list) rust"
where
  "detect_request c mf =
     (let mf1 = note_request c mf in
      case classify_fc (pc_fc c) of
        Write \<Rightarrow> detect_write c mf1
      | Diagnostic \<Rightarrow> Some (mf1, detect_diagnostic c)
      | _ \<Rightarrow> Some (mf1, []))"

subsection \<open>The PDU\<close>

definition push_modbus_finding :: "finding \<Rightarrow> modbus_analyzer \<Rightarrow> modbus_analyzer" where
  "push_modbus_finding fi m =
     (if modbus_max_findings \<le> length (ma_all_findings m)
      then m\<lparr>ma_dropped_findings := sat_add64 (ma_dropped_findings m) 1\<rparr>
      else m\<lparr>ma_all_findings := ma_all_findings m @ [fi]\<rparr>)"

definition pdu_context_of :: "flow_key \<Rightarrow> direction \<Rightarrow> mbap_header \<Rightarrow> u8 \<Rightarrow> bytes \<Rightarrow> u32 \<Rightarrow> pdu_context" where
  "pdu_context_of key dir header fc data ts =
     \<lparr>pc_client_ip = fst (resolve_endpoints key), pc_server_ip = snd (resolve_endpoints key),
      pc_direction = dir, pc_header = header, pc_fc = fc, pc_data = data, pc_timestamp = ts\<rparr>"

text \<open>The counters at the start of \<open>process_pdu\<close>.\<close>

definition count_pdu ::
  "pdu_context \<Rightarrow> modbus_analyzer \<times> modbus_flow_state \<Rightarrow> (modbus_analyzer \<times> modbus_flow_state) rust"
where
  "count_pdu c mf = do {
     let (m, f) = mf;
     let m1 = (if mf_pdu_count f = 0
               then m\<lparr>ma_total_flows_analyzed := sat_add64 (ma_total_flows_analyzed m) 1\<rparr> else m);
     let f1 = f\<lparr>mf_pdu_count := sat_add64 (mf_pdu_count f) 1, mf_last_ts := pc_timestamp c\<rparr>;
     n \<leftarrow> add64 (case hm_get (ma_fn_code_counts m) (pc_fc c) of Some n \<Rightarrow> n | None \<Rightarrow> 0) 1;
     Some (m1\<lparr>ma_total_pdu_count := sat_add64 (ma_total_pdu_count m1) 1,
              ma_fn_code_counts := hm_insert (pc_fc c) n (ma_fn_code_counts m1)\<rparr>, f1)
   }"

definition process_pdu ::
  "flow_key \<Rightarrow> direction \<Rightarrow> mbap_header \<Rightarrow> u8 \<Rightarrow> bytes \<Rightarrow> u32 \<Rightarrow> modbus_analyzer \<times> modbus_flow_state
   \<Rightarrow> ((modbus_analyzer \<times> modbus_flow_state) \<times> finding list) rust"
where
  "process_pdu key dir header fc data ts mf = do {
     let c = pdu_context_of key dir header fc data ts;
     mf1 \<leftarrow> count_pdu c mf;
     ((m2, f2), found) \<leftarrow>
       (case dir of ClientToServer \<Rightarrow> detect_request c mf1 | ServerToClient \<Rightarrow> detect_response c mf1);
     let local_findings = recon_findings c @ found;
     Some ((fold push_modbus_finding local_findings m2, f2), local_findings)
   }"

section \<open>The stream handler\<close>

fun dir_carry :: "direction \<Rightarrow> modbus_flow_state \<Rightarrow> bytes" where
  "dir_carry ClientToServer f = mf_carry_c2s f"
| "dir_carry ServerToClient f = mf_carry_s2c f"

fun set_dir_carry :: "direction \<Rightarrow> bytes \<Rightarrow> modbus_flow_state \<Rightarrow> modbus_flow_state" where
  "set_dir_carry ClientToServer bs f = f\<lparr>mf_carry_c2s := bs\<rparr>"
| "set_dir_carry ServerToClient bs f = f\<lparr>mf_carry_s2c := bs\<rparr>"

definition count_parse_error :: "modbus_analyzer \<Rightarrow> modbus_analyzer" where
  "count_parse_error m = m\<lparr>ma_parse_errors := sat_add64 (ma_parse_errors m) 1\<rparr>"

text \<open>Keeping an incomplete ADU for the next chunk of the direction.\<close>

definition stash ::
  "direction \<Rightarrow> bytes \<Rightarrow> modbus_analyzer \<times> modbus_flow_state \<Rightarrow> modbus_analyzer \<times> modbus_flow_state"
where
  "stash dir remaining mf =
     (let (m, f) = mf in
      if length (dir_carry dir f) + length remaining > max_adu_carry_bytes
      then (count_parse_error m, f\<lparr>mf_is_non_modbus := True\<rparr>)
      else (m, set_dir_carry dir (dir_carry dir f @ remaining) f))"

text \<open>The loop of \<open>on_data\<close>, on the bytes from \<open>pos\<close> on.\<close>

function modbus_walk ::
  "flow_key \<Rightarrow> direction \<Rightarrow> u32 \<Rightarrow> bytes \<Rightarrow> modbus_analyzer \<times> modbus_flow_state
   \<Rightarrow> (modbus_analyzer \<times> modbus_flow_state) rust"
where
  "modbus_walk key dir ts remaining mf =
     (if remaining = [] then Some mf
      else case parse_mbap_header remaining of
        None \<Rightarrow> Some (stash dir remaining mf)
      | Some header \<Rightarrow>
          if \<not> is_valid_modbus_adu header
          then Some (count_parse_error (fst mf),
                     (snd mf)\<lparr>mf_is_non_modbus := True, mf_carry_c2s := [], mf_carry_s2c := []\<rparr>)
          else let adu_len = 6 + unat (mh_length header) in
            if length remaining < adu_len then Some (stash dir remaining mf)
            else case process_pdu key dir header (mh_function_code header) (take adu_len remaining) ts mf of
                   None \<Rightarrow> None
                 | Some (mf', _) \<Rightarrow> modbus_walk key dir ts (drop adu_len remaining) mf')"
  by pat_completeness auto
termination
  by (relation "measure (\<lambda>(key, dir, ts, remaining, mf). length remaining)") (auto simp: diff_less)

declare modbus_walk.simps [simp del]

definition modbus_on_data ::
  "modbus_analyzer \<Rightarrow> flow_key \<Rightarrow> direction \<Rightarrow> bytes \<Rightarrow> u64 \<Rightarrow> u32 \<Rightarrow> modbus_analyzer rust"
where
  "modbus_on_data m key dir data off ts = do {
     let flow = (case hm_get (ma_flows m) key of Some f \<Rightarrow> f | None \<Rightarrow> modbus_flow_state_default);
     let m1 = m\<lparr>ma_flows := hm_remove key (ma_flows m)\<rparr>;
     if mf_is_non_modbus flow then Some (m1\<lparr>ma_flows := hm_insert key flow (ma_flows m1)\<rparr>)
     else do {
       let buf = dir_carry dir flow @ data;
       (m2, flow2) \<leftarrow> modbus_walk key dir ts buf (m1, set_dir_carry dir [] flow);
       Some (m2\<lparr>ma_flows := hm_insert key flow2 (ma_flows m2)\<rparr>)
     }
   }"

definition modbus_on_flow_close :: "modbus_analyzer \<Rightarrow> flow_key \<Rightarrow> close_reason \<Rightarrow> modbus_analyzer rust" where
  "modbus_on_flow_close m key reason = Some (m\<lparr>ma_flows := hm_remove key (ma_flows m)\<rparr>)"

definition modbus_handler :: "modbus_analyzer stream_handler" where
  "modbus_handler = \<lparr>on_data = modbus_on_data, on_flow_close = modbus_on_flow_close\<rparr>"

definition modbus_summarize :: "modbus_analyzer \<Rightarrow> analysis_summary" where
  "modbus_summarize m =
     \<lparr>analyzer_name = ''modbus'', packets_analyzed = ma_total_pdu_count m,
      detail = [''pdu_count'' \<mapsto> Num (ma_total_pdu_count m),
                ''write_count'' \<mapsto> Num (ma_total_write_count m),
                ''exception_count'' \<mapsto> Num (ma_total_exception_count m),
                ''parse_errors'' \<mapsto> Num (ma_parse_errors m),
                ''dropped_findings'' \<mapsto> Num (ma_dropped_findings m),
                ''dropped_transactions'' \<mapsto> Num (ma_dropped_transactions m),
                ''function_code_distribution'' \<mapsto>
                  Distribution (\<lambda>fc. case hm_get (ma_fn_code_counts m) fc of
                                        Some n \<Rightarrow> if n > 0 then Some n else None
                                      | None \<Rightarrow> None)]\<rparr>"

definition modbus_findings :: "modbus_analyzer \<Rightarrow> finding list" where
  "modbus_findings m = ma_all_findings m"

end
