(* ===== verification/Modbus_Inv.thy ===== *)
theory Modbus_Inv
  imports Modbus Engine_Run
begin

text \<open>
  The invariant of the Modbus analyzer: its bounded tables and buffers, and counters
  that cannot run over before a given number of further bytes has been received. With
  it the analyzer is a client of the engine.
\<close>

section \<open>Parsing\<close>

lemma valid_adu_length:
  assumes "is_valid_modbus_adu h"
  shows "2 \<le> unat (mh_length h)" and "unat (mh_length h) \<le> 254"
  using assms by (simp_all add: is_valid_modbus_adu_def word_le_nat_alt)

lemma parse_Some: "parse_mbap_header bs = Some h \<Longrightarrow> 8 \<le> length bs"
  by (simp add: parse_mbap_header_def split: if_splits)

section \<open>The invariant\<close>

definition mf_carry :: "modbus_flow_state \<Rightarrow> nat" where
  "mf_carry f = length (mf_carry_c2s f) + length (mf_carry_s2c f)"

text \<open>Room for \<open>n\<close> more bytes in the exception windows of a flow; a PDU takes at least eight bytes.\<close>

definition windows_ok :: "nat \<Rightarrow> modbus_flow_state \<Rightarrow> bool" where
  "windows_ok n f \<longleftrightarrow> hm_ok (mf_exception_window_counts f) \<and>
     (\<forall>(code, k) \<in> set (mf_exception_window_counts f). 8 * unat k + n < 2 ^ 35) \<and> n < 2 ^ 35"

definition flow_tables_ok :: "modbus_flow_state \<Rightarrow> bool" where
  "flow_tables_ok f \<longleftrightarrow>
     hm_ok (mf_pending f) \<and> length (mf_pending f) \<le> max_pending_transactions"

definition carries_ok :: "modbus_flow_state \<Rightarrow> bool" where
  "carries_ok f \<longleftrightarrow>
     length (mf_carry_c2s f) < max_adu_carry_bytes \<and> length (mf_carry_s2c f) < max_adu_carry_bytes"

definition codes_ok :: "nat \<Rightarrow> modbus_analyzer \<Rightarrow> bool" where
  "codes_ok n m \<longleftrightarrow> hm_ok (ma_fn_code_counts m) \<and>
     (\<forall>(fc, k) \<in> set (ma_fn_code_counts m). 8 * k + n \<le> 8 * u64_max) \<and> n \<le> 8 * u64_max"

definition modbus_ok :: "nat \<Rightarrow> modbus_analyzer \<Rightarrow> bool" where
  "modbus_ok n m \<longleftrightarrow>
     hm_ok (ma_flows m) \<and> length (ma_all_findings m) \<le> modbus_max_findings \<and>
     codes_ok (weight mf_carry (ma_flows m) + n) m \<and> n < 2 ^ 35 \<and>
     (\<forall>(key, f) \<in> set (ma_flows m). flow_tables_ok f \<and> carries_ok f \<and> windows_ok (mf_carry f + n) f)"

lemma windows_ok_mono: "windows_ok (n + k) f \<Longrightarrow> windows_ok n f"
  by (auto simp: windows_ok_def)

lemma codes_ok_mono: "codes_ok (n + k) m \<Longrightarrow> codes_ok n m"
  by (auto simp: codes_ok_def)

lemma modbus_ok_mono:
  assumes "modbus_ok (n + k) m"
  shows "modbus_ok n m"
proof -
  have "windows_ok (mf_carry f + (n + k)) f \<Longrightarrow> windows_ok (mf_carry f + n) f" for f
    using windows_ok_mono [of "mf_carry f + n" k f] by (simp add: add.assoc)
  moreover have "codes_ok (weight mf_carry (ma_flows m) + (n + k)) m \<Longrightarrow> codes_ok (weight mf_carry (ma_flows m) + n) m"
    using codes_ok_mono [of "weight mf_carry (ma_flows m) + n" k m] by (simp add: add.assoc)
  ultimately show ?thesis using assms by (auto simp: modbus_ok_def)
qed

section \<open>One PDU\<close>

text \<open>What the detectors leave alone: the table of flows, the carry buffers, and, but for the
  one step each, the counters that do not saturate.\<close>

lemma insert_request_ok:
  assumes "flow_tables_ok f"
  shows "flow_tables_ok (fst (insert_request t u fc ts f))"
proof -
  have ok: "hm_ok (mf_pending f)" and n: "length (mf_pending f) \<le> max_pending_transactions"
    using assms by (auto simp: flow_tables_ok_def)
  show ?thesis
    using n hmap.size_put [OF ok, of "(t, u)" "(fc, ts)"] hm_ok_insert [OF ok, of "(t, u)" "(fc, ts)"] ok
    by (auto simp: insert_request_def Let_def flow_tables_ok_def)
qed

lemma remove_pending_ok:
  assumes "flow_tables_ok f"
  shows "flow_tables_ok (fst (match_response t u fc f))" and "flow_tables_ok (fst (attribute_exception t u fc f))"
proof -
  have ok: "hm_ok (mf_pending f)" and n: "length (mf_pending f) \<le> max_pending_transactions"
    using assms by (auto simp: flow_tables_ok_def)
  have "length (hm_remove (t, u) (mf_pending f)) \<le> max_pending_transactions"
    using n hmap.size_remove [OF ok, of "(t, u)"] by (auto split: if_splits)
  then show "flow_tables_ok (fst (match_response t u fc f))" "flow_tables_ok (fst (attribute_exception t u fc f))"
    using assms hm_ok_remove [OF ok, of "(t, u)"]
    by (auto simp: match_response_def attribute_exception_def flow_tables_ok_def Let_def split: option.split)
qed

text \<open>A change to a flow that touches neither the carries nor the exception windows.\<close>

definition mf_same :: "modbus_flow_state \<Rightarrow> modbus_flow_state \<Rightarrow> bool" where
  "mf_same f f' \<longleftrightarrow>
     mf_carry_c2s f' = mf_carry_c2s f \<and> mf_carry_s2c f' = mf_carry_s2c f \<and>
     mf_is_non_modbus f' = mf_is_non_modbus f \<and> (flow_tables_ok f \<longrightarrow> flow_tables_ok f')"

definition ma_same :: "modbus_analyzer \<Rightarrow> modbus_analyzer \<Rightarrow> bool" where
  "ma_same m m' \<longleftrightarrow>
     ma_flows m' = ma_flows m \<and> ma_fn_code_counts m' = ma_fn_code_counts m \<and>
     ma_all_findings m' = ma_all_findings m \<and>
     ma_write_burst_threshold m' = ma_write_burst_threshold m \<and>
     ma_write_sustained_threshold m' = ma_write_sustained_threshold m"

lemma note_request_same:
  assumes "note_request c (m, f) = (m', f')"
  shows "ma_same m m'" and "mf_same f f'" and "mf_exception_window_counts f' = mf_exception_window_counts f"
proof -
  have "ma_same m m' \<and> mf_same f f' \<and> mf_exception_window_counts f' = mf_exception_window_counts f"
  proof (cases "classify_fc (pc_fc c) = Exception")
    case True
    then show ?thesis using assms by (simp add: note_request_def ma_same_def mf_same_def)
  next
    case False
    obtain f1 ow where i: "insert_request (mh_transaction_id (pc_header c)) (mh_unit_id (pc_header c)) (pc_fc c) (pc_timestamp c) f = (f1, ow)"
      by force
    have "flow_tables_ok f \<Longrightarrow> flow_tables_ok f1" using insert_request_ok [of f] i by (metis fst_conv)
    moreover have "f1 = f \<or> (\<exists>p. f1 = f\<lparr>mf_pending := p\<rparr>)"
      using i by (auto simp: insert_request_def Let_def split: if_splits)
    ultimately show ?thesis
      using assms False i by (auto simp: note_request_def ma_same_def mf_same_def Let_def)
  qed
  then show "ma_same m m'" "mf_same f f'" "mf_exception_window_counts f' = mf_exception_window_counts f" by auto
qed

lemma updates_same:
  "mf_same f (fst (t0831_update c f))" "mf_exception_window_counts (fst (t0831_update c f)) = mf_exception_window_counts f"
  "mf_same f (fst (burst_update c th f))" "mf_exception_window_counts (fst (burst_update c th f)) = mf_exception_window_counts f"
  by (auto simp: t0831_update_def burst_update_def Let_def mf_same_def flow_tables_ok_def)

lemma sustained_update_same:
  "\<exists>f' found. sustained_update c th f = Some (f', found) \<and> mf_same f f' \<and>
     mf_exception_window_counts f' = mf_exception_window_counts f"
proof -
  have "unat (a :: u32) * unat (b :: u32) \<le> u64_max" for a b
    using mult_le_mono [of "unat a" "2 ^ 32 - 1" "unat b" "2 ^ 32 - 1"] unat_u32_less [of a] unat_u32_less [of b]
    by (simp add: u64_max_def)
  then have "mul64 (unat a) (unat b) = Some (unat a * unat b)" for a b :: u32 by (simp add: mul64_def)
  then show ?thesis by (auto simp: sustained_update_def Let_def mf_same_def flow_tables_ok_def)
qed

lemma mf_same_trans: "mf_same f g \<Longrightarrow> mf_same g h \<Longrightarrow> mf_same f h"
  by (auto simp: mf_same_def)


definition pair_ok :: "nat \<Rightarrow> nat \<Rightarrow> modbus_analyzer \<Rightarrow> modbus_flow_state \<Rightarrow> bool" where
  "pair_ok a b m f \<longleftrightarrow>
     codes_ok a m \<and> length (ma_all_findings m) \<le> modbus_max_findings \<and> flow_tables_ok f \<and> windows_ok b f"

lemma windows_ok_same:
  "windows_ok n f \<Longrightarrow> mf_exception_window_counts f' = mf_exception_window_counts f \<Longrightarrow> windows_ok n f'"
  by (simp add: windows_ok_def)

lemma pair_ok_same:
  assumes "pair_ok a b m f" and "ma_same m m'" and "mf_same f f'"
    and "mf_exception_window_counts f' = mf_exception_window_counts f"
  shows "pair_ok a b m' f'"
  using assms by (simp add: pair_ok_def ma_same_def mf_same_def codes_ok_def windows_ok_def)

lemma count_pdu_safe:
  assumes "pair_ok (8 + a) b m f"
  shows "\<exists>m' f'. count_pdu c (m, f) = Some (m', f') \<and> pair_ok a b m' f' \<and> mf_same f f' \<and> ma_flows m' = ma_flows m"
proof -
  let ?k = "case hm_get (ma_fn_code_counts m) (pc_fc c) of Some n \<Rightarrow> n | None \<Rightarrow> 0"
  have ok: "hm_ok (ma_fn_code_counts m)" and bound: "\<forall>(fc, k) \<in> set (ma_fn_code_counts m). 8 * k + (8 + a) \<le> 8 * u64_max"
    and a: "8 + a \<le> 8 * u64_max"
    using assms by (auto simp: pair_ok_def codes_ok_def)
  have k: "8 * ?k + (8 + a) \<le> 8 * u64_max"
    using bound a by (auto split: option.split simp: hmap.get_iff [OF ok])
  then have "add64 ?k 1 = Some (?k + 1)" by (simp del: One_nat_def)
  moreover have "codes_ok a (m\<lparr>ma_fn_code_counts := hm_insert (pc_fc c) (?k + 1) (ma_fn_code_counts m)\<rparr>)"
    using bound k a hm_ok_insert [OF ok] by (auto simp: codes_ok_def hmap.set_put [OF ok])
  ultimately show ?thesis
    using assms
    by (auto simp: count_pdu_def Let_def pair_ok_def codes_ok_def mf_same_def flow_tables_ok_def windows_ok_def)
qed

lemma detect_write_safe:
  assumes "pair_ok a b m f"
  shows "\<exists>m' f' found. detect_write c (m, f) = Some ((m', f'), found) \<and> pair_ok a b m' f' \<and> mf_same f f' \<and>
           ma_flows m' = ma_flows m"
proof -
  let ?m = "m\<lparr>ma_total_write_count := sat_add64 (ma_total_write_count m) 1\<rparr>"
  let ?f = "f\<lparr>mf_write_count := sat_add64 (mf_write_count f) 1\<rparr>"
  obtain f2 e where t: "t0831_update c ?f = (f2, e)" by force
  obtain f3 bs where u: "burst_update c (ma_write_burst_threshold ?m) f2 = (f3, bs)" by force
  obtain f4 ss where s: "sustained_update c (ma_write_sustained_threshold ?m) f3 = Some (f4, ss)" "mf_same f3 f4"
      "mf_exception_window_counts f4 = mf_exception_window_counts f3"
    using sustained_update_same by blast
  have "mf_same f ?f" by (simp add: mf_same_def flow_tables_ok_def)
  moreover have "mf_same ?f f2" "mf_same f2 f3" using updates_same t u by (metis fst_conv)+
  ultimately have same: "mf_same f f4" using s(2) mf_same_trans by blast
  have "mf_exception_window_counts f4 = mf_exception_window_counts f"
    using s(3) updates_same(2) [of c ?f] updates_same(4) [of c "ma_write_burst_threshold ?m" f2] t u by simp
  then have "pair_ok a b ?m f4"
    using pair_ok_same [OF assms _ same, of ?m] by (simp add: ma_same_def)
  moreover have "detect_write c (m, f) = Some ((?m, f4), write_finding c e # bs @ ss)"
    using t u s(1) by (simp add: detect_write_def Let_def del: One_nat_def)
  ultimately show ?thesis using same by auto
qed

lemma note_request_safe:
  assumes "pair_ok a b m f"
  shows "\<exists>m' f'. note_request c (m, f) = (m', f') \<and> pair_ok a b m' f' \<and> mf_same f f' \<and> ma_flows m' = ma_flows m"
proof -
  obtain m' f' where n: "note_request c (m, f) = (m', f')" by force
  from note_request_same [OF n] pair_ok_same [OF assms] n show ?thesis by (auto simp: ma_same_def)
qed

lemma detect_request_safe:
  assumes "pair_ok a b m f"
  shows "\<exists>m' f' found. detect_request c (m, f) = Some ((m', f'), found) \<and> pair_ok a b m' f' \<and> mf_same f f' \<and>
           ma_flows m' = ma_flows m"
proof -
  obtain m1 f1 where n: "note_request c (m, f) = (m1, f1)" "pair_ok a b m1 f1" "mf_same f f1" "ma_flows m1 = ma_flows m"
    using note_request_safe [OF assms] by blast
  show ?thesis
    using n detect_write_safe [OF n(2), of c] mf_same_trans [OF n(3)]
    by (auto simp: detect_request_def Let_def split: function_code_class.split)
qed

lemma exception_update_safe:
  assumes "windows_ok (8 + b) f" and "flow_tables_ok f"
  shows "\<exists>f' found. exception_update c f = Some (f', found) \<and> windows_ok b f' \<and> mf_same f f'"
proof -
  let ?code = "exception_code c" and ?m = "mf_exception_window_counts f"
  let ?k = "case hm_get ?m ?code of Some n \<Rightarrow> n | None \<Rightarrow> 0"
  have ok: "hm_ok ?m" and bound: "\<forall>(code, k) \<in> set ?m. 8 * unat k + (8 + b) < 2 ^ 35" and b: "8 + b < 2 ^ 35"
    using assms by (auto simp: windows_ok_def)
  have k: "8 * unat ?k + (8 + b) < 2 ^ 35"
    using bound b by (auto split: option.split simp: hmap.get_iff [OF ok])
  then have add: "addw ?k 1 = Some (?k + 1)" and up: "unat (?k + 1) = unat ?k + 1"
    by (simp_all add: addw_def unat_word_ariths)
  have put: "\<forall>(code, k) \<in> set (hm_insert ?code v ?m). 8 * unat k + b < 2 ^ 35" if "8 * unat v + b < 2 ^ 35" for v
    using that bound by (auto simp: hmap.set_put [OF ok])
  have w: "windows_ok b (f\<lparr>mf_exception_window_counts := hm_insert ?code v ?m\<rparr>)" if "8 * unat v + b < 2 ^ 35" for v
    using put [OF that] b hm_ok_insert [OF ok] by (simp add: windows_ok_def)
  have one: "8 * unat (1 :: u32) + b < 2 ^ 35" using b by simp
  have cur: "8 * unat (?k + 1) + b < 2 ^ 35" using k up by simp
  show ?thesis
    using w [OF one] w [OF cur] assms(2)
    by (auto simp: exception_update_def Let_def add [simplified] mf_same_def flow_tables_ok_def windows_ok_def)
qed

lemma detect_response_safe:
  assumes "pair_ok a (8 + b) m f"
  shows "\<exists>m' f' found. detect_response c (m, f) = Some ((m', f'), found) \<and> pair_ok a b m' f' \<and> mf_same f f' \<and>
           ma_flows m' = ma_flows m"
proof (cases "classify_fc (pc_fc c) = Exception")
  case True
  let ?f1 = "f\<lparr>mf_exception_count := sat_add64 (mf_exception_count f) 1\<rparr>" and ?h = "pc_header c"
  obtain f2 r where at: "attribute_exception (mh_transaction_id ?h) (mh_unit_id ?h) (pc_fc c) ?f1 = (f2, r)" by force
  have t1: "flow_tables_ok ?f1" using assms by (simp add: pair_ok_def flow_tables_ok_def)
  have t2: "flow_tables_ok f2" using remove_pending_ok(2) [OF t1] at by (metis fst_conv)
  have f2: "mf_exception_window_counts f2 = mf_exception_window_counts f" "mf_carry_c2s f2 = mf_carry_c2s f"
      "mf_carry_s2c f2 = mf_carry_s2c f" "mf_is_non_modbus f2 = mf_is_non_modbus f"
    using at by (auto simp: attribute_exception_def Let_def split: option.splits if_splits)
  have "windows_ok (8 + b) f2" using assms windows_ok_same [OF _ f2(1)] by (simp add: pair_ok_def)
  from exception_update_safe [OF this t2] obtain f3 found
    where e: "exception_update c f2 = Some (f3, found)" "windows_ok b f3" "mf_same f2 f3" by blast
  have "mf_same f f3" "flow_tables_ok f3" using e(3) f2 t2 by (simp_all add: mf_same_def)
  moreover have "detect_response c (m, f) =
      Some ((m\<lparr>ma_total_exception_count := sat_add64 (ma_total_exception_count m) 1\<rparr>, f3), found)"
    using True e(1) at by (simp add: detect_response_def Let_def del: One_nat_def)
  ultimately show ?thesis using assms e(2) by (auto simp: pair_ok_def codes_ok_def)
next
  case False
  have "flow_tables_ok f" using assms by (simp add: pair_ok_def)
  from remove_pending_ok(1) [OF this] False show ?thesis
    using assms windows_ok_mono [of b 8 f]
    by (auto simp: detect_response_def Let_def pair_ok_def mf_same_def match_response_def windows_ok_def)
qed

lemma push_modbus_findings_ok:
  "pair_ok a b m f \<Longrightarrow> pair_ok a b (fold push_modbus_finding fs m) f \<and>
     ma_flows (fold push_modbus_finding fs m) = ma_flows m"
proof (induction fs arbitrary: m)
  case (Cons x fs)
  have "pair_ok a b (push_modbus_finding x m) f" "ma_flows (push_modbus_finding x m) = ma_flows m"
    using Cons.prems by (auto simp: push_modbus_finding_def pair_ok_def codes_ok_def)
  with Cons.IH [of "push_modbus_finding x m"] show ?case by simp
qed simp

lemma pair_ok_mono: "pair_ok a (8 + b) m f \<Longrightarrow> pair_ok a b m f"
  using windows_ok_mono [of b 8 f] by (simp add: pair_ok_def add.commute)

lemma process_pdu_safe:
  assumes "pair_ok (8 + a) (8 + b) m f"
  shows "\<exists>m' f' found. process_pdu key dir h fc data ts (m, f) = Some ((m', f'), found) \<and> pair_ok a b m' f' \<and>
           mf_same f f' \<and> ma_flows m' = ma_flows m"
proof -
  let ?c = "pdu_context_of key dir h fc data ts"
  obtain m1 f1 where c: "count_pdu ?c (m, f) = Some (m1, f1)" "pair_ok a (8 + b) m1 f1" "mf_same f f1" "ma_flows m1 = ma_flows m"
    using count_pdu_safe [OF assms] by blast
  have "\<exists>m2 f2 found. (case dir of ClientToServer \<Rightarrow> detect_request ?c (m1, f1) | ServerToClient \<Rightarrow> detect_response ?c (m1, f1))
           = Some ((m2, f2), found) \<and> pair_ok a b m2 f2 \<and> mf_same f1 f2 \<and> ma_flows m2 = ma_flows m1"
    using detect_request_safe [OF pair_ok_mono [OF c(2)], of ?c] detect_response_safe [OF c(2), of ?c] by (cases dir) auto
  then obtain m2 f2 found
    where d: "(case dir of ClientToServer \<Rightarrow> detect_request ?c (m1, f1) | ServerToClient \<Rightarrow> detect_response ?c (m1, f1))
           = Some ((m2, f2), found)" "pair_ok a b m2 f2" "mf_same f1 f2" "ma_flows m2 = ma_flows m1" by blast
  have "process_pdu key dir h fc data ts (m, f) =
      Some ((fold push_modbus_finding (recon_findings ?c @ found) m2, f2), recon_findings ?c @ found)"
    using c(1) d(1) by (simp add: process_pdu_def Let_def)
  with push_modbus_findings_ok [OF d(2), of "recon_findings ?c @ found"] d(4) c(4) mf_same_trans [OF c(3) d(3)]
  show ?thesis by auto
qed

section \<open>The walk over a chunk\<close>

lemma pair_ok_less: "pair_ok a b m f \<Longrightarrow> a' \<le> a \<Longrightarrow> b' \<le> b \<Longrightarrow> pair_ok a' b' m f"
  using codes_ok_mono [of a' "a - a'" m] windows_ok_mono [of b' "b - b'" f] by (simp add: pair_ok_def)

text \<open>An incomplete ADU is shorter than the longest valid one, so the guard of \<open>stash\<close> never fires.\<close>

lemma stash_short:
  assumes "dir_carry dir f = []" and "length rem < max_adu_carry_bytes"
  shows "stash dir rem (m, f) = (m, set_dir_carry dir rem f)"
  using assms by (simp add: stash_def)

lemma set_dir_carry_frame [simp]:
  "flow_tables_ok (set_dir_carry dir bs f) = flow_tables_ok f"
  "windows_ok n (set_dir_carry dir bs f) = windows_ok n f"
  "pair_ok a b m (set_dir_carry dir bs f) = pair_ok a b m f"
  "dir_carry dir (set_dir_carry dir bs f) = bs"
  "mf_is_non_modbus (set_dir_carry dir bs f) = mf_is_non_modbus f"
  by (cases dir; simp add: flow_tables_ok_def windows_ok_def pair_ok_def)+

lemma mf_carry_set: "mf_carry (set_dir_carry dir bs f) + length (dir_carry dir f) = mf_carry f + length bs"
  by (cases dir) (simp_all add: mf_carry_def)

lemma carries_ok_set: "carries_ok f \<Longrightarrow> length bs < max_adu_carry_bytes \<Longrightarrow> carries_ok (set_dir_carry dir bs f)"
  by (cases dir) (simp_all add: carries_ok_def)

lemma mf_same_carry:
  assumes "mf_same f f'"
  shows "mf_carry f' = mf_carry f" and "dir_carry dir f' = dir_carry dir f" and "carries_ok f' = carries_ok f"
  using assms by (cases dir; simp add: mf_same_def mf_carry_def carries_ok_def)+

lemma modbus_walk_safe:
  assumes "pair_ok (w + (mf_carry f + length rem)) (n + (mf_carry f + length rem)) m f"
    and "dir_carry dir f = []" and "carries_ok f"
  shows "\<exists>m' f'. modbus_walk key dir ts rem (m, f) = Some (m', f') \<and> pair_ok (w + mf_carry f') (n + mf_carry f') m' f' \<and>
           carries_ok f' \<and> ma_flows m' = ma_flows m"
  using assms
proof (induction rem arbitrary: m f rule: length_induct)
  case (1 rem)
  have kept: ?case if "modbus_walk key dir ts rem (m, f) = Some (stash dir rem (m, f))" "length rem < max_adu_carry_bytes"
  proof -
    let ?f = "set_dir_carry dir rem f"
    have "modbus_walk key dir ts rem (m, f) = Some (m, ?f)" "carries_ok ?f"
      using that stash_short [OF "1.prems"(2) that(2)] carries_ok_set [OF "1.prems"(3) that(2)] by simp_all
    moreover have "mf_carry ?f = mf_carry f + length rem" using mf_carry_set [of dir rem f] "1.prems"(2) by simp
    ultimately show ?thesis using "1.prems"(1) by simp
  qed
  show ?case
  proof (cases "parse_mbap_header rem")
    case None
    then have "length rem < 8" by (simp add: parse_mbap_header_def split: if_splits)
    show ?thesis
    proof (cases "rem = []")
      case True
      then show ?thesis using "1.prems" by (simp add: modbus_walk.simps [of _ _ _ "[]"])
    next
      case False
      with None \<open>length rem < 8\<close> show ?thesis
        by (intro kept) (simp_all add: modbus_walk.simps [of _ _ _ rem] max_adu_carry_bytes_def)
    qed
  next
    case (Some h)
    have l: "8 \<le> length rem" by (rule parse_Some [OF Some])
    then have ne: "rem \<noteq> []" by auto
    let ?n = "6 + unat (mh_length h)"
    consider "\<not> is_valid_modbus_adu h" | "is_valid_modbus_adu h" "length rem < ?n" | "is_valid_modbus_adu h" "?n \<le> length rem"
      by linarith
    then show ?thesis
    proof cases
      case 1
      let ?f = "f\<lparr>mf_is_non_modbus := True, mf_carry_c2s := [], mf_carry_s2c := []\<rparr>"
      have "modbus_walk key dir ts rem (m, f) = Some (count_parse_error m, ?f)"
        using Some 1 ne by (simp add: modbus_walk.simps [of _ _ _ rem])
      moreover have "pair_ok w n m f" by (rule pair_ok_less [OF "1.prems"(1)]) simp_all
      then have "pair_ok w n (count_parse_error m) ?f"
        by (simp add: pair_ok_def codes_ok_def windows_ok_def flow_tables_ok_def count_parse_error_def)
      ultimately show ?thesis
        by (simp add: mf_carry_def carries_ok_def max_adu_carry_bytes_def count_parse_error_def)
    next
      case 2
      have "modbus_walk key dir ts rem (m, f) = Some (stash dir rem (m, f))"
        using Some 2 ne by (simp add: modbus_walk.simps [of _ _ _ rem] Let_def)
      then show ?thesis using kept 2 valid_adu_length [OF 2(1)] by (simp add: max_adu_carry_bytes_def)
    next
      case 3
      have "pair_ok (8 + (w + (mf_carry f + length (drop ?n rem)))) (8 + (n + (mf_carry f + length (drop ?n rem)))) m f"
        by (rule pair_ok_less [OF "1.prems"(1)]) (use 3 valid_adu_length [OF 3(1)] in auto)
      from process_pdu_safe [OF this] obtain m1 f1 found
        where p: "process_pdu key dir h (mh_function_code h) (take ?n rem) ts (m, f) = Some ((m1, f1), found)"
          "pair_ok (w + (mf_carry f + length (drop ?n rem))) (n + (mf_carry f + length (drop ?n rem))) m1 f1"
          "mf_same f f1" "ma_flows m1 = ma_flows m" by blast
      have "modbus_walk key dir ts rem (m, f) = modbus_walk key dir ts (drop ?n rem) (m1, f1)"
        using Some 3 ne p(1) by (simp add: modbus_walk.simps [of _ _ _ rem] Let_def)
      moreover have "length (drop ?n rem) < length rem" using 3 ne by auto
      moreover have "pair_ok (w + (mf_carry f1 + length (drop ?n rem))) (n + (mf_carry f1 + length (drop ?n rem))) m1 f1"
          "dir_carry dir f1 = []" "carries_ok f1"
        using p(2) mf_same_carry [OF p(3)] "1.prems"(2,3) by auto
      ultimately show ?thesis using "1.IH" p(4) by metis
    qed
  qed
qed

section \<open>The analyzer as a client of the engine\<close>

lemma modbus_ok_remove:
  assumes "modbus_ok n m"
  shows "modbus_ok n (m\<lparr>ma_flows := hm_remove key (ma_flows m)\<rparr>)"
proof -
  have ok: "hm_ok (ma_flows m)" using assms by (simp add: modbus_ok_def)
  have "weight mf_carry (hm_remove key (ma_flows m)) \<le> weight mf_carry (ma_flows m)"
    using hmap.weight_remove [OF ok, of mf_carry key] by linarith
  then have "codes_ok (weight mf_carry (hm_remove key (ma_flows m)) + n) m"
    using assms codes_ok_mono [of "weight mf_carry (hm_remove key (ma_flows m)) + n"
        "weight mf_carry (ma_flows m) - weight mf_carry (hm_remove key (ma_flows m))" m]
    by (simp add: modbus_ok_def add.commute)
  then show ?thesis
    using assms hm_ok_remove [OF ok, of key] by (auto simp: modbus_ok_def codes_ok_def hmap.set_remove [OF ok])
qed

lemma modbus_ok_insert:
  assumes "hm_ok (ma_flows m)" and "hm_get (ma_flows m) key = None"
    and "\<forall>(k, g) \<in> set (ma_flows m). flow_tables_ok g \<and> carries_ok g \<and> windows_ok (mf_carry g + n) g"
    and "pair_ok (weight mf_carry (ma_flows m) + n + mf_carry f) (n + mf_carry f) m f" and "carries_ok f" and "n < 2 ^ 35"
  shows "modbus_ok n (m\<lparr>ma_flows := hm_insert key f (ma_flows m)\<rparr>)"
proof -
  have "weight mf_carry (hm_insert key f (ma_flows m)) = weight mf_carry (ma_flows m) + mf_carry f"
    using hmap.weight_put [OF assms(1), of mf_carry key f] assms(2) by simp
  then show ?thesis
    using assms hm_ok_insert [OF assms(1), of key f]
    by (auto simp: modbus_ok_def pair_ok_def codes_ok_def hmap.set_put [OF assms(1)] ac_simps)
qed

text \<open>The flow \<open>on_data\<close> takes out of the table, or a fresh one, and the table without it.\<close>

lemma modbus_take_flow:
  assumes "modbus_ok n m" and "f = (case hm_get (ma_flows m) key of Some f \<Rightarrow> f | None \<Rightarrow> modbus_flow_state_default)"
  shows "carries_ok f" and "pair_ok (weight mf_carry (hm_remove key (ma_flows m)) + n + mf_carry f) (n + mf_carry f) m f"
proof -
  have ok: "hm_ok (ma_flows m)" using assms(1) by (simp add: modbus_ok_def)
  have w: "weight mf_carry (hm_remove key (ma_flows m)) + mf_carry f = weight mf_carry (ma_flows m)"
    using hmap.weight_remove [OF ok, of mf_carry key] assms(2)
    by (cases "hm_get (ma_flows m) key") (simp_all add: mf_carry_def modbus_flow_state_default_def)
  have f: "flow_tables_ok f \<and> carries_ok f \<and> windows_ok (mf_carry f + n) f"
  proof (cases "hm_get (ma_flows m) key")
    case None
    then show ?thesis
      using assms by (simp add: modbus_ok_def flow_tables_ok_def carries_ok_def windows_ok_def mf_carry_def
          modbus_flow_state_default_def max_adu_carry_bytes_def)
  next
    case (Some g)
    then have "f = g" using assms(2) by simp
    moreover have "(key, g) \<in> set (ma_flows m)" using Some hmap.get_iff [OF ok] by simp
    ultimately have "(key, f) \<in> set (ma_flows m)" by simp
    then show ?thesis using assms(1) by (auto simp: modbus_ok_def)
  qed
  then show "carries_ok f" by simp
  have eq: "weight mf_carry (hm_remove key (ma_flows m)) + n + mf_carry f = weight mf_carry (ma_flows m) + n"
    using w by simp
  show "pair_ok (weight mf_carry (hm_remove key (ma_flows m)) + n + mf_carry f) (n + mf_carry f) m f"
    unfolding eq using f assms(1) by (simp add: pair_ok_def modbus_ok_def add.commute)
qed

lemma modbus_on_data_safe:
  assumes "modbus_ok (n + length data) m"
  shows "\<exists>m'. modbus_on_data m key dir data off ts = Some m' \<and> modbus_ok n m'"
proof -
  define f where "f = (case hm_get (ma_flows m) key of Some f \<Rightarrow> f | None \<Rightarrow> modbus_flow_state_default)"
  let ?m1 = "m\<lparr>ma_flows := hm_remove key (ma_flows m)\<rparr>" and ?W = "weight mf_carry (hm_remove key (ma_flows m))"
  have ok: "hm_ok (ma_flows m)" using assms by (simp add: modbus_ok_def)
  note f_ok = modbus_take_flow [OF assms f_def]
  have m1: "modbus_ok n ?m1" by (rule modbus_ok_mono [OF modbus_ok_remove [OF assms]])
  have put: "modbus_ok n (m2\<lparr>ma_flows := hm_insert key g (ma_flows m2)\<rparr>)"
    if "ma_flows m2 = ma_flows ?m1" "pair_ok (?W + n + mf_carry g) (n + mf_carry g) m2 g" "carries_ok g" for m2 g
    by (rule modbus_ok_insert) (use m1 that hmap.get_remove [OF ok, of key key] in \<open>auto simp: modbus_ok_def\<close>)
  have pair: "pair_ok a b ?m1 g = pair_ok a b m g" for a b g by (simp add: pair_ok_def codes_ok_def)
  show ?thesis
  proof (cases "mf_is_non_modbus f")
    case True
    have "pair_ok (?W + n + mf_carry f) (n + mf_carry f) ?m1 f"
      unfolding pair by (rule pair_ok_less [OF f_ok(2)]) simp_all
    from put [OF refl this f_ok(1)] True show ?thesis
      by (simp add: modbus_on_data_def Let_def f_def [symmetric])
  next
    case False
    let ?f0 = "set_dir_carry dir [] f" and ?buf = "dir_carry dir f @ data"
    have c: "mf_carry ?f0 + length ?buf = mf_carry f + length data" using mf_carry_set [of dir "[]" f] by simp
    have "pair_ok ((?W + n) + (mf_carry ?f0 + length ?buf)) (n + (mf_carry ?f0 + length ?buf)) ?m1 ?f0"
      unfolding pair c using f_ok(2) by (simp add: ac_simps)
    moreover have "carries_ok ?f0" by (rule carries_ok_set [OF f_ok(1)]) (simp add: max_adu_carry_bytes_def)
    ultimately obtain m2 f2 where "modbus_walk key dir ts ?buf (?m1, ?f0) = Some (m2, f2)"
        "pair_ok (?W + n + mf_carry f2) (n + mf_carry f2) m2 f2" "carries_ok f2" "ma_flows m2 = ma_flows ?m1"
      using modbus_walk_safe [of "?W + n" ?f0 ?buf n ?m1 dir key ts] by auto
    with put False show ?thesis by (simp add: modbus_on_data_def Let_def f_def [symmetric])
  qed
qed

interpretation modbus: stream_client modbus_handler modbus_ok
  by unfold_locales
     (auto simp: modbus_handler_def modbus_on_flow_close_def intro: modbus_on_data_safe modbus_ok_remove modbus_ok_mono)

lemma modbus_new_ok: "n < 2 ^ 35 \<Longrightarrow> modbus_ok n (modbus_analyzer_new burst sustained)"
  by (simp add: modbus_ok_def modbus_analyzer_new_def codes_ok_def u64_max_def)

end
