(* ===== verification/Modbus_Stream.thy ===== *)
theory Modbus_Stream
  imports Modbus_Inv
begin

text \<open>
  Modbus framing: the analyzer cuts a direction's byte stream into ADUs, and the cut
  does not depend on how the stream arrives in chunks.
\<close>

section \<open>Chunks\<close>

lemma parse_append: "8 \<le> length bs \<Longrightarrow> parse_mbap_header (bs @ cs) = parse_mbap_header bs"
  by (auto simp: parse_mbap_header_def nth_append)

lemma drop_append_le: "n \<le> length as \<Longrightarrow> drop n (as @ bs) = drop n as @ bs"
  by simp

lemma set_dir_carry_self: "dir_carry dir f = [] \<Longrightarrow> set_dir_carry dir [] f = f"
  by (cases dir) simp_all

text \<open>What no PDU touches.\<close>

definition keeps_stream :: "modbus_analyzer \<times> modbus_flow_state \<Rightarrow> modbus_analyzer \<times> modbus_flow_state \<Rightarrow> bool" where
  "keeps_stream mf mf' \<longleftrightarrow>
     mf_carry_c2s (snd mf') = mf_carry_c2s (snd mf) \<and> mf_carry_s2c (snd mf') = mf_carry_s2c (snd mf) \<and>
     mf_is_non_modbus (snd mf') = mf_is_non_modbus (snd mf) \<and> ma_flows (fst mf') = ma_flows (fst mf)"

lemma keeps_stream_trans: "keeps_stream x y \<Longrightarrow> keeps_stream y z \<Longrightarrow> keeps_stream x z"
  by (simp add: keeps_stream_def)

lemma count_pdu_keeps: "count_pdu c mf = Some mf' \<Longrightarrow> keeps_stream mf mf'"
  by (auto simp: count_pdu_def keeps_stream_def Let_def bind_eq_Some_conv split: prod.splits)

lemma note_request_keeps: "keeps_stream mf (note_request c mf)"
  using note_request_same [of c "fst mf" "snd mf"]
  by (cases "note_request c mf") (simp add: keeps_stream_def mf_same_def ma_same_def)

lemma detect_write_keeps:
  assumes "detect_write c (m, f) = Some (mf', found)"
  shows "keeps_stream (m, f) mf'"
proof -
  let ?f = "f\<lparr>mf_write_count := sat_add64 (mf_write_count f) 1\<rparr>"
  obtain f2 e where t: "t0831_update c ?f = (f2, e)" by force
  obtain f3 bs where u: "burst_update c (ma_write_burst_threshold m) f2 = (f3, bs)" by force
  obtain f4 ss where s: "sustained_update c (ma_write_sustained_threshold m) f3 = Some (f4, ss)" "mf_same f3 f4"
    using sustained_update_same by blast
  have "mf_same ?f f2" "mf_same f2 f3" using updates_same t u by (metis fst_conv)+
  then have "mf_same ?f f4" using s(2) mf_same_trans by blast
  then show ?thesis
    using assms t u s(1) by (auto simp: detect_write_def Let_def keeps_stream_def mf_same_def)
qed

lemma detect_request_keeps:
  assumes "detect_request c mf = Some (mf', found)"
  shows "keeps_stream mf mf'"
proof (cases "classify_fc (pc_fc c) = Write")
  case True
  obtain m1 f1 where n: "note_request c mf = (m1, f1)" by force
  with True assms have "keeps_stream (m1, f1) mf'" by (intro detect_write_keeps) (simp add: detect_request_def)
  with note_request_keeps [of mf c] n show ?thesis using keeps_stream_trans by metis
next
  case False
  with assms have "mf' = note_request c mf"
    by (auto simp: detect_request_def Let_def split: function_code_class.splits)
  then show ?thesis using note_request_keeps by simp
qed

lemma exception_update_keeps:
  "exception_update c f = Some (f', found) \<Longrightarrow>
     mf_carry_c2s f' = mf_carry_c2s f \<and> mf_carry_s2c f' = mf_carry_s2c f \<and> mf_is_non_modbus f' = mf_is_non_modbus f"
  by (auto simp: exception_update_def Let_def bind_eq_Some_conv split: if_splits)

lemma attribute_exception_keeps:
  "mf_carry_c2s (fst (attribute_exception t u fc f)) = mf_carry_c2s f"
  "mf_carry_s2c (fst (attribute_exception t u fc f)) = mf_carry_s2c f"
  "mf_is_non_modbus (fst (attribute_exception t u fc f)) = mf_is_non_modbus f"
  by (auto simp: attribute_exception_def Let_def split: option.split)

lemma detect_response_keeps: "detect_response c mf = Some (mf', found) \<Longrightarrow> keeps_stream mf mf'"
  by (cases mf)
     (auto simp: detect_response_def Let_def match_response_def keeps_stream_def bind_eq_Some_conv
        attribute_exception_keeps dest!: exception_update_keeps split: if_splits)

lemma push_findings_flows: "ma_flows (fold push_modbus_finding fs m) = ma_flows m"
  by (induction fs arbitrary: m) (simp_all add: push_modbus_finding_def)

lemma process_pdu_keeps:
  assumes "process_pdu key dir h fc data ts mf = Some (mf', found)"
  shows "keeps_stream mf mf'"
proof -
  let ?c = "pdu_context_of key dir h fc data ts"
  obtain mf1 m2 f2 found' where c: "count_pdu ?c mf = Some mf1"
      and d: "(case dir of ClientToServer \<Rightarrow> detect_request ?c mf1 | ServerToClient \<Rightarrow> detect_response ?c mf1)
                = Some ((m2, f2), found')"
      and e: "mf' = (fold push_modbus_finding (recon_findings ?c @ found') m2, f2)"
    using assms by (auto simp: process_pdu_def Let_def bind_eq_Some_conv)
  have "keeps_stream mf1 (m2, f2)"
    using d detect_request_keeps detect_response_keeps by (cases dir) auto
  with count_pdu_keeps [OF c] have "keeps_stream mf (m2, f2)" by (rule keeps_stream_trans)
  then show ?thesis unfolding e keeps_stream_def by (simp only: push_findings_flows fst_conv snd_conv)
qed

lemma process_pdu_same:
  assumes "process_pdu key dir h fc data ts (m, f) = Some ((m', f'), found)"
  shows "dir_carry dir f' = dir_carry dir f" and "mf_is_non_modbus f' = mf_is_non_modbus f" and "ma_flows m' = ma_flows m"
  using process_pdu_keeps [OF assms] by (cases dir; simp add: keeps_stream_def)+

text \<open>What \<open>on_data\<close> does with the next chunk, on the state \<open>modbus_walk\<close> left.\<close>

definition next_chunk ::
  "flow_key \<Rightarrow> direction \<Rightarrow> u32 \<Rightarrow> bytes \<Rightarrow> modbus_analyzer \<times> modbus_flow_state \<Rightarrow> (modbus_analyzer \<times> modbus_flow_state) rust"
where
  "next_chunk key dir ts data mf =
     (let (m, f) = mf in
      if mf_is_non_modbus f then Some (m, f)
      else modbus_walk key dir ts (dir_carry dir f @ data) (m, set_dir_carry dir [] f))"

lemma modbus_walk_append:
  assumes "dir_carry dir f = []" and "\<not> mf_is_non_modbus f"
  shows "modbus_walk key dir ts (as @ bs) (m, f) = modbus_walk key dir ts as (m, f) \<bind> next_chunk key dir ts bs"
  using assms
proof (induction as arbitrary: m f rule: length_induct)
  case (1 as)
  have stashed: ?case
    if "modbus_walk key dir ts as (m, f) = Some (stash dir as (m, f))" "length as < max_adu_carry_bytes"
  proof -
    have "set_dir_carry dir [] (set_dir_carry dir as f) = f" using "1.prems"(1) by (cases dir) auto
    then show ?thesis
      using that "1.prems" by (simp add: stash_short next_chunk_def)
  qed
  show ?case
  proof (cases "parse_mbap_header as")
    case None
    then have l: "length as < 8" by (simp add: parse_mbap_header_def split: if_splits)
    show ?thesis
    proof (cases "as = []")
      case True
      then show ?thesis
        using "1.prems" by (simp add: modbus_walk.simps [of _ _ _ "[]"] next_chunk_def set_dir_carry_self)
    next
      case False
      with None l show ?thesis
        by (intro stashed) (simp_all add: modbus_walk.simps [of _ _ _ as] max_adu_carry_bytes_def)
    qed
  next
    case (Some h)
    have l: "8 \<le> length as" by (rule parse_Some [OF Some])
    then have ne: "as \<noteq> []" "as @ bs \<noteq> []" by auto
    have p: "parse_mbap_header (as @ bs) = Some h" using parse_append [OF l] Some by simp
    let ?n = "6 + unat (mh_length h)"
    consider "\<not> is_valid_modbus_adu h" | "is_valid_modbus_adu h" "length as < ?n" | "is_valid_modbus_adu h" "?n \<le> length as"
      by linarith
    then show ?thesis
    proof cases
      case 1
      then show ?thesis
        using Some p ne by (simp add: modbus_walk.simps [of _ _ _ as] modbus_walk.simps [of _ _ _ "as @ bs"] next_chunk_def)
    next
      case 2
      have "modbus_walk key dir ts as (m, f) = Some (stash dir as (m, f))"
        using Some 2 ne by (simp add: modbus_walk.simps [of _ _ _ as] Let_def)
      then show ?thesis using stashed 2 valid_adu_length [OF 2(1)] by (simp add: max_adu_carry_bytes_def)
    next
      case 3
      let ?p = "process_pdu key dir h (mh_function_code h) (take ?n as) ts (m, f)"
      have w: "modbus_walk key dir ts as (m, f) = (case ?p of None \<Rightarrow> None | Some (mf', _) \<Rightarrow> modbus_walk key dir ts (drop ?n as) mf')"
        using Some 3 ne by (simp add: modbus_walk.simps [of _ _ _ as] Let_def)
      have w': "modbus_walk key dir ts (as @ bs) (m, f) = (case ?p of None \<Rightarrow> None | Some (mf', _) \<Rightarrow> modbus_walk key dir ts (drop ?n as @ bs) mf')"
        unfolding drop_append_le [OF 3(2), symmetric]
        using p 3 ne by (simp add: modbus_walk.simps [of _ _ _ "as @ bs"] Let_def)
      show ?thesis
      proof (cases ?p)
        case None
        with w w' show ?thesis by simp
      next
        case (Some r)
        obtain m1 f1 found where r: "r = ((m1, f1), found)" by (metis prod.exhaust)
        note same = process_pdu_same [OF Some [unfolded r]]
        have "length (drop ?n as) < length as" using 3 ne by auto
        then show ?thesis using "1.IH" same "1.prems" w w' Some r by simp
      qed
    qed
  qed
qed


lemma next_chunk_on_data:
  "modbus_on_data m key dir data off ts = do {
     let m1 = m\<lparr>ma_flows := hm_remove key (ma_flows m)\<rparr>;
     (m2, f2) \<leftarrow> next_chunk key dir ts data
        (m1, case hm_get (ma_flows m) key of Some f \<Rightarrow> f | None \<Rightarrow> modbus_flow_state_default);
     Some (m2\<lparr>ma_flows := hm_insert key f2 (ma_flows m2)\<rparr>)
   }"
  by (simp add: modbus_on_data_def next_chunk_def Let_def)

lemma modbus_walk_flows:
  "modbus_walk key dir ts rem mf = Some mf' \<Longrightarrow> ma_flows (fst mf') = ma_flows (fst mf)"
proof (induction key dir ts rem mf rule: modbus_walk.induct)
  case (1 key dir ts rem mf)
  show ?case
  proof (cases "parse_mbap_header rem")
    case None
    with "1.prems" show ?thesis
      by (auto simp: modbus_walk.simps [of _ _ _ rem] stash_def count_parse_error_def Let_def split: prod.splits if_splits)
  next
    case (Some h)
    then have ne: "rem \<noteq> []" using parse_Some by fastforce
    let ?n = "6 + unat (mh_length h)"
    let ?p = "process_pdu key dir h (mh_function_code h) (take ?n rem) ts mf"
    show ?thesis
    proof (cases "is_valid_modbus_adu h \<and> ?n \<le> length rem")
      case False
      with "1.prems" Some ne show ?thesis
        by (auto simp: modbus_walk.simps [of _ _ _ rem] stash_def count_parse_error_def Let_def split: prod.splits if_splits)
    next
      case True
      with "1.prems" Some ne obtain mf1 found where p: "?p = Some (mf1, found)"
          and w: "modbus_walk key dir ts (drop ?n rem) mf1 = Some mf'"
        by (auto simp: modbus_walk.simps [of _ _ _ rem] Let_def split: option.splits)
      have "ma_flows (fst mf') = ma_flows (fst mf1)"
        by (rule "1.IH" [OF ne Some _ refl _ p refl w]) (use True in auto)
      with process_pdu_keeps [OF p] show ?thesis by (simp add: keeps_stream_def)
    qed
  qed
qed

lemma next_chunk_append:
  "next_chunk key dir ts (as @ bs) (m, f) = next_chunk key dir ts as (m, f) \<bind> next_chunk key dir ts bs"
proof (cases "mf_is_non_modbus f")
  case True
  then show ?thesis by (simp add: next_chunk_def)
next
  case False
  then show ?thesis
    using modbus_walk_append [of dir "set_dir_carry dir [] f" key ts "dir_carry dir f @ as" bs m]
    by (simp add: next_chunk_def)
qed

lemma next_chunk_flows: "next_chunk key dir ts data (m, f) = Some (m', f') \<Longrightarrow> ma_flows m' = ma_flows m"
  using modbus_walk_flows by (fastforce simp: next_chunk_def split: if_splits)

lemma hm_insert_absent: "k \<notin> fst ` set t \<Longrightarrow> hm_insert k v t = t @ [(k, v)]"
  unfolding hm_insert_def by (induction t) auto

lemma table_round:
  "hm_get (hm_insert k v (hm_remove k t)) k = Some v" "hm_remove k (hm_insert k v (hm_remove k t)) = hm_remove k t"
proof -
  have "hm_insert k v (hm_remove k t) = hm_remove k t @ [(k, v)]" by (rule hm_insert_absent) (auto simp: hm_remove_eq)
  then show "hm_get (hm_insert k v (hm_remove k t)) k = Some v" "hm_remove k (hm_insert k v (hm_remove k t)) = hm_remove k t"
    by (auto simp: hm_get_def map_add_def hm_remove_eq map_of_eq_None_iff split: option.split dest: map_of_SomeD)
qed

lemma modbus_on_data_append:
  "modbus_on_data m key dir (as @ bs) off ts = do {
     m' \<leftarrow> modbus_on_data m key dir as off ts; modbus_on_data m' key dir bs off' ts }"
proof -
  let ?m1 = "m\<lparr>ma_flows := hm_remove key (ma_flows m)\<rparr>"
  let ?f = "case hm_get (ma_flows m) key of Some f \<Rightarrow> f | None \<Rightarrow> modbus_flow_state_default"
  show ?thesis
  proof (cases "next_chunk key dir ts as (?m1, ?f)")
    case None
    then show ?thesis unfolding next_chunk_on_data [of m] by (simp add: next_chunk_append Let_def)
  next
    case (Some r)
    obtain m2 f2 where r: "r = (m2, f2)" by force
    have fl: "ma_flows m2 = hm_remove key (ma_flows m)" using next_chunk_flows [OF Some [unfolded r]] by simp
    let ?m3 = "m2\<lparr>ma_flows := hm_insert key f2 (ma_flows m2)\<rparr>"
    have "?m3\<lparr>ma_flows := hm_remove key (ma_flows ?m3)\<rparr> = m2" "hm_get (ma_flows ?m3) key = Some f2"
      by (simp_all add: fl table_round)
    then show ?thesis
      using Some r unfolding next_chunk_on_data by (simp add: next_chunk_append Let_def)
  qed
qed

end
