(* ===== verification/Rate_Alert.thy ===== *)
theory Rate_Alert
  imports Prelude
begin

text \<open>
  The contract shared by the rate detectors of the analyzers: a counter over a time
  window and a latch. An event outside the window opens a new one; an event inside
  counts, and the first one that finds the counter due raises the alert and sets the
  latch. From the contract it follows once that a window raises at most one alert,
  and exactly when its number of events is due.
\<close>

fun count_alerts :: "('e \<Rightarrow> 's \<Rightarrow> 's \<times> bool) \<Rightarrow> 'e list \<Rightarrow> 's \<Rightarrow> nat" where
  "count_alerts step [] s = 0"
| "count_alerts step (e # es) s = (if snd (step e s) then 1 else 0) + count_alerts step es (fst (step e s))"

locale rate_alert =
  fixes step :: "'e \<Rightarrow> 's \<Rightarrow> 's \<times> bool"
    and start_ts :: "'s \<Rightarrow> u32" and events :: "'s \<Rightarrow> u32" and fired :: "'s \<Rightarrow> bool"
    and time_of :: "'e \<Rightarrow> u32" and window :: u32 and due :: "nat \<Rightarrow> bool"
    and applies :: "'e \<Rightarrow> bool" and active :: "'s \<Rightarrow> bool"
  assumes due_mono: "due a \<Longrightarrow> a \<le> b \<Longrightarrow> due b"
    and step_within:
      "applies e \<Longrightarrow> active s \<Longrightarrow> unat (time_of e) - unat (start_ts s) \<le> unat window \<Longrightarrow> unat (events s) + 1 < 2 ^ 32 \<Longrightarrow>
       active (fst (step e s)) \<and> start_ts (fst (step e s)) = start_ts s \<and>
       unat (events (fst (step e s))) = unat (events s) + 1 \<and>
       snd (step e s) = (due (unat (events s) + 1) \<and> \<not> fired s) \<and>
       fired (fst (step e s)) = (fired s \<or> due (unat (events s) + 1))"
begin

lemma alerts_fired:
  assumes "active s" and "fired s" and "unat (events s) + length es < 2 ^ 32"
    and "\<forall>e \<in> set es. applies e \<and> unat (time_of e) - unat (start_ts s) \<le> unat window"
  shows "count_alerts step es s = 0"
  using assms
proof (induction es arbitrary: s)
  case (Cons e es)
  have n: "unat (events s) + 1 < 2 ^ 32" using Cons.prems(3) by simp
  note st = step_within [OF _ Cons.prems(1) _ n, of e]
  have "count_alerts step es (fst (step e s)) = 0" using Cons.prems st by (intro Cons.IH) auto
  then show ?case using Cons.prems st by auto
qed simp

lemma alerts_open:
  assumes "active s" and "\<not> fired s" and "unat (events s) + length es < 2 ^ 32"
    and "\<forall>e \<in> set es. applies e \<and> unat (time_of e) - unat (start_ts s) \<le> unat window"
  shows "count_alerts step es s = (if es \<noteq> [] \<and> due (unat (events s) + length es) then 1 else 0)"
  using assms
proof (induction es arbitrary: s)
  case (Cons e es)
  let ?s = "fst (step e s)"
  have n: "unat (events s) + 1 < 2 ^ 32" using Cons.prems(3) by simp
  have st: "active ?s" "start_ts ?s = start_ts s" "unat (events ?s) = unat (events s) + 1"
      "snd (step e s) = due (unat (events s) + 1)" "fired ?s = due (unat (events s) + 1)"
    using step_within [OF _ Cons.prems(1) _ n, of e] Cons.prems(2,4) by auto
  show ?case
  proof (cases "due (unat (events s) + 1)")
    case True
    then have "count_alerts step es ?s = 0" using Cons.prems st by (intro alerts_fired) auto
    with True st due_mono [OF True, of "unat (events s) + length (e # es)"] show ?thesis by simp
  next
    case False
    then have "count_alerts step es ?s = (if es \<noteq> [] \<and> due (unat (events ?s) + length es) then 1 else 0)"
      using Cons.prems st by (intro Cons.IH) auto
    with False st show ?thesis by (cases "es = []") auto
  qed
qed simp

end

end
