(* ===== verification/Modbus_Props.thy ===== *)
theory Modbus_Props
  imports Modbus_Stream Engine_Props Rate_Alert
begin

text \<open>
  The properties of the Modbus analyzer: the capture-level safety it inherits from its
  contract with the engine, framing, the pending table, and the rate detectors.
\<close>

section \<open>Frames\<close>

text \<open>The wire form of a header: what \<open>parse_mbap_header\<close> is to read back.\<close>

definition encode_header :: "mbap_header \<Rightarrow> bytes" where
  "encode_header h =
     [hi8 (mh_transaction_id h), lo8 (mh_transaction_id h), hi8 (mh_protocol_id h), lo8 (mh_protocol_id h),
      hi8 (mh_length h), lo8 (mh_length h), mh_unit_id h, mh_function_code h]"

text \<open>A frame: a header the gate lets through, and as many further bytes as its length says.\<close>

definition frame_ok :: "mbap_header \<times> bytes \<Rightarrow> bool" where
  "frame_ok = (\<lambda>(h, body). is_valid_modbus_adu h \<and> length body + 2 = unat (mh_length h))"

definition encode_frame :: "mbap_header \<times> bytes \<Rightarrow> bytes" where
  "encode_frame = (\<lambda>(h, body). encode_header h @ body)"

lemma parse_encode: "parse_mbap_header (encode_header h @ rest) = Some h"
  by (simp add: parse_mbap_header_def encode_header_def be16_split)

lemma encode_parse: "parse_mbap_header bs = Some h \<Longrightarrow> encode_header h = take 8 bs"
proof -
  assume p: "parse_mbap_header bs = Some h"
  have "take 8 bs = map ((!) bs) [0..<8]"
    using parse_Some [OF p] by (intro nth_equalityI) auto
  also have "\<dots> = encode_header h"
    using p by (auto simp: parse_mbap_header_def encode_header_def split_be16 upt_rec eval_nat_numeral split: if_splits)
  finally show ?thesis by simp
qed

fun process_frames ::
  "flow_key \<Rightarrow> direction \<Rightarrow> u32 \<Rightarrow> (mbap_header \<times> bytes) list \<Rightarrow> modbus_analyzer \<times> modbus_flow_state
   \<Rightarrow> (modbus_analyzer \<times> modbus_flow_state) rust"
where
  "process_frames key dir ts [] mf = Some mf"
| "process_frames key dir ts (fr # frs) mf = do {
     (mf', _) \<leftarrow> process_pdu key dir (fst fr) (mh_function_code (fst fr)) (encode_frame fr) ts mf;
     process_frames key dir ts frs mf'
   }"

lemma modbus_walk_frames:
  assumes "\<forall>fr \<in> set frs. frame_ok fr"
  shows "modbus_walk key dir ts (concat (map encode_frame frs)) mf = process_frames key dir ts frs mf"
  using assms
proof (induction frs arbitrary: mf)
  case Nil
  then show ?case by (simp add: modbus_walk.simps [of _ _ _ "[]"])
next
  case (Cons fr frs)
  obtain h body where fr: "fr = (h, body)" by force
  let ?rest = "concat (map encode_frame frs)"
  let ?buf = "encode_frame fr @ ?rest"
  have ok: "is_valid_modbus_adu h" "length body + 2 = unat (mh_length h)"
    using Cons.prems by (auto simp: fr frame_ok_def)
  have l: "length (encode_frame fr) = 6 + unat (mh_length h)"
    using ok(2) by (simp add: fr encode_frame_def encode_header_def)
  have p: "parse_mbap_header ?buf = Some h" using parse_encode by (simp add: fr encode_frame_def)
  have ne: "?buf \<noteq> []" by (simp add: fr encode_frame_def encode_header_def)
  have t: "take (6 + unat (mh_length h)) ?buf = encode_frame fr" "drop (6 + unat (mh_length h)) ?buf = ?rest"
    unfolding l [symmetric] by simp_all
  have "modbus_walk key dir ts ?buf mf =
      (case process_pdu key dir h (mh_function_code h) (encode_frame fr) ts mf of
         None \<Rightarrow> None | Some (mf', _) \<Rightarrow> modbus_walk key dir ts ?rest mf')"
    unfolding modbus_walk.simps [of _ _ _ ?buf] p option.case Let_def t using ne ok(1) l by (simp only: if_False not_True_eq_False if_not_P) simp
  also have "\<dots> = process_frames key dir ts (fr # frs) mf"
    using Cons.IH Cons.prems by (simp add: fr split: option.split)
  finally show ?case by simp
qed

section \<open>Rate detectors\<close>

text \<open>The burst detector and the T0831 co-tag as steps that raise an alert or not.\<close>

definition burst_step :: "u32 \<Rightarrow> pdu_context \<Rightarrow> modbus_flow_state \<Rightarrow> modbus_flow_state \<times> bool" where
  "burst_step threshold c f = (fst (burst_update c threshold f), snd (burst_update c threshold f) \<noteq> [])"

lemma within_window: "sat_subw a b > (w :: u32) \<longleftrightarrow> \<not> unat a - unat b \<le> unat w"
  by (simp add: word_less_nat_alt unat_sat_subw not_le)

lemma sat_addw_one:
  fixes n :: u32
  assumes "unat n + 1 < 2 ^ 32"
  shows "unat (sat_addw n 1) = unat n + 1"
  using assms by (simp add: unat_sat_addw)

interpretation burst: rate_alert "burst_step threshold" mf_window_start_ts mf_window_write_count mf_window_burst_emitted
    pc_timestamp write_burst_window_secs "\<lambda>n. n > unat threshold" "\<lambda>_. True" "\<lambda>_. True" for threshold
  by unfold_locales
     (auto simp: burst_step_def burst_update_def Let_def within_window unat_sat_subw sat_addw_one word_less_nat_alt)

interpretation t0831: rate_alert t0831_update mf_t0831_window_start_ts mf_t0831_window_write_count mf_t0831_burst_emitted
    pc_timestamp t0831_window_secs "\<lambda>n. n \<ge> 2" "\<lambda>c. is_register_write (pc_fc c)" "\<lambda>_. True"
  by unfold_locales
     (auto simp: t0831_update_def Let_def within_window unat_sat_subw sat_addw_one word_le_nat_alt)

text \<open>The exception detector, for one exception code. Its window is open once the code has a start time.\<close>

definition exception_step :: "pdu_context \<Rightarrow> modbus_flow_state \<Rightarrow> modbus_flow_state \<times> bool" where
  "exception_step c f =
     (case exception_update c f of Some (f', found) \<Rightarrow> (f', found \<noteq> []) | None \<Rightarrow> (f, False))"

definition exc_start :: "u8 \<Rightarrow> modbus_flow_state \<Rightarrow> u32" where
  "exc_start code f = (case hm_get (mf_exception_window_start_ts f) code of Some t \<Rightarrow> t | None \<Rightarrow> 0)"

definition exc_count :: "u8 \<Rightarrow> modbus_flow_state \<Rightarrow> u32" where
  "exc_count code f = (case hm_get (mf_exception_window_counts f) code of Some n \<Rightarrow> n | None \<Rightarrow> 0)"

definition exc_fired :: "u8 \<Rightarrow> modbus_flow_state \<Rightarrow> bool" where
  "exc_fired code f \<longleftrightarrow> hm_get (mf_exception_burst_emitted f) code = Some True"

definition exc_open :: "u8 \<Rightarrow> modbus_flow_state \<Rightarrow> bool" where
  "exc_open code f \<longleftrightarrow> hm_get (mf_exception_window_start_ts f) code \<noteq> None"

interpretation exceptions: rate_alert exception_step "exc_start code" "exc_count code" "exc_fired code"
    pc_timestamp exception_window_secs "\<lambda>n. n > unat exception_rate_threshold" "\<lambda>c. exception_code c = code" "exc_open code" for code
proof
  fix e s
  assume a: "exception_code e = code" "exc_open code s" "unat (pc_timestamp e) - unat (exc_start code s) \<le> unat exception_window_secs"
    "unat (exc_count code s) + 1 < 2 ^ 32"
  obtain t where t: "hm_get (mf_exception_window_start_ts s) code = Some t" "exc_start code s = t"
    using a(2) by (auto simp: exc_open_def exc_start_def)
  have add: "addw (exc_count code s) 1 = Some (exc_count code s + 1)"
    and up: "unat (exc_count code s + 1) = unat (exc_count code s) + 1"
    using a(4) by (simp_all add: addw_def unat_word_ariths)
  show "exc_open code (fst (exception_step e s)) \<and> exc_start code (fst (exception_step e s)) = exc_start code s \<and>
       unat (exc_count code (fst (exception_step e s))) = unat (exc_count code s) + 1 \<and>
       snd (exception_step e s) = (unat (exc_count code s) + 1 > unat exception_rate_threshold \<and> \<not> exc_fired code s) \<and>
       exc_fired code (fst (exception_step e s)) = (exc_fired code s \<or> unat (exc_count code s) + 1 > unat exception_rate_threshold)"
    using a(1,3) t add up
    by (auto simp: exception_step_def exception_update_def Let_def within_window unat_sat_subw exc_open_def exc_start_def exc_count_def
        exc_fired_def word_less_nat_alt)
qed simp

section \<open>Properties\<close>

subsection \<open>Captures\<close>

definition sample_modbus :: modbus_analyzer where
  "sample_modbus = modbus_analyzer_new default_write_burst_threshold default_write_sustained_threshold"

text \<open>The engine can drive the Modbus analyzer through any capture of less than 32 GiB of
  payload without a panic of either. Afterwards every flow of the analyzer keeps at most
  256 pending transactions and less than one maximal ADU of carry in each direction, and
  the analyzer at most 10,000 findings.\<close>

theorem modbus_capture_bounded:
  assumes "config_ok c" and "capture_ok ps" and "capture_bytes ps < 2 ^ 35"
  shows "\<exists>r r' m'. reassembler_new seed c = Some r \<and>
     process_packets modbus_handler ps (r, modbus_analyzer_new burst sustained) = Some (r', m') \<and>
     length (modbus_findings m') \<le> 10000 \<and>
     (\<forall>(key, f) \<in> set (ma_flows m'). length (mf_pending f) \<le> 256 \<and>
        length (mf_carry_c2s f) < 260 \<and> length (mf_carry_s2c f) < 260)"
proof -
  obtain r r' m' n where r: "reassembler_new seed c = Some r"
      "process_packets modbus_handler ps (r, modbus_analyzer_new burst sustained) = Some (r', m')"
      and ok: "modbus_ok n m'"
    by (rule modbus.capture_safe [OF assms(1,2) modbus_new_ok [OF assms(3)], where seed = seed])
  have "\<forall>(key, f) \<in> set (ma_flows m'). length (mf_pending f) \<le> 256 \<and>
        length (mf_carry_c2s f) < 260 \<and> length (mf_carry_s2c f) < 260"
    using ok by (auto simp: modbus_ok_def flow_tables_ok_def carries_ok_def max_pending_transactions_def
        max_adu_carry_bytes_def)
  moreover have "length (modbus_findings m') \<le> 10000"
    using ok by (simp add: modbus_ok_def modbus_findings_def modbus_max_findings_def)
  ultimately show ?thesis using r by blast
qed

theorem modbus_capture_bounded_witness:
  "\<exists>r r' m'. reassembler_new (\<lambda>_ _. 0) sample_config = Some r \<and>
     process_packets modbus_handler sample_capture (r, modbus_analyzer_new 20 10) = Some (r', m') \<and>
     length (modbus_findings m') \<le> 10000 \<and>
     (\<forall>(key, f) \<in> set (ma_flows m'). length (mf_pending f) \<le> 256 \<and>
        length (mf_carry_c2s f) < 260 \<and> length (mf_carry_s2c f) < 260)"
  by (rule modbus_capture_bounded [OF sample_config_ok sample_capture_ok])
     (simp add: capture_bytes_def sample_capture_def sample_packet_def)

subsection \<open>Framing\<close>

text \<open>\<open>parse_mbap_header\<close> reads exactly the headers: it yields \<open>h\<close> if and only if the slice
  starts with the eight bytes that encode \<open>h\<close>, so it inverts the encoding and fails only on
  slices that are too short.\<close>

theorem parse_mbap_header_roundtrip:
  "(parse_mbap_header bs = Some h \<longleftrightarrow> (\<exists>rest. bs = encode_header h @ rest)) \<and>
   (parse_mbap_header bs = None \<longleftrightarrow> length bs < 8)"
proof -
  have "\<exists>rest. bs = encode_header h @ rest" if "parse_mbap_header bs = Some h"
    using encode_parse [OF that] by (metis append_take_drop_id)
  then have "parse_mbap_header bs = Some h \<longleftrightarrow> (\<exists>rest. bs = encode_header h @ rest)" using parse_encode by auto
  moreover have "parse_mbap_header bs = None \<longleftrightarrow> length bs < 8" by (simp add: parse_mbap_header_def)
  ultimately show ?thesis by blast
qed

lemma modbus_on_data_offset: "modbus_on_data m key dir data off ts = modbus_on_data m key dir data 0 ts"
  by (simp add: modbus_on_data_def)

lemma replay_one: "replay H [e] h = handle_event H e h"
  by (cases "handle_event H e h") simp_all

lemma replay_chunks:
  "replay modbus_handler (map (\<lambda>(off, data). DataEvent key dir data off ts) (ch # chs)) m =
   modbus_on_data m key dir (concat (map snd (ch # chs))) 0 ts"
proof (induction chs arbitrary: ch m)
  case Nil
  obtain off data where "ch = (off, data)" by force
  then show ?case
    using replay_one [of modbus_handler "DataEvent key dir data off ts" m] modbus_on_data_offset [of m key dir data off ts]
    by (simp add: modbus_handler_def)
next
  case (Cons ch' chs)
  obtain off data where ch: "ch = (off, data)" by force
  have "modbus_on_data m key dir (data @ concat (map snd (ch' # chs))) 0 ts =
      modbus_on_data m key dir data off ts \<bind> (\<lambda>m'. modbus_on_data m' key dir (concat (map snd (ch' # chs))) 0 ts)"
    unfolding modbus_on_data_offset [of m key dir data off ts] by (rule modbus_on_data_append)
  moreover have "replay modbus_handler (map (\<lambda>(off, data). DataEvent key dir data off ts) (ch' # chs)) =
      (\<lambda>m'. modbus_on_data m' key dir (concat (map snd (ch' # chs))) 0 ts)"
    by (rule ext) (rule Cons.IH)
  moreover have "replay modbus_handler (map (\<lambda>(off, data). DataEvent key dir data off ts) (ch # ch' # chs)) m =
      modbus_on_data m key dir data off ts \<bind>
      replay modbus_handler (map (\<lambda>(off, data). DataEvent key dir data off ts) (ch' # chs))"
    by (simp add: ch modbus_handler_def)
  ultimately show ?case by (simp add: ch)
qed

text \<open>C12. The cut of a stream into ADUs does not depend on how TCP delivers it: whatever the
  chunks, if together they are the encodings of a list of valid frames, the analyzer ends
  in the state of processing each frame, once and in order, as one PDU.\<close>

theorem modbus_framing_any_chunks:
  assumes "concat (map snd (ch # chs)) = concat (map encode_frame frs)" and "\<forall>fr \<in> set frs. frame_ok fr"
    and "f = (case hm_get (ma_flows m) key of Some f \<Rightarrow> f | None \<Rightarrow> modbus_flow_state_default)"
    and "\<not> mf_is_non_modbus f" and "dir_carry dir f = []"
  shows "replay modbus_handler (map (\<lambda>(off, data). DataEvent key dir data off ts) (ch # chs)) m = do {
     (m', f') \<leftarrow> process_frames key dir ts frs (m\<lparr>ma_flows := hm_remove key (ma_flows m)\<rparr>, f);
     Some (m'\<lparr>ma_flows := hm_insert key f' (ma_flows m')\<rparr>)
   }"
  unfolding replay_chunks assms(1) next_chunk_on_data assms(3) [symmetric] Let_def
  using assms(4,5) by (simp add: next_chunk_def modbus_walk_frames [OF assms(2)] set_dir_carry_self)

definition sample_frame :: "mbap_header \<times> bytes" where
  "sample_frame = (\<lparr>mh_transaction_id = 7, mh_protocol_id = 0, mh_length = 6, mh_unit_id = 1, mh_function_code = 6\<rparr>,
                   [0, 1, 0, 2])"

definition sample_key :: flow_key where
  "sample_key = flow_key_new (V4 1) 1000 (V4 2) 502"

theorem modbus_framing_any_chunks_witness:
  "replay modbus_handler (map (\<lambda>(off, data). DataEvent sample_key ClientToServer data off 9)
       [(1, take 5 (encode_frame sample_frame)), (6, drop 5 (encode_frame sample_frame))]) sample_modbus = do {
     (m', f') \<leftarrow> process_frames sample_key ClientToServer 9 [sample_frame]
        (sample_modbus\<lparr>ma_flows := hm_remove sample_key (ma_flows sample_modbus)\<rparr>, modbus_flow_state_default);
     Some (m'\<lparr>ma_flows := hm_insert sample_key f' (ma_flows m')\<rparr>)
   }"
  by (rule modbus_framing_any_chunks)
     (simp_all add: sample_frame_def frame_ok_def is_valid_modbus_adu_def sample_modbus_def modbus_analyzer_new_def
        hm_get_def modbus_flow_state_default_def)

text \<open>A stream that is not Modbus is given up for good: at the first complete header that
  fails the gate the flow is latched with one parse error, nothing is reported, and no
  later data on the flow, in either direction, changes the analyzer.\<close>

theorem modbus_gives_up_for_good:
  assumes "hm_get (ma_flows m) key = None" and "parse_mbap_header data = Some h" and "\<not> is_valid_modbus_adu h"
  shows "\<exists>m'. modbus_on_data m key dir data off ts = Some m' \<and>
     ma_parse_errors m' = sat_add64 (ma_parse_errors m) 1 \<and> modbus_findings m' = modbus_findings m \<and>
     ma_total_pdu_count m' = ma_total_pdu_count m \<and>
     (\<forall>later. (\<forall>e \<in> set later. \<exists>d bs o' t. e = DataEvent key d bs o' t) \<longrightarrow> replay modbus_handler later m' = Some m')"
proof -
  let ?f = "modbus_flow_state_default\<lparr>mf_is_non_modbus := True\<rparr>"
  let ?m1 = "m\<lparr>ma_flows := hm_remove key (ma_flows m)\<rparr>"
  let ?m' = "(count_parse_error ?m1)\<lparr>ma_flows := hm_insert key ?f (hm_remove key (ma_flows m))\<rparr>"
  have ne: "data \<noteq> []" using parse_Some [OF assms(2)] by auto
  have "dir_carry dir modbus_flow_state_default = []" by (cases dir) (simp_all add: modbus_flow_state_default_def)
  moreover have "modbus_walk key dir ts data (?m1, modbus_flow_state_default) = Some (count_parse_error ?m1, ?f)"
    using assms ne by (simp add: modbus_walk.simps [of _ _ _ data] modbus_flow_state_default_def)
  ultimately have eq: "modbus_on_data m key dir data off ts = Some ?m'"
    using assms(1) unfolding next_chunk_on_data
    by (simp add: next_chunk_def set_dir_carry_self Let_def count_parse_error_def)
       (simp add: modbus_flow_state_default_def)
  have keep: "modbus_on_data ?m' key d bs o' t = Some ?m'" for d bs o' t
    unfolding next_chunk_on_data by (simp add: next_chunk_def Let_def table_round)
  have "replay modbus_handler later ?m' = Some ?m'"
    if "\<forall>e \<in> set later. \<exists>d bs o' t. e = DataEvent key d bs o' t" for later
    using that
  proof (induction later)
    case (Cons e later)
    then obtain d bs o' t where "e = DataEvent key d bs o' t" by auto
    with Cons keep show ?case by (simp add: modbus_handler_def)
  qed simp
  with eq show ?thesis by (auto simp: count_parse_error_def modbus_findings_def)
qed

theorem modbus_gives_up_for_good_witness:
  "\<exists>m'. modbus_on_data sample_modbus sample_key ClientToServer [0x47, 0x45, 0x54, 0x20, 0x2F, 0x20, 0x48, 0x54] 1 9 = Some m' \<and>
     ma_parse_errors m' = sat_add64 (ma_parse_errors sample_modbus) 1 \<and> modbus_findings m' = modbus_findings sample_modbus \<and>
     ma_total_pdu_count m' = ma_total_pdu_count sample_modbus \<and>
     (\<forall>later. (\<forall>e \<in> set later. \<exists>d bs o' t. e = DataEvent sample_key d bs o' t) \<longrightarrow> replay modbus_handler later m' = Some m')"
  by (rule modbus_gives_up_for_good)
     (auto simp: sample_modbus_def modbus_analyzer_new_def hm_get_def parse_mbap_header_def is_valid_modbus_adu_def be16_def)

subsection \<open>Transactions\<close>

lemma strip_exception_bit:
  fixes fc :: u8
  assumes "fc < 0x80"
  shows "(0x80 + fc) AND 0x7F = fc"
proof -
  have m: "(0x7F :: u8) = mask 7" by (simp add: mask_eq_exp_minus_1)
  have l: "unat fc < 128" using assms by (simp add: word_less_nat_alt)
  have "unat ((0x80 + fc) AND 0x7F) = unat (0x80 + fc) mod 128"
    by (simp only: m take_bit_eq_mask [symmetric] unsigned_take_bit_eq take_bit_eq_mod) (simp add: unat_mod)
  also have "\<dots> = unat fc" using l by (simp add: unat_word_ariths)
  finally show ?thesis by (rule unsigned_word_eqI)
qed

text \<open>C13. The pending table is a bounded map from transactions to the last request seen for
  them. A request is recorded, replacing and returning an earlier one of the same
  transaction, unless the transaction is new and 256 are pending, when nothing changes; a
  response takes its transaction out; an exception takes it out only if its function code
  is that of the recorded request, and otherwise leaves the table as it is.\<close>

theorem pending_table_is_bounded_map:
  assumes "flow_tables_ok f" and "fc < 0x80"
  shows "(let full = hm_get (mf_pending f) (t, u) = None \<and> length (mf_pending f) = 256;
              (f1, old) = insert_request t u fc ts f
          in hm_get (mf_pending f1) = (if full then hm_get (mf_pending f) else (hm_get (mf_pending f))((t, u) \<mapsto> (fc, ts))) \<and>
             old = hm_get (mf_pending f) (t, u) \<and> flow_tables_ok f1) \<and>
         (let (f2, request) = match_response t u fc f
          in hm_get (mf_pending f2) = (hm_get (mf_pending f))((t, u) := None) \<and>
             request = hm_get (mf_pending f) (t, u) \<and> flow_tables_ok f2) \<and>
         (let (f3, original) = attribute_exception t u (0x80 + fc) f;
              matches = (\<exists>since. hm_get (mf_pending f) (t, u) = Some (fc, since))
          in hm_get (mf_pending f3) = (if matches then (hm_get (mf_pending f))((t, u) := None) else hm_get (mf_pending f)) \<and>
             original = (if matches then Some fc else None) \<and> flow_tables_ok f3)"
proof -
  have ok: "hm_ok (mf_pending f)" and n: "length (mf_pending f) \<le> 256"
    using assms(1) by (auto simp: flow_tables_ok_def max_pending_transactions_def)
  have rem: "hm_get (hm_remove (t, u) (mf_pending f)) = (hm_get (mf_pending f))((t, u) := None)"
    by (rule ext) (simp add: hmap.get_remove [OF ok])
  have put: "hm_get (hm_insert (t, u) v (mf_pending f)) = (hm_get (mf_pending f))((t, u) \<mapsto> v)" for v
    by (rule ext) simp
  have 1: "let full = hm_get (mf_pending f) (t, u) = None \<and> length (mf_pending f) = 256;
              (f1, old) = insert_request t u fc ts f
          in hm_get (mf_pending f1) = (if full then hm_get (mf_pending f) else (hm_get (mf_pending f))((t, u) \<mapsto> (fc, ts))) \<and>
             old = hm_get (mf_pending f) (t, u) \<and> flow_tables_ok f1"
    using n insert_request_ok [OF assms(1), of t u fc ts]
    by (auto simp: insert_request_def Let_def put max_pending_transactions_def)
  have 2: "let (f2, request) = match_response t u fc f
          in hm_get (mf_pending f2) = (hm_get (mf_pending f))((t, u) := None) \<and>
             request = hm_get (mf_pending f) (t, u) \<and> flow_tables_ok f2"
    using remove_pending_ok(1) [OF assms(1), of t u fc] by (simp add: match_response_def rem)
  have 3: "let (f3, original) = attribute_exception t u (0x80 + fc) f;
              matches = (\<exists>since. hm_get (mf_pending f) (t, u) = Some (fc, since))
          in hm_get (mf_pending f3) = (if matches then (hm_get (mf_pending f))((t, u) := None) else hm_get (mf_pending f)) \<and>
             original = (if matches then Some fc else None) \<and> flow_tables_ok f3"
    using remove_pending_ok(2) [OF assms(1), of t u "0x80 + fc"]
    by (auto simp: attribute_exception_def Let_def rem strip_exception_bit [OF assms(2)] split: option.split prod.split)
  from 1 2 3 show ?thesis by blast
qed

theorem pending_table_is_bounded_map_witness:
  "let (f3, original) = attribute_exception 1 2 (0x80 + 3)
         (modbus_flow_state_default\<lparr>mf_pending := [((1, 2), (6, 9))]\<rparr>)
   in hm_get (mf_pending f3) = hm_get [((1, 2), (6, 9))] \<and> original = None"
  using pending_table_is_bounded_map [of "modbus_flow_state_default\<lparr>mf_pending := [((1, 2), (6, 9))]\<rparr>" 3 1 2]
  by (simp add: Let_def flow_tables_ok_def hm_ok_def max_pending_transactions_def case_prod_unfold) (simp add: hm_get_def)

subsection \<open>Detection\<close>

text \<open>The techniques a finding names.\<close>

definition tags :: "finding list \<Rightarrow> string set" where
  "tags fs = \<Union> (set ` mitre_techniques ` set fs)"

lemma tags_append [simp]: "tags (xs @ ys) = tags xs \<union> tags ys"
  by (auto simp: tags_def)

lemma tags_simps [simp]: "tags [] = {}" "tags (x # xs) = set (mitre_techniques x) \<union> tags xs"
  by (auto simp: tags_def)

lemma recon_tags: "''T1692.001'' \<notin> tags (recon_findings c)"
  by (auto simp: recon_findings_def pdu_finding_def)

lemma diagnostic_tags: "''T1692.001'' \<notin> tags (detect_diagnostic c)"
  by (auto simp: detect_diagnostic_def pdu_finding_def Let_def)

lemma response_tags: "detect_response c mf = Some (mf', found) \<Longrightarrow> ''T1692.001'' \<notin> tags found"
  by (cases mf)
     (auto simp: detect_response_def exception_update_def Let_def bind_eq_Some_conv exception_finding_def pdu_finding_def
        split: if_splits)

lemma detect_write_result:
  assumes "detect_write c (m, f) = Some ((m', f'), found)"
  shows "\<exists>co_tag. write_finding c co_tag \<in> set found" and "ma_total_write_count m' = sat_add64 (ma_total_write_count m) 1"
  using assms by (auto simp: detect_write_def Let_def bind_eq_Some_conv split: prod.splits)

lemma pushed:
  assumes "length (ma_all_findings m) + length fs \<le> modbus_max_findings"
  shows "ma_all_findings (fold push_modbus_finding fs m) = ma_all_findings m @ fs \<and>
         ma_total_write_count (fold push_modbus_finding fs m) = ma_total_write_count m"
  using assms
proof (induction fs arbitrary: m)
  case (Cons x fs)
  then show ?case by (simp add: push_modbus_finding_def)
qed simp

lemma write_count_frame:
  assumes "count_pdu c mf = Some mf1"
  shows "ma_total_write_count (fst mf1) = ma_total_write_count (fst mf)" "ma_all_findings (fst mf1) = ma_all_findings (fst mf)"
  using assms by (auto simp: count_pdu_def Let_def bind_eq_Some_conv split: prod.splits)

lemma process_pdu_parts:
  assumes "process_pdu key dir h fc data ts mf = Some ((m', f'), found)"
  obtains mf1 m2 found' where "count_pdu (pdu_context_of key dir h fc data ts) mf = Some mf1"
    and "(case dir of ClientToServer \<Rightarrow> detect_request (pdu_context_of key dir h fc data ts) mf1
            | ServerToClient \<Rightarrow> detect_response (pdu_context_of key dir h fc data ts) mf1) = Some ((m2, f'), found')"
    and "m' = fold push_modbus_finding found m2" and "found = recon_findings (pdu_context_of key dir h fc data ts) @ found'"
  using assms by (auto simp: process_pdu_def Let_def bind_eq_Some_conv)

lemma request_tags:
  assumes "detect_request c mf = Some (mf', found)"
  shows "''T1692.001'' \<in> tags found \<longleftrightarrow> classify_fc (pc_fc c) = Write"
proof (cases "classify_fc (pc_fc c) = Write")
  case True
  obtain m1 f1 where "note_request c mf = (m1, f1)" by force
  with assms True have "detect_write c (m1, f1) = Some ((fst mf', snd mf'), found)" by (simp add: detect_request_def)
  then obtain co where "write_finding c co \<in> set found" using detect_write_result(1) by blast
  moreover have "''T1692.001'' \<in> set (mitre_techniques (write_finding c co))"
    by (simp add: write_finding_def pdu_finding_def)
  ultimately show ?thesis using True by (auto simp: tags_def)
next
  case False
  then have "found \<in> {[], detect_diagnostic c}"
    using assms by (auto simp: detect_request_def Let_def split: function_code_class.splits)
  with False show ?thesis using diagnostic_tags by auto
qed

lemma note_request_counts: "ma_total_write_count (fst (note_request c (m, f))) = ma_total_write_count m"
  by (auto simp: note_request_def Let_def split: prod.split)

lemma request_counts:
  assumes "detect_request c (m, f) = Some ((m', f'), found)"
  shows "ma_all_findings m' = ma_all_findings m \<and> ma_total_write_count m' =
    (if classify_fc (pc_fc c) = Write then sat_add64 (ma_total_write_count m) 1 else ma_total_write_count m)"
proof -
  obtain m1 f1 where n: "note_request c (m, f) = (m1, f1)" by force
  have m1: "ma_all_findings m1 = ma_all_findings m" "ma_total_write_count m1 = ma_total_write_count m"
    using note_request_same(1) [OF n] note_request_counts [of c m f] n by (simp_all add: ma_same_def)
  show ?thesis
    using assms n m1
    by (auto simp: detect_request_def detect_write_def Let_def bind_eq_Some_conv split: function_code_class.splits prod.splits)
qed

lemma response_counts:
  assumes "detect_response c (m, f) = Some ((m', f'), found)"
  shows "ma_all_findings m' = ma_all_findings m \<and> ma_total_write_count m' = ma_total_write_count m"
  using assms by (auto simp: detect_response_def Let_def bind_eq_Some_conv split: if_splits)

text \<open>Write detection is exact: a PDU raises a finding tagged T1692.001 if and only if it is
  a request with a function code of the write class. The finding names the client as
  source and carries the capture time, the write is counted, and the findings of the PDU
  are all kept as long as the cap of 10,000 leaves room.\<close>

theorem modbus_write_detected_exactly:
  assumes "process_pdu key dir h fc data ts (m, f) = Some ((m', f'), found)"
    and "length (modbus_findings m) + length found \<le> 10000"
  shows "(''T1692.001'' \<in> tags found \<longleftrightarrow> dir = ClientToServer \<and> classify_fc fc = Write) \<and>
     modbus_findings m' = modbus_findings m @ found \<and>
     ma_total_write_count m' =
       (if dir = ClientToServer \<and> classify_fc fc = Write then sat_add64 (ma_total_write_count m) 1 else ma_total_write_count m)"
proof -
  let ?c = "pdu_context_of key dir h fc data ts"
  obtain mf1 m2 found' where c: "count_pdu ?c (m, f) = Some mf1"
      and d: "(case dir of ClientToServer \<Rightarrow> detect_request ?c mf1 | ServerToClient \<Rightarrow> detect_response ?c mf1) = Some ((m2, f'), found')"
      and m': "m' = fold push_modbus_finding found m2" and found: "found = recon_findings ?c @ found'"
    by (rule process_pdu_parts [OF assms(1)])
  obtain m1 f1 where mf1: "mf1 = (m1, f1)" by force
  have fc: "pc_fc (pdu_context_of key d h fc data ts) = fc" for d by (simp add: pdu_context_of_def)
  note frame = write_count_frame [OF c]
  have tags: "''T1692.001'' \<in> tags found' \<longleftrightarrow> dir = ClientToServer \<and> classify_fc fc = Write"
    using d request_tags response_tags by (cases dir) (auto simp: fc)
  have kept: "ma_all_findings m2 = ma_all_findings m \<and> ma_total_write_count m2 =
      (if dir = ClientToServer \<and> classify_fc fc = Write then sat_add64 (ma_total_write_count m) 1 else ma_total_write_count m)"
    using d frame request_counts [of ?c m1 f1 m2 f' found'] response_counts [of ?c m1 f1 m2 f' found']
    by (cases dir) (auto simp: fc mf1)
  have "length (ma_all_findings m2) + length found \<le> modbus_max_findings"
    using kept assms(2) by (simp add: modbus_findings_def modbus_max_findings_def)
  from pushed [OF this] kept tags recon_tags show ?thesis
    by (simp add: m' found modbus_findings_def)
qed

text \<open>One write of the sample frame, by a fresh analyzer.\<close>

lemma sample_write:
  "\<exists>m' f' found. process_pdu sample_key ClientToServer (fst sample_frame) 6 (encode_frame sample_frame) 9
       (sample_modbus, modbus_flow_state_default) = Some ((m', f'), found) \<and> length found = 1"
  by (simp add: process_pdu_def Let_def count_pdu_def detect_request_def note_request_def detect_write_def
      sustained_update_def burst_update_def t0831_update_def recon_findings_def classify_fc_def pdu_context_of_def
      modbus_flow_state_default_def sample_modbus_def modbus_analyzer_new_def hm_get_def insert_request_def
      max_pending_transactions_def write_burst_window_secs_def default_write_burst_threshold_def sat_subw_def
      add64_def u64_max_def sample_frame_def)

theorem modbus_write_detected_exactly_witness:
  "\<exists>m' f' found. process_pdu sample_key ClientToServer (fst sample_frame) 6 (encode_frame sample_frame) 9
       (sample_modbus, modbus_flow_state_default) = Some ((m', f'), found) \<and> ''T1692.001'' \<in> tags found \<and>
     modbus_findings m' = modbus_findings sample_modbus @ found \<and>
     ma_total_write_count m' = sat_add64 (ma_total_write_count sample_modbus) 1"
proof -
  obtain m' f' found where p: "process_pdu sample_key ClientToServer (fst sample_frame) 6 (encode_frame sample_frame) 9
       (sample_modbus, modbus_flow_state_default) = Some ((m', f'), found)" "length found = 1"
    using sample_write by blast
  have "classify_fc 6 = Write" by (simp add: classify_fc_def)
  moreover have "length (modbus_findings sample_modbus) + length found \<le> 10000"
    using p(2) by (simp add: sample_modbus_def modbus_analyzer_new_def modbus_findings_def)
  ultimately show ?thesis using modbus_write_detected_exactly [OF p(1)] p(1) by auto
qed

subsection \<open>Rates\<close>

lemma burst_opens:
  assumes "unat (pc_timestamp c) - unat (mf_window_start_ts f) > unat write_burst_window_secs"
  shows "snd (burst_step threshold c f) = False" and "mf_window_start_ts (fst (burst_step threshold c f)) = pc_timestamp c"
    and "mf_window_write_count (fst (burst_step threshold c f)) = 1" and "\<not> mf_window_burst_emitted (fst (burst_step threshold c f))"
  using assms by (simp_all add: burst_step_def burst_update_def within_window)

text \<open>The write-burst detector raises one alert per window and misses none: when a write
  opens a new window and further writes follow within a second of it, exactly one alert is
  raised if the writes of the window outnumber the threshold, and none otherwise. (With a
  threshold of zero the opening write alone raises none.)\<close>

theorem write_burst_once_per_window:
  assumes "unat (pc_timestamp c) - unat (mf_window_start_ts f) > 1"
    and "\<forall>d \<in> set cs. unat (pc_timestamp d) \<le> unat (pc_timestamp c) + 1" and "length (c # cs) < 2 ^ 32"
  shows "count_alerts (burst_step threshold) (c # cs) f = (if cs \<noteq> [] \<and> length (c # cs) > unat threshold then 1 else 0)"
proof -
  have w: "unat write_burst_window_secs = 1" by (simp add: write_burst_window_secs_def)
  note o = burst_opens [of c f threshold, unfolded w, OF assms(1)]
  have "count_alerts (burst_step threshold) cs (fst (burst_step threshold c f)) =
      (if cs \<noteq> [] \<and> unat (mf_window_write_count (fst (burst_step threshold c f))) + length cs > unat threshold then 1 else 0)"
    using assms(2,3) by (intro burst.alerts_open) (auto simp: o w le_diff_conv)
  with o show ?thesis by simp
qed

definition sample_pdu :: "u32 \<Rightarrow> pdu_context" where
  "sample_pdu ts = pdu_context_of sample_key ClientToServer (fst sample_frame) 6 (encode_frame sample_frame) ts"

lemma sample_pdu_ts [simp]: "pc_timestamp (sample_pdu ts) = ts"
  by (simp add: sample_pdu_def pdu_context_of_def)

theorem write_burst_once_per_window_witness:
  "count_alerts (burst_step 2) (sample_pdu 100 # [sample_pdu 100, sample_pdu 101, sample_pdu 101]) modbus_flow_state_default = 1"
  using write_burst_once_per_window [of "sample_pdu 100" modbus_flow_state_default "[sample_pdu 100, sample_pdu 101, sample_pdu 101]" 2]
  by (simp add: modbus_flow_state_default_def)

text \<open>The co-tag T0831, likewise: once, from the second register write within five seconds.\<close>

lemma t0831_once_per_window:
  assumes "unat (pc_timestamp c) - unat (mf_t0831_window_start_ts f) > 5" and "is_register_write (pc_fc c)"
    and "\<forall>d \<in> set cs. is_register_write (pc_fc d) \<and> unat (pc_timestamp d) \<le> unat (pc_timestamp c) + 5"
    and "length (c # cs) < 2 ^ 32"
  shows "count_alerts t0831_update (c # cs) f = (if cs \<noteq> [] then 1 else 0)"
proof -
  have w: "unat t0831_window_secs = 5" by (simp add: t0831_window_secs_def)
  have o: "t0831_update c f =
      (f\<lparr>mf_t0831_window_start_ts := pc_timestamp c, mf_t0831_window_write_count := 1, mf_t0831_burst_emitted := False\<rparr>, False)"
    using assms(1,2) by (simp add: t0831_update_def within_window w)
  have "count_alerts t0831_update cs (fst (t0831_update c f)) =
      (if cs \<noteq> [] \<and> unat (mf_t0831_window_write_count (fst (t0831_update c f))) + length cs \<ge> 2 then 1 else 0)"
    using assms(3,4) by (intro t0831.alerts_open) (auto simp: o w le_diff_conv)
  then show ?thesis by (cases cs) (simp_all add: o)
qed

text \<open>The exception detector raises one alert per exception code and window: the first
  exception of a code on a flow opens its window, and exactly one alert is raised if more
  than five exceptions of the code, the first included, fall within ten seconds of it,
  none otherwise.\<close>

theorem exception_burst_once_per_window:
  assumes "hm_get (mf_exception_window_start_ts f) code = None" and "hm_get (mf_exception_window_counts f) code = None"
    and "hm_get (mf_exception_burst_emitted f) code = None"
    and "\<forall>d \<in> set (c # cs). exception_code d = code" and "\<forall>d \<in> set cs. unat (pc_timestamp d) \<le> unat (pc_timestamp c) + 10"
    and "length (c # cs) < 2 ^ 32"
  shows "count_alerts exception_step (c # cs) f = (if length (c # cs) > 5 then 1 else 0)"
proof -
  have w: "unat exception_window_secs = 10" and r: "unat exception_rate_threshold = 5"
    by (simp_all add: exception_window_secs_def exception_rate_threshold_def)
  let ?f = "fst (exception_step c f)"
  have "sat_subw (pc_timestamp c) (pc_timestamp c) = 0" by (simp add: sat_subw_def)
  then have o: "snd (exception_step c f) = False" "exc_open code ?f" "exc_start code ?f = pc_timestamp c"
      "exc_count code ?f = 1" "\<not> exc_fired code ?f"
    using assms(1-4)
    by (simp_all add: exception_step_def exception_update_def exc_open_def exc_start_def exc_count_def exc_fired_def
        exception_rate_threshold_def addw_def)
  have "count_alerts exception_step cs ?f = (if cs \<noteq> [] \<and> unat (exc_count code ?f) + length cs > unat exception_rate_threshold then 1 else 0)"
    using assms(4-6) o by (intro exceptions.alerts_open) (auto simp: w le_diff_conv)
  then show ?thesis using o r by auto
qed

definition sample_exception :: "u32 \<Rightarrow> pdu_context" where
  "sample_exception ts = pdu_context_of sample_key ServerToClient (fst sample_frame) 0x83 [0, 7, 0, 0, 0, 3, 1, 0x83, 2] ts"

theorem exception_burst_once_per_window_witness:
  "count_alerts exception_step (sample_exception 100 # map sample_exception [101, 102, 103, 104, 105, 106, 110])
     modbus_flow_state_default = 1"
  using exception_burst_once_per_window [of modbus_flow_state_default 2 "sample_exception 100"
      "map sample_exception [101, 102, 103, 104, 105, 106, 110]"]
  by (simp add: modbus_flow_state_default_def hm_get_def exception_code_def sample_exception_def pdu_context_of_def)

subsection \<open>Reporting\<close>

text \<open>The summary has seven entries, \<open>dropped_transactions\<close> among them, and gives the
  counters of the analyzer as they are; its distribution lists the function codes seen,
  each with its count, and no code with a count of zero.\<close>

theorem modbus_summary_entries:
  "dom (detail (modbus_summarize m)) =
     {''pdu_count'', ''write_count'', ''exception_count'', ''parse_errors'', ''dropped_findings'',
      ''dropped_transactions'', ''function_code_distribution''} \<and>
   card (dom (detail (modbus_summarize m))) = 7 \<and>
   detail (modbus_summarize m) ''dropped_transactions'' = Some (Num (ma_dropped_transactions m)) \<and>
   (\<exists>dist. detail (modbus_summarize m) ''function_code_distribution'' = Some (Distribution dist) \<and>
      (\<forall>fc n. dist fc = Some n \<longleftrightarrow> n > 0 \<and> hm_get (ma_fn_code_counts m) fc = Some n))"
proof -
  have d: "dom (detail (modbus_summarize m)) =
     {''pdu_count'', ''write_count'', ''exception_count'', ''parse_errors'', ''dropped_findings'',
      ''dropped_transactions'', ''function_code_distribution''}"
    by (auto simp: modbus_summarize_def)
  moreover have "card (dom (detail (modbus_summarize m))) = 7" unfolding d by simp
  moreover have "detail (modbus_summarize m) ''dropped_transactions'' = Some (Num (ma_dropped_transactions m))"
    by (simp add: modbus_summarize_def)
  moreover have "\<exists>dist. detail (modbus_summarize m) ''function_code_distribution'' = Some (Distribution dist) \<and>
      (\<forall>fc n. dist fc = Some n \<longleftrightarrow> n > 0 \<and> hm_get (ma_fn_code_counts m) fc = Some n)"
    by (auto simp: modbus_summarize_def split: option.splits)
  ultimately show ?thesis by blast
qed

end
