(* ===== verification/Dispatcher.thy ===== *)
theory Dispatcher
  imports Findings Containers
begin

text \<open>
  The stream dispatcher (\<open>src/dispatcher.rs\<close>): content-first classification of flows,
  the routing cache with its retry budget, and the forwarding of stream events to at
  most one of six analyzers.

  The dispatcher's record (prefix \<open>sd_\<close>) is generic in the states of the analyzers it
  holds; their operations are the components of the record \<open>analyzers\<close> and a parameter
  of the definitions. The DNP3, EtherNet/IP and IEC 104 analyzers are called without an
  offset and without a close reason; as handlers they take and ignore these.
\<close>

section \<open>Targets and state\<close>

datatype transport_proto = TcpProto | UdpProto

datatype dispatch_target = ToHttp | ToTls | ToModbus | ToDnp3 | ToEnip | ToIec104 | ToNone

definition default_max_classification_attempts :: u32 where
  "default_max_classification_attempts = 8"

record ('h, 't, 'm, 'd, 'e, 'i) dispatcher =
  sd_routes :: "(flow_key, dispatch_target) hash_map"
  sd_classification_attempts :: "(flow_key, u32) hash_map"
  sd_max_classification_attempts :: u32
  sd_http :: "'h option"
  sd_tls :: "'t option"
  sd_modbus :: "'m option"
  sd_dnp3 :: "'d option"
  sd_enip :: "'e option"
  sd_iec104 :: "'i option"
  sd_unclassified_flows :: u64
  sd_unclassified_port_counts :: "(transport_proto \<times> u16, u64) hash_map"
  sd_coverage_gaps_enabled :: bool

text \<open>The operations of the analyzers.\<close>

record ('h, 't, 'm, 'd, 'e, 'i) analyzers =
  http_ops :: "'h stream_handler"
  tls_ops :: "'t stream_handler"
  modbus_ops :: "'m stream_handler"
  dnp3_ops :: "'d stream_handler"
  enip_ops :: "'e stream_handler"
  iec104_ops :: "'i stream_handler"

definition dispatcher_new ::
  "'h option \<Rightarrow> 't option \<Rightarrow> 'm option \<Rightarrow> 'd option \<Rightarrow> 'e option \<Rightarrow> 'i option \<Rightarrow> ('h, 't, 'm, 'd, 'e, 'i) dispatcher"
where
  "dispatcher_new http tls modbus dnp3 enip iec104 =
     \<lparr>sd_routes = [], sd_classification_attempts = [],
      sd_max_classification_attempts = default_max_classification_attempts,
      sd_http = http, sd_tls = tls, sd_modbus = modbus, sd_dnp3 = dnp3, sd_enip = enip, sd_iec104 = iec104,
      sd_unclassified_flows = 0, sd_unclassified_port_counts = [], sd_coverage_gaps_enabled = False\<rparr>"

definition with_max_classification_attempts ::
  "u32 \<Rightarrow> ('h, 't, 'm, 'd, 'e, 'i) dispatcher \<Rightarrow> ('h, 't, 'm, 'd, 'e, 'i) dispatcher"
where
  "with_max_classification_attempts n d = d\<lparr>sd_max_classification_attempts := n\<rparr>"

definition with_coverage_gaps ::
  "bool \<Rightarrow> ('h, 't, 'm, 'd, 'e, 'i) dispatcher \<Rightarrow> ('h, 't, 'm, 'd, 'e, 'i) dispatcher"
where
  "with_coverage_gaps enabled d = d\<lparr>sd_coverage_gaps_enabled := enabled\<rparr>"

text \<open>\<open>Option::take\<close> on the slot of an analyzer.\<close>

definition take_tls_analyzer ::
  "('h, 't, 'm, 'd, 'e, 'i) dispatcher \<Rightarrow> ('h, 't, 'm, 'd, 'e, 'i) dispatcher \<times> 't option"
where
  "take_tls_analyzer d = (d\<lparr>sd_tls := None\<rparr>, sd_tls d)"

definition take_modbus_analyzer ::
  "('h, 't, 'm, 'd, 'e, 'i) dispatcher \<Rightarrow> ('h, 't, 'm, 'd, 'e, 'i) dispatcher \<times> 'm option"
where
  "take_modbus_analyzer d = (d\<lparr>sd_modbus := None\<rparr>, sd_modbus d)"

definition take_dnp3_analyzer ::
  "('h, 't, 'm, 'd, 'e, 'i) dispatcher \<Rightarrow> ('h, 't, 'm, 'd, 'e, 'i) dispatcher \<times> 'd option"
where
  "take_dnp3_analyzer d = (d\<lparr>sd_dnp3 := None\<rparr>, sd_dnp3 d)"

definition take_enip_analyzer ::
  "('h, 't, 'm, 'd, 'e, 'i) dispatcher \<Rightarrow> ('h, 't, 'm, 'd, 'e, 'i) dispatcher \<times> 'e option"
where
  "take_enip_analyzer d = (d\<lparr>sd_enip := None\<rparr>, sd_enip d)"

definition take_iec104_analyzer ::
  "('h, 't, 'm, 'd, 'e, 'i) dispatcher \<Rightarrow> ('h, 't, 'm, 'd, 'e, 'i) dispatcher \<times> 'i option"
where
  "take_iec104_analyzer d = (d\<lparr>sd_iec104 := None\<rparr>, sd_iec104 d)"

definition set_enip_analyzer ::
  "'e \<Rightarrow> ('h, 't, 'm, 'd, 'e, 'i) dispatcher \<Rightarrow> ('h, 't, 'm, 'd, 'e, 'i) dispatcher"
where
  "set_enip_analyzer a d = d\<lparr>sd_enip := Some a\<rparr>"

definition set_iec104_analyzer ::
  "'i \<Rightarrow> ('h, 't, 'm, 'd, 'e, 'i) dispatcher \<Rightarrow> ('h, 't, 'm, 'd, 'e, 'i) dispatcher"
where
  "set_iec104_analyzer a d = d\<lparr>sd_iec104 := Some a\<rparr>"

section \<open>Classification\<close>

text \<open>\<open>data.starts_with(b"...")\<close>; the literals are ASCII.\<close>

definition starts_with :: "bytes \<Rightarrow> string \<Rightarrow> bool" where
  "starts_with data lit = (take (length lit) data = map of_char lit)"

definition classify :: "bytes \<Rightarrow> flow_key \<Rightarrow> dispatch_target" where
  "classify data key =
     (if 5 \<le> length data \<and> data ! 0 = 0x16 \<and> data ! 1 = 0x03 then ToTls
      else if starts_with data ''GET '' \<or> starts_with data ''POST '' \<or> starts_with data ''PUT '' \<or>
              starts_with data ''DELETE '' \<or> starts_with data ''HEAD '' \<or> starts_with data ''OPTIONS '' \<or>
              starts_with data ''PATCH '' \<or> starts_with data ''CONNECT '' \<or> starts_with data ''TRACE '' \<or>
              starts_with data ''HTTP/'' then ToHttp
      else let ports = {lower_port key, upper_port key} in
        if 443 \<in> ports \<or> 8443 \<in> ports then ToTls
        else if 80 \<in> ports \<or> 8080 \<in> ports then ToHttp
        else if 502 \<in> ports then ToModbus
        else if 20000 \<in> ports then ToDnp3
        else if 44818 \<in> ports then ToEnip
        else if 2404 \<in> ports then ToIec104
        else ToNone)"

section \<open>Events\<close>

text \<open>Both guards over the six slots: no analyzer at all, or at least one.\<close>

definition no_analyzers :: "('h, 't, 'm, 'd, 'e, 'i) dispatcher \<Rightarrow> bool" where
  "no_analyzers d =
     (sd_http d = None \<and> sd_tls d = None \<and> sd_modbus d = None \<and> sd_dnp3 d = None \<and> sd_enip d = None \<and> sd_iec104 d = None)"

text \<open>The cached target of a flow, or its classification with the retry budget.\<close>

definition route_target ::
  "bytes \<Rightarrow> flow_key \<Rightarrow> ('h, 't, 'm, 'd, 'e, 'i) dispatcher \<Rightarrow> ('h, 't, 'm, 'd, 'e, 'i) dispatcher \<times> dispatch_target"
where
  "route_target data key d =
     (case hm_get (sd_routes d) key of
        Some cached \<Rightarrow> (d, cached)
      | None \<Rightarrow>
          let target = classify data key in
          if target = ToNone then
            let n = sat_addw (case hm_get (sd_classification_attempts d) key of Some n \<Rightarrow> n | None \<Rightarrow> 0) 1;
                d1 = d\<lparr>sd_classification_attempts := hm_insert key n (sd_classification_attempts d)\<rparr>
            in (if n \<ge> sd_max_classification_attempts d
                then d1\<lparr>sd_routes := hm_insert key ToNone (sd_routes d1),
                        sd_classification_attempts := hm_remove key (sd_classification_attempts d1)\<rparr>
                else d1, target)
          else (d\<lparr>sd_routes := hm_insert key target (sd_routes d),
                  sd_classification_attempts := hm_remove key (sd_classification_attempts d)\<rparr>, target))"

text \<open>\<open>if let Some(ref mut a) = self.slot { a.op(...) }\<close>.\<close>

definition with_slot :: "'a option \<Rightarrow> ('a \<Rightarrow> 'a rust) \<Rightarrow> 'a option rust" where
  "with_slot slot oper = (case slot of None \<Rightarrow> Some None | Some a \<Rightarrow> do { a' \<leftarrow> oper a; Some (Some a') })"

definition forward_data ::
  "('h, 't, 'm, 'd, 'e, 'i) analyzers \<Rightarrow> dispatch_target \<Rightarrow> flow_key \<Rightarrow> direction \<Rightarrow> bytes \<Rightarrow> u64 \<Rightarrow> u32
   \<Rightarrow> ('h, 't, 'm, 'd, 'e, 'i) dispatcher \<Rightarrow> ('h, 't, 'm, 'd, 'e, 'i) dispatcher rust"
where
  "forward_data A target key dir data off ts d =
     (case target of
        ToHttp \<Rightarrow> do { s \<leftarrow> with_slot (sd_http d) (\<lambda>a. on_data (http_ops A) a key dir data off ts); Some (d\<lparr>sd_http := s\<rparr>) }
      | ToTls \<Rightarrow> do { s \<leftarrow> with_slot (sd_tls d) (\<lambda>a. on_data (tls_ops A) a key dir data off ts); Some (d\<lparr>sd_tls := s\<rparr>) }
      | ToModbus \<Rightarrow> do { s \<leftarrow> with_slot (sd_modbus d) (\<lambda>a. on_data (modbus_ops A) a key dir data off ts); Some (d\<lparr>sd_modbus := s\<rparr>) }
      | ToDnp3 \<Rightarrow> do { s \<leftarrow> with_slot (sd_dnp3 d) (\<lambda>a. on_data (dnp3_ops A) a key dir data off ts); Some (d\<lparr>sd_dnp3 := s\<rparr>) }
      | ToEnip \<Rightarrow> do { s \<leftarrow> with_slot (sd_enip d) (\<lambda>a. on_data (enip_ops A) a key dir data off ts); Some (d\<lparr>sd_enip := s\<rparr>) }
      | ToIec104 \<Rightarrow> do { s \<leftarrow> with_slot (sd_iec104 d) (\<lambda>a. on_data (iec104_ops A) a key dir data off ts); Some (d\<lparr>sd_iec104 := s\<rparr>) }
      | ToNone \<Rightarrow> Some d)"

definition dispatcher_on_data ::
  "('h, 't, 'm, 'd, 'e, 'i) analyzers \<Rightarrow> ('h, 't, 'm, 'd, 'e, 'i) dispatcher \<Rightarrow> flow_key \<Rightarrow> direction \<Rightarrow> bytes \<Rightarrow> u64 \<Rightarrow> u32
   \<Rightarrow> ('h, 't, 'm, 'd, 'e, 'i) dispatcher rust"
where
  "dispatcher_on_data A d key dir data off ts =
     (if no_analyzers d then Some d
      else let (d1, target) = route_target data key d in forward_data A target key dir data off ts d1)"

text \<open>The counters of a flow that closes without a target.\<close>

definition count_unclassified ::
  "flow_key \<Rightarrow> ('h, 't, 'm, 'd, 'e, 'i) dispatcher \<Rightarrow> ('h, 't, 'm, 'd, 'e, 'i) dispatcher"
where
  "count_unclassified key d =
     (if no_analyzers d then d
      else let d1 = d\<lparr>sd_unclassified_flows := sat_add64 (sd_unclassified_flows d) 1\<rparr> in
        if sd_coverage_gaps_enabled d then
          let port = (TcpProto, min (lower_port key) (upper_port key));
              n = (case hm_get (sd_unclassified_port_counts d) port of Some n \<Rightarrow> n | None \<Rightarrow> 0)
          in d1\<lparr>sd_unclassified_port_counts := hm_insert port (sat_add64 n 1) (sd_unclassified_port_counts d)\<rparr>
        else d1)"

definition forward_close ::
  "('h, 't, 'm, 'd, 'e, 'i) analyzers \<Rightarrow> dispatch_target option \<Rightarrow> flow_key \<Rightarrow> close_reason
   \<Rightarrow> ('h, 't, 'm, 'd, 'e, 'i) dispatcher \<Rightarrow> ('h, 't, 'm, 'd, 'e, 'i) dispatcher rust"
where
  "forward_close A target key reason d =
     (case target of
        Some ToHttp \<Rightarrow> do { s \<leftarrow> with_slot (sd_http d) (\<lambda>a. on_flow_close (http_ops A) a key reason); Some (d\<lparr>sd_http := s\<rparr>) }
      | Some ToTls \<Rightarrow> do { s \<leftarrow> with_slot (sd_tls d) (\<lambda>a. on_flow_close (tls_ops A) a key reason); Some (d\<lparr>sd_tls := s\<rparr>) }
      | Some ToModbus \<Rightarrow> do { s \<leftarrow> with_slot (sd_modbus d) (\<lambda>a. on_flow_close (modbus_ops A) a key reason); Some (d\<lparr>sd_modbus := s\<rparr>) }
      | Some ToDnp3 \<Rightarrow> do { s \<leftarrow> with_slot (sd_dnp3 d) (\<lambda>a. on_flow_close (dnp3_ops A) a key reason); Some (d\<lparr>sd_dnp3 := s\<rparr>) }
      | Some ToEnip \<Rightarrow> do { s \<leftarrow> with_slot (sd_enip d) (\<lambda>a. on_flow_close (enip_ops A) a key reason); Some (d\<lparr>sd_enip := s\<rparr>) }
      | Some ToIec104 \<Rightarrow> do { s \<leftarrow> with_slot (sd_iec104 d) (\<lambda>a. on_flow_close (iec104_ops A) a key reason); Some (d\<lparr>sd_iec104 := s\<rparr>) }
      | Some ToNone \<Rightarrow> Some (count_unclassified key d)
      | None \<Rightarrow> Some (count_unclassified key d))"

definition dispatcher_on_flow_close ::
  "('h, 't, 'm, 'd, 'e, 'i) analyzers \<Rightarrow> ('h, 't, 'm, 'd, 'e, 'i) dispatcher \<Rightarrow> flow_key \<Rightarrow> close_reason
   \<Rightarrow> ('h, 't, 'm, 'd, 'e, 'i) dispatcher rust"
where
  "dispatcher_on_flow_close A d key reason =
     forward_close A (hm_get (sd_routes d) key) key reason
       (d\<lparr>sd_classification_attempts := hm_remove key (sd_classification_attempts d),
          sd_routes := hm_remove key (sd_routes d)\<rparr>)"

definition dispatcher_handler ::
  "('h, 't, 'm, 'd, 'e, 'i) analyzers \<Rightarrow> ('h, 't, 'm, 'd, 'e, 'i) dispatcher stream_handler"
where
  "dispatcher_handler A = \<lparr>on_data = dispatcher_on_data A, on_flow_close = dispatcher_on_flow_close A\<rparr>"

section \<open>UDP gaps\<close>

definition udp_gap_key :: "parsed_packet \<Rightarrow> bool \<Rightarrow> (transport_proto \<times> u16) option" where
  "udp_gap_key p dns_handles =
     (if dns_handles then None
      else case transport p of
        UdpInfo src dst \<Rightarrow> Some (UdpProto, min src dst)
      | _ \<Rightarrow> None)"

end
