(* ===== verification/Dispatcher_Inv.thy ===== *)
theory Dispatcher_Inv
  imports Dispatcher Engine_Run
begin

text \<open>
  The dispatcher between the engine and its analyzers: analyzers that keep the contract
  of a stream client make the dispatcher a stream client, and its tables follow the
  flows that are open.
\<close>

section \<open>A client made of clients\<close>

definition slot_ok :: "(nat \<Rightarrow> 'a \<Rightarrow> bool) \<Rightarrow> nat \<Rightarrow> 'a option \<Rightarrow> bool" where
  "slot_ok I n slot = (case slot of None \<Rightarrow> True | Some a \<Rightarrow> I n a)"

lemma slot_ok_simps [simp]: "slot_ok I n None" "slot_ok I n (Some a) = I n a"
  by (simp_all add: slot_ok_def)

lemma with_slot_safe:
  assumes "slot_ok I k slot" and "\<And>a. I k a \<Longrightarrow> \<exists>a'. oper a = Some a' \<and> I n a'"
  shows "\<exists>s. with_slot slot oper = Some s \<and> slot_ok I n s"
  using assms by (cases slot) (fastforce simp: with_slot_def)+

lemma slot_mono: "(\<And>a. I (n + k) a \<Longrightarrow> I n a) \<Longrightarrow> slot_ok I (n + k) slot \<Longrightarrow> slot_ok I n slot"
  by (cases slot) simp_all

lemma slot_step:
  assumes "\<exists>s. w = Some s \<and> slot_ok I n s" and "\<And>s. slot_ok I n s \<Longrightarrow> P (upd s)"
  shows "\<exists>d'. do { s \<leftarrow> w; Some (upd s) } = Some d' \<and> P d'"
  using assms by auto

definition slots_ok ::
  "(nat \<Rightarrow> 'h \<Rightarrow> bool) \<Rightarrow> (nat \<Rightarrow> 't \<Rightarrow> bool) \<Rightarrow> (nat \<Rightarrow> 'm \<Rightarrow> bool) \<Rightarrow> (nat \<Rightarrow> 'd \<Rightarrow> bool) \<Rightarrow> (nat \<Rightarrow> 'e \<Rightarrow> bool) \<Rightarrow>
   (nat \<Rightarrow> 'i \<Rightarrow> bool) \<Rightarrow> nat \<Rightarrow> ('h, 't, 'm, 'd, 'e, 'i) dispatcher \<Rightarrow> bool"
where
  "slots_ok Ih It Im Idp Ie Ii n d \<longleftrightarrow>
     slot_ok Ih n (sd_http d) \<and> slot_ok It n (sd_tls d) \<and> slot_ok Im n (sd_modbus d) \<and>
     slot_ok Idp n (sd_dnp3 d) \<and> slot_ok Ie n (sd_enip d) \<and> slot_ok Ii n (sd_iec104 d)"

lemma route_target_slots [simp]:
  "sd_http (fst (route_target data key d)) = sd_http d" "sd_tls (fst (route_target data key d)) = sd_tls d"
  "sd_modbus (fst (route_target data key d)) = sd_modbus d" "sd_dnp3 (fst (route_target data key d)) = sd_dnp3 d"
  "sd_enip (fst (route_target data key d)) = sd_enip d" "sd_iec104 (fst (route_target data key d)) = sd_iec104 d"
  by (auto simp: route_target_def Let_def split: option.split)

lemma count_unclassified_slots [simp]:
  "slots_ok Ih It Im Idp Ie Ii n (count_unclassified key d) = slots_ok Ih It Im Idp Ie Ii n d"
  by (auto simp: count_unclassified_def Let_def slots_ok_def)

locale dispatched_clients =
  http: stream_client Hh Ih + tls: stream_client Ht It + modbus: stream_client Hm Im +
  dnp3: stream_client Hd Idp + enip: stream_client He Ie + iec104: stream_client Hi Ii
  for Hh :: "'h stream_handler" and Ih and Ht :: "'t stream_handler" and It and Hm :: "'m stream_handler" and Im
    and Hd :: "'d stream_handler" and Idp and He :: "'e stream_handler" and Ie and Hi :: "'i stream_handler" and Ii
begin

abbreviation ops where
  "ops \<equiv> \<lparr>http_ops = Hh, tls_ops = Ht, modbus_ops = Hm, dnp3_ops = Hd, enip_ops = He, iec104_ops = Hi\<rparr>"

abbreviation ok where
  "ok \<equiv> slots_ok Ih It Im Idp Ie Ii"

lemma slots_mono:
  assumes "ok (n + k) d"
  shows "ok n d"
proof -
  have "slot_ok Ih n (sd_http d)" by (rule slot_mono [OF http.budget_mono, where k = k], assumption) (insert assms, simp add: slots_ok_def)
  moreover have "slot_ok It n (sd_tls d)" by (rule slot_mono [OF tls.budget_mono, where k = k], assumption) (insert assms, simp add: slots_ok_def)
  moreover have "slot_ok Im n (sd_modbus d)" by (rule slot_mono [OF modbus.budget_mono, where k = k], assumption) (insert assms, simp add: slots_ok_def)
  moreover have "slot_ok Idp n (sd_dnp3 d)" by (rule slot_mono [OF dnp3.budget_mono, where k = k], assumption) (insert assms, simp add: slots_ok_def)
  moreover have "slot_ok Ie n (sd_enip d)" by (rule slot_mono [OF enip.budget_mono, where k = k], assumption) (insert assms, simp add: slots_ok_def)
  moreover have "slot_ok Ii n (sd_iec104 d)" by (rule slot_mono [OF iec104.budget_mono, where k = k], assumption) (insert assms, simp add: slots_ok_def)
  ultimately show ?thesis by (simp add: slots_ok_def)
qed

lemma forward_data_safe:
  assumes "ok (n + length data) d"
  shows "\<exists>d'. forward_data ops target key dir data off ts d = Some d' \<and> ok n d'"
proof -
  have d: "ok n d" using slots_mono [OF assms] .
  have s: "slot_ok Ih (n + length data) (sd_http d)" "slot_ok It (n + length data) (sd_tls d)"
      "slot_ok Im (n + length data) (sd_modbus d)" "slot_ok Idp (n + length data) (sd_dnp3 d)"
      "slot_ok Ie (n + length data) (sd_enip d)" "slot_ok Ii (n + length data) (sd_iec104 d)"
    using assms by (simp_all add: slots_ok_def)
  show ?thesis
  proof (cases target)
    case ToHttp
    show ?thesis
      unfolding forward_data_def ToHttp dispatch_target.case analyzers.select_convs
      by (rule slot_step [OF with_slot_safe [OF s(1) http.on_data_safe]], assumption) (insert d, simp add: slots_ok_def)
  next
    case ToTls
    show ?thesis
      unfolding forward_data_def ToTls dispatch_target.case analyzers.select_convs
      by (rule slot_step [OF with_slot_safe [OF s(2) tls.on_data_safe]], assumption) (insert d, simp add: slots_ok_def)
  next
    case ToModbus
    show ?thesis
      unfolding forward_data_def ToModbus dispatch_target.case analyzers.select_convs
      by (rule slot_step [OF with_slot_safe [OF s(3) modbus.on_data_safe]], assumption) (insert d, simp add: slots_ok_def)
  next
    case ToDnp3
    show ?thesis
      unfolding forward_data_def ToDnp3 dispatch_target.case analyzers.select_convs
      by (rule slot_step [OF with_slot_safe [OF s(4) dnp3.on_data_safe]], assumption) (insert d, simp add: slots_ok_def)
  next
    case ToEnip
    show ?thesis
      unfolding forward_data_def ToEnip dispatch_target.case analyzers.select_convs
      by (rule slot_step [OF with_slot_safe [OF s(5) enip.on_data_safe]], assumption) (insert d, simp add: slots_ok_def)
  next
    case ToIec104
    show ?thesis
      unfolding forward_data_def ToIec104 dispatch_target.case analyzers.select_convs
      by (rule slot_step [OF with_slot_safe [OF s(6) iec104.on_data_safe]], assumption) (insert d, simp add: slots_ok_def)
  next
    case ToNone
    then show ?thesis using d by (simp add: forward_data_def)
  qed
qed

lemma forward_close_safe:
  assumes "ok n d"
  shows "\<exists>d'. forward_close ops target key reason d = Some d' \<and> ok n d'"
proof -
  have s: "slot_ok Ih n (sd_http d)" "slot_ok It n (sd_tls d)" "slot_ok Im n (sd_modbus d)"
      "slot_ok Idp n (sd_dnp3 d)" "slot_ok Ie n (sd_enip d)" "slot_ok Ii n (sd_iec104 d)"
    using assms by (simp_all add: slots_ok_def)
  consider "target = None \<or> target = Some ToNone" | "target = Some ToHttp" | "target = Some ToTls" | "target = Some ToModbus"
    | "target = Some ToDnp3" | "target = Some ToEnip" | "target = Some ToIec104"
    by (cases target; cases "the target") auto
  then show ?thesis
  proof cases
    case 1
    then show ?thesis using assms by (auto simp: forward_close_def)
  next
    case 2
    show ?thesis
      unfolding forward_close_def 2 option.case dispatch_target.case analyzers.select_convs
      by (rule slot_step [OF with_slot_safe [OF s(1) http.on_flow_close_safe]], assumption) (insert assms, simp add: slots_ok_def)
  next
    case 3
    show ?thesis
      unfolding forward_close_def 3 option.case dispatch_target.case analyzers.select_convs
      by (rule slot_step [OF with_slot_safe [OF s(2) tls.on_flow_close_safe]], assumption) (insert assms, simp add: slots_ok_def)
  next
    case 4
    show ?thesis
      unfolding forward_close_def 4 option.case dispatch_target.case analyzers.select_convs
      by (rule slot_step [OF with_slot_safe [OF s(3) modbus.on_flow_close_safe]], assumption) (insert assms, simp add: slots_ok_def)
  next
    case 5
    show ?thesis
      unfolding forward_close_def 5 option.case dispatch_target.case analyzers.select_convs
      by (rule slot_step [OF with_slot_safe [OF s(4) dnp3.on_flow_close_safe]], assumption) (insert assms, simp add: slots_ok_def)
  next
    case 6
    show ?thesis
      unfolding forward_close_def 6 option.case dispatch_target.case analyzers.select_convs
      by (rule slot_step [OF with_slot_safe [OF s(5) enip.on_flow_close_safe]], assumption) (insert assms, simp add: slots_ok_def)
  next
    case 7
    show ?thesis
      unfolding forward_close_def 7 option.case dispatch_target.case analyzers.select_convs
      by (rule slot_step [OF with_slot_safe [OF s(6) iec104.on_flow_close_safe]], assumption) (insert assms, simp add: slots_ok_def)
  qed
qed

lemma dispatcher_on_data_safe:
  assumes "ok (n + length data) d"
  shows "\<exists>d'. dispatcher_on_data ops d key dir data off ts = Some d' \<and> ok n d'"
proof (cases "no_analyzers d")
  case True
  then show ?thesis using slots_mono [OF assms] by (simp add: dispatcher_on_data_def)
next
  case False
  obtain d1 t where r: "route_target data key d = (d1, t)" by force
  have "ok (n + length data) d1" using assms route_target_slots [of data key d] r by (simp add: slots_ok_def)
  from forward_data_safe [OF this] False r show ?thesis by (simp add: dispatcher_on_data_def)
qed

end

sublocale dispatched_clients \<subseteq> dispatcher: stream_client "dispatcher_handler ops" ok
proof
  fix n h key dir off ts and data :: bytes
  assume "ok (n + length data) h"
  then show "\<exists>h'. on_data (dispatcher_handler ops) h key dir data off ts = Some h' \<and> ok n h'"
    using dispatcher_on_data_safe by (simp add: dispatcher_handler_def)
next
  fix n h key reason
  assume h: "ok n h"
  have "ok n (h\<lparr>sd_classification_attempts := hm_remove key (sd_classification_attempts h),
          sd_routes := hm_remove key (sd_routes h)\<rparr>)" using h by (simp add: slots_ok_def)
  from forward_close_safe [OF this]
  show "\<exists>h'. on_flow_close (dispatcher_handler ops) h key reason = Some h' \<and> ok n h'"
    by (simp add: dispatcher_handler_def dispatcher_on_flow_close_def)
next
  fix n k h
  assume "ok (n + k) h"
  then show "ok n h" by (rule slots_mono)
qed

end
