(* ===== verification/Dispatcher_Route.thy ===== *)
theory Dispatcher_Route
  imports Dispatcher_Inv
begin

text \<open>
  What the dispatcher forwards. Seen flow by flow, it is a small automaton: chunks are
  held back from the analyzers until one classifies or the retry budget is spent, and
  from then on everything goes to one target, or nowhere, until the flow closes.
\<close>

section \<open>The tables\<close>

definition tracked :: "flow_key \<Rightarrow> ('h, 't, 'm, 'd, 'e, 'i) dispatcher \<Rightarrow> bool" where
  "tracked key d \<longleftrightarrow> hm_get (sd_routes d) key \<noteq> None \<or> hm_get (sd_classification_attempts d) key \<noteq> None"

definition same_tables :: "('h, 't, 'm, 'd, 'e, 'i) dispatcher \<Rightarrow> ('h, 't, 'm, 'd, 'e, 'i) dispatcher \<Rightarrow> bool" where
  "same_tables d d' \<longleftrightarrow>
     sd_routes d' = sd_routes d \<and> sd_classification_attempts d' = sd_classification_attempts d \<and>
     sd_max_classification_attempts d' = sd_max_classification_attempts d"

lemma forward_data_tables: "forward_data A target key dir data off ts d = Some d' \<Longrightarrow> same_tables d d'"
  by (cases target) (auto simp: forward_data_def same_tables_def bind_eq_Some_conv)

lemma count_unclassified_tables: "same_tables d (count_unclassified key d)"
  by (simp add: count_unclassified_def same_tables_def Let_def)

lemma forward_close_tables:
  assumes "forward_close A target key reason d = Some d'"
  shows "same_tables d d'"
proof (cases target)
  case None
  then show ?thesis using assms count_unclassified_tables by (auto simp: forward_close_def)
next
  case (Some t)
  then show ?thesis
    using assms count_unclassified_tables by (cases t) (auto simp: forward_close_def same_tables_def bind_eq_Some_conv)
qed

lemma route_target_tables:
  "key' \<noteq> key \<Longrightarrow> hm_get (sd_routes (fst (route_target data key d))) key' = hm_get (sd_routes d) key'"
  "key' \<noteq> key \<Longrightarrow>
     hm_get (sd_classification_attempts (fst (route_target data key d))) key' = hm_get (sd_classification_attempts d) key'"
  "sd_max_classification_attempts (fst (route_target data key d)) = sd_max_classification_attempts d"
  by (auto simp: route_target_def Let_def split: option.split)

lemma tracked_on_data:
  assumes "dispatcher_on_data A d key dir data off ts = Some d'" and "tracked key' d'" and "key' \<noteq> key"
  shows "tracked key' d"
proof (cases "no_analyzers d")
  case True
  then show ?thesis using assms by (simp add: dispatcher_on_data_def)
next
  case False
  obtain d1 t where r: "route_target data key d = (d1, t)" by force
  have "same_tables d1 d'" using assms(1) False r forward_data_tables by (fastforce simp: dispatcher_on_data_def)
  with assms(2,3) route_target_tables(1,2) [of key' key data d] r show ?thesis by (simp add: same_tables_def tracked_def)
qed

lemma tracked_on_flow_close:
  assumes "dispatcher_on_flow_close A d key reason = Some d'" and "tracked key' d'"
  shows "tracked key' d \<and> key' \<noteq> key"
  using forward_close_tables [OF assms(1) [unfolded dispatcher_on_flow_close_def]] assms(2)
  by (auto simp: same_tables_def tracked_def split: if_splits)

text \<open>The dispatcher keeps state only for flows that have delivered data since they last closed.\<close>

lemma tracked_replay:
  assumes "replay (dispatcher_handler A) es d = Some d'" and "wf_from c es" and "\<And>key. tracked key d \<Longrightarrow> \<exists>dir. c (key, dir) > 0"
    and "tracked key d'"
  shows "\<exists>dir. fold trace_step es c (key, dir) > 0"
  using assms
proof (induction es arbitrary: d c)
  case Nil
  then show ?case by simp
next
  case (Cons e es)
  obtain d1 where h: "handle_event (dispatcher_handler A) e d = Some d1" and r: "replay (dispatcher_handler A) es d1 = Some d'"
    using Cons.prems(1) by (auto simp: bind_eq_Some_conv)
  have "\<exists>dir. trace_step e c (k, dir) > 0" if t: "tracked k d1" for k
  proof (cases e)
    case (DataEvent key' dir data off ts)
    then show ?thesis
      using h t Cons.prems(2) Cons.prems(3) [of k] tracked_on_data [of A d key' dir data off ts d1 k]
      by (cases "k = key'") (auto simp: dispatcher_handler_def)
  next
    case (CloseEvent key' reason)
    then show ?thesis
      using h t Cons.prems(3) [of k] tracked_on_flow_close [of A d key' reason d1 k] by (auto simp: dispatcher_handler_def)
  qed
  with Cons.IH [OF r _ _ Cons.prems(4)] Cons.prems(2) show ?case by simp
qed

section \<open>Forwarding, flow by flow\<close>

fun event_key :: "stream_event \<Rightarrow> flow_key" where
  "event_key (DataEvent key dir data off ts) = key"
| "event_key (CloseEvent key reason) = key"

fun event_data :: "stream_event \<Rightarrow> bytes" where
  "event_data (DataEvent key dir data off ts) = data"
| "event_data (CloseEvent key reason) = []"

definition view :: "flow_key \<Rightarrow> stream_event list \<Rightarrow> stream_event list" where
  "view key es = filter (\<lambda>e. event_key e = key) es"

lemma view_simps [simp]:
  "view key [] = []" "view key (e # es) = (if event_key e = key then e # view key es else view key es)"
  "view key (es @ es') = view key es @ view key es'"
  by (simp_all add: view_def)

text \<open>The automaton of one flow: with \<open>n\<close> attempts already failed, the target it gets and the events
  that reach it.\<close>

fun routed :: "nat \<Rightarrow> nat \<Rightarrow> stream_event list \<Rightarrow> dispatch_target \<times> stream_event list" where
  "routed limit n [] = (ToNone, [])"
| "routed limit n (e # es) =
     (let target = classify (event_data e) (event_key e) in
      if target \<noteq> ToNone then (target, e # es)
      else if limit \<le> n + 1 then (ToNone, [])
      else routed limit (n + 1) es)"

text \<open>The dispatcher with analyzers that only record what they are given.\<close>

type_synonym recording_dispatcher =
  "(stream_event list, stream_event list, stream_event list, stream_event list, stream_event list, stream_event list) dispatcher"

definition recorders ::
  "(stream_event list, stream_event list, stream_event list, stream_event list, stream_event list, stream_event list) analyzers"
where
  "recorders =
     \<lparr>http_ops = recorder, tls_ops = recorder, modbus_ops = recorder, dnp3_ops = recorder, enip_ops = recorder,
      iec104_ops = recorder\<rparr>"

fun slot_of :: "dispatch_target \<Rightarrow> recording_dispatcher \<Rightarrow> stream_event list option" where
  "slot_of ToHttp d = sd_http d"
| "slot_of ToTls d = sd_tls d"
| "slot_of ToModbus d = sd_modbus d"
| "slot_of ToDnp3 d = sd_dnp3 d"
| "slot_of ToEnip d = sd_enip d"
| "slot_of ToIec104 d = sd_iec104 d"
| "slot_of ToNone d = None"

interpretation recorded: dispatched_clients recorder "\<lambda>_ _. True" recorder "\<lambda>_ _. True" recorder "\<lambda>_ _. True"
    recorder "\<lambda>_ _. True" recorder "\<lambda>_ _. True" recorder "\<lambda>_ _. True"
  by unfold_locales

lemma recorded_replay: "\<exists>d'. replay (dispatcher_handler recorders) es d = Some d'"
proof -
  have "slots_ok (\<lambda>_ _. True) (\<lambda>_ _. True) (\<lambda>_ _. True) (\<lambda>_ _. True) (\<lambda>_ _. True) (\<lambda>_ _. True) (0 + trace_bytes es) d"
    by (simp add: slots_ok_def slot_ok_def split: option.split)
  from recorded.dispatcher.replay_safe [OF this] show ?thesis by (auto simp: recorders_def)
qed

lemma no_analyzers_slots: "no_analyzers d \<longleftrightarrow> (\<forall>t. slot_of t d = None)"
proof
  assume a: "\<forall>t. slot_of t d = None"
  from a [rule_format, of ToHttp] a [rule_format, of ToTls] a [rule_format, of ToModbus] a [rule_format, of ToDnp3]
    a [rule_format, of ToEnip] a [rule_format, of ToIec104]
  show "no_analyzers d" by (simp add: no_analyzers_def)
next
  assume "no_analyzers d"
  then have "slot_of t d = None" for t by (cases t) (simp_all add: no_analyzers_def)
  then show "\<forall>t. slot_of t d = None" ..
qed

lemma with_slot_record: "with_slot s (\<lambda>l. Some (l @ es)) = Some (map_option (\<lambda>l. l @ es) s)"
  by (cases s) (simp_all add: with_slot_def)

lemma forward_data_recorded:
  assumes "forward_data recorders target key dir data off ts d = Some d'"
  shows "slot_of t d' = (if t = target then map_option (\<lambda>l. l @ [DataEvent key dir data off ts]) (slot_of t d) else slot_of t d)"
  using assms by (cases target; cases t) (auto simp: forward_data_def recorders_def with_slot_record)

lemma forward_close_recorded:
  assumes "forward_close recorders target key reason d = Some d'" and "key \<noteq> key'"
  shows "map_option (view key') (slot_of t d') = map_option (view key') (slot_of t d)"
proof -
  have m: "map_option (view key') (map_option (\<lambda>l. l @ [CloseEvent key reason]) s) = map_option (view key') s" for s
    using assms(2) by (cases s) simp_all
  have c: "slot_of t (count_unclassified key d) = slot_of t d"
    by (cases t; simp add: count_unclassified_def Let_def)
  consider "d' = count_unclassified key d" | t' where "target = Some t'" "t' \<noteq> ToNone"
    using assms(1) by (cases target; cases "the target") (auto simp: forward_close_def)
  then show ?thesis
  proof cases
    case (2 t')
    then show ?thesis using assms(1) by (cases t'; cases t) (auto simp: forward_close_def recorders_def with_slot_record m)
  qed (simp add: c)
qed

text \<open>One event. Events of other flows leave a flow's view and its entries in the tables alone.\<close>

abbreviation handle where
  "handle \<equiv> handle_event (dispatcher_handler recorders)"

lemma route_target_slot_of: "slot_of t (fst (route_target data key d)) = slot_of t d"
  by (cases t) simp_all

lemma data_event:
  assumes "handle (DataEvent key dir data off ts) d = Some d'" and "\<not> no_analyzers d"
  shows "slot_of t d' = (if t = snd (route_target data key d) then map_option (\<lambda>l. l @ [DataEvent key dir data off ts]) (slot_of t d)
                         else slot_of t d)"
    and "same_tables (fst (route_target data key d)) d'"
proof -
  obtain d1 tg where r: "route_target data key d = (d1, tg)" by force
  have f: "forward_data recorders tg key dir data off ts d1 = Some d'"
    using assms r by (simp add: dispatcher_handler_def dispatcher_on_data_def)
  have "slot_of t' d1 = slot_of t' d" for t' using route_target_slot_of [of t' data key d] r by simp
  then show "slot_of t d' = (if t = snd (route_target data key d) then map_option (\<lambda>l. l @ [DataEvent key dir data off ts]) (slot_of t d)
                         else slot_of t d)"
    using forward_data_recorded [OF f, of t] r by simp
  show "same_tables (fst (route_target data key d)) d'" using forward_data_tables [OF f] r by simp
qed

lemma idle_event: "handle (DataEvent key dir data off ts) d = Some d' \<Longrightarrow> no_analyzers d \<Longrightarrow> d' = d"
  by (simp add: dispatcher_handler_def dispatcher_on_data_def)

lemma other_data_event:
  assumes "handle (DataEvent key' dir data off ts) d = Some d'" and "key' \<noteq> key"
  shows "map_option (view key) (slot_of t d') = map_option (view key) (slot_of t d)"
    and "hm_get (sd_routes d') key = hm_get (sd_routes d) key"
    and "hm_get (sd_classification_attempts d') key = hm_get (sd_classification_attempts d) key"
    and "sd_max_classification_attempts d' = sd_max_classification_attempts d"
proof -
  have "map_option (view key) (slot_of t d') = map_option (view key) (slot_of t d) \<and>
      hm_get (sd_routes d') key = hm_get (sd_routes d) key \<and>
      hm_get (sd_classification_attempts d') key = hm_get (sd_classification_attempts d) key \<and>
      sd_max_classification_attempts d' = sd_max_classification_attempts d"
  proof (cases "no_analyzers d")
    case True
    then show ?thesis using idle_event [OF assms(1)] by simp
  next
    case False
    note s = data_event [OF assms(1) False]
    have "map_option (view key) (slot_of t d') = map_option (view key) (slot_of t d)"
      using s(1) [of t] assms(2) by (cases "slot_of t d") (auto split: if_splits)
    then show ?thesis using s(2) assms(2) route_target_tables(1,2) [of key key' data d] route_target_tables(3) [of data key' d]
      by (simp add: same_tables_def)
  qed
  then show "map_option (view key) (slot_of t d') = map_option (view key) (slot_of t d)"
    "hm_get (sd_routes d') key = hm_get (sd_routes d) key"
    "hm_get (sd_classification_attempts d') key = hm_get (sd_classification_attempts d) key"
    "sd_max_classification_attempts d' = sd_max_classification_attempts d" by blast+
qed

lemma other_close_event:
  assumes "handle (CloseEvent key' reason) d = Some d'" and "key' \<noteq> key"
  shows "map_option (view key) (slot_of t d') = map_option (view key) (slot_of t d)"
    and "hm_get (sd_routes d') key = hm_get (sd_routes d) key"
    and "hm_get (sd_classification_attempts d') key = hm_get (sd_classification_attempts d) key"
    and "sd_max_classification_attempts d' = sd_max_classification_attempts d"
proof -
  let ?d0 = "d\<lparr>sd_classification_attempts := hm_remove key' (sd_classification_attempts d), sd_routes := hm_remove key' (sd_routes d)\<rparr>"
  have f: "forward_close recorders (hm_get (sd_routes d) key') key' reason ?d0 = Some d'"
    using assms(1) by (simp add: dispatcher_handler_def dispatcher_on_flow_close_def)
  have "slot_of t ?d0 = slot_of t d" by (cases t) simp_all
  then show "map_option (view key) (slot_of t d') = map_option (view key) (slot_of t d)"
    using forward_close_recorded [OF f assms(2), of t] by simp
  show "hm_get (sd_routes d') key = hm_get (sd_routes d) key"
    "hm_get (sd_classification_attempts d') key = hm_get (sd_classification_attempts d) key"
    "sd_max_classification_attempts d' = sd_max_classification_attempts d"
    using forward_close_tables [OF f] assms(2) by (simp_all add: same_tables_def)
qed

lemma other_event:
  assumes "handle e d = Some d'" and "event_key e \<noteq> key"
  shows "map_option (view key) (slot_of t d') = map_option (view key) (slot_of t d)"
    and "hm_get (sd_routes d') key = hm_get (sd_routes d) key"
    and "hm_get (sd_classification_attempts d') key = hm_get (sd_classification_attempts d) key"
    and "sd_max_classification_attempts d' = sd_max_classification_attempts d"
  using assms other_data_event [of _ _ _ _ _ d d' key] other_close_event [of _ _ d d' key]
  by (cases e; auto)+

text \<open>Whole runs in which the flow does not close.\<close>

definition stays_open :: "flow_key \<Rightarrow> stream_event list \<Rightarrow> bool" where
  "stays_open key es \<longleftrightarrow> (\<forall>reason. CloseEvent key reason \<notin> set es)"

lemma stays_open_Cons:
  assumes "stays_open key (e # es)" and "event_key e = key"
  obtains dir data off ts where "e = DataEvent key dir data off ts"
  using assms by (cases e) (auto simp: stays_open_def)

lemma stays_open_tl: "stays_open key (e # es) \<Longrightarrow> stays_open key es"
  by (simp add: stays_open_def)

lemma routed_flow_stays:
  assumes "replay (dispatcher_handler recorders) es d = Some d'" and "stays_open key es" and "hm_get (sd_routes d) key = Some T"
  shows "map_option (view key) (slot_of t d') = map_option (\<lambda>l. view key l @ (if t = T then view key es else [])) (slot_of t d) \<and>
         hm_get (sd_routes d') key = Some T"
  using assms
proof (induction es arbitrary: d)
  case Nil
  then show ?case by simp
next
  case (Cons e es)
  obtain d1 where h: "handle e d = Some d1" and r: "replay (dispatcher_handler recorders) es d1 = Some d'"
    using Cons.prems(1) by (auto simp: bind_eq_Some_conv)
  note IH = Cons.IH [OF r stays_open_tl [OF Cons.prems(2)]]
  show ?case
  proof (cases "event_key e = key")
    case False
    note o = other_event [OF h False]
    have "map_option (\<lambda>l. view key l @ x) (slot_of t d1) = map_option (\<lambda>l. view key l @ x) (slot_of t d)" for x
      using o(1) [of t] by (cases "slot_of t d1"; cases "slot_of t d") auto
    with IH o Cons.prems(3) False show ?thesis by simp
  next
    case True
    obtain dir data off ts where e: "e = DataEvent key dir data off ts"
      by (rule stays_open_Cons [OF Cons.prems(2) True])
    show ?thesis
    proof (cases "no_analyzers d")
      case True
      then have "d1 = d" "slot_of t d = None" using h e idle_event no_analyzers_slots by auto
      with IH Cons.prems(3) show ?thesis by auto
    next
      case False
      have rt: "route_target data key d = (d, T)" using Cons.prems(3) by (simp add: route_target_def)
      note s = data_event [OF h [unfolded e] False, unfolded rt fst_conv snd_conv]
      have "hm_get (sd_routes d1) key = Some T" using s(2) Cons.prems(3) by (simp add: same_tables_def)
      from IH [OF this] s(1) [of t] e show ?thesis by (cases "slot_of t d") auto
    qed
  qed
qed

text \<open>A flow that has failed \<open>n\<close> attempts so far.\<close>

definition failed_attempts :: "nat \<Rightarrow> flow_key \<Rightarrow> ('h, 't, 'm, 'd, 'e, 'i) dispatcher \<Rightarrow> bool" where
  "failed_attempts n key d \<longleftrightarrow>
     hm_get (sd_routes d) key = None \<and>
     unat (case hm_get (sd_classification_attempts d) key of Some k \<Rightarrow> k | None \<Rightarrow> 0) = n \<and>
     (n = 0 \<or> n < unat (sd_max_classification_attempts d))"

lemma route_target_attempt:
  assumes "failed_attempts n key d"
  shows "let target = classify data key; (d1, t) = route_target data key d in
     t = target \<and>
     (if target \<noteq> ToNone then hm_get (sd_routes d1) key = Some target
      else if unat (sd_max_classification_attempts d) \<le> n + 1 then hm_get (sd_routes d1) key = Some ToNone
      else failed_attempts (n + 1) key d1 \<and> sd_max_classification_attempts d1 = sd_max_classification_attempts d)"
proof -
  let ?k = "case hm_get (sd_classification_attempts d) key of Some k \<Rightarrow> k | None \<Rightarrow> 0"
  have r: "hm_get (sd_routes d) key = None" and k: "unat ?k = n" and n: "n = 0 \<or> n < unat (sd_max_classification_attempts d)"
    using assms by (auto simp: failed_attempts_def)
  have "unat (sd_max_classification_attempts d) < 4294967296" by (rule unat_u32_less)
  then have "n < 4294967295" using n by linarith
  then have u: "unat (sat_addw ?k 1) = n + 1" using k by (simp add: unat_sat_addw)
  then have le: "sat_addw ?k 1 \<ge> sd_max_classification_attempts d \<longleftrightarrow> unat (sd_max_classification_attempts d) \<le> n + 1"
    by (simp add: word_le_nat_alt)
  show ?thesis
    using r u le by (auto simp: route_target_def Let_def failed_attempts_def)
qed

lemma unrouted_flow:
  assumes "replay (dispatcher_handler recorders) es d = Some d'" and "stays_open key es" and "failed_attempts n key d"
    and "\<not> no_analyzers d" and "t \<noteq> ToNone"
  shows "map_option (view key) (slot_of t d') =
     (let (target, forwarded) = routed (unat (sd_max_classification_attempts d)) n (view key es)
      in map_option (\<lambda>l. view key l @ (if t = target then forwarded else [])) (slot_of t d))"
  using assms
proof (induction es arbitrary: d n)
  case Nil
  then show ?case by simp
next
  case (Cons e es)
  obtain d1 where h: "handle e d = Some d1" and r: "replay (dispatcher_handler recorders) es d1 = Some d'"
    using Cons.prems(1) by (auto simp: bind_eq_Some_conv)
  note opn = stays_open_tl [OF Cons.prems(2)]
  have slots: "no_analyzers d1 = no_analyzers d" if "\<And>t. (slot_of t d1 = None) = (slot_of t d = None)"
    using that by (simp add: no_analyzers_slots)
  show ?case
  proof (cases "event_key e = key")
    case False
    note o = other_event [OF h False]
    have f1: "failed_attempts n key d1" using Cons.prems(3) o(2-4) by (simp add: failed_attempts_def)
    have "(slot_of t d1 = None) = (slot_of t d = None)" for t using o(1) [of t] by (metis map_option_is_None)
    then have na: "\<not> no_analyzers d1" using slots Cons.prems(4) by simp
    have "map_option (\<lambda>l. view key l @ x) (slot_of t d1) = map_option (\<lambda>l. view key l @ x) (slot_of t d)" for x
      using o(1) [of t] by (cases "slot_of t d1"; cases "slot_of t d") auto
    with Cons.IH [OF r opn f1 na Cons.prems(5)] o(4) False show ?thesis by (simp add: case_prod_unfold)
  next
    case True
    obtain dir data off ts where e: "e = DataEvent key dir data off ts"
      by (rule stays_open_Cons [OF Cons.prems(2) True])
    obtain d0 tg where rt: "route_target data key d = (d0, tg)" by force
    note s = data_event [OF h [unfolded e] Cons.prems(4), unfolded rt fst_conv snd_conv]
    have tb: "sd_routes d1 = sd_routes d0" "sd_classification_attempts d1 = sd_classification_attempts d0"
        "sd_max_classification_attempts d1 = sd_max_classification_attempts d0"
      using s(2) by (simp_all add: same_tables_def)
    let ?target = "classify data key" and ?limit = "unat (sd_max_classification_attempts d)"
    have at: "tg = ?target" "?target \<noteq> ToNone \<Longrightarrow> hm_get (sd_routes d1) key = Some ?target"
        "?target = ToNone \<Longrightarrow> ?limit \<le> n + 1 \<Longrightarrow> hm_get (sd_routes d1) key = Some ToNone"
        "?target = ToNone \<Longrightarrow> \<not> ?limit \<le> n + 1 \<Longrightarrow> failed_attempts (n + 1) key d1 \<and>
           sd_max_classification_attempts d1 = sd_max_classification_attempts d"
      using route_target_attempt [OF Cons.prems(3), of data] rt tb by (auto simp: Let_def failed_attempts_def)
    consider "?target \<noteq> ToNone" | "?target = ToNone" "?limit \<le> n + 1" | "?target = ToNone" "\<not> ?limit \<le> n + 1" by blast
    then show ?thesis
    proof cases
      case 1
      with routed_flow_stays [OF r opn at(2) [OF 1], of t] s(1) [of t] at(1) e show ?thesis
        by (cases "slot_of t d") auto
    next
      case 2
      with routed_flow_stays [OF r opn at(3) [OF 2], of t] s(1) [of t] at(1) e Cons.prems(5) show ?thesis
        by (cases "slot_of t d") auto
    next
      case 3
      have "(slot_of t d1 = None) = (slot_of t d = None)" for t using s(1) [of t] by simp
      then have na: "\<not> no_analyzers d1" using slots Cons.prems(4) by simp
      from at(4) [OF 3] have f1: "failed_attempts (n + 1) key d1"
        and m1: "sd_max_classification_attempts d1 = sd_max_classification_attempts d" by blast+
      have "slot_of t d1 = slot_of t d" using s(1) [of t] at(1) 3(1) Cons.prems(5) by simp
      with Cons.IH [OF r opn f1 na Cons.prems(5)] 3 m1 e show ?thesis by simp
    qed
  qed
qed

end
