(* ===== verification/Dispatcher_Props.thy ===== *)
theory Dispatcher_Props
  imports Dispatcher_Route
begin

text \<open>The properties of the dispatcher on its own; those of the whole pipeline are in the root theory.\<close>

section \<open>Classification\<close>

definition tls_signature :: "bytes \<Rightarrow> bool" where
  "tls_signature data \<longleftrightarrow> (\<exists>a b c rest. data = 0x16 # 0x03 # a # b # c # rest)"

definition http_tokens :: "string list" where
  "http_tokens = [''GET '', ''POST '', ''PUT '', ''DELETE '', ''HEAD '', ''OPTIONS '', ''PATCH '', ''CONNECT '', ''TRACE '', ''HTTP/'']"

definition http_token :: "bytes \<Rightarrow> bool" where
  "http_token data \<longleftrightarrow> (\<exists>lit \<in> set http_tokens. \<exists>rest. data = map of_char lit @ rest)"

text \<open>The documented rule table: content rules first, then ports in the order of their precedence.\<close>

definition port_rules :: "(u16 set \<times> dispatch_target) list" where
  "port_rules =
     [({443, 8443}, ToTls), ({80, 8080}, ToHttp), ({502}, ToModbus), ({20000}, ToDnp3), ({44818}, ToEnip), ({2404}, ToIec104)]"

definition port_target :: "u16 \<Rightarrow> u16 \<Rightarrow> dispatch_target" where
  "port_target p q =
     (case find (\<lambda>(ports, target). p \<in> ports \<or> q \<in> ports) port_rules of Some (_, target) \<Rightarrow> target | None \<Rightarrow> ToNone)"

lemma tls_signature_iff: "tls_signature data \<longleftrightarrow> 5 \<le> length data \<and> data ! 0 = 0x16 \<and> data ! 1 = 0x03"
proof
  assume a: "5 \<le> length data \<and> data ! 0 = 0x16 \<and> data ! 1 = 0x03"
  then obtain x y u v w rest where "data = x # y # u # v # w # rest"
    by (auto simp: eval_nat_numeral Suc_le_length_iff)
  with a show "tls_signature data" by (simp add: tls_signature_def)
qed (auto simp: tls_signature_def)

lemma starts_with_iff: "starts_with data lit \<longleftrightarrow> (\<exists>rest. data = map of_char lit @ rest)"
proof
  assume "starts_with data lit"
  then have "take (length lit) data = map of_char lit" by (simp add: starts_with_def)
  then show "\<exists>rest. data = map of_char lit @ rest" by (metis append_take_drop_id)
qed (auto simp: starts_with_def)

text \<open>Classification is content first: a TLS record header decides for TLS and an HTTP method
  or status token for HTTP whatever the ports; only without either do the ports decide, by
  the documented precedence. The ports are looked at as a set, so the answer is the same for
  either order of the endpoints in the flow key.\<close>

theorem classify_content_first:
  "classify data (flow_key_new a p b q) =
     (if tls_signature data then ToTls else if http_token data then ToHttp else port_target p q) \<and>
   port_target p q = port_target q p"
proof -
  have ports: "{lower_port (flow_key_new a p b q), upper_port (flow_key_new a p b q)} = {p, q}"
    by (auto simp: flow_key_new_def)
  have http: "http_token data \<longleftrightarrow> (\<exists>lit \<in> set http_tokens. starts_with data lit)"
    by (simp add: http_token_def starts_with_iff)
  have "classify data (flow_key_new a p b q) =
     (if tls_signature data then ToTls else if http_token data then ToHttp else port_target p q)"
    unfolding classify_def ports Let_def tls_signature_iff http
    by (auto simp: http_tokens_def port_target_def port_rules_def)
  moreover have "port_target p q = port_target q p" by (auto simp: port_target_def port_rules_def)
  ultimately show ?thesis ..
qed

section \<open>Forwarding\<close>

text \<open>C14. However the events of flows interleave, what reaches the analyzers of one flow is what
  the flow's own events determine: nothing until a chunk classifies; from that chunk on
  every event of the flow, in order, to the one analyzer it named; nothing at all once the
  retry budget is spent. No other analyzer ever sees the flow. (The dispatcher starts from
  a state that knows nothing of the flow; the flow stays open; the analyzers record.)\<close>

theorem dispatcher_forwards_from_first_match:
  assumes "\<not> tracked key d" and "\<not> no_analyzers d" and "stays_open key es" and "t \<noteq> ToNone"
  shows "\<exists>d'. replay (dispatcher_handler recorders) es d = Some d' \<and>
     map_option (view key) (slot_of t d') =
       (let (target, forwarded) = routed (unat (sd_max_classification_attempts d)) 0 (view key es)
        in map_option (\<lambda>l. view key l @ (if t = target then forwarded else [])) (slot_of t d))"
proof -
  obtain d' where r: "replay (dispatcher_handler recorders) es d = Some d'" using recorded_replay by blast
  have "failed_attempts 0 key d" using assms(1) by (simp add: failed_attempts_def tracked_def)
  from unrouted_flow [OF r assms(3) this assms(2,4)] r show ?thesis by blast
qed

definition sample_dispatcher :: recording_dispatcher where
  "sample_dispatcher = dispatcher_new (Some []) (Some []) (Some []) (Some []) (Some []) (Some [])"

definition ssh_key :: flow_key where
  "ssh_key = flow_key_new (V4 1) 40000 (V4 2) 22"

lemma ssh_ports: "lower_port ssh_key = 40000" "upper_port ssh_key = 22"
  by (simp_all add: ssh_key_def flow_key_new_def less_ip_addr_def word_le_nat_alt)

lemma sample_dispatcher_facts [simp]:
  "\<not> tracked key sample_dispatcher" "\<not> no_analyzers sample_dispatcher" "sd_tls sample_dispatcher = Some []"
  "sd_max_classification_attempts sample_dispatcher = 8"
  by (simp_all add: sample_dispatcher_def dispatcher_new_def tracked_def no_analyzers_def default_max_classification_attempts_def)

lemma sample_classify [simp]:
  "classify [0x53] ssh_key = ToNone" "classify [0x16, 3, 1, 0, 9] key = ToTls"
  by (simp_all add: classify_def ssh_ports starts_with_def Let_def)

theorem dispatcher_forwards_from_first_match_witness:
  "\<exists>d'. replay (dispatcher_handler recorders)
       [DataEvent ssh_key ClientToServer [0x53] 1 7, DataEvent ssh_key ClientToServer [0x16, 3, 1, 0, 9] 2 8] sample_dispatcher = Some d' \<and>
     map_option (view ssh_key) (slot_of ToTls d') = Some [DataEvent ssh_key ClientToServer [0x16, 3, 1, 0, 9] 2 8]"
proof -
  let ?es = "[DataEvent ssh_key ClientToServer [0x53] 1 7, DataEvent ssh_key ClientToServer [0x16, 3, 1, 0, 9] 2 8]"
  have "routed (unat (8 :: u32)) 0 (view ssh_key ?es) = (ToTls, [DataEvent ssh_key ClientToServer [0x16, 3, 1, 0, 9] 2 8])"
    by (simp add: Let_def)
  moreover have "stays_open ssh_key ?es" by (simp add: stays_open_def)
  ultimately show ?thesis
    using dispatcher_forwards_from_first_match [of ssh_key sample_dispatcher ?es ToTls] by simp
qed

text \<open>A retry cap of zero does not disable classification, as the builder's comment says: a
  first chunk that classifies is routed and reaches its analyzer all the same; only a first
  chunk that does not classify gives the flow up.\<close>

theorem zero_attempts_still_classify:
  assumes "\<not> tracked key d" and "\<not> no_analyzers d"
  shows "\<exists>d'. dispatcher_on_data recorders (with_max_classification_attempts 0 d) key dir data off ts = Some d' \<and>
     hm_get (sd_routes d') key = Some (classify data key) \<and>
     slot_of (classify data key) d' = map_option (\<lambda>l. l @ [DataEvent key dir data off ts]) (slot_of (classify data key) d)"
proof -
  let ?d = "with_max_classification_attempts 0 d"
  have na: "\<not> no_analyzers ?d" using assms(2) by (simp add: with_max_classification_attempts_def no_analyzers_def)
  have f: "failed_attempts 0 key ?d" and m: "unat (sd_max_classification_attempts ?d) = 0"
    using assms(1) by (simp_all add: failed_attempts_def tracked_def with_max_classification_attempts_def)
  have sl: "slot_of t ?d = slot_of t d" for t by (cases t) (simp_all add: with_max_classification_attempts_def)
  obtain d0 tg where rt: "route_target data key ?d = (d0, tg)" by force
  have at: "tg = classify data key" "hm_get (sd_routes d0) key = Some (classify data key)"
    using route_target_attempt [OF f, of data] rt m by (auto simp: Let_def split: if_splits)
  obtain d' where h: "handle (DataEvent key dir data off ts) ?d = Some d'"
    using recorded_replay [of "[DataEvent key dir data off ts]" ?d] by (auto simp: bind_eq_Some_conv)
  note s = data_event [OF h na, unfolded rt fst_conv snd_conv]
  have "dispatcher_on_data recorders ?d key dir data off ts = Some d'" using h by (simp add: dispatcher_handler_def)
  moreover have "hm_get (sd_routes d') key = Some (classify data key)" using s(2) at(2) by (simp add: same_tables_def)
  ultimately show ?thesis using s(1) [of "classify data key"] at(1) sl by simp
qed

theorem zero_attempts_still_classify_witness:
  "\<exists>d'. dispatcher_on_data recorders (with_max_classification_attempts 0 sample_dispatcher) ssh_key ClientToServer
       [0x16, 3, 1, 0, 9] 1 7 = Some d' \<and>
     hm_get (sd_routes d') ssh_key = Some ToTls \<and>
     slot_of ToTls d' = Some [DataEvent ssh_key ClientToServer [0x16, 3, 1, 0, 9] 1 7]"
  using zero_attempts_still_classify [of ssh_key sample_dispatcher ClientToServer "[0x16, 3, 1, 0, 9]" 1 7] by simp

text \<open>Closing a flow forgets it and accounts for it once: a flow routed to an analyzer is
  closed there and changes no counter; a flow without a target is counted as unclassified
  exactly if some analyzer is configured, and its service port (the lower of the two) only
  if gap counting is enabled. Counters of other ports and the other flows' entries stay.\<close>

theorem close_forgets_and_counts:
  assumes "hm_get (sd_routes d) key \<in> {None, Some ToNone}"
  shows "\<exists>d'. dispatcher_on_flow_close A d key reason = Some d' \<and> \<not> tracked key d' \<and>
     (\<forall>k. k \<noteq> key \<longrightarrow> tracked k d' = tracked k d) \<and>
     sd_unclassified_flows d' = (if no_analyzers d then sd_unclassified_flows d else sat_add64 (sd_unclassified_flows d) 1) \<and>
     (let port = (TcpProto, min (lower_port key) (upper_port key));
          n = (case hm_get (sd_unclassified_port_counts d) port of Some n \<Rightarrow> n | None \<Rightarrow> 0)
      in hm_get (sd_unclassified_port_counts d') =
           (if sd_coverage_gaps_enabled d \<and> \<not> no_analyzers d
            then (hm_get (sd_unclassified_port_counts d))(port \<mapsto> sat_add64 n 1) else hm_get (sd_unclassified_port_counts d)))"
proof -
  let ?d0 = "d\<lparr>sd_classification_attempts := hm_remove key (sd_classification_attempts d), sd_routes := hm_remove key (sd_routes d)\<rparr>"
  have na: "no_analyzers ?d0 = no_analyzers d" by (simp add: no_analyzers_def)
  have eq: "dispatcher_on_flow_close A d key reason = Some (count_unclassified key ?d0)"
    using assms by (auto simp: dispatcher_on_flow_close_def forward_close_def)
  have "tracked k (count_unclassified key ?d0) \<longleftrightarrow> k \<noteq> key \<and> tracked k d" for k
    using count_unclassified_tables [of ?d0 key] by (simp add: same_tables_def tracked_def)
  then show ?thesis
    unfolding eq by (auto simp: count_unclassified_def Let_def na fun_eq_iff)
qed

theorem close_forgets_and_counts_witness:
  "\<exists>d'. dispatcher_on_flow_close recorders (with_coverage_gaps True sample_dispatcher) ssh_key FinClose = Some d' \<and>
     sd_unclassified_flows d' = 1 \<and> hm_get (sd_unclassified_port_counts d') (TcpProto, 22) = Some 1"
proof -
  let ?d = "with_coverage_gaps True sample_dispatcher"
  have d: "hm_get (sd_routes ?d) ssh_key = None" "\<not> no_analyzers ?d" "sd_coverage_gaps_enabled ?d" "sd_unclassified_flows ?d = 0"
      "hm_get (sd_unclassified_port_counts ?d) = (\<lambda>_. None)"
    by (simp_all add: with_coverage_gaps_def sample_dispatcher_def dispatcher_new_def no_analyzers_def fun_eq_iff)
  have "sat_add64 0 1 = 1" "min (lower_port ssh_key) (upper_port ssh_key) = 22"
    by (simp_all add: sat_add64_def u64_max_def ssh_ports min_def)
  with close_forgets_and_counts [of ?d ssh_key recorders FinClose] d show ?thesis by (auto simp: Let_def)
qed

end
