(* ===== verification/Dnp3.thy ===== *)
theory Dnp3
  imports Findings Containers
begin

text \<open>
  The DNP3 analyzer, \<open>src/analyzer/dnp3.rs\<close>: the data-link parser, the detectors, and the frame
  walk over a carry buffer of at most one maximal frame. The buffer of the active direction is
  an argument of the walk; the detectors do not look at it. \<open>Hex0X4\<close> is \<open>{:#06X}\<close>; arrows and dashes
  in the texts are written in ASCII.
\<close>

unbundle bit_operations_syntax

section \<open>The data-link layer\<close>

record dnp3_dl_header =
  dh_start1 :: u8
  dh_start2 :: u8
  dh_length :: u8
  dh_control :: u8
  dh_destination :: u16
  dh_source :: u16

datatype dnp3_fc_class =
  FcRead | FcWrite | FcControl | FcRestart | FcManagement | FcResponse | FcUnknown

definition max_pending_requests :: usize where "max_pending_requests = 256"
definition max_dnp3_frame_len :: usize where "max_dnp3_frame_len = 292"
definition max_master_addrs :: usize where "max_master_addrs = 64"
definition malformed_anomaly_threshold :: u64 where "malformed_anomaly_threshold = 3"
definition correlation_window_secs :: u32 where "correlation_window_secs = 300"
definition block_cmd_timeout_secs :: u32 where "block_cmd_timeout_secs = 10"
definition block_cmd_threshold :: u64 where "block_cmd_threshold = 3"
definition t0827_threshold :: u64 where "t0827_threshold = 3"
definition direct_operate_threshold_default :: u32 where "direct_operate_threshold_default = 10"
definition detection_window_secs :: u32 where "detection_window_secs = 60"
definition dnp3_max_findings :: usize where "dnp3_max_findings = 10000"

text \<open>\<open>u16::from_le_bytes\<close>.\<close>

definition dnp3_le16 :: "u8 \<Rightarrow> u8 \<Rightarrow> u16" where
  "dnp3_le16 lo hi = be16 hi lo"

definition parse_dnp3_dl_header :: "bytes \<Rightarrow> dnp3_dl_header option" where
  "parse_dnp3_dl_header data =
     (if length data < 10 then None
      else Some \<lparr>dh_start1 = data ! 0, dh_start2 = data ! 1, dh_length = data ! 2, dh_control = data ! 3,
                 dh_destination = dnp3_le16 (data ! 4) (data ! 5), dh_source = dnp3_le16 (data ! 6) (data ! 7)\<rparr>)"

definition is_valid_dnp3_frame_header :: "dnp3_dl_header \<Rightarrow> bool" where
  "is_valid_dnp3_frame_header h \<longleftrightarrow> dh_start1 h = 0x05 \<and> dh_start2 h = 0x64 \<and> dh_length h \<ge> 5"

definition classify_dnp3_fc :: "u8 \<Rightarrow> dnp3_fc_class" where
  "classify_dnp3_fc fc =
     (if fc = 0x01 then FcRead
      else if fc = 0x02 then FcWrite
      else if 0x03 \<le> fc \<and> fc \<le> 0x06 then FcControl
      else if fc = 0x00 \<or> 0x07 \<le> fc \<and> fc \<le> 0x0C \<or> 0x0F \<le> fc \<and> fc \<le> 0x1A then FcManagement
      else if fc = 0x0D \<or> fc = 0x0E then FcRestart
      else if 0x81 \<le> fc \<and> fc \<le> 0x83 then FcResponse
      else FcUnknown)"

definition compute_dnp3_frame_len :: "u8 \<Rightarrow> usize option" where
  "compute_dnp3_frame_len len =
     (if len < 5 then None
      else let u = unat len - 5; blocks = (u + 15) div 16 in Some (5 + unat len + 2 * blocks))"

lemma frame_len_bounds:
  assumes "compute_dnp3_frame_len len = Some n"
  shows "10 \<le> n" and "n \<le> 292"
proof -
  have "unat len < 256" using unsigned_less [of len] by simp
  then have "unat len \<le> 255" by simp
  moreover have "5 \<le> unat len" using assms by (simp add: compute_dnp3_frame_len_def word_less_nat_alt split: if_splits)
  moreover have n: "n = 5 + unat len + 2 * ((unat len + 10) div 16)"
    using assms \<open>5 \<le> unat len\<close> by (auto simp: compute_dnp3_frame_len_def Let_def add.commute split: if_splits)
  moreover have "(unat len + 10) div 16 \<le> 16" using \<open>unat len \<le> 255\<close> by simp
  ultimately show "10 \<le> n" "n \<le> 292" by simp_all
qed

definition transport_is_fir :: "u8 \<Rightarrow> bool" where
  "transport_is_fir transport_octet = (transport_octet AND 0x40 \<noteq> 0)"

definition has_user_data :: "u8 \<Rightarrow> bool" where
  "has_user_data control = (control AND 0x0F = 0x03 \<or> control AND 0x0F = 0x04)"

definition is_broadcast_destination :: "u16 \<Rightarrow> bool" where
  "is_broadcast_destination dest = (dest \<ge> 0xFFFD)"

definition is_master_frame :: "u8 \<Rightarrow> bool" where
  "is_master_frame control = (control AND 0x80 \<noteq> 0)"

section \<open>State\<close>

record dnp3_flow_state =
  df_carry_c2s :: bytes
  df_carry_s2c :: bytes
  df_is_non_dnp3 :: bool
  df_fc_counts :: "(u8, u64) hash_map"
  df_frame_count :: u64
  df_parse_errors :: u64
  df_direct_operate_count :: u32
  df_window_start_ts :: u32
  df_direct_operate_emitted :: bool
  df_master_addrs_seen :: "u16 list"
  df_restart_event_count :: u64
  df_block_event_count :: u64
  df_pending_requests :: "(u16 \<times> u8, u32) hash_map"
  df_block_finding_emitted :: bool
  df_loss_of_control_emitted :: bool
  df_correlation_window_start_ts :: u32
  df_correlation_window_seeded :: bool
  df_malformed_in_window :: u64
  df_malformed_anomaly_emitted :: bool
  df_enable_unsolicited_seen :: bool
  df_response_seen :: bool
  df_unsolicited_anomaly_emitted :: bool
  df_unexpected_source_emitted :: bool

definition dnp3_flow_state_default :: dnp3_flow_state where
  "dnp3_flow_state_default =
     \<lparr>df_carry_c2s = [], df_carry_s2c = [], df_is_non_dnp3 = False, df_fc_counts = [], df_frame_count = 0,
      df_parse_errors = 0, df_direct_operate_count = 0, df_window_start_ts = 0, df_direct_operate_emitted = False,
      df_master_addrs_seen = [], df_restart_event_count = 0, df_block_event_count = 0, df_pending_requests = [],
      df_block_finding_emitted = False, df_loss_of_control_emitted = False, df_correlation_window_start_ts = 0,
      df_correlation_window_seeded = False, df_malformed_in_window = 0, df_malformed_anomaly_emitted = False,
      df_enable_unsolicited_seen = False, df_response_seen = False, df_unsolicited_anomaly_emitted = False,
      df_unexpected_source_emitted = False\<rparr>"

text \<open>\<open>da_seed\<close> is the iteration order of the tables of pending requests.\<close>

record dnp3_analyzer =
  da_flows :: "(flow_key, dnp3_flow_state) hash_map"
  da_direct_operate_threshold :: u32
  da_fn_code_counts :: "(u8, u64) hash_map"
  da_all_findings :: "finding list"
  da_dropped_findings :: u64
  da_master_addrs_dropped :: u64
  da_pending_requests_evicted :: u64
  da_closed_flows_count :: u64
  da_total_frames_closed :: u64
  da_parse_errors_closed :: u64
  da_closed_flow_direct_operates :: "(flow_key \<times> u32) list"
  da_seed :: "(u16 \<times> u8) hash_seed"

definition dnp3_analyzer_new :: "(u16 \<times> u8) hash_seed \<Rightarrow> u32 \<Rightarrow> dnp3_analyzer" where
  "dnp3_analyzer_new seed threshold =
     \<lparr>da_flows = [], da_direct_operate_threshold = threshold, da_fn_code_counts = [], da_all_findings = [],
      da_dropped_findings = 0, da_master_addrs_dropped = 0, da_pending_requests_evicted = 0, da_closed_flows_count = 0,
      da_total_frames_closed = 0, da_parse_errors_closed = 0, da_closed_flow_direct_operates = [], da_seed = seed\<rparr>"

definition dnp3_on_flow_close :: "dnp3_analyzer \<Rightarrow> flow_key \<Rightarrow> dnp3_analyzer" where
  "dnp3_on_flow_close a key =
     (case hm_get (da_flows a) key of
        None \<Rightarrow> a
      | Some flow \<Rightarrow>
          a\<lparr>da_flows := hm_remove key (da_flows a),
            da_total_frames_closed := sat_add64 (da_total_frames_closed a) (df_frame_count flow),
            da_parse_errors_closed := sat_add64 (da_parse_errors_closed a) (df_parse_errors flow),
            da_closed_flow_direct_operates := da_closed_flow_direct_operates a @ [(key, df_direct_operate_count flow)],
            da_closed_flows_count := sat_add64 (da_closed_flows_count a) 1\<rparr>)"

section \<open>Detectors\<close>

text \<open>What a detector works on: the analyzer's findings and counters, and the state of the flow.\<close>

type_synonym dnp3_state = "dnp3_analyzer \<times> dnp3_flow_state"

record dnp3_context =
  dc_key :: flow_key
  dc_direction :: direction
  dc_now :: u32

definition dnp3_master_ip :: "dnp3_context \<Rightarrow> ip_addr" where
  "dnp3_master_ip c =
     (let key = dc_key c;
          (client_ip, server_ip) =
            (if lower_port key = 20000 then (upper_ip key, lower_ip key) else (lower_ip key, upper_ip key))
      in case dc_direction c of ClientToServer \<Rightarrow> client_ip | ServerToClient \<Rightarrow> server_ip)"

definition dnp3_finding ::
  "dnp3_context \<Rightarrow> threat_category \<Rightarrow> verdict \<Rightarrow> confidence \<Rightarrow> string \<Rightarrow> flow_key fmt \<Rightarrow> flow_key fmt list \<Rightarrow> finding"
where
  "dnp3_finding c cat v conf technique summ ev =
     \<lparr>category = cat, verdict = v, confidence = conf, summary = summ, evidence = ev, mitre_techniques = [technique],
      source_ip = Some (dnp3_master_ip c), timestamp = Some (dc_now c), direction = None\<rparr>"

text \<open>The push of a finding under the cap, or the count of a dropped one.\<close>

definition dnp3_push :: "finding \<Rightarrow> dnp3_analyzer \<Rightarrow> dnp3_analyzer" where
  "dnp3_push fi a =
     (if length (da_all_findings a) < dnp3_max_findings
      then a\<lparr>da_all_findings := da_all_findings a @ [fi]\<rparr>
      else a\<lparr>da_dropped_findings := sat_add64 (da_dropped_findings a) 1\<rparr>)"

definition fc_evidence :: "u8 \<Rightarrow> u16 \<Rightarrow> u16 \<Rightarrow> flow_key fmt" where
  "fc_evidence app_fc dest src = [Lit ''FC=0x'', Hex2 app_fc, Lit '' dest='', Hex0X4 dest, Lit '' src='', Hex0X4 src]"

definition control_burst_finding :: "dnp3_context \<Rightarrow> u32 \<Rightarrow> u8 \<Rightarrow> u16 \<Rightarrow> u16 \<Rightarrow> dnp3_flow_state \<Rightarrow> finding" where
  "control_burst_finding c threshold app_fc dest src f =
     dnp3_finding c Execution Likely Medium ''T1692.001''
       [Lit ''DNP3 unauthorized control command burst: '', Dec (unat (df_direct_operate_count f)), Lit '' control FCs in '',
        Dec (unat (sat_subw (dc_now c) (df_window_start_ts f))), Lit ''s window (threshold '', Dec (unat threshold), Lit '')'']
       [fc_evidence app_fc dest src]"

definition detect_control_class_burst_split ::
  "dnp3_context \<Rightarrow> u32 \<Rightarrow> u8 \<Rightarrow> u16 \<Rightarrow> u16 \<Rightarrow> dnp3_state \<Rightarrow> dnp3_state"
where
  "detect_control_class_burst_split c threshold app_fc dest src af =
     (let (a, f) = af in
      if df_direct_operate_count f > 0 \<and> sat_subw (dc_now c) (df_window_start_ts f) > detection_window_secs
      then (a, f\<lparr>df_direct_operate_count := 1, df_window_start_ts := dc_now c, df_direct_operate_emitted := False\<rparr>)
      else
        let f1 = f\<lparr>df_direct_operate_count := sat_addw (df_direct_operate_count f) 1\<rparr>;
            f2 = (if df_direct_operate_count f1 = 1 then f1\<lparr>df_window_start_ts := dc_now c\<rparr> else f1)
        in if df_direct_operate_count f2 > threshold \<and> \<not> df_direct_operate_emitted f2 \<and>
              sat_subw (dc_now c) (df_window_start_ts f2) \<le> detection_window_secs
           then (dnp3_push (control_burst_finding c threshold app_fc dest src f2) a, f2\<lparr>df_direct_operate_emitted := True\<rparr>)
           else (a, f2))"

definition restart_finding :: "dnp3_context \<Rightarrow> u8 \<Rightarrow> u16 \<Rightarrow> u16 \<Rightarrow> finding" where
  "restart_finding c app_fc dest src =
     dnp3_finding c Execution Likely High ''T0814''
       [Lit ''DNP3 restart command observed: FC 0x'', Hex2 app_fc, Lit '' ('',
        Lit (if app_fc = 0x0D then ''COLD_RESTART'' else if app_fc = 0x0E then ''WARM_RESTART'' else ''RESTART''),
        Lit '') from src='', Hex0X4 src, Lit '' to dest='', Hex0X4 dest]
       [fc_evidence app_fc dest src]"

definition detect_restart_split :: "dnp3_context \<Rightarrow> u8 \<Rightarrow> u16 \<Rightarrow> u16 \<Rightarrow> dnp3_state \<Rightarrow> dnp3_state" where
  "detect_restart_split c app_fc dest src af =
     (let (a, f) = af in
      (dnp3_push (restart_finding c app_fc dest src) a,
       f\<lparr>df_restart_event_count := sat_add64 (df_restart_event_count f) 1\<rparr>))"

definition detect_write_split :: "dnp3_context \<Rightarrow> u16 \<Rightarrow> u16 \<Rightarrow> dnp3_analyzer \<Rightarrow> dnp3_analyzer" where
  "detect_write_split c dest src a =
     dnp3_push (dnp3_finding c Execution Likely Medium ''T0836''
       [Lit ''DNP3 WRITE command observed: parameter modification from src='', Hex0X4 src, Lit '' to dest='', Hex0X4 dest]
       [[Lit ''FC=0x02 (WRITE) dest='', Hex0X4 dest, Lit '' src='', Hex0X4 src]]) a"

definition loss_of_control_finding :: "dnp3_context \<Rightarrow> u16 \<Rightarrow> dnp3_flow_state \<Rightarrow> finding" where
  "loss_of_control_finding c dest f =
     dnp3_finding c Impact Likely Medium ''T0827''
       [Lit ''DNP3 sustained loss-of-control pattern: '', Dec (df_restart_event_count f), Lit '' restart events + '',
        Dec (df_block_event_count f), Lit '' blocked commands within '',
        Dec (unat (sat_subw (dc_now c) (df_correlation_window_start_ts f))), Lit ''s on flow (dest='', Hex0X4 dest, Lit '')'']
       [[Lit ''restart_event_count='', Dec (df_restart_event_count f), Lit '' block_event_count='', Dec (df_block_event_count f),
         Lit '' threshold='', Dec t0827_threshold]]"

definition maybe_emit_t0827 :: "dnp3_context \<Rightarrow> u16 \<Rightarrow> dnp3_state \<Rightarrow> dnp3_state rust" where
  "maybe_emit_t0827 c dest af = do {
     let (a, f) = af;
     combined \<leftarrow> add64 (df_restart_event_count f) (df_block_event_count f);
     Some (if combined \<ge> t0827_threshold \<and> \<not> df_loss_of_control_emitted f
           then (dnp3_push (loss_of_control_finding c dest f) a, f\<lparr>df_loss_of_control_emitted := True\<rparr>)
           else (a, f))
   }"

definition blocked_finding :: "dnp3_context \<Rightarrow> u16 \<Rightarrow> dnp3_flow_state \<Rightarrow> finding" where
  "blocked_finding c dest f =
     dnp3_finding c Execution Possible Low ''T1691.001''
       [Lit ''DNP3 inferred blocked command: '', Dec (df_block_event_count f), Lit '' requests without response within '',
        Dec (unat block_cmd_timeout_secs), Lit ''s (dest='', Hex0X4 dest, Lit '')'']
       [[Lit ''block_event_count='', Dec (df_block_event_count f), Lit '' in correlation window; threshold='', Dec block_cmd_threshold]]"

text \<open>The loop over the timed-out keys: the smallest destination so far, and whether there was none yet.\<close>

fun retire_requests :: "(u16 \<times> u8) list \<Rightarrow> u16 \<Rightarrow> bool \<Rightarrow> dnp3_flow_state \<Rightarrow> u16 \<times> bool \<times> dnp3_flow_state" where
  "retire_requests [] min_dest first f = (min_dest, first, f)"
| "retire_requests ((dest, app_seq) # rest) min_dest first f =
     (let (min_dest1, first1) = (if first \<or> dest < min_dest then (dest, False) else (min_dest, first)) in
      retire_requests rest min_dest1 first1
        (f\<lparr>df_pending_requests := hm_remove (dest, app_seq) (df_pending_requests f),
           df_block_event_count := sat_add64 (df_block_event_count f) 1\<rparr>))"

definition scan_block_timeouts :: "dnp3_context \<Rightarrow> dnp3_state \<Rightarrow> dnp3_state rust" where
  "scan_block_timeouts c af =
     (let (a, f) = af;
          timed_out = map fst (filter (\<lambda>(key, request_ts). sat_subw (dc_now c) request_ts > block_cmd_timeout_secs)
                                 (hm_iter (da_seed a) (df_pending_requests f)));
          (min_dest, first, f1) = retire_requests timed_out 0 True f;
          (a2, f2) = (if df_block_event_count f1 \<ge> block_cmd_threshold \<and> \<not> df_block_finding_emitted f1
                      then (dnp3_push (blocked_finding c min_dest f1) a, f1\<lparr>df_block_finding_emitted := True\<rparr>)
                      else (a, f1))
      in if \<not> first then maybe_emit_t0827 c min_dest (a2, f2) else Some (a2, f2))"

definition maybe_expire_correlation_window :: "u32 \<Rightarrow> dnp3_flow_state \<Rightarrow> dnp3_flow_state" where
  "maybe_expire_correlation_window now f =
     (if \<not> df_correlation_window_seeded f
      then f\<lparr>df_correlation_window_start_ts := now, df_correlation_window_seeded := True\<rparr>
      else if sat_subw now (df_correlation_window_start_ts f) > correlation_window_secs
      then f\<lparr>df_restart_event_count := 0, df_block_event_count := 0, df_block_finding_emitted := False,
             df_loss_of_control_emitted := False, df_malformed_in_window := 0, df_malformed_anomaly_emitted := False,
             df_correlation_window_start_ts := now\<rparr>
      else f)"

definition detect_broadcast_anomaly :: "dnp3_context \<Rightarrow> u8 \<Rightarrow> u16 \<Rightarrow> u16 \<Rightarrow> dnp3_analyzer \<Rightarrow> dnp3_analyzer" where
  "detect_broadcast_anomaly c app_fc dest src a =
     dnp3_push (dnp3_finding c Suspicious Possible Medium ''T1692.001''
       [Lit ''DNP3 broadcast control command: Control FC 0x'', Hex2 app_fc, Lit '' sent to broadcast destination '', Hex0X4 dest]
       [[Lit ''FC=0x'', Hex2 app_fc, Lit '' dest='', Hex0X4 dest, Lit '' (broadcast) src='', Hex0X4 src]]) a"

text \<open>The addresses joined by a comma.\<close>

fun join_addrs :: "u16 list \<Rightarrow> flow_key fmt" where
  "join_addrs [] = []"
| "join_addrs [x] = [Hex0X4 x]"
| "join_addrs (x # xs) = Hex0X4 x # Lit '', '' # join_addrs xs"

definition unexpected_source_finding :: "dnp3_context \<Rightarrow> u8 \<Rightarrow> u16 \<Rightarrow> u16 \<Rightarrow> dnp3_flow_state \<Rightarrow> finding" where
  "unexpected_source_finding c app_fc dest src f =
     (let master_set = Lit ''['' # join_addrs (filter (\<lambda>x. x \<noteq> src) (df_master_addrs_seen f)) @ [Lit '']''] in
      dnp3_finding c Execution Likely High ''T1692.001''
        ([Lit ''DNP3 unauthorized control command from unexpected source: src='', Hex0X4 src, Lit '' is not in expected master set '']
         @ master_set @ [Lit '' on dest='', Hex0X4 dest])
        [fc_evidence app_fc dest src, Lit ''expected_masters='' # master_set])"

definition detect_unexpected_source_split :: "dnp3_context \<Rightarrow> u8 \<Rightarrow> u16 \<Rightarrow> u16 \<Rightarrow> dnp3_state \<Rightarrow> dnp3_state" where
  "detect_unexpected_source_split c app_fc dest src af =
     (let (a, f) = af in
      if df_unexpected_source_emitted f then (a, f)
      else (dnp3_push (unexpected_source_finding c app_fc dest src f) a, f\<lparr>df_unexpected_source_emitted := True\<rparr>))"

definition unsolicited_finding :: "dnp3_context \<Rightarrow> u8 \<Rightarrow> u16 \<Rightarrow> u16 \<Rightarrow> finding" where
  "unsolicited_finding c app_ctrl dest src =
     dnp3_finding c Suspicious Possible Low ''T0814''
       [Lit ''DNP3 unexpected unsolicited response: UNSOLICITED_RESPONSE from src='', Hex0X4 src,
        Lit '' with no prior ENABLE_UNSOLICITED or solicited exchange on this flow'']
       [[Lit ''FC=0x82 src='', Hex0X4 src, Lit '' dest='', Hex0X4 dest, Lit '' UNS_bit='',
         Lit (if app_ctrl AND 0x10 \<noteq> 0 then ''true'' else ''false'')]]"

definition detect_unsolicited_anomaly :: "dnp3_context \<Rightarrow> u8 \<Rightarrow> u8 \<Rightarrow> u16 \<Rightarrow> u16 \<Rightarrow> dnp3_state \<Rightarrow> dnp3_state" where
  "detect_unsolicited_anomaly c app_fc app_ctrl dest src af =
     (let (a, f) = af in
      if app_fc = 0x81 then (a, f\<lparr>df_response_seen := True\<rparr>)
      else if app_fc = 0x82 \<and> \<not> df_enable_unsolicited_seen f \<and> \<not> df_response_seen f \<and> \<not> df_unsolicited_anomaly_emitted f
      then (dnp3_push (unsolicited_finding c app_ctrl dest src) a, f\<lparr>df_unsolicited_anomaly_emitted := True\<rparr>)
      else (a, f))"

definition detect_unsolicited_control :: "dnp3_context \<Rightarrow> u8 \<Rightarrow> u16 \<Rightarrow> u16 \<Rightarrow> dnp3_state \<Rightarrow> dnp3_state" where
  "detect_unsolicited_control c app_fc dest src af =
     (let (a, f) = af in
      if app_fc = 0x15 then
        (dnp3_push (dnp3_finding c Execution Likely Medium ''T0814''
           [Lit ''DNP3 DISABLE_UNSOLICITED observed: FC 0x15 from src='', Hex0X4 src, Lit '' to dest='', Hex0X4 dest,
            Lit '' -- alarm suppression / event-blinding primitive'']
           [fc_evidence app_fc dest src]) a, f)
      else if app_fc = 0x14 then
        (dnp3_push (dnp3_finding c Execution Possible Low ''T0814''
           [Lit ''DNP3 ENABLE_UNSOLICITED observed: FC 0x14 from src='', Hex0X4 src, Lit '' to dest='', Hex0X4 dest,
            Lit '' -- unsolicited reporting control'']
           [fc_evidence app_fc dest src]) a, f\<lparr>df_enable_unsolicited_seen := True\<rparr>)
      else (a, f))"

definition malformed_anomaly_finding :: "dnp3_context \<Rightarrow> dnp3_flow_state \<Rightarrow> finding" where
  "malformed_anomaly_finding c f =
     dnp3_finding c Anomaly Possible Low ''T0814''
       [Lit ''DNP3 structural anomaly: '', Dec (df_malformed_in_window f), Lit '' malformed frames in '',
        Dec (unat (sat_subw (dc_now c) (df_correlation_window_start_ts f))), Lit ''s window (flow '',
        ip_frag (lower_ip (dc_key c)), Lit ''->'', ip_frag (upper_ip (dc_key c)), Lit '') -- possible Crain-Sistrunk crash-probe'']
       [[Lit ''malformed_in_window='', Dec (df_malformed_in_window f), Lit '' in correlation window; threshold='',
         Dec malformed_anomaly_threshold]]"

definition check_malformed_anomaly :: "dnp3_context \<Rightarrow> dnp3_state \<Rightarrow> dnp3_state" where
  "check_malformed_anomaly c af =
     (let (a, f) = af;
          in_window = (sat_subw (dc_now c) (df_correlation_window_start_ts f) < correlation_window_secs)
      in if df_malformed_in_window f \<ge> malformed_anomaly_threshold \<and> \<not> df_malformed_anomaly_emitted f \<and> in_window
         then (dnp3_push (malformed_anomaly_finding c f) a, f\<lparr>df_malformed_anomaly_emitted := True\<rparr>)
         else (a, f))"

text \<open>A structural reject: both counters, then the check.\<close>

definition note_malformed :: "dnp3_context \<Rightarrow> dnp3_state \<Rightarrow> dnp3_state" where
  "note_malformed c af =
     (let (a, f) = af in
      check_malformed_anomaly c
        (a, f\<lparr>df_parse_errors := sat_add64 (df_parse_errors f) 1, df_malformed_in_window := sat_add64 (df_malformed_in_window f) 1\<rparr>))"

text \<open>\<open>min_by_key\<close> returns the first of the least entries in iteration order.\<close>

definition oldest_request :: "(u16 \<times> u8) hash_seed \<Rightarrow> (u16 \<times> u8, u32) hash_map \<Rightarrow> (u16 \<times> u8) option" where
  "oldest_request seed m =
     (case hm_iter seed m of
        [] \<Rightarrow> None
      | e # es \<Rightarrow> Some (fst (foldl (\<lambda>best e. if snd e < snd best then e else best) e es)))"

definition insert_pending_request ::
  "(u16 \<times> u8) hash_seed \<Rightarrow> u16 \<times> u8 \<Rightarrow> u32 \<Rightarrow> dnp3_flow_state \<Rightarrow> dnp3_flow_state \<times> bool"
where
  "insert_pending_request seed key request_ts f =
     (let m = df_pending_requests f in
      if max_pending_requests \<le> length m \<and> hm_get m key = None
      then let m1 = (case oldest_request seed m of Some oldest_key \<Rightarrow> hm_remove oldest_key m | None \<Rightarrow> m)
           in (f\<lparr>df_pending_requests := hm_insert key request_ts m1\<rparr>, True)
      else (f\<lparr>df_pending_requests := hm_insert key request_ts m\<rparr>, False))"

section \<open>Frames\<close>

definition track_master :: "dnp3_dl_header \<Rightarrow> dnp3_state \<Rightarrow> dnp3_state" where
  "track_master h af =
     (let (a, f) = af in
      if is_master_frame (dh_control h) \<and> dh_source h \<notin> set (df_master_addrs_seen f) then
        if length (df_master_addrs_seen f) < max_master_addrs
        then (a, f\<lparr>df_master_addrs_seen := df_master_addrs_seen f @ [dh_source h]\<rparr>)
        else (a\<lparr>da_master_addrs_dropped := sat_add64 (da_master_addrs_dropped a) 1\<rparr>, f)
      else (a, f))"

text \<open>The branch of a control request. \<open>unexpected\<close> is the condition taken before the source was recorded.\<close>

definition on_control :: "dnp3_context \<Rightarrow> bool \<Rightarrow> u8 \<Rightarrow> u8 \<Rightarrow> u16 \<Rightarrow> u16 \<Rightarrow> dnp3_state \<Rightarrow> dnp3_state" where
  "on_control c unexpected app_fc app_ctrl dest src af =
     (let (a, f) = af;
          a1 = (if is_broadcast_destination dest then detect_broadcast_anomaly c app_fc dest src a else a);
          (a2, f2) = (if unexpected then detect_unexpected_source_split c app_fc dest src (a1, f) else (a1, f));
          (a3, f3) = (if app_fc \<noteq> 0x06 then
                        let (g, evicted) = insert_pending_request (da_seed a2) (dest, app_ctrl AND 0x0F) (dc_now c) f2 in
                        (if evicted then a2\<lparr>da_pending_requests_evicted := sat_add64 (da_pending_requests_evicted a2) 1\<rparr> else a2, g)
                      else (a2, f2))
      in detect_control_class_burst_split c (da_direct_operate_threshold a3) app_fc dest src (a3, f3))"

definition on_response :: "dnp3_context \<Rightarrow> u8 \<Rightarrow> u8 \<Rightarrow> u16 \<Rightarrow> u16 \<Rightarrow> dnp3_state \<Rightarrow> dnp3_state" where
  "on_response c app_fc app_ctrl dest src af =
     (let (a1, f1) = detect_unsolicited_anomaly c app_fc app_ctrl dest src af in
      if app_fc = 0x81
      then (a1, f1\<lparr>df_pending_requests := hm_remove (src, app_ctrl AND 0x0F) (df_pending_requests f1)\<rparr>)
      else (a1, f1))"

text \<open>The match on the class of the function code.\<close>

definition on_function_code ::
  "dnp3_context \<Rightarrow> dnp3_dl_header \<Rightarrow> bool \<Rightarrow> u8 \<Rightarrow> u8 \<Rightarrow> dnp3_state \<Rightarrow> dnp3_state rust"
where
  "on_function_code c h unexpected app_fc app_ctrl af =
     (let dest = dh_destination h; src = dh_source h in
      case classify_dnp3_fc app_fc of
        FcControl \<Rightarrow> Some (on_control c unexpected app_fc app_ctrl dest src af)
      | FcRestart \<Rightarrow> maybe_emit_t0827 c dest (detect_restart_split c app_fc dest src af)
      | FcWrite \<Rightarrow> Some (apfst (detect_write_split c dest src) af)
      | FcResponse \<Rightarrow> Some (on_response c app_fc app_ctrl dest src af)
      | _ \<Rightarrow> Some af)"

text \<open>The application layer of a first fragment.\<close>

definition on_application ::
  "dnp3_context \<Rightarrow> dnp3_dl_header \<Rightarrow> bool \<Rightarrow> u8 \<Rightarrow> u8 \<Rightarrow> dnp3_state \<Rightarrow> dnp3_state rust"
where
  "on_application c h unexpected app_fc app_ctrl af = do {
     let (a, f) = af;
     n \<leftarrow> add64 (case hm_get (df_fc_counts f) app_fc of Some n \<Rightarrow> n | None \<Rightarrow> 0) 1;
     m \<leftarrow> add64 (case hm_get (da_fn_code_counts a) app_fc of Some n \<Rightarrow> n | None \<Rightarrow> 0) 1;
     let af1 = (a\<lparr>da_fn_code_counts := hm_insert app_fc m (da_fn_code_counts a)\<rparr>,
                f\<lparr>df_fc_counts := hm_insert app_fc n (df_fc_counts f)\<rparr>);
     on_function_code c h unexpected app_fc app_ctrl
       (if app_fc = 0x14 \<or> app_fc = 0x15
        then detect_unsolicited_control c app_fc (dh_destination h) (dh_source h) af1 else af1)
   }"

text \<open>A complete frame that passed the gate.\<close>

definition on_frame :: "dnp3_context \<Rightarrow> dnp3_dl_header \<Rightarrow> bytes \<Rightarrow> dnp3_state \<Rightarrow> dnp3_state rust" where
  "on_frame c h frame af =
     (let (a, f) = af;
          f1 = f\<lparr>df_frame_count := sat_add64 (df_frame_count f) 1\<rparr>;
          src_was_known = (dh_source h \<in> set (df_master_addrs_seen f1));
          expected_set_established = (df_master_addrs_seen f1 \<noteq> []);
          af2 = track_master h (a, f1)
      in if length frame \<ge> 13 \<and> has_user_data (dh_control h) \<and> transport_is_fir (frame ! 10)
         then on_application c h (is_master_frame (dh_control h) \<and> expected_set_established \<and> \<not> src_was_known)
                (frame ! 12) (frame ! 11) af2
         else Some af2)"

section \<open>The walk\<close>

text \<open>The byte-walk to the next sync word: what is left of the carry from there, or nothing.\<close>

fun drop_to_sync :: "bytes \<Rightarrow> bytes" where
  "drop_to_sync (x # y # rest) = (if x = 0x05 \<and> y = 0x64 then x # y # rest else drop_to_sync (y # rest))"
| "drop_to_sync _ = []"

lemma drop_to_sync_shorter [simp]: "length (drop_to_sync bs) \<le> length bs"
  by (induction bs rule: drop_to_sync.induct) auto

lemma resync_shorter: "\<not> length bs < 10 \<Longrightarrow> length (drop_to_sync (tl bs)) < length bs"
  by (cases bs) (simp_all add: le_imp_less_Suc)

definition in_sync :: "bytes \<Rightarrow> bool" where
  "in_sync carry = (carry ! 0 = 0x05 \<and> carry ! 1 = 0x64)"

text \<open>The end of the walk, on fewer than ten bytes.\<close>

definition settle :: "dnp3_context \<Rightarrow> bool \<Rightarrow> bytes \<Rightarrow> dnp3_state \<Rightarrow> dnp3_state \<times> bytes" where
  "settle c did_process carry af =
     (if 2 \<le> length carry then
        if \<not> in_sync carry then (note_malformed c af, drop_to_sync (tl carry))
        else if did_process \<and> 3 \<le> length carry \<and> compute_dnp3_frame_len (carry ! 2) = None
        then (note_malformed c af, drop_to_sync (tl carry))
        else (af, carry)
      else (af, carry))"

function dnp3_walk :: "dnp3_context \<Rightarrow> bool \<Rightarrow> bytes \<Rightarrow> dnp3_state \<Rightarrow> (dnp3_state \<times> bytes) rust" where
  "dnp3_walk c did_process carry af =
     (if length carry < 10 then Some (settle c did_process carry af)
      else if \<not> in_sync carry then dnp3_walk c True (drop_to_sync (tl carry)) (note_malformed c af)
      else case compute_dnp3_frame_len (carry ! 2) of
        None \<Rightarrow> dnp3_walk c True (drop_to_sync (tl carry)) (note_malformed c af)
      | Some frame_len \<Rightarrow>
          if length carry < frame_len then Some (af, carry)
          else case parse_dnp3_dl_header (take frame_len carry) of
            None \<Rightarrow> dnp3_walk c True (drop frame_len carry) (note_malformed c af)
          | Some h \<Rightarrow>
              if \<not> is_valid_dnp3_frame_header h
              then dnp3_walk c True (drop frame_len carry) (note_malformed c af)
              else case on_frame c h (take frame_len carry) af of
                None \<Rightarrow> None
              | Some af' \<Rightarrow> dnp3_walk c True (drop frame_len carry) af')"
  by pat_completeness auto
termination
  by (relation "measure (\<lambda>(c, did, carry, af). length carry)")
    (auto simp: resync_shorter dest: frame_len_bounds(1))

declare dnp3_walk.simps [simp del]

section \<open>Entry points\<close>

fun dnp3_carry :: "direction \<Rightarrow> dnp3_flow_state \<Rightarrow> bytes" where
  "dnp3_carry ClientToServer f = df_carry_c2s f"
| "dnp3_carry ServerToClient f = df_carry_s2c f"

fun set_dnp3_carry :: "direction \<Rightarrow> bytes \<Rightarrow> dnp3_flow_state \<Rightarrow> dnp3_flow_state" where
  "set_dnp3_carry ClientToServer bs f = f\<lparr>df_carry_c2s := bs\<rparr>"
| "set_dnp3_carry ServerToClient bs f = f\<lparr>df_carry_s2c := bs\<rparr>"

text \<open>The desync check on the first delivery.\<close>

definition desynced :: "bytes \<Rightarrow> dnp3_flow_state \<Rightarrow> bool" where
  "desynced data f \<longleftrightarrow>
     df_frame_count f = 0 \<and> df_carry_c2s f = [] \<and> df_carry_s2c f = [] \<and> 2 \<le> length data \<and> \<not> in_sync data"

text \<open>Appending a delivery to the carry under the cap of one maximal frame.\<close>

definition accumulate :: "dnp3_context \<Rightarrow> bytes \<Rightarrow> bytes \<Rightarrow> dnp3_state \<Rightarrow> (dnp3_state \<times> bytes) rust" where
  "accumulate c carry data af = do {
     remaining_capacity \<leftarrow> sub64 max_dnp3_frame_len (length carry);
     Some (if length data > remaining_capacity
           then (note_malformed c af, drop_to_sync (carry @ take remaining_capacity data))
           else (af, carry @ data))
   }"

definition dnp3_on_data :: "dnp3_analyzer \<Rightarrow> flow_key \<Rightarrow> bytes \<Rightarrow> u32 \<Rightarrow> direction \<Rightarrow> dnp3_analyzer rust" where
  "dnp3_on_data a key data ts dir =
     (let f = (case hm_get (da_flows a) key of Some f \<Rightarrow> f | None \<Rightarrow> dnp3_flow_state_default);
          c = \<lparr>dc_key = key, dc_direction = dir, dc_now = ts\<rparr>
      in if df_is_non_dnp3 f then Some (a\<lparr>da_flows := hm_insert key f (da_flows a)\<rparr>)
         else if desynced data f then Some (a\<lparr>da_flows := hm_insert key (f\<lparr>df_is_non_dnp3 := True\<rparr>) (da_flows a)\<rparr>)
         else do {
           af1 \<leftarrow> scan_block_timeouts c (a, maybe_expire_correlation_window ts f);
           (af2, carry) \<leftarrow> accumulate c (dnp3_carry dir f) data af1;
           ((a3, f3), carry') \<leftarrow> dnp3_walk c False carry af2;
           Some (a3\<lparr>da_flows := hm_insert key (set_dnp3_carry dir carry' f3) (da_flows a3)\<rparr>)
         })"

text \<open>The derived order of \<open>FlowKey\<close> compares its fields in their order. The keys of the open flows are
  distinct and the sort is stable, so the order in which the table is visited does not show.\<close>

definition dnp3_summarize :: "dnp3_analyzer \<Rightarrow> analysis_summary rust" where
  "dnp3_summarize a = do {
     open_frames \<leftarrow> sum64 (map (\<lambda>(key, f). df_frame_count f) (da_flows a));
     open_errors \<leftarrow> sum64 (map (\<lambda>(key, f). df_parse_errors f) (da_flows a));
     let total_frames = sat_add64 (da_total_frames_closed a) open_frames;
     let entries = sort_key (\<lambda>(k, n). (lower_ip k, lower_port k, upper_ip k, upper_port k))
           (da_closed_flow_direct_operates a @ map (\<lambda>(k, f). (k, df_direct_operate_count f)) (da_flows a));
     Some \<lparr>analyzer_name = ''DNP3'', packets_analyzed = total_frames,
           detail = [''function_code_distribution'' \<mapsto> Distribution (\<lambda>fc. case hm_get (da_fn_code_counts a) fc of
                        Some n \<Rightarrow> if n > 0 then Some n else None | None \<Rightarrow> None),
                     ''control_operation_counts'' \<mapsto> Counts (map (\<lambda>(k, n). unat n) entries),
                     ''total_frames'' \<mapsto> Num total_frames,
                     ''parse_errors'' \<mapsto> Num (sat_add64 (da_parse_errors_closed a) open_errors),
                     ''flows_analyzed'' \<mapsto> Num (sat_add64 (da_closed_flows_count a) (length (da_flows a))),
                     ''dropped_findings'' \<mapsto> Num (da_dropped_findings a),
                     ''master_addrs_dropped'' \<mapsto> Num (da_master_addrs_dropped a),
                     ''pending_requests_evicted'' \<mapsto> Num (da_pending_requests_evicted a)]\<rparr>
   }"

definition dnp3_handler :: "dnp3_analyzer stream_handler" where
  "dnp3_handler =
     \<lparr>on_data = (\<lambda>a key dir data off ts. dnp3_on_data a key data ts dir),
      on_flow_close = (\<lambda>a key reason. Some (dnp3_on_flow_close a key))\<rparr>"

end
