(* ===== verification/Dnp3_Inv.thy ===== *)
theory Dnp3_Inv
  imports Dnp3 Engine_Run
begin

text \<open>
  The invariant of the DNP3 analyzer. Its counters add without saturation in three places, and
  every addition is paid for by bytes of a frame, so the invariant bounds each counter by the
  bytes that can still arrive. The bookkeeping is done by the relation \<open>spends\<close>.
\<close>

section \<open>Room\<close>

definition flow_room :: "nat \<Rightarrow> dnp3_flow_state \<Rightarrow> bool" where
  "flow_room N f \<longleftrightarrow>
     hm_ok (df_fc_counts f) \<and> (\<forall>(fc, k) \<in> set (df_fc_counts f). k + N \<le> u64_max) \<and>
     df_restart_event_count f + df_block_event_count f + length (df_pending_requests f) + N \<le> u64_max \<and>
     hm_ok (df_pending_requests f) \<and> length (df_pending_requests f) \<le> max_pending_requests \<and>
     length (df_master_addrs_seen f) \<le> max_master_addrs"

definition codes_room :: "nat \<Rightarrow> dnp3_analyzer \<Rightarrow> bool" where
  "codes_room M a \<longleftrightarrow>
     hm_ok (da_fn_code_counts a) \<and> (\<forall>(fc, k) \<in> set (da_fn_code_counts a). k + M \<le> u64_max) \<and> M \<le> u64_max \<and>
     length (da_all_findings a) \<le> dnp3_max_findings"

fun room :: "nat \<Rightarrow> nat \<Rightarrow> dnp3_state \<Rightarrow> bool" where
  "room N M (a, f) \<longleftrightarrow> flow_room N f \<and> codes_room M a"

text \<open>What the detectors leave alone.\<close>

fun unmoved :: "dnp3_state \<Rightarrow> dnp3_state \<Rightarrow> bool" where
  "unmoved (a, f) (a', f') \<longleftrightarrow>
     da_flows a' = da_flows a \<and> da_seed a' = da_seed a \<and> da_direct_operate_threshold a' = da_direct_operate_threshold a \<and>
     df_carry_c2s f' = df_carry_c2s f \<and> df_carry_s2c f' = df_carry_s2c f \<and> df_is_non_dnp3 f' = df_is_non_dnp3 f"

fun tally :: "dnp3_state \<Rightarrow> nat" where
  "tally (a, f) = df_frame_count f + df_parse_errors f"

definition spends :: "nat \<Rightarrow> dnp3_state \<Rightarrow> dnp3_state \<Rightarrow> bool" where
  "spends k af af' \<longleftrightarrow>
     (\<forall>N M. room (N + k) (M + k) af \<longrightarrow> room N M af') \<and> unmoved af af' \<and> tally af' \<le> tally af + k"

lemma room_mono: "room (N + k) (M + k) af \<Longrightarrow> room N M af"
  by (cases af) (auto simp: flow_room_def codes_room_def)

lemma unmoved_trans: "unmoved af bf \<Longrightarrow> unmoved bf cf \<Longrightarrow> unmoved af cf"
  by (cases af; cases bf; cases cf) auto

lemma spends_refl [simp]: "spends 0 af af"
  by (cases af) (simp add: spends_def)

lemma spends_trans:
  assumes "spends j af bf" and "spends k bf cf"
  shows "spends (j + k) af cf"
proof -
  have "room N M cf" if "room (N + (j + k)) (M + (j + k)) af" for N M
  proof -
    have "room (N + k + j) (M + k + j) af" using that by (simp add: ac_simps)
    then show ?thesis using assms by (simp add: spends_def)
  qed
  then show ?thesis using assms unmoved_trans [of af bf cf] by (simp add: spends_def)
qed

lemma spends_more:
  assumes "spends j af bf" and "j \<le> k"
  shows "spends k af bf"
proof -
  obtain d where k: "k = j + d" using assms(2) le_Suc_ex by blast
  have "room N M bf" if "room (N + k) (M + k) af" for N M
  proof -
    have "room (N + d + j) (M + d + j) af" using that by (simp add: k ac_simps)
    then show ?thesis using assms(1) room_mono [of N d M bf] by (simp add: spends_def)
  qed
  then show ?thesis using assms by (simp add: spends_def)
qed

lemma spends_same: "spends 0 af bf \<Longrightarrow> spends k bf cf \<Longrightarrow> spends k af cf"
  using spends_trans [of 0 af bf k cf] by simp

lemma spends_room: "spends 0 af bf \<Longrightarrow> room N M af \<Longrightarrow> room N M bf"
  by (simp add: spends_def)

section \<open>Detectors\<close>

text \<open>A change of the latches and windows of a flow costs nothing.\<close>

definition same_counts :: "dnp3_flow_state \<Rightarrow> dnp3_flow_state \<Rightarrow> bool" where
  "same_counts f f' \<longleftrightarrow>
     df_fc_counts f' = df_fc_counts f \<and> df_restart_event_count f' = df_restart_event_count f \<and>
     df_block_event_count f' = df_block_event_count f \<and> df_pending_requests f' = df_pending_requests f \<and>
     df_master_addrs_seen f' = df_master_addrs_seen f \<and> df_frame_count f' = df_frame_count f \<and>
     df_parse_errors f' = df_parse_errors f \<and> df_carry_c2s f' = df_carry_c2s f \<and> df_carry_s2c f' = df_carry_s2c f \<and>
     df_is_non_dnp3 f' = df_is_non_dnp3 f"

lemma push_spends: "same_counts f f' \<Longrightarrow> spends 0 (a, f) (dnp3_push fi a, f')"
  by (auto simp: spends_def dnp3_push_def codes_room_def flow_room_def same_counts_def)

lemma keep_spends: "same_counts f f' \<Longrightarrow> spends 0 (a, f) (a, f')"
  by (auto simp: spends_def flow_room_def same_counts_def)

lemma burst_spends: "spends 0 af (detect_control_class_burst_split c threshold app_fc dest src af)"
  by (cases af) (auto simp: detect_control_class_burst_split_def Let_def same_counts_def intro!: push_spends keep_spends)

lemma unexpected_spends: "spends 0 af (detect_unexpected_source_split c app_fc dest src af)"
  by (cases af) (auto simp: detect_unexpected_source_split_def same_counts_def intro!: push_spends)

lemma unsolicited_spends: "spends 0 af (detect_unsolicited_anomaly c app_fc app_ctrl dest src af)"
  by (cases af) (auto simp: detect_unsolicited_anomaly_def same_counts_def intro!: push_spends keep_spends)

lemma unsolicited_control_spends: "spends 0 af (detect_unsolicited_control c app_fc dest src af)"
  by (cases af) (auto simp: detect_unsolicited_control_def same_counts_def intro!: push_spends)

lemma write_spends: "spends 0 (a, f) (detect_write_split c dest src a, f)"
  by (auto simp: detect_write_split_def same_counts_def intro!: push_spends)

lemma broadcast_spends: "spends 0 (a, f) (detect_broadcast_anomaly c app_fc dest src a, f)"
  by (auto simp: detect_broadcast_anomaly_def same_counts_def intro!: push_spends)

lemma check_malformed_spends: "spends 0 af (check_malformed_anomaly c af)"
  by (cases af) (auto simp: check_malformed_anomaly_def Let_def same_counts_def intro!: push_spends)

lemma expire_spends: "spends 0 (a, f) (a, maybe_expire_correlation_window ts f)"
  by (auto simp: maybe_expire_correlation_window_def spends_def flow_room_def)

lemma note_malformed_spends: "spends 1 af (note_malformed c af)"
proof -
  obtain a f where af: "af = (a, f)" by force
  let ?f = "f\<lparr>df_parse_errors := sat_add64 (df_parse_errors f) 1, df_malformed_in_window := sat_add64 (df_malformed_in_window f) 1\<rparr>"
  have "sat_add64 (df_parse_errors f) 1 \<le> df_parse_errors f + 1" by (simp add: sat_add64_def)
  then have "spends 1 (a, f) (a, ?f)"
    by (auto simp: spends_def flow_room_def codes_room_def)
  from spends_trans [OF this check_malformed_spends] show ?thesis by (simp add: af note_malformed_def)
qed

lemma restart_spends: "spends 1 af (detect_restart_split c app_fc dest src af)"
proof -
  obtain a f where af: "af = (a, f)" by force
  let ?f = "f\<lparr>df_restart_event_count := sat_add64 (df_restart_event_count f) 1\<rparr>"
  have "sat_add64 (df_restart_event_count f) 1 \<le> df_restart_event_count f + 1" by (simp add: sat_add64_def)
  then have "spends 1 (a, f) (a, ?f)"
    by (auto simp: spends_def flow_room_def codes_room_def)
  from spends_trans [OF this push_spends] show ?thesis by (simp add: af detect_restart_split_def same_counts_def)
qed

lemma t0827_spends:
  assumes "room N M af"
  shows "\<exists>af'. maybe_emit_t0827 c dest af = Some af' \<and> spends 0 af af'"
proof -
  obtain a f where af: "af = (a, f)" by force
  have "df_restart_event_count f + df_block_event_count f \<le> u64_max" using assms by (simp add: af flow_room_def)
  then show ?thesis
    by (auto simp: af maybe_emit_t0827_def same_counts_def intro!: push_spends)
qed

subsection \<open>Pending requests\<close>

lemma foldl_least:
  fixes b :: "'k \<times> 'v::linorder"
  defines "pick \<equiv> \<lambda>best e. if snd e < snd best then e else best"
  shows "foldl pick b es \<in> set (b # es)" and "e \<in> set (b # es) \<Longrightarrow> snd (foldl pick b es) \<le> snd e"
proof (induction es arbitrary: b e)
  case (Cons x xs)
  { case 1
    show ?case using Cons.IH(1) [of "pick b x"] by (auto simp: pick_def)
  next
    case 2
    have "snd (foldl pick (pick b x) xs) \<le> snd (pick b x)" by (rule Cons.IH(2)) simp
    moreover have "snd (pick b x) \<le> snd b" "snd (pick b x) \<le> snd x" by (auto simp: pick_def)
    moreover have "snd (foldl pick (pick b x) xs) \<le> snd e" if "e \<in> set xs" by (rule Cons.IH(2)) (simp add: that)
    ultimately show ?case using 2 by auto }
qed simp_all

lemma oldest_request_least:
  assumes "oldest_request seed m = Some k"
  shows "\<exists>t. (k, t) \<in> set m \<and> (\<forall>(k', t') \<in> set m. t \<le> t')"
proof -
  obtain e es where i: "hm_iter seed m = e # es" using assms by (cases "hm_iter seed m") (auto simp: oldest_request_def)
  then have s: "set m = set (e # es)" by (metis set_hm_iter)
  let ?b = "foldl (\<lambda>best e. if snd e < snd best then e else best) e es"
  have "?b \<in> set m" "\<forall>e' \<in> set m. snd ?b \<le> snd e'" using foldl_least [where b = e and es = es] unfolding s by blast+
  moreover have "k = fst ?b" using assms i by (simp add: oldest_request_def)
  ultimately show ?thesis by (intro exI [of _ "snd ?b"]) auto
qed

lemma oldest_request_None: "oldest_request seed m = None \<longleftrightarrow> m = []"
proof -
  have "hm_iter seed m = [] \<longleftrightarrow> m = []" by (metis set_hm_iter set_empty)
  then show ?thesis by (auto simp: oldest_request_def split: list.split)
qed

lemma insert_pending_size:
  assumes "hm_ok (df_pending_requests f)" and "length (df_pending_requests f) \<le> max_pending_requests"
    and "insert_pending_request seed key ts f = (f', evicted)"
  shows "hm_ok (df_pending_requests f')" and "length (df_pending_requests f') \<le> max_pending_requests"
    and "length (df_pending_requests f') \<le> Suc (length (df_pending_requests f))"
proof -
  let ?m = "df_pending_requests f"
  have "hm_ok (df_pending_requests f') \<and> length (df_pending_requests f') \<le> max_pending_requests \<and>
      length (df_pending_requests f') \<le> Suc (length ?m)"
  proof (cases "max_pending_requests \<le> length ?m \<and> hm_get ?m key = None")
    case True
    then have "?m \<noteq> []" by (auto simp: max_pending_requests_def)
    then obtain k where k: "oldest_request seed ?m = Some k" using oldest_request_None [of seed ?m] by blast
    then obtain t where "(k, t) \<in> set ?m" using oldest_request_least by blast
    then have "hm_get ?m k = Some t" using hmap.get_iff [OF assms(1)] by simp
    then have l: "length (hm_remove k ?m) = length ?m - 1" using hmap.size_remove [OF assms(1), of k] by simp
    note ok = hm_ok_remove [OF assms(1), of k]
    have f': "df_pending_requests f' = hm_insert key ts (hm_remove k ?m)"
      using True assms(3) k by (auto simp: insert_pending_request_def)
    show ?thesis
      using True assms(2) l hm_ok_insert [OF ok, of key ts] hmap.size_put [OF ok, of key ts]
      by (auto simp: f' max_pending_requests_def)
  next
    case False
    then have f': "df_pending_requests f' = hm_insert key ts ?m" using assms(3) by (auto simp: insert_pending_request_def Let_def)
    show ?thesis
      using False assms(2) hm_ok_insert [OF assms(1), of key ts] hmap.size_put [OF assms(1), of key ts] by (auto simp: f')
  qed
  then show "hm_ok (df_pending_requests f')" "length (df_pending_requests f') \<le> max_pending_requests"
    "length (df_pending_requests f') \<le> Suc (length ?m)" by auto
qed

lemma insert_pending_frame:
  "insert_pending_request seed key ts f = (f', evicted) \<Longrightarrow> f' = f\<lparr>df_pending_requests := df_pending_requests f'\<rparr>"
  by (auto simp: insert_pending_request_def Let_def split: if_splits)

lemma insert_pending_spends:
  assumes "insert_pending_request seed key ts f = (f', evicted)"
  shows "spends 1 (a, f) (if evicted then a\<lparr>da_pending_requests_evicted := x\<rparr> else a, f')"
proof -
  note fr = insert_pending_frame [OF assms]
  have "flow_room N f'" if r: "flow_room (N + 1) f" for N
  proof -
    have ok: "hm_ok (df_pending_requests f)" "length (df_pending_requests f) \<le> max_pending_requests"
      using r by (simp_all add: flow_room_def)
    note sz = insert_pending_size [OF ok assms]
    have "df_fc_counts f' = df_fc_counts f" "df_restart_event_count f' = df_restart_event_count f"
      "df_block_event_count f' = df_block_event_count f" "df_master_addrs_seen f' = df_master_addrs_seen f"
      by (subst fr, simp)+
    with r sz show ?thesis by (auto simp: flow_room_def)
  qed
  moreover have "unmoved (a, f) (if evicted then a\<lparr>da_pending_requests_evicted := x\<rparr> else a, f')"
    "tally (a, f') = tally (a, f)" by (subst fr, simp)+
  ultimately show ?thesis by (auto simp: spends_def codes_room_def)
qed

text \<open>Retiring requests moves them from the table to the counter.\<close>

lemma retire_requests_room:
  assumes "retire_requests ks d first f = (d', first', f')" and "distinct ks" and "\<forall>k \<in> set ks. hm_get (df_pending_requests f) k \<noteq> None"
    and "flow_room N f"
  shows "flow_room N f'"
  using assms
proof (induction ks d first f rule: retire_requests.induct)
  case (2 dest app_seq rest min_dest first f)
  let ?k = "(dest, app_seq)"
  let ?f = "f\<lparr>df_pending_requests := hm_remove ?k (df_pending_requests f), df_block_event_count := sat_add64 (df_block_event_count f) 1\<rparr>"
  obtain d1 first1 where e: "(if first \<or> dest < min_dest then (dest, False) else (min_dest, first)) = (d1, first1)" by force
  have ok: "hm_ok (df_pending_requests f)" using "2.prems"(4) by (simp add: flow_room_def)
  have l: "length (hm_remove ?k (df_pending_requests f)) = length (df_pending_requests f) - 1" "0 < length (df_pending_requests f)"
    using hmap.size_remove [OF ok, of ?k] "2.prems"(3) by (auto simp: hm_get_def)
  have "sat_add64 (df_block_event_count f) 1 \<le> df_block_event_count f + 1" by (simp add: sat_add64_def)
  moreover have "df_restart_event_count f + df_block_event_count f + length (df_pending_requests f) + N \<le> u64_max"
    using "2.prems"(4) by (simp add: flow_room_def)
  ultimately have "df_restart_event_count f + sat_add64 (df_block_event_count f) 1 + (length (df_pending_requests f) - 1) + N \<le> u64_max"
    using l(2) by linarith
  with "2.prems"(4) l hm_ok_remove [OF ok, of ?k] have r: "flow_room N ?f" by (auto simp: flow_room_def)
  have "\<forall>k \<in> set rest. hm_get (df_pending_requests ?f) k \<noteq> None" using "2.prems"(2,3) by auto
  with "2.IH" [OF e [symmetric] refl] "2.prems"(1,2) r e show ?case by auto
qed simp

lemma retire_requests_frame:
  assumes "retire_requests ks d first f = (d', first', f')"
  shows "df_carry_c2s f' = df_carry_c2s f \<and> df_carry_s2c f' = df_carry_s2c f \<and> df_is_non_dnp3 f' = df_is_non_dnp3 f \<and>
    df_frame_count f' = df_frame_count f \<and> df_parse_errors f' = df_parse_errors f"
  using assms by (induction ks d first f rule: retire_requests.induct) (auto simp: Let_def split: prod.splits)

lemma scan_spends:
  assumes "room N M af"
  shows "\<exists>af'. scan_block_timeouts c af = Some af' \<and> spends 0 af af'"
proof -
  obtain a f where af: "af = (a, f)" by force
  let ?ks = "map fst (filter (\<lambda>(key, request_ts). sat_subw (dc_now c) request_ts > block_cmd_timeout_secs)
      (hm_iter (da_seed a) (df_pending_requests f)))"
  obtain d first f1 where r: "retire_requests ?ks 0 True f = (d, first, f1)" by (metis prod_cases3)
  have "spends 0 (a, f) (a, f1)"
  proof -
    have "flow_room N' f1" if "flow_room N' f" for N'
    proof (rule retire_requests_room [OF r _ _ that])
      have ok: "hm_ok (df_pending_requests f)" using that by (simp add: flow_room_def)
      show "distinct ?ks" using distinct_hm_iter [OF ok, of "da_seed a"] by (rule distinct_map_filter)
      have "k \<in> fst ` set (df_pending_requests f)" if "k \<in> set ?ks" for k using that by auto
      then show "\<forall>k \<in> set ?ks. hm_get (df_pending_requests f) k \<noteq> None" by (auto simp: hm_get_def map_of_eq_None_iff)
    qed
    then show ?thesis using retire_requests_frame [OF r] by (simp add: spends_def)
  qed
  moreover obtain a2 f2 where e: "(if df_block_event_count f1 \<ge> block_cmd_threshold \<and> \<not> df_block_finding_emitted f1
      then (dnp3_push (blocked_finding c d f1) a, f1\<lparr>df_block_finding_emitted := True\<rparr>) else (a, f1)) = (a2, f2)" by force
  moreover have "spends 0 (a, f1) (a2, f2)"
    using e by (auto simp: same_counts_def intro!: push_spends split: if_splits)
  ultimately have s: "spends 0 (a, f) (a2, f2)" using spends_same by blast
  then have "room N M (a2, f2)" using assms by (auto simp: spends_def af)
  from t0827_spends [OF this, of c d] obtain af3 where t: "maybe_emit_t0827 c d (a2, f2) = Some af3" "spends 0 (a2, f2) af3" by blast
  have eq: "scan_block_timeouts c af = (if \<not> first then maybe_emit_t0827 c d (a2, f2) else Some (a2, f2))"
    using e by (simp add: scan_block_timeouts_def af r)
  show ?thesis unfolding eq using s t spends_same [OF s t(2)] by (cases first) (simp_all add: af)
qed

section \<open>Frames\<close>

lemma control_spends: "spends 1 af (on_control c unexpected app_fc app_ctrl dest src af)"
proof -
  obtain a f where af: "af = (a, f)" by force
  let ?a1 = "if is_broadcast_destination dest then detect_broadcast_anomaly c app_fc dest src a else a"
  obtain a2 f2 where e2: "(if unexpected then detect_unexpected_source_split c app_fc dest src (?a1, f) else (?a1, f)) = (a2, f2)" by force
  obtain g ev where g: "insert_pending_request (da_seed a2) (dest, app_ctrl AND 0x0F) (dc_now c) f2 = (g, ev)" by force
  obtain a3 f3 where e3: "(if app_fc \<noteq> 0x06 then
      (if ev then a2\<lparr>da_pending_requests_evicted := sat_add64 (da_pending_requests_evicted a2) 1\<rparr> else a2, g) else (a2, f2)) = (a3, f3)"
    by force
  have "spends 0 (a, f) (?a1, f)" using broadcast_spends by simp
  moreover have "spends 0 (?a1, f) (a2, f2)" using e2 unexpected_spends [of "(?a1, f)"] by (metis spends_refl)
  ultimately have s2: "spends 0 (a, f) (a2, f2)" by (rule spends_same)
  have s3: "spends 1 (a2, f2) (a3, f3)"
    using e3 insert_pending_spends [OF g, of a2] spends_more [OF spends_refl, of 1 "(a2, f2)"] by (auto split: if_splits)
  have s: "spends 1 (a, f) (detect_control_class_burst_split c (da_direct_operate_threshold a3) app_fc dest src (a3, f3))"
    using spends_trans [OF spends_same [OF s2 s3] burst_spends] by simp
  show ?thesis unfolding af on_control_def Let_def prod.case e2 g e3 by (rule s)
qed

lemma response_spends: "spends 0 af (on_response c app_fc app_ctrl dest src af)"
proof -
  obtain a1 f1 where d: "detect_unsolicited_anomaly c app_fc app_ctrl dest src af = (a1, f1)" by force
  let ?g = "f1\<lparr>df_pending_requests := hm_remove (src, app_ctrl AND 0x0F) (df_pending_requests f1)\<rparr>"
  have "flow_room N ?g" if "flow_room N f1" for N
  proof -
    have ok: "hm_ok (df_pending_requests f1)" using that by (simp add: flow_room_def)
    have "length (hm_remove k (df_pending_requests f1)) \<le> length (df_pending_requests f1)" for k
      using hmap.size_remove [OF ok, of k] by simp
    from this [of "(src, app_ctrl AND 0x0F)"] that hm_ok_remove [OF ok, of "(src, app_ctrl AND 0x0F)"]
    show ?thesis by (auto simp: flow_room_def)
  qed
  then have "spends 0 (a1, f1) (a1, ?g)" by (simp add: spends_def)
  with unsolicited_spends [of af c app_fc app_ctrl dest src] show ?thesis
    unfolding on_response_def d using spends_same by fastforce
qed

lemma counts_room_insert:
  fixes t :: "(u8, u64) hash_map" and fc :: u8
  assumes "hm_ok t" and "\<forall>(fc, k) \<in> set t. k + (N + 1) \<le> u64_max" and "N + 1 \<le> u64_max"
    and n_def: "n = (case hm_get t fc of Some n \<Rightarrow> n | None \<Rightarrow> 0)"
  shows "add64 n 1 = Some (n + 1)" and "hm_ok (hm_insert fc (n + 1) t)"
    and "\<forall>(fc, k) \<in> set (hm_insert fc (n + 1) t). k + N \<le> u64_max"
proof -
  have n: "n + (N + 1) \<le> u64_max"
  proof (cases "hm_get t fc")
    case None
    then show ?thesis using assms(3) by (simp add: n_def)
  next
    case (Some k)
    then have "(fc, k) \<in> set t" using hmap.get_iff [OF assms(1)] by simp
    then show ?thesis using assms(2) Some by (auto simp: n_def)
  qed
  then show "add64 n 1 = Some (n + 1)" by (simp add: add64_def)
  show "hm_ok (hm_insert fc (n + 1) t)" by (rule hm_ok_insert [OF assms(1)])
  show "\<forall>(fc, k) \<in> set (hm_insert fc (n + 1) t). k + N \<le> u64_max"
    using n assms(2) by (auto simp: hmap.set_put [OF assms(1)])
qed

lemma function_code_spends:
  assumes "room (N + 1) (M + 1) af"
  shows "\<exists>af'. on_function_code c h unexpected app_fc app_ctrl af = Some af' \<and> spends 1 af af'"
proof -
  let ?d = "dh_destination h" and ?s = "dh_source h"
  have one: "spends 0 af af' \<Longrightarrow> spends 1 af af'" for af' by (erule spends_more) simp
  have r: "spends 1 af (detect_restart_split c app_fc ?d ?s af)" by (rule restart_spends)
  then have "room N M (detect_restart_split c app_fc ?d ?s af)" using assms unfolding spends_def by blast
  from t0827_spends [OF this, of c ?d] obtain af'
    where t: "maybe_emit_t0827 c ?d (detect_restart_split c app_fc ?d ?s af) = Some af'" "spends 0 (detect_restart_split c app_fc ?d ?s af) af'"
    by blast
  have "spends 1 af af'" using spends_trans [OF r t(2)] by simp
  moreover have "spends 0 af (apfst (detect_write_split c ?d ?s) af)" using write_spends by (cases af) simp
  ultimately show ?thesis
    using t(1) one control_spends response_spends spends_refl
    by (cases "classify_dnp3_fc app_fc") (simp_all add: on_function_code_def)
qed

lemma application_spends:
  assumes "room (N + 2) (M + 2) af"
  shows "\<exists>af'. on_application c h unexpected app_fc app_ctrl af = Some af' \<and> room N M af' \<and> unmoved af af' \<and>
    tally af' \<le> tally af + 1"
proof -
  obtain a f where af: "af = (a, f)" by force
  have fr: "flow_room (N + 2) f" and cr: "codes_room (M + 2) a" using assms by (simp_all add: af)
  let ?n = "case hm_get (df_fc_counts f) app_fc of Some n \<Rightarrow> n | None \<Rightarrow> 0"
  let ?m = "case hm_get (da_fn_code_counts a) app_fc of Some n \<Rightarrow> n | None \<Rightarrow> 0"
  let ?af1 = "(a\<lparr>da_fn_code_counts := hm_insert app_fc (?m + 1) (da_fn_code_counts a)\<rparr>,
    f\<lparr>df_fc_counts := hm_insert app_fc (?n + 1) (df_fc_counts f)\<rparr>)"
  have n: "add64 ?n 1 = Some (?n + 1)" "hm_ok (hm_insert app_fc (?n + 1) (df_fc_counts f))"
      "\<forall>(fc, k) \<in> set (hm_insert app_fc (?n + 1) (df_fc_counts f)). k + (N + 1) \<le> u64_max"
    using fr counts_room_insert [of "df_fc_counts f" "N + 1" ?n app_fc] by (auto simp: flow_room_def)
  have m: "add64 ?m 1 = Some (?m + 1)" "hm_ok (hm_insert app_fc (?m + 1) (da_fn_code_counts a))"
      "\<forall>(fc, k) \<in> set (hm_insert app_fc (?m + 1) (da_fn_code_counts a)). k + (M + 1) \<le> u64_max"
    using cr counts_room_insert [of "da_fn_code_counts a" "M + 1" ?m app_fc] by (auto simp: codes_room_def)
  have r1: "room (N + 1) (M + 1) ?af1" using n m fr cr by (auto simp: flow_room_def codes_room_def)
  define af2 where "af2 = (if app_fc = 0x14 \<or> app_fc = 0x15
      then detect_unsolicited_control c app_fc (dh_destination h) (dh_source h) ?af1 else ?af1)"
  have s2: "spends 0 ?af1 af2"
    using unsolicited_control_spends [of ?af1 c app_fc "dh_destination h" "dh_source h"] by (simp add: af2_def)
  obtain af' where f: "on_function_code c h unexpected app_fc app_ctrl af2 = Some af'" "spends 1 af2 af'"
    using function_code_spends [OF spends_room [OF s2 r1], of c h unexpected app_fc app_ctrl] by blast
  have s: "spends 1 ?af1 af'" by (rule spends_same [OF s2 f(2)])
  have "room N M af'" using s r1 unfolding spends_def by blast
  moreover have "unmoved af af'" using s unmoved_trans [of af ?af1 af'] by (simp add: af spends_def)
  moreover have "tally af' \<le> tally af + 1" using s by (simp add: af spends_def)
  moreover have "on_application c h unexpected app_fc app_ctrl af = Some af'"
    unfolding on_application_def af Let_def prod.case n(1) m(1) bind.bind_lunit af2_def [symmetric] by (rule f(1))
  ultimately show ?thesis by blast
qed

lemma track_master_spends: "spends 0 af (track_master h af)"
  by (cases af) (auto simp: track_master_def spends_def flow_room_def codes_room_def)

lemma frame_spends:
  assumes "room (N + 3) (M + 3) af"
  shows "\<exists>af'. on_frame c h frame af = Some af' \<and> room N M af' \<and> unmoved af af' \<and> tally af' \<le> tally af + 2"
proof -
  obtain a f where af: "af = (a, f)" by force
  let ?f1 = "f\<lparr>df_frame_count := sat_add64 (df_frame_count f) 1\<rparr>"
  let ?af2 = "track_master h (a, ?f1)"
  have "sat_add64 (df_frame_count f) 1 \<le> df_frame_count f + 1" by (simp add: sat_add64_def)
  then have "spends 1 af (a, ?f1)" by (auto simp: af spends_def flow_room_def codes_room_def)
  from spends_trans [OF this track_master_spends] have s: "spends 1 af ?af2" by simp
  have r: "room (N + 2) (M + 2) ?af2"
  proof -
    have "room (N + 2 + 1) (M + 2 + 1) af" using assms unfolding add.assoc one_plus_numeral numeral_plus_one by simp
    with s show ?thesis unfolding spends_def by blast
  qed
  let ?ok = "\<lambda>r. \<exists>af'. r = Some af' \<and> room N M af' \<and> unmoved af af' \<and> tally af' \<le> tally af + 2"
  have "?ok (on_application c h u fc ctrl ?af2)" for u fc ctrl
    using application_spends [OF r, of c h u fc ctrl] s unmoved_trans [of af ?af2] by (fastforce simp: spends_def)
  moreover have "?ok (Some ?af2)" using s room_mono [OF r] by (simp add: spends_def)
  ultimately have "?ok (if b then on_application c h u fc ctrl ?af2 else Some ?af2)" for b u fc ctrl by (cases b) simp_all
  then show ?thesis unfolding on_frame_def af Let_def prod.case by (simp only: af)
qed

section \<open>The walk\<close>

definition walked :: "nat \<Rightarrow> nat \<Rightarrow> bytes \<Rightarrow> dnp3_state \<Rightarrow> dnp3_state \<times> bytes \<Rightarrow> bool" where
  "walked N M carry af r \<longleftrightarrow>
     (let (af', carry') = r in
      room (N + length carry') (M + length carry') af' \<and> unmoved af af' \<and>
      tally af' + length carry' \<le> tally af + length carry \<and> length carry' < max_dnp3_frame_len)"

lemma walked_step:
  assumes "walked N M carry1 af1 r" and "unmoved af af1" and "tally af1 + length carry1 \<le> tally af + length carry"
  shows "walked N M carry af r"
  using assms unmoved_trans [of af af1] by (auto simp: walked_def split: prod.splits)

lemma unmoved_refl [simp]: "unmoved af af"
  by (cases af) simp

lemma malformed_step:
  assumes "room (N + length carry) (M + length carry) af" and "length carry1 < length carry"
  shows "room (N + length carry1) (M + length carry1) (note_malformed c af)" and "unmoved af (note_malformed c af)"
    and "tally (note_malformed c af) + length carry1 \<le> tally af + length carry"
proof -
  obtain d where d: "length carry = length carry1 + 1 + d" using assms(2) less_iff_Suc_add by auto
  have "room (N + length carry1 + d + 1) (M + length carry1 + d + 1) af" using assms(1) by (simp add: d ac_simps)
  then have "room (N + length carry1 + d) (M + length carry1 + d) (note_malformed c af)"
    using note_malformed_spends [of af c] unfolding spends_def by blast
  then show "room (N + length carry1) (M + length carry1) (note_malformed c af)" by (rule room_mono)
  show "unmoved af (note_malformed c af)" "tally (note_malformed c af) + length carry1 \<le> tally af + length carry"
    using note_malformed_spends [of af c] d by (simp_all add: spends_def)
qed

lemma settle_walked:
  assumes "room (N + length carry) (M + length carry) af" and "length carry < 10"
  shows "walked N M carry af (settle c did carry af)"
proof (cases "2 \<le> length carry \<and> (\<not> in_sync carry \<or> did \<and> 3 \<le> length carry \<and> compute_dnp3_frame_len (carry ! 2) = None)")
  case True
  then have "length (tl carry) < length carry" by (cases carry) auto
  then have l: "length (drop_to_sync (tl carry)) < length carry" using drop_to_sync_shorter [of "tl carry"] by (rule le_less_trans [rotated])
  have "settle c did carry af = (note_malformed c af, drop_to_sync (tl carry))" using True by (auto simp: settle_def)
  with malformed_step [OF assms(1) l, of c] l assms(2) show ?thesis by (simp add: walked_def max_dnp3_frame_len_def)
next
  case False
  then have "settle c did carry af = (af, carry)" by (auto simp: settle_def)
  with assms show ?thesis by (simp add: walked_def max_dnp3_frame_len_def)
qed

text \<open>The four ways the walk can go on. A frame that has its length has a valid header, so the
  two branches that reject a complete frame are never taken.\<close>

lemma dnp3_walk_cases:
  obtains (short) "length carry < 10" "dnp3_walk c did carry af = Some (settle c did carry af)"
  | (junk) "length (drop_to_sync (tl carry)) < length carry" "10 \<le> length carry"
      "dnp3_walk c did carry af = dnp3_walk c True (drop_to_sync (tl carry)) (note_malformed c af)"
  | (partial) "length carry < 292" "dnp3_walk c did carry af = Some (af, carry)"
  | (frame) n h where "10 \<le> n" "n \<le> length carry" "parse_dnp3_dl_header (take n carry) = Some h"
      "dnp3_walk c did carry af = do { af' \<leftarrow> on_frame c h (take n carry) af; dnp3_walk c True (drop n carry) af' }"
proof (cases "length carry < 10")
  case True
  then show ?thesis using short by (simp add: dnp3_walk.simps [of c did carry])
next
  case ten: False
  note rs = resync_shorter [OF ten]
  show ?thesis
  proof (cases "in_sync carry \<and> compute_dnp3_frame_len (carry ! 2) \<noteq> None")
    case False
    then have "dnp3_walk c did carry af = dnp3_walk c True (drop_to_sync (tl carry)) (note_malformed c af)"
      using ten by (auto simp: dnp3_walk.simps [of c did carry])
    with junk [OF rs] ten show ?thesis by simp
  next
    case True
    then obtain n where n: "compute_dnp3_frame_len (carry ! 2) = Some n" and sync: "in_sync carry" by auto
    note b = frame_len_bounds [OF n]
    have five: "5 \<le> carry ! 2" using n by (simp add: compute_dnp3_frame_len_def not_less split: if_splits)
    show ?thesis
    proof (cases "length carry < n")
      case True
      then show ?thesis using partial b n sync ten by (simp add: dnp3_walk.simps [of c did carry])
    next
      case False
      then obtain h where h: "parse_dnp3_dl_header (take n carry) = Some h" "is_valid_dnp3_frame_header h"
        using b five sync ten by (simp add: parse_dnp3_dl_header_def is_valid_dnp3_frame_header_def in_sync_def)
      then have "dnp3_walk c did carry af = do { af' \<leftarrow> on_frame c h (take n carry) af; dnp3_walk c True (drop n carry) af' }"
        using False n sync ten by (simp add: dnp3_walk.simps [of c did carry] split: option.split)
      with frame b(1) False h(1) show ?thesis by simp
    qed
  qed
qed

lemma walk_walked:
  assumes "room (N + length carry) (M + length carry) af"
  shows "\<exists>r. dnp3_walk c did carry af = Some r \<and> walked N M carry af r"
  using assms
proof (induction "length carry" arbitrary: carry did af rule: less_induct)
  case less
  show ?case
  proof (cases rule: dnp3_walk_cases [of carry c did af])
    case short
    then show ?thesis using settle_walked [OF less.prems] by simp
  next
    case junk
    note m = malformed_step [OF less.prems junk(1), of c]
    then show ?thesis using less.hyps [OF junk(1) m(1), of True] walked_step [OF _ m(2,3)] junk(3) by auto
  next
    case partial
    then show ?thesis using less.prems by (simp add: walked_def max_dnp3_frame_len_def)
  next
    case (frame n h)
    have l: "length (drop n carry) < length carry" and e: "k + length (drop n carry) + (n - 3) + 3 = k + length carry" for k
      using frame(1,2) by auto
    have "room (N + length (drop n carry) + (n - 3) + 3) (M + length (drop n carry) + (n - 3) + 3) af"
      unfolding e by (rule less.prems)
    from frame_spends [OF this, of c h "take n carry"] obtain af'
      where f: "on_frame c h (take n carry) af = Some af'" "unmoved af af'" "tally af' \<le> tally af + 2"
        and r: "room (N + length (drop n carry) + (n - 3)) (M + length (drop n carry) + (n - 3)) af'" by blast
    have "tally af' + length (drop n carry) \<le> tally af + length carry" using f(3) frame(1,2) by simp
    moreover obtain r where w: "dnp3_walk c True (drop n carry) af' = Some r" "walked N M (drop n carry) af' r"
      using less.hyps [OF l room_mono [OF r]] by blast
    ultimately have "walked N M carry af r" using walked_step [OF w(2) f(2)] by blast
    then show ?thesis by (simp add: frame(4) f(1) w(1))
  qed
qed

section \<open>Deliveries\<close>

lemma accumulate_steps:
  assumes "room (N + length carry + length data) (M + length carry + length data) af" and "length carry \<le> max_dnp3_frame_len"
  shows "\<exists>af' carry'. accumulate c carry data af = Some (af', carry') \<and> room (N + length carry') (M + length carry') af' \<and>
    unmoved af af' \<and> tally af' + length carry' \<le> tally af + length carry + length data"
proof (cases "length data > max_dnp3_frame_len - length carry")
  case True
  let ?carry = "drop_to_sync (carry @ take (max_dnp3_frame_len - length carry) data)"
  have "length ?carry \<le> length (carry @ take (max_dnp3_frame_len - length carry) data)" by (rule drop_to_sync_shorter)
  also have "\<dots> < length (carry @ data)" using True by simp
  finally have l: "length ?carry < length (carry @ data)" .
  have "room (N + length (carry @ data)) (M + length (carry @ data)) af" using assms(1) by (simp add: add.assoc)
  from malformed_step [OF this l, of c] True assms(2) show ?thesis
    by (simp add: accumulate_def sub64_def)
next
  case False
  then show ?thesis using assms by (simp add: accumulate_def sub64_def add.assoc)
qed

fun other_carry :: "direction \<Rightarrow> dnp3_flow_state \<Rightarrow> bytes" where
  "other_carry ClientToServer f = df_carry_s2c f"
| "other_carry ServerToClient f = df_carry_c2s f"

text \<open>The bytes a flow still has to be analyzed, and the state that budgets for them.\<close>

definition load :: "dnp3_flow_state \<Rightarrow> nat" where
  "load f = length (df_carry_c2s f) + length (df_carry_s2c f)"

definition dnp3_flow_ok :: "nat \<Rightarrow> dnp3_flow_state \<Rightarrow> bool" where
  "dnp3_flow_ok n f \<longleftrightarrow>
     length (df_carry_c2s f) < max_dnp3_frame_len \<and> length (df_carry_s2c f) < max_dnp3_frame_len \<and> flow_room (load f + n) f"

definition work :: "dnp3_flow_state \<Rightarrow> nat" where
  "work f = df_frame_count f + df_parse_errors f + load f"

definition dnp3_ok :: "nat \<Rightarrow> dnp3_analyzer \<Rightarrow> bool" where
  "dnp3_ok n a \<longleftrightarrow>
     hm_ok (da_flows a) \<and> (\<forall>(k, f) \<in> set (da_flows a). dnp3_flow_ok n f) \<and>
     codes_room (weight load (da_flows a) + n) a \<and> weight work (da_flows a) + n \<le> u64_max"

lemma load_carry: "load f = length (dnp3_carry dir f) + length (other_carry dir f)"
  by (cases dir) (simp_all add: load_def)

lemma load_set_carry: "load (set_dnp3_carry dir bs f) = length bs + length (other_carry dir f)"
  by (cases dir) (simp_all add: load_def)

lemma flow_room_set_carry [simp]: "flow_room N (set_dnp3_carry dir bs f) = flow_room N f"
  by (cases dir) (simp_all add: flow_room_def)

lemma tally_set_carry [simp]:
  "df_frame_count (set_dnp3_carry dir bs f) = df_frame_count f" "df_parse_errors (set_dnp3_carry dir bs f) = df_parse_errors f"
  by (cases dir; simp)+

lemma codes_room_mono: "codes_room M a \<Longrightarrow> M' \<le> M \<Longrightarrow> codes_room M' a"
  unfolding codes_room_def by fastforce

lemma flow_room_mono: "flow_room N f \<Longrightarrow> N' \<le> N \<Longrightarrow> flow_room N' f"
  unfolding flow_room_def by fastforce

lemma codes_room_flows [simp]: "codes_room M (a\<lparr>da_flows := m\<rparr>) = codes_room M a"
  by (simp add: codes_room_def)

lemma dnp3_flow_ok_mono: "dnp3_flow_ok n f \<Longrightarrow> n' \<le> n \<Longrightarrow> dnp3_flow_ok n' f"
  using flow_room_mono [of "load f + n" f "load f + n'"] by (simp add: dnp3_flow_ok_def)

lemma dnp3_ok_mono: "dnp3_ok n a \<Longrightarrow> n' \<le> n \<Longrightarrow> dnp3_ok n' a"
  using codes_room_mono [of "weight load (da_flows a) + n" a "weight load (da_flows a) + n'"]
  by (auto simp: dnp3_ok_def intro: dnp3_flow_ok_mono)

text \<open>The state of a flow out of the table, and back.\<close>

definition dnp3_flow_of :: "dnp3_analyzer \<Rightarrow> flow_key \<Rightarrow> dnp3_flow_state" where
  "dnp3_flow_of a key = (case hm_get (da_flows a) key of Some f \<Rightarrow> f | None \<Rightarrow> dnp3_flow_state_default)"

lemma default_weightless [simp]: "load dnp3_flow_state_default = 0" "work dnp3_flow_state_default = 0"
  by (simp_all add: load_def work_def dnp3_flow_state_default_def)

lemma weight_out:
  assumes "hm_ok (da_flows a)" and "w dnp3_flow_state_default = 0"
  shows "weight w (hm_insert key g (da_flows a)) + w (dnp3_flow_of a key) = weight w (da_flows a) + w g"
  using hmap.weight_put [OF assms(1), of w key g] assms(2) by (auto simp: dnp3_flow_of_def split: option.splits)

lemma dnp3_flow_of_ok:
  assumes "dnp3_ok n a"
  shows "dnp3_flow_ok n (dnp3_flow_of a key)"
proof (cases "hm_get (da_flows a) key")
  case None
  have "n \<le> u64_max" using assms by (simp add: dnp3_ok_def)
  with None show ?thesis
    by (simp add: dnp3_flow_of_def dnp3_flow_ok_def dnp3_flow_state_default_def flow_room_def load_def
        max_dnp3_frame_len_def max_pending_requests_def max_master_addrs_def)
next
  case (Some f)
  then have "(key, f) \<in> set (da_flows a)" using assms hmap.get_iff [of "da_flows a" key f] by (simp add: dnp3_ok_def)
  then show ?thesis using assms Some by (auto simp: dnp3_ok_def dnp3_flow_of_def)
qed

lemma dnp3_put_ok:
  assumes "dnp3_ok m a" and "n \<le> m" and "da_flows a' = da_flows a" and "dnp3_flow_ok n g"
    and "\<And>W. W + load (dnp3_flow_of a key) = weight load (da_flows a) \<Longrightarrow> codes_room (W + load g + n) a'"
    and "work g + n \<le> work (dnp3_flow_of a key) + m"
  shows "dnp3_ok n (a'\<lparr>da_flows := hm_insert key g (da_flows a')\<rparr>)"
proof -
  let ?f = "dnp3_flow_of a key"
  have ok: "hm_ok (da_flows a)" using assms(1) by (simp add: dnp3_ok_def)
  note l = weight_out [where w = load and key = key and g = g, OF ok default_weightless(1)]
  note w = weight_out [where w = work and key = key and g = g, OF ok default_weightless(2)]
  have "load ?f \<le> weight load (da_flows a)"
    by (auto simp: dnp3_flow_of_def hmap.get_iff [OF ok] weight_ge split: option.splits)
  then have "weight load (da_flows a) - load ?f + load g = weight load (hm_insert key g (da_flows a))"
    "weight load (da_flows a) - load ?f + load ?f = weight load (da_flows a)" using l by linarith+
  with assms(5) [of "weight load (da_flows a) - load ?f"]
  have "codes_room (weight load (hm_insert key g (da_flows a)) + n) a'" by metis
  moreover have "weight work (hm_insert key g (da_flows a)) + n \<le> u64_max" using assms(1,6) w by (simp add: dnp3_ok_def)
  moreover have "dnp3_flow_ok n f" if "(k, f) \<in> set (hm_insert key g (da_flows a))" for k f
    using that assms(1,2,4) dnp3_flow_ok_mono by (auto simp: hmap.set_put [OF ok] dnp3_ok_def)
  ultimately show ?thesis using assms(3) hm_ok_insert [OF ok, of key g] by (auto simp: dnp3_ok_def)
qed

lemma carry_bounds:
  "length (df_carry_c2s f) < n \<and> length (df_carry_s2c f) < n \<longleftrightarrow> length (dnp3_carry dir f) < n \<and> length (other_carry dir f) < n"
  by (cases dir) auto

lemma set_carry_other [simp]: "dnp3_carry dir (set_dnp3_carry dir bs f) = bs" "other_carry dir (set_dnp3_carry dir bs f) = other_carry dir f"
  by (cases dir; simp)+

lemma unmoved_other: "unmoved (a, f) (a', f') \<Longrightarrow> other_carry dir f' = other_carry dir f \<and> dnp3_carry dir f' = dnp3_carry dir f"
  by (cases dir) simp_all

text \<open>What a delivery does to the state it takes out of the table.\<close>

lemma delivery_walks:
  assumes r0: "room (N + length carry + length data) (M + length carry + length data) (a, f)" and "length carry < max_dnp3_frame_len"
  shows "\<exists>a' f' carry'. do { af1 \<leftarrow> scan_block_timeouts c (a, maybe_expire_correlation_window ts f);
      (af2, carry2) \<leftarrow> accumulate c carry data af1; dnp3_walk c False carry2 af2 } = Some ((a', f'), carry') \<and>
    room (N + length carry') (M + length carry') (a', f') \<and> unmoved (a, f) (a', f') \<and> length carry' < max_dnp3_frame_len \<and>
    tally (a', f') + length carry' \<le> tally (a, f) + length carry + length data"
proof -
  have e: "spends 0 (a, f) (a, maybe_expire_correlation_window ts f)" by (rule expire_spends)
  from scan_spends [OF spends_room [OF e r0], of c] obtain af1
    where s: "scan_block_timeouts c (a, maybe_expire_correlation_window ts f) = Some af1"
      and "spends 0 (a, maybe_expire_correlation_window ts f) af1" by blast
  then have s1: "spends 0 (a, f) af1" using e spends_same by blast
  obtain af2 carry2 where ac: "accumulate c carry data af1 = Some (af2, carry2)"
      "room (N + length carry2) (M + length carry2) af2" "unmoved af1 af2"
      "tally af2 + length carry2 \<le> tally af1 + length carry + length data"
    using accumulate_steps [OF spends_room [OF s1 r0] less_imp_le [OF assms(2)], of c] by blast
  obtain a' f' carry' where w: "dnp3_walk c False carry2 af2 = Some ((a', f'), carry')"
      and wd: "walked N M carry2 af2 ((a', f'), carry')"
    using walk_walked [OF ac(2), of c False] by (metis surj_pair)
  have "unmoved (a, f) (a', f')"
  proof (rule unmoved_trans [OF unmoved_trans])
    show "unmoved (a, f) af1" using s1 unfolding spends_def by blast
    show "unmoved af2 (a', f')" using wd unfolding walked_def by simp
  qed (rule ac(3))
  moreover have "tally (a', f') + length carry' \<le> tally (a, f) + length carry + length data"
    using s1 ac(4) wd by (simp add: spends_def walked_def)
  ultimately show ?thesis using s ac(1) w wd by (simp add: walked_def)
qed

lemma dnp3_delivery_ok:
  assumes a: "dnp3_ok (n + length data) a" and "\<not> df_is_non_dnp3 (dnp3_flow_of a key)" and "\<not> desynced data (dnp3_flow_of a key)"
  shows "\<exists>a'. dnp3_on_data a key data ts dir = Some a' \<and> dnp3_ok n a'"
proof -
  let ?f = "dnp3_flow_of a key" and ?c = "\<lparr>dc_key = key, dc_direction = dir, dc_now = ts\<rparr>"
  let ?o = "length (other_carry dir ?f)" and ?k = "length (dnp3_carry dir ?f)"
  have fo: "dnp3_flow_ok (n + length data) ?f" by (rule dnp3_flow_of_ok [OF a])
  define W where "W = weight load (da_flows a) - load ?f"
  have W: "W + load ?f = weight load (da_flows a)"
    using a hmap.get_iff [of "da_flows a" key] by (auto simp: W_def dnp3_ok_def dnp3_flow_of_def weight_ge split: option.splits)
  have "codes_room (W + load ?f + (n + length data)) a" using a W by (simp add: dnp3_ok_def)
  then have r0: "room (?o + n + ?k + length data) (W + ?o + n + ?k + length data) (a, ?f)"
    using fo by (simp add: dnp3_flow_ok_def load_carry [of ?f dir] ac_simps)
  have "?k < max_dnp3_frame_len" using fo carry_bounds [of ?f max_dnp3_frame_len dir] by (simp add: dnp3_flow_ok_def)
  from delivery_walks [OF r0 this, of ?c ts] obtain a3 f3 carry'
    where run: "do { af1 \<leftarrow> scan_block_timeouts ?c (a, maybe_expire_correlation_window ts ?f);
          (af2, carry2) \<leftarrow> accumulate ?c (dnp3_carry dir ?f) data af1; dnp3_walk ?c False carry2 af2 } = Some ((a3, f3), carry')"
      and wd: "room (?o + n + length carry') (W + ?o + n + length carry') (a3, f3)" "length carry' < max_dnp3_frame_len"
      and u: "unmoved (a, ?f) (a3, f3)" and t: "tally (a3, f3) + length carry' \<le> tally (a, ?f) + ?k + length data" by blast
  let ?g = "set_dnp3_carry dir carry' f3"
  have "dnp3_ok n (a3\<lparr>da_flows := hm_insert key ?g (da_flows a3)\<rparr>)"
  proof (rule dnp3_put_ok [OF a])
    show "dnp3_flow_ok n ?g"
      using wd fo unmoved_other [OF u, of dir] carry_bounds [of ?f max_dnp3_frame_len dir] carry_bounds [of ?g max_dnp3_frame_len dir]
      by (simp add: dnp3_flow_ok_def load_set_carry ac_simps)
    show "codes_room (V + load ?g + n) a3" if "V + load ?f = weight load (da_flows a)" for V
    proof -
      have "V = W" using W that by simp
      then show ?thesis using wd unmoved_other [OF u, of dir] by (simp add: load_set_carry ac_simps)
    qed
    show "work ?g + n \<le> work ?f + (n + length data)"
      using t unmoved_other [OF u, of dir] by (simp add: work_def load_set_carry load_carry [of ?f dir])
  qed (use u in simp_all)
  with run assms(2,3) show ?thesis
    by (simp add: dnp3_on_data_def Let_def bind_eq_Some_conv case_prod_unfold flip: dnp3_flow_of_def) fastforce
qed

lemma dnp3_on_data_ok:
  assumes "dnp3_ok (n + length data) a"
  shows "\<exists>a'. dnp3_on_data a key data ts dir = Some a' \<and> dnp3_ok n a'"
proof -
  let ?f = "dnp3_flow_of a key"
  have fo: "dnp3_flow_ok (n + length data) ?f" by (rule dnp3_flow_of_ok [OF assms])
  have put: "dnp3_ok n (a\<lparr>da_flows := hm_insert key g (da_flows a)\<rparr>)" if "g = ?f \<or> g = ?f\<lparr>df_is_non_dnp3 := True\<rparr>" for g
  proof (rule dnp3_put_ok [OF assms])
    show "dnp3_flow_ok n g" using that dnp3_flow_ok_mono [OF fo, of n] by (auto simp: dnp3_flow_ok_def flow_room_def load_def)
    show "codes_room (W + load g + n) a" if "W + load ?f = weight load (da_flows a)" for W
    proof -
      have "codes_room (W + load ?f + (n + length data)) a" using assms that by (simp add: dnp3_ok_def)
      then show ?thesis by (rule codes_room_mono) (use \<open>g = ?f \<or> _\<close> in \<open>auto simp: load_def\<close>)
    qed
    show "work g + n \<le> work ?f + (n + length data)" using that by (auto simp: work_def load_def)
  qed simp_all
  show ?thesis
  proof (cases "df_is_non_dnp3 ?f \<or> desynced data ?f")
    case True
    then show ?thesis using put by (auto simp: dnp3_on_data_def Let_def simp flip: dnp3_flow_of_def)
  next
    case False
    then show ?thesis using dnp3_delivery_ok [OF assms] by blast
  qed
qed

lemma dnp3_on_flow_close_ok: "dnp3_ok n a \<Longrightarrow> dnp3_ok n (dnp3_on_flow_close a key)"
proof (cases "hm_get (da_flows a) key")
  case (Some f)
  assume a: "dnp3_ok n a"
  then have ok: "hm_ok (da_flows a)" by (simp add: dnp3_ok_def)
  have "weight w (hm_remove key (da_flows a)) \<le> weight w (da_flows a)" for w
    using hmap.weight_remove [OF ok, of w key] by simp
  from this [of load] this [of work] have "weight load (hm_remove key (da_flows a)) + n \<le> weight load (da_flows a) + n"
    "weight work (hm_remove key (da_flows a)) + n \<le> u64_max" using a by (auto simp: dnp3_ok_def)
  with a codes_room_mono [of "weight load (da_flows a) + n" a] show ?thesis
    by (auto simp: dnp3_on_flow_close_def Some dnp3_ok_def codes_room_def hmap.set_remove [OF ok] hm_ok_remove)
qed (simp add: dnp3_on_flow_close_def)

interpretation dnp3: stream_client dnp3_handler dnp3_ok
proof
  fix n h key dir off ts and data :: bytes
  assume "dnp3_ok (n + length data) h"
  then show "\<exists>h'. on_data dnp3_handler h key dir data off ts = Some h' \<and> dnp3_ok n h'"
    using dnp3_on_data_ok by (simp add: dnp3_handler_def)
next
  fix n h key reason
  assume "dnp3_ok n h"
  then show "\<exists>h'. on_flow_close dnp3_handler h key reason = Some h' \<and> dnp3_ok n h'"
    by (simp add: dnp3_handler_def dnp3_on_flow_close_ok)
qed (auto intro: dnp3_ok_mono)

lemma dnp3_new_ok: "n \<le> u64_max \<Longrightarrow> dnp3_ok n (dnp3_analyzer_new seed threshold)"
  by (simp add: dnp3_ok_def dnp3_analyzer_new_def codes_room_def dnp3_max_findings_def)

section \<open>What stays\<close>

text \<open>Without the invariant: whatever returns has left the table of flows alone.\<close>

lemma spends_unmoved: "spends k af af' \<Longrightarrow> unmoved af af'"
  by (simp add: spends_def)

lemma t0827_unmoved: "maybe_emit_t0827 c dest af = Some af' \<Longrightarrow> unmoved af af'"
  by (cases af) (auto simp: maybe_emit_t0827_def bind_eq_Some_conv dnp3_push_def split: if_splits)

lemma function_code_unmoved: "on_function_code c h u fc ctrl af = Some af' \<Longrightarrow> unmoved af af'"
  using spends_unmoved [OF write_spends, of "fst af" "snd af" c "dh_destination h" "dh_source h"]
  by (cases "classify_dnp3_fc fc")
    (auto simp: on_function_code_def Let_def apfst_def map_prod_def case_prod_unfold simp del: unmoved.simps
      intro: spends_unmoved [OF control_spends] spends_unmoved [OF response_spends]
        unmoved_trans [OF spends_unmoved [OF restart_spends] t0827_unmoved])

lemma application_unmoved:
  assumes "on_application c h u fc ctrl af = Some af'"
  shows "unmoved af af'"
proof -
  obtain a f where af: "af = (a, f)" by force
  let ?af1 = "\<lambda>n m. (a\<lparr>da_fn_code_counts := m\<rparr>, f\<lparr>df_fc_counts := n\<rparr>)"
  let ?af2 = "\<lambda>n m. if fc = 0x14 \<or> fc = 0x15 then detect_unsolicited_control c fc (dh_destination h) (dh_source h) (?af1 n m) else ?af1 n m"
  have s: "unmoved af (?af2 n m)" for n m
    using unmoved_trans [OF _ spends_unmoved [OF unsolicited_control_spends], of af "?af1 n m"] by (simp add: af)
  obtain n m where "on_function_code c h u fc ctrl (?af2 n m) = Some af'"
    using assms unfolding on_application_def af Let_def prod.case bind_eq_Some_conv by blast
  from unmoved_trans [OF s function_code_unmoved [OF this]] show ?thesis .
qed

lemma frame_unmoved:
  assumes "on_frame c h fr af = Some af'"
  shows "unmoved af af'"
proof -
  obtain a f where af: "af = (a, f)" by force
  have t: "unmoved af (track_master h (a, f\<lparr>df_frame_count := n\<rparr>))" for n
    using unmoved_trans [OF _ spends_unmoved [OF track_master_spends], of af "(a, f\<lparr>df_frame_count := n\<rparr>)"] by (simp add: af)
  show ?thesis
    using assms t unmoved_trans [OF t application_unmoved] unfolding on_frame_def af Let_def prod.case
    by (auto simp del: unmoved.simps split: if_splits)
qed

lemma walk_unmoved: "dnp3_walk c did carry af = Some (af', carry') \<Longrightarrow> unmoved af af'"
proof (induction "length carry" arbitrary: carry did af rule: less_induct)
  case less
  note m = spends_unmoved [OF note_malformed_spends, of af c]
  show ?case
  proof (cases rule: dnp3_walk_cases [of carry c did af])
    case short
    then show ?thesis using less.prems m by (auto simp: settle_def split: if_splits)
  next
    case junk
    then show ?thesis using less.hyps [OF junk(1)] less.prems unmoved_trans [OF m] by auto
  next
    case partial
    then show ?thesis using less.prems by simp
  next
    case (frame n h)
    with less.prems obtain af1 where "on_frame c h (take n carry) af = Some af1" "dnp3_walk c True (drop n carry) af1 = Some (af', carry')"
      by (auto simp: bind_eq_Some_conv)
    then show ?thesis using less.hyps [of "drop n carry" True af1] frame(1,2) unmoved_trans [OF frame_unmoved] by simp
  qed
qed

lemma t0827_flows: "maybe_emit_t0827 c d (a, f) = Some (a', f') \<Longrightarrow> da_flows a' = da_flows a"
  using t0827_unmoved by fastforce

lemma scan_unmoved: "scan_block_timeouts c (a, f) = Some (a', f') \<Longrightarrow> da_flows a' = da_flows a"
  by (auto simp: scan_block_timeouts_def Let_def dnp3_push_def dest!: t0827_flows split: prod.splits if_splits)

lemma dnp3_on_data_flows:
  assumes "dnp3_on_data a key data ts dir = Some a'"
  shows "\<exists>f. da_flows a' = hm_insert key f (da_flows a)"
proof (cases "df_is_non_dnp3 (dnp3_flow_of a key) \<or> desynced data (dnp3_flow_of a key)")
  case True
  then show ?thesis using assms by (auto simp: dnp3_on_data_def Let_def simp flip: dnp3_flow_of_def split: if_splits)
next
  case False
  let ?f = "dnp3_flow_of a key" and ?c = "\<lparr>dc_key = key, dc_direction = dir, dc_now = ts\<rparr>"
  from False assms obtain af1 af2 carry a3 f3 carry'
    where s: "scan_block_timeouts ?c (a, maybe_expire_correlation_window ts ?f) = Some af1"
      and ac: "accumulate ?c (dnp3_carry dir ?f) data af1 = Some (af2, carry)"
      and w: "dnp3_walk ?c False carry af2 = Some ((a3, f3), carry')"
      and a': "a' = a3\<lparr>da_flows := hm_insert key (set_dnp3_carry dir carry' f3) (da_flows a3)\<rparr>"
    by (auto simp: dnp3_on_data_def Let_def bind_eq_Some_conv simp flip: dnp3_flow_of_def)
  have "unmoved af1 af2"
    using ac spends_unmoved [OF note_malformed_spends, of af1 ?c] by (auto simp: accumulate_def bind_eq_Some_conv split: if_splits)
  from unmoved_trans [OF this walk_unmoved [OF w]] have "da_flows a3 = da_flows (fst af1)" by (cases af1) simp
  moreover have "da_flows (fst af1) = da_flows a" using s by (cases af1) (auto dest: scan_unmoved)
  ultimately show ?thesis using a' by auto
qed

end
