(* ===== verification/Dnp3_Props.thy ===== *)
theory Dnp3_Props
  imports Dnp3_Inv Engine_Props "HOL-Library.Sublist"
begin

text \<open>The properties of the DNP3 analyzer.\<close>

section \<open>Captures\<close>

lemma dnp3_summarize_total:
  assumes ok: "dnp3_ok n a'"
  shows "\<exists>s. dnp3_summarize a' = Some s"
proof -
  have "sum_list (map (\<lambda>(key, f). df_frame_count f) (da_flows a')) \<le> weight work (da_flows a')"
    "sum_list (map (\<lambda>(key, f). df_parse_errors f) (da_flows a')) \<le> weight work (da_flows a')"
    unfolding weight_def by (intro sum_list_mono; auto simp: work_def)+
  then have "sum64 (map (\<lambda>(key, f). df_frame_count f) (da_flows a')) \<noteq> None"
    "sum64 (map (\<lambda>(key, f). df_parse_errors f) (da_flows a')) \<noteq> None"
    using ok by (auto simp: sum64_eq dnp3_ok_def)
  then show ?thesis by (auto simp: dnp3_summarize_def Let_def)
qed

text \<open>The engine can drive the analyzer through any capture without a panic, the summary
  included. A carry stays below one maximal frame, a table of pending requests within 256
  entries, a list of masters within 64, and at most 10,000 findings are kept.\<close>

theorem dnp3_capture_bounded:
  assumes "config_ok c" and "capture_ok ps"
  shows "\<exists>r r' a' s. reassembler_new seed c = Some r \<and>
     process_packets dnp3_handler ps (r, dnp3_analyzer_new order threshold) = Some (r', a') \<and> dnp3_summarize a' = Some s \<and>
     length (da_all_findings a') \<le> 10000 \<and>
     (\<forall>(key, f) \<in> set (da_flows a'). length (df_carry_c2s f) < 292 \<and> length (df_carry_s2c f) < 292 \<and>
        length (df_pending_requests f) \<le> 256 \<and> length (df_master_addrs_seen f) \<le> 64)"
proof -
  have "dnp3_ok (capture_bytes ps) (dnp3_analyzer_new order threshold)" using assms(2) by (intro dnp3_new_ok) (simp add: capture_ok_def)
  from dnp3.capture_safe [OF assms this, where seed = seed] obtain r r' a' n
    where r: "reassembler_new seed c = Some r" "process_packets dnp3_handler ps (r, dnp3_analyzer_new order threshold) = Some (r', a')"
      and ok: "dnp3_ok n a'" by metis
  have "\<exists>s. dnp3_summarize a' = Some s" using dnp3_summarize_total [OF ok] .
  moreover have "\<forall>(key, f) \<in> set (da_flows a'). length (df_carry_c2s f) < 292 \<and> length (df_carry_s2c f) < 292 \<and>
      length (df_pending_requests f) \<le> 256 \<and> length (df_master_addrs_seen f) \<le> 64"
    using ok unfolding dnp3_ok_def dnp3_flow_ok_def flow_room_def max_dnp3_frame_len_def max_pending_requests_def max_master_addrs_def
    by auto
  moreover have "length (da_all_findings a') \<le> 10000" using ok by (simp add: dnp3_ok_def codes_room_def dnp3_max_findings_def)
  ultimately show ?thesis using r by blast
qed

theorem dnp3_capture_bounded_witness:
  "\<exists>r r' a' s. reassembler_new (\<lambda>_ _. 0) sample_config = Some r \<and>
     process_packets dnp3_handler sample_capture (r, dnp3_analyzer_new (\<lambda>_ _. 0) 10) = Some (r', a') \<and> dnp3_summarize a' = Some s"
  using dnp3_capture_bounded [OF sample_config_ok sample_capture_ok, of "\<lambda>_ _. 0" "\<lambda>_ _. 0" 10] by blast

section \<open>Framing\<close>

text \<open>A well-formed frame, and what is left of a stream when it is cut inside one.\<close>

definition dnp3_frame :: "bytes \<Rightarrow> bool" where
  "dnp3_frame fr \<longleftrightarrow> in_sync fr \<and> compute_dnp3_frame_len (fr ! 2) = Some (length fr)"

definition cut_frame :: "bytes \<Rightarrow> bool" where
  "cut_frame bs \<longleftrightarrow> (\<exists>fr. dnp3_frame fr \<and> strict_prefix bs fr)"

text \<open>The frames of a stream, processed one after the other.\<close>

definition frame_header :: "bytes \<Rightarrow> dnp3_dl_header" where
  "frame_header fr = the (parse_dnp3_dl_header fr)"

fun process_frames :: "dnp3_context \<Rightarrow> bytes list \<Rightarrow> dnp3_state \<Rightarrow> dnp3_state rust" where
  "process_frames c [] af = Some af"
| "process_frames c (fr # frs) af = do { af' \<leftarrow> on_frame c (frame_header fr) fr af; process_frames c frs af' }"

lemma frame_length:
  assumes "dnp3_frame fr"
  shows "10 \<le> length fr" and "length fr \<le> 292" and "fr ! 2 \<ge> 5"
  using assms frame_len_bounds [of "fr ! 2" "length fr"]
  by (auto simp: dnp3_frame_def compute_dnp3_frame_len_def Let_def not_less split: if_splits)

lemma frame_header_valid:
  assumes "dnp3_frame fr"
  shows "parse_dnp3_dl_header fr = Some (frame_header fr)" and "is_valid_dnp3_frame_header (frame_header fr)"
  using assms frame_length [OF assms]
  by (auto simp: frame_header_def parse_dnp3_dl_header_def is_valid_dnp3_frame_header_def dnp3_frame_def in_sync_def)

lemma frame_nth: "10 \<le> length fr \<Longrightarrow> in_sync (fr @ rest) = in_sync fr \<and> (fr @ rest) ! 2 = fr ! 2"
  by (auto simp: in_sync_def nth_append)

lemma walk_frame:
  assumes "dnp3_frame fr"
  shows "dnp3_walk c did (fr @ rest) af = do { af' \<leftarrow> on_frame c (frame_header fr) fr af; dnp3_walk c True rest af' }"
  using frame_length [OF assms] frame_header_valid [OF assms] frame_nth [of fr rest] assms
  by (subst dnp3_walk.simps) (auto simp: dnp3_frame_def split: option.splits)

lemma walk_cut:
  assumes "cut_frame pt"
  shows "dnp3_walk c did pt af = Some (af, pt)"
proof -
  obtain fr rest where fr: "dnp3_frame fr" "fr = pt @ rest" "rest \<noteq> []" using assms by (auto simp: cut_frame_def strict_prefix_def prefix_def)
  have n: "pt ! i = fr ! i" if "i < length pt" for i using fr(2) that by (simp add: nth_append)
  have s: "in_sync pt" if "2 \<le> length pt"
  proof -
    have "pt ! 0 = fr ! 0" "pt ! 1 = fr ! 1" using that by (intro n; linarith)+
    then show ?thesis using fr(1) by (simp add: dnp3_frame_def in_sync_def)
  qed
  have l: "compute_dnp3_frame_len (pt ! 2) = Some (length fr)" if "3 \<le> length pt" using fr(1) n [of 2] that by (simp add: dnp3_frame_def)
  have "length pt < length fr" using fr(2,3) by simp
  then show ?thesis using s l by (subst dnp3_walk.simps) (auto simp: settle_def)
qed

lemma walk_frames:
  assumes "\<forall>fr \<in> set frs. dnp3_frame fr" and "cut_frame pt"
  shows "dnp3_walk c did (concat frs @ pt) af = map_option (\<lambda>af'. (af', pt)) (process_frames c frs af)"
  using assms(1)
proof (induction frs arbitrary: did af)
  case (Cons fr frs)
  then have "dnp3_frame fr" by simp
  then show ?case using Cons by (cases "on_frame c (frame_header fr) fr af") (simp_all add: walk_frame)
qed (simp add: walk_cut [OF assms(2)])

text \<open>Where a stream of frames is cut, the first part is a stream of frames too.\<close>

lemma cut_stream:
  assumes "\<forall>fr \<in> set frs. dnp3_frame fr" and "cut_frame pt" and "xs @ ys = concat frs @ pt"
  shows "\<exists>gs hs qt. frs = gs @ hs \<and> xs = concat gs @ qt \<and> cut_frame qt \<and> qt @ ys = concat hs @ pt"
  using assms(1,3)
proof (induction frs arbitrary: xs)
  case Nil
  then have "prefix xs pt" by (auto simp: prefix_def)
  then have "cut_frame xs" using assms(2) prefix_order.le_less_trans by (auto simp: cut_frame_def)
  then show ?case using Nil by auto
next
  case (Cons fr frs)
  have fr: "dnp3_frame fr" using Cons.prems(1) by simp
  from Cons.prems(2) have "xs @ ys = fr @ (concat frs @ pt)" by simp
  then consider us where "xs = fr @ us" "us @ ys = concat frs @ pt" | us where "fr = xs @ us" "us \<noteq> []" "ys = us @ concat frs @ pt"
    by (fastforce simp: append_eq_append_conv2)
  then show ?case
  proof cases
    case (1 us)
    with Cons.IH [of us] Cons.prems(1) obtain gs hs qt
      where "frs = gs @ hs" "us = concat gs @ qt" "cut_frame qt" "qt @ ys = concat hs @ pt" by auto
    with 1 show ?thesis by (intro exI [of _ "fr # gs"] exI [of _ hs] exI [of _ qt]) simp
  next
    case (2 us)
    then have "cut_frame xs" using fr by (auto simp: cut_frame_def strict_prefix_def)
    with 2 show ?thesis by (intro exI [of _ "[]"] exI [of _ "fr # frs"] exI [of _ xs]) simp
  qed
qed

lemma process_frames_append: "process_frames c (gs @ hs) af = do { af' \<leftarrow> process_frames c gs af; process_frames c hs af' }"
proof (induction gs arbitrary: af)
  case (Cons fr gs)
  then show ?case by (cases "on_frame c (frame_header fr) fr af") simp_all
qed simp

text \<open>C16. On a stream of well-formed frames the walk processes exactly its frames, in order, each
  with its own bytes, and keeps the bytes of a frame that is cut at the end. The stream may be
  cut anywhere: walking a first part and then what it kept followed by the second part gives
  the same state and the same rest as walking the whole.\<close>

theorem dnp3_framing_exact:
  assumes "\<forall>fr \<in> set frs. dnp3_frame fr" and "cut_frame pt" and "xs @ ys = concat frs @ pt"
  shows "dnp3_walk c did (xs @ ys) af = map_option (\<lambda>af'. (af', pt)) (process_frames c frs af) \<and>
    do { (af', rest) \<leftarrow> dnp3_walk c did xs af; dnp3_walk c did' (rest @ ys) af' } = dnp3_walk c did (xs @ ys) af"
proof -
  obtain gs hs qt where g: "frs = gs @ hs" "xs = concat gs @ qt" "cut_frame qt" "qt @ ys = concat hs @ pt"
    using cut_stream [OF assms] by blast
  have w: "\<forall>fr \<in> set gs. dnp3_frame fr" "\<forall>fr \<in> set hs. dnp3_frame fr" using assms(1) g(1) by auto
  have whole: "dnp3_walk c did (xs @ ys) af = map_option (\<lambda>af'. (af', pt)) (process_frames c frs af)"
    unfolding assms(3) by (rule walk_frames [OF assms(1,2)])
  then show ?thesis
    using walk_frames [OF w(1) g(3), of c did af] walk_frames [OF w(2) assms(2), of c did'] g(4)
    by (cases "process_frames c gs af") (simp_all add: g(1) process_frames_append flip: g(2))
qed

definition sample_dnp3_frame :: bytes where
  "sample_dnp3_frame = [0x05, 0x64, 8, 0xC4, 1, 0, 2, 0, 0xAA, 0xBB, 0xC0, 0xC0, 1, 0xCC, 0xDD]"

lemma sample_dnp3_frame_ok: "dnp3_frame sample_dnp3_frame"
  by (simp add: dnp3_frame_def sample_dnp3_frame_def in_sync_def compute_dnp3_frame_len_def)

lemma empty_cut: "cut_frame []"
  using sample_dnp3_frame_ok by (auto simp: cut_frame_def strict_prefix_def sample_dnp3_frame_def)

definition sample_context :: dnp3_context where
  "sample_context = \<lparr>dc_key = flow_key_new (V4 1) 40000 (V4 2) 20000, dc_direction = ClientToServer, dc_now = 7\<rparr>"

theorem dnp3_framing_exact_witness:
  "\<exists>af. dnp3_walk sample_context False (take 7 sample_dnp3_frame) (dnp3_analyzer_new (\<lambda>_ _. 0) 10, dnp3_flow_state_default) =
       Some ((dnp3_analyzer_new (\<lambda>_ _. 0) 10, dnp3_flow_state_default), take 7 sample_dnp3_frame) \<and>
     dnp3_walk sample_context False (take 7 sample_dnp3_frame @ drop 7 sample_dnp3_frame)
       (dnp3_analyzer_new (\<lambda>_ _. 0) 10, dnp3_flow_state_default) = Some (af, []) \<and> df_frame_count (snd af) = 1"
proof -
  let ?af = "(dnp3_analyzer_new (\<lambda>_ _. 0) 10, dnp3_flow_state_default)"
  have c: "cut_frame (take 7 sample_dnp3_frame)"
    using sample_dnp3_frame_ok by (auto simp: cut_frame_def strict_prefix_def take_is_prefix sample_dnp3_frame_def)
  have "map_option (\<lambda>af. df_frame_count (snd af)) (on_frame sample_context (frame_header sample_dnp3_frame) sample_dnp3_frame ?af) = Some 1"
    by (simp add: on_frame_def on_application_def on_function_code_def track_master_def frame_header_def parse_dnp3_dl_header_def sample_dnp3_frame_def
        dnp3_flow_state_default_def dnp3_analyzer_new_def is_master_frame_def has_user_data_def transport_is_fir_def classify_dnp3_fc_def
        sat_add64_def add64_def u64_max_def max_master_addrs_def Let_def)
  then obtain af where af: "on_frame sample_context (frame_header sample_dnp3_frame) sample_dnp3_frame ?af = Some af" "df_frame_count (snd af) = 1"
    unfolding map_option_eq_Some by blast
  have "dnp3_walk sample_context False (take 7 sample_dnp3_frame @ drop 7 sample_dnp3_frame) ?af =
      map_option (\<lambda>af. (af, [])) (process_frames sample_context [sample_dnp3_frame] ?af)"
    using dnp3_framing_exact [of "[sample_dnp3_frame]" "[]" "take 7 sample_dnp3_frame" "drop 7 sample_dnp3_frame" sample_context False ?af]
      sample_dnp3_frame_ok empty_cut by simp
  then show ?thesis using af walk_cut [OF c] by (intro exI [of _ af]) simp
qed

section \<open>Deliveries above the cap\<close>

abbreviation frames :: "dnp3_state \<Rightarrow> nat" where
  "frames af \<equiv> df_frame_count (snd af)"

named_theorems frames_kept

lemma note_malformed_frames [frames_kept]: "frames (note_malformed c af) = frames af"
  by (cases af) (simp add: note_malformed_def check_malformed_anomaly_def Let_def)

lemma t0827_frames [frames_kept]: "maybe_emit_t0827 c dest af = Some af' \<Longrightarrow> frames af' = frames af"
  by (cases af) (auto simp: maybe_emit_t0827_def bind_eq_Some_conv)

lemma burst_frames [frames_kept]: "frames (detect_control_class_burst_split c threshold fc dest src af) = frames af"
  by (cases af) (simp add: detect_control_class_burst_split_def Let_def)

lemma unexpected_frames [frames_kept]: "frames (detect_unexpected_source_split c fc dest src af) = frames af"
  by (cases af) (simp add: detect_unexpected_source_split_def)

lemma unsolicited_frames [frames_kept]:
  "frames (detect_unsolicited_anomaly c fc ctrl dest src af) = frames af" "frames (detect_unsolicited_control c fc dest src af) = frames af"
  by (cases af; simp add: detect_unsolicited_anomaly_def detect_unsolicited_control_def)+

lemma restart_frames [frames_kept]: "frames (detect_restart_split c fc dest src af) = frames af"
  by (cases af) (simp add: detect_restart_split_def)

lemma insert_pending_frames [frames_kept]: "df_frame_count (fst (insert_pending_request seed key ts f)) = df_frame_count f"
  by (simp add: insert_pending_request_def Let_def)

lemma control_frames [frames_kept]: "frames (on_control c u fc ctrl dest src af) = frames af"
  by (cases af) (simp add: on_control_def Let_def case_prod_unfold frames_kept)

lemma response_frames [frames_kept]: "frames (on_response c fc ctrl dest src af) = frames af"
  by (simp add: on_response_def case_prod_unfold Let_def frames_kept)

lemma function_code_frames [frames_kept]: "on_function_code c h u fc ctrl af = Some af' \<Longrightarrow> frames af' = frames af"
  by (cases "classify_dnp3_fc fc") (auto simp: on_function_code_def Let_def frames_kept dest!: t0827_frames)

lemma application_frames [frames_kept]: "on_application c h u fc ctrl af = Some af' \<Longrightarrow> frames af' = frames af"
  by (cases af) (auto simp: on_application_def bind_eq_Some_conv Let_def frames_kept dest!: function_code_frames split: if_splits)

lemma frame_frames:
  assumes "on_frame c h fr af = Some af'"
  shows "frames af' \<le> frames af + 1"
proof -
  obtain a f where af: "af = (a, f)" by force
  have "frames (track_master h af1) = frames af1" for af1 by (cases af1) (simp add: track_master_def)
  moreover have "sat_add64 (df_frame_count f) 1 \<le> df_frame_count f + 1" by (simp add: sat_add64_def)
  ultimately show ?thesis using assms by (auto simp: on_frame_def af Let_def dest!: application_frames split: if_splits)
qed

lemma walk_frame_count:
  "dnp3_walk c did carry af = Some (af', carry') \<Longrightarrow> frames af' * 10 + length carry' \<le> frames af * 10 + length carry"
proof (induction "length carry" arbitrary: carry did af rule: less_induct)
  case less
  show ?case
  proof (cases rule: dnp3_walk_cases [of carry c did af])
    case short
    have "length (drop_to_sync (tl carry)) \<le> length carry" using drop_to_sync_shorter [of "tl carry"] by (rule order.trans) simp
    with short less.prems show ?thesis by (auto simp: settle_def note_malformed_frames split: if_splits)
  next
    case junk
    with less.hyps [OF junk(1), of True "note_malformed c af"] less.prems show ?thesis by (simp add: note_malformed_frames)
  next
    case partial
    with less.prems show ?thesis by simp
  next
    case (frame n h)
    with less.prems obtain af1 where af1: "on_frame c h (take n carry) af = Some af1" "dnp3_walk c True (drop n carry) af1 = Some (af', carry')"
      by (auto simp: bind_eq_Some_conv)
    have "frames af' * 10 + length carry' \<le> frames af1 * 10 + length (drop n carry)"
      by (rule less.hyps [OF _ af1(2)]) (use frame(1,2) in simp)
    with frame_frames [OF af1(1)] frame(1,2) show ?thesis by simp
  qed
qed

lemma scan_frames: "scan_block_timeouts c (a, f) = Some af' \<Longrightarrow> frames af' = df_frame_count f"
  by (auto simp: scan_block_timeouts_def Let_def dest!: t0827_frames retire_requests_frame split: prod.splits if_splits)

lemma accumulate_frames:
  assumes "accumulate c carry data af = Some (af', carry')"
  shows "frames af' = frames af" and "length carry' \<le> 292"
  using assms drop_to_sync_shorter [of "carry @ take (max_dnp3_frame_len - length carry) data"]
  by (auto simp: accumulate_def sub64_def bind_eq_Some_conv note_malformed_frames max_dnp3_frame_len_def split: if_splits)

lemma delivery_frames:
  assumes "dnp3_on_data a key data ts dir = Some a'"
  shows "df_frame_count (dnp3_flow_of a' key) \<le> df_frame_count (dnp3_flow_of a key) + 29"
proof (cases "df_is_non_dnp3 (dnp3_flow_of a key) \<or> desynced data (dnp3_flow_of a key)")
  case True
  then show ?thesis
    using assms by (auto simp: dnp3_on_data_def dnp3_flow_of_def Let_def split: if_splits)
next
  case False
  let ?f = "dnp3_flow_of a key" and ?c = "\<lparr>dc_key = key, dc_direction = dir, dc_now = ts\<rparr>"
  from False assms obtain af1 af2 carry a3 f3 carry'
    where s: "scan_block_timeouts ?c (a, maybe_expire_correlation_window ts ?f) = Some af1"
      and ac: "accumulate ?c (dnp3_carry dir ?f) data af1 = Some (af2, carry)"
      and w: "dnp3_walk ?c False carry af2 = Some ((a3, f3), carry')"
      and a': "a' = a3\<lparr>da_flows := hm_insert key (set_dnp3_carry dir carry' f3) (da_flows a3)\<rparr>"
    by (auto simp: dnp3_on_data_def Let_def bind_eq_Some_conv simp flip: dnp3_flow_of_def)
  have "df_frame_count (maybe_expire_correlation_window ts ?f) = df_frame_count ?f" by (simp add: maybe_expire_correlation_window_def)
  then have "df_frame_count f3 * 10 \<le> df_frame_count ?f * 10 + 292"
    using walk_frame_count [OF w] accumulate_frames [OF ac] scan_frames [OF s] by simp
  moreover have "dnp3_flow_of a' key = set_dnp3_carry dir carry' f3" by (simp add: a' dnp3_flow_of_def)
  ultimately show ?thesis by simp
qed

lemma accumulate_excess:
  assumes "length carry + length head = max_dnp3_frame_len" and "xs \<noteq> []" and "ys \<noteq> []"
  shows "accumulate c carry (head @ xs) af = accumulate c carry (head @ ys) af"
proof -
  have "max_dnp3_frame_len - length carry = length head" using assms(1) by simp
  then show ?thesis using assms by (simp add: accumulate_def sub64_def)
qed

text \<open>C17. What a delivery brings beyond the room in the carry is not analyzed, whatever it is: two
  deliveries that agree on the bytes that fill the carry up to 292 have the same effect. So at
  most 29 frames are taken from one delivery, however many it holds.\<close>

theorem dnp3_excess_discarded:
  assumes "length (dnp3_carry dir (dnp3_flow_of a key)) + length head = 292" and "xs \<noteq> []" and "ys \<noteq> []"
  shows "dnp3_on_data a key (head @ xs) ts dir = dnp3_on_data a key (head @ ys) ts dir \<and>
    (\<forall>a'. dnp3_on_data a key (head @ xs) ts dir = Some a' \<longrightarrow>
      df_frame_count (dnp3_flow_of a' key) \<le> df_frame_count (dnp3_flow_of a key) + 29)"
proof -
  let ?f = "dnp3_flow_of a key"
  have "desynced (head @ xs) ?f = desynced (head @ ys) ?f"
  proof (cases "df_carry_c2s ?f = [] \<and> df_carry_s2c ?f = []")
    case True
    then have "length head = 292" using assms(1) by (cases dir) auto
    then show ?thesis by (simp add: desynced_def in_sync_def nth_append)
  qed (auto simp: desynced_def)
  then show ?thesis
    using delivery_frames accumulate_excess [OF _ assms(2,3), of "dnp3_carry dir ?f" head] assms(1)
    by (simp add: dnp3_on_data_def Let_def max_dnp3_frame_len_def flip: dnp3_flow_of_def)
qed

definition many_frames :: bytes where
  "many_frames = concat (replicate 20 sample_dnp3_frame)"

theorem dnp3_excess_discarded_witness:
  "dnp3_on_data (dnp3_analyzer_new (\<lambda>_ _. 0) 10) (dc_key sample_context) (take 292 many_frames @ drop 292 many_frames) 7 ClientToServer =
   dnp3_on_data (dnp3_analyzer_new (\<lambda>_ _. 0) 10) (dc_key sample_context) (take 292 many_frames @ [0]) 7 ClientToServer"
proof -
  have "length many_frames = 300" by (simp add: many_frames_def sample_dnp3_frame_def length_concat sum_list_replicate)
  then have "drop 292 many_frames \<noteq> []" "length (take 292 many_frames) = 292" by simp_all
  then show ?thesis
    using dnp3_excess_discarded [of ClientToServer "dnp3_analyzer_new (\<lambda>_ _. 0) 10" "dc_key sample_context" "take 292 many_frames"
        "drop 292 many_frames" "[0]" 7]
    by (simp add: dnp3_flow_of_def dnp3_analyzer_new_def dnp3_flow_state_default_def)
qed

section \<open>Unanswered requests\<close>

lemma retire_requests_eq:
  "retire_requests ks d first f =
     (if first \<and> ks = [] then d else Min ((if first then {} else {d}) \<union> fst ` set ks), first \<and> ks = [],
      f\<lparr>df_pending_requests := filter (\<lambda>e. fst e \<notin> set ks) (df_pending_requests f),
        df_block_event_count := ((\<lambda>n. sat_add64 n 1) ^^ length ks) (df_block_event_count f)\<rparr>)"
proof (induction ks d first f rule: retire_requests.induct)
  case (2 dest app_seq rest min_dest first f)
  let ?d = "if first \<or> dest < min_dest then dest else min_dest"
  have e: "(if first \<or> dest < min_dest then (dest, False) else (min_dest, first)) = (?d, False)" by auto
  have "Min (insert ?d (fst ` set rest)) = Min ((if first then {} else {min_dest}) \<union> insert dest (fst ` set rest))"
  proof (cases first)
    case False
    have "Min (insert (min dest min_dest) (fst ` set rest)) = Min (insert min_dest (insert dest (fst ` set rest)))"
      by (cases "rest = []") (simp_all add: min.assoc min.left_commute min.commute)
    moreover have "?d = min dest min_dest" using False by (auto simp: min_def)
    ultimately show ?thesis using False by (simp only: if_False insert_is_Un [symmetric] Un_insert_left Un_empty_left simp_thms)
  qed simp
  moreover have "filter (\<lambda>x. fst x \<notin> set rest) (hm_remove (dest, app_seq) m) = filter (\<lambda>x. fst x \<noteq> (dest, app_seq) \<and> fst x \<notin> set rest) m"
    for m :: "(u16 \<times> u8, u32) hash_map" by (auto simp: hm_remove_eq intro: filter_cong)
  moreover have "((\<lambda>n. sat_add64 n 1) ^^ k) (sat_add64 b 1) = sat_add64 (((\<lambda>n. sat_add64 n 1) ^^ k) b) 1" for k b
    by (induction k) simp_all
  moreover have "retire_requests ((dest, app_seq) # rest) min_dest first f = retire_requests rest ?d False
      (f\<lparr>df_pending_requests := hm_remove (dest, app_seq) (df_pending_requests f), df_block_event_count := sat_add64 (df_block_event_count f) 1\<rparr>)"
    using e by simp
  ultimately show ?case using "2.IH" [OF e [symmetric] refl] by simp
qed simp

text \<open>The requests that are late at a point in time.\<close>

definition late :: "u32 \<Rightarrow> (u16 \<times> u8, u32) hash_map \<Rightarrow> (u16 \<times> u8) set" where
  "late now m = {k. \<exists>t. hm_get m k = Some t \<and> unat now - unat t > 10}"

definition late_keys :: "dnp3_context \<Rightarrow> (u16 \<times> u8) hash_seed \<Rightarrow> (u16 \<times> u8, u32) hash_map \<Rightarrow> (u16 \<times> u8) list" where
  "late_keys c seed m = map fst (filter (\<lambda>(key, request_ts). sat_subw (dc_now c) request_ts > block_cmd_timeout_secs) (hm_iter seed m))"

lemma late_keys:
  assumes "hm_ok m"
  shows "set (late_keys c seed m) = late (dc_now c) m" and "distinct (late_keys c seed m)"
proof -
  show "set (late_keys c seed m) = late (dc_now c) m"
    by (force simp: late_keys_def late_def hmap.get_iff [OF assms] word_less_nat_alt unat_sat_subw block_cmd_timeout_secs_def)
  show "distinct (late_keys c seed m)"
    unfolding late_keys_def by (rule distinct_map_filter [OF distinct_hm_iter [OF assms]])
qed

lemma scan_late_keys:
  "scan_block_timeouts c (a, f) =
     (let (min_dest, first, f1) = retire_requests (late_keys c (da_seed a) (df_pending_requests f)) 0 True f;
          (a2, f2) = (if df_block_event_count f1 \<ge> block_cmd_threshold \<and> \<not> df_block_finding_emitted f1
                      then (dnp3_push (blocked_finding c min_dest f1) a, f1\<lparr>df_block_finding_emitted := True\<rparr>)
                      else (a, f1))
      in if \<not> first then maybe_emit_t0827 c min_dest (a2, f2) else Some (a2, f2))"
  by (simp add: scan_block_timeouts_def late_keys_def Let_def)

lemma retire_late_seed:
  assumes "hm_ok (df_pending_requests f)"
  shows "retire_requests (late_keys c seed (df_pending_requests f)) 0 True f =
    retire_requests (late_keys c seed' (df_pending_requests f)) 0 True f"
proof -
  let ?l = "\<lambda>s. late_keys c s (df_pending_requests f)"
  have s: "set (?l seed) = set (?l seed')" by (simp add: late_keys [OF assms])
  then have "length (?l seed) = length (?l seed')" using distinct_card late_keys(2) [OF assms] by metis
  moreover have "?l seed = [] \<longleftrightarrow> ?l seed' = []" using s by (metis set_empty)
  ultimately show ?thesis by (simp add: retire_requests_eq s)
qed

lemma push_seed: "dnp3_push fi (a\<lparr>da_seed := s\<rparr>) = (dnp3_push fi a)\<lparr>da_seed := s\<rparr>"
  by (simp add: dnp3_push_def)

lemma t0827_seed:
  "maybe_emit_t0827 c dest (a\<lparr>da_seed := s\<rparr>, f) = map_option (\<lambda>(a, f). (a\<lparr>da_seed := s\<rparr>, f)) (maybe_emit_t0827 c dest (a, f))"
  by (cases "add64 (df_restart_event_count f) (df_block_event_count f)") (simp_all add: maybe_emit_t0827_def push_seed)

lemma scan_seed:
  assumes "hm_ok (df_pending_requests f)"
  shows "scan_block_timeouts c (a\<lparr>da_seed := s\<rparr>, f) = map_option (\<lambda>(a, f). (a\<lparr>da_seed := s\<rparr>, f)) (scan_block_timeouts c (a, f))"
proof -
  obtain d first f1 where r: "retire_requests (late_keys c (da_seed a) (df_pending_requests f)) 0 True f = (d, first, f1)"
    by (metis prod_cases3)
  then have "retire_requests (late_keys c s (df_pending_requests f)) 0 True f = (d, first, f1)"
    using retire_late_seed [OF assms, of c s "da_seed a"] by simp
  with r show ?thesis by (simp add: scan_late_keys push_seed t0827_seed)
qed

lemma sat_steps: "b + n \<le> u64_max \<Longrightarrow> ((\<lambda>n. sat_add64 n 1) ^^ n) b = b + n"
  by (induction n) (simp_all add: sat_add64_def)

lemma t0827_tables:
  "maybe_emit_t0827 c dest (a, f) = Some (a', f') \<Longrightarrow>
   df_pending_requests f' = df_pending_requests f \<and> df_block_event_count f' = df_block_event_count f"
  by (auto simp: maybe_emit_t0827_def bind_eq_Some_conv split: if_splits)

lemma late_count:
  assumes "flow_room N f"
  shows "df_block_event_count f + card (late now (df_pending_requests f)) \<le> u64_max"
proof -
  have "late now (df_pending_requests f) \<subseteq> set (map fst (df_pending_requests f))"
    by (force simp: late_def hm_get_def dest!: map_of_SomeD)
  then have "card (late now (df_pending_requests f)) \<le> length (df_pending_requests f)"
    by (metis List.finite_set card_length card_mono length_map order.trans)
  then show ?thesis using assms by (simp add: flow_room_def)
qed

lemma hm_get_filter: "hm_get (filter (\<lambda>e. fst e \<notin> S) m) k = (if k \<in> S then None else hm_get m k)"
  by (induction m) (auto simp: hm_get_def)

text \<open>C18. The scan for unanswered requests takes exactly the requests that are more than ten
  seconds old out of the table and counts each of them once, and its outcome, findings with
  their texts included, does not depend on the order in which the hash table is iterated.\<close>

theorem blocked_scan_exact:
  assumes "flow_room N f" and "scan_block_timeouts c (a, f) = Some (a', f')"
  shows "df_block_event_count f' = df_block_event_count f + card (late (dc_now c) (df_pending_requests f)) \<and>
    (\<forall>k. hm_get (df_pending_requests f') k =
       (if k \<in> late (dc_now c) (df_pending_requests f) then None else hm_get (df_pending_requests f) k)) \<and>
    (\<forall>seed. scan_block_timeouts c (a\<lparr>da_seed := seed\<rparr>, f) = Some (a'\<lparr>da_seed := seed\<rparr>, f'))"
proof -
  have ok: "hm_ok (df_pending_requests f)" using assms(1) by (simp add: flow_room_def)
  let ?ks = "late_keys c (da_seed a) (df_pending_requests f)" and ?l = "late (dc_now c) (df_pending_requests f)"
  obtain d first f1 where r: "retire_requests ?ks 0 True f = (d, first, f1)" by (metis prod_cases3)
  have "length ?ks = card ?l" using distinct_card [OF late_keys(2) [OF ok]] late_keys(1) [OF ok] by metis
  then have f1: "df_pending_requests f1 = filter (\<lambda>e. fst e \<notin> ?l) (df_pending_requests f)"
    "df_block_event_count f1 = df_block_event_count f + card ?l"
    using r late_keys(1) [OF ok, of c "da_seed a"] sat_steps [OF late_count [OF assms(1)], of "dc_now c"]
    by (auto simp: retire_requests_eq)
  have "df_pending_requests f' = df_pending_requests f1 \<and> df_block_event_count f' = df_block_event_count f1"
    using assms(2) r by (auto simp: scan_late_keys dest!: t0827_tables split: if_splits)
  with f1 scan_seed [OF ok, where c = c and a = a] assms(2) show ?thesis by (simp add: hm_get_filter)
qed

definition asked :: dnp3_flow_state where
  "asked = dnp3_flow_state_default\<lparr>df_pending_requests := [((1, 0), 5), ((1, 1), 30)]\<rparr>"

theorem blocked_scan_exact_witness:
  "\<exists>a' f'. scan_block_timeouts (sample_context\<lparr>dc_now := 20\<rparr>) (dnp3_analyzer_new (\<lambda>_ _. 0) 10, asked) = Some (a', f') \<and>
     df_block_event_count f' = 1 \<and> hm_get (df_pending_requests f') (1, 0) = None \<and> hm_get (df_pending_requests f') (1, 1) = Some 30"
proof -
  let ?c = "sample_context\<lparr>dc_now := 20\<rparr>" and ?a = "dnp3_analyzer_new (\<lambda>_ _. 0) 10"
  have r: "flow_room 0 asked" "codes_room 0 ?a"
    by (simp_all add: flow_room_def codes_room_def asked_def dnp3_flow_state_default_def dnp3_analyzer_new_def hm_ok_def
        max_pending_requests_def u64_max_def)
  then obtain a' f' where s: "scan_block_timeouts ?c (?a, asked) = Some (a', f')"
    using scan_spends [of 0 0 "(?a, asked)" ?c] by (metis room.simps surj_pair)
  have "hm_get (df_pending_requests asked) k = (if k = (1, 0) then Some 5 else if k = (1, 1) then Some 30 else None)" for k
    by (simp add: asked_def hm_get_def)
  then have l: "late (dc_now ?c) (df_pending_requests asked) = {(1, 0)}" by (auto simp: late_def split: if_splits)
  from blocked_scan_exact [OF r(1) s] s show ?thesis
    unfolding l by (simp add: asked_def hm_get_def dnp3_flow_state_default_def)
qed

section \<open>The boundary of the correlation window\<close>

text \<open>At exactly 300 seconds the window is neither over, so that nothing is reset, nor open, so that a
  third malformed frame is counted and not reported.\<close>

lemma boundary_malformed_silent:
  assumes "df_correlation_window_seeded f" and "unat (dc_now c) = unat (df_correlation_window_start_ts f) + 300"
  shows "maybe_expire_correlation_window (dc_now c) f = f \<and>
    note_malformed c (a, f) =
      (a, f\<lparr>df_parse_errors := sat_add64 (df_parse_errors f) 1, df_malformed_in_window := sat_add64 (df_malformed_in_window f) 1\<rparr>)"
proof -
  have "unat (sat_subw (dc_now c) (df_correlation_window_start_ts f)) = 300" using assms(2) by (simp add: unat_sat_subw)
  then show ?thesis
    using assms(1)
    by (simp add: maybe_expire_correlation_window_def note_malformed_def check_malformed_anomaly_def word_less_nat_alt
        correlation_window_secs_def)
qed

end
