(* ===== verification/Enip.thy ===== *)
theory Enip
  imports Findings Containers
begin

text \<open>
  The EtherNet/IP analyzer, \<open>src/analyzer/enip.rs\<close>: the encapsulation header, the CPF and CIP
  parsers, the detectors on CIP services, and the frame walk with its carry buffers. The walk
  is a recursion on the bytes from the cursor on. Arrows and dashes of the texts are written in
  ASCII; \<open>Entries\<close> is the debug print of a hash table, in the order of its iteration.
\<close>

unbundle bit_operations_syntax

section \<open>The encapsulation header\<close>

record enip_header =
  eh_command :: u16
  eh_length :: u16
  eh_session_handle :: u32
  eh_status :: u32
  eh_sender_context :: bytes
  eh_options :: u32

datatype enip_command_class =
    ListServices | ListIdentity | ListInterfaces | RegisterSession | UnRegisterSession
  | SendRRData | SendUnitData | IndicateStatus | Cancel | UnknownCommand

text \<open>\<open>u16::from_le_bytes\<close> and \<open>u32::from_le_bytes\<close> at a position.\<close>

definition enip_le16 :: "bytes \<Rightarrow> nat \<Rightarrow> u16" where
  "enip_le16 bs i = be16 (bs ! (i + 1)) (bs ! i)"

definition enip_le32 :: "bytes \<Rightarrow> nat \<Rightarrow> u32" where
  "enip_le32 bs i = ucast (enip_le16 bs (i + 2)) * 65536 + ucast (enip_le16 bs i)"

definition parse_enip_header :: "bytes \<Rightarrow> enip_header option" where
  "parse_enip_header data =
     (if length data < 24 then None
      else Some \<lparr>eh_command = enip_le16 data 0, eh_length = enip_le16 data 2, eh_session_handle = enip_le32 data 4,
                 eh_status = enip_le32 data 8, eh_sender_context = take 8 (drop 12 data), eh_options = enip_le32 data 20\<rparr>)"

definition classify_enip_command :: "u16 \<Rightarrow> enip_command_class" where
  "classify_enip_command command =
     (if command = 0x0004 then ListServices
      else if command = 0x0063 then ListIdentity
      else if command = 0x0064 then ListInterfaces
      else if command = 0x0065 then RegisterSession
      else if command = 0x0066 then UnRegisterSession
      else if command = 0x006F then SendRRData
      else if command = 0x0070 then SendUnitData
      else if command = 0x0072 then IndicateStatus
      else if command = 0x0075 then Cancel
      else UnknownCommand)"

definition is_valid_enip_frame :: "enip_header \<Rightarrow> bool" where
  "is_valid_enip_frame h \<longleftrightarrow>
     eh_command h \<in> {0x0004, 0x0063, 0x0064, 0x0065, 0x0066, 0x006F, 0x0070, 0x0072, 0x0075}"

definition enip_max_findings :: usize where "enip_max_findings = 10000"
definition max_enip_carry_bytes :: usize where "max_enip_carry_bytes = 600"
definition enip_malformed_threshold :: u64 where "enip_malformed_threshold = 3"

section \<open>CPF items and CIP messages\<close>

record cpf_item =
  ci_type_id :: u16
  ci_data :: bytes

text \<open>The loop over the declared number of items, on the bytes from the cursor on.\<close>

fun cpf_loop :: "nat \<Rightarrow> bytes \<Rightarrow> cpf_item list" where
  "cpf_loop 0 rest = []"
| "cpf_loop (Suc n) rest =
     (if length rest < 4 then []
      else let len = unat (enip_le16 rest 2); body = drop 4 rest in
        if length body < len then []
        else \<lparr>ci_type_id = enip_le16 rest 0, ci_data = take len body\<rparr> # cpf_loop n (drop len body))"

definition parse_cpf_items :: "bytes \<Rightarrow> cpf_item list" where
  "parse_cpf_items cpf_data =
     (if length cpf_data < 2 then [] else cpf_loop (unat (enip_le16 cpf_data 0)) (drop 2 cpf_data))"

record cip_header =
  ch_service :: u8
  ch_request_path :: bytes

definition parse_cip_header :: "bytes \<Rightarrow> cip_header option" where
  "parse_cip_header item_data =
     (if length item_data < 2 then None
      else let path_byte_count = unat (item_data ! 1) * 2 in
        if length item_data < 2 + path_byte_count then None
        else Some \<lparr>ch_service = item_data ! 0, ch_request_path = take path_byte_count (drop 2 item_data)\<rparr>)"

datatype cip_service_class =
    GetAttributesAll | SetAttributesAll | GetAttributeList | SetAttributeList | CipReset | CipStop
  | MultipleServicePacket | GetAttributeSingle | SetAttributeSingle | GetAndClear | ForwardClose
  | ForwardOpen | LargeForwardOpen | CipResponse | UnknownService

definition classify_cip_service :: "u8 \<Rightarrow> cip_service_class" where
  "classify_cip_service service =
     (if service AND 0x80 \<noteq> 0 then CipResponse
      else if service = 0x01 then GetAttributesAll
      else if service = 0x02 then SetAttributesAll
      else if service = 0x03 then GetAttributeList
      else if service = 0x04 then SetAttributeList
      else if service = 0x05 then CipReset
      else if service = 0x07 then CipStop
      else if service = 0x0A then MultipleServicePacket
      else if service = 0x0E then GetAttributeSingle
      else if service = 0x10 then SetAttributeSingle
      else if service = 0x4B then GetAndClear
      else if service = 0x4E then ForwardClose
      else if service = 0x54 then ForwardOpen
      else if service = 0x5B then LargeForwardOpen
      else UnknownService)"

fun service_class_name :: "cip_service_class \<Rightarrow> string" where
  "service_class_name GetAttributesAll = ''GetAttributesAll''"
| "service_class_name GetAttributeList = ''GetAttributeList''"
| "service_class_name GetAttributeSingle = ''GetAttributeSingle''"
| "service_class_name SetAttributesAll = ''SetAttributesAll''"
| "service_class_name SetAttributeList = ''SetAttributeList''"
| "service_class_name SetAttributeSingle = ''SetAttributeSingle''"
| "service_class_name CipReset = ''Reset''"
| "service_class_name CipStop = ''Stop''"
| "service_class_name MultipleServicePacket = ''MultipleServicePacket''"
| "service_class_name GetAndClear = ''GetAndClear''"
| "service_class_name ForwardClose = ''ForwardClose''"
| "service_class_name ForwardOpen = ''ForwardOpen''"
| "service_class_name LargeForwardOpen = ''LargeForwardOpen''"
| "service_class_name CipResponse = ''Response''"
| "service_class_name UnknownService = ''Unknown''"

datatype cip_path_segment = ClassSegment u8 | InstanceSegment u8 | AttributeSegment u8

fun parse_cip_request_path :: "bytes \<Rightarrow> cip_path_segment list" where
  "parse_cip_request_path (segment_type # v # rest) =
     (if segment_type = 0x20 then [ClassSegment v]
      else if segment_type = 0x24 then [InstanceSegment v]
      else if segment_type = 0x30 then [AttributeSegment v]
      else []) @ parse_cip_request_path rest"
| "parse_cip_request_path _ = []"

section \<open>State\<close>

record enip_flow_state =
  ef_error_counts_in_window :: "(u8, u64) hash_map"
  ef_error_window_start_ts :: u32
  ef_error_window_active :: bool
  ef_error_rate_emitted :: bool
  ef_write_count_in_window :: u64
  ef_write_burst_emitted :: bool
  ef_write_window_start_ts :: u32
  ef_list_identity_emitted :: bool
  ef_is_non_enip :: bool
  ef_command_counts :: "(u16, u64) hash_map"
  ef_pdu_count :: u64
  ef_parse_errors :: u64
  ef_malformed_in_window :: u64
  ef_carry_c2s :: bytes
  ef_carry_s2c :: bytes
  ef_open_connection_count :: u32
  ef_close_connection_count :: u32
  ef_malformed_anomaly_emitted :: bool
  ef_malformed_window_start_ts :: u32

definition enip_flow_state_new :: enip_flow_state where
  "enip_flow_state_new =
     \<lparr>ef_error_counts_in_window = [], ef_error_window_start_ts = 0, ef_error_window_active = False,
      ef_error_rate_emitted = False, ef_write_count_in_window = 0, ef_write_burst_emitted = False,
      ef_write_window_start_ts = 0, ef_list_identity_emitted = False, ef_is_non_enip = False, ef_command_counts = [],
      ef_pdu_count = 0, ef_parse_errors = 0, ef_malformed_in_window = 0, ef_carry_c2s = [], ef_carry_s2c = [],
      ef_open_connection_count = 0, ef_close_connection_count = 0, ef_malformed_anomaly_emitted = False,
      ef_malformed_window_start_ts = 0\<rparr>"

text \<open>\<open>ea_seed\<close> is the iteration order of the error tables, which a finding prints.\<close>

record enip_analyzer =
  ea_write_burst_threshold :: u32
  ea_error_burst_threshold :: u32
  ea_all_findings :: "finding list"
  ea_bytes_received :: u64
  ea_error_count :: u64
  ea_write_count :: u64
  ea_flows :: "(flow_key, enip_flow_state) hash_map"
  ea_total_pdu_count :: u64
  ea_parse_errors :: u64
  ea_command_distribution :: "(u16, u64) hash_map"
  ea_flows_analyzed :: u64
  ea_dropped_findings :: u64
  ea_seed :: "u8 hash_seed"

definition enip_analyzer_new :: "u8 hash_seed \<Rightarrow> u32 \<Rightarrow> u32 \<Rightarrow> enip_analyzer" where
  "enip_analyzer_new seed write_burst_threshold error_burst_threshold =
     \<lparr>ea_write_burst_threshold = write_burst_threshold, ea_error_burst_threshold = error_burst_threshold,
      ea_all_findings = [], ea_bytes_received = 0, ea_error_count = 0, ea_write_count = 0, ea_flows = [],
      ea_total_pdu_count = 0, ea_parse_errors = 0, ea_command_distribution = [], ea_flows_analyzed = 0,
      ea_dropped_findings = 0, ea_seed = seed\<rparr>"

text \<open>Adding the counts of a flow to a distribution.\<close>

definition fold_counts :: "(u16, u64) hash_map \<Rightarrow> (u16, u64) hash_map \<Rightarrow> (u16, u64) hash_map" where
  "fold_counts counts dist =
     foldl (\<lambda>d (cmd, count). hm_insert cmd (sat_add64 (case hm_get d cmd of Some n \<Rightarrow> n | None \<Rightarrow> 0) count) d) dist counts"

definition enip_on_flow_close :: "enip_analyzer \<Rightarrow> flow_key \<Rightarrow> enip_analyzer" where
  "enip_on_flow_close a key =
     (case hm_get (ea_flows a) key of
        None \<Rightarrow> a
      | Some flow \<Rightarrow>
          a\<lparr>ea_flows := hm_remove key (ea_flows a),
            ea_total_pdu_count := sat_add64 (ea_total_pdu_count a) (ef_pdu_count flow),
            ea_parse_errors := sat_add64 (ea_parse_errors a) (ef_parse_errors flow),
            ea_command_distribution := fold_counts (ef_command_counts flow) (ea_command_distribution a),
            ea_flows_analyzed := sat_add64 (ea_flows_analyzed a) 1\<rparr>)"

section \<open>Detectors\<close>

type_synonym enip_state = "enip_analyzer \<times> enip_flow_state"

record enip_context =
  ec_src_ip :: ip_addr
  ec_dest_ip :: ip_addr
  ec_now :: u32

definition enip_finding ::
  "enip_context \<Rightarrow> threat_category \<Rightarrow> verdict \<Rightarrow> confidence \<Rightarrow> string list \<Rightarrow> flow_key fmt \<Rightarrow> flow_key fmt \<Rightarrow> finding"
where
  "enip_finding c cat v conf techniques summ ev =
     \<lparr>category = cat, verdict = v, confidence = conf, summary = summ, evidence = [ev], mitre_techniques = techniques,
      source_ip = Some (ec_src_ip c), timestamp = Some (ec_now c), direction = None\<rparr>"

text \<open>The push of a finding under the cap; the guard is set only when it was pushed.\<close>

definition enip_push_guarded :: "finding \<Rightarrow> (enip_flow_state \<Rightarrow> enip_flow_state) \<Rightarrow> enip_state \<Rightarrow> enip_state" where
  "enip_push_guarded fi guard af =
     (let (a, f) = af in
      if length (ea_all_findings a) < enip_max_findings
      then (a\<lparr>ea_all_findings := ea_all_findings a @ [fi]\<rparr>, guard f)
      else (a\<lparr>ea_dropped_findings := sat_add64 (ea_dropped_findings a) 1\<rparr>, f))"

definition enip_push :: "finding \<Rightarrow> enip_state \<Rightarrow> enip_state" where
  "enip_push fi = enip_push_guarded fi (\<lambda>f. f)"

definition t0814_finding :: "enip_context \<Rightarrow> enip_flow_state \<Rightarrow> finding" where
  "t0814_finding c f =
     enip_finding c Anomaly Possible Low [''T0814'']
       [Lit ''EtherNet/IP structural anomaly: '', Dec (ef_malformed_in_window f), Lit '' malformed frames in '',
        Dec (unat (sat_subw (ec_now c) (ef_malformed_window_start_ts f))), Lit ''s window (flow '', ip_frag (ec_src_ip c),
        Lit ''->'', ip_frag (ec_dest_ip c), Lit '') -- possible crash-probe'']
       [Lit ''malformed_in_window='', Dec (ef_malformed_in_window f), Lit ''; threshold='', Dec enip_malformed_threshold]"

definition check_t0814 :: "enip_context \<Rightarrow> enip_state \<Rightarrow> enip_state" where
  "check_t0814 c af =
     (let (a, f) = af in
      if ef_malformed_in_window f \<ge> enip_malformed_threshold \<and> \<not> ef_malformed_anomaly_emitted f \<and> \<not> ef_is_non_enip f
      then enip_push_guarded (t0814_finding c f) (\<lambda>f. f\<lparr>ef_malformed_anomaly_emitted := True\<rparr>) (a, f)
      else (a, f))"

definition list_identity_finding :: "enip_context \<Rightarrow> enip_header \<Rightarrow> finding" where
  "list_identity_finding c h =
     enip_finding c Reconnaissance Likely High [''T0846'']
       [Lit ''EtherNet/IP ListIdentity broadcast observed: network-wide device enumeration (T0846)'']
       [Lit ''ENIP command=0x0063 (ListIdentity) src='', ip_frag (ec_src_ip c), Lit '' session='', Dec (unat (eh_session_handle h))]"

definition detect_list_identity :: "enip_context \<Rightarrow> enip_header \<Rightarrow> enip_state \<Rightarrow> enip_state" where
  "detect_list_identity c h af =
     (let (a, f) = af in
      if ef_list_identity_emitted f then (a, f)
      else enip_push_guarded (list_identity_finding c h) (\<lambda>f. f\<lparr>ef_list_identity_emitted := True\<rparr>) (a, f))"

definition error_burst_finding :: "enip_context \<Rightarrow> u8 hash_seed \<Rightarrow> u64 \<Rightarrow> enip_flow_state \<Rightarrow> finding" where
  "error_burst_finding c seed total_errors f =
     enip_finding c Reconnaissance Possible Medium [''T0888'']
       [Lit ''CIP error-response burst: '', Dec total_errors,
        Lit '' error responses in 10s window -- possible service enumeration (T0888)'']
       [Lit ''error_counts_in_window='', Entries (hm_iter seed (ef_error_counts_in_window f)), Lit '' within 10s; possible service probe'']"

definition expire_error_window :: "u32 \<Rightarrow> enip_flow_state \<Rightarrow> enip_flow_state" where
  "expire_error_window now f =
     (if ef_error_window_active f \<and> sat_subw now (ef_error_window_start_ts f) > 10
      then f\<lparr>ef_error_counts_in_window := [], ef_error_window_start_ts := now, ef_error_rate_emitted := False\<rparr>
      else f)"

text \<open>Counting an error status, and the errors of the window so far.\<close>

definition count_cip_error :: "u32 \<Rightarrow> u8 \<Rightarrow> enip_flow_state \<Rightarrow> (enip_flow_state \<times> u64) rust" where
  "count_cip_error now general_status f = do {
     let f1 = expire_error_window now f;
     n \<leftarrow> add64 (case hm_get (ef_error_counts_in_window f1) general_status of Some n \<Rightarrow> n | None \<Rightarrow> 0) 1;
     let f2 = f1\<lparr>ef_error_counts_in_window := hm_insert general_status n (ef_error_counts_in_window f1)\<rparr>;
     let f3 = (if \<not> ef_error_window_active f2
               then f2\<lparr>ef_error_window_start_ts := now, ef_error_window_active := True\<rparr> else f2);
     total_errors \<leftarrow> sum64 (map snd (ef_error_counts_in_window f3));
     Some (f3, total_errors)
   }"

text \<open>A CIP response with an error status.\<close>

definition on_cip_error :: "enip_context \<Rightarrow> u8 \<Rightarrow> enip_state \<Rightarrow> enip_state rust" where
  "on_cip_error c general_status af = do {
     let (a, f) = af;
     (f1, total_errors) \<leftarrow> count_cip_error (ec_now c) general_status f;
     let a1 = a\<lparr>ea_error_count := sat_add64 (ea_error_count a) 1\<rparr>;
     Some (if total_errors > unat (ea_error_burst_threshold a1) \<and> \<not> ef_error_rate_emitted f1
           then enip_push_guarded (error_burst_finding c (ea_seed a1) total_errors f1) (\<lambda>f. f\<lparr>ef_error_rate_emitted := True\<rparr>) (a1, f1)
           else (a1, f1))
   }"

definition on_cip_response :: "enip_context \<Rightarrow> bytes \<Rightarrow> enip_state \<Rightarrow> enip_state rust" where
  "on_cip_response c item_data af =
     (if length item_data < 4 then Some af
      else if item_data ! 2 \<noteq> 0x00 then on_cip_error c (item_data ! 2) af
      else Some af)"

definition is_request :: "cip_header \<Rightarrow> bool" where
  "is_request h = (ch_service h AND 0x80 = 0)"

definition detect_identity_read :: "enip_context \<Rightarrow> cip_header \<Rightarrow> enip_state \<Rightarrow> enip_state" where
  "detect_identity_read c cip af =
     (let cls = classify_cip_service (ch_service cip) in
      if cls \<in> {GetAttributesAll, GetAttributeList, GetAttributeSingle} \<and> is_request cip \<and>
         ClassSegment 0x01 \<in> set (parse_cip_request_path (ch_request_path cip))
      then enip_push (enip_finding c Reconnaissance Likely High [''T0888'']
             [Lit ''CIP Identity Object attribute read: single-device reconnaissance (T0888)'']
             [Lit ''CIP service=0x'', Hex2 (ch_service cip), Lit '' ('', Lit (service_class_name cls),
              Lit '') path targets Identity Object (class 0x01) src='', ip_frag (ec_src_ip c)]) af
      else af)"

definition detect_stop :: "enip_context \<Rightarrow> enip_header \<Rightarrow> cip_header \<Rightarrow> enip_state \<Rightarrow> enip_state" where
  "detect_stop c h cip af =
     (if classify_cip_service (ch_service cip) = CipStop \<and> is_request cip
      then enip_push (enip_finding c Execution Likely High [''T0858'']
             [Lit ''CIP Stop service observed: controller run->stop transition command (T0858)'']
             [Lit ''CIP service=0x07 (Stop) from src='', ip_frag (ec_src_ip c), Lit '' ENIP cmd='', Hex0X4 (eh_command h),
              Lit '' session='', Dec (unat (eh_session_handle h))]) af
      else af)"

definition detect_reset :: "enip_context \<Rightarrow> enip_header \<Rightarrow> cip_header \<Rightarrow> enip_state \<Rightarrow> enip_state" where
  "detect_reset c h cip af =
     (if classify_cip_service (ch_service cip) = CipReset \<and> is_request cip
      then enip_push (enip_finding c Execution Likely High [''T0816'']
             [Lit ''CIP Reset service observed: adversary-triggered device restart (T0816)'']
             [Lit ''CIP service=0x05 (Reset) from src='', ip_frag (ec_src_ip c), Lit '' ENIP cmd='', Hex0X4 (eh_command h),
              Lit '' session='', Dec (unat (eh_session_handle h))]) af
      else af)"

definition is_cip_write :: "cip_header \<Rightarrow> bool" where
  "is_cip_write cip \<longleftrightarrow>
     classify_cip_service (ch_service cip) \<in> {SetAttributesAll, SetAttributeList, SetAttributeSingle} \<and> is_request cip"

definition count_cip_write :: "u32 \<Rightarrow> enip_flow_state \<Rightarrow> enip_flow_state" where
  "count_cip_write now f =
     (if ef_write_count_in_window f > 0 \<and> sat_subw now (ef_write_window_start_ts f) > 1
      then f\<lparr>ef_write_count_in_window := 1, ef_write_window_start_ts := now, ef_write_burst_emitted := False\<rparr>
      else let f1 = f\<lparr>ef_write_count_in_window := sat_add64 (ef_write_count_in_window f) 1\<rparr> in
        if ef_write_count_in_window f1 = 1 then f1\<lparr>ef_write_window_start_ts := now\<rparr> else f1)"

definition enip_burst_finding :: "enip_context \<Rightarrow> enip_header \<Rightarrow> cip_header \<Rightarrow> u32 \<Rightarrow> enip_flow_state \<Rightarrow> finding" where
  "enip_burst_finding c h cip threshold f =
     enip_finding c Execution Likely Medium [''T0836'']
       [Lit ''CIP write-class service burst: '', Dec (ef_write_count_in_window f),
        Lit '' SetAttribute operations in 1s window (threshold '', Dec (unat threshold),
        Lit '') -- possible parameter modification attack (T0836)'']
       [Lit ''CIP service=0x'', Hex2 (ch_service cip), Lit '' ('', Lit (service_class_name (classify_cip_service (ch_service cip))),
        Lit '') src='', ip_frag (ec_src_ip c), Lit '' ENIP session='', Dec (unat (eh_session_handle h))]"

definition detect_cip_write :: "enip_context \<Rightarrow> enip_header \<Rightarrow> cip_header \<Rightarrow> enip_state \<Rightarrow> enip_state" where
  "detect_cip_write c h cip af =
     (if is_cip_write cip then
        let (a, f) = af;
            f1 = count_cip_write (ec_now c) f;
            a1 = a\<lparr>ea_write_count := sat_add64 (ea_write_count a) 1\<rparr>
        in if ef_write_count_in_window f1 > unat (ea_write_burst_threshold a1) \<and> \<not> ef_write_burst_emitted f1
           then enip_push_guarded (enip_burst_finding c h cip (ea_write_burst_threshold a1) f1)
                  (\<lambda>f. f\<lparr>ef_write_burst_emitted := True\<rparr>) (a1, f1)
           else (a1, f1)
      else af)"

definition forward_open_finding :: "enip_context \<Rightarrow> enip_header \<Rightarrow> cip_header \<Rightarrow> finding" where
  "forward_open_finding c h cip =
     enip_finding c Anomaly Possible Low []
       [Lit ''CIP ForwardOpen connection establishment observed from src='', ip_frag (ec_src_ip c), Lit '': connection lifecycle anomaly'']
       [Lit ''CIP service=0x'', Hex2 (ch_service cip), Lit '' ('', Lit (service_class_name (classify_cip_service (ch_service cip))),
        Lit '') from src='', ip_frag (ec_src_ip c), Lit '' session='', Dec (unat (eh_session_handle h)),
        Lit ''. No dedicated MITRE ICS technique for CIP connection establishment anomaly; T1692.001 applies only when connection demonstrably carries unauthorized command (ADR-010 Decision 7)'']"

definition forward_close_finding :: "enip_context \<Rightarrow> enip_header \<Rightarrow> finding" where
  "forward_close_finding c h =
     enip_finding c Anomaly Possible Low []
       [Lit ''CIP ForwardClose connection teardown observed from src='', ip_frag (ec_src_ip c), Lit '': connection lifecycle closed'']
       [Lit ''CIP service=0x4E (ForwardClose) from src='', ip_frag (ec_src_ip c), Lit '' session='', Dec (unat (eh_session_handle h)),
        Lit ''. Connection lifecycle closed; no dedicated MITRE ICS technique (ADR-010 Decision 7)'']"

definition detect_lifecycle :: "enip_context \<Rightarrow> enip_header \<Rightarrow> cip_header \<Rightarrow> enip_state \<Rightarrow> enip_state" where
  "detect_lifecycle c h cip af =
     (let (a, f) = af; cls = classify_cip_service (ch_service cip) in
      if cls = ForwardOpen \<or> cls = LargeForwardOpen
      then enip_push (forward_open_finding c h cip) (a, f\<lparr>ef_open_connection_count := sat_addw (ef_open_connection_count f) 1\<rparr>)
      else if cls = ForwardClose
      then enip_push (forward_close_finding c h) (a, f\<lparr>ef_close_connection_count := sat_addw (ef_close_connection_count f) 1\<rparr>)
      else (a, f))"

text \<open>One CPF item: only unconnected data items are looked at.\<close>

definition on_cpf_item :: "enip_context \<Rightarrow> enip_header \<Rightarrow> cpf_item \<Rightarrow> enip_state \<Rightarrow> enip_state rust" where
  "on_cpf_item c h item af =
     (if ci_type_id item \<noteq> 0x00B2 then Some af
      else case parse_cip_header (ci_data item) of
        None \<Rightarrow> Some af
      | Some cip \<Rightarrow>
          if classify_cip_service (ch_service cip) = CipResponse then on_cip_response c (ci_data item) af
          else Some (detect_lifecycle c h cip (detect_cip_write c h cip (detect_reset c h cip (detect_stop c h cip
                 (detect_identity_read c cip af))))))"

fun on_cpf_items :: "enip_context \<Rightarrow> enip_header \<Rightarrow> cpf_item list \<Rightarrow> enip_state \<Rightarrow> enip_state rust" where
  "on_cpf_items c h [] af = Some af"
| "on_cpf_items c h (item # items) af = do { af' \<leftarrow> on_cpf_item c h item af; on_cpf_items c h items af' }"

definition enip_process_pdu :: "enip_context \<Rightarrow> bytes \<Rightarrow> enip_state \<Rightarrow> enip_state rust" where
  "enip_process_pdu c pdu af =
     (let (a, f) = af in
      if ef_is_non_enip f then Some (a, f)
      else let f1 = f\<lparr>ef_pdu_count := sat_add64 (ef_pdu_count f) 1\<rparr> in
        case parse_enip_header pdu of
          None \<Rightarrow> Some (a, f1)
        | Some h \<Rightarrow>
            let cls = classify_enip_command (eh_command h) in
            if cls = ListIdentity then Some (detect_list_identity c h (a, f1))
            else if cls \<noteq> SendRRData \<and> cls \<noteq> SendUnitData then Some (a, f1)
            else if length pdu \<le> 30 then Some (a, f1)
            else on_cpf_items c h (parse_cpf_items (drop 30 pdu)) (a, f1))"

fun process_pdus :: "enip_context \<Rightarrow> bytes list \<Rightarrow> enip_state \<Rightarrow> enip_state rust" where
  "process_pdus c [] af = Some af"
| "process_pdus c (pdu # pdus) af = do { af' \<leftarrow> enip_process_pdu c pdu af; process_pdus c pdus af' }"

section \<open>The walk\<close>

definition count_command :: "u16 \<Rightarrow> enip_flow_state \<Rightarrow> enip_flow_state rust" where
  "count_command command f = do {
     n \<leftarrow> add64 (case hm_get (ef_command_counts f) command of Some n \<Rightarrow> n | None \<Rightarrow> 0) 1;
     Some (f\<lparr>ef_command_counts := hm_insert command n (ef_command_counts f)\<rparr>)
   }"

definition count_malformed :: "enip_context \<Rightarrow> enip_state \<Rightarrow> enip_state" where
  "count_malformed c af =
     (let (a, f) = af in
      check_t0814 c
        (a, f\<lparr>ef_parse_errors := sat_add64 (ef_parse_errors f) 1, ef_malformed_in_window := sat_add64 (ef_malformed_in_window f) 1\<rparr>))"

text \<open>The loop. It returns the state, the queue of complete frames and what is left of the buffer.\<close>

function enip_walk :: "enip_context \<Rightarrow> bytes \<Rightarrow> bytes list \<Rightarrow> enip_state \<Rightarrow> (enip_state \<times> bytes list \<times> bytes) rust" where
  "enip_walk c buf queue af =
     (if length buf < 24 then Some (af, queue, buf)
      else case parse_enip_header (take 24 buf) of
        None \<Rightarrow> enip_walk c (tl buf) queue af
      | Some h \<Rightarrow>
          let (a, f) = af; total_frame_len = 24 + unat (eh_length h) in
          if \<not> is_valid_enip_frame h then
            (case count_command (eh_command h) f of
               None \<Rightarrow> None
             | Some f1 \<Rightarrow> enip_walk c (tl buf) queue (count_malformed c (a, f1)))
          else if total_frame_len > max_enip_carry_bytes then
            (case count_command (eh_command h) f of
               None \<Rightarrow> None
             | Some f1 \<Rightarrow> enip_walk c (drop (min total_frame_len (length buf)) buf) queue (count_malformed c (a, f1)))
          else if length buf < total_frame_len then Some (af, queue, buf)
          else
            (case count_command (eh_command h) f of
               None \<Rightarrow> None
             | Some f1 \<Rightarrow> enip_walk c (drop total_frame_len buf) (queue @ [take total_frame_len buf]) (a, f1)))"
  by pat_completeness auto
termination
  by (relation "measure (\<lambda>(c, buf, queue, af). length buf)") (auto simp: not_less)

declare enip_walk.simps [simp del]

section \<open>Entry points\<close>

fun enip_carry :: "direction \<Rightarrow> enip_flow_state \<Rightarrow> bytes" where
  "enip_carry ClientToServer f = ef_carry_c2s f"
| "enip_carry ServerToClient f = ef_carry_s2c f"

fun set_enip_carry :: "direction \<Rightarrow> bytes \<Rightarrow> enip_flow_state \<Rightarrow> enip_flow_state" where
  "set_enip_carry ClientToServer bs f = f\<lparr>ef_carry_c2s := bs\<rparr>"
| "set_enip_carry ServerToClient bs f = f\<lparr>ef_carry_s2c := bs\<rparr>"

definition enip_context_of :: "flow_key \<Rightarrow> direction \<Rightarrow> u32 \<Rightarrow> enip_context" where
  "enip_context_of key dir ts =
     (let (client_ip, server_ip) =
            (if lower_port key = 44818 then (upper_ip key, lower_ip key) else (lower_ip key, upper_ip key))
      in case dir of
           ClientToServer \<Rightarrow> \<lparr>ec_src_ip = client_ip, ec_dest_ip = server_ip, ec_now = ts\<rparr>
         | ServerToClient \<Rightarrow> \<lparr>ec_src_ip = server_ip, ec_dest_ip = client_ip, ec_now = ts\<rparr>)"

definition expire_malformed_window :: "u32 \<Rightarrow> enip_flow_state \<Rightarrow> enip_flow_state" where
  "expire_malformed_window now f =
     (if sat_subw now (ef_malformed_window_start_ts f) > 300
      then f\<lparr>ef_malformed_in_window := 0, ef_malformed_anomaly_emitted := False, ef_malformed_window_start_ts := now\<rparr>
      else f)"

text \<open>The check of the carry's cap after the walk.\<close>

definition cap_carry :: "enip_context \<Rightarrow> direction \<Rightarrow> enip_state \<Rightarrow> enip_state" where
  "cap_carry c dir af =
     (if length (enip_carry dir (snd af)) > max_enip_carry_bytes
      then let (a, f) = count_malformed c af in (a, set_enip_carry dir [] (f\<lparr>ef_is_non_enip := True\<rparr>))
      else af)"

definition enip_on_data :: "enip_analyzer \<Rightarrow> flow_key \<Rightarrow> bytes \<Rightarrow> u32 \<Rightarrow> direction \<Rightarrow> enip_analyzer rust" where
  "enip_on_data a key data ts dir =
     (let a0 = a\<lparr>ea_bytes_received := sat_add64 (ea_bytes_received a) (length data)\<rparr>;
          c = enip_context_of key dir ts;
          f = (case hm_get (ea_flows a0) key of Some f \<Rightarrow> f | None \<Rightarrow> enip_flow_state_new)
      in if ef_is_non_enip f then Some (a0\<lparr>ea_flows := hm_insert key f (ea_flows a0)\<rparr>)
         else do {
           let f1 = expire_malformed_window ts f;
           let buf = enip_carry dir f1 @ data;
           ((a2, f2), queue, rest) \<leftarrow> enip_walk c buf [] (a0, set_enip_carry dir [] f1);
           (a3, f3) \<leftarrow> process_pdus c queue (cap_carry c dir (a2, set_enip_carry dir rest f2));
           Some (a3\<lparr>ea_flows := hm_insert key f3 (hm_remove key (ea_flows a3))\<rparr>)
         })"

text \<open>Saturating sums do not depend on the order in which the table of flows is visited.\<close>

record enip_summary =
  es_command_distribution :: "(u16, u64) hash_map"
  es_total_pdu_count :: u64
  es_parse_errors :: u64
  es_write_count :: u64
  es_error_count :: u64
  es_flows_analyzed :: u64
  es_dropped_findings :: u64

definition enip_totals :: "enip_analyzer \<Rightarrow> enip_summary" where
  "enip_totals a =
     (let flows = map snd (ea_flows a) in
      \<lparr>es_command_distribution = foldl (\<lambda>d f. fold_counts (ef_command_counts f) d) (ea_command_distribution a) flows,
       es_total_pdu_count = foldl (\<lambda>n f. sat_add64 n (ef_pdu_count f)) (ea_total_pdu_count a) flows,
       es_parse_errors = foldl (\<lambda>n f. sat_add64 n (ef_parse_errors f)) (ea_parse_errors a) flows,
       es_write_count = ea_write_count a, es_error_count = ea_error_count a,
       es_flows_analyzed = sat_add64 (ea_flows_analyzed a) (foldl (\<lambda>n f. sat_add64 n 1) 0 flows),
       es_dropped_findings = ea_dropped_findings a\<rparr>)"

definition enip_summarize :: "enip_analyzer \<Rightarrow> analysis_summary" where
  "enip_summarize a =
     (let s = enip_totals a in
      \<lparr>analyzer_name = ''EtherNet/IP'', packets_analyzed = es_total_pdu_count s,
       detail = [''enip_summary'' \<mapsto> Object
         [(''command_distribution'', Distribution16 (\<lambda>cmd. case hm_get (es_command_distribution s) cmd of
              Some n \<Rightarrow> if n > 0 then Some n else None | None \<Rightarrow> None)),
          (''total_pdu_count'', Num (es_total_pdu_count s)),
          (''parse_errors'', Num (es_parse_errors s)),
          (''write_count'', Num (es_write_count s)),
          (''error_count'', Num (es_error_count s)),
          (''flows_analyzed'', Num (es_flows_analyzed s)),
          (''dropped_findings'', Num (es_dropped_findings s))]]\<rparr>)"

definition enip_handler :: "enip_analyzer stream_handler" where
  "enip_handler =
     \<lparr>on_data = (\<lambda>a key dir data off ts. enip_on_data a key data ts dir),
      on_flow_close = (\<lambda>a key reason. Some (enip_on_flow_close a key))\<rparr>"

end
