(* ===== verification/Enip_Inv.thy ===== *)
theory Enip_Inv
  imports Enip Engine_Run
begin

text \<open>
  The invariant of the EtherNet/IP analyzer. Two tables count without saturation, the commands of
  a flow and its errors in a window; both are paid for by bytes of the stream. A carry stays
  below its cap, so the branch that gives up on a flow is never taken.
\<close>

declare split_paired_All [simp del] split_paired_Ex [simp del]

section \<open>What the detectors leave alone\<close>

fun enip_kept :: "enip_state \<Rightarrow> enip_state \<Rightarrow> bool" where
  "enip_kept (a, f) (a', f') \<longleftrightarrow>
     ea_flows a' = ea_flows a \<and> ea_seed a' = ea_seed a \<and>
     ea_write_burst_threshold a' = ea_write_burst_threshold a \<and> ea_error_burst_threshold a' = ea_error_burst_threshold a \<and>
     ef_carry_c2s f' = ef_carry_c2s f \<and> ef_carry_s2c f' = ef_carry_s2c f \<and> ef_is_non_enip f' = ef_is_non_enip f \<and>
     (length (ea_all_findings a) \<le> enip_max_findings \<longrightarrow> length (ea_all_findings a') \<le> enip_max_findings)"

lemma enip_kept_refl [simp]: "enip_kept af af"
  by (cases af) simp

lemma enip_kept_trans: "enip_kept af bf \<Longrightarrow> enip_kept bf cf \<Longrightarrow> enip_kept af cf"
  by (cases af; cases bf; cases cf) auto

text \<open>The two tables.\<close>

definition enip_same_tables :: "enip_flow_state \<Rightarrow> enip_flow_state \<Rightarrow> bool" where
  "enip_same_tables f f' \<longleftrightarrow>
     ef_command_counts f' = ef_command_counts f \<and> ef_error_counts_in_window f' = ef_error_counts_in_window f"

lemma enip_same_tables_trans: "enip_same_tables f g \<Longrightarrow> enip_same_tables g h \<Longrightarrow> enip_same_tables f h"
  by (simp add: enip_same_tables_def)

text \<open>A detector that keeps both.\<close>

definition quiet_detector :: "(enip_state \<Rightarrow> enip_state) \<Rightarrow> bool" where
  "quiet_detector d \<longleftrightarrow> (\<forall>af. enip_kept af (d af) \<and> enip_same_tables (snd af) (snd (d af)))"

lemma quiet_detectorD: "quiet_detector d \<Longrightarrow> enip_kept af (d af)" "quiet_detector d \<Longrightarrow> enip_same_tables (snd af) (snd (d af))"
  by (simp_all add: quiet_detector_def)

lemma quiet_comp: "quiet_detector d \<Longrightarrow> quiet_detector e \<Longrightarrow> quiet_detector (\<lambda>af. e (d af))"
  unfolding quiet_detector_def using enip_kept_trans enip_same_tables_trans by blast

lemma quiet_detectors:
  "quiet_detector (detect_identity_read c cip)" "quiet_detector (detect_stop c h cip)" "quiet_detector (detect_reset c h cip)"
  "quiet_detector (detect_cip_write c h cip)" "quiet_detector (detect_lifecycle c h cip)" "quiet_detector (detect_list_identity c h)"
  "quiet_detector (check_t0814 c)"
  by (auto simp: quiet_detector_def enip_same_tables_def detect_identity_read_def detect_stop_def detect_reset_def detect_cip_write_def
      detect_lifecycle_def detect_list_identity_def check_t0814_def count_cip_write_def enip_push_def enip_push_guarded_def Let_def)

lemma quiet_malformed: "quiet_detector (count_malformed c)"
proof -
  have "quiet_detector (\<lambda>(a, f). (a, f\<lparr>ef_parse_errors := sat_add64 (ef_parse_errors f) 1,
      ef_malformed_in_window := sat_add64 (ef_malformed_in_window f) 1\<rparr>))"
    by (auto simp: quiet_detector_def enip_same_tables_def)
  moreover have "count_malformed c = (\<lambda>af. check_t0814 c ((\<lambda>(a, f). (a, f\<lparr>ef_parse_errors := sat_add64 (ef_parse_errors f) 1,
      ef_malformed_in_window := sat_add64 (ef_malformed_in_window f) 1\<rparr>)) af))"
    by (rule ext) (simp add: count_malformed_def split: prod.split)
  ultimately show ?thesis using quiet_comp [OF _ quiet_detectors(7) [of c]] by simp
qed

definition on_cip_request :: "enip_context \<Rightarrow> enip_header \<Rightarrow> cip_header \<Rightarrow> enip_state \<Rightarrow> enip_state" where
  "on_cip_request c h cip af = detect_lifecycle c h cip (detect_cip_write c h cip (detect_reset c h cip (detect_stop c h cip
     (detect_identity_read c cip af))))"

lemma quiet_request: "quiet_detector (on_cip_request c h cip)"
  using quiet_comp [OF quiet_comp [OF quiet_comp [OF quiet_comp [OF quiet_detectors(1,2)] quiet_detectors(3)] quiet_detectors(4)] quiet_detectors(5)]
  by (simp add: quiet_detector_def on_cip_request_def)

lemma push_guarded_kept: "enip_kept af (a', f') \<Longrightarrow> enip_kept (a', f') (a', g f') \<Longrightarrow> enip_kept af (enip_push_guarded fi g (a', f'))"
  by (cases af) (auto simp: enip_push_guarded_def)

lemma expire_error_frame:
  "ef_carry_c2s (expire_error_window now f) = ef_carry_c2s f \<and> ef_carry_s2c (expire_error_window now f) = ef_carry_s2c f \<and>
   ef_is_non_enip (expire_error_window now f) = ef_is_non_enip f"
  by (simp add: expire_error_window_def)

lemma count_error_frame:
  "count_cip_error now st f = Some (f', n) \<Longrightarrow>
   ef_carry_c2s f' = ef_carry_c2s f \<and> ef_carry_s2c f' = ef_carry_s2c f \<and> ef_is_non_enip f' = ef_is_non_enip f"
  using expire_error_frame [of now f] by (auto simp: count_cip_error_def bind_eq_Some_conv Let_def split: if_splits)

lemma cip_error_kept:
  assumes "on_cip_error c st af = Some af'"
  shows "enip_kept af af'"
proof -
  obtain a f where af: "af = (a, f)" by force
  obtain f1 n where e: "count_cip_error (ec_now c) st f = Some (f1, n)" using assms by (auto simp: on_cip_error_def af bind_eq_Some_conv)
  have "enip_kept af (a\<lparr>ea_error_count := k\<rparr>, f1)" for k using count_error_frame [OF e] by (simp add: af)
  moreover have "enip_kept (b, f1) (b, f1\<lparr>ef_error_rate_emitted := True\<rparr>)" for b by simp
  ultimately show ?thesis using assms by (auto simp: on_cip_error_def af e Let_def simp del: enip_kept.simps intro!: push_guarded_kept)
qed

lemma cpf_item_kept: "on_cpf_item c h item af = Some af' \<Longrightarrow> enip_kept af af'"
  using quiet_detectorD(1) [OF quiet_request, of af c h]
  by (auto simp: on_cpf_item_def on_cip_response_def simp flip: on_cip_request_def simp del: enip_kept.simps
      intro: cip_error_kept split: if_splits option.splits)

lemma cpf_items_kept: "on_cpf_items c h items af = Some af' \<Longrightarrow> enip_kept af af'"
proof (induction items arbitrary: af)
  case (Cons item items)
  then obtain af1 where "on_cpf_item c h item af = Some af1" "on_cpf_items c h items af1 = Some af'"
    by (auto simp: bind_eq_Some_conv)
  with Cons.IH show ?case using cpf_item_kept enip_kept_trans by blast
qed simp

lemma process_pdu_kept:
  assumes "enip_process_pdu c pdu af = Some af'"
  shows "enip_kept af af'"
proof -
  obtain a f where af: "af = (a, f)" by force
  let ?af1 = "(a, f\<lparr>ef_pdu_count := sat_add64 (ef_pdu_count f) 1\<rparr>)"
  have "enip_kept af ?af1" by (simp add: af)
  moreover have "af' = af \<or> enip_kept ?af1 af'"
    using assms quiet_detectorD(1) [OF quiet_detectors(6), of ?af1]
    by (auto simp: af enip_process_pdu_def Let_def simp del: enip_kept.simps dest: cpf_items_kept split: if_splits option.splits)
  ultimately show ?thesis using enip_kept_trans enip_kept_refl by blast
qed

lemma process_pdus_kept: "process_pdus c pdus af = Some af' \<Longrightarrow> enip_kept af af'"
proof (induction pdus arbitrary: af)
  case (Cons pdu pdus)
  then obtain af1 where "enip_process_pdu c pdu af = Some af1" "process_pdus c pdus af1 = Some af'"
    by (auto simp: bind_eq_Some_conv)
  with Cons.IH show ?case using process_pdu_kept enip_kept_trans by blast
qed simp

section \<open>Room in the tables\<close>

definition enip_room :: "nat \<Rightarrow> nat \<Rightarrow> enip_flow_state \<Rightarrow> bool" where
  "enip_room C E f \<longleftrightarrow>
     hm_ok (ef_command_counts f) \<and> (\<forall>(k, n) \<in> set (ef_command_counts f). n + C \<le> u64_max) \<and> C \<le> u64_max \<and>
     hm_ok (ef_error_counts_in_window f) \<and> weight (\<lambda>n. n) (ef_error_counts_in_window f) + E \<le> u64_max"

lemma enip_room_mono: "enip_room C E f \<Longrightarrow> C' \<le> C \<Longrightarrow> E' \<le> E \<Longrightarrow> enip_room C' E' f"
  unfolding enip_room_def by fastforce

lemma enip_room_tables: "enip_same_tables f f' \<Longrightarrow> enip_room C E f' = enip_room C E f"
  by (simp add: enip_room_def enip_same_tables_def)

lemma weight_add_one:
  fixes m :: "('k, nat) hash_map"
  assumes "hm_ok m"
  shows "weight (\<lambda>n. n) (hm_insert k ((case hm_get m k of Some n \<Rightarrow> n | None \<Rightarrow> 0) + 1) m) = weight (\<lambda>n. n) m + 1"
  using hmap.weight_put [OF assms, of "\<lambda>n. n" k "(case hm_get m k of Some n \<Rightarrow> n | None \<Rightarrow> 0) + 1"]
  by (auto split: option.splits)

lemma weight_get:
  fixes m :: "('k, nat) hash_map"
  assumes "hm_ok m"
  shows "(case hm_get m k of Some n \<Rightarrow> n | None \<Rightarrow> 0) \<le> weight (\<lambda>n. n) m"
  using hmap.get_iff [OF assms, of k] weight_ge [of k _ m "\<lambda>n. n"] by (auto split: option.splits)

lemma count_error_room:
  assumes "enip_room C (E + 1) f"
  shows "\<exists>f' n. count_cip_error now st f = Some (f', n) \<and> enip_room C E f'"
proof -
  let ?f1 = "expire_error_window now f"
  let ?m = "ef_error_counts_in_window ?f1"
  let ?n = "case hm_get ?m st of Some n \<Rightarrow> n | None \<Rightarrow> 0"
  have r: "enip_room C (E + 1) ?f1" using assms by (auto simp: expire_error_window_def enip_room_def)
  then have ok: "hm_ok ?m" and w: "weight (\<lambda>n. n) ?m + (E + 1) \<le> u64_max" by (simp_all add: enip_room_def)
  have n: "?n + 1 \<le> u64_max" using weight_get [OF ok, of st] w by simp
  have wi: "weight (\<lambda>n. n) (hm_insert st (?n + 1) ?m) = weight (\<lambda>n. n) ?m + 1" by (rule weight_add_one [OF ok])
  let ?f2 = "?f1\<lparr>ef_error_counts_in_window := hm_insert st (?n + 1) ?m\<rparr>"
  define f3 where "f3 = (if \<not> ef_error_window_active ?f2 then ?f2\<lparr>ef_error_window_start_ts := now, ef_error_window_active := True\<rparr> else ?f2)"
  have m3: "ef_error_counts_in_window f3 = hm_insert st (?n + 1) ?m" "ef_command_counts f3 = ef_command_counts ?f1"
    by (simp_all add: f3_def)
  have "enip_room C E f3"
    using r wi w hm_ok_insert [OF ok, of st "?n + 1"] by (simp add: enip_room_def m3)
  moreover have "sum64 (map snd (ef_error_counts_in_window f3)) = Some (weight (\<lambda>n. n) ?m + 1)"
    using wi w by (simp add: sum64_eq m3 weight_def)
  ultimately show ?thesis
    unfolding count_cip_error_def Let_def add64_ok [OF n] bind.bind_lunit f3_def [symmetric] by simp
qed

lemma cip_error_room:
  assumes "enip_room C (E + 1) (snd af)"
  shows "\<exists>af'. on_cip_error c st af = Some af' \<and> enip_room C E (snd af')"
proof -
  obtain a f where af: "af = (a, f)" by force
  from assms obtain f1 n where "count_cip_error (ec_now c) st f = Some (f1, n)" "enip_room C E f1"
    using count_error_room [of C E f "ec_now c" st] by (auto simp: af)
  then show ?thesis by (auto simp: on_cip_error_def af enip_push_guarded_def enip_room_def Let_def)
qed

lemma cpf_item_room:
  assumes "enip_room C (E + 1) (snd af)"
  shows "\<exists>af'. on_cpf_item c h item af = Some af' \<and> enip_room C E (snd af')"
proof -
  have r: "enip_room C E (snd af)" using enip_room_mono [OF assms, of C E] by simp
  moreover have "enip_room C E (snd (on_cip_request c h cip af))" for cip
    using enip_room_tables [OF quiet_detectorD(2) [OF quiet_request]] r by blast
  ultimately show ?thesis
    using cip_error_room [OF assms]
    by (simp add: on_cpf_item_def on_cip_response_def split: option.split flip: on_cip_request_def)
qed

lemma cpf_items_room:
  assumes "enip_room C (E + length items) (snd af)"
  shows "\<exists>af'. on_cpf_items c h items af = Some af' \<and> enip_room C E (snd af')"
  using assms
proof (induction items arbitrary: af)
  case (Cons item items)
  then have "enip_room C (E + length items + 1) (snd af)" by simp
  from cpf_item_room [OF this, of c h item] Cons.IH show ?case by fastforce
qed simp

lemma cpf_loop_size: "length (cpf_loop n bs) * 4 \<le> length bs"
proof (induction n bs rule: cpf_loop.induct)
  case (2 n rest)
  show ?case
  proof (cases "length rest < 4 \<or> length (drop 4 rest) < unat (enip_le16 rest 2)")
    case False
    then have "length (cpf_loop n (drop (unat (enip_le16 rest 2)) (drop 4 rest))) * 4 \<le> length (drop (unat (enip_le16 rest 2)) (drop 4 rest))"
      by (intro "2.IH" [OF _ refl refl]) auto
    then have "length (cpf_loop n (drop (unat (enip_le16 rest 2)) (drop 4 rest))) * 4 + 4 \<le> length rest"
      using False by (simp only: length_drop) linarith
    then show ?thesis using False by (simp add: Let_def)
  qed (auto simp: Let_def)
qed simp

lemma cpf_items_size: "length (parse_cpf_items bs) \<le> length bs"
  using cpf_loop_size [of "unat (enip_le16 bs 0)" "drop 2 bs"] by (auto simp: parse_cpf_items_def)

lemma process_pdu_room:
  assumes "enip_room C (E + length pdu) (snd af)"
  shows "\<exists>af'. enip_process_pdu c pdu af = Some af' \<and> enip_room C E (snd af')"
proof -
  obtain a f where af: "af = (a, f)" by force
  let ?af1 = "(a, f\<lparr>ef_pdu_count := sat_add64 (ef_pdu_count f) 1\<rparr>)"
  let ?items = "parse_cpf_items (drop 30 pdu)"
  have l: "length ?items \<le> length pdu" using cpf_items_size [of "drop 30 pdu"] by simp
  have "enip_room C (E + length pdu) (snd ?af1)" using assms by (simp add: af enip_room_def)
  then have "enip_room C (E + length ?items) (snd ?af1)" using l by (elim enip_room_mono) auto
  from cpf_items_room [OF this] have i: "\<exists>af'. on_cpf_items c h ?items ?af1 = Some af' \<and> enip_room C E (snd af')" for h by blast
  have r: "enip_room C E (snd ?af1)" "enip_room C E f" using assms enip_room_mono [of C "E + length pdu" f C E] by (auto simp: af enip_room_def)
  moreover have "enip_room C E (snd (detect_list_identity c h ?af1))" for h
    using enip_room_tables [OF quiet_detectorD(2) [OF quiet_detectors(6)]] r(1) by blast
  ultimately show ?thesis using i by (simp add: af enip_process_pdu_def Let_def split: option.split)
qed

lemma process_pdus_room:
  assumes "enip_room C (E + sum_list (map length pdus)) (snd af)"
  shows "\<exists>af'. process_pdus c pdus af = Some af' \<and> enip_room C E (snd af')"
  using assms
proof (induction pdus arbitrary: af)
  case (Cons pdu pdus)
  then have "enip_room C (E + sum_list (map length pdus) + length pdu) (snd af)" by (simp add: ac_simps)
  from process_pdu_room [OF this, of c] Cons.IH show ?case by fastforce
qed simp

lemma count_command_room:
  assumes "enip_room (C + 1) E f"
  shows "\<exists>m. count_command cmd f = Some (f\<lparr>ef_command_counts := m\<rparr>) \<and> enip_room C E (f\<lparr>ef_command_counts := m\<rparr>)"
proof -
  let ?m = "ef_command_counts f"
  let ?n = "case hm_get ?m cmd of Some n \<Rightarrow> n | None \<Rightarrow> 0"
  have ok: "hm_ok ?m" and b: "\<forall>(k, n) \<in> set ?m. n + (C + 1) \<le> u64_max" "C + 1 \<le> u64_max"
    using assms by (simp_all add: enip_room_def)
  have n: "?n + 1 + C \<le> u64_max"
    using b by (auto simp: hmap.get_iff [OF ok] split: option.split)
  then have "enip_room C E (f\<lparr>ef_command_counts := hm_insert cmd (?n + 1) ?m\<rparr>)"
    using assms by (auto simp: enip_room_def hm_ok_insert hmap.set_put [OF ok])
  moreover have "count_command cmd f = Some (f\<lparr>ef_command_counts := hm_insert cmd (?n + 1) ?m\<rparr>)"
    using n by (simp add: count_command_def)
  ultimately show ?thesis by blast
qed

lemma count_command_frame: "count_command cmd f = Some f1 \<Longrightarrow> \<exists>m. f1 = f\<lparr>ef_command_counts := m\<rparr>"
  by (auto simp: count_command_def bind_eq_Some_conv)

section \<open>The walk\<close>

abbreviation frame_len :: "enip_header \<Rightarrow> nat" where
  "frame_len h \<equiv> 24 + unat (eh_length h)"

lemma enip_walk_cases:
  obtains (short) "length buf < 24" "enip_walk c buf queue (a, f) = Some ((a, f), queue, buf)"
  | (reject) h where "24 \<le> length buf" "parse_enip_header (take 24 buf) = Some h" "\<not> is_valid_enip_frame h"
      "enip_walk c buf queue (a, f) = do { f1 \<leftarrow> count_command (eh_command h) f; enip_walk c (tl buf) queue (count_malformed c (a, f1)) }"
  | (skip) h where "24 \<le> length buf" "parse_enip_header (take 24 buf) = Some h" "is_valid_enip_frame h" "600 < frame_len h"
      "enip_walk c buf queue (a, f) = do { f1 \<leftarrow> count_command (eh_command h) f;
         enip_walk c (drop (min (frame_len h) (length buf)) buf) queue (count_malformed c (a, f1)) }"
  | (partial) h where "24 \<le> length buf" "parse_enip_header (take 24 buf) = Some h" "is_valid_enip_frame h" "frame_len h \<le> 600"
      "length buf < frame_len h" "enip_walk c buf queue (a, f) = Some ((a, f), queue, buf)"
  | (frame) h where "parse_enip_header (take 24 buf) = Some h" "is_valid_enip_frame h" "frame_len h \<le> 600" "frame_len h \<le> length buf"
      "enip_walk c buf queue (a, f) = do { f1 \<leftarrow> count_command (eh_command h) f;
         enip_walk c (drop (frame_len h) buf) (queue @ [take (frame_len h) buf]) (a, f1) }"
proof (cases "length buf < 24")
  case True
  then show ?thesis using short by (simp add: enip_walk.simps [of c buf])
next
  case False
  then obtain h where h: "parse_enip_header (take 24 buf) = Some h" by (simp add: parse_enip_header_def)
  note st = enip_walk.simps [of c buf queue "(a, f)"]
  consider "\<not> is_valid_enip_frame h" | "is_valid_enip_frame h" "600 < frame_len h"
    | "is_valid_enip_frame h" "frame_len h \<le> 600" "length buf < frame_len h"
    | "is_valid_enip_frame h" "frame_len h \<le> 600" "frame_len h \<le> length buf" by linarith
  then show ?thesis
  proof cases
    case 1
    then show ?thesis using reject False h by (simp add: st Option.bind_def [abs_def] split: option.splits)
  next
    case 2
    then show ?thesis using skip False h by (simp add: st max_enip_carry_bytes_def Let_def split: option.splits)
  next
    case 3
    then show ?thesis using partial False h by (simp add: st max_enip_carry_bytes_def Let_def)
  next
    case 4
    then show ?thesis using frame False h by (simp add: st max_enip_carry_bytes_def Let_def split: option.splits)
  qed
qed

lemma command_kept: "count_command cmd f = Some f1 \<Longrightarrow> enip_kept (a, f) (a, f1)"
  by (auto dest: count_command_frame)

lemma malformed_kept: "count_command cmd f = Some f1 \<Longrightarrow> enip_kept (a, f) (count_malformed c (a, f1))"
  using enip_kept_trans [OF command_kept quiet_detectorD(1) [OF quiet_malformed]] .

lemma enip_walk_kept: "enip_walk c buf queue af = Some (af', queue', rest) \<Longrightarrow> enip_kept af af'"
proof (induction "length buf" arbitrary: buf queue af rule: less_induct)
  case less
  obtain a f where af: "af = (a, f)" by force
  show ?case
  proof (cases rule: enip_walk_cases [of buf c queue a f])
    case (reject h)
    from reject(4) less.prems obtain f1 where f1: "count_command (eh_command h) f = Some f1"
      "enip_walk c (tl buf) queue (count_malformed c (a, f1)) = Some (af', queue', rest)" by (auto simp: af bind_eq_Some_conv)
    show ?thesis unfolding af
      by (rule enip_kept_trans [OF malformed_kept [OF f1(1)] less.hyps [OF _ f1(2)]]) (use reject(1) in simp)
  next
    case (skip h)
    from skip(5) less.prems obtain f1 where f1: "count_command (eh_command h) f = Some f1"
      "enip_walk c (drop (min (frame_len h) (length buf)) buf) queue (count_malformed c (a, f1)) = Some (af', queue', rest)"
      by (auto simp: af bind_eq_Some_conv)
    show ?thesis unfolding af
      by (rule enip_kept_trans [OF malformed_kept [OF f1(1)] less.hyps [OF _ f1(2)]]) (use skip(1) in simp)
  next
    case (frame h)
    from frame(5) less.prems obtain f1 where f1: "count_command (eh_command h) f = Some f1"
      "enip_walk c (drop (frame_len h) buf) (queue @ [take (frame_len h) buf]) (a, f1) = Some (af', queue', rest)"
      by (auto simp: af bind_eq_Some_conv)
    show ?thesis unfolding af
      by (rule enip_kept_trans [OF command_kept [OF f1(1)] less.hyps [OF _ f1(2)]]) (use frame(4) in simp)
  qed (use less.prems in \<open>simp_all add: af\<close>)
qed

text \<open>What the walk needs and leaves: room for the bytes of the buffer, and for those of the rest.\<close>

definition enip_walked :: "nat \<Rightarrow> nat \<Rightarrow> bytes list \<Rightarrow> bytes \<Rightarrow> (enip_state \<times> bytes list \<times> bytes) option \<Rightarrow> bool" where
  "enip_walked C E queue buf r \<longleftrightarrow>
     (\<exists>af' q rest. r = Some (af', queue @ q, rest) \<and> enip_room (C + length rest) E (snd af') \<and>
        sum_list (map length q) + length rest \<le> length buf \<and> length rest < 600)"

lemma enip_walked_step:
  assumes "enip_walked C E (queue @ q) buf1 r" and "length buf1 + sum_list (map length q) \<le> length buf"
  shows "enip_walked C E queue buf r"
proof -
  obtain af' q' rest where "r = Some (af', queue @ (q @ q'), rest)" "enip_room (C + length rest) E (snd af')"
      "sum_list (map length q') + length rest \<le> length buf1" "length rest < 600"
    using assms(1) by (auto simp: enip_walked_def)
  then show ?thesis using assms(2) by (fastforce simp: enip_walked_def)
qed

lemma enip_walk_walked:
  assumes "enip_room (C + length buf) E (snd af)"
  shows "enip_walked C E queue buf (enip_walk c buf queue af)"
  using assms
proof (induction "length buf" arbitrary: buf queue af rule: less_induct)
  case less
  obtain a f where af: "af = (a, f)" by force
  have room: "\<exists>f1. count_command cmd f = Some f1 \<and> enip_room (C + length buf1) E f1" if "length buf1 < length buf" for cmd and buf1 :: bytes
  proof -
    have "enip_room (C + length buf1 + 1) E f" using less.prems that by (simp add: af) (erule enip_room_mono, simp_all)
    from count_command_room [OF this] show ?thesis by blast
  qed
  have mal: "enip_room N E (snd (count_malformed c (a, f1))) = enip_room N E f1" for N f1
    using enip_room_tables [OF quiet_detectorD(2) [OF quiet_malformed, of "(a, f1)"]] by simp
  show ?case
  proof (cases rule: enip_walk_cases [of buf c queue a f])
    case (reject h)
    then have l: "length (tl buf) < length buf" by auto
    obtain f1 where f1: "count_command (eh_command h) f = Some f1" "enip_room (C + length (tl buf)) E f1" using room [OF l] by blast
    have "enip_walked C E queue (tl buf) (enip_walk c (tl buf) queue (count_malformed c (a, f1)))"
      by (rule less.hyps [OF l]) (simp only: mal f1(2))
    then show ?thesis using enip_walked_step [of C E queue "[]" "tl buf"] l f1(1) reject(4) by (simp add: af)
  next
    case (skip h)
    let ?rest = "drop (min (frame_len h) (length buf)) buf"
    have l: "length ?rest < length buf" using skip(1) by auto
    obtain f1 where f1: "count_command (eh_command h) f = Some f1" "enip_room (C + length ?rest) E f1" using room [OF l] by blast
    have "enip_walked C E queue ?rest (enip_walk c ?rest queue (count_malformed c (a, f1)))"
      by (rule less.hyps [OF l]) (simp only: mal f1(2))
    then show ?thesis using enip_walked_step [of C E queue "[]" ?rest] l f1(1) skip(5) by (simp add: af)
  next
    case (frame h)
    let ?rest = "drop (frame_len h) buf"
    have l: "length ?rest < length buf" using frame(4) by auto
    obtain f1 where f1: "count_command (eh_command h) f = Some f1" "enip_room (C + length ?rest) E f1" using room [OF l] by blast
    have "enip_walked C E (queue @ [take (frame_len h) buf]) ?rest (enip_walk c ?rest (queue @ [take (frame_len h) buf]) (a, f1))"
      by (rule less.hyps [OF l]) (simp only: snd_conv f1(2))
    then show ?thesis using enip_walked_step [of C E queue "[take (frame_len h) buf]" ?rest] frame(4) f1(1) frame(5) by (simp add: af)
  qed (use less.prems in \<open>simp_all add: af enip_walked_def\<close>)
qed

section \<open>Deliveries\<close>

definition enip_load :: "enip_flow_state \<Rightarrow> nat" where
  "enip_load f = length (ef_carry_c2s f) + length (ef_carry_s2c f)"

definition enip_flow_ok :: "nat \<Rightarrow> enip_flow_state \<Rightarrow> bool" where
  "enip_flow_ok n f \<longleftrightarrow>
     length (ef_carry_c2s f) < 600 \<and> length (ef_carry_s2c f) < 600 \<and> \<not> ef_is_non_enip f \<and>
     enip_room (enip_load f + n) (enip_load f + n) f"

definition enip_ok :: "nat \<Rightarrow> enip_analyzer \<Rightarrow> bool" where
  "enip_ok n a \<longleftrightarrow>
     hm_ok (ea_flows a) \<and> (\<forall>(k, f) \<in> set (ea_flows a). enip_flow_ok n f) \<and>
     length (ea_all_findings a) \<le> enip_max_findings \<and> n \<le> u64_max"

definition enip_flow_of :: "enip_analyzer \<Rightarrow> flow_key \<Rightarrow> enip_flow_state" where
  "enip_flow_of a key = (case hm_get (ea_flows a) key of Some f \<Rightarrow> f | None \<Rightarrow> enip_flow_state_new)"

lemma enip_flow_ok_mono: "enip_flow_ok n f \<Longrightarrow> m \<le> n \<Longrightarrow> enip_flow_ok m f"
  unfolding enip_flow_ok_def by (auto elim!: enip_room_mono)

lemma enip_ok_mono: "enip_ok n a \<Longrightarrow> m \<le> n \<Longrightarrow> enip_ok m a"
  unfolding enip_ok_def by (auto intro: enip_flow_ok_mono)

lemma enip_flow_of_ok:
  assumes "enip_ok n a"
  shows "enip_flow_ok n (enip_flow_of a key)"
proof (cases "hm_get (ea_flows a) key")
  case None
  then show ?thesis
    using assms by (simp add: enip_flow_of_def enip_flow_state_new_def enip_flow_ok_def enip_room_def enip_load_def enip_ok_def)
next
  case (Some f)
  then have "(key, f) \<in> set (ea_flows a)" using assms hmap.get_iff [of "ea_flows a" key f] by (simp add: enip_ok_def)
  then show ?thesis using assms Some by (auto simp: enip_ok_def enip_flow_of_def)
qed

fun other_enip_carry :: "direction \<Rightarrow> enip_flow_state \<Rightarrow> bytes" where
  "other_enip_carry ClientToServer f = ef_carry_s2c f"
| "other_enip_carry ServerToClient f = ef_carry_c2s f"

lemma enip_load_dir: "enip_load f = length (other_enip_carry dir f) + length (enip_carry dir f)"
  by (cases dir) (simp_all add: enip_load_def)

lemma enip_carry_set [simp]:
  "enip_carry dir (set_enip_carry dir bs f) = bs" "other_enip_carry dir (set_enip_carry dir bs f) = other_enip_carry dir f"
  "ef_is_non_enip (set_enip_carry dir bs f) = ef_is_non_enip f" "enip_same_tables f (set_enip_carry dir bs f)"
  by (cases dir; simp add: enip_same_tables_def)+

lemma enip_flow_ok_dir:
  "enip_flow_ok n f \<longleftrightarrow> length (enip_carry dir f) < 600 \<and> length (other_enip_carry dir f) < 600 \<and> \<not> ef_is_non_enip f \<and>
     enip_room (length (other_enip_carry dir f) + length (enip_carry dir f) + n)
       (length (other_enip_carry dir f) + length (enip_carry dir f) + n) f"
  by (cases dir) (auto simp: enip_flow_ok_def enip_load_def add.commute)

lemma kept_carries:
  assumes "enip_kept (a, f) (a', f')"
  shows "enip_carry dir f' = enip_carry dir f" and "other_enip_carry dir f' = other_enip_carry dir f"
  using assms by (cases dir; simp)+

lemma cap_carry_idle: "length (enip_carry dir f) < 600 \<Longrightarrow> cap_carry c dir (a, f) = (a, f)"
  by (simp add: cap_carry_def max_enip_carry_bytes_def)

lemma set_enip_carry_kept: "enip_kept (a, f) (a, set_enip_carry dir bs f) \<longleftrightarrow> bs = enip_carry dir f"
  by (cases dir) auto

text \<open>The part of a delivery between the lookup of the flow and its insertion.\<close>

lemma enip_delivery:
  assumes "enip_flow_ok (n + length data) f" and "length (ea_all_findings a) \<le> enip_max_findings"
    and f1_def: "f1 = expire_malformed_window ts f"
  shows "\<exists>a2 f2 queue rest a3 f3. enip_walk c (enip_carry dir f1 @ data) [] (a, set_enip_carry dir [] f1) = Some ((a2, f2), queue, rest) \<and>
    process_pdus c queue (cap_carry c dir (a2, set_enip_carry dir rest f2)) = Some (a3, f3) \<and>
    enip_flow_ok n f3 \<and> ea_flows a3 = ea_flows a \<and> length (ea_all_findings a3) \<le> enip_max_findings"
proof -
  let ?o = "length (other_enip_carry dir f)" and ?k = "length (enip_carry dir f)" and ?buf = "enip_carry dir f1 @ data"
  have f1: "enip_carry dir f1 = enip_carry dir f" "other_enip_carry dir f1 = other_enip_carry dir f" "ef_is_non_enip f1 = ef_is_non_enip f"
      "enip_same_tables f f1" by (cases dir; simp add: f1_def expire_malformed_window_def enip_same_tables_def)+
  have ok: "?o < 600" "\<not> ef_is_non_enip f" "enip_room (?o + ?k + (n + length data)) (?o + ?k + (n + length data)) f"
    using assms(1) enip_flow_ok_dir [of "n + length data" f dir] by auto
  have t: "enip_same_tables f (set_enip_carry dir [] f1)" by (rule enip_same_tables_trans [OF f1(4) enip_carry_set(4)])
  have e: "?o + ?k + (n + length data) = ?o + n + length ?buf" by (simp add: f1(1))
  have "enip_room (?o + n + length ?buf) (?o + n + length ?buf) (snd (a, set_enip_carry dir [] f1))"
    using ok(3) enip_room_tables [OF t] unfolding e by simp
  from enip_walk_walked [OF this, of "[]" c] obtain a2 f2 queue rest
    where w: "enip_walk c ?buf [] (a, set_enip_carry dir [] f1) = Some ((a2, f2), queue, rest)"
      and r2: "enip_room (?o + n + length rest) (?o + n + length ?buf) f2"
      and l: "sum_list (map length queue) + length rest \<le> length ?buf" "length rest < 600"
    unfolding enip_walked_def by auto
  note k2 = enip_walk_kept [OF w]
  let ?f2 = "set_enip_carry dir rest f2"
  have "enip_room (?o + n + length rest) (?o + n + length rest + sum_list (map length queue)) ?f2"
    using enip_room_mono [OF r2] l(1) enip_room_tables [OF enip_carry_set(4) [of f2]] by simp
  then obtain a3 f3 where p: "process_pdus c queue (a2, ?f2) = Some (a3, f3)" and r3: "enip_room (?o + n + length rest) (?o + n + length rest) f3"
    using process_pdus_room [of _ _ queue "(a2, ?f2)" c] by fastforce
  note k3 = process_pdus_kept [OF p]
  have "enip_carry dir f3 = rest" "other_enip_carry dir f3 = other_enip_carry dir f" "\<not> ef_is_non_enip f3"
    using kept_carries [OF k2, of dir] kept_carries [OF k3, of dir] f1 ok(2) k2 k3 by auto
  then have "enip_flow_ok n f3" using l(2) ok(1) r3 by (simp add: enip_flow_ok_dir [of n f3 dir] ac_simps)
  moreover have "ea_flows a3 = ea_flows a" "length (ea_all_findings a3) \<le> enip_max_findings" using k2 k3 assms(2) by simp_all
  ultimately show ?thesis using w p cap_carry_idle [of dir ?f2 c a2] l(2) by auto
qed

lemma enip_on_data_ok:
  assumes "enip_ok (n + length data) a"
  shows "\<exists>a'. enip_on_data a key data ts dir = Some a' \<and> enip_ok n a'"
proof -
  let ?a0 = "a\<lparr>ea_bytes_received := sat_add64 (ea_bytes_received a) (length data)\<rparr>"
  let ?f = "enip_flow_of a key" and ?c = "enip_context_of key dir ts"
  have fo: "enip_flow_ok (n + length data) ?f" by (rule enip_flow_of_ok [OF assms])
  have "length (ea_all_findings ?a0) \<le> enip_max_findings" using assms by (simp add: enip_ok_def)
  from enip_delivery [OF fo this refl, of ?c dir ts] obtain a2 f2 queue rest a3 f3
    where d: "enip_walk ?c (enip_carry dir (expire_malformed_window ts ?f) @ data) []
        (?a0, set_enip_carry dir [] (expire_malformed_window ts ?f)) = Some ((a2, f2), queue, rest)"
      "process_pdus ?c queue (cap_carry ?c dir (a2, set_enip_carry dir rest f2)) = Some (a3, f3)"
      and r: "enip_flow_ok n f3" "ea_flows a3 = ea_flows a" "length (ea_all_findings a3) \<le> enip_max_findings" by auto
  let ?a' = "a3\<lparr>ea_flows := hm_insert key f3 (hm_remove key (ea_flows a3))\<rparr>"
  have f: "(case hm_get (ea_flows ?a0) key of Some f \<Rightarrow> f | None \<Rightarrow> enip_flow_state_new) = ?f" by (simp add: enip_flow_of_def)
  have "enip_on_data a key data ts dir = Some ?a'"
    using fo unfolding enip_on_data_def Let_def f d(1) bind.bind_lunit prod.case d(2) by (simp add: enip_flow_ok_def)
  moreover have "enip_ok n ?a'"
    using assms r hm_ok_remove [of "ea_flows a" key] hm_ok_insert [of "hm_remove key (ea_flows a)" key f3] enip_flow_ok_mono [of "n + length data" _ n]
    by (auto simp: enip_ok_def hmap.set_put hmap.set_remove)
  ultimately show ?thesis by blast
qed

lemma enip_on_flow_close_ok: "enip_ok n a \<Longrightarrow> enip_ok n (enip_on_flow_close a key)"
  by (auto simp: enip_on_flow_close_def enip_ok_def hmap.set_remove hm_ok_remove split: option.split)

interpretation enip: stream_client enip_handler enip_ok
proof
  fix n h key dir off ts and data :: bytes
  assume "enip_ok (n + length data) h"
  then show "\<exists>h'. on_data enip_handler h key dir data off ts = Some h' \<and> enip_ok n h'"
    using enip_on_data_ok by (simp add: enip_handler_def)
next
  fix n h key reason
  assume "enip_ok n h"
  then show "\<exists>h'. on_flow_close enip_handler h key reason = Some h' \<and> enip_ok n h'"
    by (simp add: enip_handler_def enip_on_flow_close_ok)
qed (auto intro: enip_ok_mono)

lemma enip_new_ok: "n \<le> u64_max \<Longrightarrow> enip_ok n (enip_analyzer_new seed w e)"
  by (simp add: enip_ok_def enip_analyzer_new_def enip_max_findings_def)

text \<open>Without the invariant: a delivery that returns changes the entry of its flow only.\<close>

lemma cap_carry_flows: "ea_flows (fst (cap_carry c dir (a, f))) = ea_flows a"
proof -
  obtain a' f' where m: "count_malformed c (a, f) = (a', f')" by force
  have "enip_kept (a, f) (a', f')" using quiet_detectorD(1) [OF quiet_malformed, of "(a, f)" c] by (simp add: m)
  then show ?thesis by (simp add: cap_carry_def m)
qed

lemma enip_on_data_flows:
  assumes "enip_on_data a key data ts dir = Some a'"
  shows "(\<exists>f. ea_flows a' = hm_insert key f (ea_flows a)) \<or> (\<exists>f. ea_flows a' = hm_insert key f (hm_remove key (ea_flows a)))"
proof (cases "ef_is_non_enip (enip_flow_of a key)")
  case True
  then show ?thesis using assms by (auto simp: enip_on_data_def enip_flow_of_def Let_def)
next
  case False
  let ?a0 = "a\<lparr>ea_bytes_received := sat_add64 (ea_bytes_received a) (length data)\<rparr>"
  let ?c = "enip_context_of key dir ts"
  from False assms obtain f1 a2 f2 queue rest a3 f3
    where w: "enip_walk ?c (enip_carry dir f1 @ data) [] (?a0, set_enip_carry dir [] f1) = Some ((a2, f2), queue, rest)"
      and p: "process_pdus ?c queue (cap_carry ?c dir (a2, set_enip_carry dir rest f2)) = Some (a3, f3)"
      and a': "a' = a3\<lparr>ea_flows := hm_insert key f3 (hm_remove key (ea_flows a3))\<rparr>"
    by (auto simp: enip_on_data_def enip_flow_of_def Let_def bind_eq_Some_conv)
  obtain b g where cap: "cap_carry ?c dir (a2, set_enip_carry dir rest f2) = (b, g)" by force
  have "ea_flows b = ea_flows a2" using cap_carry_flows [of ?c dir a2 "set_enip_carry dir rest f2"] by (simp add: cap)
  moreover have "ea_flows a2 = ea_flows a" using enip_walk_kept [OF w] by simp
  moreover have "ea_flows a3 = ea_flows b" using process_pdus_kept [OF p] by (simp add: cap)
  ultimately show ?thesis using a' by auto
qed

declare split_paired_All [simp] split_paired_Ex [simp]

end
