(* ===== verification/Enip_Props.thy ===== *)
theory Enip_Props
  imports Enip_Inv Engine_Props
begin

text \<open>The properties of the EtherNet/IP analyzer.\<close>

unbundle bit_operations_syntax

section \<open>Captures\<close>

text \<open>The engine can drive the analyzer through any capture without a panic. A carry stays below
  its cap of 600 bytes, so the branch that gives up on a flow is never taken: no flow is ever
  latched as not being EtherNet/IP. At most 10,000 findings are kept.\<close>

theorem enip_capture_bounded:
  assumes "config_ok c" and "capture_ok ps"
  shows "\<exists>r r' a'. reassembler_new seed c = Some r \<and>
     process_packets enip_handler ps (r, enip_analyzer_new order w e) = Some (r', a') \<and> length (ea_all_findings a') \<le> 10000 \<and>
     (\<forall>(key, f) \<in> set (ea_flows a'). length (ef_carry_c2s f) < 600 \<and> length (ef_carry_s2c f) < 600 \<and> \<not> ef_is_non_enip f)"
proof -
  have "enip_ok (capture_bytes ps) (enip_analyzer_new order w e)" using assms(2) by (intro enip_new_ok) (simp add: capture_ok_def)
  from enip.capture_safe [OF assms this, where seed = seed] obtain r r' a' n
    where "reassembler_new seed c = Some r" "process_packets enip_handler ps (r, enip_analyzer_new order w e) = Some (r', a')"
      and ok: "enip_ok n a'" by metis
  moreover have "\<forall>(key, f) \<in> set (ea_flows a'). length (ef_carry_c2s f) < 600 \<and> length (ef_carry_s2c f) < 600 \<and> \<not> ef_is_non_enip f"
    using ok unfolding enip_ok_def enip_flow_ok_def by fast
  moreover have "length (ea_all_findings a') \<le> 10000" using ok by (simp add: enip_ok_def enip_max_findings_def)
  ultimately show ?thesis by blast
qed

theorem enip_capture_bounded_witness:
  "\<exists>r r' a'. reassembler_new (\<lambda>_ _. 0) sample_config = Some r \<and>
     process_packets enip_handler sample_capture (r, enip_analyzer_new (\<lambda>_ _. 0) 50 10) = Some (r', a') \<and> length (ea_all_findings a') \<le> 10000"
  using enip_capture_bounded [OF sample_config_ok sample_capture_ok, of "\<lambda>_ _. 0" "\<lambda>_ _. 0" 50 10] by blast

section \<open>Framing\<close>

lemma parse_take: "24 \<le> length xs \<Longrightarrow> parse_enip_header (take 24 (xs @ ys)) = parse_enip_header (take 24 xs)"
  by simp

text \<open>No frame that the walk meets is too long to be kept.\<close>

function fits :: "bytes \<Rightarrow> bool" where
  "fits buf \<longleftrightarrow>
     (case parse_enip_header (take 24 buf) of
        None \<Rightarrow> True
      | Some h \<Rightarrow>
          if \<not> is_valid_enip_frame h then fits (tl buf)
          else frame_len h \<le> 600 \<and> (length buf < frame_len h \<or> fits (drop (frame_len h) buf)))"
  by pat_completeness auto
termination
  by (relation "measure length") (auto simp: parse_enip_header_def not_less split: if_splits)

declare fits.simps [simp del]

text \<open>C19. The frames found do not depend on how TCP cuts the stream, garbage between frames
  included, as long as no frame is above the cap: walking a first part and then what it left
  over followed by the second part queues the same frames and counts the same commands and
  errors as walking the whole.\<close>

theorem enip_framing_any_cut:
  assumes "fits (xs @ ys)"
  shows "enip_walk c (xs @ ys) queue af =
    do { (af1, queue1, rest) \<leftarrow> enip_walk c xs queue af; enip_walk c (rest @ ys) queue1 af1 }"
  using assms
proof (induction "length xs" arbitrary: xs queue af rule: less_induct)
  case less
  obtain a f where af: "af = (a, f)" by force
  show ?case
  proof (cases rule: enip_walk_cases [of xs c queue a f])
    case (reject h)
    have "parse_enip_header (take 24 (xs @ ys)) = Some h" using reject(1,2) by simp
    then have "fits (tl (xs @ ys))" using less.prems reject(3) by (simp add: fits.simps [of "xs @ ys"])
    then have "fits (tl xs @ ys)" using reject(1) by (cases xs) simp_all
    note ih = less.hyps [OF _ this]
    show ?thesis
    proof (cases rule: enip_walk_cases [of "xs @ ys" c queue a f])
      case r: (reject h')
      have "tl (xs @ ys) = tl xs @ ys" using reject(1) by (cases xs) simp_all
      moreover have "h' = h" using r(2) reject(1,2) by simp
      moreover have "length (tl xs) < length xs" using reject(1) by (cases xs) simp_all
      ultimately show ?thesis using reject(4) r(4) ih by (cases "count_command (eh_command h) f") (simp_all add: af)
    qed (use reject in auto)
  next
    case (skip h)
    have "parse_enip_header (take 24 (xs @ ys)) = Some h" using skip(1,2) by simp
    then show ?thesis using less.prems skip(3,4) by (simp add: fits.simps [of "xs @ ys"])
  next
    case (frame h)
    have "parse_enip_header (take 24 (xs @ ys)) = Some h" using frame(1,4) by simp
    then have "fits (drop (frame_len h) (xs @ ys))" using less.prems frame(2-4) by (simp add: fits.simps [of "xs @ ys"])
    then have "fits (drop (frame_len h) xs @ ys)" using frame(4) by simp
    note ih = less.hyps [OF _ this]
    show ?thesis
    proof (cases rule: enip_walk_cases [of "xs @ ys" c queue a f])
      case r: (frame h')
      have "h' = h" using r(1) frame(1,4) by simp
      moreover have "drop (frame_len h) (xs @ ys) = drop (frame_len h) xs @ ys" "take (frame_len h) (xs @ ys) = take (frame_len h) xs"
        using frame(4) by simp_all
      moreover have "length (drop (frame_len h) xs) < length xs" using frame(4) by auto
      ultimately show ?thesis using frame(4,5) r(5) ih by (cases "count_command (eh_command h) f") (simp_all add: af)
    qed (use frame in auto)
  qed (simp_all add: af)
qed

definition sample_enip_frame :: bytes where
  "sample_enip_frame = [0x63, 0, 2, 0, 0, 0, 0, 0, 0, 0, 0, 0, 0, 0, 0, 0, 0, 0, 0, 0, 0, 0, 0, 0, 7, 8]"

lemma sample_enip_header: "parse_enip_header (take 24 sample_enip_frame) =
    Some \<lparr>eh_command = 0x63, eh_length = 2, eh_session_handle = 0, eh_status = 0, eh_sender_context = [0, 0, 0, 0, 0, 0, 0, 0], eh_options = 0\<rparr>"
  by (simp add: sample_enip_frame_def parse_enip_header_def enip_le16_def enip_le32_def be16_def)

lemma sample_fits: "fits (take 25 sample_enip_frame @ drop 25 sample_enip_frame)"
  using sample_enip_header
  by (simp add: fits.simps [of sample_enip_frame] is_valid_enip_frame_def fits.simps [of "[]"] parse_enip_header_def [of "[]"])
    (simp add: sample_enip_frame_def fits.simps [of "[]"] parse_enip_header_def [of "[]"])

definition sample_enip :: enip_state where
  "sample_enip = (enip_analyzer_new (\<lambda>_ _. 0) 50 10, enip_flow_state_new)"

theorem enip_framing_any_cut_witness:
  "enip_walk (enip_context_of (flow_key_new (V4 1) 40000 (V4 2) 44818) ClientToServer 7)
     (take 25 sample_enip_frame @ drop 25 sample_enip_frame) [] sample_enip =
   do { (af1, queue1, rest) \<leftarrow> enip_walk (enip_context_of (flow_key_new (V4 1) 40000 (V4 2) 44818) ClientToServer 7)
          (take 25 sample_enip_frame) [] sample_enip;
        enip_walk (enip_context_of (flow_key_new (V4 1) 40000 (V4 2) 44818) ClientToServer 7) (rest @ drop 25 sample_enip_frame) queue1 af1 }"
  by (rule enip_framing_any_cut [OF sample_fits])

section \<open>Frames above the cap\<close>

definition enip_frame :: "bytes \<Rightarrow> bool" where
  "enip_frame fr \<longleftrightarrow> (\<exists>h. parse_enip_header (take 24 fr) = Some h \<and> is_valid_enip_frame h \<and> frame_len h = length fr)"

lemma walk_one_frame:
  assumes "enip_frame fr" and "length fr \<le> 600" and "enip_room (C + 1) E f"
  shows "\<exists>f'. enip_walk c fr queue (a, f) = Some ((a, f'), queue @ [fr], [])"
proof -
  obtain h where h: "parse_enip_header (take 24 fr) = Some h" "is_valid_enip_frame h" "frame_len h = length fr"
    using assms(1) by (auto simp: enip_frame_def)
  obtain f' where "count_command (eh_command h) f = Some f'" using count_command_room [OF assms(3)] by blast
  moreover have "24 \<le> length fr" using h(3) by simp
  ultimately show ?thesis
    using h assms(2) by (simp add: enip_walk.simps [of c fr] enip_walk.simps [of c "[]"] max_enip_carry_bytes_def)
qed

lemma walk_skip:
  assumes "parse_enip_header (take 24 xs) = Some h" and "is_valid_enip_frame h" and "600 < frame_len h" and "length xs \<le> frame_len h"
    and "enip_room (C + 2) E f"
  shows "\<exists>a' f'. enip_walk c xs queue (a, f) = Some ((a', f'), queue, []) \<and> enip_room (C + 1) E f'"
proof -
  have l: "24 \<le> length xs" using assms(1) by (auto simp: parse_enip_header_def split: if_splits)
  have "enip_room (C + 1 + 1) E f" using assms(5) by (simp add: numeral_2_eq_2)
  then obtain f1 where f1: "count_command (eh_command h) f = Some f1" "enip_room (C + 1) E f1" using count_command_room [of "C + 1"] by blast
  obtain a2 f2 where m: "count_malformed c (a, f1) = (a2, f2)" by force
  have "enip_room (C + 1) E f2" using enip_room_tables [OF quiet_detectorD(2) [OF quiet_malformed, of "(a, f1)" c]] f1(2) by (simp add: m)
  moreover have "min (frame_len h) (length xs) = length xs" using assms(4) by simp
  ultimately show ?thesis
    using l assms(1-3) f1(1) m by (simp add: enip_walk.simps [of c xs] enip_walk.simps [of c "[]"] max_enip_carry_bytes_def)
qed

text \<open>A frame above the cap is skipped only as far as the delivery goes. If TCP cuts it, the
  bytes that are still missing are forgotten, and the next delivery is read from its first byte
  as if it began with a frame: a frame inside the payload, which is not queued when the frame
  comes in one piece, is then queued for analysis as a frame of its own.\<close>

theorem enip_oversized_rest_reparsed:
  assumes "parse_enip_header (take 24 xs) = Some h" and "is_valid_enip_frame h" and "600 < frame_len h"
    and "frame_len h = length (xs @ ys)" and "enip_frame ys" and "length ys \<le> 600" and "enip_room 2 E (snd af)"
  shows "(\<exists>af1. enip_walk c (xs @ ys) [] af = Some (af1, [], [])) \<and>
    (\<exists>af1 af2. enip_walk c xs [] af = Some (af1, [], []) \<and> enip_walk c ys [] af1 = Some (af2, [ys], []))"
proof -
  obtain a f where af: "af = (a, f)" by force
  have r: "enip_room (0 + 2) E f" using assms(7) unfolding af by (simp only: add_0 snd_conv)
  have l: "24 \<le> length xs" using assms(1) by (auto simp: parse_enip_header_def split: if_splits)
  have whole: "\<exists>a' f'. enip_walk c (xs @ ys) [] (a, f) = Some ((a', f'), [], []) \<and> enip_room (0 + 1) E f'"
    by (rule walk_skip [OF _ assms(2,3) _ r]) (use assms(1,4) l in auto)
  obtain a1 f1 where p: "enip_walk c xs [] (a, f) = Some ((a1, f1), [], [])" "enip_room (0 + 1) E f1"
    using walk_skip [OF assms(1-3) _ r, of c "[]" a] assms(4) by auto
  obtain f2 where "enip_walk c ys [] (a1, f1) = Some ((a1, f2), [ys], [])"
    using walk_one_frame [OF assms(5,6) p(2), of c "[]" a1] by auto
  with p(1) whole show ?thesis unfolding af by blast
qed

definition big_head :: bytes where
  "big_head = [0x6F, 0, 0x58, 2] @ replicate 594 0"

theorem enip_oversized_rest_reparsed_witness:
  "\<exists>c. (\<exists>af1. enip_walk c (big_head @ sample_enip_frame) [] sample_enip = Some (af1, [], [])) \<and>
     (\<exists>af1 af2. enip_walk c big_head [] sample_enip = Some (af1, [], []) \<and> enip_walk c sample_enip_frame [] af1 = Some (af2, [sample_enip_frame], []))"
proof -
  have "\<exists>h. parse_enip_header (take 24 big_head) = Some h \<and> is_valid_enip_frame h \<and> frame_len h = 624"
    by (simp add: big_head_def parse_enip_header_def is_valid_enip_frame_def enip_le16_def be16_def min_def)
  then obtain h where h: "parse_enip_header (take 24 big_head) = Some h" "is_valid_enip_frame h" "frame_len h = 624" by blast
  have "length sample_enip_frame = 26" "length (big_head @ sample_enip_frame) = 624" by (simp_all add: sample_enip_frame_def big_head_def)
  moreover have "enip_frame sample_enip_frame"
    using sample_enip_header by (simp add: enip_frame_def is_valid_enip_frame_def) (simp add: sample_enip_frame_def)
  moreover have "enip_room 2 0 (snd sample_enip)" by (simp add: sample_enip_def enip_flow_state_new_def enip_room_def u64_max_def)
  ultimately show ?thesis using enip_oversized_rest_reparsed [of big_head h sample_enip_frame 0 sample_enip] h by auto
qed

section \<open>The wire form of CIP messages\<close>

definition enip_encode16 :: "nat \<Rightarrow> bytes" where
  "enip_encode16 n = [lo8 (of_nat n), hi8 (of_nat n)]"

definition encode_item :: "cpf_item \<Rightarrow> bytes" where
  "encode_item item = [lo8 (ci_type_id item), hi8 (ci_type_id item)] @ enip_encode16 (length (ci_data item)) @ ci_data item"

definition encode_cpf :: "cpf_item list \<Rightarrow> bytes" where
  "encode_cpf items = enip_encode16 (length items) @ concat (map encode_item items)"

fun encode_segment :: "cip_path_segment \<Rightarrow> bytes" where
  "encode_segment (ClassSegment v) = [0x20, v]"
| "encode_segment (InstanceSegment v) = [0x24, v]"
| "encode_segment (AttributeSegment v) = [0x30, v]"

definition encode_path :: "cip_path_segment list \<Rightarrow> bytes" where
  "encode_path segs = concat (map encode_segment segs)"

definition encode_cip :: "u8 \<Rightarrow> cip_path_segment list \<Rightarrow> bytes" where
  "encode_cip service segs = service # of_nat (length segs) # encode_path segs"

lemma enip_decode16: "n < 65536 \<Longrightarrow> unat (be16 (hi8 (of_nat n)) (lo8 (of_nat n))) = n"
  by (simp add: be16_split take_bit_nat_eq_self unsigned_of_nat)

lemma cpf_loop_encode:
  "\<forall>item \<in> set items. length (ci_data item) < 65536 \<Longrightarrow> cpf_loop (length items) (concat (map encode_item items) @ rest) = items"
proof (induction items)
  case (Cons item items)
  let ?d = "ci_data item"
  have n: "unat (be16 (hi8 (of_nat (length ?d))) (lo8 (of_nat (length ?d)))) = length ?d" using Cons.prems by (intro enip_decode16) simp
  then show ?case using Cons by (simp add: encode_item_def enip_encode16_def enip_le16_def Let_def be16_split)
qed simp

lemma path_encode: "parse_cip_request_path (encode_path segs) = segs"
  unfolding encode_path_def
proof (induction segs)
  case (Cons s segs)
  then show ?case by (cases s) simp_all
qed simp

lemma length_encode_path: "length (encode_path segs) = 2 * length segs"
  unfolding encode_path_def
proof (induction segs)
  case (Cons s segs)
  then show ?case by (cases s) simp_all
qed simp

text \<open>C21. The parsers of CPF items, CIP headers and CIP paths read back what their wire form encodes,
  whatever bytes follow: item lists with any types and payloads, and requests with any service
  and any path of class, instance and attribute segments.\<close>

theorem cip_wire_roundtrip:
  assumes "length items < 65536" and "\<forall>item \<in> set items. length (ci_data item) < 65536" and "length segs < 256"
  shows "parse_cpf_items (encode_cpf items @ rest) = items \<and>
    (\<exists>h. parse_cip_header (encode_cip service segs @ rest) = Some h \<and> ch_service h = service \<and>
       parse_cip_request_path (ch_request_path h) = segs)"
proof -
  have "unat (of_nat (length segs) :: u8) = length segs" using assms(3) by (simp add: unsigned_of_nat take_bit_nat_eq_self)
  then have "parse_cip_header (encode_cip service segs @ rest) = Some \<lparr>ch_service = service, ch_request_path = encode_path segs\<rparr>"
    by (simp add: parse_cip_header_def encode_cip_def length_encode_path Let_def)
  moreover have "parse_cpf_items (encode_cpf items @ rest) = items"
    using assms(1,2) by (simp add: parse_cpf_items_def encode_cpf_def enip_encode16_def enip_le16_def enip_decode16 cpf_loop_encode)
  ultimately show ?thesis by (simp add: path_encode)
qed

definition identity_read :: cpf_item where
  "identity_read = \<lparr>ci_type_id = 0xB2, ci_data = encode_cip 0x0E [ClassSegment 1, InstanceSegment 1, AttributeSegment 7]\<rparr>"

theorem cip_wire_roundtrip_witness:
  "parse_cpf_items (encode_cpf [identity_read] @ [9]) = [identity_read] \<and>
   (\<exists>h. parse_cip_header (encode_cip 0x0E [ClassSegment 1, InstanceSegment 1] @ [9]) = Some h \<and> ch_service h = 0x0E \<and>
      parse_cip_request_path (ch_request_path h) = [ClassSegment 1, InstanceSegment 1])"
  by (rule cip_wire_roundtrip) (simp_all add: identity_read_def encode_cip_def encode_path_def)

section \<open>Detection\<close>

text \<open>The documented table of CIP requests, for a request that is counted last: \<open>burst\<close> says whether
  it takes the writes of the window over the threshold for the first time.\<close>

definition cip_techniques :: "bool \<Rightarrow> u8 \<Rightarrow> cip_path_segment list \<Rightarrow> string list list" where
  "cip_techniques burst service path =
     (if service = 0x07 then [[''T0858'']]
      else if service = 0x05 then [[''T0816'']]
      else if service \<in> {0x4E, 0x54, 0x5B} then [[]]
      else if service \<in> {0x01, 0x03, 0x0E} \<and> ClassSegment 0x01 \<in> set path then [[''T0888'']]
      else if service \<in> {0x02, 0x04, 0x10} \<and> burst then [[''T0836'']]
      else [])"

lemmas cip_detector_defs =
  detect_identity_read_def detect_stop_def detect_reset_def detect_cip_write_def detect_lifecycle_def enip_push_def
  enip_push_guarded_def enip_finding_def enip_burst_finding_def forward_open_finding_def forward_close_finding_def
  is_cip_write_def is_request_def Let_def

lemma idle_detectors:
  "classify_cip_service (ch_service cip) \<notin> {GetAttributesAll, GetAttributeList, GetAttributeSingle} \<Longrightarrow> detect_identity_read c cip af = af"
  "classify_cip_service (ch_service cip) \<noteq> CipStop \<Longrightarrow> detect_stop c h cip af = af"
  "classify_cip_service (ch_service cip) \<noteq> CipReset \<Longrightarrow> detect_reset c h cip af = af"
  "classify_cip_service (ch_service cip) \<notin> {SetAttributesAll, SetAttributeList, SetAttributeSingle} \<Longrightarrow> detect_cip_write c h cip af = af"
  "classify_cip_service (ch_service cip) \<notin> {ForwardOpen, LargeForwardOpen, ForwardClose} \<Longrightarrow> detect_lifecycle c h cip af = af"
  by (simp_all add: detect_identity_read_def detect_stop_def detect_reset_def detect_cip_write_def is_cip_write_def detect_lifecycle_def
      Let_def case_prod_unfold)

text \<open>C20. Detection on CIP requests follows the table for every service byte: below the cap of
  findings, an unconnected request raises exactly the finding of the table, attributed to the
  sender, and no other; items of other types raise nothing.\<close>

theorem cip_requests_detected_exactly:
  assumes "parse_cip_header (ci_data item) = Some cip" and "ch_service cip AND 0x80 = 0" and "length (ea_all_findings a) < 10000"
    and "on_cpf_item c h item (a, f) = Some (a', f')"
  shows "\<exists>new. ea_all_findings a' = ea_all_findings a @ new \<and>
    map mitre_techniques new =
      (if ci_type_id item = 0xB2
       then cip_techniques (ef_write_count_in_window f' > unat (ea_write_burst_threshold a) \<and>
              \<not> ef_write_burst_emitted (count_cip_write (ec_now c) f))
            (ch_service cip) (parse_cip_request_path (ch_request_path cip))
       else []) \<and>
    (\<forall>fi \<in> set new. source_ip fi = Some (ec_src_ip c))"
proof (cases "ci_type_id item = 0xB2")
  case False
  then show ?thesis using assms(4) by (simp add: on_cpf_item_def)
next
  case True
  let ?s = "ch_service cip" and ?r = "on_cip_request c h cip (a, f)"
  have cl: "classify_cip_service ?s \<noteq> CipResponse" using assms(2) by (simp add: classify_cip_service_def)
  have r: "(a', f') = ?r" using assms(1,4) True cl by (simp add: on_cpf_item_def on_cip_request_def)
  consider "?s = 0x07" | "?s = 0x05" | "?s = 0x4E" | "?s = 0x54" | "?s = 0x5B" | "?s \<in> {0x01, 0x03, 0x0E}" | "?s \<in> {0x02, 0x04, 0x10}"
    | "?s \<notin> {0x07, 0x05, 0x4E, 0x54, 0x5B, 0x01, 0x03, 0x0E, 0x02, 0x04, 0x10}" by blast
  then show ?thesis
  proof cases
    case 6
    then have k: "classify_cip_service ?s \<in> {GetAttributesAll, GetAttributeList, GetAttributeSingle}"
      by (auto simp: classify_cip_service_def)
    then have "?r = detect_identity_read c cip (a, f)" by (elim insertE) (simp_all add: on_cip_request_def idle_detectors)
    moreover have "?s \<notin> {0x07, 0x05, 0x4E, 0x54, 0x5B, 0x02, 0x04, 0x10}" using 6 by auto
    ultimately show ?thesis
      using 6 k r assms(3) True
      by (cases "ClassSegment 0x01 \<in> set (parse_cip_request_path (ch_request_path cip))")
        (simp_all add: cip_techniques_def cip_detector_defs assms(2) enip_max_findings_def)
  next
    case 7
    then have k: "classify_cip_service ?s \<in> {SetAttributesAll, SetAttributeList, SetAttributeSingle}"
      by (auto simp: classify_cip_service_def)
    then have "?r = detect_cip_write c h cip (a, f)" by (elim insertE) (simp_all add: on_cip_request_def idle_detectors)
    moreover have "is_cip_write cip" using k assms(2) by (simp add: is_cip_write_def is_request_def)
    moreover have "?s \<notin> {0x07, 0x05, 0x4E, 0x54, 0x5B, 0x01, 0x03, 0x0E}" using 7 by auto
    ultimately show ?thesis
      using 7 r assms(3) True
      by (simp add: cip_techniques_def detect_cip_write_def enip_push_guarded_def enip_burst_finding_def enip_finding_def Let_def enip_max_findings_def
          split: if_splits)
  next
    case 8
    then have "classify_cip_service ?s \<in> {MultipleServicePacket, GetAndClear, UnknownService}"
      using assms(2) by (simp add: classify_cip_service_def)
    then have "?r = (a, f)" by (elim insertE) (simp_all add: on_cip_request_def idle_detectors)
    then show ?thesis using 8 r True by (simp add: cip_techniques_def)
  qed (use r assms(2,3) True in \<open>simp_all add: on_cip_request_def idle_detectors cip_techniques_def classify_cip_service_def cip_detector_defs
      enip_max_findings_def\<close>)
qed

definition stop_item :: cpf_item where
  "stop_item = \<lparr>ci_type_id = 0xB2, ci_data = [0x07, 0]\<rparr>"

theorem cip_requests_detected_exactly_witness:
  "\<exists>a' f' new. on_cpf_item (enip_context_of (flow_key_new (V4 1) 40000 (V4 2) 44818) ClientToServer 7)
       (the (parse_enip_header (take 24 sample_enip_frame))) stop_item sample_enip = Some (a', f') \<and>
     ea_all_findings a' = ea_all_findings (fst sample_enip) @ new \<and> map mitre_techniques new = [[''T0858'']]"
proof -
  let ?c = "enip_context_of (flow_key_new (V4 1) 40000 (V4 2) 44818) ClientToServer 7"
  let ?h = "the (parse_enip_header (take 24 sample_enip_frame))"
  let ?cip = "\<lparr>ch_service = 0x07, ch_request_path = []\<rparr>"
  have p: "parse_cip_header (ci_data stop_item) = Some ?cip" by (simp add: stop_item_def parse_cip_header_def)
  obtain a f where af: "sample_enip = (a, f)" by force
  have l: "length (ea_all_findings a) < 10000" using af by (auto simp: sample_enip_def enip_analyzer_new_def)
  obtain a' f' where r: "on_cpf_item ?c ?h stop_item (a, f) = Some (a', f')"
    using p by (cases "on_cip_request ?c ?h ?cip (a, f)")
      (auto simp: on_cpf_item_def stop_item_def classify_cip_service_def simp flip: on_cip_request_def)
  from cip_requests_detected_exactly [OF p _ l r] show ?thesis
    unfolding af using r by (auto simp: stop_item_def cip_techniques_def)
qed

end
