(* ===== verification/Iec104.thy ===== *)
theory Iec104
  imports Findings Containers
begin

text \<open>
  The IEC 60870-5-104 analyzer, \<open>src/analyzer/iec104.rs\<close>: the APCI and ASDU parsers, the
  session automaton of the U-frames, the detectors on I-frames, and the frame walk with its
  carry buffers. A dash of the source's texts is written \<open>--\<close>; \<open>Hex0x\<close> is \<open>{:#04x}\<close>.
\<close>

unbundle bit_operations_syntax

section \<open>Frames\<close>

record apci_header =
  ap_start :: u8
  ap_len :: u8
  ap_cf1 :: u8
  ap_cf2 :: u8
  ap_cf3 :: u8
  ap_cf4 :: u8

datatype iec104_parse_error = Incomplete

datatype frame_format = IFormat | SFormat | UFormat

definition u_startdt_act :: u8 where "u_startdt_act = 0x07"
definition u_startdt_con :: u8 where "u_startdt_con = 0x0B"
definition u_stopdt_act :: u8 where "u_stopdt_act = 0x13"
definition u_stopdt_con :: u8 where "u_stopdt_con = 0x23"
definition u_testfr_act :: u8 where "u_testfr_act = 0x43"
definition u_testfr_con :: u8 where "u_testfr_con = 0x83"

lemmas u_frame_defs =
  u_startdt_act_def u_startdt_con_def u_stopdt_act_def u_stopdt_con_def u_testfr_act_def u_testfr_con_def

definition max_iec104_carry_bytes :: usize where
  "max_iec104_carry_bytes = 255"

definition max_iec104_findings :: usize where
  "max_iec104_findings = 10000"

record iec104_flow_state =
  if_carry_c2s :: bytes
  if_carry_s2c :: bytes
  if_session_started :: bool
  if_last_ns_c2s :: "u16 option"
  if_last_ns_s2c :: "u16 option"
  if_malformed_len_reported_c2s :: bool
  if_malformed_len_reported_s2c :: bool
  if_carry_overflow_reported_c2s :: bool
  if_carry_overflow_reported_s2c :: bool
  if_frame_count :: u64

definition iec104_flow_state_default :: iec104_flow_state where
  "iec104_flow_state_default =
     \<lparr>if_carry_c2s = [], if_carry_s2c = [], if_session_started = False, if_last_ns_c2s = None, if_last_ns_s2c = None,
      if_malformed_len_reported_c2s = False, if_malformed_len_reported_s2c = False,
      if_carry_overflow_reported_c2s = False, if_carry_overflow_reported_s2c = False, if_frame_count = 0\<rparr>"

definition classify_frame_format :: "u8 \<Rightarrow> frame_format" where
  "classify_frame_format cf1 =
     (if cf1 AND 0x01 = 0x00 then IFormat else if cf1 AND 0x03 = 0x01 then SFormat else UFormat)"

definition parse_apci_header :: "bytes \<Rightarrow> apci_header option" where
  "parse_apci_header data =
     (if length data < 6 then None
      else if data ! 0 \<noteq> 0x68 then None
      else let len = data ! 1 in
        if len < 4 then None
        else if len > 253 then None
        else Some \<lparr>ap_start = 0x68, ap_len = len, ap_cf1 = data ! 2, ap_cf2 = data ! 3, ap_cf3 = data ! 4, ap_cf4 = data ! 5\<rparr>)"

definition is_valid_iec104_frame :: "bytes \<Rightarrow> bool" where
  "is_valid_iec104_frame data \<longleftrightarrow> 2 \<le> length data \<and> data ! 0 = 0x68 \<and> data ! 1 \<ge> 4 \<and> data ! 1 \<le> 253"

section \<open>U-frames\<close>

text \<open>The fields every finding of the analyzer shares.\<close>

record iec104_origin =
  or_direction :: direction
  or_source :: "ip_addr option"
  or_timestamp :: "u32 option"

definition iec104_finding ::
  "iec104_origin \<Rightarrow> threat_category \<Rightarrow> verdict \<Rightarrow> string \<Rightarrow> flow_key fmt \<Rightarrow> flow_key fmt list \<Rightarrow> finding"
where
  "iec104_finding og cat v technique summ ev =
     \<lparr>category = cat, verdict = v, confidence = Medium, summary = summ, evidence = ev,
      mitre_techniques = [technique], source_ip = or_source og, timestamp = or_timestamp og,
      direction = Some (or_direction og)\<rparr>"

definition stopdt_finding :: "iec104_origin \<Rightarrow> u8 \<Rightarrow> bool \<Rightarrow> finding" where
  "stopdt_finding og cf1 was_started =
     iec104_finding og Impact (if was_started then Possible else Likely) ''T0881''
       [Lit ''IEC-104 STOPDT-act received: CF1=0x'', Hex2 cf1,
        Lit '' -- ICS data-transfer service stop request observed (T0881 inhibit-response-function; BC-2.19.011/012)'']
       ([Lit ''CF1=0x'', Hex2 cf1, Lit '' (STOPDT-act)''] #
        (if was_started then [] else [[Lit ''STOPDT received without prior STARTDT on this flow'']]))"

definition noncanonical_finding :: "iec104_origin \<Rightarrow> u8 \<Rightarrow> finding" where
  "noncanonical_finding og cf1 =
     iec104_finding og Anomaly Possible ''T0814''
       [Lit ''IEC-104 non-canonical U-frame CF1=0x'', Hex2 cf1,
        Lit '': CF1 bits1:0=0b11 but not in canonical set {0x07,0x0B,0x13,0x23,0x43,0x83} -- potential CVE-2026-1773 denial-of-service attack (T0814; BC-2.19.014)'']
       [[Lit ''CF1=0x'', Hex2 cf1,
         Lit '' not in canonical U-frame set {STARTDT-act=0x07, STARTDT-con=0x0B, STOPDT-act=0x13, STOPDT-con=0x23, TESTFR-act=0x43, TESTFR-con=0x83}'']]"

text \<open>\<open>debug_assert!\<close> is not compiled into the release build; the one caller passes U-frames only.\<close>

definition process_u_frame :: "iec104_origin \<Rightarrow> u8 \<Rightarrow> iec104_flow_state \<Rightarrow> iec104_flow_state \<times> finding option" where
  "process_u_frame og cf1 f =
     (if cf1 = u_startdt_act \<or> cf1 = u_startdt_con then (f\<lparr>if_session_started := True\<rparr>, None)
      else if cf1 = u_stopdt_act then
        (f\<lparr>if_session_started := False\<rparr>, Some (stopdt_finding og cf1 (if_session_started f)))
      else if cf1 = u_stopdt_con then (f\<lparr>if_session_started := False\<rparr>, None)
      else if cf1 = u_testfr_act \<or> cf1 = u_testfr_con then (f, None)
      else (f, Some (noncanonical_finding og cf1)))"

section \<open>ASDUs\<close>

record asdu =
  as_type_id :: u8
  as_sq :: bool
  as_count :: u8
  as_cot_cause :: u8
  as_cot_pn :: bool
  as_cot_test :: bool
  as_cot_originator :: u8
  as_casdu :: u16
  as_first_ioa :: "u32 option"

text \<open>\<open>u16::from_le_bytes\<close>, and \<open>u32::from_le_bytes\<close> with a top byte of zero.\<close>

definition le16 :: "u8 \<Rightarrow> u8 \<Rightarrow> u16" where
  "le16 lo hi = ucast lo OR push_bit 8 (ucast hi)"

definition le24 :: "u8 \<Rightarrow> u8 \<Rightarrow> u8 \<Rightarrow> u32" where
  "le24 a b c = ucast a OR push_bit 8 (ucast b) OR push_bit 16 (ucast c)"

definition parse_asdu :: "bytes \<Rightarrow> asdu option" where
  "parse_asdu body =
     (if length body < 6 then None
      else let count = body ! 1 AND 0x7F in
        Some \<lparr>as_type_id = body ! 0, as_sq = (body ! 1 AND 0x80 \<noteq> 0), as_count = count,
              as_cot_cause = body ! 2 AND 0x3F, as_cot_pn = (body ! 2 AND 0x40 \<noteq> 0), as_cot_test = (body ! 2 AND 0x80 \<noteq> 0),
              as_cot_originator = body ! 3, as_casdu = le16 (body ! 4) (body ! 5),
              as_first_ioa = (if count > 0 \<and> length body \<ge> 9 then Some (le24 (body ! 6) (body ! 7) (body ! 8)) else None)\<rparr>)"

definition target_context :: "asdu \<Rightarrow> flow_key fmt list" where
  "target_context a =
     [Lit ''CASDU='', Dec (unat (as_casdu a))] #
     (case as_first_ioa a of Some ioa \<Rightarrow> [[Lit ''first_ioa='', Dec (unat ioa)]] | None \<Rightarrow> [])"

definition type_frag :: "asdu \<Rightarrow> flow_key frag" where
  "type_frag a = Dec (unat (as_type_id a))"

definition switching_findings :: "iec104_origin \<Rightarrow> asdu \<Rightarrow> finding list" where
  "switching_findings og a =
     [iec104_finding og Impact Possible ''T1692.001''
        [Lit ''IEC-104 control command TypeID='', type_frag a,
         Lit '' (C_SC/C_DC/C_RC): switching control command observed on passive monitor (T1692.001 unauthorized command message; BC-2.19.019)'']
        ([Lit ''TypeID='', type_frag a, Lit '' is a switching control command (C_SC/C_DC/C_RC)''] # target_context a)]"

definition setpoint_findings :: "iec104_origin \<Rightarrow> asdu \<Rightarrow> finding list" where
  "setpoint_findings og a =
     [iec104_finding og Impact Possible ''T1692.001''
        [Lit ''IEC-104 control command TypeID='', type_frag a,
         Lit '' (C_SE/C_BO): set-point or bitstring write command observed on passive monitor (T1692.001 unauthorized command message; BC-2.19.019)'']
        ([Lit ''TypeID='', type_frag a, Lit '' is a set-point/bitstring write command (C_SE_NA/NB/NC or C_BO)''] # target_context a),
      iec104_finding og Impact Possible ''T0836''
        [Lit ''IEC-104 parameter modification TypeID='', type_frag a,
         Lit '' (C_SE/C_BO): set-point or bitstring write modifies ICS control parameters (T0836 modify parameter; BC-2.19.019 postcondition 2)'']
        ([Lit ''TypeID='', type_frag a, Lit '' is a set-point/bitstring write; parameter modification''] # target_context a)]"

definition timed_switching_findings :: "iec104_origin \<Rightarrow> asdu \<Rightarrow> finding list" where
  "timed_switching_findings og a =
     [iec104_finding og Impact Possible ''T1692.001''
        [Lit ''IEC-104 time-tagged control command TypeID='', type_frag a,
         Lit '' (C_SC_TA/C_DC_TA/C_RC_TA): time-tagged switching control command observed on passive monitor (T1692.001 unauthorized command message; BC-2.19.029)'']
        ([Lit ''TypeID='', type_frag a, Lit '' is a time-tagged switching control command (C_SC_TA/C_DC_TA/C_RC_TA)''] # target_context a)]"

definition timed_setpoint_findings :: "iec104_origin \<Rightarrow> asdu \<Rightarrow> finding list" where
  "timed_setpoint_findings og a =
     [iec104_finding og Impact Possible ''T1692.001''
        [Lit ''IEC-104 time-tagged control command TypeID='', type_frag a,
         Lit '' (C_SE_TA/C_SE_TB/C_SE_TC/C_BO_TA): time-tagged set-point or bitstring write command observed on passive monitor (T1692.001 unauthorized command message; BC-2.19.030)'']
        ([Lit ''TypeID='', type_frag a, Lit '' is a time-tagged set-point/bitstring write command (C_SE_TA/C_SE_TB/C_SE_TC/C_BO_TA)'']
         # target_context a),
      iec104_finding og Impact Possible ''T0836''
        [Lit ''IEC-104 time-tagged parameter modification TypeID='', type_frag a,
         Lit '' (C_SE_TA/C_SE_TB/C_SE_TC/C_BO_TA): time-tagged set-point or bitstring write modifies ICS control parameters (T0836 modify parameter; BC-2.19.030 postcondition 2)'']
        ([Lit ''TypeID='', type_frag a, Lit '' is a time-tagged set-point/bitstring write; parameter modification (C_SE_TA/C_SE_TB/C_SE_TC/C_BO_TA)'']
         # target_context a)]"

definition reset_findings :: "iec104_origin \<Rightarrow> asdu \<Rightarrow> finding list" where
  "reset_findings og a =
     [iec104_finding og Impact Likely ''T0827''
        [Lit ''IEC-104 Reset Process command TypeID=105 (C_RP_NA_1): potential unauthorized RTU/IED process reset observed; adversarial use causes equipment to revert to default state (T0827 loss of control; BC-2.19.020)'']
        ([Lit ''TypeID=105 (C_RP_NA_1: Reset Process Command)''] # target_context a)]"

definition reserved_findings :: "iec104_origin \<Rightarrow> asdu \<Rightarrow> finding list" where
  "reserved_findings og a =
     [iec104_finding og Anomaly Possible ''T0814''
        [Lit ''IEC-104 reserved or invalid TypeID='', type_frag a,
         Lit '': undefined or private-use TypeID indicates implementation error or adversarial protocol probe (T0814 denial of service; BC-2.19.022)'']
        ([Lit ''TypeID='', type_frag a, Lit '' is '',
          Lit (if as_type_id a = 0 then ''undefined (TypeID 0 has no assigned meaning)''
               else ''in the private-use/reserved range [128, 255]''),
          Lit '' per IEC 60870-5-104''] # target_context a)]"

text \<open>The match on the type identification.\<close>

definition threat_findings :: "iec104_origin \<Rightarrow> asdu \<Rightarrow> finding list" where
  "threat_findings og a =
     (let t = as_type_id a in
      if 45 \<le> t \<and> t \<le> 47 then switching_findings og a
      else if 48 \<le> t \<and> t \<le> 51 then setpoint_findings og a
      else if 58 \<le> t \<and> t \<le> 60 then timed_switching_findings og a
      else if 61 \<le> t \<and> t \<le> 64 then timed_setpoint_findings og a
      else if t = 105 then reset_findings og a
      else if t = 100 \<or> t = 101 \<or> t = 103 then []
      else if t = 0 \<or> 128 \<le> t then reserved_findings og a
      else [])"

definition tag_test :: "finding \<Rightarrow> finding" where
  "tag_test fi = fi\<lparr>summary := summary fi @ [Lit '' [TEST]'']\<rparr>"

definition detect_iec104_threats :: "iec104_origin \<Rightarrow> asdu \<Rightarrow> finding list \<Rightarrow> finding list" where
  "detect_iec104_threats og a findings =
     (let new = threat_findings og a in findings @ (if as_cot_test a then map tag_test new else new))"

section \<open>Sequence numbers\<close>

definition extract_ns :: "u8 \<Rightarrow> u8 \<Rightarrow> u16" where
  "extract_ns cf1 cf2 = drop_bit 1 (ucast cf1) OR push_bit 7 (ucast cf2)"

definition extract_nr :: "u8 \<Rightarrow> u8 \<Rightarrow> u16" where
  "extract_nr cf3 cf4 = drop_bit 1 (ucast cf3) OR push_bit 7 (ucast cf4)"

fun last_ns :: "direction \<Rightarrow> iec104_flow_state \<Rightarrow> u16 option" where
  "last_ns ClientToServer f = if_last_ns_c2s f"
| "last_ns ServerToClient f = if_last_ns_s2c f"

fun set_last_ns :: "direction \<Rightarrow> u16 \<Rightarrow> iec104_flow_state \<Rightarrow> iec104_flow_state" where
  "set_last_ns ClientToServer n f = f\<lparr>if_last_ns_c2s := Some n\<rparr>"
| "set_last_ns ServerToClient n f = f\<lparr>if_last_ns_s2c := Some n\<rparr>"

definition desync_finding :: "iec104_origin \<Rightarrow> u16 \<Rightarrow> u16 \<Rightarrow> u16 \<Rightarrow> finding" where
  "desync_finding og current_ns prev gap =
     iec104_finding og Impact Possible ''T1692.001''
       [Lit ''IEC-104 N(S) sequence desync: N(S)='', Dec (unat current_ns), Lit '' prev='', Dec (unat prev), Lit '' gap='', Dec (unat gap),
        Lit '' > k=12 -- sequence-number desynchronization detected; possible replay injection or adversarial manipulation (T1692.001 unauthorized command message; BC-2.19.024)'']
       [[Lit ''N(S) gap='', Dec (unat gap), Lit '' exceeds k=12 window (current_ns='', Dec (unat current_ns), Lit '', prev_ns='',
         Dec (unat prev), Lit '')'']]"

definition track_ns_desync :: "iec104_origin \<Rightarrow> u16 \<Rightarrow> iec104_flow_state \<Rightarrow> iec104_flow_state \<times> finding option" where
  "track_ns_desync og current_ns f =
     (case last_ns (or_direction og) f of
        None \<Rightarrow> (set_last_ns (or_direction og) current_ns f, None)
      | Some prev \<Rightarrow>
          let gap = (current_ns - prev) AND 0x7FFF in
          (set_last_ns (or_direction og) current_ns f,
           if gap > 12 then Some (desync_finding og current_ns prev gap) else None))"

section \<open>The analyzer\<close>

record iec104_analyzer =
  ia_flows :: "(flow_key, iec104_flow_state) hash_map"
  ia_all_findings :: "finding list"
  ia_dropped_findings :: u64
  ia_flows_analyzed :: u64
  ia_total_frames_closed :: u64

definition iec104_analyzer_new :: iec104_analyzer where
  "iec104_analyzer_new =
     \<lparr>ia_flows = [], ia_all_findings = [], ia_dropped_findings = 0, ia_flows_analyzed = 0, ia_total_frames_closed = 0\<rparr>"

definition iec104_source :: "flow_key \<Rightarrow> direction \<Rightarrow> ip_addr" where
  "iec104_source key dir =
     (let (client_ip, server_ip) =
        (if lower_port key = 2404 then (upper_ip key, lower_ip key) else (lower_ip key, upper_ip key))
      in case dir of ClientToServer \<Rightarrow> client_ip | ServerToClient \<Rightarrow> server_ip)"

definition iec104_origin_of :: "flow_key \<Rightarrow> direction \<Rightarrow> u32 \<Rightarrow> iec104_origin" where
  "iec104_origin_of key dir ts = \<lparr>or_direction = dir, or_source = Some (iec104_source key dir), or_timestamp = Some ts\<rparr>"

fun iec104_carry :: "direction \<Rightarrow> iec104_flow_state \<Rightarrow> bytes" where
  "iec104_carry ClientToServer f = if_carry_c2s f"
| "iec104_carry ServerToClient f = if_carry_s2c f"

fun set_iec104_carry :: "direction \<Rightarrow> bytes \<Rightarrow> iec104_flow_state \<Rightarrow> iec104_flow_state" where
  "set_iec104_carry ClientToServer bs f = f\<lparr>if_carry_c2s := bs\<rparr>"
| "set_iec104_carry ServerToClient bs f = f\<lparr>if_carry_s2c := bs\<rparr>"

fun overflow_reported :: "direction \<Rightarrow> iec104_flow_state \<Rightarrow> bool" where
  "overflow_reported ClientToServer f = if_carry_overflow_reported_c2s f"
| "overflow_reported ServerToClient f = if_carry_overflow_reported_s2c f"

fun report_overflow :: "direction \<Rightarrow> iec104_flow_state \<Rightarrow> iec104_flow_state" where
  "report_overflow ClientToServer f = f\<lparr>if_carry_overflow_reported_c2s := True\<rparr>"
| "report_overflow ServerToClient f = f\<lparr>if_carry_overflow_reported_s2c := True\<rparr>"

fun malformed_reported :: "direction \<Rightarrow> iec104_flow_state \<Rightarrow> bool" where
  "malformed_reported ClientToServer f = if_malformed_len_reported_c2s f"
| "malformed_reported ServerToClient f = if_malformed_len_reported_s2c f"

fun report_malformed :: "direction \<Rightarrow> iec104_flow_state \<Rightarrow> iec104_flow_state" where
  "report_malformed ClientToServer f = f\<lparr>if_malformed_len_reported_c2s := True\<rparr>"
| "report_malformed ServerToClient f = f\<lparr>if_malformed_len_reported_s2c := True\<rparr>"

definition overflow_finding :: "iec104_origin \<Rightarrow> finding" where
  "overflow_finding og =
     iec104_finding og Anomaly Possible ''T0814''
       [Lit ''IEC-104 directional carry residual overflow: carry buffer exceeded MAX_IEC104_CARRY_BYTES='', Dec max_iec104_carry_bytes,
        Lit '' -- adversarial or non-conformant byte sequence; carry cleared and analyzer resyncs on next delivery (T0814; BC-2.19.025 v1.3 F-172-001)'']
       [[Lit ''carry overflow (>'', Dec max_iec104_carry_bytes, Lit ''); carry cleared'']]"

definition malformed_finding :: "iec104_origin \<Rightarrow> u8 \<Rightarrow> usize \<Rightarrow> finding" where
  "malformed_finding og len pos =
     iec104_finding og Anomaly Possible ''T0814''
       [Lit ''IEC-104 malformed LEN byte: 0x68 start byte followed by LEN='', Hex0x len, Lit '' ('', Dec (unat len),
        Lit '') outside valid range [4, 253] -- protocol anomaly or adversarial framing attack (T0814; BC-2.19.026 invariant 5)'']
       [[Lit ''LEN='', Dec (unat len), Lit '' not in [4, 253]; start byte=0x68 at buffer offset '', Dec pos]]"

text \<open>The check of the carry before the walk.\<close>

definition clear_overflow :: "iec104_origin \<Rightarrow> iec104_flow_state \<Rightarrow> iec104_flow_state \<times> finding list" where
  "clear_overflow og f =
     (let dir = or_direction og in
      if length (iec104_carry dir f) > max_iec104_carry_bytes then
        let f1 = set_iec104_carry dir [] f in
        if \<not> overflow_reported dir f1 then (report_overflow dir f1, [overflow_finding og]) else (f1, [])
      else (f, []))"

definition push_option :: "'a option \<Rightarrow> 'a list \<Rightarrow> 'a list" where
  "push_option x xs = (case x of Some y \<Rightarrow> xs @ [y] | None \<Rightarrow> xs)"

text \<open>The dispatch on the format of a complete frame.\<close>

definition process_frame ::
  "iec104_origin \<Rightarrow> bytes \<Rightarrow> iec104_flow_state \<times> finding list \<Rightarrow> iec104_flow_state \<times> finding list"
where
  "process_frame og frame st =
     (let (f, local_findings) = st in
      case parse_apci_header frame of
        None \<Rightarrow> (f, local_findings)
      | Some header \<Rightarrow>
          let f1 = f\<lparr>if_frame_count := sat_add64 (if_frame_count f) 1\<rparr> in
          case classify_frame_format (ap_cf1 header) of
            UFormat \<Rightarrow>
              let (f2, r) = process_u_frame og (ap_cf1 header) f1 in (f2, push_option r local_findings)
          | IFormat \<Rightarrow>
              let found = (case parse_asdu (drop 6 frame) of
                             Some a \<Rightarrow> detect_iec104_threats og a local_findings | None \<Rightarrow> local_findings);
                  (f2, r) = track_ns_desync og (extract_ns (ap_cf1 header) (ap_cf2 header)) f1
              in (f2, push_option r found)
          | SFormat \<Rightarrow> (f1, local_findings))"

text \<open>The loop: \<open>remaining\<close> are the bytes of the buffer from \<open>pos\<close> on.\<close>

function iec104_walk ::
  "iec104_origin \<Rightarrow> usize \<Rightarrow> bytes \<Rightarrow> iec104_flow_state \<times> finding list \<Rightarrow> iec104_flow_state \<times> finding list"
where
  "iec104_walk og pos remaining st =
     (let (f, local_findings) = st; dir = or_direction og in
      if remaining = [] then st
      else if remaining ! 0 \<noteq> 0x68 then iec104_walk og (pos + 1) (drop 1 remaining) st
      else if length remaining < 2 then (set_iec104_carry dir (iec104_carry dir f @ remaining) f, local_findings)
      else let len = remaining ! 1 in
        if \<not> (4 \<le> len \<and> len \<le> 253) then
          iec104_walk og (pos + 2) (drop 2 remaining)
            (if malformed_reported dir f then (f, local_findings)
             else (report_malformed dir f, local_findings @ [malformed_finding og len pos]))
        else let frame_len = unat len + 2 in
          if length remaining < frame_len
          then (set_iec104_carry dir (iec104_carry dir f @ remaining) f, local_findings)
          else iec104_walk og (pos + frame_len) (drop frame_len remaining)
                 (process_frame og (take frame_len remaining) st))"
  by pat_completeness auto
termination
  by (relation "measure (\<lambda>(og, pos, remaining, st). length remaining)") auto

declare iec104_walk.simps [simp del]

text \<open>The cap on the findings kept.\<close>

definition keep_findings :: "finding list \<Rightarrow> iec104_analyzer \<Rightarrow> iec104_analyzer" where
  "keep_findings local_findings a =
     (let remaining_cap = max_iec104_findings - length (ia_all_findings a) in
      if length local_findings > remaining_cap
      then a\<lparr>ia_dropped_findings := sat_add64 (ia_dropped_findings a) (length local_findings - remaining_cap),
             ia_all_findings := ia_all_findings a @ take remaining_cap local_findings\<rparr>
      else a\<lparr>ia_all_findings := ia_all_findings a @ local_findings\<rparr>)"

definition iec104_on_data :: "iec104_analyzer \<Rightarrow> flow_key \<Rightarrow> bytes \<Rightarrow> u32 \<Rightarrow> direction \<Rightarrow> iec104_analyzer" where
  "iec104_on_data a key data ts dir =
     (let og = iec104_origin_of key dir ts;
          f = (case hm_get (ia_flows a) key of Some f \<Rightarrow> f | None \<Rightarrow> iec104_flow_state_default);
          (f1, overflow) = clear_overflow og f;
          buf = iec104_carry dir f1 @ data;
          (f2, local_findings) = iec104_walk og 0 buf (set_iec104_carry dir [] f1, overflow)
      in keep_findings local_findings (a\<lparr>ia_flows := hm_insert key f2 (ia_flows a)\<rparr>))"

definition iec104_on_flow_close :: "iec104_analyzer \<Rightarrow> flow_key \<Rightarrow> iec104_analyzer" where
  "iec104_on_flow_close a key =
     (case hm_get (ia_flows a) key of
        None \<Rightarrow> a
      | Some flow \<Rightarrow>
          a\<lparr>ia_flows := hm_remove key (ia_flows a),
            ia_flows_analyzed := sat_add64 (ia_flows_analyzed a) 1,
            ia_total_frames_closed := sat_add64 (ia_total_frames_closed a) (if_frame_count flow)\<rparr>)"

definition iec104_summarize :: "iec104_analyzer \<Rightarrow> analysis_summary rust" where
  "iec104_summarize a = do {
     open_frames \<leftarrow> sum64 (map (\<lambda>(key, f). if_frame_count f) (ia_flows a));
     Some \<lparr>analyzer_name = ''IEC-104'', packets_analyzed = sat_add64 (ia_total_frames_closed a) open_frames,
           detail = [''dropped_findings'' \<mapsto> Num (ia_dropped_findings a),
                     ''flows_analyzed'' \<mapsto> Num (sat_add64 (ia_flows_analyzed a) (length (ia_flows a))),
                     ''total_findings'' \<mapsto> Num (length (ia_all_findings a))]\<rparr>
   }"

text \<open>The analyzer as the dispatcher calls it.\<close>

definition iec104_handler :: "iec104_analyzer stream_handler" where
  "iec104_handler =
     \<lparr>on_data = (\<lambda>a key dir data off ts. Some (iec104_on_data a key data ts dir)),
      on_flow_close = (\<lambda>a key reason. Some (iec104_on_flow_close a key))\<rparr>"

end
