(* ===== verification/Iec104_Inv.thy ===== *)
theory Iec104_Inv
  imports Iec104 Engine_Run
begin

text \<open>
  The frame walk of the IEC-104 analyzer: what it leaves in the carry buffers, that it counts
  no more frames than there are bytes, and that it does not depend on how the stream is cut
  into chunks. With it the analyzer is a client of the engine.
\<close>

section \<open>The selectors of a direction\<close>

fun other :: "direction \<Rightarrow> direction" where
  "other ClientToServer = ServerToClient"
| "other ServerToClient = ClientToServer"

lemma other_neq [simp]: "other d \<noteq> d" "d \<noteq> other d"
  by (cases d; simp)+

lemma dir_or_other: "e = d \<or> e = other d"
  by (cases e; cases d) simp_all

lemma carry_set [simp]:
  "iec104_carry d (set_iec104_carry e bs f) = (if d = e then bs else iec104_carry d f)"
  "if_frame_count (set_iec104_carry d bs f) = if_frame_count f"
  "overflow_reported d (set_iec104_carry e bs f) = overflow_reported d f"
  "set_iec104_carry d bs (set_iec104_carry d cs f) = set_iec104_carry d bs f"
  "iec104_carry d f = [] \<Longrightarrow> set_iec104_carry d [] f = f"
  by (cases d; cases e; simp)+

definition same_buffers :: "iec104_flow_state \<Rightarrow> iec104_flow_state \<Rightarrow> bool" where
  "same_buffers f f' \<longleftrightarrow> (\<forall>d. iec104_carry d f' = iec104_carry d f \<and> overflow_reported d f' = overflow_reported d f)"

lemma same_buffers_refl [simp]: "same_buffers f f"
  by (simp add: same_buffers_def)

lemma report_malformed_buffers: "same_buffers f (report_malformed d f)"
proof -
  have "iec104_carry e (report_malformed d f) = iec104_carry e f \<and>
      overflow_reported e (report_malformed d f) = overflow_reported e f" for e
    by (cases d; cases e) simp_all
  then show ?thesis by (simp add: same_buffers_def)
qed

lemma report_malformed_count [simp]: "if_frame_count (report_malformed d f) = if_frame_count f"
  by (cases d) simp_all

lemma process_u_frame_frame:
  "same_buffers f (fst (process_u_frame og cf1 f))" "if_frame_count (fst (process_u_frame og cf1 f)) = if_frame_count f"
proof -
  have "iec104_carry d (fst (process_u_frame og cf1 f)) = iec104_carry d f \<and>
      overflow_reported d (fst (process_u_frame og cf1 f)) = overflow_reported d f" for d
    by (cases d) (simp_all add: process_u_frame_def)
  then show "same_buffers f (fst (process_u_frame og cf1 f))" by (simp add: same_buffers_def)
  show "if_frame_count (fst (process_u_frame og cf1 f)) = if_frame_count f" by (simp add: process_u_frame_def)
qed

lemma track_ns_frame:
  "same_buffers f (fst (track_ns_desync og n f))" "if_frame_count (fst (track_ns_desync og n f)) = if_frame_count f"
proof -
  have s: "fst (track_ns_desync og n f) = set_last_ns (or_direction og) n f"
    by (simp add: track_ns_desync_def Let_def split: option.split)
  have "iec104_carry d (set_last_ns e n f) = iec104_carry d f \<and>
      overflow_reported d (set_last_ns e n f) = overflow_reported d f" for d e
    by (cases d; cases e) simp_all
  then show "same_buffers f (fst (track_ns_desync og n f))" by (simp add: same_buffers_def s)
  show "if_frame_count (fst (track_ns_desync og n f)) = if_frame_count f" by (cases "or_direction og") (simp_all add: s)
qed

text \<open>What processing a frame changes, with the findings it adds to those already there.\<close>

lemma push_option_append: "push_option r (xs @ ys) = xs @ push_option r ys"
  by (cases r) (simp_all add: push_option_def)

lemma detect_append: "detect_iec104_threats og a (xs @ ys) = xs @ detect_iec104_threats og a ys"
  by (simp add: detect_iec104_threats_def Let_def)

lemma process_frame_append:
  "process_frame og frame (f, xs @ ys) = apsnd ((@) xs) (process_frame og frame (f, ys))"
  by (auto simp: process_frame_def Let_def push_option_append detect_append split: option.split frame_format.split prod.split)

lemma process_frame_frame:
  "same_buffers f (fst (process_frame og frame (f, l)))"
  "if_frame_count (fst (process_frame og frame (f, l))) \<le> if_frame_count f + 1"
proof -
  let ?f = "f\<lparr>if_frame_count := sat_add64 (if_frame_count f) 1\<rparr>"
  have b: "same_buffers ?f g \<Longrightarrow> same_buffers f g" for g
  proof -
    have "iec104_carry d ?f = iec104_carry d f" "overflow_reported d ?f = overflow_reported d f" for d by (cases d; simp)+
    then show "same_buffers ?f g \<Longrightarrow> same_buffers f g" by (simp add: same_buffers_def)
  qed
  have c: "sat_add64 (if_frame_count f) 1 \<le> if_frame_count f + 1" by (simp add: sat_add64_def)
  show "same_buffers f (fst (process_frame og frame (f, l)))"
    using b process_u_frame_frame(1) track_ns_frame(1)
    by (simp add: process_frame_def Let_def case_prod_unfold split: option.split frame_format.split)
  show "if_frame_count (fst (process_frame og frame (f, l))) \<le> if_frame_count f + 1"
    using c process_u_frame_frame(2) track_ns_frame(2)
    by (simp add: process_frame_def Let_def case_prod_unfold split: option.split frame_format.split)
qed

section \<open>The walk\<close>

text \<open>The five ways a round of the walk can go.\<close>

lemma walk_cases:
  obtains (finish) "remaining = []"
  | (skip) b rest where "remaining = b # rest" "b \<noteq> 0x68"
  | (start) "remaining = [0x68]"
  | (malformed) len rest where "remaining = 0x68 # len # rest" "\<not> (4 \<le> len \<and> len \<le> 253)"
  | (partial) len rest where "remaining = 0x68 # len # rest" "4 \<le> len" "len \<le> 253" "length rest < unat len"
  | (complete) len rest where "remaining = 0x68 # len # rest" "4 \<le> len" "len \<le> 253" "unat len \<le> length rest"
proof (cases remaining)
  case Nil
  then show ?thesis by (rule finish)
next
  case (Cons b rest)
  show ?thesis
  proof (cases "b = 0x68")
    case False
    with Cons show ?thesis by (rule skip)
  next
    case True
    show ?thesis
    proof (cases rest)
      case Nil
      with Cons True start show ?thesis by simp
    next
      case c: (Cons len rest')
      with Cons True malformed partial complete show ?thesis by (metis not_le)
    qed
  qed
qed

lemma walk_simps:
  "iec104_walk og pos [] (f, l) = (f, l)"
  "b \<noteq> 0x68 \<Longrightarrow> iec104_walk og pos (b # rest) (f, l) = iec104_walk og (pos + 1) rest (f, l)"
  "iec104_walk og pos [0x68] (f, l) = (set_iec104_carry (or_direction og) (iec104_carry (or_direction og) f @ [0x68]) f, l)"
  "\<not> (4 \<le> len \<and> len \<le> 253) \<Longrightarrow> iec104_walk og pos (0x68 # len # rest) (f, l) =
     iec104_walk og (pos + 2) rest
       (if malformed_reported (or_direction og) f then (f, l)
        else (report_malformed (or_direction og) f, l @ [malformed_finding og len pos]))"
  "4 \<le> len \<Longrightarrow> len \<le> 253 \<Longrightarrow> length rest < unat len \<Longrightarrow> iec104_walk og pos (0x68 # len # rest) (f, l) =
     (set_iec104_carry (or_direction og) (iec104_carry (or_direction og) f @ 0x68 # len # rest) f, l)"
  "4 \<le> len \<Longrightarrow> len \<le> 253 \<Longrightarrow> unat len \<le> length rest \<Longrightarrow> iec104_walk og pos (0x68 # len # rest) (f, l) =
     iec104_walk og (pos + (unat len + 2)) (drop (unat len) rest) (process_frame og (0x68 # len # take (unat len) rest) (f, l))"
  by (simp_all add: iec104_walk.simps [of og pos] Let_def)

lemma unat_frame_len: "len \<le> 253 \<Longrightarrow> unat (len :: u8) \<le> 253"
  by (simp add: word_le_nat_alt)

text \<open>What is left in the carry is the start of a frame, shorter than the longest one; no round
  touches the other direction or the overflow latches; frames are counted against bytes.\<close>

lemma walk_bounds:
  assumes "iec104_walk og pos remaining (f, l) = (f', l')" and "iec104_carry (or_direction og) f = []"
  shows "length (iec104_carry (or_direction og) f') \<le> 254 \<and>
    iec104_carry (other (or_direction og)) f' = iec104_carry (other (or_direction og)) f \<and>
    (\<forall>d. overflow_reported d f' = overflow_reported d f) \<and>
    if_frame_count f' + length (iec104_carry (or_direction og) f') \<le> if_frame_count f + length remaining"
  using assms
proof (induction "length remaining" arbitrary: pos remaining f l rule: less_induct)
  case less
  let ?d = "or_direction og"
  show ?case
  proof (cases remaining rule: walk_cases)
    case finish
    with less.prems show ?thesis by (auto simp: walk_simps)
  next
    case (skip b rest)
    with less.hyps [of rest "pos + 1" f l] less.prems show ?thesis by (auto simp: walk_simps)
  next
    case start
    with less.prems show ?thesis by (auto simp: walk_simps)
  next
    case (malformed len rest)
    let ?st = "if malformed_reported ?d f then (f, l) else (report_malformed ?d f, l @ [malformed_finding og len pos])"
    have w: "iec104_walk og (pos + 2) rest (fst ?st, snd ?st) = (f', l')"
      using less.prems(1) malformed by (simp add: walk_simps)
    have s: "same_buffers f (fst ?st)" "if_frame_count (fst ?st) = if_frame_count f"
      using report_malformed_buffers by auto
    from less.hyps [OF _ w] s less.prems(2) malformed(1) show ?thesis by (auto simp: same_buffers_def)
  next
    case (partial len rest)
    with less.prems unat_frame_len [OF partial(3)] show ?thesis by (auto simp: walk_simps)
  next
    case (complete len rest)
    let ?st = "process_frame og (0x68 # len # take (unat len) rest) (f, l)"
    have w: "iec104_walk og (pos + (unat len + 2)) (drop (unat len) rest) (fst ?st, snd ?st) = (f', l')"
      using less.prems(1) complete by (simp add: walk_simps)
    have l: "length (drop (unat len) rest) < length remaining" by (simp add: complete(1))
    have s: "\<forall>d. iec104_carry d (fst ?st) = iec104_carry d f \<and> overflow_reported d (fst ?st) = overflow_reported d f"
      using process_frame_frame(1) [of f og _ l] by (simp add: same_buffers_def)
    have c: "if_frame_count (fst ?st) \<le> if_frame_count f + 1" by (rule process_frame_frame(2))
    from less.hyps [OF l w] s less.prems(2)
    have ih: "length (iec104_carry ?d f') \<le> 254" "iec104_carry (other ?d) f' = iec104_carry (other ?d) f"
        "\<forall>d. overflow_reported d f' = overflow_reported d f"
        "if_frame_count f' + length (iec104_carry ?d f') \<le> if_frame_count (fst ?st) + length (drop (unat len) rest)" by auto
    with c complete(1) show ?thesis by simp
  qed
qed

section \<open>The invariant\<close>

definition iec104_load :: "iec104_flow_state \<Rightarrow> nat" where
  "iec104_load f = if_frame_count f + length (if_carry_c2s f) + length (if_carry_s2c f)"

lemma iec104_load_dir:
  "iec104_load f = if_frame_count f + length (iec104_carry d f) + length (iec104_carry (other d) f)"
  by (cases d) (simp_all add: iec104_load_def)

definition iec104_flow_ok :: "iec104_flow_state \<Rightarrow> bool" where
  "iec104_flow_ok f \<longleftrightarrow> (\<forall>d. length (iec104_carry d f) \<le> 254 \<and> \<not> overflow_reported d f)"

text \<open>Room for \<open>n\<close> more bytes: the sum of the frame counters stays within a \<open>u64\<close>.\<close>

definition iec104_ok :: "nat \<Rightarrow> iec104_analyzer \<Rightarrow> bool" where
  "iec104_ok n a \<longleftrightarrow>
     hm_ok (ia_flows a) \<and> length (ia_all_findings a) \<le> max_iec104_findings \<and>
     (\<forall>(key, f) \<in> set (ia_flows a). iec104_flow_ok f) \<and> weight iec104_load (ia_flows a) + n \<le> u64_max"

lemma iec104_flow_default_ok: "iec104_flow_ok iec104_flow_state_default" "iec104_load iec104_flow_state_default = 0"
proof -
  have "length (iec104_carry d iec104_flow_state_default) \<le> 254 \<and> \<not> overflow_reported d iec104_flow_state_default" for d
    by (cases d) (simp_all add: iec104_flow_state_default_def)
  then show "iec104_flow_ok iec104_flow_state_default" by (simp add: iec104_flow_ok_def)
  show "iec104_load iec104_flow_state_default = 0" by (simp add: iec104_load_def iec104_flow_state_default_def)
qed

lemma iec104_new_ok: "n \<le> u64_max \<Longrightarrow> iec104_ok n iec104_analyzer_new"
  by (simp add: iec104_ok_def iec104_analyzer_new_def)

abbreviation flow_of :: "iec104_analyzer \<Rightarrow> flow_key \<Rightarrow> iec104_flow_state" where
  "flow_of a key \<equiv> (case hm_get (ia_flows a) key of Some f \<Rightarrow> f | None \<Rightarrow> iec104_flow_state_default)"

lemma flow_of_ok:
  assumes "iec104_ok n a"
  shows "iec104_flow_ok (flow_of a key)"
  using assms iec104_flow_default_ok(1) hmap.get_iff [of "ia_flows a" key]
  by (auto simp: iec104_ok_def split: option.split)

lemma clear_overflow_idle:
  assumes "iec104_flow_ok f"
  shows "clear_overflow og f = (f, [])"
proof -
  have "length (iec104_carry (or_direction og) f) \<le> 254" using assms by (simp add: iec104_flow_ok_def)
  then show ?thesis by (simp add: clear_overflow_def max_iec104_carry_bytes_def Let_def)
qed

text \<open>The overflow check never fires, so a chunk is the walk over the carry and the data.\<close>

definition walk_chunk :: "flow_key \<Rightarrow> u32 \<Rightarrow> direction \<Rightarrow> bytes \<Rightarrow> iec104_flow_state \<Rightarrow> iec104_flow_state \<times> finding list" where
  "walk_chunk key ts dir data f =
     iec104_walk (iec104_origin_of key dir ts) 0 (iec104_carry dir f @ data) (set_iec104_carry dir [] f, [])"

lemma iec104_on_data_walk:
  assumes "iec104_flow_ok (flow_of a key)"
  shows "iec104_on_data a key data ts dir =
    (let (f', l) = walk_chunk key ts dir data (flow_of a key)
     in keep_findings l (a\<lparr>ia_flows := hm_insert key f' (ia_flows a)\<rparr>))"
  using clear_overflow_idle [OF assms] by (simp add: iec104_on_data_def walk_chunk_def Let_def)

lemma walk_chunk_bounds:
  assumes "iec104_flow_ok f" and "walk_chunk key ts dir data f = (f', l)"
  shows "iec104_flow_ok f'" and "iec104_load f' \<le> iec104_load f + length data"
proof -
  let ?og = "iec104_origin_of key dir ts"
  have d: "or_direction ?og = dir" by (simp add: iec104_origin_of_def)
  from walk_bounds [OF assms(2) [unfolded walk_chunk_def], unfolded d]
  have b: "length (iec104_carry dir f') \<le> 254" "iec104_carry (other dir) f' = iec104_carry (other dir) f"
      "\<forall>d. overflow_reported d f' = overflow_reported d f"
      "if_frame_count f' + length (iec104_carry dir f') \<le> if_frame_count f + length (iec104_carry dir f) + length data" by auto
  have "length (iec104_carry e f') \<le> 254" for e
    using b(1,2) assms(1) dir_or_other [of e dir] by (auto simp: iec104_flow_ok_def)
  with b(3) assms(1) show "iec104_flow_ok f'" by (simp add: iec104_flow_ok_def)
  show "iec104_load f' \<le> iec104_load f + length data" using b(2,4) by (simp add: iec104_load_dir [of _ dir])
qed

lemma keep_findings_flows [simp]: "ia_flows (keep_findings l a) = ia_flows a"
  by (simp add: keep_findings_def Let_def)

lemma keep_findings_cap:
  "length (ia_all_findings a) \<le> max_iec104_findings \<Longrightarrow> length (ia_all_findings (keep_findings l a)) \<le> max_iec104_findings"
  by (auto simp: keep_findings_def Let_def)

lemma iec104_on_data_ok:
  assumes "iec104_ok (n + length data) a"
  shows "iec104_ok n (iec104_on_data a key data ts dir)"
proof -
  let ?f = "flow_of a key"
  have f: "iec104_flow_ok ?f" by (rule flow_of_ok [OF assms])
  obtain f' l where w: "walk_chunk key ts dir data ?f = (f', l)" by force
  note b = walk_chunk_bounds [OF f w]
  have ok: "hm_ok (ia_flows a)" using assms by (simp add: iec104_ok_def)
  have "(case hm_get (ia_flows a) key of None \<Rightarrow> 0 | Some old \<Rightarrow> iec104_load old) = iec104_load ?f"
    using iec104_flow_default_ok(2) by (simp split: option.split)
  then have "weight iec104_load (hm_insert key f' (ia_flows a)) + iec104_load ?f = weight iec104_load (ia_flows a) + iec104_load f'"
    using hmap.weight_put [OF ok, of iec104_load key f'] by simp
  then have "weight iec104_load (hm_insert key f' (ia_flows a)) + n \<le> u64_max"
    using assms b(2) by (simp add: iec104_ok_def)
  moreover have "length (ia_all_findings (keep_findings l (a\<lparr>ia_flows := hm_insert key f' (ia_flows a)\<rparr>))) \<le> max_iec104_findings"
    using assms by (intro keep_findings_cap) (simp add: iec104_ok_def)
  moreover have "\<forall>(k, g) \<in> set (hm_insert key f' (ia_flows a)). iec104_flow_ok g"
    using assms b(1) by (auto simp: iec104_ok_def hmap.set_put [OF ok])
  ultimately show ?thesis
    using hm_ok_insert [OF ok] by (simp add: iec104_on_data_walk [OF f] w iec104_ok_def)
qed

lemma iec104_on_flow_close_ok:
  assumes "iec104_ok n a"
  shows "iec104_ok n (iec104_on_flow_close a key)"
proof (cases "hm_get (ia_flows a) key")
  case None
  then show ?thesis using assms by (simp add: iec104_on_flow_close_def)
next
  case (Some f)
  have ok: "hm_ok (ia_flows a)" using assms by (simp add: iec104_ok_def)
  have "weight iec104_load (hm_remove key (ia_flows a)) \<le> weight iec104_load (ia_flows a)"
    using hmap.weight_remove [OF ok, of iec104_load key] by simp
  with assms Some hm_ok_remove [OF ok] show ?thesis
    by (auto simp: iec104_on_flow_close_def iec104_ok_def hmap.set_remove [OF ok])
qed

interpretation iec104: stream_client iec104_handler iec104_ok
proof
  fix n h key dir off ts and data :: bytes
  assume "iec104_ok (n + length data) h"
  then show "\<exists>h'. on_data iec104_handler h key dir data off ts = Some h' \<and> iec104_ok n h'"
    using iec104_on_data_ok by (simp add: iec104_handler_def)
next
  fix n h key reason
  assume "iec104_ok n h"
  then show "\<exists>h'. on_flow_close iec104_handler h key reason = Some h' \<and> iec104_ok n h'"
    using iec104_on_flow_close_ok by (simp add: iec104_handler_def)
next
  fix n k h
  assume "iec104_ok (n + k) h"
  then show "iec104_ok n h" by (auto simp: iec104_ok_def)
qed

section \<open>Chunks\<close>

text \<open>The walk only appends findings, and all that depends on the position is their evidence.\<close>

definition gist :: "finding \<Rightarrow> finding" where
  "gist fi = fi\<lparr>evidence := []\<rparr>"

abbreviation gists :: "iec104_flow_state \<times> finding list \<Rightarrow> iec104_flow_state \<times> finding list" where
  "gists \<equiv> apsnd (map gist)"

lemma gist_malformed: "gist (malformed_finding og len pos) = gist (malformed_finding og len pos')"
  by (simp add: gist_def malformed_finding_def iec104_finding_def)

lemma walk_appends: "iec104_walk og pos remaining (f, l) = apsnd ((@) l) (iec104_walk og pos remaining (f, []))"
proof (induction "length remaining" arbitrary: pos remaining f l rule: less_induct)
  case less
  show ?case
  proof (cases remaining rule: walk_cases)
    case (skip b rest)
    with less [of rest "pos + 1" f l] show ?thesis by (simp add: walk_simps)
  next
    case (malformed len rest)
    have ih: "iec104_walk og (pos + 2) rest (g, k) = apsnd ((@) k) (iec104_walk og (pos + 2) rest (g, []))" for g k
      by (rule less.hyps) (simp add: malformed(1))
    show ?thesis
    proof (cases "malformed_reported (or_direction og) f")
      case True
      with malformed ih [of f l] show ?thesis by (simp add: walk_simps)
    next
      case False
      let ?f = "report_malformed (or_direction og) f" and ?m = "malformed_finding og len pos"
      from False malformed ih [of ?f "l @ [?m]"] ih [of ?f "[?m]"] show ?thesis
        by (simp add: walk_simps prod.expand)
    qed
  next
    case (complete len rest)
    let ?p = "process_frame og (0x68 # len # take (unat len) rest)"
    have ih: "iec104_walk og (pos + (unat len + 2)) (drop (unat len) rest) (g, k) =
        apsnd ((@) k) (iec104_walk og (pos + (unat len + 2)) (drop (unat len) rest) (g, []))" for g k
      by (rule less.hyps) (simp add: complete(1))
    obtain g k where p: "?p (f, []) = (g, k)" by force
    have "?p (f, l) = (g, l @ k)" using process_frame_append [of og _ f l "[]"] p by simp
    with complete p ih [of g "l @ k"] ih [of g k] show ?thesis by (simp add: walk_simps prod.expand)
  qed (simp_all add: walk_simps)
qed

lemma walk_position: "gists (iec104_walk og pos remaining (f, l)) = gists (iec104_walk og pos' remaining (f, l))"
proof (induction "length remaining" arbitrary: pos pos' remaining f l rule: less_induct)
  case less
  show ?case
  proof (cases remaining rule: walk_cases)
    case (skip b rest)
    with less [of rest "pos + 1" f l "pos' + 1"] show ?thesis by (simp add: walk_simps)
  next
    case (malformed len rest)
    have ih: "gists (iec104_walk og (pos + 2) rest (g, k)) = gists (iec104_walk og (pos' + 2) rest (g, k))" for g k
      by (rule less.hyps) (simp add: malformed(1))
    let ?f = "report_malformed (or_direction og) f" and ?m = "malformed_finding og len"
    have "gists (iec104_walk og (pos + 2) rest (?f, l @ [?m pos])) = gists (iec104_walk og (pos' + 2) rest (?f, l @ [?m pos']))"
      using ih [of ?f "[]"] gist_malformed [of og len pos pos']
      unfolding walk_appends [of og _ rest ?f "_ @ _"] by (simp add: prod_eq_iff)
    with malformed ih [of f l] show ?thesis by (simp add: walk_simps)
  next
    case (complete len rest)
    then show ?thesis
      using less.hyps [of "drop (unat len) rest" "pos + (unat len + 2)" _ _ "pos' + (unat len + 2)"]
      by (cases "process_frame og (0x68 # len # take (unat len) rest) (f, l)") (simp add: walk_simps)
  qed (simp_all add: walk_simps)
qed

text \<open>Cutting the buffer: the walk over a first part leaves in the carry what the second part needs.\<close>

lemma walk_split:
  assumes "iec104_walk og p as (f, []) = (f1, l1)" and "iec104_carry (or_direction og) f = []"
  shows "gists (iec104_walk og q (as @ bs) (f, [])) =
    apsnd ((@) (map gist l1))
      (gists (iec104_walk og 0 (iec104_carry (or_direction og) f1 @ bs) (set_iec104_carry (or_direction og) [] f1, [])))"
  using assms
proof (induction "length as" arbitrary: p q as f l1 rule: less_induct)
  case less
  let ?d = "or_direction og"
  show ?case
  proof (cases as rule: walk_cases)
    case finish
    with less.prems show ?thesis using walk_position [of og q bs f "[]" 0] by (auto simp: walk_simps apsnd_def map_prod_def)
  next
    case (skip b rest)
    with less.hyps [of rest "p + 1" f l1 "q + 1"] less.prems show ?thesis by (simp add: walk_simps)
  next
    case start
    with less.prems have "f1 = set_iec104_carry ?d [0x68] f" "l1 = []" by (simp_all add: walk_simps)
    with start less.prems(2) show ?thesis
      using walk_position [of og q "0x68 # bs" f "[]" 0] by (simp add: apsnd_def map_prod_def)
  next
    case (malformed len rest)
    let ?r = "malformed_reported ?d f"
    let ?g = "if ?r then f else report_malformed ?d f"
    let ?m = "\<lambda>pos. if ?r then [] else [malformed_finding og len pos]"
    have step: "iec104_walk og pos (0x68 # len # xs) (f, []) = apsnd ((@) (?m pos)) (iec104_walk og (pos + 2) xs (?g, []))" for pos xs
      using malformed(2) walk_appends [of og "pos + 2" xs "?g" "?m pos"] by (cases ?r) (simp_all add: walk_simps apsnd_def map_prod_def)
    obtain k where k: "iec104_walk og (p + 2) rest (?g, []) = (f1, k)" "l1 = ?m p @ k"
      using less.prems(1) by (cases "iec104_walk og (p + 2) rest (?g, [])") (auto simp: malformed(1) step)
    have c: "iec104_carry ?d ?g = []" using less.prems(2) report_malformed_buffers [of f ?d] by (simp add: same_buffers_def)
    have l: "length rest < length as" by (simp add: malformed(1))
    have "map gist (?m q) = map gist (?m p)" using gist_malformed by simp
    with less.hyps [OF l k(1) c, of "q + 2"] show ?thesis
      by (simp add: malformed(1) step k(2) prod_eq_iff)
  next
    case (partial len rest)
    with less.prems have "f1 = set_iec104_carry ?d as f" "l1 = []" by (simp_all add: walk_simps)
    with less.prems(2) show ?thesis
      using walk_position [of og q "as @ bs" f "[]" 0] by (simp add: apsnd_def map_prod_def)
  next
    case (complete len rest)
    obtain g m where pf: "process_frame og (0x68 # len # take (unat len) rest) (f, []) = (g, m)" by force
    have step: "iec104_walk og pos (0x68 # len # rest @ xs) (f, []) =
        apsnd ((@) m) (iec104_walk og (pos + (unat len + 2)) (drop (unat len) rest @ xs) (g, []))" for pos xs
      using complete(2-4) pf walk_appends [of og _ _ g m] by (simp add: walk_simps)
    obtain k where k: "iec104_walk og (p + (unat len + 2)) (drop (unat len) rest) (g, []) = (f1, k)" "l1 = m @ k"
      using less.prems(1) step [of p "[]"]
      by (cases "iec104_walk og (p + (unat len + 2)) (drop (unat len) rest) (g, [])") (auto simp: complete(1))
    have "same_buffers f g" using process_frame_frame(1) [of f og "0x68 # len # take (unat len) rest" "[]"] by (simp add: pf)
    then have c: "iec104_carry ?d g = []" using less.prems(2) by (simp add: same_buffers_def)
    have l: "length (drop (unat len) rest) < length as" by (simp add: complete(1))
    from less.hyps [OF l k(1) c, of "q + (unat len + 2)"] show ?thesis
      by (simp add: complete(1) step k(2) prod_eq_iff)
  qed
qed

lemma walk_chunk_append:
  assumes "walk_chunk key ts dir as f = (f1, l1)"
  shows "gists (walk_chunk key ts dir (as @ bs) f) = apsnd ((@) (map gist l1)) (gists (walk_chunk key ts dir bs f1))"
  using walk_split [of "iec104_origin_of key dir ts" 0 "iec104_carry dir f @ as" "set_iec104_carry dir [] f" f1 l1 0 bs] assms
  by (simp add: walk_chunk_def iec104_origin_of_def)

section \<open>Findings kept\<close>

definition digest :: "iec104_analyzer \<Rightarrow> iec104_analyzer" where
  "digest a = a\<lparr>ia_all_findings := map gist (ia_all_findings a)\<rparr>"

lemma digest_keep: "digest (keep_findings l a) = keep_findings (map gist l) (digest a)"
  by (simp add: digest_def keep_findings_def Let_def take_map)

lemma sat_add64_assoc: "sat_add64 (sat_add64 a b) c = sat_add64 a (b + c)"
  by (simp add: sat_add64_def min_def)

lemma keep_findings_append: "keep_findings (l1 @ l2) a = keep_findings l2 (keep_findings l1 a)"
proof -
  let ?n = "length (ia_all_findings a)" and ?c = max_iec104_findings
  show ?thesis
  proof (cases "length l1 \<le> ?c - ?n")
    case True
    then have "length l1 + length l2 - (?c - ?n) = length l2 - (?c - (?n + length l1))"
      "?c - ?n < length l1 + length l2 \<longleftrightarrow> ?c - (?n + length l1) < length l2" by linarith+
    with True show ?thesis by (simp add: keep_findings_def Let_def)
  next
    case False
    then have "?c - (?n + min (length l1) (?c - ?n)) = 0"
      "length l1 + length l2 - (?c - ?n) = length l1 - (?c - ?n) + length l2" by simp_all
    with False show ?thesis by (cases "l2 = []") (simp_all add: keep_findings_def Let_def sat_add64_assoc)
  qed
qed

lemma iec104_on_data_append:
  assumes "iec104_flow_ok (flow_of a key)"
  shows "digest (iec104_on_data a key (as @ bs) ts dir) = digest (iec104_on_data (iec104_on_data a key as ts dir) key bs ts dir)"
proof -
  obtain f1 l1 where w: "walk_chunk key ts dir as (flow_of a key) = (f1, l1)" by force
  have ok: "iec104_flow_ok f1" by (rule walk_chunk_bounds [OF assms w])
  obtain f2 l2 where v: "walk_chunk key ts dir bs f1 = (f2, l2)" by force
  obtain f3 l3 where u: "walk_chunk key ts dir (as @ bs) (flow_of a key) = (f3, l3)" by force
  have e: "f3 = f2" "map gist l3 = map gist l1 @ map gist l2" using walk_chunk_append [OF w, of bs] u v by auto
  let ?a1 = "keep_findings l1 (a\<lparr>ia_flows := hm_insert key f1 (ia_flows a)\<rparr>)"
  have a1: "iec104_on_data a key as ts dir = ?a1" using w by (simp add: iec104_on_data_walk [OF assms])
  have "flow_of ?a1 key = f1" by simp
  then have "iec104_on_data ?a1 key bs ts dir = keep_findings l2 (?a1\<lparr>ia_flows := hm_insert key f2 (ia_flows ?a1)\<rparr>)"
    using v ok iec104_on_data_walk [of ?a1 key bs ts dir] by simp
  also have "?a1\<lparr>ia_flows := hm_insert key f2 (ia_flows ?a1)\<rparr> =
      keep_findings l1 (a\<lparr>ia_flows := hm_insert key f2 (ia_flows a)\<rparr>)"
    by (simp add: keep_findings_def Let_def hm_insert_twice)
  finally show ?thesis
    unfolding a1 using u e by (simp add: iec104_on_data_walk [OF assms] digest_keep keep_findings_append)
qed

end
