(* ===== verification/Iec104_Props.thy ===== *)
theory Iec104_Props
  imports Iec104_Inv Engine_Props
begin

text \<open>The properties of the IEC-104 analyzer.\<close>

section \<open>Framing\<close>

lemma iec104_on_data_flow_ok:
  assumes "iec104_flow_ok (flow_of a key)"
  shows "iec104_flow_ok (flow_of (iec104_on_data a key data ts dir) key)"
proof -
  obtain f l where w: "walk_chunk key ts dir data (flow_of a key) = (f, l)" by force
  show ?thesis using walk_chunk_bounds(1) [OF assms w] by (simp add: iec104_on_data_walk [OF assms] w)
qed

lemma digest_fold:
  assumes "iec104_flow_ok (flow_of a key)"
  shows "digest (fold (\<lambda>data a. iec104_on_data a key data ts dir) cs (iec104_on_data a key c ts dir)) =
    digest (iec104_on_data a key (c @ concat cs) ts dir)"
  using assms
proof (induction cs arbitrary: a c)
  case (Cons d cs)
  have "digest (iec104_on_data a key (c @ d @ concat cs) ts dir) =
      digest (iec104_on_data (iec104_on_data a key c ts dir) key (d @ concat cs) ts dir)"
    by (rule iec104_on_data_append [OF Cons.prems])
  with Cons.IH [OF iec104_on_data_flow_ok [OF Cons.prems], where c = d] show ?case by simp
qed simp

text \<open>C22. The frames the analyzer finds do not depend on how TCP cuts the stream, even when the
  stream has garbage and malformed lengths in it: two ways of cutting the same bytes into
  chunks leave the same flow states, counters and findings, except for the text of the
  evidence, in which the code reports a position in its own buffer.\<close>

theorem iec104_framing_any_chunks:
  assumes "concat (c # cs) = concat (d # ds)" and "iec104_ok n a"
  shows "digest (fold (\<lambda>data a. iec104_on_data a key data ts dir) (c # cs) a) =
         digest (fold (\<lambda>data a. iec104_on_data a key data ts dir) (d # ds) a)"
proof -
  have f: "iec104_flow_ok (flow_of a key)" by (rule flow_of_ok [OF assms(2)])
  show ?thesis using digest_fold [OF f, of ts dir cs c] digest_fold [OF f, of ts dir ds d] assms(1) by simp
qed

definition iec104_key :: flow_key where
  "iec104_key = flow_key_new (V4 1) 40000 (V4 2) 2404"

theorem iec104_framing_any_chunks_witness:
  "digest (fold (\<lambda>data a. iec104_on_data a iec104_key data 7 ClientToServer) [[0x68, 4, 0x13], [0, 0, 0]] iec104_analyzer_new) =
   digest (fold (\<lambda>data a. iec104_on_data a iec104_key data 7 ClientToServer) [[0x68], [4, 0x13, 0], [0, 0]] iec104_analyzer_new)"
  by (rule iec104_framing_any_chunks [OF _ iec104_new_ok [of 0]]) simp_all

lemma iec104_summarize_total:
  assumes ok: "iec104_ok n a'"
  shows "\<exists>s. iec104_summarize a' = Some s"
proof -
  have "sum_list (map (\<lambda>(key, f). if_frame_count f) (ia_flows a')) \<le> weight iec104_load (ia_flows a')"
    unfolding weight_def by (intro sum_list_mono) (auto simp: iec104_load_def)
  then have "sum64 (map (\<lambda>(key, f). if_frame_count f) (ia_flows a')) \<noteq> None"
    using ok by (auto simp: sum64_eq iec104_ok_def)
  then show ?thesis by (auto simp: iec104_summarize_def)
qed

text \<open>The engine can drive the analyzer through any capture without a panic, the summary
  included. The carry of a direction stays below one maximal frame, so the branch that
  clears an overfull carry is never taken and its latches stay clear; at most 10,000
  findings are kept.\<close>

theorem iec104_capture_bounded:
  assumes "config_ok c" and "capture_ok ps"
  shows "\<exists>r r' a' s. reassembler_new seed c = Some r \<and>
     process_packets iec104_handler ps (r, iec104_analyzer_new) = Some (r', a') \<and> iec104_summarize a' = Some s \<and>
     length (ia_all_findings a') \<le> 10000 \<and>
     (\<forall>(key, f) \<in> set (ia_flows a'). length (if_carry_c2s f) \<le> 254 \<and> length (if_carry_s2c f) \<le> 254 \<and>
        \<not> if_carry_overflow_reported_c2s f \<and> \<not> if_carry_overflow_reported_s2c f)"
proof -
  have "iec104_ok (capture_bytes ps) iec104_analyzer_new" using assms(2) by (intro iec104_new_ok) (simp add: capture_ok_def)
  from iec104.capture_safe [OF assms this, where seed = seed] obtain r r' a' n
    where r: "reassembler_new seed c = Some r" "process_packets iec104_handler ps (r, iec104_analyzer_new) = Some (r', a')"
      and ok: "iec104_ok n a'" by metis
  have "\<exists>s. iec104_summarize a' = Some s" using iec104_summarize_total [OF ok] .
  moreover have "length (if_carry_c2s f) \<le> 254 \<and> length (if_carry_s2c f) \<le> 254 \<and>
      \<not> if_carry_overflow_reported_c2s f \<and> \<not> if_carry_overflow_reported_s2c f" if "iec104_flow_ok f" for f
    using that [unfolded iec104_flow_ok_def, THEN spec, of ClientToServer]
      that [unfolded iec104_flow_ok_def, THEN spec, of ServerToClient] by simp
  ultimately show ?thesis using r ok by (fastforce simp: iec104_ok_def max_iec104_findings_def)
qed

theorem iec104_capture_bounded_witness:
  "\<exists>r r' a' s. reassembler_new (\<lambda>_ _. 0) sample_config = Some r \<and>
     process_packets iec104_handler sample_capture (r, iec104_analyzer_new) = Some (r', a') \<and> iec104_summarize a' = Some s"
  using iec104_capture_bounded [OF sample_config_ok sample_capture_ok, of "\<lambda>_ _. 0"] by blast

section \<open>Detection\<close>

text \<open>The documented table of type identifications.\<close>

definition techniques_of :: "nat \<Rightarrow> string list" where
  "techniques_of t =
     (if t \<in> {45..47} \<union> {58..60} then [''T1692.001'']
      else if t \<in> {48..51} \<union> {61..64} then [''T1692.001'', ''T0836'']
      else if t = 105 then [''T0827'']
      else if t = 0 \<or> 128 \<le> t then [''T0814'']
      else [])"

lemmas threat_defs =
  switching_findings_def setpoint_findings_def timed_switching_findings_def timed_setpoint_findings_def
  reset_findings_def reserved_findings_def iec104_finding_def

lemma threat_findings_shape:
  "map mitre_techniques (threat_findings og a) = map (\<lambda>t. [t]) (techniques_of (unat (as_type_id a)))"
  "map verdict (threat_findings og a) =
     map (\<lambda>_. if as_type_id a = 105 then Likely else Possible) (techniques_of (unat (as_type_id a)))"
  "map (\<lambda>fi. (source_ip fi, timestamp fi, direction fi)) (threat_findings og a) =
     map (\<lambda>_. (or_source og, or_timestamp og, Some (or_direction og))) (techniques_of (unat (as_type_id a)))"
  "map (\<lambda>fi. last (summary fi) = Lit '' [TEST]'') (threat_findings og a) = map (\<lambda>_. False) (techniques_of (unat (as_type_id a)))"
proof -
  have n: "as_type_id a = 105 \<longleftrightarrow> unat (as_type_id a) = 105" "as_type_id a = 100 \<longleftrightarrow> unat (as_type_id a) = 100"
    "as_type_id a = 101 \<longleftrightarrow> unat (as_type_id a) = 101" "as_type_id a = 103 \<longleftrightarrow> unat (as_type_id a) = 103"
    "as_type_id a = 0 \<longleftrightarrow> unat (as_type_id a) = 0"
    by (simp_all add: word_unat_eq_iff)
  show "map mitre_techniques (threat_findings og a) = map (\<lambda>t. [t]) (techniques_of (unat (as_type_id a)))"
    by (simp add: threat_findings_def techniques_of_def threat_defs word_le_nat_alt n Let_def)
  show "map verdict (threat_findings og a) =
      map (\<lambda>_. if as_type_id a = 105 then Likely else Possible) (techniques_of (unat (as_type_id a)))"
    by (simp add: threat_findings_def techniques_of_def threat_defs word_le_nat_alt n Let_def)
  show "map (\<lambda>fi. (source_ip fi, timestamp fi, direction fi)) (threat_findings og a) =
      map (\<lambda>_. (or_source og, or_timestamp og, Some (or_direction og))) (techniques_of (unat (as_type_id a)))"
    by (simp add: threat_findings_def techniques_of_def threat_defs word_le_nat_alt n Let_def)
  show "map (\<lambda>fi. last (summary fi) = Lit '' [TEST]'') (threat_findings og a) = map (\<lambda>_. False) (techniques_of (unat (as_type_id a)))"
    by (simp add: threat_findings_def techniques_of_def threat_defs word_le_nat_alt n Let_def)
qed

text \<open>Detection on ASDUs follows the documented table for every one of the 256 type
  identifications: exactly the findings of the table are appended, with its techniques and
  verdicts, all with the origin of the frame; their summaries carry the mark \<open>[TEST]\<close>
  exactly if the ASDU is flagged as a test; findings of earlier frames are left alone.\<close>

theorem iec104_threats_exact:
  "\<exists>new. detect_iec104_threats og a l = l @ new \<and>
     map mitre_techniques new = map (\<lambda>t. [t]) (techniques_of (unat (as_type_id a))) \<and>
     map verdict new = map (\<lambda>_. if as_type_id a = 105 then Likely else Possible) (techniques_of (unat (as_type_id a))) \<and>
     map (\<lambda>fi. (source_ip fi, timestamp fi, direction fi)) new =
       map (\<lambda>_. (or_source og, or_timestamp og, Some (or_direction og))) (techniques_of (unat (as_type_id a))) \<and>
     map (\<lambda>fi. last (summary fi) = Lit '' [TEST]'') new = map (\<lambda>_. as_cot_test a) (techniques_of (unat (as_type_id a)))"
proof -
  have "length (threat_findings og a) = length (techniques_of (unat (as_type_id a)))"
    using threat_findings_shape(1) [of og a] by (metis length_map)
  then have "map (\<lambda>_. True) (threat_findings og a) = map (\<lambda>_. True) (techniques_of (unat (as_type_id a)))"
    by (simp add: map_replicate_const)
  then show ?thesis
    using threat_findings_shape [of og a]
    by (auto simp: detect_iec104_threats_def Let_def tag_test_def comp_def)
qed

text \<open>C23. Sequence numbers are read and compared modulo \<open>2\<^sup>1\<^sup>5\<close>: the number of an I-frame is the
  15-bit value of its control octets; a finding is raised exactly if the direction already
  has a number and the new one is not among it and its twelve successors, wrap-around
  included; the number of the direction is always replaced and the other direction's is
  never touched.\<close>

theorem ns_desync_exact:
  "let ns = extract_ns cf1 cf2; dir = or_direction og; (f', r) = track_ns_desync og ns f in
     unat ns = unat cf1 div 2 + 128 * unat cf2 \<and> last_ns dir f' = Some ns \<and> last_ns (other dir) f' = last_ns (other dir) f \<and>
     r \<noteq> None = (case last_ns dir f of None \<Rightarrow> False | Some prev \<Rightarrow> (uint ns - uint prev) mod 2 ^ 15 > 12)"
proof -
  let ?ns = "extract_ns cf1 cf2" and ?d = "or_direction og"
  have b: "unat cf1 < 256" "unat cf2 < 256" using unsigned_less [of cf1] unsigned_less [of cf2] by simp_all
  have ns: "unat ?ns = unat cf1 div 2 + 128 * unat cf2"
  proof -
    let ?a = "drop_bit 1 (ucast cf1) :: u16" and ?b = "push_bit 7 (ucast cf2) :: u16"
    have a: "unat ?a = unat cf1 div 2"
      using b by (simp add: drop_bit_eq_div unat_div unsigned_ucast_eq take_bit_nat_eq_self)
    have "unat ?b = 128 * unat cf2"
      using b by (simp add: push_bit_eq_mult unat_word_ariths unsigned_ucast_eq take_bit_nat_eq_self)
    moreover have "?a OR ?b = ?a + ?b"
    proof -
      have "\<not> (bit ?a n \<and> bit ?b n)" for n
        using bit_imp_le_length [of cf1 "Suc n"] by (auto simp: bit_simps)
      then have "?a AND ?b = 0" by (auto simp: bit_eq_iff bit_and_iff simp del: drop_bit_Suc)
      then show ?thesis by (simp only: disjunctive_add_eq_or)
    qed
    ultimately show ?thesis using a b by (simp add: extract_ns_def unat_word_ariths)
  qed
  have gap: "(ns - prev) AND 0x7FFF > 12 \<longleftrightarrow> (uint ns - uint prev) mod 2 ^ 15 > 12" for ns prev :: u16
  proof -
    have m: "(0x7FFF :: u16) = mask 15" by (simp add: mask_eq_exp_minus_1)
    have "uint ((ns - prev) AND 0x7FFF) = take_bit 15 (uint (ns - prev))"
      unfolding m take_bit_eq_mask [symmetric] by (rule unsigned_take_bit_eq)
    also have "\<dots> = (uint ns - uint prev) mod 2 ^ 15"
      by (simp add: uint_word_ariths take_bit_eq_mod mod_mod_cancel)
    finally have "uint ((ns - prev) AND 0x7FFF) = (uint ns - uint prev) mod 2 ^ 15" .
    then show ?thesis by (simp add: word_less_def)
  qed
  have o: "last_ns ?d (set_last_ns ?d n f) = Some n" "last_ns (other ?d) (set_last_ns ?d n f) = last_ns (other ?d) f" for n
    by (cases ?d; simp)+
  show ?thesis using ns gap o by (simp add: track_ns_desync_def Let_def split: option.split)
qed

text \<open>An I-frame too short for an ASDU header passes in silence: the frame is counted and its
  sequence number recorded, and no finding is raised, although \<open>parse_asdu\<close> documents that
  its caller reports T0814 in this case.\<close>

theorem short_asdu_silent:
  assumes "length body < 6" and "unat len = length body + 4" and "classify_frame_format cf1 = IFormat"
    and "hm_get (ia_flows a) key = None" and "length (ia_all_findings a) \<le> 10000"
  shows "let a' = iec104_on_data a key (0x68 # len # cf1 # cf2 # cf3 # cf4 # body) ts dir in
     ia_all_findings a' = ia_all_findings a \<and>
     map_option (\<lambda>f. (if_frame_count f, last_ns dir f)) (hm_get (ia_flows a') key) = Some (1, Some (extract_ns cf1 cf2))"
proof -
  let ?f = iec104_flow_state_default and ?og = "iec104_origin_of key dir ts"
  let ?frame = "0x68 # len # cf1 # cf2 # cf3 # cf4 # body"
  have d: "or_direction ?og = dir" by (simp add: iec104_origin_of_def)
  have c: "iec104_carry dir ?f = []" "last_ns dir ?f = None" by (cases dir; simp add: iec104_flow_state_default_def)+
  have len: "4 \<le> len" "len \<le> 253" using assms(1,2) by (simp_all add: word_le_nat_alt)
  let ?f1 = "set_last_ns dir (extract_ns cf1 cf2) (?f\<lparr>if_frame_count := 1\<rparr>)"
  have "sat_add64 0 1 = 1" by (simp add: sat_add64_def u64_max_def)
  moreover have "last_ns dir (?f\<lparr>if_frame_count := 1\<rparr>) = None" by (cases dir) (simp_all add: iec104_flow_state_default_def)
  ultimately have pf: "process_frame ?og ?frame (?f, []) = (?f1, [])"
    using len assms(1,3) d
    by (simp add: process_frame_def parse_apci_header_def parse_asdu_def track_ns_desync_def push_option_def not_less
        iec104_flow_state_default_def Let_def not_le)
  have "walk_chunk key ts dir ?frame ?f = (?f1, [])"
    using len assms(2) pf by (simp add: walk_chunk_def c walk_simps)
  then have "iec104_on_data a key ?frame ts dir = a\<lparr>ia_flows := hm_insert key ?f1 (ia_flows a)\<rparr>"
    using iec104_on_data_walk [of a key ?frame ts dir] assms(4) iec104_flow_default_ok(1) by (simp add: keep_findings_def)
  moreover have "if_frame_count ?f1 = 1" "last_ns dir ?f1 = Some (extract_ns cf1 cf2)" by (cases dir; simp)+
  ultimately show ?thesis by simp
qed

theorem short_asdu_silent_witness:
  "let a' = iec104_on_data iec104_analyzer_new iec104_key [0x68, 4, 2, 0, 0, 0] 7 ClientToServer in
     ia_all_findings a' = [] \<and>
     map_option (\<lambda>f. (if_frame_count f, last_ns ClientToServer f)) (hm_get (ia_flows a') iec104_key) = Some (1, Some (extract_ns 2 0))"
  using short_asdu_silent [of "[]" 4 2 iec104_analyzer_new iec104_key 0 0 0 7 ClientToServer]
  by (simp add: classify_frame_format_def iec104_analyzer_new_def)

end
