(* ===== verification/Flow_Scope.thy ===== *)
theory Flow_Scope
  imports Dispatcher_Route Modbus_Stream Dnp3_Inv Enip_Inv Iec104_Inv
begin

text \<open>
  Where the pipeline keeps state about a flow, and that it is let go of: an analyzer gains
  state only for the flow it is given data of and drops it when that flow is closed, and the
  dispatcher closes a flow at the analyzer that has state for it.
\<close>

section \<open>Analyzers with state per flow\<close>

locale flow_scoped =
  fixes H :: "'h stream_handler" and holds :: "'h \<Rightarrow> flow_key \<Rightarrow> bool"
  assumes data_holds: "on_data H h key dir data off ts = Some h' \<Longrightarrow> holds h' k \<Longrightarrow> holds h k \<or> k = key"
    and close_holds: "on_flow_close H h key reason = Some h' \<Longrightarrow> holds h' k \<Longrightarrow> holds h k \<and> k \<noteq> key"

definition modbus_holds :: "modbus_analyzer \<Rightarrow> flow_key \<Rightarrow> bool" where
  "modbus_holds m k \<longleftrightarrow> hm_get (ma_flows m) k \<noteq> None"

definition iec104_holds :: "iec104_analyzer \<Rightarrow> flow_key \<Rightarrow> bool" where
  "iec104_holds a k \<longleftrightarrow> hm_get (ia_flows a) k \<noteq> None"

definition dnp3_holds :: "dnp3_analyzer \<Rightarrow> flow_key \<Rightarrow> bool" where
  "dnp3_holds a k \<longleftrightarrow> hm_get (da_flows a) k \<noteq> None"

definition enip_holds :: "enip_analyzer \<Rightarrow> flow_key \<Rightarrow> bool" where
  "enip_holds a k \<longleftrightarrow> hm_get (ea_flows a) k \<noteq> None"

interpretation modbus_scope: flow_scoped modbus_handler modbus_holds
proof
  fix h key dir off ts h' k and data :: bytes
  assume "on_data modbus_handler h key dir data off ts = Some h'" and k: "modbus_holds h' k"
  then obtain m2 f2 where c: "next_chunk key dir ts data (h\<lparr>ma_flows := hm_remove key (ma_flows h)\<rparr>,
        case hm_get (ma_flows h) key of Some f \<Rightarrow> f | None \<Rightarrow> modbus_flow_state_default) = Some (m2, f2)"
      and h': "h' = m2\<lparr>ma_flows := hm_insert key f2 (ma_flows m2)\<rparr>"
    by (auto simp: modbus_handler_def next_chunk_on_data Let_def bind_eq_Some_conv)
  have "ma_flows m2 = hm_remove key (ma_flows h)" using next_chunk_flows [OF c] by simp
  then show "modbus_holds h k \<or> k = key" using k by (auto simp: h' modbus_holds_def split: if_splits)
next
  fix h key reason h' k
  assume "on_flow_close modbus_handler h key reason = Some h'" and "modbus_holds h' k"
  then show "modbus_holds h k \<and> k \<noteq> key"
    by (auto simp: modbus_handler_def modbus_on_flow_close_def modbus_holds_def split: if_splits)
qed

interpretation dnp3_scope: flow_scoped dnp3_handler dnp3_holds
proof
  fix h key dir off ts h' k and data :: bytes
  assume "on_data dnp3_handler h key dir data off ts = Some h'" and "dnp3_holds h' k"
  then show "dnp3_holds h k \<or> k = key"
    using dnp3_on_data_flows [of h key data ts dir h'] by (auto simp: dnp3_handler_def dnp3_holds_def split: if_splits)
next
  fix h key reason h' k
  assume "on_flow_close dnp3_handler h key reason = Some h'" and "dnp3_holds h' k"
  then show "dnp3_holds h k \<and> k \<noteq> key"
    by (auto simp: dnp3_handler_def dnp3_on_flow_close_def dnp3_holds_def split: option.splits if_splits)
qed

interpretation enip_scope: flow_scoped enip_handler enip_holds
proof
  fix h key dir off ts h' k and data :: bytes
  assume "on_data enip_handler h key dir data off ts = Some h'" and "enip_holds h' k"
  then show "enip_holds h k \<or> k = key"
    using enip_on_data_flows [of h key data ts dir h'] by (auto simp: enip_handler_def enip_holds_def split: if_splits)
next
  fix h key reason h' k
  assume "on_flow_close enip_handler h key reason = Some h'" and "enip_holds h' k"
  then show "enip_holds h k \<and> k \<noteq> key"
    by (auto simp: enip_handler_def enip_on_flow_close_def enip_holds_def split: option.splits if_splits)
qed

interpretation iec104_scope: flow_scoped iec104_handler iec104_holds
proof
  fix h key dir off ts h' k and data :: bytes
  assume "on_data iec104_handler h key dir data off ts = Some h'" and "iec104_holds h' k"
  then show "iec104_holds h k \<or> k = key"
    by (auto simp: iec104_handler_def iec104_on_data_def iec104_holds_def Let_def case_prod_unfold split: if_splits)
next
  fix h key reason h' k
  assume "on_flow_close iec104_handler h key reason = Some h'" and "iec104_holds h' k"
  then show "iec104_holds h k \<and> k \<noteq> key"
    by (auto simp: iec104_handler_def iec104_on_flow_close_def iec104_holds_def split: option.splits if_splits)
qed

section \<open>The dispatcher\<close>

definition slot_holds :: "('a \<Rightarrow> flow_key \<Rightarrow> bool) \<Rightarrow> 'a option \<Rightarrow> flow_key \<Rightarrow> bool" where
  "slot_holds P slot k \<longleftrightarrow> (\<exists>a. slot = Some a \<and> P a k)"

lemma slot_holds_simps [simp]: "\<not> slot_holds P None k" "slot_holds P (Some a) k = P a k"
  by (simp_all add: slot_holds_def)

locale scoped_clients =
  http: flow_scoped Hh Ph + tls: flow_scoped Ht Pt + modbus: flow_scoped Hm Pm +
  dnp3: flow_scoped Hd Pd + enip: flow_scoped He Pe + iec104: flow_scoped Hi Pi
  for Hh :: "'h stream_handler" and Ph and Ht :: "'t stream_handler" and Pt and Hm :: "'m stream_handler" and Pm
    and Hd :: "'d stream_handler" and Pd and He :: "'e stream_handler" and Pe and Hi :: "'i stream_handler" and Pi
begin

abbreviation ops where
  "ops \<equiv> \<lparr>http_ops = Hh, tls_ops = Ht, modbus_ops = Hm, dnp3_ops = Hd, enip_ops = He, iec104_ops = Hi\<rparr>"

fun held_by :: "dispatch_target \<Rightarrow> ('h, 't, 'm, 'd, 'e, 'i) dispatcher \<Rightarrow> flow_key \<Rightarrow> bool" where
  "held_by ToHttp d k = slot_holds Ph (sd_http d) k"
| "held_by ToTls d k = slot_holds Pt (sd_tls d) k"
| "held_by ToModbus d k = slot_holds Pm (sd_modbus d) k"
| "held_by ToDnp3 d k = slot_holds Pd (sd_dnp3 d) k"
| "held_by ToEnip d k = slot_holds Pe (sd_enip d) k"
| "held_by ToIec104 d k = slot_holds Pi (sd_iec104 d) k"
| "held_by ToNone d k = False"

text \<open>State about a flow is only with the analyzer the flow is routed to.\<close>

definition confined :: "('h, 't, 'm, 'd, 'e, 'i) dispatcher \<Rightarrow> bool" where
  "confined d \<longleftrightarrow> (\<forall>t k. held_by t d k \<longrightarrow> hm_get (sd_routes d) k = Some t)"

lemmas data_laws = http.data_holds tls.data_holds modbus.data_holds dnp3.data_holds enip.data_holds iec104.data_holds
lemmas close_laws = http.close_holds tls.close_holds modbus.close_holds dnp3.close_holds enip.close_holds iec104.close_holds

lemma forward_data_holds:
  assumes "forward_data ops target key dir data off ts d = Some d'" and "held_by t d' k"
  shows "held_by t d k \<or> t = target \<and> k = key"
proof (cases "t = target")
  case False
  then show ?thesis using assms by (cases target; cases t) (auto simp: forward_data_def bind_eq_Some_conv)
next
  case True
  then show ?thesis
    using assms
    by (cases target) (auto simp: forward_data_def bind_eq_Some_conv slot_holds_def with_slot_def split: option.splits dest: data_laws)
qed

lemma count_unclassified_held: "held_by t (count_unclassified key d) k = held_by t d k"
  by (cases t) (simp_all add: count_unclassified_def Let_def)

lemma forward_close_holds:
  assumes "forward_close ops target key reason d = Some d'" and "held_by t d' k"
  shows "held_by t d k \<and> \<not> (target = Some t \<and> k = key)"
proof (cases "target = Some t")
  case True
  then show ?thesis
    using assms
    by (cases t) (auto simp: forward_close_def bind_eq_Some_conv slot_holds_def with_slot_def split: option.splits dest: close_laws)
next
  case False
  consider "d' = count_unclassified key d" | t' where "target = Some t'" "t' \<noteq> ToNone"
    using assms(1) by (cases target; cases "the target") (auto simp: forward_close_def)
  then have "held_by t d k"
  proof cases
    case 1
    then show ?thesis using assms(2) count_unclassified_held by simp
  next
    case (2 t')
    then show ?thesis using assms False by (cases t'; cases t) (auto simp: forward_close_def bind_eq_Some_conv)
  qed
  with False show ?thesis by simp
qed

lemma route_target_held: "held_by t (fst (route_target data key d)) k = held_by t d k"
  by (cases t) simp_all

lemma route_target_cached: "hm_get (sd_routes d) key = Some t \<Longrightarrow> route_target data key d = (d, t)"
  by (simp add: route_target_def)

lemma route_target_stores:
  "snd (route_target data key d) \<noteq> ToNone \<Longrightarrow>
   hm_get (sd_routes (fst (route_target data key d))) key = Some (snd (route_target data key d))"
  by (auto simp: route_target_def Let_def split: option.splits if_splits)

lemma confined_on_data:
  assumes "confined d" and "dispatcher_on_data ops d key dir data off ts = Some d'"
  shows "confined d'"
proof (cases "no_analyzers d")
  case True
  then show ?thesis using assms by (simp add: dispatcher_on_data_def)
next
  case False
  obtain d1 target where r: "route_target data key d = (d1, target)" by force
  have f: "forward_data ops target key dir data off ts d1 = Some d'" using assms(2) False r by (simp add: dispatcher_on_data_def)
  have rt: "sd_routes d' = sd_routes d1" using forward_data_tables [OF f] by (simp add: same_tables_def)
  have "hm_get (sd_routes d') k = Some t" if h: "held_by t d' k" for t k
  proof -
    consider "held_by t d k" | "t = target" "k = key" "t \<noteq> ToNone"
      using forward_data_holds [OF f h] route_target_held [of t data key d k] r h by (cases t) auto
    then show ?thesis
    proof cases
      case 1
      then have k: "hm_get (sd_routes d) k = Some t" using assms(1) by (simp add: confined_def)
      show ?thesis
      proof (cases "k = key")
        case True
        then show ?thesis using route_target_cached [of d key t data] k r rt by simp
      next
        case False
        then show ?thesis using route_target_tables(1) [of k key data d] k r rt by simp
      qed
    next
      case 2
      then show ?thesis using route_target_stores [of data key d] r rt by simp
    qed
  qed
  then show ?thesis by (simp add: confined_def)
qed

lemma confined_on_flow_close:
  assumes "confined d" and "dispatcher_on_flow_close ops d key reason = Some d'"
  shows "confined d'"
proof -
  let ?d = "d\<lparr>sd_classification_attempts := hm_remove key (sd_classification_attempts d), sd_routes := hm_remove key (sd_routes d)\<rparr>"
  have f: "forward_close ops (hm_get (sd_routes d) key) key reason ?d = Some d'"
    using assms(2) by (simp add: dispatcher_on_flow_close_def)
  have rt: "sd_routes d' = hm_remove key (sd_routes d)" using forward_close_tables [OF f] by (simp add: same_tables_def)
  have s: "held_by t ?d k = held_by t d k" for t k by (cases t) simp_all
  have "hm_get (sd_routes d') k = Some t" if "held_by t d' k" for t k
  proof -
    have h: "held_by t d k" "\<not> (hm_get (sd_routes d) key = Some t \<and> k = key)" using forward_close_holds [OF f that] s by simp_all
    have "hm_get (sd_routes d) k = Some t" using h(1) assms(1) by (simp add: confined_def)
    with h(2) show ?thesis by (auto simp: rt)
  qed
  then show ?thesis by (simp add: confined_def)
qed

lemma confined_replay:
  "replay (dispatcher_handler ops) es d = Some d' \<Longrightarrow> confined d \<Longrightarrow> confined d'"
proof (induction es arbitrary: d)
  case (Cons e es)
  then obtain d1 where h: "handle_event (dispatcher_handler ops) e d = Some d1" and r: "replay (dispatcher_handler ops) es d1 = Some d'"
    by (auto simp: bind_eq_Some_conv)
  have "confined d1"
  proof (cases e)
    case (DataEvent key dir data off ts)
    then show ?thesis using h by (intro confined_on_data [OF Cons.prems(2)]) (simp add: dispatcher_handler_def)
  next
    case (CloseEvent key reason)
    then show ?thesis using h by (intro confined_on_flow_close [OF Cons.prems(2)]) (simp add: dispatcher_handler_def)
  qed
  with Cons.IH [OF r] show ?case .
qed simp

text \<open>When every flow has been closed, nothing is left of any.\<close>

lemma closed_leaves_nothing:
  assumes "replay (dispatcher_handler ops) es d = Some d'" and "engine_ok r es" and "ra_flows r = []"
    and "\<And>k. \<not> tracked k d" and "confined d"
  shows "\<not> tracked k d'" and "\<not> held_by t d' k"
proof -
  have z: "delivered es = (\<lambda>_. 0)" and w: "wf_from (\<lambda>_. 0) es"
    using assms(2,3) by (simp_all add: engine_ok_def position_def wf_trace_def fun_eq_iff)
  show n: "\<not> tracked k d'" using tracked_replay [OF assms(1) w] assms(4) z by (auto simp: delivered_def)
  show "\<not> held_by t d' k" using confined_replay [OF assms(1,5)] n by (auto simp: confined_def tracked_def)
qed

end

end
