(* ===== verification/Iso_On_Tcp.thy ===== *)
theory Iso_On_Tcp
  imports Prelude
begin

text \<open>
  The framing layer of \<open>src/analyzer/iso_on_tcp.rs\<close>: the TPKT header of RFC 1006 and the COTP
  header of ISO 8073, as pure parsers, and their properties: what is accepted, and the split
  of a byte stream into TPKT frames that the S7comm analyzer is measured against.
\<close>

unbundle bit_operations_syntax

section \<open>TPKT\<close>

record tpkt_header =
  th_version :: u8
  th_length :: u16

definition parse_tpkt_header :: "bytes \<Rightarrow> tpkt_header option" where
  "parse_tpkt_header data =
     (if length data < 4 then None
      else if data ! 0 \<noteq> 0x03 then None
      else let len = be16 (data ! 2) (data ! 3) in
        if len < 7 then None
        else Some \<lparr>th_version = 0x03, th_length = len\<rparr>)"

section \<open>COTP\<close>

datatype cotp_tpdu_type = ConnectRequest | ConnectConfirm | DataTransfer

record cotp_header =
  co_tpdu_type :: cotp_tpdu_type
  co_protocol_id :: "u8 option"
  co_payload_offset :: usize

definition parse_cotp_header :: "bytes \<Rightarrow> cotp_header option" where
  "parse_cotp_header tpkt_payload =
     (if length tpkt_payload < 2 then None
      else let li = unat (tpkt_payload ! 0) in
        if length tpkt_payload < 1 + li then None
        else let payload_offset = 1 + li; code = tpkt_payload ! 1 AND 0xF0 in
          if code = 0xE0 then
            Some \<lparr>co_tpdu_type = ConnectRequest, co_protocol_id = None, co_payload_offset = payload_offset\<rparr>
          else if code = 0xD0 then
            Some \<lparr>co_tpdu_type = ConnectConfirm, co_protocol_id = None, co_payload_offset = payload_offset\<rparr>
          else if code = 0xF0 then
            Some \<lparr>co_tpdu_type = DataTransfer,
                  co_protocol_id = (if length tpkt_payload > payload_offset then Some (tpkt_payload ! payload_offset) else None),
                  co_payload_offset = payload_offset\<rparr>
          else None)"

section \<open>What the parsers accept\<close>

lemma parse_tpkt_Some:
  "parse_tpkt_header data = Some h \<longleftrightarrow>
     4 \<le> length data \<and> data ! 0 = 0x03 \<and> h = \<lparr>th_version = 0x03, th_length = be16 (data ! 2) (data ! 3)\<rparr> \<and>
     7 \<le> unat (be16 (data ! 2) (data ! 3))"
proof -
  have "(w :: u16) < 7 \<longleftrightarrow> unat w < 7" for w by (simp add: word_less_nat_alt)
  then show ?thesis by (auto simp: parse_tpkt_header_def Let_def)
qed

lemma parse_tpkt_length: "parse_tpkt_header data = Some h \<Longrightarrow> 7 \<le> unat (th_length h)"
  by (simp add: parse_tpkt_Some)

lemma unat_tpkt_length: "unat (th_length h) \<le> 65535"
proof -
  have "unat (th_length h) < 65536" using unsigned_less [of "th_length h"] by simp
  then show ?thesis by simp
qed

lemma parse_tpkt_append: "4 \<le> length xs \<Longrightarrow> parse_tpkt_header (xs @ ys) = parse_tpkt_header xs"
  by (auto simp: parse_tpkt_header_def nth_append)

lemma parse_tpkt_take: "4 \<le> n \<Longrightarrow> parse_tpkt_header (take n xs) = parse_tpkt_header xs"
  by (auto simp: parse_tpkt_header_def)

lemma parse_cotp_offset:
  assumes "parse_cotp_header p = Some h"
  shows "co_payload_offset h \<le> length p"
  using assms by (auto simp: parse_cotp_header_def Let_def split: if_splits)

lemma parse_cotp_protocol_id:
  assumes "parse_cotp_header p = Some h" and "co_protocol_id h = Some b"
  shows "co_payload_offset h < length p" and "p ! co_payload_offset h = b" and "co_tpdu_type h = DataTransfer"
  using assms by (auto simp: parse_cotp_header_def Let_def split: if_splits)

section \<open>Frames of a stream\<close>

text \<open>The reference: the frames of a byte string and the bytes left over. A position where no
  header parses is skipped by one byte.\<close>

function tpkt_split :: "bytes \<Rightarrow> bytes list \<times> bytes" where
  "tpkt_split bs =
     (if length bs < 4 then ([], bs)
      else case parse_tpkt_header bs of
        None \<Rightarrow> tpkt_split (tl bs)
      | Some h \<Rightarrow>
          if length bs < unat (th_length h) then ([], bs)
          else apfst ((#) (take (unat (th_length h)) bs)) (tpkt_split (drop (unat (th_length h)) bs)))"
  by pat_completeness auto
termination
  by (relation "measure length") (auto simp: not_less dest: parse_tpkt_length)

declare tpkt_split.simps [simp del]

lemma tpkt_split_simps:
  "length bs < 4 \<Longrightarrow> tpkt_split bs = ([], bs)"
  "4 \<le> length bs \<Longrightarrow> parse_tpkt_header bs = None \<Longrightarrow> tpkt_split bs = tpkt_split (tl bs)"
  "4 \<le> length bs \<Longrightarrow> parse_tpkt_header bs = Some h \<Longrightarrow> length bs < unat (th_length h) \<Longrightarrow> tpkt_split bs = ([], bs)"
  "4 \<le> length bs \<Longrightarrow> parse_tpkt_header bs = Some h \<Longrightarrow> unat (th_length h) \<le> length bs \<Longrightarrow>
     tpkt_split bs = apfst ((#) (take (unat (th_length h)) bs)) (tpkt_split (drop (unat (th_length h)) bs))"
  by (simp_all add: tpkt_split.simps [of bs])

lemma tpkt_split_cases:
  obtains (short) "length bs < 4"
  | (skip) "4 \<le> length bs" "parse_tpkt_header bs = None"
  | (partial) h where "4 \<le> length bs" "parse_tpkt_header bs = Some h" "length bs < unat (th_length h)"
  | (frame) h where "4 \<le> length bs" "parse_tpkt_header bs = Some h" "unat (th_length h) \<le> length bs"
  by (cases "parse_tpkt_header bs") (auto simp: not_less [symmetric])

lemma tpkt_split_rest: "length (snd (tpkt_split bs)) \<le> 65534"
proof (induction bs rule: tpkt_split.induct)
  case (1 bs)
  show ?case
  proof (cases bs rule: tpkt_split_cases)
    case (partial h)
    then show ?thesis using unat_tpkt_length [of h] by (simp add: tpkt_split_simps)
  next
    case (frame h)
    then show ?thesis using 1(2) [of h] by (simp add: tpkt_split_simps not_less)
  qed (use 1 in \<open>simp_all add: tpkt_split_simps not_less\<close>)
qed

lemma tpkt_split_append:
  "tpkt_split (xs @ ys) = apfst ((@) (fst (tpkt_split xs))) (tpkt_split (snd (tpkt_split xs) @ ys))"
proof (induction xs rule: tpkt_split.induct)
  case (1 xs)
  show ?case
  proof (cases xs rule: tpkt_split_cases)
    case skip
    then have "tl (xs @ ys) = tl xs @ ys" by (cases xs) auto
    then show ?thesis using skip 1 by (simp add: tpkt_split_simps parse_tpkt_append not_less)
  next
    case (frame h)
    then show ?thesis using 1(2) [of h]
      by (simp add: tpkt_split_simps parse_tpkt_append not_less apfst_def map_prod_def split_beta)
  qed (simp_all add: tpkt_split_simps apfst_def map_prod_def)
qed

lemma tpkt_split_rest_fixed: "tpkt_split (snd (tpkt_split xs)) = ([], snd (tpkt_split xs))"
proof (induction xs rule: tpkt_split.induct)
  case (1 xs)
  show ?case by (cases xs rule: tpkt_split_cases) (use 1 in \<open>simp_all add: tpkt_split_simps\<close>)
qed

lemma tpkt_split_suffix:
  "length (snd (tpkt_split bs)) \<le> length bs \<and> drop (length bs - length (snd (tpkt_split bs))) bs = snd (tpkt_split bs)"
proof -
  have "\<exists>pre. bs = pre @ snd (tpkt_split bs)"
  proof (induction bs rule: tpkt_split.induct)
    case (1 bs)
    show ?case
    proof (cases bs rule: tpkt_split_cases)
      case skip
      then obtain b pre where "bs = b # tl bs" "tl bs = pre @ snd (tpkt_split (tl bs))" using 1(1) by (cases bs) auto
      then have "bs = (b # pre) @ snd (tpkt_split (tl bs))" by simp
      then show ?thesis using skip by (metis tpkt_split_simps(2))
    next
      case (frame h)
      then obtain pre where "drop (unat (th_length h)) bs = pre @ snd (tpkt_split (drop (unat (th_length h)) bs))"
        using 1(2) [of h] by auto
      then have "bs = (take (unat (th_length h)) bs @ pre) @ snd (tpkt_split (drop (unat (th_length h)) bs))"
        by (metis append_assoc append_take_drop_id)
      then show ?thesis using frame by (metis tpkt_split_simps(4) snd_apfst)
    qed (simp_all add: tpkt_split_simps)
  qed
  then obtain pre where "bs = pre @ snd (tpkt_split bs)" ..
  then have "length bs = length pre + length (snd (tpkt_split bs))" by (metis length_append)
  with \<open>bs = pre @ snd (tpkt_split bs)\<close> show ?thesis by (metis add_diff_cancel_right' append_eq_conv_conj le_add2)
qed

text \<open>A frame around a payload.\<close>

definition tpkt_frame :: "bytes \<Rightarrow> bytes" where
  "tpkt_frame payload = 0x03 # 0x00 # hi8 (of_nat (length payload + 4)) # lo8 (of_nat (length payload + 4)) # payload"

lemma tpkt_frame_parse:
  assumes "3 \<le> length p" and "length p \<le> 65531"
  shows "parse_tpkt_header (tpkt_frame p @ rest) = Some \<lparr>th_version = 3, th_length = of_nat (length p + 4)\<rparr>"
    and "unat (of_nat (length p + 4) :: u16) = length p + 4"
proof -
  show l: "unat (of_nat (length p + 4) :: u16) = length p + 4"
    using assms by (subst unat_of_nat) (simp add: take_bit_nat_eq_self)
  have "be16 (hi8 (of_nat (length p + 4))) (lo8 (of_nat (length p + 4))) = of_nat (length p + 4)" by (rule be16_split)
  then show "parse_tpkt_header (tpkt_frame p @ rest) = Some \<lparr>th_version = 3, th_length = of_nat (length p + 4)\<rparr>"
    using l assms(1) by (simp add: parse_tpkt_Some tpkt_frame_def)
qed

lemma tpkt_split_frame:
  assumes "3 \<le> length p" and "length p \<le> 65531"
  shows "tpkt_split (tpkt_frame p @ rest) = apfst ((#) (tpkt_frame p)) (tpkt_split rest)"
proof -
  have "length (tpkt_frame p) = length p + 4" by (simp add: tpkt_frame_def)
  then show ?thesis using tpkt_frame_parse [OF assms]
    by (subst tpkt_split_simps(4)) auto
qed

lemma tpkt_split_frames:
  "(\<forall>p \<in> set ps. 3 \<le> length p \<and> length p \<le> 65531) \<Longrightarrow>
     tpkt_split (concat (map tpkt_frame ps) @ rest) = apfst ((@) (map tpkt_frame ps)) (tpkt_split rest)"
  by (induction ps) (simp_all add: tpkt_split_frame apfst_def map_prod_def split_beta)

end
