(* ===== verification/S7comm.thy ===== *)
theory S7comm
  imports Findings Containers Iso_On_Tcp
begin

text \<open>
  The S7comm analyzer, \<open>src/analyzer/s7comm.rs\<close>: the parser of the classic header, the state of
  a flow, the walk over TPKT frames with its carry buffers and one-byte resynchronisation, the
  dispatch on the COTP header. The analyzer has no cap on its findings and is not registered
  with the dispatcher. Every subtraction, slice and index is checked; a panic is \<open>None\<close>.
  A dash of the source's texts is written \<open>--\<close>.
\<close>

section \<open>Data\<close>

definition max_s7_iso_on_tcp_carry_bytes :: usize where
  "max_s7_iso_on_tcp_carry_bytes = 65535"

datatype s7_protocol = Classic | Plus | Unclassified

record s7comm_flow_state =
  sf_carry_c2s :: bytes
  sf_carry_s2c :: bytes
  sf_carry_overflow_reported_c2s :: bool
  sf_carry_overflow_reported_s2c :: bool
  sf_session_established :: bool
  sf_cr_observed_dir :: "direction option"
  sf_classified_protocol :: "s7_protocol option"
  sf_malformed_header_reported_c2s :: bool
  sf_malformed_header_reported_s2c :: bool

definition s7comm_flow_state_default :: s7comm_flow_state where
  "s7comm_flow_state_default =
     \<lparr>sf_carry_c2s = [], sf_carry_s2c = [], sf_carry_overflow_reported_c2s = False,
      sf_carry_overflow_reported_s2c = False, sf_session_established = False, sf_cr_observed_dir = None,
      sf_classified_protocol = None, sf_malformed_header_reported_c2s = False, sf_malformed_header_reported_s2c = False\<rparr>"

datatype rosctr = Job | Ack | AckData | Userdata

record s7comm_header =
  s7_rosctr :: rosctr
  s7_pdu_reference :: u16
  s7_param_length :: u16
  s7_data_length :: u16
  s7_error_class :: "u8 option"
  s7_error_code :: "u8 option"
  s7_header_len :: usize

section \<open>The classic header\<close>

definition parse_s7comm_header :: "bytes \<Rightarrow> s7comm_header option" where
  "parse_s7comm_header data =
     (if length data < 10 then None
      else if data ! 0 \<noteq> 0x32 then None
      else let pdu_reference = be16 (data ! 4) (data ! 5);
               param_length = be16 (data ! 6) (data ! 7);
               data_length = be16 (data ! 8) (data ! 9);
               short = (\<lambda>r. \<lparr>s7_rosctr = r, s7_pdu_reference = pdu_reference, s7_param_length = param_length,
                             s7_data_length = data_length, s7_error_class = None, s7_error_code = None, s7_header_len = 10\<rparr>)
        in if data ! 1 = 0x01 then Some (short Job)
           else if data ! 1 = 0x07 then Some (short Userdata)
           else if data ! 1 = 0x02 \<or> data ! 1 = 0x03 then
             (if length data < 12 then None
              else Some \<lparr>s7_rosctr = (if data ! 1 = 0x02 then Ack else AckData), s7_pdu_reference = pdu_reference,
                         s7_param_length = param_length, s7_data_length = data_length,
                         s7_error_class = Some (data ! 10), s7_error_code = Some (data ! 11), s7_header_len = 12\<rparr>)
           else None)"

definition s7comm_bounds_ok :: "s7comm_header \<Rightarrow> usize \<Rightarrow> bool" where
  "s7comm_bounds_ok header data_len =
     (case add64 (s7_header_len header) (unat (s7_param_length header)) \<bind> (\<lambda>s. add64 s (unat (s7_data_length header))) of
        Some t \<Rightarrow> data_len \<ge> t | None \<Rightarrow> False)"

section \<open>The selectors of a direction\<close>

fun s7_carry :: "direction \<Rightarrow> s7comm_flow_state \<Rightarrow> bytes" where
  "s7_carry ClientToServer f = sf_carry_c2s f"
| "s7_carry ServerToClient f = sf_carry_s2c f"

fun set_s7_carry :: "direction \<Rightarrow> bytes \<Rightarrow> s7comm_flow_state \<Rightarrow> s7comm_flow_state" where
  "set_s7_carry ClientToServer bs f = f\<lparr>sf_carry_c2s := bs\<rparr>"
| "set_s7_carry ServerToClient bs f = f\<lparr>sf_carry_s2c := bs\<rparr>"

fun s7_overflow_reported :: "direction \<Rightarrow> s7comm_flow_state \<Rightarrow> bool" where
  "s7_overflow_reported ClientToServer f = sf_carry_overflow_reported_c2s f"
| "s7_overflow_reported ServerToClient f = sf_carry_overflow_reported_s2c f"

fun report_s7_overflow :: "direction \<Rightarrow> s7comm_flow_state \<Rightarrow> s7comm_flow_state" where
  "report_s7_overflow ClientToServer f = f\<lparr>sf_carry_overflow_reported_c2s := True\<rparr>"
| "report_s7_overflow ServerToClient f = f\<lparr>sf_carry_overflow_reported_s2c := True\<rparr>"

fun s7_malformed_reported :: "direction \<Rightarrow> s7comm_flow_state \<Rightarrow> bool" where
  "s7_malformed_reported ClientToServer f = sf_malformed_header_reported_c2s f"
| "s7_malformed_reported ServerToClient f = sf_malformed_header_reported_s2c f"

fun set_s7_malformed :: "direction \<Rightarrow> s7comm_flow_state \<Rightarrow> s7comm_flow_state" where
  "set_s7_malformed ClientToServer f = f\<lparr>sf_malformed_header_reported_c2s := True\<rparr>"
| "set_s7_malformed ServerToClient f = f\<lparr>sf_malformed_header_reported_s2c := True\<rparr>"

section \<open>Dispatch of a frame\<close>

text \<open>The state of the flow and the findings of the delivery.\<close>

type_synonym s7_state = "s7comm_flow_state \<times> finding list"

definition s7_anomaly :: "direction \<Rightarrow> u32 \<Rightarrow> flow_key fmt \<Rightarrow> flow_key fmt \<Rightarrow> finding" where
  "s7_anomaly dir ts summ ev =
     \<lparr>category = Anomaly, verdict = Possible, confidence = Medium, summary = summ, evidence = [ev],
      mitre_techniques = [''T0814''], source_ip = None, timestamp = Some ts, direction = Some dir\<rparr>"

definition malformed_header_finding :: "direction \<Rightarrow> u32 \<Rightarrow> flow_key fmt \<Rightarrow> finding" where
  "malformed_header_finding dir ts reason =
     s7_anomaly dir ts ([Lit ''Malformed classic S7comm header: ''] @ reason @ [Lit '' (T0814; BC-2.21.004/007/008/009)'']) reason"

definition report_malformed_header :: "direction \<Rightarrow> u32 \<Rightarrow> flow_key fmt \<Rightarrow> s7_state \<Rightarrow> s7_state" where
  "report_malformed_header dir ts reason st =
     (let (f, l) = st in
      if s7_malformed_reported dir f then (f, l)
      else (set_s7_malformed dir f, l @ [malformed_header_finding dir ts reason]))"

definition classify_malformed_header_reason :: "bytes \<Rightarrow> flow_key fmt rust" where
  "classify_malformed_header_reason dt_payload =
     (if length dt_payload < 10
      then Some [Lit ''header too short: '', Dec (length dt_payload), Lit '' byte(s) available, 10 required (BC-2.21.004)'']
      else do {
        b0 \<leftarrow> index dt_payload 0;
        if b0 \<noteq> 0x32
        then Some [Lit ''unexpected protocol-ID byte 0x'', Hex2l b0, Lit '' (expected 0x32, BC-2.21.005)'']
        else do {
          b1 \<leftarrow> index dt_payload 1;
          Some (if b1 = 0x02
            then [Lit ''truncated Ack header: '', Dec (length dt_payload), Lit '' byte(s) available, 12 required (BC-2.21.008)'']
            else if b1 = 0x03
            then [Lit ''truncated Ack_Data header: '', Dec (length dt_payload),
                  Lit '' byte(s) available, 12 required (BC-2.21.008, DF-CANONICAL-FRAME-HOLDOUT-001)'']
            else [Lit ''unrecognized ROSCTR byte 0x'', Hex2l b1, Lit '' (BC-2.21.007)''])
        }
      })"

definition bounds_reason :: "s7comm_header \<Rightarrow> usize \<Rightarrow> u64 \<Rightarrow> flow_key fmt" where
  "bounds_reason header available declared =
     [Lit ''declared param_length/data_length exceed available bytes: declared '', Dec declared,
      Lit '' (header_len='', Dec (s7_header_len header), Lit '' + param_length='', Dec (unat (s7_param_length header)),
      Lit '' + data_length='', Dec (unat (s7_data_length header)), Lit ''), available '', Dec available, Lit '' (BC-2.21.009)'']"

text \<open>\<open>debug_assert_eq!\<close> is not compiled into the release build.\<close>

definition dispatch_classic_s7comm :: "direction \<Rightarrow> u32 \<Rightarrow> bytes \<Rightarrow> s7_state \<Rightarrow> s7_state rust" where
  "dispatch_classic_s7comm dir ts dt_payload st =
     (case parse_s7comm_header dt_payload of
        None \<Rightarrow> do {
          reason \<leftarrow> classify_malformed_header_reason dt_payload;
          Some (report_malformed_header dir ts reason st)
        }
      | Some header \<Rightarrow>
          if s7comm_bounds_ok header (length dt_payload) then Some st
          else do {
            s \<leftarrow> add64 (s7_header_len header) (unat (s7_param_length header));
            declared \<leftarrow> add64 s (unat (s7_data_length header));
            Some (report_malformed_header dir ts (bounds_reason header (length dt_payload) declared) st)
          })"

definition protocol_of_byte :: "u8 \<Rightarrow> s7_protocol" where
  "protocol_of_byte b = (if b = 0x32 then Classic else if b = 0x72 then Plus else Unclassified)"

definition classify_first_dt_frame :: "u8 option \<Rightarrow> s7comm_flow_state \<Rightarrow> s7comm_flow_state" where
  "classify_first_dt_frame protocol_id f =
     (case protocol_id of
        None \<Rightarrow> f
      | Some byte \<Rightarrow>
          if sf_classified_protocol f \<noteq> None then f
          else f\<lparr>sf_classified_protocol := Some (protocol_of_byte byte)\<rparr>)"

definition dispatch_cotp_frame :: "direction \<Rightarrow> u32 \<Rightarrow> cotp_header option \<Rightarrow> bytes \<Rightarrow> s7_state \<Rightarrow> s7_state rust" where
  "dispatch_cotp_frame dir ts cotp tpkt_payload st =
     (let (f, l) = st in
      case cotp of
        None \<Rightarrow> Some (f, l)
      | Some header \<Rightarrow>
          (case co_tpdu_type header of
             ConnectRequest \<Rightarrow> Some (f\<lparr>sf_cr_observed_dir := Some dir\<rparr>, l)
           | ConnectConfirm \<Rightarrow>
               Some (if \<exists>cr_dir \<in> set_option (sf_cr_observed_dir f). cr_dir \<noteq> dir
                     then f\<lparr>sf_session_established := True\<rparr> else f, l)
           | DataTransfer \<Rightarrow>
               let f1 = classify_first_dt_frame (co_protocol_id header) f in
               if co_protocol_id header = Some 0x32 \<and> sf_classified_protocol f1 = Some Classic
               then do {
                 dt_payload \<leftarrow> byte_slice tpkt_payload (co_payload_offset header) (length tpkt_payload);
                 dispatch_classic_s7comm dir ts dt_payload (f1, l)
               }
               else Some (f1, l)))"

section \<open>The walk\<close>

text \<open>The subtraction \<open>working.len() - cursor\<close> panics when the cursor is past the end.\<close>

function resync_one_byte :: "bytes \<Rightarrow> usize \<Rightarrow> usize rust" where
  "resync_one_byte working cursor =
     (if length working < cursor then None
      else if length working - cursor \<ge> 4 \<and> parse_tpkt_header (drop cursor working) = None
      then resync_one_byte working (cursor + 1)
      else Some cursor)"
  by pat_completeness auto
termination
  by (relation "measure (\<lambda>(working, cursor). length working - cursor)") auto

declare resync_one_byte.simps [simp del]

text \<open>One complete frame of the loop's body.\<close>

definition on_tpkt_frame :: "direction \<Rightarrow> u32 \<Rightarrow> bytes \<Rightarrow> usize \<Rightarrow> usize \<Rightarrow> s7_state \<Rightarrow> s7_state rust" where
  "on_tpkt_frame dir ts working cursor len st = do {
     frame \<leftarrow> byte_slice working cursor (cursor + len);
     tpkt_payload \<leftarrow> byte_slice frame 4 (length frame);
     dispatch_cotp_frame dir ts (parse_cotp_header tpkt_payload) tpkt_payload st
   }"

lemma resync_progress: "resync_one_byte working cursor = Some c \<Longrightarrow> cursor \<le> c"
  by (induction working cursor rule: resync_one_byte.induct) (subst (asm) (2) resync_one_byte.simps, auto split: if_splits)

lemma resync_strict:
  assumes "resync_one_byte working cursor = Some c" and "4 \<le> length working - cursor"
    and "parse_tpkt_header (drop cursor working) = None"
  shows "cursor < c"
proof -
  have "resync_one_byte working (cursor + 1) = Some c"
    using assms by (subst (asm) resync_one_byte.simps) (auto split: if_splits)
  from resync_progress [OF this] show ?thesis by simp
qed

text \<open>The loop returns the state and the cursor at which it breaks.\<close>

function s7_walk :: "direction \<Rightarrow> u32 \<Rightarrow> bytes \<Rightarrow> usize \<Rightarrow> s7_state \<Rightarrow> (s7_state \<times> usize) rust" where
  "s7_walk dir ts working cursor st =
     (if length working < cursor then None
      else if length working - cursor < 4 then Some (st, cursor)
      else case parse_tpkt_header (drop cursor working) of
        Some header \<Rightarrow>
          let len = unat (th_length header) in
          if length working - cursor \<ge> len
          then (case on_tpkt_frame dir ts working cursor len st of
                  None \<Rightarrow> None
                | Some st1 \<Rightarrow> s7_walk dir ts working (cursor + len) st1)
          else Some (st, cursor)
      | None \<Rightarrow>
          (case resync_one_byte working cursor of
             None \<Rightarrow> None
           | Some cursor1 \<Rightarrow> s7_walk dir ts working cursor1 st))"
  by pat_completeness auto
termination
proof (relation "measure (\<lambda>(dir, ts, working, cursor, st). length working - cursor)")
  fix working :: bytes and cursor c :: usize
  assume "\<not> length working < cursor" "\<not> length working - cursor < 4"
    "parse_tpkt_header (drop cursor working) = None" "resync_one_byte working cursor = Some c"
  then show "((dir, ts, working, c, st), dir, ts, working, cursor, st)
      \<in> measure (\<lambda>(dir, ts, working, cursor, st). length working - cursor)" for dir :: direction and ts :: u32 and st :: s7_state
    using resync_strict [of working cursor c] by auto
qed (auto simp: parse_tpkt_Some)

declare s7_walk.simps [simp del]

section \<open>Entry points\<close>

record s7comm_analyzer =
  sa_flows :: "(flow_key, s7comm_flow_state) hash_map"
  sa_findings :: "finding list"

definition s7comm_analyzer_new :: s7comm_analyzer where
  "s7comm_analyzer_new = \<lparr>sa_flows = [], sa_findings = []\<rparr>"

definition carry_overflow_finding :: "direction \<Rightarrow> u32 \<Rightarrow> finding" where
  "carry_overflow_finding dir ts =
     s7_anomaly dir ts
       [Lit ''S7comm/ISO-on-TCP directional carry residual overflow: carry buffer exceeded MAX_S7_ISO_ON_TCP_CARRY_BYTES='',
        Dec max_s7_iso_on_tcp_carry_bytes,
        Lit '' -- adversarial or non-conformant byte sequence; carry cleared and the walk resyncs on this delivery (T0814; BC-2.20.014)'']
       [Lit ''carry overflow (>'', Dec max_s7_iso_on_tcp_carry_bytes, Lit ''); carry cleared'']"

definition clear_s7_overflow :: "direction \<Rightarrow> u32 \<Rightarrow> s7comm_flow_state \<Rightarrow> s7_state" where
  "clear_s7_overflow dir ts f =
     (if length (s7_carry dir f) > max_s7_iso_on_tcp_carry_bytes
      then let f1 = set_s7_carry dir [] f in
        if s7_overflow_reported dir f1 then (f1, [])
        else (report_s7_overflow dir f1, [carry_overflow_finding dir ts])
      else (f, []))"

definition s7comm_on_data :: "s7comm_analyzer \<Rightarrow> flow_key \<Rightarrow> bytes \<Rightarrow> u32 \<Rightarrow> direction \<Rightarrow> s7comm_analyzer rust" where
  "s7comm_on_data a key data ts dir = do {
     let state = (case hm_get (sa_flows a) key of Some f \<Rightarrow> f | None \<Rightarrow> s7comm_flow_state_default);
     let (f0, l0) = clear_s7_overflow dir ts state;
     let working = s7_carry dir f0 @ data;
     ((f1, l1), cursor) \<leftarrow> s7_walk dir ts working 0 (set_s7_carry dir [] f0, l0);
     remainder \<leftarrow> byte_slice working cursor (length working);
     Some (a\<lparr>sa_flows := hm_insert key (set_s7_carry dir remainder f1) (sa_flows a),
             sa_findings := sa_findings a @ l1\<rparr>)
   }"

definition s7comm_on_flow_close :: "s7comm_analyzer \<Rightarrow> flow_key \<Rightarrow> s7comm_analyzer" where
  "s7comm_on_flow_close a key = a\<lparr>sa_flows := hm_remove key (sa_flows a)\<rparr>"

end
