(* ===== verification/S7comm_Props.thy ===== *)
theory S7comm_Props
  imports S7comm
begin

text \<open>
  The S7comm analyzer against its specification: the walk dispatches the frames of
  \<open>tpkt_split\<close>, each by a total step function, so that any sequence of deliveries has the effect
  of the list of payloads it completes; nothing panics and the carry overflow is never seen.
\<close>

unbundle bit_operations_syntax

section \<open>A frame as a total step\<close>

text \<open>What is wrong with a classic payload, from its documentation: which lengths are required.\<close>

definition s7_declared :: "bytes \<Rightarrow> nat" where
  "s7_declared dt = (if dt ! 1 = 0x02 \<or> dt ! 1 = 0x03 then 12 else 10) + unat (be16 (dt ! 6) (dt ! 7)) + unat (be16 (dt ! 8) (dt ! 9))"

definition s7_faulty :: "bytes \<Rightarrow> bool" where
  "s7_faulty dt \<longleftrightarrow>
     length dt < 10 \<or> dt ! 1 \<notin> {0x01, 0x02, 0x03, 0x07} \<or> (dt ! 1 \<in> {0x02, 0x03} \<and> length dt < 12) \<or> length dt < s7_declared dt"

text \<open>The text the finding gives for it.\<close>

definition s7_reason :: "bytes \<Rightarrow> flow_key fmt" where
  "s7_reason dt =
     (case parse_s7comm_header dt of
        None \<Rightarrow> (case classify_malformed_header_reason dt of Some r \<Rightarrow> r | None \<Rightarrow> [])
      | Some h \<Rightarrow> bounds_reason h (length dt) (s7_declared dt))"

lemma unat_u16_le: "unat (w :: u16) \<le> 65535"
proof -
  have "unat w < 65536" using unsigned_less [of w] by simp
  then show ?thesis by simp
qed

lemma add64_small: "a + b \<le> 200000 \<Longrightarrow> add64 a b = Some (a + b)"
  by (simp add: u64_max_def)

lemma bounds_sum:
  assumes "s7_header_len h \<le> 12"
  shows "add64 (s7_header_len h) (unat (s7_param_length h)) = Some (s7_header_len h + unat (s7_param_length h))"
    and "add64 (s7_header_len h + unat (s7_param_length h)) (unat (s7_data_length h))
       = Some (s7_header_len h + unat (s7_param_length h) + unat (s7_data_length h))"
    and "s7comm_bounds_ok h n \<longleftrightarrow> s7_header_len h + unat (s7_param_length h) + unat (s7_data_length h) \<le> n"
proof -
  note b = unat_u16_le [of "s7_param_length h"] unat_u16_le [of "s7_data_length h"] assms
  show a: "add64 (s7_header_len h) (unat (s7_param_length h)) = Some (s7_header_len h + unat (s7_param_length h))"
    by (rule add64_small) (use b in linarith)
  show c: "add64 (s7_header_len h + unat (s7_param_length h)) (unat (s7_data_length h))
       = Some (s7_header_len h + unat (s7_param_length h) + unat (s7_data_length h))"
    by (rule add64_small) (use b in linarith)
  show "s7comm_bounds_ok h n \<longleftrightarrow> s7_header_len h + unat (s7_param_length h) + unat (s7_data_length h) \<le> n"
    using a c by (simp add: s7comm_bounds_ok_def del: add64_Some)
qed

lemma parse_s7_header_sum:
  assumes "parse_s7comm_header dt = Some h"
  shows "s7_header_len h \<le> 12"
    and "s7_header_len h + unat (s7_param_length h) + unat (s7_data_length h) = s7_declared dt"
  using assms by (auto simp: parse_s7comm_header_def s7_declared_def Let_def split: if_splits)

lemma classify_reason_ok: "\<exists>r. classify_malformed_header_reason dt = Some r"
  by (auto simp: classify_malformed_header_reason_def index_def)

lemma s7_faulty_iff:
  assumes "dt ! 0 = 0x32"
  shows "s7_faulty dt \<longleftrightarrow> (case parse_s7comm_header dt of None \<Rightarrow> True | Some h \<Rightarrow> \<not> s7comm_bounds_ok h (length dt))"
proof (cases "parse_s7comm_header dt")
  case None
  then show ?thesis using assms by (auto simp: parse_s7comm_header_def s7_faulty_def Let_def split: if_splits)
next
  case (Some h)
  then have "length dt \<ge> 10" "dt ! 1 \<in> {0x01, 0x02, 0x03, 0x07}" "dt ! 1 \<in> {0x02, 0x03} \<Longrightarrow> 12 \<le> length dt"
    by (auto simp: parse_s7comm_header_def Let_def split: if_splits)
  then have "s7_faulty dt \<longleftrightarrow> length dt < s7_declared dt" by (auto simp: s7_faulty_def)
  then show ?thesis using Some bounds_sum(3) [OF parse_s7_header_sum(1) [OF Some]] parse_s7_header_sum(2) [OF Some]
    by (simp add: not_le)
qed

lemma dispatch_classic_total:
  assumes "dt ! 0 = 0x32"
  shows "dispatch_classic_s7comm dir ts dt st =
     Some (if s7_faulty dt then report_malformed_header dir ts (s7_reason dt) st else st)"
proof (cases "parse_s7comm_header dt")
  case None
  obtain r where "classify_malformed_header_reason dt = Some r" using classify_reason_ok by blast
  then show ?thesis using None s7_faulty_iff [OF assms] by (simp add: dispatch_classic_s7comm_def s7_reason_def)
next
  case (Some h)
  note sum = parse_s7_header_sum [OF Some]
  show ?thesis
    using Some s7_faulty_iff [OF assms] bounds_sum(1,2) [OF sum(1)] sum(2)
    by (simp add: dispatch_classic_s7comm_def s7_reason_def)
qed

text \<open>The effect of the payload of a frame, and what it says about the protocol.\<close>

definition protocol_byte :: "bytes \<Rightarrow> u8 option" where
  "protocol_byte p = parse_cotp_header p \<bind> co_protocol_id"

definition classic_part :: "bytes \<Rightarrow> bytes" where
  "classic_part p = drop (1 + unat (p ! 0)) p"

definition s7_step :: "direction \<Rightarrow> u32 \<Rightarrow> bytes \<Rightarrow> s7_state \<Rightarrow> s7_state" where
  "s7_step dir ts p st =
     (let (f, l) = st; f1 = classify_first_dt_frame (protocol_byte p) f in
      case map_option co_tpdu_type (parse_cotp_header p) of
        None \<Rightarrow> (f, l)
      | Some ConnectRequest \<Rightarrow> (f\<lparr>sf_cr_observed_dir := Some dir\<rparr>, l)
      | Some ConnectConfirm \<Rightarrow>
          (if sf_cr_observed_dir f \<noteq> None \<and> sf_cr_observed_dir f \<noteq> Some dir then f\<lparr>sf_session_established := True\<rparr> else f, l)
      | Some DataTransfer \<Rightarrow>
          if protocol_byte p = Some 0x32 \<and> sf_classified_protocol f1 = Some Classic \<and> s7_faulty (classic_part p)
          then report_malformed_header dir ts (s7_reason (classic_part p)) (f1, l) else (f1, l))"

lemma parse_cotp_offset_eq: "parse_cotp_header p = Some h \<Longrightarrow> co_payload_offset h = 1 + unat (p ! 0)"
  by (auto simp: parse_cotp_header_def Let_def split: if_splits)

lemma dispatch_cotp_total: "dispatch_cotp_frame dir ts (parse_cotp_header p) p st = Some (s7_step dir ts p st)"
proof (cases "parse_cotp_header p")
  case None
  then show ?thesis by (simp add: dispatch_cotp_frame_def s7_step_def split_beta)
next
  case (Some h)
  have slice: "byte_slice p (co_payload_offset h) (length p) = Some (classic_part p)"
    using parse_cotp_offset [OF Some] parse_cotp_offset_eq [OF Some] by (simp add: byte_slice_ok classic_part_def)
  have first: "classic_part p ! 0 = 0x32" if "co_protocol_id h = Some 0x32"
    using parse_cotp_protocol_id [OF Some that] parse_cotp_offset_eq [OF Some] by (simp add: classic_part_def)
  show ?thesis
    using Some slice dispatch_classic_total [OF first]
    by (cases st; cases "sf_cr_observed_dir (fst st)")
       (auto simp: dispatch_cotp_frame_def s7_step_def protocol_byte_def Let_def split: cotp_tpdu_type.splits)
qed

section \<open>The walk is the fold over the frames\<close>

definition tpkt_payloads :: "bytes \<Rightarrow> bytes list" where
  "tpkt_payloads bs = map (drop 4) (fst (tpkt_split bs))"

lemma resync_split:
  assumes "cursor \<le> length working"
  shows "\<exists>c. resync_one_byte working cursor = Some c \<and> c \<le> length working \<and>
     tpkt_split (drop c working) = tpkt_split (drop cursor working)"
  using assms
proof (induction working cursor rule: resync_one_byte.induct)
  case (1 working cursor)
  show ?case
  proof (cases "4 \<le> length working - cursor \<and> parse_tpkt_header (drop cursor working) = None")
    case True
    then show ?thesis using 1 by (subst resync_one_byte.simps) (auto simp: tpkt_split_simps tl_drop drop_Suc)
  next
    case False
    then show ?thesis using 1(2) by (subst resync_one_byte.simps) auto
  qed
qed

lemma on_tpkt_frame_total:
  assumes "cursor + len \<le> length working" and "4 \<le> len"
  shows "on_tpkt_frame dir ts working cursor len st = Some (s7_step dir ts (drop 4 (take len (drop cursor working))) st)"
  using assms by (simp add: on_tpkt_frame_def byte_slice_ok dispatch_cotp_total)

lemma s7_walk_total:
  "cursor \<le> length working \<Longrightarrow>
     s7_walk dir ts working cursor st =
       Some (fold (s7_step dir ts) (tpkt_payloads (drop cursor working)) st, length working - length (snd (tpkt_split (drop cursor working))))"
proof (induction dir ts working cursor st rule: s7_walk.induct)
  case (1 dir ts working cursor st)
  show ?case
  proof (cases "drop cursor working" rule: tpkt_split_cases)
    case short
    then show ?thesis using "1.prems" by (subst s7_walk.simps) (simp add: tpkt_split_simps tpkt_payloads_def)
  next
    case skip
    obtain c where "resync_one_byte working cursor = Some c" "c \<le> length working"
        "tpkt_split (drop c working) = tpkt_split (drop cursor working)"
      using resync_split [OF "1.prems"] by blast
    then show ?thesis using skip "1.prems" "1.IH"(1) [of c] by (subst s7_walk.simps) (simp add: tpkt_payloads_def)
  next
    case (partial h)
    then show ?thesis using "1.prems" by (subst s7_walk.simps) (simp add: tpkt_split_simps tpkt_payloads_def Let_def)
  next
    case (frame h)
    then have fits: "cursor + unat (th_length h) \<le> length working" and "4 \<le> unat (th_length h)"
      using "1.prems" parse_tpkt_length [of _ h] by (auto dest: parse_tpkt_length)
    note step = on_tpkt_frame_total [OF this, of dir ts st]
    show ?thesis using frame fits step "1.prems" "1.IH"(2) [of h]
      by (subst s7_walk.simps) (simp add: tpkt_split_simps tpkt_payloads_def Let_def add.commute)
  qed
qed

section \<open>A delivery\<close>

definition s7_flow :: "s7comm_analyzer \<Rightarrow> flow_key \<Rightarrow> s7comm_flow_state" where
  "s7_flow a key = (case hm_get (sa_flows a) key of Some f \<Rightarrow> f | None \<Rightarrow> s7comm_flow_state_default)"

definition s7_flow_ok :: "s7comm_flow_state \<Rightarrow> bool" where
  "s7_flow_ok f \<longleftrightarrow> (\<forall>d. length (s7_carry d f) \<le> 65534 \<and> \<not> s7_overflow_reported d f)"

definition s7_ok :: "s7comm_analyzer \<Rightarrow> bool" where
  "s7_ok a \<longleftrightarrow> hm_ok (sa_flows a) \<and> (\<forall>e \<in> set (sa_flows a). s7_flow_ok (snd e))"

text \<open>The fields of a flow state but for its carries.\<close>

definition s7_same_carries :: "s7comm_flow_state \<Rightarrow> s7comm_flow_state \<Rightarrow> bool" where
  "s7_same_carries f f' \<longleftrightarrow> (\<forall>d. s7_carry d f' = s7_carry d f \<and> s7_overflow_reported d f' = s7_overflow_reported d f)"

lemma s7_carry_set [simp]:
  "s7_carry d (set_s7_carry e bs f) = (if d = e then bs else s7_carry d f)"
  "set_s7_carry d bs (set_s7_carry d cs f) = set_s7_carry d bs f"
  "s7_overflow_reported d (set_s7_carry e bs f) = s7_overflow_reported d f"
  "s7_malformed_reported d (set_s7_carry e bs f) = s7_malformed_reported d f"
  "sf_classified_protocol (set_s7_carry e bs f) = sf_classified_protocol f"
  "sf_cr_observed_dir (set_s7_carry e bs f) = sf_cr_observed_dir f"
  "sf_session_established (set_s7_carry e bs f) = sf_session_established f"
  by (cases d; cases e; simp)+

lemma s7_malformed_set [simp]:
  "s7_malformed_reported d (set_s7_malformed e f) \<longleftrightarrow> d = e \<or> s7_malformed_reported d f"
  "s7_carry d (set_s7_malformed e f) = s7_carry d f"
  "s7_overflow_reported d (set_s7_malformed e f) = s7_overflow_reported d f"
  "sf_classified_protocol (set_s7_malformed e f) = sf_classified_protocol f"
  "sf_cr_observed_dir (set_s7_malformed e f) = sf_cr_observed_dir f"
  "sf_session_established (set_s7_malformed e f) = sf_session_established f"
  by (cases d; cases e; simp)+

lemma s7_classify_fields [simp]:
  "s7_carry d (classify_first_dt_frame b f) = s7_carry d f"
  "s7_overflow_reported d (classify_first_dt_frame b f) = s7_overflow_reported d f"
  "s7_malformed_reported d (classify_first_dt_frame b f) = s7_malformed_reported d f"
  "sf_cr_observed_dir (classify_first_dt_frame b f) = sf_cr_observed_dir f"
  "sf_session_established (classify_first_dt_frame b f) = sf_session_established f"
  "sf_classified_protocol (classify_first_dt_frame b f) =
     (if sf_classified_protocol f = None then map_option protocol_of_byte b else sf_classified_protocol f)"
  by (cases d; auto simp: classify_first_dt_frame_def split: option.splits)+

lemma s7_session_fields [simp]:
  "s7_carry d (f\<lparr>sf_cr_observed_dir := c\<rparr>) = s7_carry d f"
  "s7_overflow_reported d (f\<lparr>sf_cr_observed_dir := c\<rparr>) = s7_overflow_reported d f"
  "s7_malformed_reported d (f\<lparr>sf_cr_observed_dir := c\<rparr>) = s7_malformed_reported d f"
  "s7_carry d (f\<lparr>sf_session_established := s\<rparr>) = s7_carry d f"
  "s7_overflow_reported d (f\<lparr>sf_session_established := s\<rparr>) = s7_overflow_reported d f"
  "s7_malformed_reported d (f\<lparr>sf_session_established := s\<rparr>) = s7_malformed_reported d f"
  by (cases d; simp)+

lemma set_carry_commutes:
  "set_s7_malformed e (set_s7_carry d bs f) = set_s7_carry d bs (set_s7_malformed e f)"
  "classify_first_dt_frame b (set_s7_carry d bs f) = set_s7_carry d bs (classify_first_dt_frame b f)"
  "set_s7_carry d bs f\<lparr>sf_cr_observed_dir := c\<rparr> = set_s7_carry d bs (f\<lparr>sf_cr_observed_dir := c\<rparr>)"
  "set_s7_carry d bs f\<lparr>sf_session_established := s\<rparr> = set_s7_carry d bs (f\<lparr>sf_session_established := s\<rparr>)"
  by (cases d; cases e; simp add: classify_first_dt_frame_def split: option.splits)+

text \<open>The four outcomes of a step.\<close>

definition tpdu :: "bytes \<Rightarrow> cotp_tpdu_type option" where
  "tpdu p = map_option co_tpdu_type (parse_cotp_header p)"

definition faulty_classic :: "bytes \<Rightarrow> bool" where
  "faulty_classic p \<longleftrightarrow> protocol_byte p = Some 0x32 \<and> s7_faulty (classic_part p)"

lemma s7_step_eq:
  "s7_step dir ts p (f, l) =
     (if tpdu p = Some ConnectRequest then (f\<lparr>sf_cr_observed_dir := Some dir\<rparr>, l)
      else if tpdu p = Some ConnectConfirm
      then (if sf_cr_observed_dir f \<noteq> None \<and> sf_cr_observed_dir f \<noteq> Some dir then f\<lparr>sf_session_established := True\<rparr> else f, l)
      else let f1 = classify_first_dt_frame (protocol_byte p) f in
        if faulty_classic p \<and> sf_classified_protocol f1 = Some Classic
        then report_malformed_header dir ts (s7_reason (classic_part p)) (f1, l) else (f1, l))"
  by (auto simp: s7_step_def tpdu_def faulty_classic_def protocol_byte_def classify_first_dt_frame_def Let_def
      split: option.splits cotp_tpdu_type.splits)

lemma s7_step_carry: "s7_step dir ts p (set_s7_carry d bs f, l) = apfst (set_s7_carry d bs) (s7_step dir ts p (f, l))"
  by (auto simp: s7_step_eq report_malformed_header_def set_carry_commutes Let_def)

lemma s7_fold_carry:
  "fold (s7_step dir ts) ps (set_s7_carry d bs f, l) = apfst (set_s7_carry d bs) (fold (s7_step dir ts) ps (f, l))"
proof (induction ps arbitrary: f l)
  case (Cons p ps)
  obtain f1 l1 where "s7_step dir ts p (f, l) = (f1, l1)" by fastforce
  then show ?case using Cons by (simp add: s7_step_carry)
qed simp

lemma s7_step_append: "s7_step dir ts p (f, l @ l') = apsnd ((@) l) (s7_step dir ts p (f, l'))"
  by (auto simp: s7_step_eq report_malformed_header_def Let_def)

lemma s7_fold_findings: "fold (s7_step dir ts) ps (f, l) = apsnd ((@) l) (fold (s7_step dir ts) ps (f, []))"
proof (induction ps arbitrary: f l)
  case (Cons p ps)
  obtain f1 l1 where "s7_step dir ts p (f, []) = (f1, l1)" by fastforce
  then show ?case using s7_step_append [of dir ts p f l "[]"] Cons [of f1 "l @ l1"] Cons [of f1 l1]
    by (cases "fold (s7_step dir ts) ps (f1, [])") simp
qed simp

lemma s7_step_keeps:
  "s7_carry d (fst (s7_step dir ts p st)) = s7_carry d (fst st)"
  "s7_overflow_reported d (fst (s7_step dir ts p st)) = s7_overflow_reported d (fst st)"
  by (cases st; simp add: s7_step_eq report_malformed_header_def Let_def)+

lemma s7_fold_keeps:
  "s7_carry d (fst (fold (s7_step dir ts) ps st)) = s7_carry d (fst st)"
  "s7_overflow_reported d (fst (fold (s7_step dir ts) ps st)) = s7_overflow_reported d (fst st)"
  by (induction ps arbitrary: st) (simp_all add: s7_step_keeps)

lemma s7_default_ok: "s7_flow_ok s7comm_flow_state_default"
proof -
  have "s7_carry d s7comm_flow_state_default = [] \<and> \<not> s7_overflow_reported d s7comm_flow_state_default" for d
    by (cases d) (simp_all add: s7comm_flow_state_default_def)
  then show ?thesis by (simp add: s7_flow_ok_def)
qed

lemma s7_flow_ok_of: "s7_ok a \<Longrightarrow> s7_flow_ok (s7_flow a key)"
  using s7_default_ok
  by (auto simp: s7_ok_def s7_flow_def hm_get_def dest!: map_of_SomeD split: option.splits)

lemma s7_on_data_total:
  assumes "s7_ok a" and "bs = s7_carry dir (s7_flow a key) @ data"
    and "(f1, l1) = fold (s7_step dir ts) (tpkt_payloads bs) (s7_flow a key, [])"
  shows "s7comm_on_data a key data ts dir =
     Some (a\<lparr>sa_flows := hm_insert key (set_s7_carry dir (snd (tpkt_split bs)) f1) (sa_flows a), sa_findings := sa_findings a @ l1\<rparr>)"
proof -
  let ?f = "s7_flow a key"
  have "length (s7_carry dir ?f) \<le> 65534" using s7_flow_ok_of [OF assms(1)] by (simp add: s7_flow_ok_def)
  then have clear: "clear_s7_overflow dir ts ?f = (?f, [])"
    by (simp add: clear_s7_overflow_def max_s7_iso_on_tcp_carry_bytes_def)
  have walk: "s7_walk dir ts bs 0 (set_s7_carry dir [] ?f, []) = Some ((set_s7_carry dir [] f1, l1), length bs - length (snd (tpkt_split bs)))"
    using s7_walk_total [of 0 bs dir ts] by (simp add: s7_fold_carry assms(3) [symmetric])
  have "length (snd (tpkt_split bs)) \<le> length bs \<and> drop (length bs - length (snd (tpkt_split bs))) bs = snd (tpkt_split bs)"
    by (rule tpkt_split_suffix)
  then have "byte_slice bs (length bs - length (snd (tpkt_split bs))) (length bs) = Some (snd (tpkt_split bs))"
    by (simp add: byte_slice_def)
  then show ?thesis using clear walk assms(2)
    by (simp add: s7comm_on_data_def s7_flow_def [symmetric] Let_def)
qed

lemma s7_on_data_ok:
  assumes "s7_ok a"
  obtains a' where "s7comm_on_data a key data ts dir = Some a'" "s7_ok a'"
proof -
  let ?bs = "s7_carry dir (s7_flow a key) @ data"
  obtain f1 l1 where f1: "(f1, l1) = fold (s7_step dir ts) (tpkt_payloads ?bs) (s7_flow a key, [])" by (metis surj_pair)
  have "s7_same_carries (s7_flow a key) f1"
    using s7_fold_keeps [of _ dir ts "tpkt_payloads ?bs" "(s7_flow a key, [])"] by (simp add: s7_same_carries_def f1 [symmetric])
  then have "s7_flow_ok (set_s7_carry dir (snd (tpkt_split ?bs)) f1)"
    using s7_flow_ok_of [OF assms, of key] tpkt_split_rest [of ?bs] by (simp add: s7_flow_ok_def s7_same_carries_def)
  then have "s7_ok (a\<lparr>sa_flows := hm_insert key (set_s7_carry dir (snd (tpkt_split ?bs)) f1) (sa_flows a), sa_findings := sa_findings a @ l1\<rparr>)"
    using assms by (auto simp: s7_ok_def hm_ok_insert hmap.set_put)
  then show ?thesis using that s7_on_data_total [OF assms refl f1] by blast
qed

section \<open>Chunks can be joined\<close>

lemma s7_flow_insert [simp]:
  "s7_flow (a\<lparr>sa_flows := hm_insert key f m, sa_findings := l\<rparr>) key = f"
  by (simp add: s7_flow_def)

lemma s7_on_data_append:
  assumes "s7_ok a"
  shows "s7comm_on_data a key (xs @ ys) ts dir =
     s7comm_on_data a key xs ts dir \<bind> (\<lambda>a1. s7comm_on_data a1 key ys ts dir)"
proof -
  let ?c = "s7_carry dir (s7_flow a key)" and ?step = "s7_step dir ts"
  let ?r = "snd (tpkt_split (?c @ xs))"
  obtain f1 l1 where f1: "(f1, l1) = fold ?step (tpkt_payloads (?c @ xs)) (s7_flow a key, [])" by (metis surj_pair)
  obtain f2 l2 where f2: "(f2, l2) = fold ?step (tpkt_payloads (?r @ ys)) (set_s7_carry dir ?r f1, [])" by (metis surj_pair)
  have split: "tpkt_split (?c @ xs @ ys) = apfst ((@) (fst (tpkt_split (?c @ xs)))) (tpkt_split (?r @ ys))"
    using tpkt_split_append [of "?c @ xs" ys] by simp
  obtain a1 where a1: "s7comm_on_data a key xs ts dir = Some a1" "s7_ok a1" using s7_on_data_ok [OF assms] by blast
  have a1': "a1 = a\<lparr>sa_flows := hm_insert key (set_s7_carry dir ?r f1) (sa_flows a), sa_findings := sa_findings a @ l1\<rparr>"
    using s7_on_data_total [OF assms refl f1] a1(1) by simp
  have second: "s7comm_on_data a1 key ys ts dir =
      Some (a1\<lparr>sa_flows := hm_insert key (set_s7_carry dir (snd (tpkt_split (?r @ ys))) f2) (sa_flows a1), sa_findings := sa_findings a1 @ l2\<rparr>)"
    by (rule s7_on_data_total [OF a1(2)]) (simp_all add: a1' f2)
  obtain g l where g: "(g, l) = fold ?step (tpkt_payloads (?r @ ys)) (f1, [])" by (metis surj_pair)
  have f2g: "f2 = set_s7_carry dir ?r g" "l2 = l" using f2 g [symmetric] by (simp_all add: s7_fold_carry)
  have payloads: "tpkt_payloads (?c @ xs @ ys) = tpkt_payloads (?c @ xs) @ tpkt_payloads (?r @ ys)"
    by (simp add: tpkt_payloads_def split)
  have "fold ?step (tpkt_payloads (?c @ xs @ ys)) (s7_flow a key, []) = (g, l1 @ l)"
    using s7_fold_findings [of dir ts "tpkt_payloads (?r @ ys)" f1 l1] by (simp add: payloads f1 [symmetric] g [symmetric])
  from s7_on_data_total [OF assms refl this [unfolded append_assoc, symmetric]]
  show ?thesis using second a1 by (simp add: a1' split hm_insert_twice f2g)
qed

section \<open>Runs\<close>

text \<open>Deliveries to one flow, and events of all flows.\<close>

fun s7_feed :: "s7comm_analyzer \<Rightarrow> flow_key \<Rightarrow> (direction \<times> u32 \<times> bytes) list \<Rightarrow> s7comm_analyzer rust" where
  "s7_feed a key [] = Some a"
| "s7_feed a key ((dir, ts, data) # ds) = s7comm_on_data a key data ts dir \<bind> (\<lambda>a1. s7_feed a1 key ds)"

datatype s7_event = S7Data flow_key direction u32 bytes | S7Close flow_key

fun s7_run :: "s7comm_analyzer \<Rightarrow> s7_event list \<Rightarrow> s7comm_analyzer rust" where
  "s7_run a [] = Some a"
| "s7_run a (S7Data key dir ts data # es) = s7comm_on_data a key data ts dir \<bind> (\<lambda>a1. s7_run a1 es)"
| "s7_run a (S7Close key # es) = s7_run (s7comm_on_flow_close a key) es"

fun s7_closes :: "s7_event list \<Rightarrow> nat" where
  "s7_closes [] = 0"
| "s7_closes (S7Close _ # es) = Suc (s7_closes es)"
| "s7_closes (_ # es) = s7_closes es"

lemma s7_new_ok: "s7_ok s7comm_analyzer_new"
  by (simp add: s7_ok_def s7comm_analyzer_new_def)

lemma s7_close_ok: "s7_ok a \<Longrightarrow> s7_ok (s7comm_on_flow_close a key)"
  by (auto simp: s7_ok_def s7comm_on_flow_close_def hm_ok_remove hmap.set_remove)

text \<open>Every finding is paid by a latch of its flow.\<close>

definition s7_latches :: "s7comm_flow_state \<Rightarrow> nat" where
  "s7_latches f = of_bool (sf_malformed_header_reported_c2s f) + of_bool (sf_malformed_header_reported_s2c f)"

lemma s7_latches_le: "s7_latches f \<le> 2"
  by (simp add: s7_latches_def)

lemma s7_latches_default: "s7_latches s7comm_flow_state_default = 0"
  by (simp add: s7_latches_def s7comm_flow_state_default_def)

lemma s7_latches_set [simp]:
  "s7_latches (set_s7_carry d bs f) = s7_latches f"
  "\<not> s7_malformed_reported d f \<Longrightarrow> s7_latches (set_s7_malformed d f) = Suc (s7_latches f)"
  "s7_latches (classify_first_dt_frame b f) = s7_latches f"
  "s7_latches (f\<lparr>sf_cr_observed_dir := c\<rparr>) = s7_latches f"
  "s7_latches (f\<lparr>sf_session_established := s\<rparr>) = s7_latches f"
  by (cases d; auto simp: s7_latches_def classify_first_dt_frame_def split: option.splits)+

lemma s7_step_latches:
  "length (snd (s7_step dir ts p st)) + s7_latches (fst st) = length (snd st) + s7_latches (fst (s7_step dir ts p st))"
  by (cases st) (simp add: s7_step_eq report_malformed_header_def Let_def)

lemma s7_fold_latches:
  "length (snd (fold (s7_step dir ts) ps st)) + s7_latches (fst st) = length (snd st) + s7_latches (fst (fold (s7_step dir ts) ps st))"
proof (induction ps arbitrary: st)
  case (Cons p ps)
  have "length (snd (fold (s7_step dir ts) ps (s7_step dir ts p st))) + s7_latches (fst (s7_step dir ts p st))
      = length (snd (s7_step dir ts p st)) + s7_latches (fst (fold (s7_step dir ts) ps (s7_step dir ts p st)))" by (rule Cons)
  then show ?case using s7_step_latches [of dir ts p st] by simp
qed simp

definition s7_paid :: "nat \<Rightarrow> s7comm_analyzer \<Rightarrow> bool" where
  "s7_paid n a \<longleftrightarrow> length (sa_findings a) \<le> weight s7_latches (sa_flows a) + n"

lemma s7_on_data_paid:
  assumes "s7_ok a" and "s7_paid n a" and "s7comm_on_data a key data ts dir = Some a'"
  shows "s7_paid n a'"
proof -
  let ?bs = "s7_carry dir (s7_flow a key) @ data"
  obtain f1 l1 where f1: "(f1, l1) = fold (s7_step dir ts) (tpkt_payloads ?bs) (s7_flow a key, [])" by (metis surj_pair)
  let ?f = "set_s7_carry dir (snd (tpkt_split ?bs)) f1"
  have a': "a' = a\<lparr>sa_flows := hm_insert key ?f (sa_flows a), sa_findings := sa_findings a @ l1\<rparr>"
    using s7_on_data_total [OF assms(1) refl f1] assms(3) by simp
  have l1: "length l1 + s7_latches (s7_flow a key) = s7_latches ?f"
    using s7_fold_latches [of dir ts "tpkt_payloads ?bs" "(s7_flow a key, [])"] by (simp add: f1 [symmetric])
  have "weight s7_latches (hm_insert key ?f (sa_flows a)) + s7_latches (s7_flow a key)
      = weight s7_latches (sa_flows a) + s7_latches ?f"
    using hmap.weight_put [of "sa_flows a" s7_latches key ?f] assms(1) s7_latches_default
    by (auto simp: s7_ok_def s7_flow_def split: option.splits)
  then show ?thesis using l1 assms(2) by (simp add: a' s7_paid_def)
qed

lemma s7_close_paid:
  assumes "s7_ok a" and "s7_paid n a"
  shows "s7_paid (n + 2) (s7comm_on_flow_close a key)"
proof -
  have "weight s7_latches (sa_flows a) \<le> weight s7_latches (hm_remove key (sa_flows a)) + 2"
  proof (cases "hm_get (sa_flows a) key")
    case (Some f)
    then show ?thesis using hmap.weight_remove [of "sa_flows a" s7_latches key] assms(1) s7_latches_le [of f]
      by (simp add: s7_ok_def)
  qed (use hmap.weight_remove [of "sa_flows a" s7_latches key] assms(1) in \<open>simp add: s7_ok_def\<close>)
  then show ?thesis using assms(2) by (simp add: s7_paid_def s7comm_on_flow_close_def)
qed

lemma s7_run_ok:
  assumes "s7_ok a" and "s7_paid n a"
  shows "\<exists>a'. s7_run a es = Some a' \<and> s7_ok a' \<and> s7_paid (n + 2 * s7_closes es) a'"
  using assms
proof (induction a es arbitrary: n rule: s7_run.induct)
  case (2 a key dir ts data es)
  obtain a1 where a1: "s7comm_on_data a key data ts dir = Some a1" "s7_ok a1" using s7_on_data_ok [OF 2(2)] by blast
  then show ?case using 2(1) [OF a1(1) a1(2) s7_on_data_paid [OF 2(2,3) a1(1)]] by simp
next
  case (3 a key es)
  from 3(1) [OF s7_close_ok [OF 3(2)] s7_close_paid [OF 3(2,3)]] show ?case by (simp add: algebra_simps)
qed simp

lemma weight_latches_le: "weight s7_latches m \<le> 2 * length m"
proof (induction m)
  case (Cons e m)
  then show ?case using s7_latches_le [of "snd e"] by simp
qed simp

text \<open>C25. Whatever data and closes of whatever flows the S7comm analyzer receives, it never panics: no
  subtraction, slice or index of the walk fails. A carry never has more than 65,534 bytes, so
  the overflow branch is never taken and no overflow reported, as the comments claim; and
  although the list of findings has no cap, it has at most two per flow seen.\<close>

theorem s7_run_bounded:
  "\<exists>a. s7_run s7comm_analyzer_new es = Some a \<and>
     length (sa_findings a) \<le> 2 * (length (sa_flows a) + s7_closes es) \<and>
     (\<forall>(key, f) \<in> set (sa_flows a). \<forall>d. length (s7_carry d f) < max_s7_iso_on_tcp_carry_bytes \<and> \<not> s7_overflow_reported d f)"
proof -
  have "s7_paid 0 s7comm_analyzer_new" by (simp add: s7_paid_def s7comm_analyzer_new_def)
  then obtain a where a: "s7_run s7comm_analyzer_new es = Some a" "s7_ok a" "s7_paid (2 * s7_closes es) a"
    using s7_run_ok [OF s7_new_ok] by fastforce
  then have "length (sa_findings a) \<le> 2 * (length (sa_flows a) + s7_closes es)"
    using weight_latches_le [of "sa_flows a"] by (simp add: s7_paid_def)
  moreover have "\<forall>(key, f) \<in> set (sa_flows a). \<forall>d. length (s7_carry d f) < max_s7_iso_on_tcp_carry_bytes \<and> \<not> s7_overflow_reported d f"
    using a(2) by (fastforce simp: s7_ok_def s7_flow_ok_def max_s7_iso_on_tcp_carry_bytes_def less_eq_Suc_le)
  ultimately show ?thesis using a(1) by blast
qed

definition s7_sample :: bytes where
  "s7_sample = [0xFF, 0x03, 0x00, 0x00, 0x0A, 0x02, 0xF0, 0x80, 0x32, 0x01, 0x00, 0x03]"

definition s7_sample_key :: flow_key where
  "s7_sample_key = flow_key_new (V4 0x0A000001) 50000 (V4 0x0A000002) 102"

theorem s7_run_bounded_witness:
  "\<exists>a. s7_run s7comm_analyzer_new [S7Data s7_sample_key ClientToServer 1 s7_sample] = Some a \<and>
     length (sa_findings a) \<le> 2 * (length (sa_flows a) + 0) \<and>
     (\<forall>(key, f) \<in> set (sa_flows a). \<forall>d. length (s7_carry d f) < max_s7_iso_on_tcp_carry_bytes \<and> \<not> s7_overflow_reported d f)"
  using s7_run_bounded [of "[S7Data s7_sample_key ClientToServer 1 s7_sample]"] by simp

text \<open>Segmentation does not matter: after any events, feeding the bytes of a direction in any
  non-empty sequence of chunks has exactly the effect of one delivery of all of them, on the
  flow state, carries and findings included, garbage or not.\<close>

theorem s7_framing_any_cut:
  assumes "s7_run s7comm_analyzer_new es = Some a" and "chunks \<noteq> []"
  shows "s7_feed a key (map (\<lambda>c. (dir, ts, c)) chunks) = s7comm_on_data a key (concat chunks) ts dir"
proof -
  have "s7_ok a" using s7_run_ok [OF s7_new_ok, of 0 es] assms(1) by (simp add: s7_paid_def s7comm_analyzer_new_def)
  then show ?thesis using assms(2)
  proof (induction chunks arbitrary: a)
    case (Cons c cs)
    obtain a1 where a1: "s7comm_on_data a key c ts dir = Some a1" "s7_ok a1" using s7_on_data_ok [OF Cons.prems(1)] by blast
    then show ?case using s7_on_data_append [OF Cons.prems(1), of key c "concat cs" ts dir] Cons.IH [OF a1(2)]
      by (cases "cs = []") simp_all
  qed simp
qed

theorem s7_framing_any_cut_witness:
  "s7_feed s7comm_analyzer_new s7_sample_key [(ClientToServer, 1, take 5 s7_sample), (ClientToServer, 1, drop 5 s7_sample)]
     = s7comm_on_data s7comm_analyzer_new s7_sample_key s7_sample 1 ClientToServer"
  using s7_framing_any_cut [of "[]" s7comm_analyzer_new "[take 5 s7_sample, drop 5 s7_sample]" s7_sample_key ClientToServer 1] by simp

section \<open>What a flow is told\<close>

text \<open>The payloads that the deliveries to a flow complete, with the carries as the only state.\<close>

fun s7_trace :: "(direction \<Rightarrow> bytes) \<Rightarrow> (direction \<times> u32 \<times> bytes) list \<Rightarrow> (direction \<times> u32 \<times> bytes) list" where
  "s7_trace c [] = []"
| "s7_trace c ((dir, ts, data) # ds) =
     map (\<lambda>p. (dir, ts, p)) (tpkt_payloads (c dir @ data)) @ s7_trace (c(dir := snd (tpkt_split (c dir @ data)))) ds"

text \<open>What a list of payloads says: the first protocol byte, the directions of the Connect
  Requests, whether a Connect Confirm answered the last of them from the other side, and the
  faulty classic payloads of a direction, if the flow is classic at all.\<close>

fun first_byte :: "(direction \<times> u32 \<times> bytes) list \<Rightarrow> u8 option" where
  "first_byte [] = None"
| "first_byte ((_, _, p) # tr) = (case protocol_byte p of None \<Rightarrow> first_byte tr | Some b \<Rightarrow> Some b)"

definition cr_dirs :: "(direction \<times> u32 \<times> bytes) list \<Rightarrow> direction list" where
  "cr_dirs tr = map fst (filter (\<lambda>(_, _, p). tpdu p = Some ConnectRequest) tr)"

definition confirmed :: "(direction \<times> u32 \<times> bytes) list \<Rightarrow> bool" where
  "confirmed tr \<longleftrightarrow> (\<exists>pre d t p post. tr = pre @ (d, t, p) # post \<and> tpdu p = Some ConnectConfirm \<and> cr_dirs pre \<noteq> [] \<and> last (cr_dirs pre) \<noteq> d)"

definition classic_faults :: "direction \<Rightarrow> (direction \<times> u32 \<times> bytes) list \<Rightarrow> finding list" where
  "classic_faults d tr =
     (if first_byte tr = Some 0x32
      then map (\<lambda>(_, t, p). malformed_header_finding d t (s7_reason (classic_part p))) (filter (\<lambda>(d', _, p). d' = d \<and> faulty_classic p) tr)
      else [])"

definition tells :: "(direction \<times> u32 \<times> bytes) list \<Rightarrow> s7_state \<Rightarrow> bool" where
  "tells tr st \<longleftrightarrow>
     (sf_classified_protocol (fst st) = map_option protocol_of_byte (first_byte tr)) \<and>
     (sf_cr_observed_dir (fst st) = (if cr_dirs tr = [] then None else Some (last (cr_dirs tr)))) \<and>
     (sf_session_established (fst st) \<longleftrightarrow> confirmed tr) \<and>
     (\<forall>d. s7_malformed_reported d (fst st) \<longleftrightarrow> classic_faults d tr \<noteq> []) \<and>
     (\<forall>d. filter (\<lambda>x. direction x = Some d) (snd st) = take 1 (classic_faults d tr)) \<and>
     (\<forall>x \<in> set (snd st). direction x \<noteq> None)"

lemma first_byte_snoc:
  "first_byte (tr @ [(d, t, p)]) = (case first_byte tr of None \<Rightarrow> protocol_byte p | Some b \<Rightarrow> Some b)"
  by (induction tr rule: first_byte.induct) (auto split: option.splits)

lemma first_byte_None: "first_byte tr = None \<Longrightarrow> e \<in> set tr \<Longrightarrow> protocol_byte (snd (snd e)) = None"
  by (induction tr rule: first_byte.induct) (auto split: option.splits)

lemma cr_dirs_snoc: "cr_dirs (tr @ [(d, t, p)]) = cr_dirs tr @ (if tpdu p = Some ConnectRequest then [d] else [])"
  by (simp add: cr_dirs_def)

lemma confirmed_snoc:
  "confirmed (tr @ [(d, t, p)]) \<longleftrightarrow> confirmed tr \<or> (tpdu p = Some ConnectConfirm \<and> cr_dirs tr \<noteq> [] \<and> last (cr_dirs tr) \<noteq> d)"
    (is "?l \<longleftrightarrow> ?r")
proof
  assume ?l
  then obtain pre d' t' p' post where s: "tr @ [(d, t, p)] = pre @ (d', t', p') # post"
    "tpdu p' = Some ConnectConfirm" "cr_dirs pre \<noteq> []" "last (cr_dirs pre) \<noteq> d'" by (auto simp: confirmed_def)
  show ?r
  proof (cases post rule: rev_cases)
    case Nil
    then show ?thesis using s by simp
  next
    case (snoc post' e)
    then have "tr = pre @ (d', t', p') # post'" using s(1) by simp
    then show ?thesis using s confirmed_def by blast
  qed
next
  assume ?r
  then show ?l
  proof
    assume "confirmed tr"
    then obtain pre d' t' p' post where s: "tr = pre @ (d', t', p') # post"
      "tpdu p' = Some ConnectConfirm" "cr_dirs pre \<noteq> []" "last (cr_dirs pre) \<noteq> d'" by (auto simp: confirmed_def)
    then have "tr @ [(d, t, p)] = pre @ (d', t', p') # (post @ [(d, t, p)])" by simp
    with s(2-4) show ?l unfolding confirmed_def by blast
  next
    assume "tpdu p = Some ConnectConfirm \<and> cr_dirs tr \<noteq> [] \<and> last (cr_dirs tr) \<noteq> d"
    then show ?l unfolding confirmed_def by blast
  qed
qed

lemma tpdu_control:
  assumes "tpdu p = Some ConnectRequest \<or> tpdu p = Some ConnectConfirm"
  shows "protocol_byte p = None" "\<not> faulty_classic p"
proof -
  show "protocol_byte p = None"
    using assms by (auto simp: protocol_byte_def tpdu_def parse_cotp_header_def Let_def split: if_splits)
  then show "\<not> faulty_classic p" by (simp add: faulty_classic_def)
qed

lemma classic_faults_snoc:
  "classic_faults e (tr @ [(d, t, p)]) =
     classic_faults e tr @
       (if e = d \<and> faulty_classic p \<and> first_byte (tr @ [(d, t, p)]) = Some 0x32
        then [malformed_header_finding d t (s7_reason (classic_part p))] else [])"
proof (cases "first_byte tr")
  case None
  have "\<not> faulty_classic (snd (snd x))" if "x \<in> set tr" for x
    using first_byte_None [OF None that] by (simp add: faulty_classic_def)
  then have "filter (\<lambda>(d', _, p). d' = e \<and> faulty_classic p) tr = []" by (auto simp: filter_empty_conv)
  then show ?thesis using None by (auto simp: classic_faults_def)
next
  case (Some b)
  then show ?thesis by (simp add: classic_faults_def first_byte_snoc)
qed

lemma protocol_classic: "protocol_of_byte b = Classic \<longleftrightarrow> b = 0x32"
  by (simp add: protocol_of_byte_def)

lemma tells_step:
  assumes "tells tr st"
  shows "tells (tr @ [(d, t, p)]) (s7_step d t p st)"
proof (cases st)
  case (Pair f l)
  note told = assms [unfolded tells_def Pair fst_conv snd_conv]
  show ?thesis
  proof (cases "tpdu p = Some ConnectRequest \<or> tpdu p = Some ConnectConfirm")
    case True
    then show ?thesis using told tpdu_control [OF True]
      by (auto simp: Pair tells_def s7_step_eq first_byte_snoc cr_dirs_snoc confirmed_snoc classic_faults_snoc split: option.splits)
  next
    case False
    let ?f1 = "classify_first_dt_frame (protocol_byte p) f"
    have c: "sf_classified_protocol ?f1 = map_option protocol_of_byte (first_byte (tr @ [(d, t, p)]))"
      using told by (cases "first_byte tr") (simp_all add: first_byte_snoc)
    then have "sf_classified_protocol ?f1 = Some Classic \<longleftrightarrow> first_byte (tr @ [(d, t, p)]) = Some 0x32"
      by (auto simp: protocol_classic)
    then have step: "s7_step d t p st =
        (if faulty_classic p \<and> first_byte (tr @ [(d, t, p)]) = Some 0x32
         then report_malformed_header d t (s7_reason (classic_part p)) (?f1, l) else (?f1, l))"
      using False by (simp add: Pair s7_step_eq Let_def)
    show ?thesis
      using told False c unfolding tells_def step
      by (auto simp: report_malformed_header_def cr_dirs_snoc confirmed_snoc classic_faults_snoc
          malformed_header_finding_def s7_anomaly_def Suc_le_eq)
  qed
qed

lemma tells_default: "tells [] (s7comm_flow_state_default, [])"
proof -
  have "\<not> s7_malformed_reported d s7comm_flow_state_default" for d by (cases d) (simp_all add: s7comm_flow_state_default_def)
  then show ?thesis
    by (simp add: tells_def cr_dirs_def confirmed_def classic_faults_def) (simp add: s7comm_flow_state_default_def)
qed

lemma tells_fold: "tells tr st \<Longrightarrow> tells (tr @ map (\<lambda>p. (d, t, p)) ps) (fold (s7_step d t) ps st)"
proof (induction ps arbitrary: tr st)
  case (Cons p ps)
  from Cons.IH [OF tells_step [OF Cons.prems]] show ?case by simp
qed simp

lemma tells_carry: "tells tr (set_s7_carry d bs f, l) = tells tr (f, l)"
  by (simp add: tells_def)

lemma s7_feed_tells:
  assumes "s7_ok a" and "tells tr (s7_flow a key, l)" and "c = (\<lambda>d. s7_carry d (s7_flow a key))"
  shows "\<exists>a' l'. s7_feed a key ds = Some a' \<and> tells (tr @ s7_trace c ds) (s7_flow a' key, l @ l') \<and>
     sa_findings a' = sa_findings a @ l'"
  using assms
proof (induction c ds arbitrary: a tr l rule: s7_trace.induct)
  case (2 c dir ts data ds)
  let ?bs = "c dir @ data"
  obtain f1 l1 where f1: "(f1, l1) = fold (s7_step dir ts) (tpkt_payloads ?bs) (s7_flow a key, [])" by (metis surj_pair)
  let ?a = "a\<lparr>sa_flows := hm_insert key (set_s7_carry dir (snd (tpkt_split ?bs)) f1) (sa_flows a), sa_findings := sa_findings a @ l1\<rparr>"
  have bs: "?bs = s7_carry dir (s7_flow a key) @ data" by (simp add: 2(4))
  have a: "s7comm_on_data a key data ts dir = Some ?a" by (rule s7_on_data_total [OF 2(2) bs f1])
  obtain a1 where "s7comm_on_data a key data ts dir = Some a1" "s7_ok a1" using s7_on_data_ok [OF 2(2)] by blast
  then have ok: "s7_ok ?a" using a by simp
  let ?tr = "tr @ map (\<lambda>p. (dir, ts, p)) (tpkt_payloads ?bs)"
  have "tells ?tr (f1, l @ l1)"
    using tells_fold [OF 2(3), of dir ts "tpkt_payloads ?bs"] s7_fold_findings [of dir ts "tpkt_payloads ?bs" "s7_flow a key" l]
    by (simp add: f1 [symmetric])
  then have t: "tells ?tr (s7_flow ?a key, l @ l1)" by (simp add: tells_carry)
  have "c(dir := snd (tpkt_split ?bs)) = (\<lambda>d. s7_carry d (s7_flow ?a key))"
  proof
    fix d
    have "s7_carry d f1 = s7_carry d (s7_flow a key)"
      using s7_fold_keeps(1) [of d dir ts "tpkt_payloads ?bs" "(s7_flow a key, [])"] by (simp only: f1 [symmetric] fst_conv)
    then show "(c(dir := snd (tpkt_split ?bs))) d = s7_carry d (s7_flow ?a key)" by (simp add: 2(4))
  qed
  from 2(1) [OF ok t this] obtain a' l' where "s7_feed ?a key ds = Some a'"
    "tells (?tr @ s7_trace (c(dir := snd (tpkt_split ?bs))) ds) (s7_flow a' key, (l @ l1) @ l')"
    "sa_findings a' = sa_findings ?a @ l'" by blast
  then show ?case using a by (intro exI [of _ a'] exI [of _ "l1 @ l'"]) simp
qed (auto intro: exI [of _ "[]"])

text \<open>C24. What a flow comes to. For any deliveries to a flow that is not yet known, in both directions,
  cut anywhere and with any garbage between frames: nothing panics; the flow is classified by
  the first Data Transfer frame that has a payload byte and never again; the session is
  established exactly if a Connect Confirm came from the side opposite to the latest Connect
  Request before it; and, on classic flows only, each direction is given the finding of its first faulty
  header and no other.\<close>

theorem s7_flow_exact:
  assumes "s7_run s7comm_analyzer_new es = Some a" and "hm_get (sa_flows a) key = None"
    and "tr = s7_trace (\<lambda>_. []) ds"
  shows "\<exists>a' l. s7_feed a key ds = Some a' \<and> sa_findings a' = sa_findings a @ l \<and>
     sf_classified_protocol (s7_flow a' key) = map_option protocol_of_byte (first_byte tr) \<and>
     (sf_session_established (s7_flow a' key) \<longleftrightarrow> confirmed tr) \<and>
     (\<forall>d. filter (\<lambda>x. direction x = Some d) l = take 1 (classic_faults d tr)) \<and> (\<forall>x \<in> set l. direction x \<noteq> None)"
proof -
  have ok: "s7_ok a" using s7_run_ok [OF s7_new_ok, of 0 es] assms(1) by (simp add: s7_paid_def s7comm_analyzer_new_def)
  have f: "s7_flow a key = s7comm_flow_state_default" using assms(2) by (simp add: s7_flow_def)
  have c: "(\<lambda>_. []) = (\<lambda>d. s7_carry d (s7_flow a key))"
  proof
    show "[] = s7_carry d (s7_flow a key)" for d by (cases d) (simp_all add: f s7comm_flow_state_default_def)
  qed
  obtain a' l where "s7_feed a key ds = Some a'" "tells tr (s7_flow a' key, l)" "sa_findings a' = sa_findings a @ l"
    using s7_feed_tells [OF ok _ c, of "[]" "[]" ds] tells_default assms(3) f by auto
  then show ?thesis by (auto simp: tells_def)
qed

definition s7_sample_stream :: "(direction \<times> u32 \<times> bytes) list" where
  "s7_sample_stream = [(ClientToServer, 1, take 5 s7_sample), (ClientToServer, 2, drop 5 s7_sample)]"

theorem s7_flow_exact_witness:
  "\<exists>a' l. s7_feed s7comm_analyzer_new s7_sample_key s7_sample_stream = Some a' \<and> sa_findings a' = [] @ l \<and>
     sf_classified_protocol (s7_flow a' s7_sample_key) = Some Classic \<and> \<not> sf_session_established (s7_flow a' s7_sample_key) \<and>
     length (filter (\<lambda>x. direction x = Some ClientToServer) l) = 1"
proof -
  have sp: "tpkt_split [0x03, 0x00, 0x00, 0x0A, 0x02, 0xF0, 0x80, 0x32, 0x01, 0x00, 0x03]
      = ([[0x03, 0x00, 0x00, 0x0A, 0x02, 0xF0, 0x80, 0x32, 0x01, 0x00]], [0x03])"
    by (simp add: tpkt_split.simps parse_tpkt_header_def be16_def)
  have tr: "s7_trace (\<lambda>_. []) s7_sample_stream = [(ClientToServer, 2, [0x02, 0xF0, 0x80, 0x32, 0x01, 0x00])]"
    using sp by (simp add: s7_sample_stream_def s7_sample_def tpkt_payloads_def tpkt_split.simps [of "[0xFF, 0x03, 0x00, 0x00, 0x0A]"]
        tpkt_split.simps [of "[0x03, 0x00, 0x00, 0x0A]"] parse_tpkt_header_def be16_def)
  let ?p = "[0x02, 0xF0, 0x80, 0x32, 0x01, 0x00] :: bytes"
  have p: "protocol_byte ?p = Some 0x32" "faulty_classic ?p" "tpdu ?p = Some DataTransfer"
    by (simp_all add: protocol_byte_def faulty_classic_def tpdu_def parse_cotp_header_def classic_part_def s7_faulty_def)
  have "confirmed [(ClientToServer, 2, ?p)] = False" using p(3) by (auto simp: confirmed_def Cons_eq_append_conv)
  moreover have "length (classic_faults ClientToServer [(ClientToServer, 2, ?p)]) = 1" using p by (simp add: classic_faults_def)
  ultimately show ?thesis
    using s7_flow_exact [of "[]" s7comm_analyzer_new s7_sample_key _ s7_sample_stream] p(1) unfolding tr
    by (fastforce simp: s7comm_analyzer_new_def protocol_of_byte_def)
qed

text \<open>The resynchronisation loop always ends, without a panic, and at the right place: the first
  position from the cursor on at which a TPKT header is accepted, or fewer than four bytes
  are left.\<close>

theorem resync_finds_first_header:
  assumes "cursor \<le> length working"
  shows "\<exists>c. resync_one_byte working cursor = Some c \<and> cursor \<le> c \<and> c \<le> length working \<and>
     (length working - c < 4 \<or> parse_tpkt_header (drop c working) \<noteq> None) \<and>
     (\<forall>i. cursor \<le> i \<and> i < c \<longrightarrow> 4 \<le> length working - i \<and> parse_tpkt_header (drop i working) = None)"
  using assms
proof (induction working cursor rule: resync_one_byte.induct)
  case (1 working cursor)
  show ?case
  proof (cases "4 \<le> length working - cursor \<and> parse_tpkt_header (drop cursor working) = None")
    case True
    then obtain c where c: "resync_one_byte working (cursor + 1) = Some c" "cursor + 1 \<le> c" "c \<le> length working"
      "length working - c < 4 \<or> parse_tpkt_header (drop c working) \<noteq> None"
      "\<forall>i. cursor + 1 \<le> i \<and> i < c \<longrightarrow> 4 \<le> length working - i \<and> parse_tpkt_header (drop i working) = None"
      using 1(1) "1.prems" by fastforce
    have "4 \<le> length working - i \<and> parse_tpkt_header (drop i working) = None" if "cursor \<le> i" "i < c" for i
      using that True c(5) by (cases "i = cursor") auto
    then show ?thesis using True c(1-4) "1.prems" by (subst resync_one_byte.simps) auto
  next
    case False
    then show ?thesis using "1.prems" by (subst resync_one_byte.simps) auto
  qed
qed

theorem resync_finds_first_header_witness:
  "\<exists>c. resync_one_byte s7_sample 0 = Some c \<and> 0 \<le> c \<and> c \<le> length s7_sample \<and>
     (length s7_sample - c < 4 \<or> parse_tpkt_header (drop c s7_sample) \<noteq> None) \<and>
     (\<forall>i. 0 \<le> i \<and> i < c \<longrightarrow> 4 \<le> length s7_sample - i \<and> parse_tpkt_header (drop i s7_sample) = None)"
  using resync_finds_first_header [of 0 s7_sample] by simp

text \<open>S5. The classic header is read as it is written: \<open>parse_s7comm_header\<close> yields a header exactly on the
  byte strings that begin with its encoding, whose two bytes of redundancy identification it ignores.\<close>

fun rosctr_byte :: "rosctr \<Rightarrow> u8" where
  "rosctr_byte Job = 0x01"
| "rosctr_byte Ack = 0x02"
| "rosctr_byte AckData = 0x03"
| "rosctr_byte Userdata = 0x07"

definition encode_s7 :: "s7comm_header \<Rightarrow> u8 \<Rightarrow> u8 \<Rightarrow> bytes" where
  "encode_s7 h r0 r1 =
     [0x32, rosctr_byte (s7_rosctr h), r0, r1, hi8 (s7_pdu_reference h), lo8 (s7_pdu_reference h),
      hi8 (s7_param_length h), lo8 (s7_param_length h), hi8 (s7_data_length h), lo8 (s7_data_length h)]
     @ (case (s7_error_class h, s7_error_code h) of (Some c, Some e) \<Rightarrow> [c, e] | _ \<Rightarrow> [])"

definition s7_header_wf :: "s7comm_header \<Rightarrow> bool" where
  "s7_header_wf h \<longleftrightarrow>
     (if s7_rosctr h \<in> {Ack, AckData} then s7_error_class h \<noteq> None \<and> s7_error_code h \<noteq> None \<and> s7_header_len h = 12
      else s7_error_class h = None \<and> s7_error_code h = None \<and> s7_header_len h = 10)"

lemma list_ten: "10 \<le> length xs \<Longrightarrow>
    xs = [xs ! 0, xs ! 1, xs ! 2, xs ! 3, xs ! 4, xs ! 5, xs ! 6, xs ! 7, xs ! 8, xs ! 9] @ drop 10 xs"
  by (rule nth_equalityI) (auto simp: nth_Cons nth_append less_Suc_eq eval_nat_numeral split: nat.splits)

theorem s7_header_roundtrip:
  "parse_s7comm_header data = Some h \<longleftrightarrow> s7_header_wf h \<and> (\<exists>r0 r1 rest. data = encode_s7 h r0 r1 @ rest)"
proof
  assume p: "parse_s7comm_header data = Some h"
  then have l: "10 \<le> length data" by (simp add: parse_s7comm_header_def split: if_splits)
  note ten = list_ten [OF l]
  have two: "drop 10 data = [data ! 10, data ! 11] @ drop 12 data" if "12 \<le> length data"
    using that by (simp add: Cons_nth_drop_Suc eval_nat_numeral)
  show "s7_header_wf h \<and> (\<exists>r0 r1 rest. data = encode_s7 h r0 r1 @ rest)"
  proof (cases "data ! 1 = 0x02 \<or> data ! 1 = 0x03")
    case True
    then have "12 \<le> length data" using p by (auto simp: parse_s7comm_header_def Let_def split: if_splits)
    with ten two True p have "data = encode_s7 h (data ! 2) (data ! 3) @ drop 12 data" "s7_header_wf h"
      by (auto simp: parse_s7comm_header_def encode_s7_def s7_header_wf_def split_be16 Let_def split: if_splits)
    then show ?thesis by blast
  next
    case False
    with ten p have "data = encode_s7 h (data ! 2) (data ! 3) @ drop 10 data" "s7_header_wf h"
      by (auto simp: parse_s7comm_header_def encode_s7_def s7_header_wf_def split_be16 Let_def split: if_splits)
    then show ?thesis by blast
  qed
next
  assume "s7_header_wf h \<and> (\<exists>r0 r1 rest. data = encode_s7 h r0 r1 @ rest)"
  then show "parse_s7comm_header data = Some h"
    by (cases h; cases "s7_rosctr h")
       (auto simp: parse_s7comm_header_def encode_s7_def s7_header_wf_def be16_split)
qed

end
