(* ===== verification/Decoder.thy ===== *)
theory Decoder
  imports Findings
begin

text \<open>
  The packet decoder, \<open>src/decoder.rs\<close>. Slicing of link, network and transport headers is done by the
  crate \<open>etherparse\<close>, which is a parameter: the record \<open>slicers\<close> has its entry points, arbitrary functions
  whose results are given by the accessors the decoder calls. What is modelled is
  the decoder's own logic: which slicer is tried, when the lax one is used, how ARP is told
  from IP and malformed from truncated, and what is copied into the decoded frame.
  A \<open>None\<close> is a panic (\<open>unreachable!\<close>, \<open>expect\<close> or a slice out of range).
\<close>

section \<open>What the crate returns\<close>

record arp_packet_slice =
  sl_hw_addr_type :: u16
  sl_proto_addr_type :: u16
  sl_hw_addr_size :: u8
  sl_proto_addr_size :: u8
  sl_operation :: u16
  sl_sender_hw_addr :: bytes
  sl_sender_protocol_addr :: bytes
  sl_target_hw_addr :: bytes
  sl_target_protocol_addr :: bytes

datatype link_slice = Ethernet2 (eth_source: bytes) | OtherLink

text \<open>Source, destination and IP number of an IP slice. The strict and the lax slices have the same
  three cases.\<close>

datatype net_slice = Ipv4Slice "32 word" "32 word" u8 | Ipv6Slice "128 word" "128 word" u8 | ArpSlice arp_packet_slice

record tcp_slice =
  ts_source_port :: u16
  ts_destination_port :: u16
  ts_sequence_number :: u32
  ts_syn :: bool
  ts_ack :: bool
  ts_fin :: bool
  ts_rst :: bool
  ts_payload :: bytes

datatype transport_slice = TcpSlice tcp_slice | UdpSlice u16 u16 bytes | Icmpv4Slice | Icmpv6Slice

record sliced_packet =
  sp_link :: "link_slice option"
  sp_net :: "net_slice option"
  sp_transport :: "transport_slice option"

datatype layer = ArpLayer | OtherLayer

record lax_sliced_packet = sliced_packet +
  sp_link_ext_lens :: "usize list"
  sp_stop_err :: "layer option"

datatype slice_error = LenError | StructuralError

record slicers =
  from_ethernet :: "bytes \<Rightarrow> slice_error + sliced_packet"
  from_ip :: "bytes \<Rightarrow> slice_error + sliced_packet"
  from_linux_sll :: "bytes \<Rightarrow> slice_error + sliced_packet"
  lax_from_ethernet :: "bytes \<Rightarrow> lax_sliced_packet option"
  lax_from_ip :: "bytes \<Rightarrow> lax_sliced_packet option"
  lax_from_ether_type :: "u16 \<Rightarrow> bytes \<Rightarrow> lax_sliced_packet"

text \<open>\<open>DataLink\<close> of the crate \<open>pcap_file\<close>.\<close>

datatype data_link = ETHERNET | RAW | IPV4 | IPV6 | LINUX_SLL | OtherDataLink

section \<open>The decoded frame\<close>

record arp_frame =
  operation :: u16
  sender_mac :: bytes
  sender_ip :: bytes
  target_mac :: bytes
  target_ip :: bytes
  outer_src_mac :: "bytes option"
  arp_packet_len :: usize

datatype decoded_frame = IpFrame parsed_packet | ArpFrame arp_frame

datatype decode_error =
    UnsupportedLinkType data_link | NonEthernetIpv4Arp | TruncatedArp | NoIpLayer | ParseError | SllHeaderTruncated

definition sll_header_len :: usize where
  "sll_header_len = 16"

fun app_protocol_hint_ports :: "u16 \<Rightarrow> u16 \<Rightarrow> string option" where
  "app_protocol_hint_ports src dst =
     (if src = 53 \<or> dst = 53 then Some ''DNS''
      else if src = 80 \<or> dst = 80 then Some ''HTTP''
      else if src = 443 \<or> dst = 443 then Some ''TLS''
      else if src = 22 \<or> dst = 22 then Some ''SSH''
      else if src = 445 \<or> dst = 445 then Some ''SMB''
      else if src = 502 \<or> dst = 502 then Some ''Modbus''
      else if src = 20000 \<or> dst = 20000 then Some ''DNP3''
      else None)"

definition app_protocol_hint :: "parsed_packet \<Rightarrow> string option" where
  "app_protocol_hint p =
     (case transport p of
        TcpInfo src dst _ _ _ _ _ \<Rightarrow> app_protocol_hint_ports src dst
      | UdpInfo src dst \<Rightarrow> app_protocol_hint_ports src dst
      | NoTransport \<Rightarrow> None)"

section \<open>Operations\<close>

text \<open>\<open><[u8; n]>::try_from(bytes).expect(..)\<close>.\<close>

definition array_of :: "nat \<Rightarrow> bytes \<Rightarrow> bytes rust" where
  "array_of n bs = (if length bs = n then Some bs else None)"

definition extract_arp_frame :: "arp_packet_slice \<Rightarrow> bytes option \<Rightarrow> usize \<Rightarrow> arp_frame option rust" where
  "extract_arp_frame arp outer len =
     (if sl_hw_addr_type arp \<noteq> 0x0001 \<or> sl_proto_addr_type arp \<noteq> 0x0800 \<or>
         sl_hw_addr_size arp \<noteq> 6 \<or> sl_proto_addr_size arp \<noteq> 4
      then Some None
      else do {
        smac \<leftarrow> array_of 6 (sl_sender_hw_addr arp);
        sip \<leftarrow> array_of 4 (sl_sender_protocol_addr arp);
        tmac \<leftarrow> array_of 6 (sl_target_hw_addr arp);
        tip \<leftarrow> array_of 4 (sl_target_protocol_addr arp);
        Some (Some \<lparr>operation = sl_operation arp, sender_mac = smac, sender_ip = sip, target_mac = tmac,
                    target_ip = tip, outer_src_mac = outer, arp_packet_len = len\<rparr>)
      })"

definition strict_ip_triple :: "net_slice \<Rightarrow> (ip_addr \<times> ip_addr \<times> u8) rust" where
  "strict_ip_triple net =
     (case net of
        Ipv4Slice s d p \<Rightarrow> Some (V4 s, V4 d, p)
      | Ipv6Slice s d p \<Rightarrow> Some (V6 s, V6 d, p)
      | ArpSlice _ \<Rightarrow> None)"

definition lax_ip_triple :: "net_slice \<Rightarrow> (ip_addr \<times> ip_addr \<times> u8) rust" where
  "lax_ip_triple net =
     (case net of
        Ipv4Slice s d p \<Rightarrow> Some (V4 s, V4 d, p)
      | Ipv6Slice s d p \<Rightarrow> Some (V6 s, V6 d, p)
      | ArpSlice _ \<Rightarrow> None)"

definition build_parsed :: "ip_addr \<times> ip_addr \<times> u8 \<Rightarrow> transport_slice option \<Rightarrow> usize \<Rightarrow> parsed_packet" where
  "build_parsed ip tslice len =
     (let (src, dst, ip_protocol) = ip;
          (proto, info) =
            (case tslice of
               Some (TcpSlice t) \<Rightarrow>
                 (Tcp, TcpInfo (ts_source_port t) (ts_destination_port t) (ts_sequence_number t)
                         (ts_syn t) (ts_ack t) (ts_fin t) (ts_rst t))
             | Some (UdpSlice sp dp _) \<Rightarrow> (Udp, UdpInfo sp dp)
             | Some Icmpv4Slice \<Rightarrow> (Icmp, NoTransport)
             | Some Icmpv6Slice \<Rightarrow> (Icmp, NoTransport)
             | None \<Rightarrow> (Other ip_protocol, NoTransport));
          body = (case tslice of Some (TcpSlice t) \<Rightarrow> ts_payload t | Some (UdpSlice _ _ b) \<Rightarrow> b | _ \<Rightarrow> [])
      in \<lparr>src_ip = src, dst_ip = dst, protocol = proto, transport = info, payload = body, packet_len = len\<rparr>)"

definition lax_parse :: "slicers \<Rightarrow> bytes \<Rightarrow> data_link \<Rightarrow> (decode_error + lax_sliced_packet) rust" where
  "lax_parse S data link =
     (let checked = (\<lambda>r. case r of Some l \<Rightarrow> Some (Inr l) | None \<Rightarrow> Some (Inl ParseError)) in
      case link of
        ETHERNET \<Rightarrow> checked (lax_from_ethernet S data)
      | RAW \<Rightarrow> checked (lax_from_ip S data)
      | IPV4 \<Rightarrow> checked (lax_from_ip S data)
      | IPV6 \<Rightarrow> checked (lax_from_ip S data)
      | LINUX_SLL \<Rightarrow>
          (case byte_slice data (sll_header_len - 2) sll_header_len of
             None \<Rightarrow> Some (Inl SllHeaderTruncated)
           | Some proto \<Rightarrow> do {
               body \<leftarrow> byte_slice data sll_header_len (length data);
               Some (Inr (lax_from_ether_type S (be16 (proto ! 0) (proto ! 1)) body))
             })
      | OtherDataLink \<Rightarrow> Some (Inl (UnsupportedLinkType OtherDataLink)))"

definition outer_mac :: "link_slice option \<Rightarrow> bytes option" where
  "outer_mac link = (case link of Some (Ethernet2 m) \<Rightarrow> Some m | _ \<Rightarrow> None)"

definition decode_arp :: "arp_packet_slice \<Rightarrow> link_slice option \<Rightarrow> usize \<Rightarrow> (decode_error + decoded_frame) rust" where
  "decode_arp arp link len = do {
     r \<leftarrow> extract_arp_frame arp (outer_mac link) len;
     Some (case r of Some f \<Rightarrow> Inr (ArpFrame f) | None \<Rightarrow> Inl NonEthernetIpv4Arp)
   }"

text \<open>The arms of \<open>decode_packet\<close> for a slice whose network layer is known, strict or lax.\<close>

definition decode_net ::
  "(net_slice \<Rightarrow> (ip_addr \<times> ip_addr \<times> u8) rust) \<Rightarrow> net_slice \<Rightarrow> link_slice option \<Rightarrow> transport_slice option \<Rightarrow> usize \<Rightarrow> (decode_error + decoded_frame) rust"
where
  "decode_net ip_triple net link tslice len =
     (case net of
        ArpSlice arp \<Rightarrow> decode_arp arp link len
      | _ \<Rightarrow> do { ip \<leftarrow> ip_triple net; Some (Inr (IpFrame (build_parsed ip tslice len))) })"

text \<open>\<open>iter().sum()\<close> over \<open>usize\<close>: additions from the left, each of which panics on overflow.\<close>

fun sum_usize :: "usize \<Rightarrow> usize list \<Rightarrow> usize rust" where
  "sum_usize acc [] = Some acc"
| "sum_usize acc (n # ns) = do { acc' \<leftarrow> add64 acc n; sum_usize acc' ns }"

text \<open>Where the ARP header starts, if the link layer tells.\<close>

definition arp_offset :: "lax_sliced_packet \<Rightarrow> usize option rust" where
  "arp_offset lax =
     (case sp_link lax of
        Some (Ethernet2 _) \<Rightarrow> do {
          link_exts_len \<leftarrow> sum_usize 0 (sp_link_ext_lens lax);
          offset \<leftarrow> add64 14 link_exts_len;
          Some (Some offset)
        }
      | _ \<Rightarrow> Some None)"

text \<open>The eight bytes of the fixed ARP header, if they can be found.\<close>

definition malformed_arp_header :: "bytes \<Rightarrow> lax_sliced_packet \<Rightarrow> bool rust" where
  "malformed_arp_header data lax = do {
     at \<leftarrow> arp_offset lax;
     (case at of
        None \<Rightarrow> Some False
      | Some offset \<Rightarrow> do {
          upto \<leftarrow> add64 offset 8;
          Some (case byte_slice data offset upto of
                  None \<Rightarrow> False
                | Some hdr \<Rightarrow>
                    be16 (hdr ! 0) (hdr ! 1) \<noteq> 0x0001 \<or> be16 (hdr ! 2) (hdr ! 3) \<noteq> 0x0800 \<or> hdr ! 4 \<noteq> 6 \<or> hdr ! 5 \<noteq> 4)
        })
   }"

definition decode_lax :: "bytes \<Rightarrow> lax_sliced_packet \<Rightarrow> (decode_error + decoded_frame) rust" where
  "decode_lax data lax =
     (case sp_net lax of
        Some net \<Rightarrow> decode_net lax_ip_triple net (sp_link lax) (sp_transport lax) (length data)
      | None \<Rightarrow>
          if sp_stop_err lax = Some ArpLayer
          then do {
            malformed \<leftarrow> malformed_arp_header data lax;
            Some (Inl (if malformed then NonEthernetIpv4Arp else TruncatedArp))
          }
          else Some (Inl NoIpLayer))"

definition strict_slice :: "slicers \<Rightarrow> bytes \<Rightarrow> data_link \<Rightarrow> decode_error + (slice_error + sliced_packet)" where
  "strict_slice S data link =
     (case link of
        ETHERNET \<Rightarrow> Inr (from_ethernet S data)
      | RAW \<Rightarrow> Inr (from_ip S data)
      | IPV4 \<Rightarrow> Inr (from_ip S data)
      | IPV6 \<Rightarrow> Inr (from_ip S data)
      | LINUX_SLL \<Rightarrow> Inr (from_linux_sll S data)
      | OtherDataLink \<Rightarrow> Inl (UnsupportedLinkType OtherDataLink))"

definition decode_packet :: "slicers \<Rightarrow> bytes \<Rightarrow> data_link \<Rightarrow> (decode_error + decoded_frame) rust" where
  "decode_packet S data link =
     (case strict_slice S data link of
        Inl e \<Rightarrow> Some (Inl e)
      | Inr (Inr sp) \<Rightarrow>
          (case sp_net sp of
             Some net \<Rightarrow> decode_net strict_ip_triple net (sp_link sp) (sp_transport sp) (length data)
           | None \<Rightarrow> Some (Inl NoIpLayer))
      | Inr (Inl LenError) \<Rightarrow> do {
          lax \<leftarrow> lax_parse S data link;
          (case lax of Inl e \<Rightarrow> Some (Inl e) | Inr l \<Rightarrow> decode_lax data l)
        }
      | Inr (Inl StructuralError) \<Rightarrow> Some (Inl ParseError))"

end
