(* ===== verification/Arp.thy ===== *)
theory Arp
  imports Decoder Containers
begin

text \<open>
  The ARP analyzer, \<open>src/analyzer/arp.rs\<close>: the table of IP-to-MAC bindings and the table of storm
  counters, both with eviction of the oldest entry, and the detectors D1 (rebind), D2
  (gratuitous ARP), D3 (storm), D11 (malformed) and D12 (sender mismatch). Addresses are
  the byte arrays of the source. The iteration order of each hash table, which decides between
  entries of the same age, comes from an arbitrary seed. A dash of the source's texts is
  written \<open>--\<close> and an arrow \<open>->\<close>.
\<close>

section \<open>State\<close>

definition max_arp_bindings :: usize where "max_arp_bindings = 65536"
definition spoof_rebind_escalation_default :: u32 where "spoof_rebind_escalation_default = 3"
definition arp_flap_window_secs :: u32 where "arp_flap_window_secs = 60"
definition arp_storm_rate_default :: u32 where "arp_storm_rate_default = 50"
definition max_storm_counters :: usize where "max_storm_counters = 4096"

record binding_entry =
  be_mac :: bytes
  be_rebind_count :: u32
  be_first_rebind_ts :: "u32 option"
  be_spoof_high_emitted :: bool
  be_last_seen_ts :: u32

record storm_counter =
  sc_count_in_window :: u64
  sc_window_start_ts :: u32
  sc_storm_emitted :: bool

record arp_analyzer =
  aa_bindings :: "(bytes, binding_entry) hash_map"
  aa_storm_counters :: "(bytes, storm_counter) hash_map"
  aa_spoof_threshold :: u32
  aa_storm_rate :: u32
  aa_frames_analyzed :: u64
  aa_request_count :: u64
  aa_reply_count :: u64
  aa_other_opcode_count :: u64
  aa_spoof_findings :: u64
  aa_garp_findings :: u64
  aa_storm_findings :: u64
  aa_mismatch_findings :: u64
  aa_malformed_findings :: u64
  aa_malformed_frames :: u64
  aa_bindings_evicted :: u64
  aa_storm_counters_evicted :: u64
  aa_binding_seed :: "bytes hash_seed"
  aa_storm_seed :: "bytes hash_seed"

definition arp_analyzer_new :: "bytes hash_seed \<Rightarrow> bytes hash_seed \<Rightarrow> u32 \<Rightarrow> u32 \<Rightarrow> arp_analyzer" where
  "arp_analyzer_new bseed sseed spoof storm =
     \<lparr>aa_bindings = [], aa_storm_counters = [], aa_spoof_threshold = spoof, aa_storm_rate = storm,
      aa_frames_analyzed = 0, aa_request_count = 0, aa_reply_count = 0, aa_other_opcode_count = 0,
      aa_spoof_findings = 0, aa_garp_findings = 0, aa_storm_findings = 0, aa_mismatch_findings = 0,
      aa_malformed_findings = 0, aa_malformed_frames = 0, aa_bindings_evicted = 0, aa_storm_counters_evicted = 0,
      aa_binding_seed = bseed, aa_storm_seed = sseed\<rparr>"

definition arp_analyzer_default :: "bytes hash_seed \<Rightarrow> bytes hash_seed \<Rightarrow> arp_analyzer" where
  "arp_analyzer_default bseed sseed = arp_analyzer_new bseed sseed spoof_rebind_escalation_default arp_storm_rate_default"

section \<open>Tables\<close>

definition is_gratuitous_arp :: "arp_frame \<Rightarrow> bool" where
  "is_gratuitous_arp frame = (sender_ip frame = target_ip frame)"

text \<open>\<open>Iterator::min_by_key\<close>: the first of the smallest.\<close>

fun min_by_key :: "('a \<Rightarrow> 'k::linorder) \<Rightarrow> 'a list \<Rightarrow> 'a option" where
  "min_by_key f [] = None"
| "min_by_key f (x # xs) = (case min_by_key f xs of None \<Rightarrow> Some x | Some y \<Rightarrow> Some (if f y < f x then y else x))"

definition new_binding :: "bytes \<Rightarrow> binding_entry" where
  "new_binding mac = \<lparr>be_mac = mac, be_rebind_count = 0, be_first_rebind_ts = None, be_spoof_high_emitted = False, be_last_seen_ts = 0\<rparr>"

definition evict_oldest :: "('v \<Rightarrow> u32) \<Rightarrow> 'k hash_seed \<Rightarrow> ('k, 'v) hash_map \<Rightarrow> ('k, 'v) hash_map" where
  "evict_oldest age seed m = (case min_by_key (\<lambda>e. age (snd e)) (hm_iter seed m) of None \<Rightarrow> m | Some e \<Rightarrow> hm_remove (fst e) m)"

definition insert_binding_lru ::
  "bytes hash_seed \<Rightarrow> (bytes, binding_entry) hash_map \<Rightarrow> bytes \<Rightarrow> bytes \<Rightarrow> usize \<Rightarrow> (bytes, binding_entry) hash_map \<times> bool"
where
  "insert_binding_lru seed bindings ip mac cap =
     (case hm_get bindings ip of
        Some entry \<Rightarrow> (hm_insert ip (entry\<lparr>be_mac := mac\<rparr>) bindings, False)
      | None \<Rightarrow>
          if cap \<le> length bindings
          then (hm_insert ip (new_binding mac) (evict_oldest be_last_seen_ts seed bindings), True)
          else (hm_insert ip (new_binding mac) bindings, False))"

section \<open>Findings\<close>

definition arp_finding :: "verdict \<Rightarrow> confidence \<Rightarrow> flow_key fmt \<Rightarrow> flow_key fmt list \<Rightarrow> string list \<Rightarrow> finding" where
  "arp_finding v c summ ev techniques =
     \<lparr>category = Anomaly, verdict = v, confidence = c, summary = summ, evidence = ev, mitre_techniques = techniques,
      source_ip = None, timestamp = None, direction = None\<rparr>"

abbreviation spoof_techniques :: "string list" where
  "spoof_techniques \<equiv> [''T0830'', ''T1557.002'']"

definition mismatch_finding :: "arp_frame \<Rightarrow> bytes \<Rightarrow> finding" where
  "mismatch_finding frame eth_mac =
     arp_finding Possible Medium
       [Lit ''D12: L2/L3 sender-MAC mismatch -- Ethernet src MAC differs from ARP sender HW addr'']
       [[Lit ''eth_src_mac='', Mac eth_mac], [Lit ''arp_sender_mac='', Mac (sender_mac frame)],
        [Lit ''sender_ip='', Octets (sender_ip frame)]] spoof_techniques"

definition garp_finding :: "flow_key fmt \<Rightarrow> arp_frame \<Rightarrow> finding" where
  "garp_finding summ frame =
     arp_finding Possible Low summ
       [[Lit ''sender_ip='', Octets (sender_ip frame)], [Lit ''operation='', Dec (unat (operation frame))]] []"

definition d1_finding :: "confidence \<Rightarrow> bytes \<Rightarrow> bytes \<Rightarrow> bytes \<Rightarrow> finding" where
  "d1_finding c ip old_mac new_mac =
     arp_finding (if c = High then Likely else Possible) c
       [Lit ''D1: ARP Spoof -- IP->MAC rebind detected for sender_ip='', Octets ip]
       [[Lit ''sender_ip='', Octets ip], [Lit ''old_mac='', Mac old_mac], [Lit ''new_mac='', Mac new_mac]] spoof_techniques"

definition storm_finding :: "bytes \<Rightarrow> u64 \<Rightarrow> u32 \<Rightarrow> u64 \<Rightarrow> finding" where
  "storm_finding mac frame_count window_secs rate_pps =
     arp_finding Possible Medium
       [Lit ''D3: ARP storm detected -- high ARP frame rate from source MAC '', Mac mac]
       [[Lit ''source_mac='', Mac mac], [Lit ''frame_count='', Dec frame_count],
        [Lit ''window_secs='', Dec (unat window_secs)], [Lit ''rate_pps='', Dec rate_pps]] []"

definition malformed_arp_finding :: "usize \<Rightarrow> finding" where
  "malformed_arp_finding len =
     arp_finding Possible Low
       [Lit ''D11: Malformed ARP frame -- Non-Ethernet/IPv4 ARP frame (non-standard HW/proto address sizes or types)'']
       [[Lit ''Non-Ethernet/IPv4 ARP frame''], [Lit ''packet_len='', Dec len]] []"

section \<open>D1: rebinds\<close>

definition expire_flap_window :: "u32 \<Rightarrow> binding_entry \<Rightarrow> binding_entry" where
  "expire_flap_window now entry =
     (case be_first_rebind_ts entry of
        Some first_ts \<Rightarrow>
          if sat_subw now first_ts > arp_flap_window_secs
          then entry\<lparr>be_rebind_count := 0, be_first_rebind_ts := None, be_spoof_high_emitted := False\<rparr>
          else entry
      | None \<Rightarrow> entry)"

definition emit_d1_spoof_finding_impl ::
  "binding_entry \<Rightarrow> bytes \<Rightarrow> bytes \<Rightarrow> bytes \<Rightarrow> u32 \<Rightarrow> u32 \<Rightarrow> (binding_entry \<times> finding) rust"
where
  "emit_d1_spoof_finding_impl entry ip old_mac new_mac now spoof_threshold = do {
     let e0 = expire_flap_window now entry;
     let e1 = e0\<lparr>be_rebind_count := sat_addw (be_rebind_count e0) 1\<rparr>;
     let e2 = (if be_first_rebind_ts e1 = None then e1\<lparr>be_first_rebind_ts := Some now\<rparr> else e1);
     first_ts \<leftarrow> be_first_rebind_ts e2;
     let elapsed = sat_subw now first_ts;
     let high = (be_rebind_count e2 \<ge> spoof_threshold \<and> elapsed \<le> arp_flap_window_secs \<and> \<not> be_spoof_high_emitted e2);
     Some (if high then (e2\<lparr>be_spoof_high_emitted := True\<rparr>, d1_finding High ip old_mac new_mac)
           else (e2, d1_finding Medium ip old_mac new_mac))
   }"

definition apply_garp_conflict_escalation_impl ::
  "binding_entry \<Rightarrow> finding \<Rightarrow> bytes \<Rightarrow> bytes \<Rightarrow> u32 \<Rightarrow> u32 \<Rightarrow> (binding_entry \<times> finding \<times> finding) rust"
where
  "apply_garp_conflict_escalation_impl entry garp_low ip new_mac now spoof_threshold = do {
     let upgraded = garp_low\<lparr>confidence := Medium, mitre_techniques := spoof_techniques\<rparr>;
     let old_mac = be_mac entry;
     (entry1, d1) \<leftarrow> emit_d1_spoof_finding_impl entry ip old_mac new_mac now spoof_threshold;
     Some (entry1, upgraded, d1)
   }"

section \<open>D3: storms\<close>

definition insert_storm_counter_lru :: "bytes \<Rightarrow> u32 \<Rightarrow> arp_analyzer \<Rightarrow> arp_analyzer" where
  "insert_storm_counter_lru mac now a =
     (let a1 = (if hm_get (aa_storm_counters a) mac = None \<and> max_storm_counters \<le> length (aa_storm_counters a)
                then a\<lparr>aa_storm_counters := evict_oldest sc_window_start_ts (aa_storm_seed a) (aa_storm_counters a),
                       aa_storm_counters_evicted := sat_add64 (aa_storm_counters_evicted a) 1\<rparr>
                else a)
      in a1\<lparr>aa_storm_counters := hm_insert mac \<lparr>sc_count_in_window = 1, sc_window_start_ts = now, sc_storm_emitted = False\<rparr>
                                   (aa_storm_counters a1)\<rparr>)"

definition detect_storm :: "bytes \<Rightarrow> u32 \<Rightarrow> arp_analyzer \<Rightarrow> arp_analyzer \<times> finding option" where
  "detect_storm mac now a =
     (let in_window = (case hm_get (aa_storm_counters a) mac of
                         Some e \<Rightarrow> sat_subw now (sc_window_start_ts e) \<le> arp_flap_window_secs
                       | None \<Rightarrow> False);
          a1 = (if \<not> in_window then insert_storm_counter_lru mac now a
                else case hm_get (aa_storm_counters a) mac of
                       Some e \<Rightarrow> a\<lparr>aa_storm_counters :=
                          hm_insert mac (e\<lparr>sc_count_in_window := sat_add64 (sc_count_in_window e) 1\<rparr>) (aa_storm_counters a)\<rparr>
                     | None \<Rightarrow> a)
      in case hm_get (aa_storm_counters a1) mac of
           None \<Rightarrow> (a1, None)
         | Some entry \<Rightarrow>
             let elapsed = sat_subw now (sc_window_start_ts entry);
                 rate = sc_count_in_window entry div unat (max elapsed 1)
             in if rate \<ge> unat (aa_storm_rate a1) \<and> \<not> sc_storm_emitted entry
                then (a1\<lparr>aa_storm_counters := hm_insert mac (entry\<lparr>sc_storm_emitted := True\<rparr>) (aa_storm_counters a1)\<rparr>,
                      Some (storm_finding mac (sc_count_in_window entry) elapsed rate))
                else (a1, None))"

section \<open>Frames\<close>

definition count_opcode :: "arp_frame \<Rightarrow> arp_analyzer \<Rightarrow> arp_analyzer" where
  "count_opcode frame a =
     (let a1 = a\<lparr>aa_frames_analyzed := sat_add64 (aa_frames_analyzed a) 1\<rparr> in
      if operation frame = 1 then a1\<lparr>aa_request_count := sat_add64 (aa_request_count a1) 1\<rparr>
      else if operation frame = 2 then a1\<lparr>aa_reply_count := sat_add64 (aa_reply_count a1) 1\<rparr>
      else a1\<lparr>aa_other_opcode_count := sat_add64 (aa_other_opcode_count a1) 1\<rparr>)"

definition check_mismatch :: "arp_frame \<Rightarrow> arp_analyzer \<Rightarrow> arp_analyzer \<times> finding list" where
  "check_mismatch frame a =
     (case outer_src_mac frame of
        Some eth_mac \<Rightarrow>
          if eth_mac \<noteq> sender_mac frame
          then (a\<lparr>aa_mismatch_findings := sat_add64 (aa_mismatch_findings a) 1\<rparr>, [mismatch_finding frame eth_mac])
          else (a, [])
      | None \<Rightarrow> (a, []))"

definition check_storm :: "arp_frame \<Rightarrow> u32 \<Rightarrow> arp_analyzer \<Rightarrow> arp_analyzer \<times> finding list" where
  "check_storm frame now a =
     (case detect_storm (sender_mac frame) now a of
        (a1, Some f) \<Rightarrow> (a1\<lparr>aa_storm_findings := sat_add64 (aa_storm_findings a1) 1\<rparr>, [f])
      | (a1, None) \<Rightarrow> (a1, []))"

text \<open>Insertion of a new binding with its counter of evictions.\<close>

definition add_binding :: "bytes \<Rightarrow> bytes \<Rightarrow> arp_analyzer \<Rightarrow> arp_analyzer" where
  "add_binding ip mac a =
     (let (m, evicted) = insert_binding_lru (aa_binding_seed a) (aa_bindings a) ip mac max_arp_bindings;
          a1 = a\<lparr>aa_bindings := m\<rparr>
      in if evicted then a1\<lparr>aa_bindings_evicted := sat_add64 (aa_bindings_evicted a1) 1\<rparr> else a1)"

text \<open>\<open>if let Some(entry) = self.bindings.get_mut(&ip) {..}\<close>.\<close>

definition update_binding :: "bytes \<Rightarrow> (binding_entry \<Rightarrow> binding_entry) \<Rightarrow> arp_analyzer \<Rightarrow> arp_analyzer" where
  "update_binding ip g a =
     (case hm_get (aa_bindings a) ip of
        Some e \<Rightarrow> a\<lparr>aa_bindings := hm_insert ip (g e) (aa_bindings a)\<rparr>
      | None \<Rightarrow> a)"

definition conflicting_garp :: "arp_frame \<Rightarrow> u32 \<Rightarrow> arp_analyzer \<Rightarrow> (arp_analyzer \<times> finding list) rust" where
  "conflicting_garp frame now a = do {
     let garp_low = garp_finding
       [Lit ''D2: Gratuitous ARP (GARP) with binding conflict -- sender_ip equals target_ip and conflicts with an existing IP->MAC binding''] frame;
     entry \<leftarrow> hm_get (aa_bindings a) (sender_ip frame);
     (entry1, upgraded, d1) \<leftarrow>
       apply_garp_conflict_escalation_impl entry garp_low (sender_ip frame) (sender_mac frame) now (aa_spoof_threshold a);
     let a1 = a\<lparr>aa_bindings := hm_insert (sender_ip frame) entry1 (aa_bindings a),
                aa_garp_findings := sat_add64 (aa_garp_findings a) 1, aa_spoof_findings := sat_add64 (aa_spoof_findings a) 1\<rparr>;
     entry2 \<leftarrow> hm_get (aa_bindings a1) (sender_ip frame);
     Some (a1\<lparr>aa_bindings := hm_insert (sender_ip frame) (entry2\<lparr>be_last_seen_ts := now, be_mac := sender_mac frame\<rparr>) (aa_bindings a1)\<rparr>,
           [upgraded, d1])
   }"

definition benign_garp :: "arp_frame \<Rightarrow> u32 \<Rightarrow> arp_analyzer \<Rightarrow> arp_analyzer \<times> finding list" where
  "benign_garp frame now a =
     (let a1 = a\<lparr>aa_garp_findings := sat_add64 (aa_garp_findings a) 1\<rparr>;
          a2 = (if hm_get (aa_bindings a1) (sender_ip frame) = None then add_binding (sender_ip frame) (sender_mac frame) a1 else a1)
      in (update_binding (sender_ip frame) (\<lambda>e. e\<lparr>be_last_seen_ts := now, be_mac := sender_mac frame\<rparr>) a2,
          [garp_finding [Lit ''D2: Gratuitous ARP (GARP) -- sender_ip equals target_ip''] frame]))"

definition has_conflict :: "arp_frame \<Rightarrow> arp_analyzer \<Rightarrow> bool" where
  "has_conflict frame a =
     (case hm_get (aa_bindings a) (sender_ip frame) of Some e \<Rightarrow> be_mac e \<noteq> sender_mac frame | None \<Rightarrow> False)"

definition plain_arp :: "arp_frame \<Rightarrow> u32 \<Rightarrow> arp_analyzer \<Rightarrow> (arp_analyzer \<times> finding list) rust" where
  "plain_arp frame now a =
     (case hm_get (aa_bindings a) (sender_ip frame) of
        Some entry \<Rightarrow>
          (let e0 = entry\<lparr>be_last_seen_ts := now\<rparr>;
               a0 = a\<lparr>aa_bindings := hm_insert (sender_ip frame) e0 (aa_bindings a)\<rparr>
           in if be_mac e0 \<noteq> sender_mac frame
              then do {
                (e1, d1) \<leftarrow> emit_d1_spoof_finding_impl e0 (sender_ip frame) (be_mac e0) (sender_mac frame) now (aa_spoof_threshold a0);
                let a1 = a0\<lparr>aa_bindings := hm_insert (sender_ip frame) e1 (aa_bindings a0),
                            aa_spoof_findings := sat_add64 (aa_spoof_findings a0) 1\<rparr>;
                e2 \<leftarrow> hm_get (aa_bindings a1) (sender_ip frame);
                Some (a1\<lparr>aa_bindings := hm_insert (sender_ip frame) (e2\<lparr>be_mac := sender_mac frame\<rparr>) (aa_bindings a1)\<rparr>, [d1])
              }
              else Some (a0, []))
      | None \<Rightarrow>
          Some (update_binding (sender_ip frame) (\<lambda>e. e\<lparr>be_last_seen_ts := now\<rparr>)
                  (add_binding (sender_ip frame) (sender_mac frame) a), []))"

definition process_arp :: "arp_analyzer \<Rightarrow> arp_frame \<Rightarrow> u32 \<Rightarrow> (arp_analyzer \<times> finding list) rust" where
  "process_arp a frame now =
     (let a0 = count_opcode frame a in
      if sender_ip frame = [0, 0, 0, 0] \<or> sender_ip frame = [255, 255, 255, 255] then Some (a0, [])
      else let (a1, l1) = check_mismatch frame a0;
               (a2, l2) = check_storm frame now a1
        in do {
          (a3, l3) \<leftarrow> (if is_gratuitous_arp frame
                      then (if has_conflict frame a2 then conflicting_garp frame now a2 else Some (benign_garp frame now a2))
                      else plain_arp frame now a2);
          Some (a3, l1 @ l2 @ l3)
        })"

definition record_malformed :: "arp_analyzer \<Rightarrow> usize \<Rightarrow> arp_analyzer \<times> finding list" where
  "record_malformed a len =
     (a\<lparr>aa_malformed_frames := sat_add64 (aa_malformed_frames a) 1, aa_malformed_findings := sat_add64 (aa_malformed_findings a) 1\<rparr>,
      [malformed_arp_finding len])"

definition arp_summarize :: "arp_analyzer \<Rightarrow> analysis_summary" where
  "arp_summarize a =
     \<lparr>analyzer_name = ''ARP'', packets_analyzed = aa_frames_analyzed a,
      detail = [''frames_analyzed'' \<mapsto> Num (aa_frames_analyzed a), ''request_count'' \<mapsto> Num (aa_request_count a),
        ''reply_count'' \<mapsto> Num (aa_reply_count a), ''other_opcode_count'' \<mapsto> Num (aa_other_opcode_count a),
        ''bindings_tracked'' \<mapsto> Num (length (aa_bindings a)), ''spoof_findings'' \<mapsto> Num (aa_spoof_findings a),
        ''garp_findings'' \<mapsto> Num (aa_garp_findings a), ''storm_findings'' \<mapsto> Num (aa_storm_findings a),
        ''mismatch_findings'' \<mapsto> Num (aa_mismatch_findings a), ''malformed_findings'' \<mapsto> Num (aa_malformed_findings a),
        ''malformed_frames'' \<mapsto> Num (aa_malformed_frames a), ''bindings_evicted'' \<mapsto> Num (aa_bindings_evicted a),
        ''storm_counters_evicted'' \<mapsto> Num (aa_storm_counters_evicted a)]\<rparr>"

end
