(* ===== verification/Arp_Inv.thy ===== *)
theory Arp_Inv
  imports Arp
begin

text \<open>
  The invariant of the ARP analyzer: both tables are maps within their caps, and an eviction
  removes one entry of the smallest age. What a frame does to the two tables is
  stated by total functions, with every \<open>expect\<close> of the source discharged.
\<close>

section \<open>Eviction\<close>

lemma min_by_key_None: "min_by_key f xs = None \<longleftrightarrow> xs = []"
  by (cases xs) (auto split: option.splits)

lemma min_by_key_Some: "min_by_key f xs = Some x \<Longrightarrow> x \<in> set xs \<and> (\<forall>y \<in> set xs. f x \<le> f y)"
proof (induction xs arbitrary: x)
  case (Cons a xs)
  show ?case
  proof (cases "min_by_key f xs")
    case None
    then show ?thesis using Cons.prems by (simp add: min_by_key_None)
  next
    case (Some y)
    from Cons.IH [OF this] have y: "y \<in> set xs" "\<forall>z \<in> set xs. f y \<le> f z" by simp_all
    show ?thesis
    proof (cases "f y < f a")
      case True
      then show ?thesis using Cons.prems Some y by auto
    next
      case False
      then show ?thesis using Cons.prems Some y by (auto intro: order_trans)
    qed
  qed
qed simp

lemma evict_oldest_cases:
  assumes "hm_ok m" and "m \<noteq> []"
  obtains k v where "hm_get m k = Some v" "\<forall>k' v'. hm_get m k' = Some v' \<longrightarrow> age v \<le> age v'"
    "evict_oldest age seed m = hm_remove k m" "length (evict_oldest age seed m) = length m - 1"
proof -
  have "hm_iter seed m \<noteq> []" using assms(2) by (metis mset_hm_iter mset_zero_iff)
  then obtain e where e: "min_by_key (\<lambda>e. age (snd e)) (hm_iter seed m) = Some e"
    by (cases "min_by_key (\<lambda>e. age (snd e)) (hm_iter seed m)") (simp_all add: min_by_key_None)
  from min_by_key_Some [OF this] have "e \<in> set m" and least: "\<forall>y \<in> set m. age (snd e) \<le> age (snd y)" by simp_all
  then have get: "hm_get m (fst e) = Some (snd e)" using assms(1) by (simp add: hm_get_def hm_ok_def)
  have "\<forall>k' v'. hm_get m k' = Some v' \<longrightarrow> age (snd e) \<le> age v'" using least by (force simp: hm_get_def dest: map_of_SomeD)
  then show ?thesis using that [OF get] e get hmap.size_remove [OF assms(1), of "fst e"] by (simp add: evict_oldest_def)
qed

lemma evict_oldest_ok: "hm_ok m \<Longrightarrow> hm_ok (evict_oldest age seed m)"
  by (auto simp: evict_oldest_def hm_ok_remove split: option.splits)

section \<open>The invariant\<close>

definition arp_ok :: "arp_analyzer \<Rightarrow> bool" where
  "arp_ok a \<longleftrightarrow>
     hm_ok (aa_bindings a) \<and> length (aa_bindings a) \<le> max_arp_bindings \<and>
     hm_ok (aa_storm_counters a) \<and> length (aa_storm_counters a) \<le> max_storm_counters"

lemma arp_new_ok: "arp_ok (arp_analyzer_new bseed sseed spoof storm)"
  by (simp add: arp_ok_def arp_analyzer_new_def)

lemma hm_insert_present: "hm_ok m \<Longrightarrow> hm_get m k \<noteq> None \<Longrightarrow> length (hm_insert k v m) = length m"
  by (simp add: hmap.size_put)

text \<open>The table after a new binding.\<close>

definition bound :: "arp_analyzer \<Rightarrow> bytes \<Rightarrow> binding_entry option" where
  "bound a ip = hm_get (aa_bindings a) ip"

lemma insert_binding_new:
  assumes "hm_ok m" and "length m \<le> cap" and "0 < cap" and "hm_get m ip = None"
  obtains m1 where "insert_binding_lru seed m ip mac cap = (hm_insert ip (new_binding mac) m1, length m = cap)"
    "hm_ok m1" "length (hm_insert ip (new_binding mac) m1) \<le> cap" "hm_get m1 ip = None"
    "length m < cap \<Longrightarrow> m1 = m"
    "length m = cap \<Longrightarrow> \<exists>k v. m1 = hm_remove k m \<and> hm_get m k = Some v \<and> (\<forall>k' v'. hm_get m k' = Some v' \<longrightarrow> be_last_seen_ts v \<le> be_last_seen_ts v')"
proof (cases "length m = cap")
  case True
  then have "m \<noteq> []" using assms(3) by auto
  then obtain k v where e: "hm_get m k = Some v" "\<forall>k' v'. hm_get m k' = Some v' \<longrightarrow> be_last_seen_ts v \<le> be_last_seen_ts v'"
    "evict_oldest be_last_seen_ts seed m = hm_remove k m" "length (evict_oldest be_last_seen_ts seed m) = length m - 1"
    using evict_oldest_cases [OF assms(1)] by metis
  let ?m1 = "hm_remove k m"
  have "hm_ok ?m1" using assms(1) by (rule hm_ok_remove)
  moreover have "length (hm_insert ip (new_binding mac) ?m1) \<le> cap"
    using hmap.size_put [OF \<open>hm_ok ?m1\<close>, of ip "new_binding mac"] e(3,4) True assms(3) by (simp split: if_splits)
  moreover have "insert_binding_lru seed m ip mac cap = (hm_insert ip (new_binding mac) ?m1, length m = cap)"
    using assms(4) True e(3) by (simp add: insert_binding_lru_def)
  moreover have "hm_get ?m1 ip = None" using assms(4) by simp
  ultimately show ?thesis using that [of ?m1] True e(1,2) by blast
next
  case False
  then show ?thesis using that [of m] assms hmap.size_put [OF assms(1), of ip "new_binding mac"] by (simp add: insert_binding_lru_def)
qed

section \<open>Storm counters\<close>

text \<open>The counter of a frame's sender, before its rate is looked at.\<close>

definition storm_count :: "u32 \<Rightarrow> storm_counter option \<Rightarrow> storm_counter" where
  "storm_count now c =
     (case c of
        Some e \<Rightarrow> if sat_subw now (sc_window_start_ts e) \<le> arp_flap_window_secs
                  then e\<lparr>sc_count_in_window := sat_add64 (sc_count_in_window e) 1\<rparr>
                  else \<lparr>sc_count_in_window = 1, sc_window_start_ts = now, sc_storm_emitted = False\<rparr>
      | None \<Rightarrow> \<lparr>sc_count_in_window = 1, sc_window_start_ts = now, sc_storm_emitted = False\<rparr>)"

definition storm_rate_of :: "u32 \<Rightarrow> storm_counter \<Rightarrow> nat" where
  "storm_rate_of now e = sc_count_in_window e div unat (max (sat_subw now (sc_window_start_ts e)) 1)"

definition storm_due :: "u32 \<Rightarrow> u32 \<Rightarrow> storm_counter \<Rightarrow> bool" where
  "storm_due rate now e \<longleftrightarrow> unat rate \<le> storm_rate_of now e \<and> \<not> sc_storm_emitted e"

definition storm_after :: "u32 \<Rightarrow> u32 \<Rightarrow> storm_counter option \<Rightarrow> storm_counter" where
  "storm_after rate now c =
     (let e = storm_count now c in if storm_due rate now e then e\<lparr>sc_storm_emitted := True\<rparr> else e)"

definition storm_report :: "u32 \<Rightarrow> bytes \<Rightarrow> u32 \<Rightarrow> storm_counter option \<Rightarrow> finding option" where
  "storm_report rate mac now c =
     (let e = storm_count now c in
      if storm_due rate now e
      then Some (storm_finding mac (sc_count_in_window e) (sat_subw now (sc_window_start_ts e)) (storm_rate_of now e)) else None)"

text \<open>A change of the storm table only.\<close>

definition storm_only :: "arp_analyzer \<Rightarrow> arp_analyzer \<Rightarrow> bool" where
  "storm_only a a' \<longleftrightarrow> aa_bindings a' = aa_bindings a \<and> aa_storm_rate a' = aa_storm_rate a \<and> aa_spoof_threshold a' = aa_spoof_threshold a"

lemma insert_storm_ok:
  assumes "hm_ok (aa_storm_counters a)" and "length (aa_storm_counters a) \<le> max_storm_counters"
  shows "hm_ok (aa_storm_counters (insert_storm_counter_lru mac now a))"
    and "length (aa_storm_counters (insert_storm_counter_lru mac now a)) \<le> max_storm_counters"
    and "hm_get (aa_storm_counters (insert_storm_counter_lru mac now a)) mac
       = Some \<lparr>sc_count_in_window = 1, sc_window_start_ts = now, sc_storm_emitted = False\<rparr>"
    and "storm_only a (insert_storm_counter_lru mac now a)"
proof -
  let ?m = "aa_storm_counters a" and ?new = "\<lparr>sc_count_in_window = 1, sc_window_start_ts = now, sc_storm_emitted = False\<rparr>"
  show "hm_get (aa_storm_counters (insert_storm_counter_lru mac now a)) mac = Some ?new"
    and "storm_only a (insert_storm_counter_lru mac now a)"
    by (simp_all add: insert_storm_counter_lru_def storm_only_def Let_def)
  show "hm_ok (aa_storm_counters (insert_storm_counter_lru mac now a))"
    using assms(1) by (simp add: insert_storm_counter_lru_def Let_def hm_ok_insert evict_oldest_ok)
  show "length (aa_storm_counters (insert_storm_counter_lru mac now a)) \<le> max_storm_counters"
  proof (cases "hm_get ?m mac = None \<and> max_storm_counters \<le> length ?m")
    case True
    then have "?m \<noteq> []" by (auto simp: max_storm_counters_def)
    then have "length (evict_oldest sc_window_start_ts (aa_storm_seed a) ?m) = length ?m - 1"
      using evict_oldest_cases [OF assms(1)] by metis
    then show ?thesis
      using True assms hmap.size_put [OF evict_oldest_ok [OF assms(1)], of mac ?new sc_window_start_ts "aa_storm_seed a"]
      by (simp add: insert_storm_counter_lru_def max_storm_counters_def split: if_splits)
  next
    case False
    then show ?thesis using assms hmap.size_put [OF assms(1), of mac ?new] by (auto simp: insert_storm_counter_lru_def)
  qed
qed

lemma detect_storm_total:
  assumes "hm_ok (aa_storm_counters a)" and "length (aa_storm_counters a) \<le> max_storm_counters"
  obtains a' where "detect_storm mac now a = (a', storm_report (aa_storm_rate a) mac now (hm_get (aa_storm_counters a) mac))"
    "hm_ok (aa_storm_counters a')" "length (aa_storm_counters a') \<le> max_storm_counters"
    "hm_get (aa_storm_counters a') mac = Some (storm_after (aa_storm_rate a) now (hm_get (aa_storm_counters a) mac))"
    "storm_only a a'"
proof -
  let ?c = "hm_get (aa_storm_counters a) mac"
  let ?e = "storm_count now ?c"
  define a1 where "a1 = (if case ?c of Some e \<Rightarrow> sat_subw now (sc_window_start_ts e) \<le> arp_flap_window_secs | None \<Rightarrow> False
      then a\<lparr>aa_storm_counters := hm_insert mac ?e (aa_storm_counters a)\<rparr> else insert_storm_counter_lru mac now a)"
  have a1: "hm_ok (aa_storm_counters a1)" "length (aa_storm_counters a1) \<le> max_storm_counters"
      "hm_get (aa_storm_counters a1) mac = Some ?e" "storm_only a a1"
    using assms insert_storm_ok [OF assms, of mac now]
    by (auto simp: a1_def storm_count_def storm_only_def hm_ok_insert hm_insert_present split: option.splits if_splits)
  define a2 where "a2 = (if storm_due (aa_storm_rate a) now ?e
      then a1\<lparr>aa_storm_counters := hm_insert mac (?e\<lparr>sc_storm_emitted := True\<rparr>) (aa_storm_counters a1)\<rparr> else a1)"
  have "detect_storm mac now a = (a2, storm_report (aa_storm_rate a) mac now ?c)"
  proof -
    have phase: "(if \<not> (case ?c of Some e \<Rightarrow> sat_subw now (sc_window_start_ts e) \<le> arp_flap_window_secs | None \<Rightarrow> False)
        then insert_storm_counter_lru mac now a
        else case ?c of
               Some e \<Rightarrow> a\<lparr>aa_storm_counters :=
                 hm_insert mac (e\<lparr>sc_count_in_window := sat_add64 (sc_count_in_window e) 1\<rparr>) (aa_storm_counters a)\<rparr>
             | None \<Rightarrow> a) = a1"
      by (cases ?c) (auto simp: a1_def storm_count_def)
    have "detect_storm mac now a =
       (case hm_get (aa_storm_counters a1) mac of
           None \<Rightarrow> (a1, None)
         | Some entry \<Rightarrow>
             let elapsed = sat_subw now (sc_window_start_ts entry);
                 rate = sc_count_in_window entry div unat (max elapsed 1)
             in if rate \<ge> unat (aa_storm_rate a1) \<and> \<not> sc_storm_emitted entry
                then (a1\<lparr>aa_storm_counters := hm_insert mac (entry\<lparr>sc_storm_emitted := True\<rparr>) (aa_storm_counters a1)\<rparr>,
                      Some (storm_finding mac (sc_count_in_window entry) elapsed rate))
                else (a1, None))"
      by (simp only: detect_storm_def Let_def phase)
    then show ?thesis using a1
      by (simp add: a2_def storm_report_def storm_due_def storm_rate_of_def storm_only_def Let_def)
  qed
  moreover have "hm_ok (aa_storm_counters a2)" "length (aa_storm_counters a2) \<le> max_storm_counters"
      "hm_get (aa_storm_counters a2) mac = Some (storm_after (aa_storm_rate a) now ?c)" "storm_only a a2"
    using a1 by (simp_all add: a2_def storm_after_def storm_only_def hm_ok_insert hm_insert_present)
  ultimately show ?thesis using that by blast
qed

section \<open>Rebinds\<close>

text \<open>A rebind of an entry, and whether it is reported with high confidence.\<close>

definition rebound :: "u32 \<Rightarrow> u32 \<Rightarrow> binding_entry \<Rightarrow> binding_entry \<times> bool" where
  "rebound now thr entry =
     (let e0 = expire_flap_window now entry;
          e1 = e0\<lparr>be_rebind_count := sat_addw (be_rebind_count e0) 1,
                  be_first_rebind_ts := Some (case be_first_rebind_ts e0 of Some t \<Rightarrow> t | None \<Rightarrow> now)\<rparr>;
          high = (thr \<le> be_rebind_count e1 \<and> \<not> be_spoof_high_emitted e1)
      in (e1\<lparr>be_spoof_high_emitted := be_spoof_high_emitted e1 \<or> high\<rparr>, high))"

lemma expire_elapsed:
  "be_first_rebind_ts (expire_flap_window now e) = Some t \<Longrightarrow> sat_subw now t \<le> arp_flap_window_secs"
  by (auto simp: expire_flap_window_def not_less split: option.splits if_splits)

lemma sat_subw_self [simp]: "sat_subw (w :: 'a::len word) w = 0"
  by (simp add: sat_subw_def)

lemma emit_d1_total:
  "emit_d1_spoof_finding_impl entry ip old_mac new_mac now thr =
     Some (fst (rebound now thr entry), d1_finding (if snd (rebound now thr entry) then High else Medium) ip old_mac new_mac)"
proof (cases "be_first_rebind_ts (expire_flap_window now entry)")
  case None
  then show ?thesis
    by (cases "expire_flap_window now entry") (auto simp: emit_d1_spoof_finding_impl_def rebound_def Let_def)
next
  case (Some t)
  then show ?thesis using expire_elapsed [OF Some]
    by (cases "expire_flap_window now entry") (auto simp: emit_d1_spoof_finding_impl_def rebound_def Let_def)
qed

lemma same_mac: "be_mac e = m \<Longrightarrow> e\<lparr>be_last_seen_ts := t, be_mac := m\<rparr> = e\<lparr>be_last_seen_ts := t\<rparr>" for e :: binding_entry
  by (cases e) simp

lemma rebound_seen:
  "fst (rebound now thr (e\<lparr>be_last_seen_ts := t\<rparr>)) = fst (rebound now thr e)\<lparr>be_last_seen_ts := t\<rparr>"
  "snd (rebound now thr (e\<lparr>be_last_seen_ts := t\<rparr>)) = snd (rebound now thr e)"
  by (cases "be_first_rebind_ts e"; simp add: rebound_def expire_flap_window_def Let_def)+

section \<open>A frame\<close>

definition tracked_frame :: "arp_frame \<Rightarrow> bool" where
  "tracked_frame frame \<longleftrightarrow> sender_ip frame \<noteq> [0, 0, 0, 0] \<and> sender_ip frame \<noteq> [255, 255, 255, 255]"

definition binding_after :: "u32 \<Rightarrow> u32 \<Rightarrow> bytes \<Rightarrow> binding_entry option \<Rightarrow> binding_entry" where
  "binding_after now thr mac c =
     (case c of
        None \<Rightarrow> (new_binding mac)\<lparr>be_last_seen_ts := now\<rparr>
      | Some e \<Rightarrow> (if be_mac e \<noteq> mac then fst (rebound now thr e) else e)\<lparr>be_last_seen_ts := now, be_mac := mac\<rparr>)"

definition mismatch_report :: "arp_frame \<Rightarrow> finding list" where
  "mismatch_report frame =
     (case outer_src_mac frame of Some m \<Rightarrow> if m \<noteq> sender_mac frame then [mismatch_finding frame m] else [] | None \<Rightarrow> [])"

definition spoof_report :: "u32 \<Rightarrow> u32 \<Rightarrow> bytes \<Rightarrow> bytes \<Rightarrow> binding_entry option \<Rightarrow> finding list" where
  "spoof_report now thr ip mac c =
     (case c of
        None \<Rightarrow> []
      | Some e \<Rightarrow> if be_mac e \<noteq> mac then [d1_finding (if snd (rebound now thr e) then High else Medium) ip (be_mac e) mac] else [])"

definition garp_report :: "arp_frame \<Rightarrow> binding_entry option \<Rightarrow> finding list" where
  "garp_report frame c =
     (if \<not> is_gratuitous_arp frame then []
      else if (case c of Some e \<Rightarrow> be_mac e \<noteq> sender_mac frame | None \<Rightarrow> False)
      then [(garp_finding [Lit ''D2: Gratuitous ARP (GARP) with binding conflict -- sender_ip equals target_ip and conflicts with an existing IP->MAC binding''] frame)
             \<lparr>confidence := Medium, mitre_techniques := spoof_techniques\<rparr>]
      else [garp_finding [Lit ''D2: Gratuitous ARP (GARP) -- sender_ip equals target_ip''] frame])"

text \<open>What becomes of the other bindings: one entry of the smallest age goes when the table is full
  and the sender is new.\<close>

definition others_kept :: "bytes \<Rightarrow> arp_analyzer \<Rightarrow> arp_analyzer \<Rightarrow> bool" where
  "others_kept ip a a' \<longleftrightarrow>
     (if bound a ip \<noteq> None \<or> length (aa_bindings a) < max_arp_bindings
      then (\<forall>ip'. ip' \<noteq> ip \<longrightarrow> bound a' ip' = bound a ip')
      else (\<exists>k v. bound a k = Some v \<and> (\<forall>k' v'. bound a k' = Some v' \<longrightarrow> be_last_seen_ts v \<le> be_last_seen_ts v') \<and>
              (\<forall>ip'. ip' \<noteq> ip \<longrightarrow> bound a' ip' = (if ip' = k then None else bound a ip'))))"

text \<open>The storm table and the thresholds are not touched.\<close>

definition bindings_only :: "arp_analyzer \<Rightarrow> arp_analyzer \<Rightarrow> bool" where
  "bindings_only a a' \<longleftrightarrow>
     aa_storm_counters a' = aa_storm_counters a \<and> aa_storm_rate a' = aa_storm_rate a \<and> aa_spoof_threshold a' = aa_spoof_threshold a"

lemma add_binding_new:
  assumes "arp_ok a" and "bound a ip = None"
  shows "arp_ok (add_binding ip mac a)" "bound (add_binding ip mac a) ip = Some (new_binding mac)"
    "others_kept ip a (add_binding ip mac a)" "bindings_only a (add_binding ip mac a)"
proof -
  let ?m = "aa_bindings a" and ?cap = max_arp_bindings
  have p: "hm_ok ?m" "length ?m \<le> ?cap" "0 < ?cap" "hm_get ?m ip = None"
    using assms by (simp_all add: arp_ok_def bound_def max_arp_bindings_def)
  obtain m1 where m1: "insert_binding_lru (aa_binding_seed a) ?m ip mac ?cap = (hm_insert ip (new_binding mac) m1, length ?m = ?cap)"
    "hm_ok m1" "length (hm_insert ip (new_binding mac) m1) \<le> ?cap" "hm_get m1 ip = None"
    "length ?m < ?cap \<Longrightarrow> m1 = ?m"
    "length ?m = ?cap \<Longrightarrow> \<exists>k v. m1 = hm_remove k ?m \<and> hm_get ?m k = Some v \<and> (\<forall>k' v'. hm_get ?m k' = Some v' \<longrightarrow> be_last_seen_ts v \<le> be_last_seen_ts v')"
    using insert_binding_new [OF p] by metis
  have tab: "aa_bindings (add_binding ip mac a) = hm_insert ip (new_binding mac) m1" by (simp add: add_binding_def m1(1) Let_def)
  show only: "bindings_only a (add_binding ip mac a)" by (simp add: add_binding_def m1(1) bindings_only_def Let_def)
  show "arp_ok (add_binding ip mac a)" using assms(1) only m1(2,3) by (simp add: arp_ok_def tab bindings_only_def hm_ok_insert)
  show "bound (add_binding ip mac a) ip = Some (new_binding mac)" by (simp add: bound_def tab)
  show "others_kept ip a (add_binding ip mac a)"
  proof (cases "length ?m < ?cap")
    case True
    then show ?thesis using m1(5) by (simp add: others_kept_def bound_def tab)
  next
    case False
    then obtain k v where "m1 = hm_remove k ?m" "hm_get ?m k = Some v" "\<forall>k' v'. hm_get ?m k' = Some v' \<longrightarrow> be_last_seen_ts v \<le> be_last_seen_ts v'"
      using m1(6) p(2) by fastforce
    then show ?thesis using False p(4) by (auto simp: others_kept_def bound_def tab)
  qed
qed

lemma update_binding_some:
  assumes "arp_ok a" and "bound a ip = Some e"
  shows "arp_ok (update_binding ip g a)" "bound (update_binding ip g a) ip' = (if ip' = ip then Some (g e) else bound a ip')"
    "bindings_only a (update_binding ip g a)"
  using assms by (simp_all add: update_binding_def bound_def arp_ok_def bindings_only_def hm_ok_insert hm_insert_present)

text \<open>The last part of \<open>process_arp\<close>, after the check for storms.\<close>

definition bind_frame :: "arp_frame \<Rightarrow> u32 \<Rightarrow> arp_analyzer \<Rightarrow> (arp_analyzer \<times> finding list) rust" where
  "bind_frame frame now a =
     (if is_gratuitous_arp frame
      then (if has_conflict frame a then conflicting_garp frame now a else Some (benign_garp frame now a))
      else plain_arp frame now a)"

lemma bind_frame_present:
  assumes "arp_ok a" and "bound a (sender_ip frame) = Some e"
  obtains a' where "bind_frame frame now a = Some (a', garp_report frame (Some e) @
       spoof_report now (aa_spoof_threshold a) (sender_ip frame) (sender_mac frame) (Some e))"
    "aa_bindings a' = hm_insert (sender_ip frame) (binding_after now (aa_spoof_threshold a) (sender_mac frame) (Some e)) (aa_bindings a)"
    "bindings_only a a'"
proof -
  have get: "hm_get (aa_bindings a) (sender_ip frame) = Some e" using assms(2) by (simp add: bound_def)
  have "\<exists>a'. bind_frame frame now a = Some (a', garp_report frame (Some e) @
       spoof_report now (aa_spoof_threshold a) (sender_ip frame) (sender_mac frame) (Some e)) \<and>
    aa_bindings a' = hm_insert (sender_ip frame) (binding_after now (aa_spoof_threshold a) (sender_mac frame) (Some e)) (aa_bindings a) \<and>
    bindings_only a a'"
    using get
    by (simp add: bind_frame_def has_conflict_def conflicting_garp_def benign_garp_def plain_arp_def
        apply_garp_conflict_escalation_impl_def emit_d1_total update_binding_def rebound_seen
        garp_report_def spoof_report_def binding_after_def bindings_only_def hm_insert_twice same_mac Let_def)
  then show ?thesis using that by blast
qed

lemma bind_frame_absent:
  assumes "arp_ok a" and "bound a (sender_ip frame) = None"
  obtains a' where "bind_frame frame now a = Some (a', garp_report frame None)"
    "arp_ok a'" "bound a' (sender_ip frame) = Some (binding_after now (aa_spoof_threshold a) (sender_mac frame) None)"
    "others_kept (sender_ip frame) a a'" "bindings_only a a'"
proof -
  let ?ip = "sender_ip frame" and ?mac = "sender_mac frame"
  define b where "b = (if is_gratuitous_arp frame then a\<lparr>aa_garp_findings := sat_add64 (aa_garp_findings a) 1\<rparr> else a)"
  define g :: "binding_entry \<Rightarrow> binding_entry" where "g = (\<lambda>e. if is_gratuitous_arp frame then e\<lparr>be_last_seen_ts := now, be_mac := ?mac\<rparr> else e\<lparr>be_last_seen_ts := now\<rparr>)"
  have b: "arp_ok b" "bound b ?ip = None" "bound b = bound a" "length (aa_bindings b) = length (aa_bindings a)" "bindings_only a b"
    using assms by (simp_all add: b_def arp_ok_def bound_def bindings_only_def fun_eq_iff)
  note add = add_binding_new [OF b(1,2), of ?mac]
  note upd = update_binding_some [OF add(1,2), of g]
  have run: "bind_frame frame now a = Some (update_binding ?ip g (add_binding ?ip ?mac b), garp_report frame None)"
    using assms(2) by (auto simp: bind_frame_def has_conflict_def benign_garp_def plain_arp_def b_def g_def bound_def garp_report_def Let_def)
  have "bound (update_binding ?ip g (add_binding ?ip ?mac b)) ?ip = Some (binding_after now (aa_spoof_threshold a) ?mac None)"
    using upd(2) [of ?ip] by (simp add: g_def binding_after_def new_binding_def)
  moreover have "others_kept ?ip a (update_binding ?ip g (add_binding ?ip ?mac b))"
    using add(3) upd(2) b(3,4) by (simp add: others_kept_def split del: if_split cong: if_cong)
  moreover have "bindings_only a (update_binding ?ip g (add_binding ?ip ?mac b))"
    using b(5) add(4) upd(3) by (simp add: bindings_only_def)
  ultimately show ?thesis using that run upd(1) by blast
qed

lemma bind_frame_total:
  assumes "arp_ok a"
  obtains a' where "bind_frame frame now a = Some (a', garp_report frame (bound a (sender_ip frame)) @
       spoof_report now (aa_spoof_threshold a) (sender_ip frame) (sender_mac frame) (bound a (sender_ip frame)))"
    "arp_ok a'" "bound a' (sender_ip frame) = Some (binding_after now (aa_spoof_threshold a) (sender_mac frame) (bound a (sender_ip frame)))"
    "others_kept (sender_ip frame) a a'" "bindings_only a a'"
proof (cases "bound a (sender_ip frame)")
  case None
  obtain a' where "bind_frame frame now a = Some (a', garp_report frame None)"
    "arp_ok a'" "bound a' (sender_ip frame) = Some (binding_after now (aa_spoof_threshold a) (sender_mac frame) None)"
    "others_kept (sender_ip frame) a a'" "bindings_only a a'" using bind_frame_absent [OF assms None] by blast
  then show ?thesis using that [of a'] None by (simp add: spoof_report_def)
next
  case (Some e)
  obtain a' where
    a': "bind_frame frame now a = Some (a', garp_report frame (Some e) @
       spoof_report now (aa_spoof_threshold a) (sender_ip frame) (sender_mac frame) (Some e))"
    "aa_bindings a' = hm_insert (sender_ip frame) (binding_after now (aa_spoof_threshold a) (sender_mac frame) (Some e)) (aa_bindings a)"
    "bindings_only a a'" using bind_frame_present [OF assms Some] by blast
  have "hm_get (aa_bindings a) (sender_ip frame) \<noteq> None" using Some by (simp add: bound_def)
  then have "arp_ok a'" using assms a'(2,3) by (simp add: arp_ok_def bindings_only_def hm_ok_insert hm_insert_present)
  then show ?thesis using that a' Some by (simp add: bound_def others_kept_def)
qed

lemma count_opcode_fields [simp]:
  "aa_bindings (count_opcode frame a) = aa_bindings a" "aa_storm_counters (count_opcode frame a) = aa_storm_counters a"
  "aa_storm_rate (count_opcode frame a) = aa_storm_rate a" "aa_spoof_threshold (count_opcode frame a) = aa_spoof_threshold a"
  by (simp_all add: count_opcode_def Let_def)

lemma check_mismatch_eq:
  obtains b where "check_mismatch frame a = (b, mismatch_report frame)" "aa_bindings b = aa_bindings a"
    "aa_storm_counters b = aa_storm_counters a" "aa_storm_rate b = aa_storm_rate a" "aa_spoof_threshold b = aa_spoof_threshold a"
proof -
  have "snd (check_mismatch frame a) = mismatch_report frame" "aa_bindings (fst (check_mismatch frame a)) = aa_bindings a"
    "aa_storm_counters (fst (check_mismatch frame a)) = aa_storm_counters a" "aa_storm_rate (fst (check_mismatch frame a)) = aa_storm_rate a"
    "aa_spoof_threshold (fst (check_mismatch frame a)) = aa_spoof_threshold a"
    by (auto simp: check_mismatch_def mismatch_report_def split: option.splits)
  then show ?thesis using that [of "fst (check_mismatch frame a)"] by (metis prod.collapse)
qed

text \<open>What a frame that is not filtered does: its findings, its sender's binding and counter, and the rest.\<close>

definition frame_report :: "u32 \<Rightarrow> arp_analyzer \<Rightarrow> arp_frame \<Rightarrow> finding list" where
  "frame_report now a frame =
     mismatch_report frame @
     (case storm_report (aa_storm_rate a) (sender_mac frame) now (hm_get (aa_storm_counters a) (sender_mac frame)) of Some f \<Rightarrow> [f] | None \<Rightarrow> []) @
     garp_report frame (bound a (sender_ip frame)) @
     spoof_report now (aa_spoof_threshold a) (sender_ip frame) (sender_mac frame) (bound a (sender_ip frame))"

lemma process_arp_total:
  assumes "arp_ok a" and "tracked_frame frame"
  obtains a' where "process_arp a frame now = Some (a', frame_report now a frame)" "arp_ok a'"
    "bound a' (sender_ip frame) = Some (binding_after now (aa_spoof_threshold a) (sender_mac frame) (bound a (sender_ip frame)))"
    "others_kept (sender_ip frame) a a'"
    "hm_get (aa_storm_counters a') (sender_mac frame)
       = Some (storm_after (aa_storm_rate a) now (hm_get (aa_storm_counters a) (sender_mac frame)))"
    "aa_storm_rate a' = aa_storm_rate a" "aa_spoof_threshold a' = aa_spoof_threshold a"
proof -
  obtain b where b: "check_mismatch frame (count_opcode frame a) = (b, mismatch_report frame)" "aa_bindings b = aa_bindings a"
    "aa_storm_counters b = aa_storm_counters a" "aa_storm_rate b = aa_storm_rate a" "aa_spoof_threshold b = aa_spoof_threshold a"
    using check_mismatch_eq [of frame "count_opcode frame a"] by auto
  let ?c = "hm_get (aa_storm_counters a) (sender_mac frame)"
  have ok: "hm_ok (aa_storm_counters b)" "length (aa_storm_counters b) \<le> max_storm_counters"
    using assms(1) b(3) by (simp_all add: arp_ok_def)
  obtain d where d: "detect_storm (sender_mac frame) now b = (d, storm_report (aa_storm_rate a) (sender_mac frame) now ?c)"
    "hm_ok (aa_storm_counters d)" "length (aa_storm_counters d) \<le> max_storm_counters"
    "hm_get (aa_storm_counters d) (sender_mac frame) = Some (storm_after (aa_storm_rate a) now ?c)" "storm_only b d"
    using detect_storm_total [OF ok, of "sender_mac frame" now] b(3,4) by metis
  let ?l2 = "case storm_report (aa_storm_rate a) (sender_mac frame) now ?c of Some f \<Rightarrow> [f] | None \<Rightarrow> []"
  obtain s where s: "check_storm frame now b = (s, ?l2)" "aa_bindings s = aa_bindings a"
    "aa_storm_counters s = aa_storm_counters d" "aa_storm_rate s = aa_storm_rate a" "aa_spoof_threshold s = aa_spoof_threshold a"
    using d(1,5) b by (cases "storm_report (aa_storm_rate a) (sender_mac frame) now ?c") (auto simp: check_storm_def storm_only_def)
  have sok: "arp_ok s" using assms(1) d(2,3) s(2,3) by (simp add: arp_ok_def)
  have sb: "bound s = bound a" by (simp add: bound_def s(2) fun_eq_iff)
  obtain a' where a': "bind_frame frame now s = Some (a', garp_report frame (bound a (sender_ip frame)) @
       spoof_report now (aa_spoof_threshold a) (sender_ip frame) (sender_mac frame) (bound a (sender_ip frame)))"
    "arp_ok a'" "bound a' (sender_ip frame) = Some (binding_after now (aa_spoof_threshold a) (sender_mac frame) (bound a (sender_ip frame)))"
    "others_kept (sender_ip frame) s a'" "bindings_only s a'"
    using bind_frame_total [OF sok, of frame now] sb s(5) by metis
  have run: "process_arp a frame now = Some (a', frame_report now a frame)"
    using assms(2) b(1) s(1) a'(1)
    by (simp add: process_arp_def tracked_frame_def bind_frame_def [symmetric] frame_report_def)
  have "others_kept (sender_ip frame) a a'" using a'(4) by (simp only: others_kept_def sb s(2))
  then show ?thesis using that [OF run a'(2,3)] a'(5) d(4) s(3-5) by (simp add: bindings_only_def)
qed

lemma process_arp_filtered:
  assumes "arp_ok a" and "\<not> tracked_frame frame"
  shows "process_arp a frame now = Some (count_opcode frame a, [])" and "arp_ok (count_opcode frame a)"
  using assms by (auto simp: process_arp_def tracked_frame_def arp_ok_def)

section \<open>Runs\<close>

fun arp_feed :: "arp_analyzer \<Rightarrow> (arp_frame \<times> u32) list \<Rightarrow> (arp_analyzer \<times> finding list) rust" where
  "arp_feed a [] = Some (a, [])"
| "arp_feed a ((frame, now) # fs) = do {
     (a1, l1) \<leftarrow> process_arp a frame now;
     (a2, l2) \<leftarrow> arp_feed a1 fs;
     Some (a2, l1 @ l2)
   }"

lemma process_arp_ok:
  assumes "arp_ok a"
  obtains a' l where "process_arp a frame now = Some (a', l)" "arp_ok a'"
proof (cases "tracked_frame frame")
  case True
  then show ?thesis using process_arp_total [OF assms] that by blast
next
  case False
  then show ?thesis using process_arp_filtered [OF assms] that by blast
qed

lemma arp_feed_ok: "arp_ok a \<Longrightarrow> \<exists>a' l. arp_feed a fs = Some (a', l) \<and> arp_ok a'"
proof (induction fs arbitrary: a)
  case (Cons x fs)
  obtain frame now where x: "x = (frame, now)" by fastforce
  obtain a1 l1 where a1: "process_arp a frame now = Some (a1, l1)" "arp_ok a1" using process_arp_ok [OF Cons.prems] by blast
  from Cons.IH [OF a1(2)] a1(1) show ?case by (auto simp: x)
qed simp

lemma arp_feed_append:
  "arp_feed a (fs @ gs) = do { (a1, l1) \<leftarrow> arp_feed a fs; (a2, l2) \<leftarrow> arp_feed a1 gs; Some (a2, l1 @ l2) }"
proof (induction fs arbitrary: a)
  case (Cons x fs)
  obtain frame now where x: "x = (frame, now)" by fastforce
  show ?case
  proof (cases "process_arp a frame now")
    case (Some r)
    then show ?thesis using Cons by (cases r; cases "arp_feed (fst r) fs") (auto simp: x bind_assoc split: prod.splits Option.bind_splits)
  qed (simp add: x)
qed (auto split: Option.bind_splits)

end
