(* ===== verification/Arp_Props.thy ===== *)
theory Arp_Props
  imports Arp_Inv Rate_Alert
begin

text \<open>
  Properties of the ARP analyzer over whole sequences of frames: what the table of bindings
  remembers and forgets, and when the alerts for rebinds and storms are raised.
\<close>

section \<open>What the table remembers\<close>

definition frames_of :: "bytes \<Rightarrow> (arp_frame \<times> u32) list \<Rightarrow> (arp_frame \<times> u32) list" where
  "frames_of ip fs = filter (\<lambda>(f, _). tracked_frame f \<and> sender_ip f = ip) fs"

definition senders :: "(arp_frame \<times> u32) list \<Rightarrow> bytes set" where
  "senders fs = {ip. frames_of ip fs \<noteq> []}"

definition recalls :: "(arp_frame \<times> u32) list \<Rightarrow> arp_analyzer \<Rightarrow> bool" where
  "recalls fs a \<longleftrightarrow>
     (\<forall>ip e. bound a ip = Some e \<longrightarrow>
        frames_of ip fs \<noteq> [] \<and> be_mac e = sender_mac (fst (last (frames_of ip fs))) \<and> be_last_seen_ts e = snd (last (frames_of ip fs)) \<and>
        (be_first_rebind_ts e = None \<longrightarrow> be_rebind_count e = 0 \<and> \<not> be_spoof_high_emitted e)) \<and>
     (card (senders fs) \<le> max_arp_bindings \<longrightarrow> (\<forall>ip \<in> senders fs. bound a ip \<noteq> None))"

lemma frames_of_snoc:
  "frames_of ip (fs @ [(f, t)]) = frames_of ip fs @ (if tracked_frame f \<and> sender_ip f = ip then [(f, t)] else [])"
  by (simp add: frames_of_def)

lemma senders_snoc: "senders (fs @ [(f, t)]) = (if tracked_frame f then insert (sender_ip f) (senders fs) else senders fs)"
  by (auto simp: senders_def frames_of_snoc)

lemma finite_senders: "finite (senders fs)"
proof -
  have "senders fs \<subseteq> (sender_ip \<circ> fst) ` set fs" by (force simp: senders_def frames_of_def filter_empty_conv)
  then show ?thesis using finite_surj by blast
qed

lemma card_bound: "arp_ok a \<Longrightarrow> card {ip. bound a ip \<noteq> None} = length (aa_bindings a)"
proof -
  assume ok: "arp_ok a"
  have "{ip. bound a ip \<noteq> None} = fst ` set (aa_bindings a)"
    by (simp add: bound_def hm_get_def map_of_eq_None_iff)
  moreover have "card (fst ` set (aa_bindings a)) = length (aa_bindings a)"
    using ok distinct_card [of "map fst (aa_bindings a)"] by (simp add: arp_ok_def hm_ok_def)
  ultimately show ?thesis by simp
qed

lemma binding_after_fields [simp]:
  "be_mac (binding_after now thr mac c) = mac" "be_last_seen_ts (binding_after now thr mac c) = now"
  by (auto simp: binding_after_def new_binding_def split: option.splits)

lemma binding_after_fresh:
  assumes "\<forall>e. c = Some e \<longrightarrow> be_first_rebind_ts e = None \<longrightarrow> be_rebind_count e = 0 \<and> \<not> be_spoof_high_emitted e"
    and "be_first_rebind_ts (binding_after now thr mac c) = None"
  shows "be_rebind_count (binding_after now thr mac c) = 0 \<and> \<not> be_spoof_high_emitted (binding_after now thr mac c)"
proof (cases c)
  case None
  then show ?thesis by (simp add: binding_after_def new_binding_def)
next
  case (Some e)
  have "be_first_rebind_ts (fst (rebound now thr e)) \<noteq> None" by (simp add: rebound_def Let_def)
  then have "be_mac e = mac" using assms(2) Some by (auto simp: binding_after_def split: if_splits)
  then show ?thesis using assms Some by (simp add: binding_after_def)
qed

lemma recalls_step:
  assumes ok: "arp_ok a" and rec: "recalls fs a" and run: "process_arp a f t = Some (a', l)"
  shows "arp_ok a' \<and> recalls (fs @ [(f, t)]) a'"
proof (cases "tracked_frame f")
  case False
  then have "a' = count_opcode f a" "arp_ok a'" using process_arp_filtered [OF ok False] run by simp_all
  then show ?thesis using rec False by (simp add: recalls_def frames_of_snoc senders_snoc bound_def)
next
  case True
  let ?ip = "sender_ip f"
  obtain b where b: "process_arp a f t = Some (b, frame_report t a f)" "arp_ok b"
    "bound b ?ip = Some (binding_after t (aa_spoof_threshold a) (sender_mac f) (bound a ?ip))" "others_kept ?ip a b"
    using process_arp_total [OF ok True] by blast
  have a': "a' = b" using run b(1) by simp
  have sub: "bound b ip = bound a ip \<or> bound b ip = None" if "ip \<noteq> ?ip" for ip
    using b(4) that by (auto simp: others_kept_def split: if_splits)
  have first: "frames_of ip (fs @ [(f, t)]) \<noteq> [] \<and> be_mac e = sender_mac (fst (last (frames_of ip (fs @ [(f, t)])))) \<and>
      be_last_seen_ts e = snd (last (frames_of ip (fs @ [(f, t)]))) \<and>
      (be_first_rebind_ts e = None \<longrightarrow> be_rebind_count e = 0 \<and> \<not> be_spoof_high_emitted e)" if "bound b ip = Some e" for ip e
  proof (cases "ip = ?ip")
    case True
    have "\<forall>e. bound a ?ip = Some e \<longrightarrow> be_first_rebind_ts e = None \<longrightarrow> be_rebind_count e = 0 \<and> \<not> be_spoof_high_emitted e"
      using rec by (auto simp: recalls_def)
    from binding_after_fresh [OF this] show ?thesis
      using that True \<open>tracked_frame f\<close> b(3) by (auto simp: frames_of_snoc)
  next
    case False
    then have "bound a ip = Some e" using that sub [OF False] by simp
    then show ?thesis using False rec by (simp add: recalls_def frames_of_snoc)
  qed
  have second: "bound b ip \<noteq> None" if c: "card (senders (fs @ [(f, t)])) \<le> max_arp_bindings" and m: "ip \<in> senders (fs @ [(f, t)])" for ip
  proof (cases "ip = ?ip")
    case False
    let ?S = "senders fs"
    have S: "senders (fs @ [(f, t)]) = insert ?ip ?S" using True by (simp add: senders_snoc)
    have "card ?S \<le> card (insert ?ip ?S)" by (rule card_mono) (auto simp: finite_senders)
    then have all: "\<forall>ip \<in> ?S. bound a ip \<noteq> None" using rec c S by (simp add: recalls_def)
    have dom: "{ip. bound a ip \<noteq> None} = ?S" using all rec by (auto simp: recalls_def senders_def)
    have "bound a ?ip \<noteq> None \<or> length (aa_bindings a) < max_arp_bindings"
    proof (rule disjCI)
      assume "\<not> length (aa_bindings a) < max_arp_bindings"
      then have "max_arp_bindings \<le> card ?S" using card_bound [OF ok] dom by simp
      then have "?ip \<in> ?S" using c S finite_senders [of fs] by (metis card_insert_disjoint not_less_eq_eq order_trans)
      then show "bound a ?ip \<noteq> None" using all by simp
    qed
    then have "bound b ip = bound a ip" using b(4) False by (simp add: others_kept_def)
    then show ?thesis using all m False S by simp
  qed (simp add: b(3))
  show ?thesis using b(2) first second by (simp only: a' recalls_def) blast
qed

lemma recalls_feed:
  "arp_ok a \<Longrightarrow> recalls hist a \<Longrightarrow> arp_feed a fs = Some (a', l) \<Longrightarrow> arp_ok a' \<and> recalls (hist @ fs) a'"
proof (induction fs arbitrary: a hist l)
  case (Cons x fs)
  obtain f t where x: "x = (f, t)" by fastforce
  from Cons.prems(3) obtain a1 l1 l2 where a1: "process_arp a f t = Some (a1, l1)" "arp_feed a1 fs = Some (a', l2)"
    by (auto simp: x split: Option.bind_splits)
  from recalls_step [OF Cons.prems(1,2) a1(1)] Cons.IH [OF _ _ a1(2), of "hist @ [(f, t)]"] show ?case by (simp add: x)
qed simp

lemma recalls_new: "recalls [] (arp_analyzer_new bseed sseed spoof storm)"
  by (simp add: recalls_def bound_def arp_analyzer_new_def senders_def frames_of_def)

text \<open>C26. Last write wins. Any sequence of frames is processed without a panic, within the caps of both
  tables. Every binding that is kept is the address, with the time, of the latest frame of that sender; and
  as long as no more senders than the table has room for have been seen, every sender is bound.\<close>

theorem arp_last_write_wins:
  "\<exists>a l. arp_feed (arp_analyzer_new bseed sseed spoof storm) fs = Some (a, l) \<and>
     length (aa_bindings a) \<le> max_arp_bindings \<and> length (aa_storm_counters a) \<le> max_storm_counters \<and>
     (\<forall>ip e. bound a ip = Some e \<longrightarrow> frames_of ip fs \<noteq> [] \<and>
        be_mac e = sender_mac (fst (last (frames_of ip fs))) \<and> be_last_seen_ts e = snd (last (frames_of ip fs))) \<and>
     (card (senders fs) \<le> max_arp_bindings \<longrightarrow> (\<forall>ip \<in> senders fs. bound a ip \<noteq> None))"
proof -
  obtain a l where a: "arp_feed (arp_analyzer_new bseed sseed spoof storm) fs = Some (a, l)"
    using arp_feed_ok [OF arp_new_ok] by blast
  from recalls_feed [OF arp_new_ok recalls_new this] have "arp_ok a" "recalls fs a" by simp_all
  then show ?thesis using a by (auto simp: arp_ok_def recalls_def)
qed

definition sample_arp :: "u8 \<Rightarrow> arp_frame" where
  "sample_arp n = \<lparr>operation = 2, sender_mac = [2, 0, 0, 0, 0, n], sender_ip = [10, 0, 0, 1], target_mac = [0, 0, 0, 0, 0, 0],
     target_ip = [10, 0, 0, 2], outer_src_mac = None, arp_packet_len = 42\<rparr>"

theorem arp_last_write_wins_witness:
  "\<exists>a l. arp_feed (arp_analyzer_new (\<lambda>_ _. 0) (\<lambda>_ _. 0) 3 50) [(sample_arp 1, 5), (sample_arp 2, 6)] = Some (a, l) \<and>
     (\<exists>e. bound a [10, 0, 0, 1] = Some e \<and> be_mac e = [2, 0, 0, 0, 0, 2] \<and> be_last_seen_ts e = 6)"
proof -
  let ?fs = "[(sample_arp 1, 5), (sample_arp 2, 6)]"
  have fo: "frames_of [10, 0, 0, 1] ?fs = ?fs" by (simp add: frames_of_def sample_arp_def tracked_frame_def)
  have "senders ?fs = {[10, 0, 0, 1]}" by (auto simp: senders_def frames_of_def sample_arp_def tracked_frame_def)
  then have c: "card (senders ?fs) \<le> max_arp_bindings" "[10, 0, 0, 1] \<in> senders ?fs" by (simp_all add: max_arp_bindings_def)
  obtain a l where a: "arp_feed (arp_analyzer_new (\<lambda>_ _. 0) (\<lambda>_ _. 0) 3 50) ?fs = Some (a, l)"
     "\<forall>ip e. bound a ip = Some e \<longrightarrow> frames_of ip ?fs \<noteq> [] \<and>
        be_mac e = sender_mac (fst (last (frames_of ip ?fs))) \<and> be_last_seen_ts e = snd (last (frames_of ip ?fs))"
     "\<forall>ip \<in> senders ?fs. bound a ip \<noteq> None"
    using arp_last_write_wins [of "\<lambda>_ _. 0" "\<lambda>_ _. 0" 3 50 ?fs] c(1) by blast
  then obtain e where "bound a [10, 0, 0, 1] = Some e" using c(2) by blast
  moreover from this have "be_mac e = [2, 0, 0, 0, 0, 2] \<and> be_last_seen_ts e = 6" using a(2) fo by (fastforce simp: sample_arp_def)
  ultimately show ?thesis using a(1) by blast
qed

text \<open>A frame of a new sender that finds the table full pushes out exactly one binding, one that no other
  binding is older than, whatever the order in which the hash table is visited; no other frame pushes out any.\<close>

theorem arp_evicts_one_oldest:
  assumes "arp_feed (arp_analyzer_new bseed sseed spoof storm) fs = Some (a, l)" and "process_arp a frame now = Some (a', l')"
    and "tracked_frame frame"
  shows "bound a' (sender_ip frame) \<noteq> None \<and>
     (if bound a (sender_ip frame) \<noteq> None \<or> length (aa_bindings a) < max_arp_bindings
      then (\<forall>ip. ip \<noteq> sender_ip frame \<longrightarrow> bound a' ip = bound a ip)
      else (\<exists>old e. bound a old = Some e \<and> (\<forall>ip e'. bound a ip = Some e' \<longrightarrow> be_last_seen_ts e \<le> be_last_seen_ts e') \<and>
              (\<forall>ip. ip \<noteq> sender_ip frame \<longrightarrow> bound a' ip = (if ip = old then None else bound a ip))))"
proof -
  have ok: "arp_ok a" using recalls_feed [OF arp_new_ok recalls_new assms(1)] by simp
  obtain b where "process_arp a frame now = Some (b, frame_report now a frame)"
    "bound b (sender_ip frame) \<noteq> None" "others_kept (sender_ip frame) a b"
    using process_arp_total [OF ok assms(3)] by blast
  then show ?thesis using assms(2) by (simp only: others_kept_def) simp
qed

theorem arp_evicts_one_oldest_witness:
  "\<exists>a l a' l'. arp_feed (arp_analyzer_new (\<lambda>_ _. 0) (\<lambda>_ _. 0) 3 50) [] = Some (a, l) \<and>
     process_arp a (sample_arp 1) 5 = Some (a', l') \<and> bound a' [10, 0, 0, 1] \<noteq> None"
proof -
  let ?a = "arp_analyzer_new (\<lambda>_ _. 0) (\<lambda>_ _. 0) 3 50"
  obtain a' l' where a': "process_arp ?a (sample_arp 1) 5 = Some (a', l')" using process_arp_ok [OF arp_new_ok] by blast
  have "tracked_frame (sample_arp 1)" by (simp add: sample_arp_def tracked_frame_def)
  then have "bound a' [10, 0, 0, 1] \<noteq> None"
    using arp_evicts_one_oldest [of "\<lambda>_ _. 0" "\<lambda>_ _. 0" 3 50 "[]" ?a "[]", OF _ a'] by (simp add: sample_arp_def)
  then show ?thesis using a' by auto
qed

section \<open>Rebinds\<close>

definition flap_start :: "binding_entry \<Rightarrow> u32" where
  "flap_start e = (case be_first_rebind_ts e of Some t \<Rightarrow> t | None \<Rightarrow> 0)"

text \<open>The detector of rebinds keeps the contract of the rate detectors.\<close>

interpretation flap: rate_alert "\<lambda>now e. rebound now thr e" flap_start be_rebind_count be_spoof_high_emitted
    "\<lambda>now. now" arp_flap_window_secs "\<lambda>n. unat thr \<le> n" "\<lambda>_. True" "\<lambda>e. be_first_rebind_ts e \<noteq> None"
  for thr :: u32
proof
  fix now :: u32 and e :: binding_entry
  assume act: "be_first_rebind_ts e \<noteq> None" and within: "unat now - unat (flap_start e) \<le> unat arp_flap_window_secs"
    and room: "unat (be_rebind_count e) + 1 < 2 ^ 32"
  obtain t where t: "be_first_rebind_ts e = Some t" using act by blast
  have "\<not> sat_subw now t > arp_flap_window_secs" using within t by (simp add: word_less_nat_alt unat_sat_subw flap_start_def)
  then have exp: "expire_flap_window now e = e" using t by (simp add: expire_flap_window_def)
  have n: "unat (sat_addw (be_rebind_count e) 1) = unat (be_rebind_count e) + 1" using room by (simp add: unat_sat_addw)
  show "be_first_rebind_ts (fst (rebound now thr e)) \<noteq> None \<and> flap_start (fst (rebound now thr e)) = flap_start e \<and>
      unat (be_rebind_count (fst (rebound now thr e))) = unat (be_rebind_count e) + 1 \<and>
      snd (rebound now thr e) = (unat thr \<le> unat (be_rebind_count e) + 1 \<and> \<not> be_spoof_high_emitted e) \<and>
      be_spoof_high_emitted (fst (rebound now thr e)) = (be_spoof_high_emitted e \<or> unat thr \<le> unat (be_rebind_count e) + 1)"
    using n t by (auto simp: rebound_def exp Let_def flap_start_def word_le_nat_alt)
qed simp

text \<open>A window is closed if there was no rebind, or the first one is more than a minute old.\<close>

definition window_closed :: "u32 \<Rightarrow> binding_entry \<Rightarrow> bool" where
  "window_closed now e \<longleftrightarrow> (\<forall>t. be_first_rebind_ts e = Some t \<longrightarrow> unat t + 60 < unat now)"

definition fresh_entry :: "binding_entry \<Rightarrow> bool" where
  "fresh_entry e \<longleftrightarrow> (be_first_rebind_ts e = None \<longrightarrow> be_rebind_count e = 0 \<and> \<not> be_spoof_high_emitted e)"

lemma rebound_opens:
  assumes "window_closed now e" and "fresh_entry e"
  shows "be_first_rebind_ts (fst (rebound now thr e)) = Some now" "be_rebind_count (fst (rebound now thr e)) = 1"
    "snd (rebound now thr e) = (thr \<le> 1)" "be_spoof_high_emitted (fst (rebound now thr e)) = (thr \<le> 1)"
proof -
  have "be_first_rebind_ts (expire_flap_window now e) = None \<and> be_rebind_count (expire_flap_window now e) = 0 \<and>
      \<not> be_spoof_high_emitted (expire_flap_window now e)"
  proof (cases "be_first_rebind_ts e")
    case None
    then show ?thesis using assms(2) by (simp add: expire_flap_window_def fresh_entry_def)
  next
    case (Some t)
    then have "sat_subw now t > arp_flap_window_secs"
      using assms(1) by (simp add: window_closed_def word_less_nat_alt unat_sat_subw arp_flap_window_secs_def)
    then show ?thesis using Some by (simp add: expire_flap_window_def)
  qed
  moreover have "sat_addw (0 :: u32) 1 = 1" by (simp add: sat_addw_def)
  ultimately show "be_first_rebind_ts (fst (rebound now thr e)) = Some now" "be_rebind_count (fst (rebound now thr e)) = 1"
    "snd (rebound now thr e) = (thr \<le> 1)" "be_spoof_high_emitted (fst (rebound now thr e)) = (thr \<le> 1)"
    by (simp_all add: rebound_def Let_def)
qed

lemma window_alerts:
  assumes "window_closed now e" and "fresh_entry e" and "length ts < 2 ^ 32 - 1"
    and "\<forall>t \<in> set ts. unat t - unat now \<le> 60"
  shows "count_alerts (\<lambda>now e. rebound now thr e) (now # ts) e = (if unat thr \<le> length (now # ts) then 1 else 0)"
proof -
  let ?e = "fst (rebound now thr e)"
  note o = rebound_opens [OF assms(1,2), of thr]
  have act: "be_first_rebind_ts ?e \<noteq> None" and room: "unat (be_rebind_count ?e) + length ts < 2 ^ 32" using o assms(3) by simp_all
  have win: "\<forall>t \<in> set ts. True \<and> unat t - unat (flap_start ?e) \<le> unat arp_flap_window_secs"
    using assms(4) o(1) by (simp add: flap_start_def arp_flap_window_secs_def)
  have le: "thr \<le> 1 \<longleftrightarrow> unat thr \<le> 1" by (simp add: word_le_nat_alt)
  show ?thesis
  proof (cases "thr \<le> 1")
    case True
    then show ?thesis using flap.alerts_fired [OF act _ room win] o(3,4) le by simp
  next
    case False
    then have "count_alerts (\<lambda>now e. rebound now thr e) ts ?e = (if ts \<noteq> [] \<and> unat thr \<le> unat (be_rebind_count ?e) + length ts then 1 else 0)"
      using o(4) by (intro flap.alerts_open [OF act _ room win]) simp
    then show ?thesis using False le o(2,3) by (cases ts) auto
  qed
qed

text \<open>A run of frames of one sender in which the hardware address changes with every frame.\<close>

fun flapping :: "bytes \<Rightarrow> bytes \<Rightarrow> (arp_frame \<times> u32) list \<Rightarrow> bool" where
  "flapping ip mac [] \<longleftrightarrow> True"
| "flapping ip mac ((f, t) # fs) \<longleftrightarrow>
     tracked_frame f \<and> sender_ip f = ip \<and> sender_mac f \<noteq> mac \<and> flapping ip (sender_mac f) fs"

definition high_alerts :: "finding list \<Rightarrow> nat" where
  "high_alerts l = length (filter (\<lambda>x. confidence x = High) l)"

lemma rebound_mac:
  "rebound now thr (e\<lparr>be_last_seen_ts := t, be_mac := m\<rparr>)
     = (fst (rebound now thr e)\<lparr>be_last_seen_ts := t, be_mac := m\<rparr>, snd (rebound now thr e))"
  by (cases "be_first_rebind_ts e") (simp_all add: rebound_def expire_flap_window_def Let_def)

lemma count_alerts_mac:
  "count_alerts (\<lambda>now e. rebound now thr e) ts (e\<lparr>be_last_seen_ts := t, be_mac := m\<rparr>) = count_alerts (\<lambda>now e. rebound now thr e) ts e"
proof (induction ts arbitrary: e)
  case (Cons now ts)
  show ?case by (simp add: rebound_mac Cons.IH)
qed simp

lemma frame_report_high:
  "high_alerts (frame_report now a f) =
     (case bound a (sender_ip f) of
        None \<Rightarrow> 0 | Some e \<Rightarrow> if be_mac e \<noteq> sender_mac f \<and> snd (rebound now (aa_spoof_threshold a) e) then 1 else 0)"
  by (auto simp: high_alerts_def frame_report_def mismatch_report_def mismatch_finding_def storm_report_def storm_finding_def
      garp_report_def garp_finding_def spoof_report_def d1_finding_def arp_finding_def Let_def split: option.splits)

lemma flapping_alerts:
  assumes "arp_ok a" and "bound a ip = Some e" and "flapping ip (be_mac e) fs" and "arp_feed a fs = Some (a', l)"
  shows "high_alerts l = count_alerts (\<lambda>now e. rebound now (aa_spoof_threshold a) e) (map snd fs) e"
  using assms
proof (induction fs arbitrary: a e l)
  case (Cons x fs)
  obtain f t where x: "x = (f, t)" by fastforce
  have f: "tracked_frame f" "sender_ip f = ip" "sender_mac f \<noteq> be_mac e" "flapping ip (sender_mac f) fs"
    using Cons.prems(3) by (simp_all add: x)
  obtain a1 where a1: "process_arp a f t = Some (a1, frame_report t a f)" "arp_ok a1"
    "bound a1 ip = Some (binding_after t (aa_spoof_threshold a) (sender_mac f) (Some e))" "aa_spoof_threshold a1 = aa_spoof_threshold a"
    using process_arp_total [OF Cons.prems(1) f(1), of t] f(2) Cons.prems(2) by metis
  from Cons.prems(4) a1(1) obtain l2 where l2: "arp_feed a1 fs = Some (a', l2)" "l = frame_report t a f @ l2"
    by (auto simp: x split: Option.bind_splits)
  have "high_alerts l2 = count_alerts (\<lambda>now e. rebound now (aa_spoof_threshold a) e) (map snd fs) (fst (rebound t (aa_spoof_threshold a) e))"
    using Cons.IH [OF a1(2,3) _ l2(1)] f(3,4) a1(4) by (simp add: binding_after_def count_alerts_mac)
  moreover have "high_alerts l = high_alerts (frame_report t a f) + high_alerts l2" by (simp add: l2(2) high_alerts_def)
  moreover have "high_alerts (frame_report t a f) = (if snd (rebound t (aa_spoof_threshold a) e) then 1 else 0)"
    using f(2,3) Cons.prems(2) by (simp add: frame_report_high)
  ultimately show ?case by (simp add: x)
qed (simp add: high_alerts_def)

lemma feed_thresholds:
  "arp_ok a \<Longrightarrow> arp_feed a fs = Some (a', l) \<Longrightarrow> aa_spoof_threshold a' = aa_spoof_threshold a \<and> aa_storm_rate a' = aa_storm_rate a"
proof (induction fs arbitrary: a l)
  case (Cons x fs)
  obtain f t where x: "x = (f, t)" by fastforce
  obtain a1 where a1: "arp_ok a1" "aa_spoof_threshold a1 = aa_spoof_threshold a \<and> aa_storm_rate a1 = aa_storm_rate a"
    "\<exists>l1. process_arp a f t = Some (a1, l1)"
  proof (cases "tracked_frame f")
    case True
    then show ?thesis using process_arp_total [OF Cons.prems(1)] that by metis
  next
    case False
    from process_arp_filtered [OF Cons.prems(1) this] show ?thesis using that [of "count_opcode f a"] by auto
  qed
  from a1(3) Cons.prems(2) obtain l2 where "arp_feed a1 fs = Some (a', l2)" by (auto simp: x split: Option.bind_splits)
  from Cons.IH [OF a1(1) this] a1(2) show ?case by simp
qed simp

text \<open>C27. The escalation of rebinds. After any frames, let the window of a bound sender be closed, and let its
  address then change with every frame, all within a minute of the first change. However
  many changes there are, gratuitous or not, exactly one finding of high confidence is raised if they reach
  the threshold, and none otherwise; no other detector raises one.\<close>

theorem spoof_escalates_once:
  assumes "arp_feed (arp_analyzer_new bseed sseed spoof storm) gs = Some (a, l0)"
    and "bound a ip = Some e" and "flapping ip (be_mac e) ((f, t) # fs)" and "window_closed t e"
    and "\<forall>(g, u) \<in> set fs. unat u - unat t \<le> 60" and "length fs < 2 ^ 32 - 1"
  shows "\<exists>a' l. arp_feed a ((f, t) # fs) = Some (a', l) \<and> high_alerts l = (if unat spoof \<le> length ((f, t) # fs) then 1 else 0)"
proof -
  have ok: "arp_ok a" "recalls gs a" using recalls_feed [OF arp_new_ok recalls_new assms(1)] by simp_all
  have thr: "aa_spoof_threshold a = spoof" using feed_thresholds [OF arp_new_ok assms(1)] by (simp add: arp_analyzer_new_def)
  have fresh: "fresh_entry e" using ok(2) assms(2) by (simp add: recalls_def fresh_entry_def)
  obtain a' l where run: "arp_feed a ((f, t) # fs) = Some (a', l)" using arp_feed_ok [OF ok(1)] by blast
  have "\<forall>u \<in> set (map snd fs). unat u - unat t \<le> 60" using assms(5) by auto
  from window_alerts [OF assms(4) fresh _ this, of spoof] flapping_alerts [OF ok(1) assms(2,3) run] assms(6)
  have "high_alerts l = (if unat spoof \<le> length ((f, t) # fs) then 1 else 0)" by (simp add: thr del: count_alerts.simps)
  then show ?thesis using run by blast
qed

theorem spoof_escalates_once_witness:
  "\<exists>a l0 a' l. arp_feed (arp_analyzer_new (\<lambda>_ _. 0) (\<lambda>_ _. 0) 2 50) [(sample_arp 1, 5)] = Some (a, l0) \<and>
     arp_feed a [(sample_arp 2, 6), (sample_arp 3, 7), (sample_arp 2, 9)] = Some (a', l) \<and> high_alerts l = 1"
proof -
  let ?n = "arp_analyzer_new (\<lambda>_ _. 0) (\<lambda>_ _. 0) 2 50" and ?f = "sample_arp 1"
  have tf: "tracked_frame (sample_arp n)" "sender_ip (sample_arp n) = [10, 0, 0, 1]" "sender_mac (sample_arp n) = [2, 0, 0, 0, 0, n]" for n
    by (simp_all add: sample_arp_def tracked_frame_def)
  obtain a where a: "process_arp ?n ?f 5 = Some (a, frame_report 5 ?n ?f)"
    "bound a [10, 0, 0, 1] = Some (binding_after 5 2 [2, 0, 0, 0, 0, 1] (bound ?n [10, 0, 0, 1]))"
    using process_arp_total [OF arp_new_ok tf(1), of "\<lambda>_ _. 0" "\<lambda>_ _. 0" 2 50 1 5] tf(2,3) by (metis arp_analyzer.select_convs(3) arp_analyzer_new_def)
  let ?e = "binding_after 5 2 [2, 0, 0, 0, 0, 1] (bound ?n [10, 0, 0, 1])"
  have first: "arp_feed ?n [(?f, 5)] = Some (a, frame_report 5 ?n ?f)" using a(1) by simp
  have e: "window_closed 6 ?e" "be_mac ?e = [2, 0, 0, 0, 0, 1]"
    by (simp_all add: window_closed_def binding_after_def bound_def arp_analyzer_new_def new_binding_def)
  have "\<exists>a' l. arp_feed a ((sample_arp 2, 6) # [(sample_arp 3, 7), (sample_arp 2, 9)]) = Some (a', l) \<and>
      high_alerts l = (if unat (2 :: u32) \<le> length ((sample_arp 2, 6) # [(sample_arp 3, 7), (sample_arp 2, 9 :: u32)]) then 1 else 0)"
    by (rule spoof_escalates_once [OF first a(2) _ e(1)]) (simp_all add: e(2) tf)
  then show ?thesis using first by auto
qed

section \<open>Storms\<close>

definition storm_alerts :: "finding list \<Rightarrow> nat" where
  "storm_alerts l = length (filter (\<lambda>x. confidence x = Medium \<and> mitre_techniques x = []) l)"

lemma frame_report_storm:
  "storm_alerts (frame_report now a f) =
     (if storm_due (aa_storm_rate a) now (storm_count now (hm_get (aa_storm_counters a) (sender_mac f))) then 1 else 0)"
  by (auto simp: storm_alerts_def frame_report_def mismatch_report_def mismatch_finding_def storm_report_def storm_finding_def
      garp_report_def garp_finding_def spoof_report_def d1_finding_def arp_finding_def Let_def split: option.splits)

text \<open>The rate of the frames up to and including the \<open>i\<close>th of a window opened at \<open>t\<^sub>0\<close>, with integer division.\<close>

definition rate_reached :: "u32 \<Rightarrow> u32 \<Rightarrow> nat \<Rightarrow> u32 \<Rightarrow> bool" where
  "rate_reached rate t0 n t \<longleftrightarrow> unat rate \<le> n div max (unat t - unat t0) 1"

lemma rate_reached_due:
  "storm_due rate t c \<longleftrightarrow> rate_reached rate (sc_window_start_ts c) (sc_count_in_window c) t \<and> \<not> sc_storm_emitted c"
proof -
  have "unat (max (sat_subw t (sc_window_start_ts c)) 1) = max (unat t - unat (sc_window_start_ts c)) 1"
    by (auto simp: max_def word_le_nat_alt unat_sat_subw)
  then show ?thesis by (simp add: storm_due_def storm_rate_of_def rate_reached_def)
qed

lemma storm_window_alerts:
  assumes "arp_ok a" and "hm_get (aa_storm_counters a) mac = Some c" and "arp_feed a fs = Some (a', l)"
    and "\<forall>(f, t) \<in> set fs. tracked_frame f \<and> sender_mac f = mac \<and> unat t - unat (sc_window_start_ts c) \<le> 60"
    and "sc_count_in_window c + length fs \<le> u64_max"
  shows "storm_alerts l = (if \<not> sc_storm_emitted c \<and>
     (\<exists>i < length fs. rate_reached (aa_storm_rate a) (sc_window_start_ts c) (sc_count_in_window c + i + 1) (snd (fs ! i))) then 1 else 0)"
  using assms
proof (induction fs arbitrary: a c l)
  case (Cons x fs)
  obtain f t where x: "x = (f, t)" by fastforce
  have f: "tracked_frame f" "sender_mac f = mac" "unat t - unat (sc_window_start_ts c) \<le> 60" using Cons.prems(4) by (auto simp: x)
  let ?c = "storm_count t (Some c)"
  have c: "?c = c\<lparr>sc_count_in_window := sc_count_in_window c + 1\<rparr>"
    using f(3) Cons.prems(5)
    by (simp add: storm_count_def word_le_nat_alt unat_sat_subw arp_flap_window_secs_def sat_add64_exact)
  obtain a1 where a1: "process_arp a f t = Some (a1, frame_report t a f)" "arp_ok a1"
    "hm_get (aa_storm_counters a1) mac = Some (storm_after (aa_storm_rate a) t (Some c))" "aa_storm_rate a1 = aa_storm_rate a"
    using process_arp_total [OF Cons.prems(1) f(1), of t] f(2) Cons.prems(2) by metis
  from Cons.prems(3) a1(1) obtain l2 where l2: "arp_feed a1 fs = Some (a', l2)" "l = frame_report t a f @ l2"
    by (auto simp: x split: Option.bind_splits)
  let ?now = "rate_reached (aa_storm_rate a) (sc_window_start_ts c) (sc_count_in_window c + 1) t"
  have fire: "storm_due (aa_storm_rate a) t ?c \<longleftrightarrow> ?now \<and> \<not> sc_storm_emitted c" by (simp add: rate_reached_due c)
  define d where "d = storm_after (aa_storm_rate a) t (Some c)"
  have d: "sc_window_start_ts d = sc_window_start_ts c" "sc_count_in_window d = sc_count_in_window c + 1"
    "sc_storm_emitted d \<longleftrightarrow> sc_storm_emitted c \<or> ?now"
    using fire by (auto simp: d_def storm_after_def c Let_def)
  have IH: "storm_alerts l2 = (if \<not> sc_storm_emitted d \<and>
     (\<exists>i < length fs. rate_reached (aa_storm_rate a) (sc_window_start_ts c) (sc_count_in_window c + Suc i + 1) (snd (fs ! i))) then 1 else 0)"
    using Cons.IH [OF a1(2) a1(3) [folded d_def] l2(1)] Cons.prems(4,5) d a1(4) by (simp add: x)
  have "storm_alerts (frame_report t a f) = (if ?now \<and> \<not> sc_storm_emitted c then 1 else 0)"
    using fire f(2) Cons.prems(2) by (simp add: frame_report_storm)
  moreover have "storm_alerts l = storm_alerts (frame_report t a f) + storm_alerts l2" by (simp add: l2(2) storm_alerts_def)
  moreover have "(\<exists>i < length (x # fs). rate_reached (aa_storm_rate a) (sc_window_start_ts c) (sc_count_in_window c + i + 1) (snd ((x # fs) ! i)))
      \<longleftrightarrow> ?now \<or> (\<exists>i < length fs. rate_reached (aa_storm_rate a) (sc_window_start_ts c) (sc_count_in_window c + Suc i + 1) (snd (fs ! i)))"
    by (simp add: Ex_less_Suc2 x)
  ultimately show ?case using IH d(3) by auto
qed (simp add: storm_alerts_def)

text \<open>C28. Storms. After any frames, let a hardware address that has no open window send frames, all within a minute of
  the first. Exactly one storm finding is raised if at some frame the number of frames so far,
  divided by the seconds elapsed (at least one) and rounded down, reaches the rate, and none otherwise,
  whatever the frames say; applied to each beginning of the sequence, this fixes the frame that raises it.\<close>

theorem storm_reported_once:
  assumes "arp_feed (arp_analyzer_new bseed sseed spoof rate) gs = Some (a, l0)"
    and "\<forall>c. hm_get (aa_storm_counters a) mac = Some c \<longrightarrow> unat (sc_window_start_ts c) + 60 < unat t"
    and "fs = (f, t) # fs'" and "\<forall>(g, u) \<in> set fs. tracked_frame g \<and> sender_mac g = mac \<and> unat u - unat t \<le> 60"
    and "length fs \<le> u64_max"
  shows "\<exists>a' l. arp_feed a fs = Some (a', l) \<and>
     storm_alerts l = (if \<exists>i < length fs. rate_reached rate t (i + 1) (snd (fs ! i)) then 1 else 0)"
proof -
  have ok: "arp_ok a" using recalls_feed [OF arp_new_ok recalls_new assms(1)] by simp
  have rt: "aa_storm_rate a = rate" using feed_thresholds [OF arp_new_ok assms(1)] by (simp add: arp_analyzer_new_def)
  have f: "tracked_frame f" "sender_mac f = mac" using assms(3,4) by auto
  let ?c0 = "hm_get (aa_storm_counters a) mac" and ?new = "\<lparr>sc_count_in_window = 1, sc_window_start_ts = t, sc_storm_emitted = False\<rparr>"
  have c: "storm_count t ?c0 = ?new"
    using assms(2) by (auto simp: storm_count_def word_le_nat_alt unat_sat_subw arp_flap_window_secs_def split: option.splits)
  obtain a1 where a1: "process_arp a f t = Some (a1, frame_report t a f)" "arp_ok a1"
    "hm_get (aa_storm_counters a1) mac = Some (storm_after rate t ?c0)" "aa_storm_rate a1 = rate"
    using process_arp_total [OF ok f(1), of t] f(2) rt by metis
  obtain a' l2 where l2: "arp_feed a1 fs' = Some (a', l2)" using arp_feed_ok [OF a1(2)] by blast
  define d where "d = storm_after rate t ?c0"
  have d: "sc_window_start_ts d = t" "sc_count_in_window d = 1" "sc_storm_emitted d \<longleftrightarrow> rate_reached rate t 1 t"
    by (auto simp: d_def storm_after_def c Let_def rate_reached_due)
  have "storm_alerts l2 = (if \<not> rate_reached rate t 1 t \<and> (\<exists>i < length fs'. rate_reached rate t (Suc i + 1) (snd (fs' ! i))) then 1 else 0)"
    using storm_window_alerts [OF a1(2) a1(3) [folded d_def] l2] assms(3-5) d a1(4) by simp
  moreover have "storm_alerts (frame_report t a f) = (if rate_reached rate t 1 t then 1 else 0)"
    by (simp add: frame_report_storm f(2) c rt rate_reached_due)
  moreover have "(\<exists>i < length fs. rate_reached rate t (i + 1) (snd (fs ! i)))
      \<longleftrightarrow> rate_reached rate t 1 t \<or> (\<exists>i < length fs'. rate_reached rate t (Suc i + 1) (snd (fs' ! i)))"
    by (simp add: Ex_less_Suc2 assms(3))
  moreover have "arp_feed a fs = Some (a', frame_report t a f @ l2)" using a1(1) l2 by (simp add: assms(3))
  moreover have "storm_alerts (frame_report t a f @ l2) = storm_alerts (frame_report t a f) + storm_alerts l2"
    by (simp add: storm_alerts_def)
  ultimately show ?thesis by auto
qed

theorem storm_reported_once_witness:
  "\<exists>a' l. arp_feed (arp_analyzer_new (\<lambda>_ _. 0) (\<lambda>_ _. 0) 3 2) [(sample_arp 1, 5), (sample_arp 1, 5), (sample_arp 1, 6)] = Some (a', l) \<and>
     storm_alerts l = 1"
proof -
  let ?fs = "[(sample_arp 1, 5), (sample_arp 1, 5), (sample_arp 1, 6)] :: (arp_frame \<times> u32) list"
  let ?n = "arp_analyzer_new (\<lambda>_ _. 0) (\<lambda>_ _. 0) 3 2"
  have "\<exists>a' l. arp_feed ?n ?fs = Some (a', l) \<and>
      storm_alerts l = (if \<exists>i < length ?fs. rate_reached 2 5 (i + 1) (snd (?fs ! i)) then 1 else 0)"
    by (rule storm_reported_once [of "\<lambda>_ _. 0" "\<lambda>_ _. 0" 3 2 "[]" ?n "[]" "[2, 0, 0, 0, 0, 1]" 5 ?fs "sample_arp 1"])
       (simp_all add: arp_analyzer_new_def sample_arp_def tracked_frame_def u64_max_def)
  moreover have "\<exists>i < length ?fs. rate_reached 2 5 (i + 1) (snd (?fs ! i))"
    by (rule exI [of _ 1]) (simp add: rate_reached_def)
  ultimately show ?thesis by auto
qed

end
