(* ===== verification/Decoder_Props.thy ===== *)
theory Decoder_Props
  imports Decoder
begin

text \<open>
  Properties of the decoder over any slicers that keep the documented promise of \<open>etherparse\<close>:
  the address slices of an ARP packet have the lengths its header declares, and the link-extension headers a lax
  slice reports lie, one after the other, within the bytes it was cut from. A slice of bytes never exceeds
  \<open>isize::MAX\<close>.
\<close>

definition arp_slice_ok :: "arp_packet_slice \<Rightarrow> bool" where
  "arp_slice_ok arp \<longleftrightarrow>
     length (sl_sender_hw_addr arp) = unat (sl_hw_addr_size arp) \<and> length (sl_target_hw_addr arp) = unat (sl_hw_addr_size arp) \<and>
     length (sl_sender_protocol_addr arp) = unat (sl_proto_addr_size arp) \<and>
     length (sl_target_protocol_addr arp) = unat (sl_proto_addr_size arp)"

definition net_ok :: "net_slice option \<Rightarrow> bool" where
  "net_ok net \<longleftrightarrow> (\<forall>arp. net = Some (ArpSlice arp) \<longrightarrow> arp_slice_ok arp)"

definition lax_ok :: "bytes \<Rightarrow> lax_sliced_packet \<Rightarrow> bool" where
  "lax_ok data l \<longleftrightarrow> net_ok (sp_net l) \<and> sum_list (sp_link_ext_lens l) \<le> length data"

definition slicers_ok :: "slicers \<Rightarrow> bool" where
  "slicers_ok S \<longleftrightarrow>
     (\<forall>data sp. from_ethernet S data = Inr sp \<or> from_ip S data = Inr sp \<or> from_linux_sll S data = Inr sp \<longrightarrow> net_ok (sp_net sp)) \<and>
     (\<forall>data l. lax_from_ethernet S data = Some l \<or> lax_from_ip S data = Some l \<longrightarrow> lax_ok data l) \<and>
     (\<forall>ty data. lax_ok data (lax_from_ether_type S ty data))"

definition ethernet_ipv4_arp :: "arp_packet_slice \<Rightarrow> bool" where
  "ethernet_ipv4_arp arp \<longleftrightarrow>
     sl_hw_addr_type arp = 0x0001 \<and> sl_proto_addr_type arp = 0x0800 \<and> sl_hw_addr_size arp = 6 \<and> sl_proto_addr_size arp = 4"

text \<open>The frame with the fields copied.\<close>

definition copied_arp :: "arp_packet_slice \<Rightarrow> bytes option \<Rightarrow> usize \<Rightarrow> arp_frame" where
  "copied_arp arp outer len =
     \<lparr>operation = sl_operation arp, sender_mac = sl_sender_hw_addr arp, sender_ip = sl_sender_protocol_addr arp,
      target_mac = sl_target_hw_addr arp, target_ip = sl_target_protocol_addr arp, outer_src_mac = outer, arp_packet_len = len\<rparr>"

lemma extract_arp_total:
  "arp_slice_ok arp \<Longrightarrow> extract_arp_frame arp outer len = Some (if ethernet_ipv4_arp arp then Some (copied_arp arp outer len) else None)"
  by (auto simp: extract_arp_frame_def arp_slice_ok_def ethernet_ipv4_arp_def array_of_def copied_arp_def)

lemma decode_arp_total:
  "arp_slice_ok arp \<Longrightarrow> decode_arp arp link len =
     Some (if ethernet_ipv4_arp arp then Inr (ArpFrame (copied_arp arp (outer_mac link) len)) else Inl NonEthernetIpv4Arp)"
  by (simp add: decode_arp_def extract_arp_total)

lemma decode_net_total:
  "net_ok (Some net) \<Longrightarrow> \<exists>r. decode_net strict_ip_triple net link tslice len = Some r"
  "net_ok (Some net) \<Longrightarrow> \<exists>r. decode_net lax_ip_triple net link tslice len = Some r"
  by (cases net; simp add: decode_net_def net_ok_def strict_ip_triple_def lax_ip_triple_def decode_arp_total)+

lemma sum_usize_exact: "acc + sum_list ns \<le> u64_max \<Longrightarrow> sum_usize acc ns = Some (acc + sum_list ns)"
  by (induction ns arbitrary: acc) (simp_all add: add64_def)

lemma link_cases:
  obtains m where "link = Some (Ethernet2 m)" | "link = Some OtherLink" | "link = None"
  by (cases link; cases "the link") auto

lemma arp_offset_total:
  assumes "sum_list (sp_link_ext_lens lax) \<le> isize_max"
  shows "arp_offset lax = Some (case sp_link lax of Some (Ethernet2 _) \<Rightarrow> Some (14 + sum_list (sp_link_ext_lens lax)) | _ \<Rightarrow> None)"
proof -
  have "14 + sum_list (sp_link_ext_lens lax) \<le> u64_max" using assms by (simp add: isize_max_def u64_max_def)
  then show ?thesis by (simp add: arp_offset_def sum_usize_exact add64_def split: option.splits link_slice.splits)
qed

lemma malformed_arp_header_total:
  assumes "sum_list (sp_link_ext_lens lax) \<le> isize_max"
  shows "malformed_arp_header data lax =
     Some (case sp_link lax of
         Some (Ethernet2 _) \<Rightarrow>
           (case byte_slice data (14 + sum_list (sp_link_ext_lens lax)) (14 + sum_list (sp_link_ext_lens lax) + 8) of
              None \<Rightarrow> False
            | Some hdr \<Rightarrow> be16 (hdr ! 0) (hdr ! 1) \<noteq> 0x0001 \<or> be16 (hdr ! 2) (hdr ! 3) \<noteq> 0x0800 \<or> hdr ! 4 \<noteq> 6 \<or> hdr ! 5 \<noteq> 4)
       | _ \<Rightarrow> False)"
proof -
  have "14 + sum_list (sp_link_ext_lens lax) + 8 \<le> u64_max" using assms by (simp add: isize_max_def u64_max_def)
  then show ?thesis
    by (cases "sp_link lax" rule: link_cases) (simp_all add: malformed_arp_header_def arp_offset_total [OF assms] add64_def)
qed

lemma decode_lax_total:
  assumes "net_ok (sp_net lax)" and "sum_list (sp_link_ext_lens lax) \<le> isize_max"
  shows "\<exists>r. decode_lax data lax = Some r"
  using assms by (cases "sp_net lax") (simp_all add: decode_lax_def decode_net_total malformed_arp_header_total)

lemma lax_parse_total:
  assumes "slicers_ok S"
  shows "\<exists>r. lax_parse S data link = Some r \<and> (\<forall>l. r = Inr l \<longrightarrow> lax_ok data l)"
proof (cases link)
  case LINUX_SLL
  have "lax_ok data (lax_from_ether_type S ty (drop 16 data))" for ty
  proof -
    have "lax_ok (drop 16 data) (lax_from_ether_type S ty (drop 16 data))" using assms by (simp add: slicers_ok_def)
    then show ?thesis by (auto simp: lax_ok_def)
  qed
  then show ?thesis using LINUX_SLL by (auto simp: lax_parse_def byte_slice_def sll_header_len_def)
qed (use assms in \<open>auto simp: lax_parse_def slicers_ok_def split: option.splits\<close>)

lemma strict_slice_ok: "slicers_ok S \<Longrightarrow> strict_slice S data link = Inr (Inr sp) \<Longrightarrow> net_ok (sp_net sp)"
  by (cases link) (auto simp: strict_slice_def slicers_ok_def)

lemma decode_total:
  assumes "slicers_ok S" and len: "length data \<le> isize_max"
  shows "\<exists>r. decode_packet S data link = Some r"
proof (cases "strict_slice S data link")
  case (Inr s)
  show ?thesis
  proof (cases s)
    case (Inl e)
    obtain r where r: "lax_parse S data link = Some r" "\<forall>l. r = Inr l \<longrightarrow> lax_ok data l" using lax_parse_total [OF assms(1)] by blast
    have "\<exists>x. decode_lax data l = Some x" if "r = Inr l" for l
      using r(2) that len by (intro decode_lax_total) (auto simp: lax_ok_def)
    then show ?thesis using Inr Inl r(1) by (cases e; cases r) (auto simp: decode_packet_def)
  next
    case (Inr sp)
    then have "net_ok (sp_net sp)" using strict_slice_ok [OF assms(1)] \<open>strict_slice S data link = Inr s\<close> by simp
    then show ?thesis using \<open>strict_slice S data link = Inr s\<close> Inr
      by (cases "sp_net sp") (auto simp: decode_packet_def decode_net_total)
  qed
qed (simp add: decode_packet_def)

text \<open>C29. Decoding never panics, on any bytes that fit in memory and any link type: none of the conversions to
  fixed-size arrays fails, the arms marked unreachable are, no slice is out of range, and the offset of the ARP
  header behind the link extensions (their summed lengths, the Ethernet header and the eight bytes that are read)
  does not overflow \<open>usize\<close>.\<close>

theorem decode_never_panics:
  assumes "slicers_ok S" and "length data \<le> isize_max"
  shows "\<exists>r. decode_packet S data link = Some r"
  by (rule decode_total [OF assms])

text \<open>A concrete slicer, for ARP over Ethernet.\<close>

definition sample_arp_slice :: "bytes \<Rightarrow> arp_packet_slice" where
  "sample_arp_slice bs =
     (let h = unat (bs ! 4); p = unat (bs ! 5) in
      \<lparr>sl_hw_addr_type = be16 (bs ! 0) (bs ! 1), sl_proto_addr_type = be16 (bs ! 2) (bs ! 3), sl_hw_addr_size = bs ! 4,
       sl_proto_addr_size = bs ! 5, sl_operation = be16 (bs ! 6) (bs ! 7), sl_sender_hw_addr = take h (drop 8 bs),
       sl_sender_protocol_addr = take p (drop (8 + h) bs), sl_target_hw_addr = take h (drop (8 + h + p) bs),
       sl_target_protocol_addr = take p (drop (8 + 2 * h + p) bs)\<rparr>)"

definition sample_slicer :: "bytes \<Rightarrow> slice_error + sliced_packet" where
  "sample_slicer data =
     (let body = drop 14 data in
      if length body < 8 \<or> be16 (data ! 12) (data ! 13) \<noteq> 0x0806 \<or> length body < 8 + 2 * unat (body ! 4) + 2 * unat (body ! 5) then Inl LenError
      else Inr \<lparr>sp_link = Some (Ethernet2 (take 6 (drop 6 data))), sp_net = Some (ArpSlice (sample_arp_slice body)), sp_transport = None\<rparr>)"

definition no_lax :: lax_sliced_packet where
  "no_lax = \<lparr>sp_link = Some (Ethernet2 []), sp_net = None, sp_transport = None, sp_link_ext_lens = [], sp_stop_err = Some ArpLayer\<rparr>"

text \<open>With a VLAN tag, when there are bytes for one and the type field announces it.\<close>

definition tagged_lax :: "bytes \<Rightarrow> lax_sliced_packet" where
  "tagged_lax data = (if 18 \<le> length data \<and> be16 (data ! 12) (data ! 13) = 0x8100 then no_lax\<lparr>sp_link_ext_lens := [4]\<rparr> else no_lax)"

definition sample_slicers :: slicers where
  "sample_slicers =
     \<lparr>from_ethernet = sample_slicer, from_ip = (\<lambda>_. Inl StructuralError), from_linux_sll = (\<lambda>_. Inl StructuralError),
      lax_from_ethernet = (\<lambda>data. Some (tagged_lax data)), lax_from_ip = (\<lambda>_. None), lax_from_ether_type = (\<lambda>_ _. no_lax)\<rparr>"

lemma sample_arp_slice_ok:
  "\<not> (length body < 8 \<or> length body < 8 + 2 * unat (body ! 4) + 2 * unat (body ! 5)) \<Longrightarrow> arp_slice_ok (sample_arp_slice body)"
  by (auto simp: arp_slice_ok_def sample_arp_slice_def min_def Let_def)

lemma sample_slicers_ok: "slicers_ok sample_slicers"
  using sample_arp_slice_ok
  by (auto simp: slicers_ok_def lax_ok_def sample_slicers_def sample_slicer_def net_ok_def tagged_lax_def no_lax_def Let_def split: if_splits)

text \<open>A frame with a VLAN tag that ends in the ARP layer, eight bytes into it.\<close>

definition tagged_arp :: bytes where
  "tagged_arp = [0, 0, 0, 0, 0, 0, 0, 0, 0, 0, 0, 0, 0x81, 0, 0, 7, 8, 6, 0, 1, 8, 0, 6, 200, 0, 1]"

theorem decode_never_panics_witness: "\<exists>r. decode_packet sample_slicers tagged_arp ETHERNET = Some r"
  by (rule decode_never_panics [OF sample_slicers_ok]) (simp add: tagged_arp_def isize_max_def)

text \<open>How ARP reaches the decoder: from the strict slicer or, after a length error, from the lax one.\<close>

definition delivers_arp :: "slicers \<Rightarrow> bytes \<Rightarrow> data_link \<Rightarrow> link_slice option \<Rightarrow> arp_packet_slice \<Rightarrow> bool" where
  "delivers_arp S data dl link arp \<longleftrightarrow>
     (\<exists>sp. strict_slice S data dl = Inr (Inr sp) \<and> sp_net sp = Some (ArpSlice arp) \<and> sp_link sp = link) \<or>
     (\<exists>l. strict_slice S data dl = Inr (Inl LenError) \<and> lax_parse S data dl = Some (Inr l) \<and> sp_net l = Some (ArpSlice arp) \<and> sp_link l = link)"

text \<open>ARP is decoded the same way however it is reached. If the slicer in use, strict or lax,
  delivers an ARP packet, it is decoded, each field copied byte for byte, exactly if all four header fields say
  Ethernet/IPv4, and is otherwise the error that is reported as malformed ARP.\<close>

theorem decode_arp_exact:
  assumes "slicers_ok S" and "delivers_arp S data dl link arp"
  shows "decode_packet S data dl =
     Some (if ethernet_ipv4_arp arp then Inr (ArpFrame (copied_arp arp (outer_mac link) (length data))) else Inl NonEthernetIpv4Arp)"
  using assms(2) unfolding delivers_arp_def
proof (elim disjE exE conjE)
  fix sp
  assume s: "strict_slice S data dl = Inr (Inr sp)" "sp_net sp = Some (ArpSlice arp)" "sp_link sp = link"
  then have "arp_slice_ok arp" using strict_slice_ok [OF assms(1) s(1)] by (simp add: net_ok_def)
  then show ?thesis using s by (simp add: decode_packet_def decode_net_def decode_arp_total)
next
  fix l
  assume s: "strict_slice S data dl = Inr (Inl LenError)" "lax_parse S data dl = Some (Inr l)"
    "sp_net l = Some (ArpSlice arp)" "sp_link l = link"
  then have "arp_slice_ok arp" using lax_parse_total [OF assms(1), of data dl] by (simp add: lax_ok_def net_ok_def)
  then show ?thesis using s by (simp add: decode_packet_def decode_lax_def decode_net_def decode_arp_total)
qed

definition sample_arp_packet :: bytes where
  "sample_arp_packet =
     [255, 255, 255, 255, 255, 255, 2, 0, 0, 0, 0, 1, 8, 6, 0, 1, 8, 0, 6, 4, 0, 1, 2, 0, 0, 0, 0, 1, 10, 0, 0, 1,
      0, 0, 0, 0, 0, 0, 10, 0, 0, 2]"

theorem decode_arp_exact_witness:
  "\<exists>f. decode_packet sample_slicers sample_arp_packet ETHERNET = Some (Inr (ArpFrame f)) \<and>
     sender_mac f = [2, 0, 0, 0, 0, 1] \<and> sender_ip f = [10, 0, 0, 1] \<and> target_ip f = [10, 0, 0, 2] \<and> outer_src_mac f = Some [2, 0, 0, 0, 0, 1]"
proof -
  let ?arp = "sample_arp_slice (drop 14 sample_arp_packet)"
  have d: "delivers_arp sample_slicers sample_arp_packet ETHERNET (Some (Ethernet2 [2, 0, 0, 0, 0, 1])) ?arp"
    by (simp add: delivers_arp_def strict_slice_def sample_slicers_def sample_slicer_def sample_arp_packet_def be16_def Let_def)
  have "ethernet_ipv4_arp ?arp"
    by (simp add: ethernet_ipv4_arp_def sample_arp_slice_def sample_arp_packet_def be16_def Let_def)
  then show ?thesis using decode_arp_exact [OF sample_slicers_ok d]
    by (simp add: copied_arp_def outer_mac_def sample_arp_slice_def sample_arp_packet_def Let_def)
qed



end
