(* ===== verification/Totals.thy ===== *)
theory Totals
  imports Decoder
begin

text \<open>
  The DNS analyzer, \<open>src/analyzer/dns.rs\<close>, which counts queries and responses, and the totals of a
  capture, \<open>src/summary.rs\<close>. The counters of protocols, services and bytes use plain addition, which
  panics on overflow; hash sets are lists without repetition.
\<close>

unbundle bit_operations_syntax

section \<open>DNS\<close>

record dns_analyzer =
  dn_query_count :: u64
  dn_response_count :: u64

definition dns_analyzer_new :: dns_analyzer where
  "dns_analyzer_new = \<lparr>dn_query_count = 0, dn_response_count = 0\<rparr>"

definition is_dns_port :: "u16 \<Rightarrow> u16 \<Rightarrow> bool" where
  "is_dns_port src dst \<longleftrightarrow> src = 53 \<or> dst = 53"

definition is_query :: "bytes \<Rightarrow> bool" where
  "is_query bs = (if length bs < 12 then False else bs ! 2 AND 0x80 = 0)"

definition dns_can_decode :: "parsed_packet \<Rightarrow> bool" where
  "dns_can_decode p =
     (case transport p of
        UdpInfo src dst \<Rightarrow> is_dns_port src dst
      | TcpInfo src dst _ _ _ _ _ \<Rightarrow> is_dns_port src dst
      | NoTransport \<Rightarrow> False)"

definition dns_analyze :: "dns_analyzer \<Rightarrow> parsed_packet \<Rightarrow> dns_analyzer \<times> finding list" where
  "dns_analyze a p =
     (if is_query (payload p) then a\<lparr>dn_query_count := sat_add64 (dn_query_count a) 1\<rparr>
      else a\<lparr>dn_response_count := sat_add64 (dn_response_count a) 1\<rparr>, [])"

definition dns_summarize :: "dns_analyzer \<Rightarrow> analysis_summary rust" where
  "dns_summarize a = do {
     n \<leftarrow> add64 (dn_query_count a) (dn_response_count a);
     Some \<lparr>analyzer_name = ''DNS'', packets_analyzed = n,
           detail = [''dns_queries'' \<mapsto> Num (dn_query_count a), ''dns_responses'' \<mapsto> Num (dn_response_count a)]\<rparr>
   }"

section \<open>Totals\<close>

record capture_summary =
  cs_total_packets :: u64
  cs_total_bytes :: u64
  cs_skipped_packets :: u64
  cs_hosts :: "ip_addr list"
  cs_protocols :: "protocol \<rightharpoonup> u64"
  cs_services :: "string \<rightharpoonup> u64"

definition capture_summary_new :: capture_summary where
  "capture_summary_new =
     \<lparr>cs_total_packets = 0, cs_total_bytes = 0, cs_skipped_packets = 0, cs_hosts = [], cs_protocols = Map.empty, cs_services = Map.empty\<rparr>"

text \<open>\<open>*map.entry(k).or_insert(0) += 1\<close>.\<close>

definition count_key :: "'k \<Rightarrow> ('k \<rightharpoonup> u64) \<Rightarrow> ('k \<rightharpoonup> u64) rust" where
  "count_key k m = do { n \<leftarrow> add64 (case m k of Some c \<Rightarrow> c | None \<Rightarrow> 0) 1; Some (m(k \<mapsto> n)) }"

definition ingest :: "capture_summary \<Rightarrow> parsed_packet \<Rightarrow> capture_summary rust" where
  "ingest s p = do {
     bytes_sum \<leftarrow> add64 (cs_total_bytes s) (packet_len p);
     protos \<leftarrow> count_key (protocol p) (cs_protocols s);
     svcs \<leftarrow> (case app_protocol_hint p of Some svc \<Rightarrow> count_key svc (cs_services s) | None \<Rightarrow> Some (cs_services s));
     Some (s\<lparr>cs_total_packets := sat_add64 (cs_total_packets s) 1, cs_total_bytes := bytes_sum,
             cs_hosts := List.insert (dst_ip p) (List.insert (src_ip p) (cs_hosts s)), cs_protocols := protos, cs_services := svcs\<rparr>)
   }"

definition unique_hosts :: "capture_summary \<Rightarrow> ip_addr list" where
  "unique_hosts s = sort (cs_hosts s)"

section \<open>Properties\<close>

text \<open>The totals after a list of packets.\<close>

definition ingested :: "parsed_packet list \<Rightarrow> capture_summary \<Rightarrow> bool" where
  "ingested ps s \<longleftrightarrow>
     cs_total_packets s = length ps \<and> cs_total_bytes s = sum_list (map packet_len ps) \<and>
     distinct (cs_hosts s) \<and> set (cs_hosts s) = src_ip ` set ps \<union> dst_ip ` set ps \<and>
     (\<forall>pr. (case cs_protocols s pr of Some n \<Rightarrow> n | None \<Rightarrow> 0) = length (filter (\<lambda>p. protocol p = pr) ps)) \<and>
     (\<forall>svc. (case cs_services s svc of Some n \<Rightarrow> n | None \<Rightarrow> 0) = length (filter (\<lambda>p. app_protocol_hint p = Some svc) ps)) \<and>
     cs_skipped_packets s = 0"

lemma ingested_new: "ingested [] capture_summary_new"
  by (simp add: ingested_def capture_summary_new_def)

lemma count_key_ok:
  assumes "(case m k of Some c \<Rightarrow> c | None \<Rightarrow> 0) < u64_max"
  obtains m' where "count_key k m = Some m'"
    "\<And>k'. (case m' k' of Some c \<Rightarrow> c | None \<Rightarrow> 0) = (case m k' of Some c \<Rightarrow> c | None \<Rightarrow> 0) + (if k' = k then 1 else 0)"
  using assms that [of "m(k \<mapsto> (case m k of Some c \<Rightarrow> c | None \<Rightarrow> 0) + 1)"] by (simp add: count_key_def)

lemma ingest_step:
  assumes "ingested ps s" and "length ps < u64_max" and "sum_list (map packet_len ps) + packet_len p \<le> u64_max"
  shows "\<exists>s'. ingest s p = Some s' \<and> ingested (ps @ [p]) s'"
proof -
  have cnt: "(case cs_protocols s pr of Some n \<Rightarrow> n | None \<Rightarrow> 0) < u64_max" "(case cs_services s svc of Some n \<Rightarrow> n | None \<Rightarrow> 0) < u64_max" for pr svc
    using assms(1,2) length_filter_le [of _ ps] unfolding ingested_def by (metis le_less_trans)+
  obtain protos where pr: "count_key (protocol p) (cs_protocols s) = Some protos"
    "\<And>k. (case protos k of Some c \<Rightarrow> c | None \<Rightarrow> 0) = (case cs_protocols s k of Some c \<Rightarrow> c | None \<Rightarrow> 0) + (if k = protocol p then 1 else 0)"
    using count_key_ok [of "cs_protocols s" "protocol p", OF cnt(1)] by metis
  obtain svcs where sv: "(case app_protocol_hint p of Some svc \<Rightarrow> count_key svc (cs_services s) | None \<Rightarrow> Some (cs_services s)) = Some svcs"
    "\<And>k. (case svcs k of Some c \<Rightarrow> c | None \<Rightarrow> 0) = (case cs_services s k of Some c \<Rightarrow> c | None \<Rightarrow> 0) + (if app_protocol_hint p = Some k then 1 else 0)"
  proof (cases "app_protocol_hint p")
    case (Some svc)
    obtain m where "count_key svc (cs_services s) = Some m"
      "\<And>k. (case m k of Some c \<Rightarrow> c | None \<Rightarrow> 0) = (case cs_services s k of Some c \<Rightarrow> c | None \<Rightarrow> 0) + (if k = svc then 1 else 0)"
      using count_key_ok [of "cs_services s" svc, OF cnt(2)] by metis
    then show ?thesis using that [of m] Some by auto
  qed (use that [of "cs_services s"] in simp)
  show ?thesis
    using assms pr sv by (auto simp: ingest_def ingested_def sat_add64_exact)
qed

end
