(* ===== verification/Reader.thy ===== *)
theory Reader
  imports Decoder "HOL-Library.Sublist"
begin

text \<open>
  The capture reader, \<open>src/reader.rs\<close>. The parsers of the crate \<open>pcap_file\<close> are a parameter, the record
  \<open>pcap_crate\<close>: what \<open>PcapNgParser::new\<close>, \<open>section\<close> and \<open>next_raw_block\<close> return on a slice, what \<open>PcapReader\<close>
  returns on a stream, the text of an error and \<open>DataLink::from\<close>. The states of both parsers are arbitrary types.
  What is modelled is all of the reader's own code: the magic probe, the decoders of the bodies of the section header, interface
  description, enhanced and simple packet blocks, the conversion of timestamps, the walk over the blocks
  with its guards in their order, and the size gate of \<open>from_file\<close>.

  A stream is the list of what its \<open>read\<close> calls return: chunks, or an error of the operating system.
  A \<open>None\<close> is a panic, or, for the two loops whose end depends on the crate, a loop that never ends.
\<close>

section \<open>Constants\<close>

definition PCAPNG_MAGIC :: bytes where
  "PCAPNG_MAGIC = [0x0A, 0x0D, 0x0D, 0x0A]"

definition CLASSIC_PCAP_MAGICS :: "bytes list" where
  "CLASSIC_PCAP_MAGICS =
     [[0xA1, 0xB2, 0xC3, 0xD4], [0xD4, 0xC3, 0xB2, 0xA1], [0xA1, 0xB2, 0x3C, 0x4D], [0x4D, 0x3C, 0xB2, 0xA1]]"

definition SHB_BOM_BIG_ENDIAN :: bytes where
  "SHB_BOM_BIG_ENDIAN = [0x1A, 0x2B, 0x3C, 0x4D]"

definition SHB_BOM_LITTLE_ENDIAN :: bytes where
  "SHB_BOM_LITTLE_ENDIAN = [0x4D, 0x3C, 0x2B, 0x1A]"

definition SHB_BLOCK_TYPE :: u32 where
  "SHB_BLOCK_TYPE = 0x0A0D0D0A"

definition OPB_BLOCK_TYPE :: u32 where
  "OPB_BLOCK_TYPE = 2"

definition SPB_BLOCK_TYPE :: u32 where
  "SPB_BLOCK_TYPE = 3"

definition NRB_BLOCK_TYPE :: u32 where
  "NRB_BLOCK_TYPE = 4"

definition ISB_BLOCK_TYPE :: u32 where
  "ISB_BLOCK_TYPE = 5"

definition EPB_BLOCK_TYPE :: u32 where
  "EPB_BLOCK_TYPE = 6"

definition SJE_BLOCK_TYPE :: u32 where
  "SJE_BLOCK_TYPE = 9"

definition DSB_BLOCK_TYPE :: u32 where
  "DSB_BLOCK_TYPE = 10"

definition IDB_BLOCK_TYPE :: u32 where
  "IDB_BLOCK_TYPE = 1"

lemmas block_types =
  SHB_BLOCK_TYPE_def OPB_BLOCK_TYPE_def SPB_BLOCK_TYPE_def NRB_BLOCK_TYPE_def ISB_BLOCK_TYPE_def
  EPB_BLOCK_TYPE_def SJE_BLOCK_TYPE_def DSB_BLOCK_TYPE_def IDB_BLOCK_TYPE_def

definition MAX_PCAPNG_FILE_BYTES :: u64 where
  "MAX_PCAPNG_FILE_BYTES = 4294967296"

definition MAX_INTERFACE_TABLE_ENTRIES :: usize where
  "MAX_INTERFACE_TABLE_ENTRIES = 65535"

definition SHB_BODY_FIXED_BYTES :: usize where
  "SHB_BODY_FIXED_BYTES = 16"

definition IDB_BODY_FIXED_BYTES :: usize where
  "IDB_BODY_FIXED_BYTES = 8"

definition EPB_FIXED_OVERHEAD_BYTES :: usize where
  "EPB_FIXED_OVERHEAD_BYTES = 20"

definition SPB_FIXED_OVERHEAD_BYTES :: usize where
  "SPB_FIXED_OVERHEAD_BYTES = 4"

lemmas fixed_sizes = SHB_BODY_FIXED_BYTES_def IDB_BODY_FIXED_BYTES_def EPB_FIXED_OVERHEAD_BYTES_def SPB_FIXED_OVERHEAD_BYTES_def

definition DEFAULT_TSRESOL :: u8 where
  "DEFAULT_TSRESOL = 6"

definition BASE10_POWERS :: "u64 list" where
  "BASE10_POWERS =
     [1, 10, 100, 1000, 10000, 100000, 1000000, 10000000, 100000000, 1000000000,
      10000000000, 100000000000, 1000000000000, 10000000000000, 100000000000000,
      1000000000000000, 10000000000000000, 100000000000000000, 1000000000000000000, 10000000000000000000]"

section \<open>Types\<close>

record interface_info =
  linktype :: data_link
  if_tsresol :: u8

record raw_packet =
  timestamp_secs :: u32
  timestamp_usecs :: u32
  pkt_data :: bytes

datatype section_endianness = BigEndian | LittleEndian

record pcap_source =
  packets :: "raw_packet list"
  datalink :: data_link
  skipped_blocks :: u32
  opb_skipped :: u32
  is_pcapng :: bool

record shb_info =
  endianness :: section_endianness
  major_version :: u16
  minor_version :: u16

datatype epb_decode_error = EpbBodyTooShort | EmptyInterfaceTable | InterfaceIdOob

datatype shb_decode_error = ShbBodyTooShort | InvalidBom | UnsupportedVersion

text \<open>\<open>PcapError\<close> of the crate.\<close>

datatype pcap_error = InvalidField string | OtherPcapError string

text \<open>The errors of the reader, one constructor for each \<open>anyhow!\<close>, with the values its message interpolates.
  Their \<open>E-INP\<close> codes are 008 for the bodies, 009 for a packet block before any interface, 010 for framing and an
  interface id out of range, 011 to 015 as marked.\<close>

datatype read_error =
    ShbTooShort nat | ShbBadBom bytes | UnsupportedMajor u16
  | EpbTooShort nat | EpbNoInterface u32 | EpbInterfaceOob u32 nat | EpbCapturedLen u32 nat | EpbPadding u32 nat nat
  | TlvOverrun u16 nat nat | BadTsresol nat
  | CrateShbTooShort pcap_error | CrateShbBom pcap_error | CrateShbFraming pcap_error
  | CrateIdbTooShort | CrateIdbReserved | CrateFraming pcap_error | Stalled u32 nat nat
  | LinkConflict data_link nat data_link \<comment> \<open>E-INP-011\<close>
  | SecondSection u32 \<comment> \<open>E-INP-012\<close>
  | IdbAfterPacket \<comment> \<open>E-INP-013\<close>
  | FileTooLarge u64 \<comment> \<open>E-INP-014\<close>
  | InterfaceTableFull \<comment> \<open>E-INP-015\<close>
  | IdbTooShort nat | UnsupportedLink data_link \<comment> \<open>E-INP-001\<close>
  | SpbNoInterface | SpbTooShort nat
  | MagicReadFailed | StreamTooShort nat | StreamReadFailed | PcapHeader pcap_error | PcapPacket pcap_error
  | UnknownMagic bytes | OpenFailed | StatFailed

section \<open>Multi-byte fields\<close>

text \<open>\<open>u16::from_be_bytes\<close>, \<open>u32::from_be_bytes\<close> and their little-endian twins on bytes of a slice: a panic
  when one of them is out of range.\<close>

definition be32 :: "u8 \<Rightarrow> u8 \<Rightarrow> u8 \<Rightarrow> u8 \<Rightarrow> u32" where
  "be32 a b c d = ((ucast a * 256 + ucast b) * 256 + ucast c) * 256 + ucast d"

definition read16 :: "section_endianness \<Rightarrow> bytes \<Rightarrow> nat \<Rightarrow> u16 rust" where
  "read16 en bs i = do {
     a \<leftarrow> index bs i; b \<leftarrow> index bs (i + 1);
     Some (case en of BigEndian \<Rightarrow> be16 a b | LittleEndian \<Rightarrow> be16 b a)
   }"

definition read32 :: "section_endianness \<Rightarrow> bytes \<Rightarrow> nat \<Rightarrow> u32 rust" where
  "read32 en bs i = do {
     a \<leftarrow> index bs i; b \<leftarrow> index bs (i + 1); c \<leftarrow> index bs (i + 2); d \<leftarrow> index bs (i + 3);
     Some (case en of BigEndian \<Rightarrow> be32 a b c d | LittleEndian \<Rightarrow> be32 d c b a)
   }"

section \<open>The section header block\<close>

definition parse_shb_body :: "bytes \<Rightarrow> (read_error + shb_info) rust" where
  "parse_shb_body body =
     (if length body < SHB_BODY_FIXED_BYTES then Some (Inl (ShbTooShort (length body)))
      else do {
        bom \<leftarrow> byte_slice body 0 4;
        let known = (if bom = SHB_BOM_BIG_ENDIAN then Some BigEndian
                     else if bom = SHB_BOM_LITTLE_ENDIAN then Some LittleEndian else None);
        (case known of
           None \<Rightarrow> Some (Inl (ShbBadBom bom))
         | Some en \<Rightarrow> do {
             major \<leftarrow> read16 en body 4;
             minor \<leftarrow> read16 en body 6;
             Some (if major \<noteq> 1 then Inl (UnsupportedMajor major)
                   else Inr \<lparr>endianness = en, major_version = major, minor_version = minor\<rparr>)
           })
      })"

definition parse_shb_body_discriminant :: "bytes \<Rightarrow> (shb_decode_error + shb_info) rust" where
  "parse_shb_body_discriminant body =
     (if length body < SHB_BODY_FIXED_BYTES then Some (Inl ShbBodyTooShort)
      else do {
        bom \<leftarrow> byte_slice body 0 4;
        let known = (if bom = SHB_BOM_BIG_ENDIAN then Some BigEndian
                     else if bom = SHB_BOM_LITTLE_ENDIAN then Some LittleEndian else None);
        (case known of
           None \<Rightarrow> Some (Inl InvalidBom)
         | Some en \<Rightarrow> do {
             major \<leftarrow> read16 en body 4;
             minor \<leftarrow> read16 en body 6;
             Some (if major \<noteq> 1 then Inl UnsupportedVersion
                   else Inr \<lparr>endianness = en, major_version = major, minor_version = minor\<rparr>)
           })
      })"

section \<open>Timestamps\<close>

text \<open>Checked division of \<open>u64\<close> (a panic on zero) and multiplication of \<open>u128\<close>.\<close>

definition div64 :: "nat \<Rightarrow> nat \<Rightarrow> nat rust" where
  [rust_defs]: "div64 a b = (if b = 0 then None else Some (a div b))"

definition rem64 :: "nat \<Rightarrow> nat \<Rightarrow> nat rust" where
  [rust_defs]: "rem64 a b = (if b = 0 then None else Some (a mod b))"

definition mul128 :: "nat \<Rightarrow> nat \<Rightarrow> nat rust" where
  [rust_defs]: "mul128 a b = (if a * b < 2 ^ 128 then Some (a * b) else None)"

definition u32_max :: nat where
  "u32_max = 4294967295"

unbundle bit_operations_syntax

definition pcapng_timestamp_to_secs_usecs :: "u32 \<Rightarrow> u32 \<Rightarrow> u8 \<Rightarrow> (u32 \<times> u32) rust" where
  "pcapng_timestamp_to_secs_usecs ts_high ts_low tsresol =
     (let ticks = push_bit 32 (unat ts_high) OR unat ts_low in
      if tsresol = 6
      then Some (word_of_nat (min (ticks div 1000000) u32_max), word_of_nat (ticks mod 1000000))
      else do {
        ticks_per_sec \<leftarrow>
          (if tsresol AND 0x80 = 0
           then (let e = unat (tsresol AND 0x7F) in
                 if e < length BASE10_POWERS then index BASE10_POWERS e else Some u64_max)
           else (let e = unat (min (tsresol AND 0x7F) 63) in
                 Some (if e < 64 then 2 ^ e else u64_max)));
        s \<leftarrow> div64 ticks ticks_per_sec;
        r \<leftarrow> rem64 ticks ticks_per_sec;
        scaled \<leftarrow> mul128 r 1000000;
        us \<leftarrow> div64 scaled ticks_per_sec;
        Some (word_of_nat (min s u32_max), word_of_nat us)
      })"

section \<open>Packet blocks\<close>

definition decode_epb_body :: "bytes \<Rightarrow> interface_info list \<Rightarrow> section_endianness \<Rightarrow> (read_error + raw_packet) rust" where
  "decode_epb_body body interfaces en =
     (if length body < EPB_FIXED_OVERHEAD_BYTES then Some (Inl (EpbTooShort (length body)))
      else do {
        interface_id \<leftarrow> read32 en body 0;
        if interfaces = [] then Some (Inl (EpbNoInterface interface_id))
        else if unat interface_id \<ge> length interfaces then Some (Inl (EpbInterfaceOob interface_id (length interfaces)))
        else do {
          iface \<leftarrow> index interfaces (unat interface_id);
          ts_high \<leftarrow> read32 en body 4;
          ts_low \<leftarrow> read32 en body 8;
          captured_len \<leftarrow> read32 en body 12;
          _ \<leftarrow> read32 en body 16;
          let available = length body - EPB_FIXED_OVERHEAD_BYTES;
          let pad_len = (4 - unat captured_len mod 4) mod 4;
          let padded_end = sat_add64 (sat_add64 EPB_FIXED_OVERHEAD_BYTES (unat captured_len)) pad_len;
          if unat captured_len > available then Some (Inl (EpbCapturedLen captured_len available))
          else if padded_end > length body then Some (Inl (EpbPadding captured_len pad_len (length body)))
          else do {
            e \<leftarrow> add64 EPB_FIXED_OVERHEAD_BYTES (unat captured_len);
            packet_data \<leftarrow> byte_slice body EPB_FIXED_OVERHEAD_BYTES e;
            (ts_sec, ts_usecs) \<leftarrow> pcapng_timestamp_to_secs_usecs ts_high ts_low (if_tsresol iface);
            Some (Inr \<lparr>timestamp_secs = ts_sec, timestamp_usecs = ts_usecs, pkt_data = packet_data\<rparr>)
          }
        }
      })"

definition decode_epb_body_discriminant :: "bytes \<Rightarrow> interface_info list \<Rightarrow> section_endianness \<Rightarrow> (epb_decode_error + raw_packet) rust" where
  "decode_epb_body_discriminant body interfaces en =
     (if length body < EPB_FIXED_OVERHEAD_BYTES then Some (Inl EpbBodyTooShort)
      else do {
        interface_id \<leftarrow> read32 en body 0;
        if interfaces = [] then Some (Inl EmptyInterfaceTable)
        else if unat interface_id \<ge> length interfaces then Some (Inl InterfaceIdOob)
        else do {
          iface \<leftarrow> index interfaces (unat interface_id);
          ts_high \<leftarrow> read32 en body 4;
          ts_low \<leftarrow> read32 en body 8;
          captured_len \<leftarrow> read32 en body 12;
          _ \<leftarrow> read32 en body 16;
          let available = length body - EPB_FIXED_OVERHEAD_BYTES;
          let pad_len = (4 - unat captured_len mod 4) mod 4;
          let padded_end = sat_add64 (sat_add64 EPB_FIXED_OVERHEAD_BYTES (unat captured_len)) pad_len;
          if unat captured_len > available then Some (Inl EpbBodyTooShort)
          else if padded_end > length body then Some (Inl EpbBodyTooShort)
          else do {
            e \<leftarrow> add64 EPB_FIXED_OVERHEAD_BYTES (unat captured_len);
            packet_data \<leftarrow> byte_slice body EPB_FIXED_OVERHEAD_BYTES e;
            (ts_sec, ts_usecs) \<leftarrow> pcapng_timestamp_to_secs_usecs ts_high ts_low (if_tsresol iface);
            Some (Inr \<lparr>timestamp_secs = ts_sec, timestamp_usecs = ts_usecs, pkt_data = packet_data\<rparr>)
          }
        }
      })"

section \<open>Options of an interface description block\<close>

text \<open>The loop of \<open>parse_idb_options\<close> from \<open>cursor\<close> on.\<close>

function tlv_walk :: "section_endianness \<Rightarrow> bytes \<Rightarrow> usize \<Rightarrow> (read_error + u8) rust" where
  "tlv_walk en opts cursor = do {
     c4 \<leftarrow> add64 cursor 4;
     if c4 > length opts then Some (Inr DEFAULT_TSRESOL)
     else do {
       opt_code \<leftarrow> read16 en opts cursor;
       len16 \<leftarrow> read16 en opts (cursor + 2);
       let opt_len = unat len16;
       if opt_code = 0 then Some (Inr DEFAULT_TSRESOL)
       else do {
         value_end \<leftarrow> add64 c4 opt_len;
         if value_end > length opts then Some (Inl (TlvOverrun opt_code opt_len (length opts - c4)))
         else if opt_code = 9 then (if opt_len \<noteq> 1 then Some (Inl (BadTsresol opt_len)) else map_option Inr (index opts c4))
         else do {
           let padded = (opt_len + 3) div 4 * 4; \<comment> \<open>\<open>(opt_len + 3) & !3\<close>\<close>
           next \<leftarrow> add64 c4 padded;
           tlv_walk en opts next
         }
       }
     }
   }"
  by pat_completeness auto

termination
  by (relation "measure (\<lambda>(en, opts, cursor). length opts - cursor)") auto

declare tlv_walk.simps [simp del]

definition parse_idb_options :: "bytes \<Rightarrow> section_endianness \<Rightarrow> (read_error + u8) rust" where
  "parse_idb_options body en =
     (if length body > IDB_BODY_FIXED_BYTES
      then do { opts \<leftarrow> byte_slice body IDB_BODY_FIXED_BYTES (length body); tlv_walk en opts 0 }
      else Some (Inr DEFAULT_TSRESOL))"

definition spb_captured_len :: "u32 \<Rightarrow> bytes \<Rightarrow> u32" where
  "spb_captured_len original_len body = min original_len (word_of_nat (length body - SPB_FIXED_OVERHEAD_BYTES))"

section \<open>The crate\<close>

record raw_block =
  block_type :: u32
  block_body :: bytes

datatype crate_endianness = Big | Little

datatype ts_resolution = MicroSecond | NanoSecond

record pcap_record =
  ts_sec :: u32
  ts_frac :: u32
  record_data :: bytes

datatype chunk = Chunk bytes | ReadError

record ('p, 'c) pcap_crate =
  error_text :: "pcap_error \<Rightarrow> string"
  data_link_from :: "u32 \<Rightarrow> data_link"
  ng_new :: "bytes \<Rightarrow> pcap_error + (bytes \<times> 'p)"
  ng_section :: "'p \<Rightarrow> u16 \<times> crate_endianness"
  next_raw_block :: "'p \<Rightarrow> bytes \<Rightarrow> pcap_error + (bytes \<times> raw_block \<times> 'p)"
  pcap_new :: "chunk list \<Rightarrow> pcap_error + 'c"
  pcap_header :: "'c \<Rightarrow> data_link \<times> ts_resolution"
  next_raw_packet :: "'c \<Rightarrow> ((pcap_error + pcap_record) \<times> 'c) option"

definition supported_link :: "data_link \<Rightarrow> bool" where
  "supported_link dl \<longleftrightarrow> dl \<in> {ETHERNET, RAW, IPV4, IPV6, LINUX_SLL}"

section \<open>The walk over the blocks\<close>

record walk =
  wk_packets :: "raw_packet list"
  wk_interfaces :: "interface_info list"
  wk_emitted :: u32
  wk_skipped :: u32
  wk_opb :: u32
  wk_seq :: u32

definition walk_start :: walk where
  "walk_start = \<lparr>wk_packets = [], wk_interfaces = [], wk_emitted = 0, wk_skipped = 0, wk_opb = 0, wk_seq = 1\<rparr>"

definition emit :: "raw_packet \<Rightarrow> walk \<Rightarrow> walk" where
  "emit p w = w\<lparr>wk_packets := wk_packets w @ [p], wk_emitted := sat_addw (wk_emitted w) 1\<rparr>"

definition idb_block :: "('p, 'c) pcap_crate \<Rightarrow> section_endianness \<Rightarrow> bytes \<Rightarrow> walk \<Rightarrow> (read_error + walk) rust" where
  "idb_block P en body w =
     (if wk_emitted w > 0 then Some (Inl IdbAfterPacket)
      else if length (wk_interfaces w) \<ge> MAX_INTERFACE_TABLE_ENTRIES then Some (Inl InterfaceTableFull)
      else if length body < IDB_BODY_FIXED_BYTES then Some (Inl (IdbTooShort (length body)))
      else do {
        link_raw \<leftarrow> read16 en body 0;
        let new_dl = data_link_from P (ucast link_raw);
        if \<not> supported_link new_dl then Some (Inl (UnsupportedLink new_dl))
        else if wk_interfaces w \<noteq> [] \<and> linktype (wk_interfaces w ! 0) \<noteq> new_dl
        then Some (Inl (LinkConflict (linktype (wk_interfaces w ! 0)) (length (wk_interfaces w)) new_dl))
        else do {
          r \<leftarrow> parse_idb_options body en;
          Some (case r of
              Inl e \<Rightarrow> Inl e
            | Inr ts \<Rightarrow> Inr (w\<lparr>wk_interfaces := wk_interfaces w @ [\<lparr>linktype = new_dl, if_tsresol = ts\<rparr>]\<rparr>))
        }
      })"

definition epb_block :: "section_endianness \<Rightarrow> bytes \<Rightarrow> walk \<Rightarrow> (read_error + walk) rust" where
  "epb_block en body w = do {
     r \<leftarrow> decode_epb_body body (wk_interfaces w) en;
     Some (case r of Inl e \<Rightarrow> Inl e | Inr p \<Rightarrow> Inr (emit p w))
   }"

definition spb_block :: "section_endianness \<Rightarrow> bytes \<Rightarrow> walk \<Rightarrow> (read_error + walk) rust" where
  "spb_block en body w =
     (if wk_interfaces w = [] then Some (Inl SpbNoInterface)
      else if length body < SPB_FIXED_OVERHEAD_BYTES then Some (Inl (SpbTooShort (length body)))
      else do {
        original_len \<leftarrow> read32 en body 0;
        let captured_len = unat (spb_captured_len original_len body);
        e \<leftarrow> add64 SPB_FIXED_OVERHEAD_BYTES captured_len;
        packet_data \<leftarrow> byte_slice body SPB_FIXED_OVERHEAD_BYTES e;
        Some (Inr (emit \<lparr>timestamp_secs = 0, timestamp_usecs = 0, pkt_data = packet_data\<rparr> w))
      })"

definition skip_block :: "walk \<Rightarrow> walk" where
  "skip_block w = w\<lparr>wk_skipped := sat_addw (wk_skipped w) 1\<rparr>"

text \<open>The match on the type of a block.\<close>

definition walk_block :: "('p, 'c) pcap_crate \<Rightarrow> section_endianness \<Rightarrow> raw_block \<Rightarrow> walk \<Rightarrow> (read_error + walk) rust" where
  "walk_block P en b w =
     (if block_type b = SHB_BLOCK_TYPE then Some (Inl (SecondSection (wk_seq w)))
      else if block_type b = IDB_BLOCK_TYPE then idb_block P en (block_body b) w
      else if block_type b = EPB_BLOCK_TYPE then epb_block en (block_body b) w
      else if block_type b = SPB_BLOCK_TYPE then spb_block en (block_body b) w
      else if block_type b = OPB_BLOCK_TYPE then Some (Inr (skip_block w\<lparr>wk_opb := sat_addw (wk_opb w) 1\<rparr>))
      else if block_type b \<in> {NRB_BLOCK_TYPE, ISB_BLOCK_TYPE, SJE_BLOCK_TYPE, DSB_BLOCK_TYPE} then Some (Inr (skip_block w))
      else Some (Inr (skip_block w)))"

definition block_error :: "('p, 'c) pcap_crate \<Rightarrow> pcap_error \<Rightarrow> read_error" where
  "block_error P e =
     (if sublist ''block length < 8'' (error_text P e) then CrateIdbTooShort
      else if sublist ''reserved != 0'' (error_text P e) then CrateIdbReserved
      else CrateFraming e)"

definition shb_error :: "pcap_error \<Rightarrow> read_error" where
  "shb_error e =
     (case e of
        InvalidField msg \<Rightarrow>
          (if sublist ''block length < 16'' msg then CrateShbTooShort e
           else if sublist ''invalid magic number'' msg then CrateShbBom e
           else CrateShbFraming e)
      | OtherPcapError _ \<Rightarrow> CrateShbFraming e)"

partial_function (option) walk_blocks ::
  "('p, 'c) pcap_crate \<Rightarrow> section_endianness \<Rightarrow> 'p \<Rightarrow> bytes \<Rightarrow> walk \<Rightarrow> (read_error + walk) option"
where
  "walk_blocks P en p src w =
     (if src = [] then Some (Inr w)
      else case next_raw_block P p src of
        Inl e \<Rightarrow> Some (Inl (block_error P e))
      | Inr (rem, b, p') \<Rightarrow>
          (if length rem \<ge> length src then Some (Inl (Stalled (wk_seq w) (length rem) (length src)))
           else do {
             r \<leftarrow> walk_block P en b (w\<lparr>wk_seq := sat_addw (wk_seq w) 1\<rparr>);
             (case r of Inl e \<Rightarrow> Some (Inl e) | Inr w' \<Rightarrow> walk_blocks P en p' rem w')
           }))"

declare walk_blocks.simps [code]

definition read_pcapng_crate :: "('p, 'c) pcap_crate \<Rightarrow> bytes \<Rightarrow> (read_error + pcap_source) rust" where
  "read_pcapng_crate P raw =
     (case ng_new P raw of
        Inl e \<Rightarrow> Some (Inl (shb_error e))
      | Inr (src, p) \<Rightarrow>
          (let (major, en) = ng_section P p;
               section_endianness = (case en of Big \<Rightarrow> BigEndian | Little \<Rightarrow> LittleEndian) in
           if major \<noteq> 1 then Some (Inl (UnsupportedMajor major))
           else do {
             r \<leftarrow> walk_blocks P section_endianness p src walk_start;
             Some (case r of
                 Inl e \<Rightarrow> Inl e
               | Inr w \<Rightarrow> Inr \<lparr>packets = wk_packets w,
                                datalink = (case wk_interfaces w of [] \<Rightarrow> data_link_from P 0 | i # _ \<Rightarrow> linktype i),
                                skipped_blocks = wk_skipped w, opb_skipped = wk_opb w, is_pcapng = True\<rparr>)
           }))"

section \<open>Streams and files\<close>

text \<open>\<open>BufReader::fill_buf\<close> on a stream nothing has been read of yet makes one \<open>read\<close> call; \<open>read_to_end\<close> reads
  until a \<open>read\<close> returns no byte.\<close>

fun fill_buf :: "chunk list \<Rightarrow> bytes option" where
  "fill_buf [] = Some []"
| "fill_buf (Chunk bs # _) = Some bs"
| "fill_buf (ReadError # _) = None"

fun read_to_end :: "chunk list \<Rightarrow> bytes option" where
  "read_to_end [] = Some []"
| "read_to_end (Chunk bs # cs) = (if bs = [] then Some [] else map_option (\<lambda>rest. bs @ rest) (read_to_end cs))"
| "read_to_end (ReadError # _) = None"

text \<open>The loop over the packets of a classic capture.\<close>

partial_function (option) pcap_packets ::
  "('p, 'c) pcap_crate \<Rightarrow> ts_resolution \<Rightarrow> 'c \<Rightarrow> raw_packet list \<Rightarrow> (read_error + raw_packet list) option"
where
  "pcap_packets P res c acc =
     (case next_raw_packet P c of
        None \<Rightarrow> Some (Inr acc)
      | Some (r, c') \<Rightarrow>
          (case r of
             Inl e \<Rightarrow> Some (Inl (PcapPacket e))
           | Inr k \<Rightarrow>
               pcap_packets P res c'
                 (acc @ [\<lparr>timestamp_secs = ts_sec k,
                          timestamp_usecs = (case res of MicroSecond \<Rightarrow> ts_frac k | NanoSecond \<Rightarrow> ts_frac k div 1000),
                          pkt_data = record_data k\<rparr>])))"

declare pcap_packets.simps [code]

definition read_classic :: "('p, 'c) pcap_crate \<Rightarrow> chunk list \<Rightarrow> (read_error + pcap_source) rust" where
  "read_classic P stream =
     (case pcap_new P stream of
        Inl e \<Rightarrow> Some (Inl (PcapHeader e))
      | Inr c \<Rightarrow>
          (let (dl, res) = pcap_header P c in
           if \<not> supported_link dl then Some (Inl (UnsupportedLink dl))
           else do {
             r \<leftarrow> pcap_packets P res c [];
             Some (case r of
                 Inl e \<Rightarrow> Inl e
               | Inr ps \<Rightarrow> Inr \<lparr>packets = ps, datalink = dl, skipped_blocks = 0, opb_skipped = 0, is_pcapng = False\<rparr>)
           }))"

definition from_pcap_reader :: "('p, 'c) pcap_crate \<Rightarrow> chunk list \<Rightarrow> (read_error + pcap_source) rust" where
  "from_pcap_reader P stream =
     (case fill_buf stream of
        None \<Rightarrow> Some (Inl MagicReadFailed)
      | Some filled \<Rightarrow>
          (if length filled < 4 then Some (Inl (StreamTooShort (length filled)))
           else do {
             magic \<leftarrow> byte_slice filled 0 4;
             if magic = PCAPNG_MAGIC
             then (case read_to_end stream of None \<Rightarrow> Some (Inl StreamReadFailed) | Some raw \<Rightarrow> read_pcapng_crate P raw)
             else if magic \<in> set CLASSIC_PCAP_MAGICS then read_classic P stream
             else Some (Inl (UnknownMagic magic))
           }))"

text \<open>A file: whether it opens, its size if it can be read, and its contents.\<close>

record file_source =
  file_stream :: "chunk list option"
  file_size :: "u64 option"

definition from_file :: "('p, 'c) pcap_crate \<Rightarrow> file_source \<Rightarrow> (read_error + pcap_source) rust" where
  "from_file P f =
     (case file_stream f of
        None \<Rightarrow> Some (Inl OpenFailed)
      | Some stream \<Rightarrow>
          (case fill_buf stream of
             None \<Rightarrow> Some (Inl MagicReadFailed)
           | Some filled \<Rightarrow>
               (if length filled < 4 then Some (Inl (StreamTooShort (length filled)))
                else do {
                  magic \<leftarrow> byte_slice filled 0 4;
                  if magic = PCAPNG_MAGIC
                  then (case file_size f of
                          None \<Rightarrow> Some (Inl StatFailed)
                        | Some len \<Rightarrow>
                            if len > MAX_PCAPNG_FILE_BYTES then Some (Inl (FileTooLarge len))
                            else from_pcap_reader P stream)
                  else from_pcap_reader P stream
                })))"

end
