(* ===== verification/Reader_Props.thy ===== *)
theory Reader_Props
  imports Reader
begin

text \<open>
  Properties of the decoders of the capture reader: timestamps against exact arithmetic, the round trips of multi-byte fields,
  interface options and enhanced packet blocks, totality of each decoder, and the agreement of the twins.
\<close>

section \<open>Timestamps\<close>

text \<open>Ticks per second of an \<open>if_tsresol\<close> byte, by its value: a power of ten below 128, capped at the largest
  \<open>u64\<close>, and a power of two above, capped at \<open>2 ^ 63\<close>.\<close>

definition ticks_per_second :: "u8 \<Rightarrow> nat" where
  "ticks_per_second r =
     (if unat r < 128 then (if unat r < 20 then 10 ^ unat r else u64_max) else 2 ^ min (unat r - 128) 63)"

definition ticks64 :: "u32 \<Rightarrow> u32 \<Rightarrow> nat" where
  "ticks64 hi lo = unat hi * 2 ^ 32 + unat lo"

lemma ticks64_or: "push_bit 32 (unat hi) OR unat lo = ticks64 (hi :: u32) (lo :: u32)"
proof -
  have "n < 32" if "bit (unat lo) n" for n using that bit_imp_le_length [of lo n] by (simp add: bit_unsigned_iff)
  then have "push_bit 32 (unat hi) AND unat lo = 0" by (intro bit_eqI) (fastforce simp: bit_and_iff bit_push_bit_iff)
  then have "push_bit 32 (unat hi) OR unat lo = push_bit 32 (unat hi) + unat lo" by (simp add: disjunctive_add_eq_or)
  then show ?thesis by (simp add: ticks64_def push_bit_eq_mult)
qed

lemma u64_max_value: "u64_max = 18446744073709551615"
  by (simp add: u64_max_def)

lemma ticks64_less: "ticks64 hi lo < 2 ^ 64"
proof -
  have "unat hi \<le> 4294967295" "unat lo < 4294967296" using unat_u32_less [of hi] unat_u32_less [of lo] by linarith+
  then have "unat hi * 4294967296 + unat lo < 4294967295 * 4294967296 + 4294967296" by (intro add_le_less_mono mult_right_mono) auto
  then show ?thesis by (simp add: ticks64_def)
qed

lemma base10: "BASE10_POWERS = map (\<lambda>e. 10 ^ e) [0..<20]"
  by (simp add: BASE10_POWERS_def upt_rec)

lemma ticks_per_second_bounds: "0 < ticks_per_second r" "ticks_per_second r \<le> u64_max"
proof -
  have "10 ^ n \<le> u64_max" if "n < 20" for n :: nat
  proof -
    have "(10 :: nat) ^ n \<le> 10 ^ 19" using that by (intro power_increasing) auto
    then show ?thesis by (simp add: u64_max_def)
  qed
  moreover have "2 ^ min n 63 \<le> u64_max" for n :: nat
  proof -
    have "(2 :: nat) ^ min n 63 \<le> 2 ^ 63" by (intro power_increasing) auto
    then show ?thesis by (simp add: u64_max_def)
  qed
  ultimately show "0 < ticks_per_second r" "ticks_per_second r \<le> u64_max" by (auto simp: ticks_per_second_def u64_max_def)
qed

lemma low_bits: "unat (r AND 0x7F) = unat (r :: u8) mod 128"
proof -
  have "unat (r AND 0x7F) = take_bit 7 (unat r)" by (simp add: unsigned_and_eq take_bit_eq_mask mask_eq_exp_minus_1)
  then show ?thesis by (simp add: take_bit_eq_mod)
qed

lemma high_bit: "(r :: u8) AND 0x80 = 0 \<longleftrightarrow> unat r < 128"
proof -
  have "r AND 0x80 = 0 \<longleftrightarrow> \<not> bit r 7" using and_exp_eq_0_iff_not_bit [of r 7] by simp
  also have "bit r 7 \<longleftrightarrow> bit (unat r) 7" by (simp add: bit_unsigned_iff)
  also have "bit (unat r) 7 \<longleftrightarrow> odd (unat r div 2 ^ 7)" by (rule bit_iff_odd)
  also have "odd (unat r div 2 ^ 7) \<longleftrightarrow> odd (unat r div 128)" by simp
  also have "odd (unat r div 128) \<longleftrightarrow> \<not> unat r < 128" 
  proof -
    have "unat r < 256" using unsigned_less [of r, where 'a = nat] by simp
    then have "unat r div 128 = (if unat r < 128 then 0 else 1)" by (auto intro: div_nat_eqI)
    then show ?thesis by simp
  qed
  finally show ?thesis by simp
qed

lemma timestamp_general:
  "pcapng_timestamp_to_secs_usecs hi lo r =
     (let t = ticks64 hi lo; k = ticks_per_second r in
      Some (word_of_nat (min (t div k) u32_max), word_of_nat (t mod k * 1000000 div k)))"
proof (cases "r = 6")
  case True
  then have "ticks_per_second r = 1000000" by (simp add: ticks_per_second_def)
  then show ?thesis using True by (simp add: pcapng_timestamp_to_secs_usecs_def ticks64_or Let_def)
next
  case False
  have "ticks64 hi lo mod ticks_per_second r \<le> u64_max" using ticks64_less [of hi lo] mod_less_eq_dividend [of "ticks64 hi lo" "ticks_per_second r"]
    unfolding u64_max_def by linarith
  then have m: "mul128 (ticks64 hi lo mod ticks_per_second r) 1000000 = Some (ticks64 hi lo mod ticks_per_second r * 1000000)"
    by (simp add: mul128_def u64_max_def)
  have k: "(if r AND 0x80 = 0
            then (let e = unat (r AND 0x7F) in if e < length BASE10_POWERS then index BASE10_POWERS e else Some u64_max)
            else (let e = unat (min (r AND 0x7F) 63) in Some (if e < 64 then 2 ^ e else u64_max))) = Some (ticks_per_second r)"
  proof (cases "unat r < 128")
    case True
    then show ?thesis by (auto simp: high_bit low_bits base10 index_def ticks_per_second_def Let_def)
  next
    case False
    have "unat r < 256" using unsigned_less [of r, where 'a = nat] by simp
    then have "unat r mod 128 = unat r - 128" using False by (simp add: mod_if)
    moreover have "unat (min (r AND 0x7F) 63) = min (unat (r AND 0x7F)) 63" by (simp add: min_def word_le_nat_alt)
    moreover have "min (unat r - 128) 63 < 64" by simp
    ultimately show ?thesis using False by (simp only: high_bit low_bits ticks_per_second_def Let_def if_False if_True)
  qed
  have pos: "ticks_per_second r \<noteq> 0" using ticks_per_second_bounds [of r] by simp
  show ?thesis unfolding pcapng_timestamp_to_secs_usecs_def ticks64_or Let_def [of "ticks64 hi lo"] k
    using False pos by (simp add: m div64_def rem64_def Let_def)
qed

lemma timestamp_total:
  "\<exists>s us. pcapng_timestamp_to_secs_usecs hi lo r = Some (s, us) \<and> unat us < 1000000 \<and>
     (ticks64 hi lo div ticks_per_second r < 2 ^ 32 \<longrightarrow>
        unat s * 1000000 + unat us = ticks64 hi lo * 1000000 div ticks_per_second r) \<and>
     (ticks64 hi lo div ticks_per_second r \<ge> 2 ^ 32 \<longrightarrow> s = - 1)"
proof -
  define t k where "t = ticks64 hi lo" and "k = ticks_per_second r"
  have k: "0 < k" using ticks_per_second_bounds [of r] by (simp add: k_def)
  have us: "t mod k * 1000000 div k < 1000000" using k by (simp add: div_less_iff_less_mult mult.commute)
  then have u: "unat (word_of_nat (t mod k * 1000000 div k) :: u32) = t mod k * 1000000 div k" by (simp add: unsigned_of_nat take_bit_nat_eq_self)
  have s: "unat (word_of_nat (min (t div k) u32_max) :: u32) = min (t div k) u32_max" by (simp add: unsigned_of_nat take_bit_nat_eq_self u32_max_def)
  have "t * 1000000 = (t mod k * 1000000) + (t div k * 1000000) * k"

  proof -
    have "t * 1000000 = (t div k * k + t mod k) * 1000000" by simp
    also have "\<dots> = (t mod k * 1000000) + (t div k * 1000000) * k" by (simp only: add_mult_distrib ac_simps)
    finally show ?thesis .
  qed
  then have sum: "t div k * 1000000 + t mod k * 1000000 div k = t * 1000000 div k" using k by simp
  have sat: "(word_of_nat (min (t div k) u32_max) :: u32) = - 1" if "t div k \<ge> 2 ^ 32"
    by (rule unsigned_word_eqI [where 'a = nat]) (use that s in \<open>simp add: u32_max_def unsigned_minus_1_eq_mask mask_eq_exp_minus_1\<close>)
  show ?thesis
    using us u s sum sat by (auto simp: timestamp_general Let_def u32_max_def simp flip: t_def k_def)
qed

text \<open>C35. Conversion of a timestamp never panics and is exact: the microseconds are always below a million, and the
  whole seconds and microseconds together are the tick count times a million divided by the resolution,
  rounded down. Past the largest 32-bit second only the seconds saturate.\<close>

theorem timestamp_exact:
  "\<exists>s us. pcapng_timestamp_to_secs_usecs hi lo r = Some (s, us) \<and> unat us < 1000000 \<and>
     (ticks64 hi lo div ticks_per_second r < 2 ^ 32 \<longrightarrow>
        unat s * 1000000 + unat us = ticks64 hi lo * 1000000 div ticks_per_second r) \<and>
     (ticks64 hi lo div ticks_per_second r \<ge> 2 ^ 32 \<longrightarrow> s = - 1)"
  by (rule timestamp_total)

theorem timestamp_exact_witness:
  "\<exists>s us. pcapng_timestamp_to_secs_usecs 0x16 0x12345678 9 = Some (s, us) \<and> unat us < 1000000 \<and>
     unat s * 1000000 + unat us = ticks64 0x16 0x12345678 * 1000000 div ticks_per_second 9"
  using timestamp_exact [of "0x16" "0x12345678" 9] by (auto simp: ticks64_def ticks_per_second_def)

section \<open>Fields on the wire\<close>

definition enc16 :: "section_endianness \<Rightarrow> u16 \<Rightarrow> bytes" where
  "enc16 en w = (case en of BigEndian \<Rightarrow> [hi8 w, lo8 w] | LittleEndian \<Rightarrow> [lo8 w, hi8 w])"

definition quad :: "u32 \<Rightarrow> bytes" where
  "quad w = [ucast (drop_bit 24 w), ucast (drop_bit 16 w), ucast (drop_bit 8 w), ucast w]"

definition enc32 :: "section_endianness \<Rightarrow> u32 \<Rightarrow> bytes" where
  "enc32 en w = (case en of BigEndian \<Rightarrow> quad w | LittleEndian \<Rightarrow> rev (quad w))"

lemma length_enc [simp]: "length (enc16 en w) = 2" "length (enc32 en x) = 4"
  by (cases en; simp add: enc16_def enc32_def quad_def)+

lemma enc16_not_Nil [simp]: "enc16 en w \<noteq> []"
  by (cases en) (simp_all add: enc16_def)

lemma unat_byte [simp]: "unat (b :: u8) < 256"
  using unsigned_less [of b, where 'a = nat] by simp

lemma unat_be32: "unat (be32 a b c d) = ((unat a * 256 + unat b) * 256 + unat c) * 256 + unat d"
proof -
  have w: "unat (ucast x :: u32) = unat x" for x :: u8
  proof -
    have "unat x < 2 ^ 32" using less_trans [OF unat_byte [of x], of "2 ^ 32"] by simp
    then show ?thesis by (simp add: unsigned_ucast_eq take_bit_nat_eq_self)
  qed
  have "((unat a * 256 + unat b) * 256 + unat c) * 256 + unat d < 4294967296"
    using unat_byte [THEN Suc_leI, of a] unat_byte [THEN Suc_leI, of b] unat_byte [THEN Suc_leI, of c] unat_byte [of d]
    by (simp add: add_mult_distrib del: unat_byte)
  then show ?thesis unfolding be32_def by (simp add: unat_word_ariths w mod_simps)
qed

lemma unat_low_byte: "unat (ucast (drop_bit n w) :: u8) = unat (w :: u32) div 2 ^ n mod 256"
proof -
  have "unat (drop_bit n w) = unat w div 2 ^ n" unfolding unat_drop_bit_eq by (rule drop_bit_eq_div)
  then show ?thesis by (simp only: unsigned_ucast_eq take_bit_eq_mod) simp
qed

lemma be32_quad: "be32 (ucast (drop_bit 24 w)) (ucast (drop_bit 16 w)) (ucast (drop_bit 8 w)) (ucast w) = w"
proof -
  have "unat (ucast w :: u8) = unat w mod 256" using unat_low_byte [of 0 w] by simp
  moreover have "unat w div 16777216 mod 256 = unat w div 16777216"
    using unat_u32_less [of w] by (intro mod_less) (simp add: div_less_iff_less_mult)
  moreover have "unat w div 65536 = unat w div 256 div 256" "unat w div 16777216 = unat w div 256 div 256 div 256" by (simp_all add: div_mult2_eq [symmetric])
  ultimately have "unat (be32 (ucast (drop_bit 24 w)) (ucast (drop_bit 16 w)) (ucast (drop_bit 8 w)) (ucast w)) = unat w"
    by (simp add: unat_be32 unat_low_byte)
  then show ?thesis by (rule unsigned_word_eqI)
qed

lemma read16_at: "read16 en (pre @ enc16 en w @ post) (length pre) = Some w"
  by (cases en) (simp_all add: read16_def enc16_def index_def nth_append be16_split)

lemma read32_at: "read32 en (pre @ enc32 en w @ post) (length pre) = Some w"
  by (cases en) (simp_all add: read32_def enc32_def quad_def index_def nth_append be32_quad)

lemma read16_total: "i + 1 < length bs \<Longrightarrow> \<exists>w. read16 en bs i = Some w"
  by (simp add: read16_def index_def)

lemma read32_total: "i + 3 < length bs \<Longrightarrow> \<exists>w. read32 en bs i = Some w"
  by (simp add: read32_def index_def)

section \<open>Interface options\<close>

text \<open>Options as pairs of code and value, padded to four bytes.\<close>

definition enc_opt :: "section_endianness \<Rightarrow> u16 \<times> bytes \<Rightarrow> bytes" where
  "enc_opt en = (\<lambda>(code, v). enc16 en code @ enc16 en (word_of_nat (length v)) @ v @ replicate ((4 - length v mod 4) mod 4) 0)"

definition wf_opt :: "u16 \<times> bytes \<Rightarrow> bool" where
  "wf_opt = (\<lambda>(code, v). code \<noteq> 0 \<and> length v < 65536 \<and> (code = 9 \<longrightarrow> length v = 1))"

definition tsresol_of :: "(u16 \<times> bytes) list \<Rightarrow> u8" where
  "tsresol_of opts = (case find (\<lambda>(code, v). code = 9) opts of None \<Rightarrow> DEFAULT_TSRESOL | Some (code, v) \<Rightarrow> hd v)"

lemma pad4: "(n + 3) div 4 * 4 = n + (4 - n mod 4) mod (4 :: nat)"
proof -
  have "n mod 4 < 4" by simp
  then consider "n mod 4 = 0" | "n mod 4 = 1" | "n mod 4 = 2" | "n mod 4 = 3" by linarith
  then show ?thesis using div_mult_mod_eq [of n 4] by cases (simp_all, presburger+)
qed

lemma tlv_present:
  assumes "read16 en opts cur = Some code" "read16 en opts (cur + 2) = Some n" "code \<noteq> 0"
    and fit: "cur + 4 + unat n \<le> length opts" and len: "length opts \<le> isize_max"
  shows "tlv_walk en opts cur =
     (if code = 9 then Some (if unat n \<noteq> 1 then Inl (BadTsresol (unat n)) else Inr (opts ! (cur + 4)))
      else tlv_walk en opts (cur + 4 + (unat n + 3) div 4 * 4))"
proof -
  have pad: "(unat n + 3) div 4 * 4 < unat n + 4" by linarith
  have "cur + 4 + unat n + 4 \<le> u64_max" using fit len by (simp add: isize_max_def u64_max_def)
  then have "add64 cur 4 = Some (cur + 4)" "add64 (cur + 4) (unat n) = Some (cur + 4 + unat n)"
      "add64 (cur + 4) ((unat n + 3) div 4 * 4) = Some (cur + 4 + (unat n + 3) div 4 * 4)"
    using pad by simp_all
  then show ?thesis using assms
    by (subst tlv_walk.simps) (simp add: index_def del: add_2_eq_Suc')
qed

lemma tlv_step:
  assumes wf: "wf_opt (code, v)" and len: "length (pre @ enc_opt en (code, v) @ post) \<le> isize_max"
  shows "tlv_walk en (pre @ enc_opt en (code, v) @ post) (length pre) =
     (if code = 9 then Some (Inr (hd v))
      else tlv_walk en (pre @ enc_opt en (code, v) @ post) (length pre + length (enc_opt en (code, v))))"
proof -
  let ?pad = "replicate ((4 - length v mod 4) mod 4) 0" and ?n = "word_of_nat (length v) :: u16"
  let ?bs = "pre @ enc_opt en (code, v) @ post"
  have bs: "?bs = pre @ enc16 en code @ (enc16 en ?n @ v @ ?pad @ post)" "?bs = (pre @ enc16 en code) @ enc16 en ?n @ (v @ ?pad @ post)"
    by (simp_all add: enc_opt_def)
  have n: "unat ?n = length v" using wf by (simp add: wf_opt_def unsigned_of_nat take_bit_nat_eq_self)
  have c: "read16 en ?bs (length pre) = Some code" unfolding bs(1) by (rule read16_at)
  have l: "read16 en ?bs (length pre + 2) = Some ?n" using read16_at [of en "pre @ enc16 en code" ?n "v @ ?pad @ post"] unfolding bs(2) by simp
  have e: "length (enc_opt en (code, v)) = 4 + (length v + 3) div 4 * 4" by (simp add: enc_opt_def pad4)
  have v: "?bs ! (length pre + 4) = hd v" if "length v = 1" using that unfolding bs(2) by (cases v) (simp_all add: nth_append)
  have "length pre + 4 + unat ?n \<le> length ?bs" by (simp add: e n pad4)
  then show ?thesis using tlv_present [OF c l _ _ len] wf v by (auto simp: wf_opt_def n e add.assoc)
qed

text \<open>How the options may end: with the slice, or with an end-of-options entry whatever follows.\<close>

definition opts_end :: "section_endianness \<Rightarrow> bytes \<Rightarrow> bool" where
  "opts_end en post \<longleftrightarrow> length post < 4 \<or> (\<exists>len junk. post = enc16 en 0 @ enc16 en len @ junk)"

lemma tlv_end:
  assumes "opts_end en post" and len: "length (pre @ post) \<le> isize_max"
  shows "tlv_walk en (pre @ post) (length pre) = Some (Inr DEFAULT_TSRESOL)"
proof -
  have a: "add64 (length pre) 4 = Some (length pre + 4)" using len by (simp add: isize_max_def u64_max_def)
  consider "length post < 4" | n junk where "post = enc16 en 0 @ enc16 en n @ junk" using assms by (auto simp: opts_end_def)
  then show ?thesis
  proof cases
    case 1
    then show ?thesis by (subst tlv_walk.simps) (simp add: a)
  next
    case 2
    have "read16 en (pre @ post) (length pre) = Some 0" unfolding 2 by (rule read16_at)
    moreover have "read16 en (pre @ post) (length pre + 2) = Some n" using read16_at [of en "pre @ enc16 en 0" n junk] by (simp add: 2)
    ultimately show ?thesis by (subst tlv_walk.simps) (simp add: a 2)
  qed
qed

lemma tlv_walk_encoded:
  "\<lbrakk>\<forall>opt \<in> set opts. wf_opt opt; opts_end en post; length (pre @ concat (map (enc_opt en) opts) @ post) \<le> isize_max\<rbrakk>
   \<Longrightarrow> tlv_walk en (pre @ concat (map (enc_opt en) opts) @ post) (length pre) = Some (Inr (tsresol_of opts))"
proof (induction opts arbitrary: pre)
  case Nil
  then show ?case using tlv_end by (simp add: tsresol_of_def)
next
  case (Cons opt opts)
  obtain code v where o: "opt = (code, v)" by fastforce
  have IH: "tlv_walk en ((pre @ enc_opt en opt) @ concat (map (enc_opt en) opts) @ post) (length (pre @ enc_opt en opt)) = Some (Inr (tsresol_of opts))"
    using Cons.prems by (intro Cons.IH) simp_all
  have "tlv_walk en (pre @ enc_opt en (code, v) @ (concat (map (enc_opt en) opts) @ post)) (length pre) =
     (if code = 9 then Some (Inr (hd v))
      else tlv_walk en (pre @ enc_opt en (code, v) @ (concat (map (enc_opt en) opts) @ post)) (length pre + length (enc_opt en (code, v))))"
    using Cons.prems by (intro tlv_step) (simp_all add: o)
  then show ?case using IH by (simp add: o tsresol_of_def)
qed

text \<open>Reading back the options of an interface description block: whatever well-formed options are written
  after the fixed fields, in either byte order and however the list is ended, the parser returns the
  value of the first timestamp resolution among them, and the default of microseconds when there is none.\<close>

theorem idb_options_roundtrip:
  assumes "length fixed = IDB_BODY_FIXED_BYTES" and "\<forall>opt \<in> set opts. wf_opt opt" and "opts_end en post"
    and "length (fixed @ concat (map (enc_opt en) opts) @ post) \<le> isize_max"
  shows "parse_idb_options (fixed @ concat (map (enc_opt en) opts) @ post) en = Some (Inr (tsresol_of opts))"
proof (cases "concat (map (enc_opt en) opts) @ post")
  case Nil
  then have "opts = []" by (cases opts) (auto simp: enc_opt_def split: prod.splits)
  then show ?thesis using assms(1) Nil by (simp add: parse_idb_options_def tsresol_of_def)
next
  case (Cons b bs)
  then have "length fixed < length (fixed @ concat (map (enc_opt en) opts) @ post)" by simp
  then show ?thesis using tlv_walk_encoded [of opts en post "[]"] assms
    by (simp add: parse_idb_options_def byte_slice_def)
qed

theorem idb_options_roundtrip_witness:
  "parse_idb_options ([1, 0, 0, 0, 0, 0, 4, 0] @ concat (map (enc_opt LittleEndian) [(2, [101, 110, 48]), (9, [9])]) @ []) LittleEndian
     = Some (Inr 9)"
  using idb_options_roundtrip [of "[1, 0, 0, 0, 0, 0, 4, 0]" "[(2, [101, 110, 48]), (9, [9])]" LittleEndian "[]"]
  by (simp add: IDB_BODY_FIXED_BYTES_def wf_opt_def opts_end_def tsresol_of_def enc_opt_def isize_max_def)

lemma tlv_total:
  assumes "length opts \<le> isize_max" "cur \<le> length opts + 4"
  shows "\<exists>r. tlv_walk en opts cur = Some r"
  using assms
proof (induction "length opts + 4 - cur" arbitrary: cur rule: less_induct)
  case less
  have a: "add64 cur 4 = Some (cur + 4)" using less.prems by (simp add: isize_max_def u64_max_def)
  show ?case
  proof (cases "cur + 4 > length opts")
    case True
    then show ?thesis by (subst tlv_walk.simps) (simp add: a)
  next
    case False
    obtain code n where c: "read16 en opts cur = Some code" and n: "read16 en opts (cur + 2) = Some n"
      using False read16_total [of cur opts en] read16_total [of "cur + 2" opts en] by auto
    have n16: "unat n < 65536" using unsigned_less [of n, where 'a = nat] by simp
    then have b: "add64 (cur + 4) (unat n) = Some (cur + 4 + unat n)" using False less.prems by (simp add: isize_max_def u64_max_def)
    show ?thesis
    proof (cases "code \<noteq> 0 \<and> cur + 4 + unat n \<le> length opts")
      case True
      have "(unat n + 3) div 4 * 4 < unat n + 4" by linarith
      then have "\<exists>r. tlv_walk en opts (cur + 4 + (unat n + 3) div 4 * 4) = Some r" using less True False by (intro less.hyps) linarith+
      then show ?thesis using tlv_present [OF c n] True less.prems by auto
    next
      case F: False
      then show ?thesis using False c n by (subst tlv_walk.simps) (auto simp: a b Let_def simp del: add_2_eq_Suc')
    qed
  qed
qed

lemma idb_options_total: "length body \<le> isize_max \<Longrightarrow> \<exists>r. parse_idb_options body en = Some r"
  using tlv_total [of "drop IDB_BODY_FIXED_BYTES body" 0 en] by (simp add: parse_idb_options_def byte_slice_def)

section \<open>Enhanced packet blocks\<close>

text \<open>The outcome once the fixed fields are known.\<close>

lemma epb_cases:
  assumes len: "EPB_FIXED_OVERHEAD_BYTES \<le> length body" "length body \<le> isize_max"
    and f: "read32 en body 0 = Some ifid" "read32 en body 4 = Some hi" "read32 en body 8 = Some lo"
      "read32 en body 12 = Some cap" "read32 en body 16 = Some orig"
  shows "decode_epb_body body ifs en = Some
     (if ifs = [] then Inl (EpbNoInterface ifid)
      else if unat ifid \<ge> length ifs then Inl (EpbInterfaceOob ifid (length ifs))
      else if unat cap > length body - 20 then Inl (EpbCapturedLen cap (length body - 20))
      else if 20 + unat cap + (4 - unat cap mod 4) mod 4 > length body then Inl (EpbPadding cap ((4 - unat cap mod 4) mod 4) (length body))
      else let (s, us) = the (pcapng_timestamp_to_secs_usecs hi lo (if_tsresol (ifs ! unat ifid)))
           in Inr \<lparr>timestamp_secs = s, timestamp_usecs = us, pkt_data = take (unat cap) (drop 20 body)\<rparr>)"
proof -
  have pad: "(4 - unat cap mod 4) mod 4 < 4" by simp
  have cap: "unat cap < 4294967296" by simp
  have sat: "sat_add64 (sat_add64 20 (unat cap)) ((4 - unat cap mod 4) mod 4) = 20 + unat cap + (4 - unat cap mod 4) mod 4"

  proof -
    have "20 + unat cap + 4 \<le> u64_max" using cap u64_max_value by linarith
    then show ?thesis using pad by (simp add: sat_add64_exact)
  qed
  have a: "add64 20 (unat cap) = Some (20 + unat cap)" using cap u64_max_value by (intro add64_ok) linarith
  obtain s us where t: "pcapng_timestamp_to_secs_usecs hi lo (if_tsresol (ifs ! unat ifid)) = Some (s, us)"
    by (simp add: timestamp_general Let_def)
  show ?thesis using len f t by (simp add: decode_epb_body_def fixed_sizes Let_def sat a index_def byte_slice_def)
qed

lemma epb_fields:
  assumes "EPB_FIXED_OVERHEAD_BYTES \<le> length body"
  obtains ifid hi lo cap orig where "read32 en body 0 = Some ifid" "read32 en body 4 = Some hi" "read32 en body 8 = Some lo"
    "read32 en body 12 = Some cap" "read32 en body 16 = Some orig"
  using assms read32_total [of 0 body en] read32_total [of 4 body en] read32_total [of 8 body en] read32_total [of 12 body en]
    read32_total [of 16 body en] unfolding EPB_FIXED_OVERHEAD_BYTES_def by fastforce

lemma epb_total: "length body \<le> isize_max \<Longrightarrow> \<exists>r. decode_epb_body body ifs en = Some r"
proof (cases "length body < EPB_FIXED_OVERHEAD_BYTES")
  case False
  assume len: "length body \<le> isize_max"
  have l: "EPB_FIXED_OVERHEAD_BYTES \<le> length body" using False by simp
  show ?thesis using epb_fields [OF l, of en] epb_cases [OF l len] by metis
qed (simp add: decode_epb_body_def)

lemma epb_accepted:
  assumes "decode_epb_body body ifs en = Some (Inr p)" "length body \<le> isize_max"
  shows "ifs \<noteq> [] \<and> unat (timestamp_usecs p) < 1000000"
proof -
  have l: "EPB_FIXED_OVERHEAD_BYTES \<le> length body" using assms(1) by (auto simp: decode_epb_body_def split: if_splits)
  obtain ifid hi lo cap orig where f: "read32 en body 0 = Some ifid" "read32 en body 4 = Some hi" "read32 en body 8 = Some lo"
    "read32 en body 12 = Some cap" "read32 en body 16 = Some orig" using epb_fields [OF l] by blast
  obtain s us where "pcapng_timestamp_to_secs_usecs hi lo (if_tsresol (ifs ! unat ifid)) = Some (s, us)" "unat us < 1000000"
    using timestamp_total by blast
  then show ?thesis using epb_cases [OF l assms(2) f, of ifs] assms(1) by (auto split: if_splits)
qed

text \<open>An enhanced packet block with its data padded to four bytes and options after it.\<close>

definition enc_epb :: "section_endianness \<Rightarrow> u32 \<Rightarrow> u32 \<Rightarrow> u32 \<Rightarrow> u32 \<Rightarrow> bytes \<Rightarrow> bytes \<Rightarrow> bytes" where
  "enc_epb en ifid hi lo orig dat opts =
     enc32 en ifid @ enc32 en hi @ enc32 en lo @ enc32 en (word_of_nat (length dat)) @ enc32 en orig @
     dat @ replicate ((4 - length dat mod 4) mod 4) 0 @ opts"

lemma epb_encoded_fields:
  "read32 en (enc_epb en ifid hi lo orig dat opts) 0 = Some ifid" "read32 en (enc_epb en ifid hi lo orig dat opts) 4 = Some hi"
    "read32 en (enc_epb en ifid hi lo orig dat opts) 8 = Some lo" "read32 en (enc_epb en ifid hi lo orig dat opts) 12 = Some (word_of_nat (length dat))"
    "read32 en (enc_epb en ifid hi lo orig dat opts) 16 = Some orig"
  using read32_at [of en "[]" ifid] read32_at [of en "enc32 en ifid" hi] read32_at [of en "enc32 en ifid @ enc32 en hi" lo]
    read32_at [of en "enc32 en ifid @ enc32 en hi @ enc32 en lo" "word_of_nat (length dat)"] read32_at [of en "enc32 en ifid @ enc32 en hi @ enc32 en lo @ enc32 en (word_of_nat (length dat))" orig]
  by (simp_all add: enc_epb_def)

text \<open>C36. Reading back an enhanced packet block: in either byte order, for every interface of the table, the decoder
  returns exactly the packet's bytes without padding and options, stamped by that interface's resolution.\<close>

theorem epb_roundtrip:
  assumes "unat ifid < length ifs" and "length dat < 2 ^ 32" and "length (enc_epb en ifid hi lo orig dat opts) \<le> isize_max"
  shows "\<exists>s us. pcapng_timestamp_to_secs_usecs hi lo (if_tsresol (ifs ! unat ifid)) = Some (s, us) \<and>
     decode_epb_body (enc_epb en ifid hi lo orig dat opts) ifs en =
       Some (Inr \<lparr>timestamp_secs = s, timestamp_usecs = us, pkt_data = dat\<rparr>)"
proof -
  let ?b = "enc_epb en ifid hi lo orig dat opts"
  have n: "unat (word_of_nat (length dat) :: u32) = length dat" using assms(2) by (simp add: unsigned_of_nat take_bit_nat_eq_self)
  have l: "length ?b = 20 + length dat + (4 - length dat mod 4) mod 4 + length opts" by (simp add: enc_epb_def)
  have d: "take (length dat) (drop 20 ?b) = dat" by (simp add: enc_epb_def)
  have "EPB_FIXED_OVERHEAD_BYTES \<le> length ?b" by (simp add: l EPB_FIXED_OVERHEAD_BYTES_def)
  from epb_cases [OF this assms(3) epb_encoded_fields, of ifs] show ?thesis
    using assms(1) by (auto simp: n d l timestamp_general Let_def)
qed

theorem epb_roundtrip_witness:
  "\<exists>s us. decode_epb_body (enc_epb BigEndian 0 0 1000001 3 [1, 2, 3] []) [\<lparr>linktype = ETHERNET, if_tsresol = 6\<rparr>] BigEndian =
       Some (Inr \<lparr>timestamp_secs = s, timestamp_usecs = us, pkt_data = [1, 2, 3]\<rparr>)"
  using epb_roundtrip [of 0 "[\<lparr>linktype = ETHERNET, if_tsresol = 6\<rparr>]" "[1, 2, 3]" BigEndian 0 1000001 3 "[]"]
  by (auto simp: enc_epb_def isize_max_def)

text \<open>The twins of the decoders differ in their errors only.\<close>

definition epb_error_kind :: "read_error \<Rightarrow> epb_decode_error" where
  "epb_error_kind e =
     (case e of EpbNoInterface _ \<Rightarrow> EmptyInterfaceTable | EpbInterfaceOob _ _ \<Rightarrow> InterfaceIdOob | _ \<Rightarrow> EpbBodyTooShort)"

definition shb_error_kind :: "read_error \<Rightarrow> shb_decode_error" where
  "shb_error_kind e = (case e of ShbBadBom _ \<Rightarrow> InvalidBom | UnsupportedMajor _ \<Rightarrow> UnsupportedVersion | _ \<Rightarrow> ShbBodyTooShort)"

lemma epb_twin:
  "decode_epb_body_discriminant body ifs en = map_option (map_sum epb_error_kind id) (decode_epb_body body ifs en)"
  by (auto simp: decode_epb_body_discriminant_def decode_epb_body_def epb_error_kind_def Let_def map_option_bind o_def
      split: option.splits prod.splits intro!: Option.bind_cong)

lemma shb_twin: "parse_shb_body_discriminant body = map_option (map_sum shb_error_kind id) (parse_shb_body body)"
  by (auto simp: parse_shb_body_discriminant_def parse_shb_body_def shb_error_kind_def Let_def map_option_bind o_def
      intro!: Option.bind_cong)

text \<open>The variants of the two decoders that the model checker runs on agree with the decoders themselves on
  every body, interface table and byte order: same packet or section, and the kind of the same error.\<close>

theorem decoder_twins_agree:
  "decode_epb_body_discriminant body ifs en = map_option (map_sum epb_error_kind id) (decode_epb_body body ifs en) \<and>
   parse_shb_body_discriminant body = map_option (map_sum shb_error_kind id) (parse_shb_body body)"
  using epb_twin shb_twin by blast

end
