(* ===== verification/Reader_Walk.thy ===== *)
theory Reader_Walk
  imports Reader_Props
begin

text \<open>
  The walk over the blocks of a pcapng capture: it ends whatever the parser of the crate does, a result holds the packet
  blocks of the capture in their order decoded against the one interface table, and what it hands on can be decoded.
\<close>

section \<open>What an interface block says\<close>

text \<open>The time resolution an option list gives, read off the bytes: the value of the first option with code 9, six when the
  list ends, with code 0 or for lack of bytes, before one is found. Every option is a code, a length and that many bytes, padded to
  a multiple of four.\<close>

inductive tsresol_option :: "section_endianness \<Rightarrow> bytes \<Rightarrow> u8 \<Rightarrow> bool" for en where
  cut: "length bs < 4 \<Longrightarrow> tsresol_option en bs 6"
| over: "read16 en bs 0 = Some 0 \<Longrightarrow> tsresol_option en bs 6"
| found: "read16 en bs 0 = Some 9 \<Longrightarrow> read16 en bs 2 = Some 1 \<Longrightarrow> 5 \<le> length bs \<Longrightarrow> tsresol_option en bs (bs ! 4)"
| other: "\<lbrakk>read16 en bs 0 = Some code; code \<noteq> 0; code \<noteq> 9; read16 en bs 2 = Some n; 4 + unat n \<le> length bs;
    tsresol_option en (drop (4 + (unat n + 3) div 4 * 4) bs) ts\<rbrakk> \<Longrightarrow> tsresol_option en bs ts"

text \<open>The interface an interface description block describes: the link type of its first two bytes, and the time resolution of its options.\<close>

definition interface_of :: "('p, 'c) pcap_crate \<Rightarrow> section_endianness \<Rightarrow> raw_block \<Rightarrow> interface_info \<Rightarrow> bool" where
  "interface_of P en b i \<longleftrightarrow>
     8 \<le> length (block_body b) \<and> (\<exists>n. read16 en (block_body b) 0 = Some n \<and> linktype i = data_link_from P (ucast n)) \<and>
     tsresol_option en (drop 8 (block_body b)) (if_tsresol i)"

lemma read16_drop: "read16 en (drop k bs) i = read16 en bs (k + i)"
  by (auto simp: read16_def index_def add.assoc split: option.splits)

lemma tlv_reads: "tlv_walk en opts cur = Some (Inr ts) \<Longrightarrow> tsresol_option en (drop cur opts) ts"
proof (induction "length opts - cur" arbitrary: cur rule: less_induct)
  case less
  let ?bs = "drop cur opts"
  have a: "add64 cur 4 = Some (cur + 4)" using less.prems by (auto simp: tlv_walk.simps [of en opts cur] add64_def split: if_splits)
  show ?case
  proof (cases "cur + 4 \<le> length opts")
    case False
    then have "ts = 6" using less.prems a by (simp add: tlv_walk.simps [of en opts cur] DEFAULT_TSRESOL_def)
    then show ?thesis using False by (auto intro: tsresol_option.cut)
  next
    case True
    then obtain code n where c: "read16 en opts cur = Some code" "read16 en opts (cur + 2) = Some n"
      using read16_total [of cur opts en] read16_total [of "cur + 2" opts en] by auto
    then have r: "read16 en ?bs 0 = Some code" "read16 en ?bs 2 = Some n" by (simp_all add: read16_drop)
    show ?thesis
    proof (cases "code = 0")
      case True
      then have "ts = 6" using less.prems a c \<open>cur + 4 \<le> length opts\<close> by (simp add: tlv_walk.simps [of en opts cur] DEFAULT_TSRESOL_def)
      then show ?thesis using r True by (auto intro: tsresol_option.over)
    next
      case code: False
      have v: "cur + 4 + unat n \<le> length opts"
        using less.prems a c True code by (auto simp: tlv_walk.simps [of en opts cur] add64_def Let_def split: if_splits bind_splits)
      show ?thesis
      proof (cases "code = 9")
        case True
        then have "unat n = 1" "index opts (cur + 4) = Some ts"
          using less.prems a c v by (auto simp: tlv_walk.simps [of en opts cur] add64_def Let_def split: if_splits)
        moreover then have "n = 1" by (simp add: word_unat_eq_iff)
        ultimately show ?thesis using r True v tsresol_option.found [of en ?bs] by (auto simp: index_def split: if_splits)
      next
        case False
        have "tlv_walk en opts (cur + 4 + (unat n + 3) div 4 * 4) = Some (Inr ts)"
          using less.prems a c v code False True by (auto simp: tlv_walk.simps [of en opts cur] add64_def Let_def split: if_splits)
        moreover have shorter: "length opts - (cur + 4 + (unat n + 3) div 4 * 4) < length opts - cur" using True by linarith
        ultimately have "tsresol_option en (drop (4 + (unat n + 3) div 4 * 4) ?bs) ts"
          using less.hyps [OF shorter] unfolding drop_drop by (simp add: ac_simps)
        then show ?thesis using tsresol_option.other [OF r(1) code False r(2)] v by simp
      qed
    qed
  qed
qed

lemma idb_reads:
  assumes "8 \<le> length body" "parse_idb_options body en = Some (Inr ts)"
  shows "tsresol_option en (drop 8 body) ts"
proof (cases "length body = 8")
  case True
  then show ?thesis using assms(2) by (auto simp: parse_idb_options_def IDB_BODY_FIXED_BYTES_def DEFAULT_TSRESOL_def intro: tsresol_option.cut)
next
  case False
  then have "tlv_walk en (drop 8 body) 0 = Some (Inr ts)" using assms by (simp add: parse_idb_options_def IDB_BODY_FIXED_BYTES_def byte_slice_def)
  from tlv_reads [OF this] show ?thesis by simp
qed

section \<open>What one block does\<close>

definition is_packet :: "raw_block \<Rightarrow> bool" where
  "is_packet b \<longleftrightarrow> block_type b = EPB_BLOCK_TYPE \<or> block_type b = SPB_BLOCK_TYPE"

definition is_skipped :: "raw_block \<Rightarrow> bool" where
  "is_skipped b \<longleftrightarrow> \<not> is_packet b \<and> block_type b \<noteq> IDB_BLOCK_TYPE"

text \<open>The packet of a packet block, given the interface table. A simple packet block has the
  bytes after its length field, cut at the original length, and no timestamp.\<close>

definition packet_of :: "section_endianness \<Rightarrow> interface_info list \<Rightarrow> raw_block \<Rightarrow> raw_packet option" where
  "packet_of en ifs b =
     (if block_type b = EPB_BLOCK_TYPE
      then (case decode_epb_body (block_body b) ifs en of Some (Inr p) \<Rightarrow> Some p | _ \<Rightarrow> None)
      else map_option (\<lambda>n. \<lparr>timestamp_secs = 0, timestamp_usecs = 0, pkt_data = take (unat n) (drop 4 (block_body b))\<rparr>)
             (read32 en (block_body b) 0))"

lemma spb_captured:
  assumes "length body < 2 ^ 32"
  shows "unat (spb_captured_len n body) = min (unat n) (length body - 4)"
proof -
  have "unat (word_of_nat (length body - 4) :: u32) = length body - 4" using assms by (simp add: unsigned_of_nat take_bit_nat_eq_self)
  then show ?thesis by (auto simp: spb_captured_len_def SPB_FIXED_OVERHEAD_BYTES_def min_def word_le_nat_alt)
qed

lemma spb_block_eq:
  assumes len: "length body < 2 ^ 32" "4 \<le> length body" and ifs: "wk_interfaces w \<noteq> []" and n: "read32 en body 0 = Some n"
  shows "spb_block en body w =
    Some (Inr (emit \<lparr>timestamp_secs = 0, timestamp_usecs = 0, pkt_data = take (unat n) (drop 4 body)\<rparr> w))"
proof -
  have c: "unat (spb_captured_len n body) = min (unat n) (length body - 4)" using spb_captured [OF len(1)] .
  have t: "take (min (unat n) (length body - 4)) (drop 4 body) = take (unat n) (drop 4 body)" by (simp add: min_def)
  have e: "4 + min (unat n) (length body - 4) \<le> length body" using len(2) by simp
  then have "4 + min (unat n) (length body - 4) \<le> u64_max" using len(1) u64_max_value by simp
  then show ?thesis using len ifs n c e t by (simp add: spb_block_def fixed_sizes byte_slice_def)
qed

lemma body_isize: "n < 2 ^ 32 \<Longrightarrow> n \<le> isize_max"
  by (simp add: isize_max_def)

lemma walk_block_total:
  assumes "length (block_body b) < 2 ^ 32"
  shows "\<exists>r. walk_block P en b w = Some r"
proof -
  have "\<exists>r. idb_block P en (block_body b) w = Some r"
    using idb_options_total [OF body_isize [OF assms], of en] read16_total [of 0 "block_body b" en]
    by (auto simp: idb_block_def IDB_BODY_FIXED_BYTES_def Let_def)
  moreover have "\<exists>r. epb_block en (block_body b) w = Some r"
    using epb_total [OF body_isize [OF assms], of "wk_interfaces w" en] by (auto simp: epb_block_def)
  moreover have "\<exists>r. spb_block en (block_body b) w = Some r"
  proof (cases "wk_interfaces w = [] \<or> length (block_body b) < 4")
    case False
    then show ?thesis using spb_block_eq [OF assms] read32_total [of 0 "block_body b" en] by fastforce
  qed (auto simp: spb_block_def SPB_FIXED_OVERHEAD_BYTES_def)
  ultimately show ?thesis by (simp add: walk_block_def)
qed

text \<open>The five ways a block is accepted.\<close>

lemma walk_block_cases:
  assumes ok: "walk_block P en b w = Some (Inr w')" and len: "length (block_body b) < 2 ^ 32"
  obtains
    (idb) i where "block_type b = IDB_BLOCK_TYPE" "wk_emitted w = 0" "length (wk_interfaces w) < MAX_INTERFACE_TABLE_ENTRIES"
      "interface_of P en b i" "supported_link (linktype i)" "wk_interfaces w \<noteq> [] \<Longrightarrow> linktype i = linktype (hd (wk_interfaces w))"
      "w' = w\<lparr>wk_interfaces := wk_interfaces w @ [i]\<rparr>"
  | (pkt) p where "is_packet b" "wk_interfaces w \<noteq> []" "packet_of en (wk_interfaces w) b = Some p" "unat (timestamp_usecs p) < 1000000"
      "w' = emit p w"
  | (opb) "block_type b = OPB_BLOCK_TYPE" "w' = skip_block w\<lparr>wk_opb := sat_addw (wk_opb w) 1\<rparr>"
  | (skip) "is_skipped b" "block_type b \<noteq> OPB_BLOCK_TYPE" "block_type b \<noteq> SHB_BLOCK_TYPE" "w' = skip_block w"
proof -
  consider (I) "block_type b = IDB_BLOCK_TYPE" | (E) "block_type b = EPB_BLOCK_TYPE" | (S) "block_type b = SPB_BLOCK_TYPE"
    | (O) "block_type b = OPB_BLOCK_TYPE" | (X) "is_skipped b" "block_type b \<noteq> OPB_BLOCK_TYPE" unfolding is_skipped_def is_packet_def by blast
  then show thesis
  proof cases
    case I
    then have i: "idb_block P en (block_body b) w = Some (Inr w')" using ok by (simp add: walk_block_def block_types)
    then obtain n ts where n: "8 \<le> length (block_body b)" "read16 en (block_body b) 0 = Some n" "parse_idb_options (block_body b) en = Some (Inr ts)"
      by (auto simp: idb_block_def IDB_BODY_FIXED_BYTES_def Let_def split: if_splits bind_splits sum.splits)
    let ?i = "\<lparr>linktype = data_link_from P (ucast n), if_tsresol = ts\<rparr>"
    have "interface_of P en b ?i" using n idb_reads by (simp add: interface_of_def)
    then show thesis using i I n(2,3)
      by (intro idb [of ?i]) (auto simp: idb_block_def Let_def hd_conv_nth word_gt_0 split: if_splits)
  next
    case E
    then have "epb_block en (block_body b) w = Some (Inr w')" using ok by (simp add: walk_block_def block_types)
    then obtain p where p: "decode_epb_body (block_body b) (wk_interfaces w) en = Some (Inr p)" "w' = emit p w"
      by (auto simp: epb_block_def split: bind_splits sum.splits)
    then show thesis using E epb_accepted [OF p(1) body_isize [OF len]] by (intro pkt [of p]) (auto simp: is_packet_def packet_of_def)
  next
    case S
    then have s: "spb_block en (block_body b) w = Some (Inr w')" using ok by (simp add: walk_block_def block_types)
    then have g: "wk_interfaces w \<noteq> []" "4 \<le> length (block_body b)" by (auto simp: spb_block_def SPB_FIXED_OVERHEAD_BYTES_def split: if_splits)
    obtain n where n: "read32 en (block_body b) 0 = Some n" using read32_total [of 0 "block_body b" en] g(2) by auto
    show thesis using s S g n spb_block_eq [OF len g(2,1) n] by (intro pkt) (auto simp: is_packet_def packet_of_def block_types)
  next
    case O
    then show thesis using ok by (intro opb) (auto simp: walk_block_def block_types)
  next
    case X
    then show thesis using ok by (intro skip) (auto simp: walk_block_def is_skipped_def is_packet_def split: if_splits)
  qed
qed

section \<open>The walk ends\<close>

text \<open>The length field of a block has 32 bits.\<close>

definition short_bodies :: "('p, 'c) pcap_crate \<Rightarrow> bool" where
  "short_bodies P \<longleftrightarrow> (\<forall>p src rem b p'. next_raw_block P p src = Inr (rem, b, p') \<longrightarrow> length (block_body b) < 2 ^ 32)"

lemma walk_blocks_total:
  assumes "short_bodies P"
  shows "\<exists>r. walk_blocks P en p src w = Some r"
proof (induction "length src" arbitrary: p src w rule: less_induct)
  case less
  show ?case
  proof (cases "next_raw_block P p src")
    case (Inl e)
    then show ?thesis by (simp add: walk_blocks.simps [of P en p src w])
  next
    case (Inr t)
    obtain rem b p' where t: "t = (rem, b, p')" by (metis prod_cases3)
    let ?w = "w\<lparr>wk_seq := sat_addw (wk_seq w) 1\<rparr>"
    have "length (block_body b) < 2 ^ 32" using assms Inr unfolding t short_bodies_def by blast
    then obtain r where r: "walk_block P en b ?w = Some r" using walk_block_total by blast
    show ?thesis using less.hyps [of rem] Inr t r by (cases r) (auto simp: walk_blocks.simps [of P en p src w] not_le)
  qed
qed

lemma read_pcapng_total:
  assumes "short_bodies P"
  shows "\<exists>r. read_pcapng_crate P raw = Some r"
proof (cases "ng_new P raw")
  case (Inr t)
  obtain src p where t: "t = (src, p)" by fastforce
  obtain major en where s: "ng_section P p = (major, en)" by fastforce
  obtain r where "walk_blocks P (case en of Big \<Rightarrow> BigEndian | Little \<Rightarrow> LittleEndian) p src walk_start = Some r"
    using walk_blocks_total [OF assms] by blast
  then show ?thesis using Inr t s by (simp add: read_pcapng_crate_def Let_def)
qed (simp add: read_pcapng_crate_def)

text \<open>C31. Reading a pcapng capture always ends, with a source or an error and without a panic, whatever the parser of the crate
  returns: also for one that hands out blocks for ever without consuming the input, since the walk stops at the first
  block that does not shorten it. All that is asked is that a block's body fits its 32-bit length.\<close>

theorem pcapng_always_ends:
  assumes "short_bodies P"
  shows "\<exists>r. read_pcapng_crate P raw = Some r"
  by (rule read_pcapng_total [OF assms])

text \<open>A parser that never advances.\<close>

definition stalling_crate :: "(unit, unit) pcap_crate" where
  "stalling_crate =
     \<lparr>error_text = (\<lambda>_. []), data_link_from = (\<lambda>_. ETHERNET), ng_new = (\<lambda>raw. Inr (raw, ())), ng_section = (\<lambda>_. (1, Little)),
      next_raw_block = (\<lambda>_ src. Inr (src, \<lparr>block_type = 5, block_body = []\<rparr>, ())),
      pcap_new = (\<lambda>_. Inr ()), pcap_header = (\<lambda>_. (ETHERNET, MicroSecond)), next_raw_packet = (\<lambda>_. None)\<rparr>"

theorem pcapng_always_ends_witness:
  "(\<exists>r. read_pcapng_crate stalling_crate [1, 2, 3] = Some r) \<and>
   read_pcapng_crate stalling_crate [1, 2, 3] = Some (Inl (Stalled 1 3 3))"
proof
  show "\<exists>r. read_pcapng_crate stalling_crate [1, 2, 3] = Some r"
    by (rule pcapng_always_ends) (auto simp: short_bodies_def stalling_crate_def)
qed (simp add: read_pcapng_crate_def stalling_crate_def walk_blocks.simps walk_start_def)

section \<open>What the walk returns\<close>

text \<open>The blocks the parser cuts the input into.\<close>

inductive splits :: "('p, 'c) pcap_crate \<Rightarrow> 'p \<Rightarrow> bytes \<Rightarrow> raw_block list \<Rightarrow> bool" for P where
  splits_Nil: "splits P p [] []"
| splits_Cons: "\<lbrakk>src \<noteq> []; next_raw_block P p src = Inr (rem, b, p'); splits P p' rem bs\<rbrakk> \<Longrightarrow> splits P p src (b # bs)"

definition count_if :: "('a \<Rightarrow> bool) \<Rightarrow> 'a list \<Rightarrow> nat" where
  "count_if Q xs = length (filter Q xs)"

text \<open>From the state \<open>w\<close> the blocks \<open>bs\<close> led to \<open>w'\<close>, adding the packets \<open>news\<close>.\<close>

definition walked :: "('p, 'c) pcap_crate \<Rightarrow> section_endianness \<Rightarrow> walk \<Rightarrow> raw_block list \<Rightarrow> raw_packet list \<Rightarrow> walk \<Rightarrow> bool" where
  "walked P en w bs news w' \<longleftrightarrow>
     wk_packets w' = wk_packets w @ news \<and> map (packet_of en (wk_interfaces w')) (filter is_packet bs) = map Some news \<and>
     (\<exists>is. wk_interfaces w' = wk_interfaces w @ is \<and> list_all2 (interface_of P en) (filter (\<lambda>b. block_type b = IDB_BLOCK_TYPE) bs) is) \<and>
     (wk_emitted w > 0 \<longrightarrow> wk_interfaces w' = wk_interfaces w) \<and>
     unat (wk_skipped w') = min (unat (wk_skipped w) + count_if is_skipped bs) u32_max \<and>
     unat (wk_opb w') = min (unat (wk_opb w) + count_if (\<lambda>b. block_type b = OPB_BLOCK_TYPE) bs) u32_max \<and>
     (\<forall>b \<in> set bs. block_type b \<noteq> SHB_BLOCK_TYPE)"

lemma unat_u32_max: "min (unat (x :: u32)) u32_max = unat x"
  using unat_u32_less [of x] unfolding u32_max_def by linarith

lemma walked_refl: "walked P en w [] [] w"
  by (simp add: walked_def count_if_def unat_u32_max)

lemma walked_cong: "walked P en (w\<lparr>wk_seq := s\<rparr>) bs news w' = walked P en w bs news w'"
  by (simp add: walked_def)

lemma unat_saturate: "unat (sat_addw (x :: u32) 1) = min (unat x + 1) u32_max"
  by (simp add: unat_sat_addw u32_max_def)

lemma walked_extend:
  assumes step: "walk_block P en b w = Some (Inr v)" and len: "length (block_body b) < 2 ^ 32" and rest: "walked P en v bs news w'"
  shows "\<exists>news. walked P en w (b # bs) news w'"
  using step len
proof (cases rule: walk_block_cases)
  case (idb i)
  then have "walked P en w (b # bs) news w'"
    using rest by (auto simp: walked_def count_if_def is_packet_def is_skipped_def block_types)
  then show ?thesis ..
next
  case (pkt p)
  have "0 < wk_emitted (emit p w)" by (simp add: emit_def word_gt_0 unat_eq_zero [symmetric] unat_saturate u32_max_def)
  then have "walked P en w (b # bs) (p # news) w'"
    using rest pkt by (auto simp: walked_def count_if_def emit_def is_packet_def is_skipped_def block_types)
  then show ?thesis ..
next
  case opb
  then have "walked P en w (b # bs) news w'"
    using rest by (auto simp: walked_def count_if_def skip_block_def is_packet_def is_skipped_def block_types unat_saturate)
  then show ?thesis ..
next
  case skip
  then have "walked P en w (b # bs) news w'"
    using rest by (auto simp: walked_def count_if_def skip_block_def is_packet_def is_skipped_def unat_saturate)
  then show ?thesis ..
qed

lemma walk_blocks_step:
  assumes "short_bodies P" "walk_blocks P en p src w = Some (Inr w')" "src \<noteq> []"
  obtains rem b p' v where "next_raw_block P p src = Inr (rem, b, p')" "length rem < length src" "length (block_body b) < 2 ^ 32"
    "walk_block P en b (w\<lparr>wk_seq := sat_addw (wk_seq w) 1\<rparr>) = Some (Inr v)" "walk_blocks P en p' rem v = Some (Inr w')"
proof -
  obtain rem b p' where n: "next_raw_block P p src = Inr (rem, b, p')" and l: "length rem < length src"
    using assms(2,3) by (auto simp: walk_blocks.simps [of P en p src w] split: sum.splits if_splits)
  have "length (block_body b) < 2 ^ 32" using assms(1) n unfolding short_bodies_def by blast
  moreover obtain v where "walk_block P en b (w\<lparr>wk_seq := sat_addw (wk_seq w) 1\<rparr>) = Some (Inr v)" "walk_blocks P en p' rem v = Some (Inr w')"
    using assms(2,3) n l by (auto simp: walk_blocks.simps [of P en p src w] split: sum.splits bind_splits)
  ultimately show thesis using that n l by blast
qed

lemma walk_exact:
  assumes "short_bodies P" "walk_blocks P en p src w = Some (Inr w')"
  shows "\<exists>bs news. splits P p src bs \<and> walked P en w bs news w'"
  using assms(2)
proof (induction "length src" arbitrary: p src w rule: less_induct)
  case less
  show ?case
  proof (cases "src = []")
    case True
    then show ?thesis using less.prems walked_refl by (force simp: walk_blocks.simps intro: splits_Nil)
  next
    case False
    then obtain rem b p' v where s: "next_raw_block P p src = Inr (rem, b, p')" "length rem < length src" "length (block_body b) < 2 ^ 32"
      "walk_block P en b (w\<lparr>wk_seq := sat_addw (wk_seq w) 1\<rparr>) = Some (Inr v)" "walk_blocks P en p' rem v = Some (Inr w')"
      using walk_blocks_step [OF assms(1) less.prems] by blast
    obtain bs news where "splits P p' rem bs" "walked P en v bs news w'" using less.hyps [OF s(2,5)] by blast
    moreover then obtain news' where "walked P en (w\<lparr>wk_seq := sat_addw (wk_seq w) 1\<rparr>) (b # bs) news' w'" using walked_extend [OF s(4,3)] by blast
    ultimately show ?thesis using splits_Cons [OF False s(1)] walked_cong by blast
  qed
qed

text \<open>C32. A pcapng capture that is accepted is read completely and in order: the input was cut into blocks none of which starts a second
  section, the packets are those of the packet blocks in the order of the file, every one decoded against
  the complete interface table (no interface can follow a packet), and the two counters are the numbers of skipped and of
  obsolete packet blocks, saturating. The interface table is the interfaces of the interface blocks, in the order of the file, each with the link
  type its block names and the time resolution of its option list, six if it gives none.\<close>

theorem pcapng_read_exactly:
  assumes "short_bodies P" and "ng_new P raw = Inr (src, p)" and "read_pcapng_crate P raw = Some (Inr s)"
  shows "\<exists>bs ifs. splits P p src bs \<and> (\<forall>b \<in> set bs. block_type b \<noteq> SHB_BLOCK_TYPE) \<and>
     map (packet_of (case snd (ng_section P p) of Big \<Rightarrow> BigEndian | Little \<Rightarrow> LittleEndian) ifs) (filter is_packet bs) = map Some (packets s) \<and>
     list_all2 (interface_of P (case snd (ng_section P p) of Big \<Rightarrow> BigEndian | Little \<Rightarrow> LittleEndian)) (filter (\<lambda>b. block_type b = IDB_BLOCK_TYPE) bs) ifs \<and>
     unat (skipped_blocks s) = min (count_if is_skipped bs) u32_max \<and>
     unat (opb_skipped s) = min (count_if (\<lambda>b. block_type b = OPB_BLOCK_TYPE) bs) u32_max"
proof -
  let ?en = "case snd (ng_section P p) of Big \<Rightarrow> BigEndian | Little \<Rightarrow> LittleEndian"
  obtain w where w: "walk_blocks P ?en p src walk_start = Some (Inr w)"
      and s: "packets s = wk_packets w" "skipped_blocks s = wk_skipped w" "opb_skipped s = wk_opb w"
    using assms(2,3) by (auto simp: read_pcapng_crate_def Let_def split: prod.splits if_splits bind_splits sum.splits)
  obtain bs news where bs: "splits P p src bs" "walked P ?en walk_start bs news w" using walk_exact [OF assms(1) w] by blast
  then show ?thesis unfolding s by (intro exI [of _ bs] exI [of _ "wk_interfaces w"]) (auto simp: walked_def walk_start_def)
qed

section \<open>What the reader hands on\<close>

definition source_ok :: "walk \<Rightarrow> bool" where
  "source_ok w \<longleftrightarrow>
     (wk_packets w \<noteq> [] \<longrightarrow> wk_interfaces w \<noteq> []) \<and>
     (\<forall>i \<in> set (wk_interfaces w). supported_link (linktype i)) \<and> length (wk_interfaces w) \<le> MAX_INTERFACE_TABLE_ENTRIES \<and>
     (\<forall>k \<in> set (wk_packets w). unat (timestamp_usecs k) < 1000000)"

lemma source_ok_step:
  assumes "source_ok w" "walk_block P en b w = Some (Inr v)" "length (block_body b) < 2 ^ 32"
  shows "source_ok v"
  using assms(2,3)
  by (cases rule: walk_block_cases) (use assms(1) in \<open>auto simp: source_ok_def emit_def skip_block_def\<close>)

lemma source_ok_walk:
  assumes "short_bodies P" "walk_blocks P en p src w = Some (Inr w')" "source_ok w"
  shows "source_ok w'"
  using assms(2,3)
proof (induction "length src" arbitrary: p src w rule: less_induct)
  case less
  show ?case
  proof (cases "src = []")
    case True
    then show ?thesis using less.prems by (simp add: walk_blocks.simps)
  next
    case False
    then obtain rem b p' v where s: "next_raw_block P p src = Inr (rem, b, p')" "length rem < length src" "length (block_body b) < 2 ^ 32"
      "walk_block P en b (w\<lparr>wk_seq := sat_addw (wk_seq w) 1\<rparr>) = Some (Inr v)" "walk_blocks P en p' rem v = Some (Inr w')"
      using walk_blocks_step [OF assms(1) less.prems(1)] by blast
    have "source_ok (w\<lparr>wk_seq := sat_addw (wk_seq w) 1\<rparr>)" using less.prems(2) by (simp add: source_ok_def)
    from source_ok_step [OF this s(4,3)] have "source_ok v" .
    then show ?thesis using less.hyps [OF s(2,5)] by simp
  qed
qed

lemma pcapng_source:
  assumes "short_bodies P" "read_pcapng_crate P raw = Some (Inr s)" "k \<in> set (packets s)"
  shows "supported_link (datalink s)" "unat (timestamp_usecs k) < 1000000"
proof -
  obtain en p src w where w: "walk_blocks P en p src walk_start = Some (Inr w)"
      and s: "packets s = wk_packets w" "datalink s = (case wk_interfaces w of [] \<Rightarrow> data_link_from P 0 | i # _ \<Rightarrow> linktype i)"
    using assms(2) by (auto simp: read_pcapng_crate_def Let_def split: prod.splits if_splits bind_splits sum.splits)
  have "source_ok w" using source_ok_walk [OF assms(1) w] by (simp add: source_ok_def walk_start_def)
  then show "supported_link (datalink s)" "unat (timestamp_usecs k) < 1000000"
    using assms(3) by (auto simp: source_ok_def s split: list.splits)
qed

lemma decode_net_link:
  "decode_net strict_ip_triple net link tslice len \<noteq> Some (Inl (UnsupportedLinkType l))"
  "decode_net lax_ip_triple net link tslice len \<noteq> Some (Inl (UnsupportedLinkType l))"
  by (cases net; auto simp: decode_net_def decode_arp_def strict_ip_triple_def lax_ip_triple_def split: bind_splits option.splits)+

lemma lax_parse_link:
  "supported_link link \<Longrightarrow> lax_parse S data link \<noteq> Some (Inl (UnsupportedLinkType l))"
  by (cases link) (auto simp: supported_link_def lax_parse_def split: option.splits bind_splits)

lemma decode_supported:
  assumes "supported_link link"
  shows "decode_packet S data link \<noteq> Some (Inl (UnsupportedLinkType l))"
proof -
  obtain r where r: "strict_slice S data link = Inr r" using assms by (cases link) (auto simp: supported_link_def strict_slice_def)
  have lax: "decode_lax data x \<noteq> Some (Inl (UnsupportedLinkType l))" for x
    by (auto simp: decode_lax_def decode_net_link split: option.splits if_splits bind_splits)
  show ?thesis
  proof (cases r)
    case (Inl e)
    then show ?thesis using r lax lax_parse_link [OF assms, of S data l]
      by (cases e) (auto simp: decode_packet_def split: bind_splits sum.splits)
  next
    case (Inr sp)
    then show ?thesis using r by (cases "sp_net sp") (simp_all add: decode_packet_def decode_net_link)
  qed
qed

text \<open>C33. Whatever file is read, of either format, every packet the reader hands on comes with a link type the decoder accepts:
  decoding one never fails for its link type. In a pcapng capture every timestamp has fewer than a million microseconds.\<close>

theorem read_packets_decodable:
  assumes "short_bodies P" and "from_file P f = Some (Inr src)" and "k \<in> set (packets src)"
  shows "decode_packet S (pkt_data k) (datalink src) \<noteq> Some (Inl (UnsupportedLinkType l)) \<and>
     (is_pcapng src \<longrightarrow> unat (timestamp_usecs k) < 1000000)"
proof -
  obtain stream where "from_pcap_reader P stream = Some (Inr src)"
    using assms(2) by (auto simp: from_file_def split: option.splits if_splits bind_splits)
  then consider raw where "read_pcapng_crate P raw = Some (Inr src)" | "read_classic P stream = Some (Inr src)"
    by (auto simp: from_pcap_reader_def split: option.splits if_splits bind_splits)
  then show ?thesis
  proof cases
    case 1
    then show ?thesis using pcapng_source [OF assms(1) _ assms(3)] decode_supported by blast
  next
    case 2
    then have "supported_link (datalink src)" "\<not> is_pcapng src"
      by (auto simp: read_classic_def Let_def split: sum.splits prod.splits if_splits bind_splits)
    then show ?thesis using decode_supported by blast
  qed
qed

section \<open>Streams\<close>

lemma read_to_end_chunks: "\<forall>c \<in> set cs. c \<noteq> [] \<Longrightarrow> read_to_end (map Chunk cs) = Some (concat cs)"
  by (induction cs) simp_all

text \<open>C34. A pcapng stream is read as the concatenation of its chunks, however it is cut, if its first \<open>read\<close> returns at least
  four bytes. If it returns fewer, the same capture is rejected as too short, although all of its bytes would follow.\<close>

theorem first_read_decides:
  assumes "\<forall>c \<in> set (c0 # cs). c \<noteq> []" and "take 4 (concat (c0 # cs)) = PCAPNG_MAGIC"
  shows "from_pcap_reader P (map Chunk (c0 # cs)) =
     (if length c0 < 4 then Some (Inl (StreamTooShort (length c0))) else read_pcapng_crate P (concat (c0 # cs)))"
proof (cases "length c0 < 4")
  case False
  then have "byte_slice c0 0 4 = Some PCAPNG_MAGIC" using assms(2) by (simp add: byte_slice_def)
  then show ?thesis using False read_to_end_chunks [OF assms(1)] by (simp add: from_pcap_reader_def)
qed (simp add: from_pcap_reader_def)

section \<open>Witnesses\<close>

text \<open>A parser for these: each byte of the input is one block, an interface description with nanosecond resolution, an
  enhanced packet block with three bytes of data, then skipped ones.\<close>

definition demo_idb :: bytes where
  "demo_idb = [0, 1, 0, 0, 0, 0, 0, 0, 0, 9, 0, 1, 9, 0, 0, 0]"

definition demo_block :: "nat \<Rightarrow> raw_block" where
  "demo_block n =
     (if n = 0 then \<lparr>block_type = 1, block_body = demo_idb\<rparr>
      else if n = 1 then \<lparr>block_type = 6, block_body = enc_epb BigEndian 0 0 1000001000 3 [1, 2, 3] []\<rparr>
      else \<lparr>block_type = 2, block_body = []\<rparr>)"

definition demo_crate :: "(nat, unit) pcap_crate" where
  "demo_crate =
     \<lparr>error_text = (\<lambda>_. []), data_link_from = (\<lambda>n. if n = 1 then ETHERNET else OtherDataLink), ng_new = (\<lambda>raw. Inr (drop 4 raw, 0)),
      ng_section = (\<lambda>_. (1, Big)), next_raw_block = (\<lambda>n src. Inr (tl src, demo_block n, Suc n)),
      pcap_new = (\<lambda>_. Inr ()), pcap_header = (\<lambda>_. (ETHERNET, MicroSecond)), next_raw_packet = (\<lambda>_. None)\<rparr>"

definition demo_packet :: raw_packet where
  "demo_packet = \<lparr>timestamp_secs = 1, timestamp_usecs = 1, pkt_data = [1, 2, 3]\<rparr>"

definition demo_source :: pcap_source where
  "demo_source = \<lparr>packets = [demo_packet], datalink = ETHERNET, skipped_blocks = 1, opb_skipped = 1, is_pcapng = True\<rparr>"

lemma demo_short: "short_bodies demo_crate"
  by (auto simp: short_bodies_def demo_crate_def demo_block_def demo_idb_def enc_epb_def)

lemma demo_epb:
  "decode_epb_body (enc_epb BigEndian 0 0 1000001000 3 [1, 2, 3] []) [\<lparr>linktype = ETHERNET, if_tsresol = 9\<rparr>] BigEndian = Some (Inr demo_packet)"
proof -
  let ?b = "enc_epb BigEndian 0 0 1000001000 3 [1, 2, 3] []"
  have l: "EPB_FIXED_OVERHEAD_BYTES \<le> length ?b" "length ?b \<le> isize_max" by (simp_all add: enc_epb_def EPB_FIXED_OVERHEAD_BYTES_def isize_max_def)
  show ?thesis using epb_cases [OF l epb_encoded_fields]
    by (simp add: timestamp_general Let_def ticks64_def ticks_per_second_def u32_max_def demo_packet_def enc_epb_def)
qed

lemma demo_read: "read_pcapng_crate demo_crate [0x0A, 0x0D, 0x0D, 0x0A, 0, 0, 0] = Some (Inr demo_source)"
proof -
  let ?i = "[\<lparr>linktype = ETHERNET, if_tsresol = 9\<rparr>]"
  have i: "idb_block demo_crate BigEndian demo_idb w = Some (Inr (w\<lparr>wk_interfaces := ?i\<rparr>))" if "wk_emitted w = 0" "wk_interfaces w = []" for w
    using that by (simp add: idb_block_def fixed_sizes MAX_INTERFACE_TABLE_ENTRIES_def read16_def index_def be16_def demo_crate_def supported_link_def
        parse_idb_options_def byte_slice_def tlv_walk.simps add64_def u64_max_def demo_idb_def)
  have e: "epb_block BigEndian (enc_epb BigEndian 0 0 1000001000 3 [1, 2, 3] []) w = Some (Inr (emit demo_packet w))" if "wk_interfaces w = ?i" for w
    using that demo_epb by (simp add: epb_block_def)
  have n: "next_raw_block demo_crate n src = Inr (tl src, demo_block n, Suc n)" for n src by (simp add: demo_crate_def)
  have "walk_blocks demo_crate BigEndian 0 [0, 0, 0] walk_start =
      Some (Inr \<lparr>wk_packets = [demo_packet], wk_interfaces = ?i, wk_emitted = 1, wk_skipped = 1, wk_opb = 1, wk_seq = 4\<rparr>)"
    by (simp add: walk_blocks.simps n demo_block_def walk_block_def block_types i e walk_start_def emit_def skip_block_def sat_addw_def)
  then show ?thesis by (simp add: read_pcapng_crate_def demo_crate_def demo_source_def)
qed

theorem pcapng_read_exactly_witness:
  "\<exists>bs. splits demo_crate 0 [0, 0, 0] bs \<and> filter (\<lambda>b. block_type b = IDB_BLOCK_TYPE) bs \<noteq> [] \<and>
     (\<exists>ifs. list_all2 (interface_of demo_crate BigEndian) (filter (\<lambda>b. block_type b = IDB_BLOCK_TYPE) bs) ifs \<and>
        map (packet_of BigEndian ifs) (filter is_packet bs) = [Some demo_packet])"
proof -
  have n: "ng_new demo_crate [0x0A, 0x0D, 0x0D, 0x0A, 0, 0, 0] = Inr ([0, 0, 0], 0)" "snd (ng_section demo_crate 0) = Big" "packets demo_source = [demo_packet]"
    by (simp_all add: demo_crate_def demo_source_def)
  then obtain bs ifs where b: "splits demo_crate 0 [0, 0, 0] bs" "list_all2 (interface_of demo_crate BigEndian) (filter (\<lambda>b. block_type b = IDB_BLOCK_TYPE) bs) ifs"
      "map (packet_of BigEndian ifs) (filter is_packet bs) = [Some demo_packet]"
    using pcapng_read_exactly [OF demo_short n(1) demo_read] by auto
  have nb: "next_raw_block demo_crate 0 src = Inr (tl src, demo_block 0, Suc 0)" for src by (simp add: demo_crate_def)
  from b(1) have "hd bs = demo_block 0 \<and> bs \<noteq> []" by (cases rule: splits.cases) (simp_all add: nb)
  then have "filter (\<lambda>b. block_type b = IDB_BLOCK_TYPE) bs \<noteq> []" by (cases bs) (auto simp: demo_block_def block_types)
  then show ?thesis using b by (intro exI [of _ bs] conjI exI [of _ ifs])
qed

theorem read_packets_decodable_witness:
  "\<forall>S l. decode_packet S [1, 2, 3] ETHERNET \<noteq> Some (Inl (UnsupportedLinkType l))"
proof (intro allI)
  fix S l
  let ?f = "\<lparr>file_stream = Some [Chunk [0x0A, 0x0D, 0x0D, 0x0A, 0, 0, 0]], file_size = Some 7\<rparr>"
  have "from_file demo_crate ?f = Some (Inr demo_source)"
    using demo_read by (simp add: from_file_def from_pcap_reader_def byte_slice_def PCAPNG_MAGIC_def MAX_PCAPNG_FILE_BYTES_def)
  from read_packets_decodable [OF demo_short this, of demo_packet S l] show "decode_packet S [1, 2, 3] ETHERNET \<noteq> Some (Inl (UnsupportedLinkType l))" by (simp add: demo_source_def demo_packet_def)
qed

theorem first_read_decides_witness:
  "from_pcap_reader demo_crate [Chunk [0x0A, 0x0D], Chunk [0x0D, 0x0A, 0, 0, 0]] = Some (Inl (StreamTooShort 2)) \<and>
   from_pcap_reader demo_crate [Chunk [0x0A, 0x0D, 0x0D, 0x0A, 0], Chunk [0, 0]] = Some (Inr demo_source)"
  using first_read_decides [of "[0x0A, 0x0D]" "[[0x0D, 0x0A, 0, 0, 0]]" demo_crate]
    first_read_decides [of "[0x0A, 0x0D, 0x0D, 0x0A, 0]" "[[0, 0]]" demo_crate] demo_read
  by (simp add: PCAPNG_MAGIC_def)

end
