(* ===== verification/Catalog.thy ===== *)
theory Catalog
  imports Dispatcher
begin

text \<open>
  The catalog of protocols, \<open>src/protocols.rs\<close>, and the report of coverage gaps made with it in \<open>src/main.rs\<close>: which ports nothing
  dissected, and whether the catalog knows them. The one-line descriptions of the catalog, printed by
  \<open>wirerust protocols\<close> only, are left out.
\<close>

section \<open>The catalog\<close>

datatype protocol_category = ICS | IT

text \<open>\<open>Transport\<close> of \<open>protocols.rs\<close>.\<close>

datatype catalog_transport = TcpLayer | UdpLayer | LinkLayer

record known_protocol =
  kp_name :: string
  kp_category :: protocol_category
  kp_transport :: catalog_transport
  kp_canonical_ports :: "u16 list"
  kp_ethertype :: "u16 option"
  kp_port_detectable :: bool

abbreviation known :: "string \<Rightarrow> protocol_category \<Rightarrow> catalog_transport \<Rightarrow> u16 list \<Rightarrow> u16 option \<Rightarrow> bool \<Rightarrow> known_protocol" where
  "known n c t ps e d \<equiv>
     \<lparr>kp_name = n, kp_category = c, kp_transport = t, kp_canonical_ports = ps, kp_ethertype = e, kp_port_detectable = d\<rparr>"

definition SUPPORTED_PORTS :: "u16 list" where
  "SUPPORTED_PORTS = [502, 20000, 44818, 2404, 443, 8443, 80, 8080, 53]"

text \<open>The four blocks of \<open>KNOWN_PROTOCOLS\<close>, in its order.\<close>

definition known_supported_block :: "known_protocol list" where
  "known_supported_block =
     [known ''Modbus/TCP'' ICS TcpLayer [502] None True,
      known ''DNP3'' ICS TcpLayer [20000] None True,
      known ''EtherNet/IP + CIP'' ICS TcpLayer [44818] None True,
      known ''TLS'' IT TcpLayer [443, 8443] None True,
      known ''ARP'' IT LinkLayer [] None False,
      known ''DNS'' IT UdpLayer [53] None True,
      known ''HTTP'' IT TcpLayer [80, 8080] None True]"

definition known_ics_block :: "known_protocol list" where
  "known_ics_block =
     [known ''S7comm'' ICS TcpLayer [102] None True,
      known ''S7comm-plus'' ICS TcpLayer [102] None True,
      known ''IEC 60870-5-104'' ICS TcpLayer [2404] None True,
      known ''IEC 61850 MMS'' ICS TcpLayer [102] None True,
      known ''BACnet/IP'' ICS UdpLayer [47808] None True,
      known ''OPC-UA'' ICS TcpLayer [4840] None True,
      known ''PROFINET RPC'' ICS UdpLayer [34962, 34963, 34964] None True,
      known ''ICCP/TASE.2'' ICS TcpLayer [102] None True,
      known ''HART-IP'' ICS UdpLayer [5094] None True]"

definition known_l2_block :: "known_protocol list" where
  "known_l2_block =
     [known ''IEC 61850 GOOSE'' ICS LinkLayer [] (Some 0x88B8) False,
      known ''IEC 61850 Sampled Values'' ICS LinkLayer [] (Some 0x88BA) False,
      known ''PROFINET RT/DCP'' ICS LinkLayer [] (Some 0x8892) False,
      known ''EtherCAT'' ICS LinkLayer [] (Some 0x88A4) False,
      known ''Ethernet POWERLINK'' ICS LinkLayer [] (Some 0x88AB) False]"

definition known_it_block :: "known_protocol list" where
  "known_it_block =
     [known ''SSH'' IT TcpLayer [22] None True,
      known ''SMB'' IT TcpLayer [445] None True,
      known ''RDP'' IT TcpLayer [3389] None True,
      known ''FTP'' IT TcpLayer [21] None True,
      known ''Telnet'' IT TcpLayer [23] None True,
      known ''SNMP'' IT UdpLayer [161, 162] None True,
      known ''NTP'' IT UdpLayer [123] None True,
      known ''SMTP'' IT TcpLayer [25] None True,
      known ''LDAP'' IT TcpLayer [389] None True]"

definition KNOWN_PROTOCOLS :: "known_protocol list" where
  "KNOWN_PROTOCOLS = known_supported_block @ known_ics_block @ known_l2_block @ known_it_block"

definition all_protocols :: "known_protocol list" where
  "all_protocols = KNOWN_PROTOCOLS"

definition supported_protocols :: "known_protocol list" where
  "supported_protocols =
     filter (\<lambda>p. (\<exists>port \<in> set (kp_canonical_ports p). port \<in> set SUPPORTED_PORTS) \<or> kp_name p = ''ARP'') KNOWN_PROTOCOLS"

definition unsupported_protocols :: "known_protocol list" where
  "unsupported_protocols = (let supported = map kp_name supported_protocols in filter (\<lambda>p. kp_name p \<notin> set supported) KNOWN_PROTOCOLS)"

section \<open>Coverage gaps\<close>

datatype protocol_gap_state = KnownUnsupported | UnknownProtocol | KnownSupported

definition catalog_transport_of :: "transport_proto \<Rightarrow> catalog_transport" where
  "catalog_transport_of t = (case t of TcpProto \<Rightarrow> TcpLayer | UdpProto \<Rightarrow> UdpLayer)"

definition catalog_entry :: "transport_proto \<Rightarrow> u16 \<Rightarrow> known_protocol option" where
  "catalog_entry t port = find (\<lambda>p. kp_transport p = catalog_transport_of t \<and> port \<in> set (kp_canonical_ports p)) KNOWN_PROTOCOLS"

definition lookup_protocol_state :: "transport_proto \<Rightarrow> u16 \<Rightarrow> protocol_gap_state" where
  "lookup_protocol_state t port =
     (case catalog_entry t port of
        Some p \<Rightarrow> if \<exists>cp \<in> set (kp_canonical_ports p). cp \<in> set SUPPORTED_PORTS then KnownSupported else KnownUnsupported
      | None \<Rightarrow> UnknownProtocol)"

type_synonym gap_counts = "(transport_proto \<times> u16, u64) hash_map"

text \<open>\<open>*all.entry(k).or_insert(0) += v\<close> over the entries of a map.\<close>

fun add_gaps :: "((transport_proto \<times> u16) \<times> u64) list \<Rightarrow> gap_counts \<Rightarrow> gap_counts rust" where
  "add_gaps [] all = Some all"
| "add_gaps ((k, v) # es) all = do {
     n \<leftarrow> add64 (case hm_get all k of Some n \<Rightarrow> n | None \<Rightarrow> 0) v;
     add_gaps es (hm_insert k n all)
   }"

definition collect_all_gaps ::
  "(transport_proto \<times> u16) hash_seed \<Rightarrow> (transport_proto \<times> u16) hash_seed \<Rightarrow> gap_counts \<Rightarrow> gap_counts \<Rightarrow> gap_counts rust"
where
  "collect_all_gaps seed1 seed2 tcp_gaps udp_gaps = do {
     all1 \<leftarrow> add_gaps (hm_iter seed1 tcp_gaps) [];
     add_gaps (hm_iter seed2 udp_gaps) all1
   }"

definition gap_sort_key :: "(transport_proto \<times> u16) \<times> u64 \<Rightarrow> nat" where
  "gap_sort_key e = (case e of ((t, port), _) \<Rightarrow> unat port * 2 + (case t of TcpProto \<Rightarrow> 0 | UdpProto \<Rightarrow> 1))"

definition L2_CAVEAT_TEXT :: string where
  "L2_CAVEAT_TEXT =
     ''Dynamic gap detection covers TCP and UDP flows. '' @
     ''Layer-2 protocols (e.g., GOOSE, Sampled Values, PROFINET-RT/DCP, EtherCAT, Ethernet POWERLINK) '' @
     ''have no TCP/UDP port and are not represented in the gap report. '' @
     ''Consult `wirerust protocols --unsupported` for L2 protocol coverage.''"

definition PORT_102_NOTE :: string where
  "PORT_102_NOTE =
     ''TCP/102 gap: S7comm, S7comm-plus, IEC 61850 MMS, and ICCP/TASE.2 '' @
     ''all share this port (ISO-on-TCP/TPKT). This gap cannot be attributed to a single protocol.''"

definition gap_name :: "transport_proto \<Rightarrow> u16 \<Rightarrow> string option" where
  "gap_name t port =
     (if t = TcpProto \<and> port = 102 then None
      else case lookup_protocol_state t port of
        UnknownProtocol \<Rightarrow> None
      | _ \<Rightarrow> map_option kp_name (catalog_entry t port))"

text \<open>One line of the report, as the fragments of its template, and the note on port 102.\<close>

definition gap_line :: "(transport_proto \<times> u16) \<times> u64 \<Rightarrow> flow_key fmt" where
  "gap_line e =
     (case e of ((t, port), n) \<Rightarrow>
        [Lit ''  '', Lit (case t of TcpProto \<Rightarrow> ''TCP'' | UdpProto \<Rightarrow> ''UDP''), Lit ''/'', Dec (unat port), Lit ''  count='', Dec n, Lit ''  '',
         Lit (case lookup_protocol_state t port of KnownUnsupported \<Rightarrow> ''known-unsupported'' | UnknownProtocol \<Rightarrow> ''unknown'' | KnownSupported \<Rightarrow> ''known-supported'')] @
        (case gap_name t port of Some name \<Rightarrow> [Lit ''  '', Lit name] | None \<Rightarrow> []) @ [Lit ''\<newline>''] @
        (if t = TcpProto \<and> port = 102 then [Lit ''    '', Lit PORT_102_NOTE, Lit ''\<newline>''] else []))"

definition render_coverage_gaps_terminal :: "(transport_proto \<times> u16) hash_seed \<Rightarrow> gap_counts \<Rightarrow> flow_key fmt" where
  "render_coverage_gaps_terminal seed all_gaps =
     [Lit ''\<newline>--- CoverageGapsSummary ---\<newline>'', Lit ''\<newline>'', Lit L2_CAVEAT_TEXT, Lit ''\<newline>''] @
     (let es = sort_key gap_sort_key (hm_iter seed all_gaps) in
      if es = [] then [Lit ''\<newline>No unclassified port gaps detected.\<newline>'']
      else Lit ''\<newline>'' # concat (map gap_line es))"

end
