(* ===== verification/Catalog_Props.thy ===== *)
theory Catalog_Props
  imports Catalog Replay
begin

text \<open>
  Properties of the catalog and of the gap report: which ports the catalog knows, how that agrees with the dispatcher's
  classification, and that the report neither panics nor depends on the order of the hash maps.
\<close>

lemmas known_blocks = KNOWN_PROTOCOLS_def known_supported_block_def known_ics_block_def known_l2_block_def known_it_block_def

definition tcp_ports_supported :: "u16 set" where
  "tcp_ports_supported = {502, 20000, 44818, 2404, 443, 8443, 80, 8080}"

lemma tcp_supported_iff: "lookup_protocol_state TcpProto port = KnownSupported \<longleftrightarrow> port \<in> tcp_ports_supported"
  by (simp add: lookup_protocol_state_def catalog_entry_def catalog_transport_of_def known_blocks SUPPORTED_PORTS_def tcp_ports_supported_def)

text \<open>Every port the dispatcher classifies by, and no other.\<close>

lemma classify_by_port:
  "lower_port key \<in> tcp_ports_supported \<or> upper_port key \<in> tcp_ports_supported \<Longrightarrow> classify data key \<noteq> ToNone"
  by (auto simp: classify_def tcp_ports_supported_def Let_def)

lemma classify_empty: "classify [] key = ToNone \<longleftrightarrow> lower_port key \<notin> tcp_ports_supported \<and> upper_port key \<notin> tcp_ports_supported"
  by (auto simp: classify_def tcp_ports_supported_def Let_def starts_with_def)

section \<open>Gaps of the dispatcher\<close>

lemma forward_close_gaps:
  assumes "t \<noteq> ToNone" "forward_close A (Some t) key reason d = Some d'"
  shows "sd_unclassified_port_counts d' = sd_unclassified_port_counts d"
  using assms by (cases t) (auto simp: forward_close_def split: bind_splits)

lemma forward_data_keeps:
  assumes "forward_data A t key dir data off ts d = Some d'"
  shows "sd_unclassified_port_counts d' = sd_unclassified_port_counts d" "sd_routes d' = sd_routes d"
  using assms by (cases t; auto simp: forward_data_def split: bind_splits)+

lemma with_slot_filled: "with_slot slot oper = Some new \<Longrightarrow> new = None \<longleftrightarrow> slot = None"
  by (cases slot; cases "oper (the slot)") (auto simp: with_slot_def)

lemma forward_slots:
  assumes "\<not> no_analyzers d"
  shows "forward_data A t key dir data off ts d = Some d' \<Longrightarrow> \<not> no_analyzers d' \<and> sd_coverage_gaps_enabled d' = sd_coverage_gaps_enabled d"
    and "forward_close A u key reason d = Some d' \<Longrightarrow> \<not> no_analyzers d' \<and> sd_coverage_gaps_enabled d' = sd_coverage_gaps_enabled d \<and> sd_routes d' = sd_routes d"
proof -
  note s = with_slot_filled
  show "forward_data A t key dir data off ts d = Some d' \<Longrightarrow> \<not> no_analyzers d' \<and> sd_coverage_gaps_enabled d' = sd_coverage_gaps_enabled d"
    using assms by (cases t) (auto simp: forward_data_def no_analyzers_def split: bind_splits dest: s)
  show "forward_close A u key reason d = Some d' \<Longrightarrow> \<not> no_analyzers d' \<and> sd_coverage_gaps_enabled d' = sd_coverage_gaps_enabled d \<and> sd_routes d' = sd_routes d"
  proof -
    have c: "\<not> no_analyzers (count_unclassified key d)" "sd_coverage_gaps_enabled (count_unclassified key d) = sd_coverage_gaps_enabled d"
        "sd_routes (count_unclassified key d) = sd_routes d"
      using assms by (auto simp: count_unclassified_def no_analyzers_def Let_def)
    assume f: "forward_close A u key reason d = Some d'"
    show ?thesis
    proof (cases u)
      case (Some t)
      show ?thesis
      proof (cases "t = ToNone")
        case True
        then show ?thesis using f c Some by (simp add: forward_close_def)
      next
        case False
        then show ?thesis using f assms Some by (cases t) (auto simp: forward_close_def no_analyzers_def split: bind_splits dest: s)
      qed
    qed (use f c in \<open>simp add: forward_close_def\<close>)
  qed
qed

abbreviation gap_port :: "flow_key \<Rightarrow> u16" where
  "gap_port key \<equiv> min (lower_port key) (upper_port key)"

abbreviation gap_count :: "u16 \<Rightarrow> ('h, 't, 'm, 'd, 'e, 'i) dispatcher \<Rightarrow> nat" where
  "gap_count port d \<equiv> (case hm_get (sd_unclassified_port_counts d) (TcpProto, port) of Some n \<Rightarrow> n | None \<Rightarrow> 0)"

text \<open>The flows on a port that close without having delivered data since they were opened. \<open>seen\<close> is the flows with data.\<close>

fun dataless :: "flow_key set \<Rightarrow> u16 \<Rightarrow> stream_event list \<Rightarrow> nat" where
  "dataless seen port [] = 0"
| "dataless seen port (DataEvent key dir data off ts # es) = dataless (insert key seen) port es"
| "dataless seen port (CloseEvent key reason # es) =
     (if key \<notin> seen \<and> gap_port key = port then 1 else 0) + dataless (seen - {key}) port es"

text \<open>The flows on the port that are routed are those with data, and none of them to nowhere.\<close>

definition routed_port :: "flow_key set \<Rightarrow> u16 \<Rightarrow> ('h, 't, 'm, 'd, 'e, 'i) dispatcher \<Rightarrow> bool" where
  "routed_port seen port d \<longleftrightarrow>
     \<not> no_analyzers d \<and> sd_coverage_gaps_enabled d \<and>
     (\<forall>key. gap_port key = port \<longrightarrow> (hm_get (sd_routes d) key = None \<longleftrightarrow> key \<notin> seen) \<and> hm_get (sd_routes d) key \<noteq> Some ToNone)"

lemma routed_data:
  assumes port: "port \<in> tcp_ports_supported" and r: "routed_port seen port d" and step: "dispatcher_on_data A d key dir data off ts = Some d'"
  shows "routed_port (insert key seen) port d' \<and> gap_count port d' = gap_count port d"
proof -
  obtain d1 t where t: "route_target data key d = (d1, t)" by fastforce
  have f: "forward_data A t key dir data off ts d1 = Some d'" using step r by (simp add: dispatcher_on_data_def routed_port_def t)
  have d1: "\<not> no_analyzers d1" "sd_coverage_gaps_enabled d1" "sd_unclassified_port_counts d1 = sd_unclassified_port_counts d"
    using t r by (auto simp: routed_port_def route_target_def no_analyzers_def Let_def split: option.splits if_splits)
  have "classify data key \<noteq> ToNone" if "gap_port key = port"
    using port that classify_by_port [of key data] by (auto simp: min_def split: if_splits)
  then have "(hm_get (sd_routes d1) k = None \<longleftrightarrow> k \<notin> insert key seen) \<and> hm_get (sd_routes d1) k \<noteq> Some ToNone" if "gap_port k = port" for k
    using t r that by (cases "hm_get (sd_routes d) key") (auto simp: routed_port_def route_target_def Let_def split: if_splits)
  then show ?thesis
    using forward_data_keeps [OF f] forward_slots(1) [OF d1(1) f] d1(2,3) by (simp add: routed_port_def)
qed

lemma routed_close:
  assumes r: "routed_port seen port d" and step: "dispatcher_on_flow_close A d key reason = Some d'"
  shows "routed_port (seen - {key}) port d' \<and>
    gap_count port d' = (if key \<notin> seen \<and> gap_port key = port then sat_add64 (gap_count port d) 1 else gap_count port d)"
proof -
  let ?d = "d\<lparr>sd_classification_attempts := hm_remove key (sd_classification_attempts d), sd_routes := hm_remove key (sd_routes d)\<rparr>"
  have n: "\<not> no_analyzers ?d" "sd_coverage_gaps_enabled ?d" using r by (simp_all add: routed_port_def no_analyzers_def)
  have f: "forward_close A (hm_get (sd_routes d) key) key reason ?d = Some d'" using step by (simp add: dispatcher_on_flow_close_def)
  have routed: "routed_port (seen - {key}) port d'"
    using forward_slots(2) [OF n(1) f] r by (auto simp: routed_port_def)
  show ?thesis
  proof (cases "hm_get (sd_routes d) key = None \<or> hm_get (sd_routes d) key = Some ToNone")
    case True
    then have d': "d' = count_unclassified key ?d" using f by (auto simp: forward_close_def)
    have "gap_port key = port \<Longrightarrow> key \<notin> seen" using True r by (auto simp: routed_port_def)
    then have "gap_count port d' = (if key \<notin> seen \<and> gap_port key = port then sat_add64 (gap_count port d) 1 else gap_count port d)"
      using n by (auto simp: d' count_unclassified_def Let_def)
    with routed show ?thesis by simp
  next
    case False
    then obtain t where t: "hm_get (sd_routes d) key = Some t" "t \<noteq> ToNone" by auto
    then have "gap_port key = port \<Longrightarrow> key \<in> seen" using r by (auto simp: routed_port_def)
    then show ?thesis using routed forward_close_gaps [OF t(2)] f t(1) by fastforce
  qed
qed

lemma dataless_counted:
  assumes "port \<in> tcp_ports_supported" and "routed_port seen port d" and "replay (dispatcher_handler A) es d = Some d'" and "gap_count port d \<le> u64_max"
  shows "gap_count port d' = min u64_max (gap_count port d + dataless seen port es)"
  using assms(2-)
proof (induction es arbitrary: seen d)
  case (Cons e es)
  show ?case
  proof (cases e)
    case (DataEvent key dir data off ts)
    then obtain d1 where d1: "dispatcher_on_data A d key dir data off ts = Some d1" "replay (dispatcher_handler A) es d1 = Some d'"
      using Cons.prems(2) by (auto simp: dispatcher_handler_def split: bind_splits)
    note r = routed_data [OF assms(1) Cons.prems(1) d1(1)]
    show ?thesis using Cons.IH [OF conjunct1 [OF r] d1(2)] r Cons.prems(3) DataEvent by simp
  next
    case (CloseEvent key reason)
    then obtain d1 where d1: "dispatcher_on_flow_close A d key reason = Some d1" "replay (dispatcher_handler A) es d1 = Some d'"
      using Cons.prems(2) by (auto simp: dispatcher_handler_def split: bind_splits)
    note r = routed_close [OF Cons.prems(1) d1(1)]
    have "gap_count port d1 \<le> u64_max" using r Cons.prems(3) by (auto simp: sat_add64_def)
    then show ?thesis using Cons.IH [OF conjunct1 [OF r] d1(2)] r CloseEvent by (auto simp: sat_add64_def min_def)
  qed
qed simp

text \<open>C40. An entry of the gap report that is marked \<open>known-supported\<close>, documented as the signal that a dissector missed traffic
  of its own port, never comes from a flow with data, and always from one without. Over any sequence of stream events, with flows
  interleaved in any way and any analyzers that do not panic, the count of such a port is exactly the number of closes of flows on it
  that delivered no data since they were opened, such as refused connections and scans (saturating): a flow that delivered
  a chunk, however many more follow and whatever happens to other flows meanwhile, is not counted.\<close>

theorem known_supported_gap_has_no_data:
  assumes "\<not> no_analyzers d" and "sd_coverage_gaps_enabled d" and "sd_routes d = []" and "sd_unclassified_port_counts d = []"
    and "lookup_protocol_state TcpProto port = KnownSupported" and "replay (dispatcher_handler A) es d = Some d'"
  shows "gap_count port d' = min u64_max (dataless {} port es)"
proof -
  have "routed_port {} port d" using assms(1-3) by (simp add: routed_port_def)
  from dataless_counted [OF _ this assms(6)] show ?thesis using assms(4,5) by (simp add: tcp_supported_iff)
qed

definition scan_key :: flow_key where
  "scan_key = \<lparr>lower_ip = V4 1, lower_port = 40000, upper_ip = V4 2, upper_port = 502\<rparr>"

definition other_key :: flow_key where
  "other_key = \<lparr>lower_ip = V4 1, lower_port = 40001, upper_ip = V4 2, upper_port = 502\<rparr>"

definition gaps_dispatcher :: "(unit, unit, unit, unit, unit, unit) dispatcher" where
  "gaps_dispatcher = with_coverage_gaps True (dispatcher_new None None (Some ()) None None None)"

definition unit_ops :: "(unit, unit, unit, unit, unit, unit) analyzers" where
  "unit_ops =
     (let H = \<lparr>on_data = (\<lambda>h key dir data off ts. Some h), on_flow_close = (\<lambda>h key reason. Some h)\<rparr>
      in \<lparr>http_ops = H, tls_ops = H, modbus_ops = H, dnp3_ops = H, enip_ops = H, iec104_ops = H\<rparr>)"

text \<open>Two flows to port 502 at the same time: the one with data is not counted, the one without is.\<close>

definition scan_events :: "stream_event list" where
  "scan_events =
     [DataEvent scan_key ClientToServer [0] 1 0, CloseEvent other_key RstClose, DataEvent scan_key ClientToServer [1] 2 0, CloseEvent scan_key FinClose]"

lemma scan_runs: "\<exists>d'. replay (dispatcher_handler unit_ops) scan_events gaps_dispatcher = Some d'"
proof -
  have w: "with_slot s Some = Some s" for s :: "unit option" by (cases s) (simp_all add: with_slot_def)
  have "\<exists>d'. dispatcher_on_data unit_ops d key dir bs off ts = Some d'" "\<exists>d'. dispatcher_on_flow_close unit_ops d key reason = Some d'"
    for d key dir bs off ts reason
    by (auto simp: dispatcher_on_data_def forward_data_def dispatcher_on_flow_close_def forward_close_def unit_ops_def w Let_def
        split: prod.splits dispatch_target.splits option.splits)
  then have "\<exists>d'. handle_event (dispatcher_handler unit_ops) e d = Some d'" for e d by (cases e) (simp_all add: dispatcher_handler_def)
  then have "\<exists>d'. replay (dispatcher_handler unit_ops) es d = Some d'" for es d
  proof (induction es arbitrary: d)
    case (Cons e es)
    obtain d1 where "handle_event (dispatcher_handler unit_ops) e d = Some d1" using Cons.prems by blast
    then show ?case using Cons.IH [OF Cons.prems] by simp
  qed simp
  then show ?thesis .
qed

theorem known_supported_gap_has_no_data_witness:
  "\<exists>d'. replay (dispatcher_handler unit_ops) scan_events gaps_dispatcher = Some d' \<and> gap_count 502 d' = 1"
proof -
  obtain d' where d': "replay (dispatcher_handler unit_ops) scan_events gaps_dispatcher = Some d'" using scan_runs by blast
  have k: "gap_port scan_key = 502" "gap_port other_key = 502" "scan_key \<noteq> other_key" by (simp_all add: scan_key_def other_key_def)
  have "gap_count 502 d' = min u64_max (dataless {} 502 scan_events)"
    by (rule known_supported_gap_has_no_data [OF _ _ _ _ _ d'])
      (simp_all add: tcp_supported_iff tcp_ports_supported_def gaps_dispatcher_def with_coverage_gaps_def dispatcher_new_def no_analyzers_def)
  moreover have "dataless {} 502 scan_events = 1" using k by (auto simp: scan_events_def)
  ultimately have "gap_count 502 d' = 1" by (simp add: u64_max_def)
  then show ?thesis using d' by blast
qed

section \<open>The report\<close>

text \<open>A map of counts for one transport, as both sources of the report keep them.\<close>

definition gaps_of :: "transport_proto \<Rightarrow> gap_counts \<Rightarrow> bool" where
  "gaps_of t m \<longleftrightarrow> hm_ok m \<and> (\<forall>(k, n) \<in> set m. fst k = t \<and> n \<le> u64_max)"

lemma gaps_of_insert: "gaps_of t m \<Longrightarrow> fst k = t \<Longrightarrow> n \<le> u64_max \<Longrightarrow> gaps_of t (hm_insert k n m)"
  using hmap.set_put [of m k n] by (auto simp: gaps_of_def hm_ok_insert)

lemma dispatcher_gaps_of:
  assumes "gaps_of TcpProto (sd_unclassified_port_counts d)"
  shows "dispatcher_on_data A d key dir bs off ts = Some d' \<Longrightarrow> gaps_of TcpProto (sd_unclassified_port_counts d')"
    and "dispatcher_on_flow_close A d key reason = Some d' \<Longrightarrow> gaps_of TcpProto (sd_unclassified_port_counts d')"
proof -
  obtain d1 t where r: "route_target bs key d = (d1, t)" by fastforce
  assume "dispatcher_on_data A d key dir bs off ts = Some d'"
  then consider "d' = d" | "forward_data A t key dir bs off ts d1 = Some d'"
    by (cases "no_analyzers d") (simp_all add: dispatcher_on_data_def r)
  then show "gaps_of TcpProto (sd_unclassified_port_counts d')"
  proof cases
    case 2
    have "sd_unclassified_port_counts d1 = sd_unclassified_port_counts d"
      using r by (auto simp: route_target_def Let_def split: option.splits if_splits)
    then show ?thesis using forward_data_keeps(1) [OF 2] assms by simp
  qed (use assms in simp)
next
  let ?d = "d\<lparr>sd_classification_attempts := hm_remove key (sd_classification_attempts d), sd_routes := hm_remove key (sd_routes d)\<rparr>"
  assume c: "dispatcher_on_flow_close A d key reason = Some d'"
  have n: "gaps_of TcpProto (sd_unclassified_port_counts (count_unclassified key ?d))"
    using assms by (simp add: count_unclassified_def Let_def gaps_of_insert)
  show "gaps_of TcpProto (sd_unclassified_port_counts d')"
  proof (cases "hm_get (sd_routes d) key = None \<or> hm_get (sd_routes d) key = Some ToNone")
    case True
    then show ?thesis using c n by (auto simp: dispatcher_on_flow_close_def forward_close_def)
  next
    case False
    then obtain t where t: "hm_get (sd_routes d) key = Some t" "t \<noteq> ToNone" by auto
    then show ?thesis using c forward_close_gaps [OF t(2), of A key reason ?d d'] assms by (simp add: dispatcher_on_flow_close_def)
  qed
qed

lemma add_gaps_fresh:
  assumes "distinct (map fst es)" "\<forall>(k, n) \<in> set es. n \<le> u64_max \<and> hm_get m k = None" "hm_ok m"
  shows "\<exists>m'. add_gaps es m = Some m' \<and> hm_ok m' \<and> (\<forall>k. hm_get m' k = (case map_of es k of Some n \<Rightarrow> Some n | None \<Rightarrow> hm_get m k))"
  using assms
proof (induction es arbitrary: m)
  case (Cons e es)
  obtain k n where e: "e = (k, n)" by fastforce
  have "k \<notin> fst ` set es" using Cons.prems(1) e by simp
  then have "\<forall>(k', n') \<in> set es. n' \<le> u64_max \<and> hm_get (hm_insert k n m) k' = None" using Cons.prems(2) e by force
  from Cons.IH [OF _ this hm_ok_insert [OF Cons.prems(3)]] Cons.prems(1)
  obtain m' where m': "add_gaps es (hm_insert k n m) = Some m'" "hm_ok m'"
    "\<And>k'. hm_get m' k' = (case map_of es k' of Some n \<Rightarrow> Some n | None \<Rightarrow> hm_get (hm_insert k n m) k')" by auto
  have "map_of es k = None" using \<open>k \<notin> fst ` set es\<close> by (simp add: map_of_eq_None_iff)
  then have "hm_get m' k' = (case map_of (e # es) k' of Some n \<Rightarrow> Some n | None \<Rightarrow> hm_get m k')" for k'
    using m'(3) by (cases "map_of es k'") (auto simp: e)
  moreover have "add_gaps (e # es) m = Some m'" using m'(1) Cons.prems(2) e by auto
  ultimately show ?case using m'(2) by blast
qed (auto split: option.splits)

lemma map_of_hm_iter: "hm_ok m \<Longrightarrow> map_of (hm_iter seed m) k = hm_get m k"
  using distinct_hm_iter [of m seed] by (intro option_eqI) (simp add: hm_get_def hm_ok_def)

lemma collect_exact:
  assumes "gaps_of TcpProto tcp" "gaps_of UdpProto udp"
  shows "\<exists>all. collect_all_gaps s1 s2 tcp udp = Some all \<and> hm_ok all \<and>
    (\<forall>k. hm_get all k = hm_get (case fst k of TcpProto \<Rightarrow> tcp | UdpProto \<Rightarrow> udp) k)"
proof -
  have t: "hm_ok tcp" "hm_ok udp" using assms by (simp_all add: gaps_of_def)
  have "\<forall>(k, n) \<in> set (hm_iter s1 tcp). n \<le> u64_max \<and> hm_get [] k = None" using assms(1) by (auto simp: gaps_of_def)
  from add_gaps_fresh [OF distinct_hm_iter [OF t(1)] this hm_ok_Nil]
  obtain a1 where a1: "add_gaps (hm_iter s1 tcp) [] = Some a1" "hm_ok a1"
    "\<And>k. hm_get a1 k = (case hm_get tcp k of Some n \<Rightarrow> Some n | None \<Rightarrow> hm_get [] k)" by (auto simp: map_of_hm_iter t)
  have a1': "hm_get a1 k = hm_get tcp k" for k using a1(3) [of k] by (cases "hm_get tcp k") simp_all
  have k: "hm_get tcp k = None" if "fst k = UdpProto" for k
    using that assms(1) map_of_SomeD [of tcp k] by (cases "hm_get tcp k") (auto simp: gaps_of_def hm_get_def)
  have k': "hm_get udp k = None" if "fst k = TcpProto" for k
    using that assms(2) map_of_SomeD [of udp k] by (cases "hm_get udp k") (auto simp: gaps_of_def hm_get_def)
  have "\<forall>(k, n) \<in> set (hm_iter s2 udp). n \<le> u64_max \<and> hm_get a1 k = None" using assms(2) k a1' by (fastforce simp: gaps_of_def)
  from add_gaps_fresh [OF distinct_hm_iter [OF t(2)] this a1(2)]
  obtain a where a: "add_gaps (hm_iter s2 udp) a1 = Some a" "hm_ok a"
    "\<And>k. hm_get a k = (case hm_get udp k of Some n \<Rightarrow> Some n | None \<Rightarrow> hm_get a1 k)" by (auto simp: map_of_hm_iter t)
  have "hm_get a q = hm_get (case fst q of TcpProto \<Rightarrow> tcp | UdpProto \<Rightarrow> udp) q" for q
    using a(3) [of q] a1' [of q] k [of q] k' [of q] by (cases "fst q") (auto split: option.splits)
  then show ?thesis using a a1(1) by (simp add: collect_all_gaps_def)
qed

lemma hm_same_mset: "hm_ok m \<Longrightarrow> hm_ok n \<Longrightarrow> (\<And>k. hm_get m k = hm_get n k) \<Longrightarrow> mset m = mset n"
proof -
  assume ok: "hm_ok m" "hm_ok n" and eq: "\<And>k. hm_get m k = hm_get n k"
  have "(k, v) \<in> set m \<longleftrightarrow> (k, v) \<in> set n" for k v using hmap.get_iff [OF ok(1)] hmap.get_iff [OF ok(2)] eq by metis
  then have "set m = set n" by auto
  moreover have "distinct m" "distinct n" using ok by (auto simp: hm_ok_def distinct_map)
  ultimately show "mset m = mset n" by (simp add: set_eq_iff_mset_eq_distinct)
qed

lemma gap_key_inj: "hm_ok m \<Longrightarrow> inj_on gap_sort_key (set m)"
proof (rule inj_onI)
  fix x y assume ok: "hm_ok m" and xy: "x \<in> set m" "y \<in> set m" "gap_sort_key x = gap_sort_key y"
  obtain t p n where x: "x = ((t, p), n)" by (metis surj_pair)
  obtain t' p' n' where y: "y = ((t', p'), n')" by (metis surj_pair)
  note e = x y
  have "unat p * 2 + (case t of TcpProto \<Rightarrow> 0 | UdpProto \<Rightarrow> 1) = unat p' * 2 + (case t' of TcpProto \<Rightarrow> 0 | UdpProto \<Rightarrow> 1)"
    using xy(3) by (simp add: gap_sort_key_def e)
  then have u: "unat p = unat p'" and "t = t'" by (cases t; cases t'; simp; presburger)+
  moreover have "p = p'" using u by (rule unsigned_word_eqI)
  ultimately have "fst x = fst y" by (simp add: e)
  then show "x = y" using ok xy(1,2) by (auto simp: hm_ok_def distinct_map dest: inj_onD)
qed

text \<open>C39. Merging the two counts never overflows, although it adds without a check, since a TCP and a UDP port never share an entry, and
  gives every port its own count; and the rendered report is the same in whatever order the hash maps
  involved are iterated.\<close>

theorem gap_report_deterministic:
  assumes "gaps_of TcpProto tcp" and "gaps_of UdpProto udp"
  shows "\<exists>all. collect_all_gaps s1 s2 tcp udp = Some all \<and>
     (\<forall>k. hm_get all k = hm_get (case fst k of TcpProto \<Rightarrow> tcp | UdpProto \<Rightarrow> udp) k) \<and>
     (\<forall>s1' s2' s s'. \<exists>all'. collect_all_gaps s1' s2' tcp udp = Some all' \<and>
        render_coverage_gaps_terminal s' all' = render_coverage_gaps_terminal s all)"
proof -
  obtain all where all: "collect_all_gaps s1 s2 tcp udp = Some all" "hm_ok all"
    "\<And>k. hm_get all k = hm_get (case fst k of TcpProto \<Rightarrow> tcp | UdpProto \<Rightarrow> udp) k" using collect_exact [OF assms] by blast
  have "\<exists>all'. collect_all_gaps s1' s2' tcp udp = Some all' \<and> render_coverage_gaps_terminal s' all' = render_coverage_gaps_terminal s all" for s1' s2' s s'
  proof -
    obtain all' where all': "collect_all_gaps s1' s2' tcp udp = Some all'" "hm_ok all'"
      "\<And>k. hm_get all' k = hm_get (case fst k of TcpProto \<Rightarrow> tcp | UdpProto \<Rightarrow> udp) k" using collect_exact [OF assms] by blast
    have m: "mset (hm_iter s all) = mset (hm_iter s' all')" using hm_same_mset [OF all(2) all'(2)] all(3) all'(3) by simp
    have "sort_key gap_sort_key (hm_iter s all) = sort_key gap_sort_key (hm_iter s' all')"
      by (rule sort_key_inj_key_eq) (use m gap_key_inj [OF all(2)] in simp_all)
    then show ?thesis using all'(1) by (simp add: render_coverage_gaps_terminal_def)
  qed
  then show ?thesis using all by blast
qed

theorem gap_report_deterministic_witness:
  "\<exists>all. collect_all_gaps (\<lambda>_ _. 0) (\<lambda>_ _. 0) [((TcpProto, 102), 3)] [((UdpProto, 102), 4)] = Some all \<and> hm_get all (TcpProto, 102) = Some 3"
  using gap_report_deterministic [of "[((TcpProto, 102), 3)]" "[((UdpProto, 102), 4)]" "\<lambda>_ _. 0" "\<lambda>_ _. 0"]
  by (fastforce simp: gaps_of_def hm_ok_def u64_max_def hm_get_def)

end
