(* ===== verification/Analyze.thy ===== *)
theory Analyze
  imports Reader Totals Arp Catalog Reassembly Modbus Dnp3 Enip Iec104 "HOL-Library.List_Lexorder"
begin

text \<open>
  The commands \<open>analyze\<close> and \<open>summary\<close>, \<open>src/main.rs\<close>: the checks of the thresholds, the configuration of the engine from the
  options, the loop over targets, files and packets, the end of the capture and the collection of findings, summaries and gaps.
  The parsers of capture files and the slicers are the parameters of \<open>Reader\<close> and \<open>Decoder\<close>; the HTTP and TLS analyzers, which
  are not modelled, are the parameter \<open>web\<close>. A target is what the operating system shows of a path: a file, a directory or neither.
  Progress bars, warnings and the rendering of the report are left out.
\<close>

record ('h, 't) web_analyzers =
  web_http :: "'h stream_handler"
  http_analyzer_new :: 'h
  http_findings :: "'h \<Rightarrow> finding list"
  http_summarize :: "'h \<Rightarrow> analysis_summary rust"
  web_tls :: "'t stream_handler"
  tls_analyzer_new :: 't
  tls_findings :: "'t \<Rightarrow> finding list"
  tls_summarize :: "'t \<Rightarrow> analysis_summary rust"

section \<open>Options\<close>

text \<open>The arguments of \<open>run_analyze\<close> and the fields of \<open>Cli\<close> it reads.\<close>

record analyze_options =
  enable_dns :: bool
  enable_http :: bool
  enable_tls :: bool
  enable_modbus :: bool
  modbus_write_burst_threshold :: u32
  modbus_write_sustained_threshold :: u32
  enable_dnp3 :: bool
  dnp3_direct_operate_threshold :: u32
  enable_arp :: bool
  arp_spoof_threshold :: u32
  arp_storm_rate :: u32
  enable_enip :: bool
  enip_write_burst_threshold :: u32
  enip_error_burst_threshold :: u32
  enable_iec104 :: bool
  coverage_gaps :: bool
  no_reassemble :: bool
  reassemble :: bool
  reassembly_depth :: usize
  reassembly_memcap :: usize
  overlap_threshold :: "u32 option"
  small_segment_threshold :: "u32 option"
  small_segment_max_bytes :: "u16 option"
  small_segment_ignore_ports :: "u16 list option"
  out_of_window_threshold :: "u32 option"
  flow_timeout :: u64

text \<open>The iteration orders of the hash maps.\<close>

record hash_seeds =
  flow_seed :: "flow_key hash_seed"
  binding_seed :: "bytes hash_seed"
  storm_seed :: "bytes hash_seed"
  dnp3_seed :: "(u16 \<times> u8) hash_seed"
  enip_seed :: "u8 hash_seed"
  tcp_gap_seed :: "(transport_proto \<times> u16) hash_seed"
  udp_gap_seed :: "(transport_proto \<times> u16) hash_seed"

datatype analyze_error = ZeroWriteBurst | ZeroWriteSustained | ZeroStormRate | ZeroSpoofThreshold | TargetNotFound | ReadDirFailed

definition or_default :: "'a option \<Rightarrow> 'a \<Rightarrow> 'a" where
  "or_default v d = (case v of Some x \<Rightarrow> x | None \<Rightarrow> d)"

definition analyze_config :: "analyze_options \<Rightarrow> reassembly_config rust" where
  "analyze_config opt = do {
     depth \<leftarrow> mul64 (reassembly_depth opt) 1048576;
     memcap \<leftarrow> mul64 (reassembly_memcap opt) 1048576;
     let c = reassembly_config_default;
     Some (c\<lparr>cfg_max_depth := depth, cfg_memcap := memcap,
             cfg_overlap_alert_threshold := or_default (overlap_threshold opt) (cfg_overlap_alert_threshold c),
             cfg_small_segment_alert_threshold := or_default (small_segment_threshold opt) (cfg_small_segment_alert_threshold c),
             cfg_small_segment_max_bytes := or_default (small_segment_max_bytes opt) (cfg_small_segment_max_bytes c),
             cfg_small_segment_ignore_ports := or_default (small_segment_ignore_ports opt) (cfg_small_segment_ignore_ports c),
             cfg_out_of_window_alert_threshold := or_default (out_of_window_threshold opt) (cfg_out_of_window_alert_threshold c),
             cfg_flow_timeout_secs := word_of_nat (min (flow_timeout opt) u32_max)\<rparr>)
   }"

definition needs_reassembly :: "analyze_options \<Rightarrow> bool" where
  "needs_reassembly opt \<longleftrightarrow>
     reassemble opt \<or> enable_http opt \<or> enable_tls opt \<or> enable_modbus opt \<or> enable_dnp3 opt \<or> enable_enip opt \<or> enable_iec104 opt"

definition analyze_reassembler :: "hash_seeds \<Rightarrow> analyze_options \<Rightarrow> reassembler option rust" where
  "analyze_reassembler seeds opt =
     (if needs_reassembly opt \<and> \<not> no_reassemble opt
      then do { c \<leftarrow> analyze_config opt; r \<leftarrow> reassembler_new (flow_seed seeds) c; Some (Some r) }
      else Some None)"

type_synonym ('h, 't) main_dispatcher = "('h, 't, modbus_analyzer, dnp3_analyzer, enip_analyzer, iec104_analyzer) dispatcher"

definition slot_if :: "bool \<Rightarrow> 'a \<Rightarrow> 'a option" where
  "slot_if b a = (if b then Some a else None)"

definition analyze_dispatcher :: "('h, 't) web_analyzers \<Rightarrow> hash_seeds \<Rightarrow> analyze_options \<Rightarrow> ('h, 't) main_dispatcher" where
  "analyze_dispatcher web seeds opt =
     with_coverage_gaps (coverage_gaps opt) (dispatcher_new
       (slot_if (enable_http opt \<and> \<not> no_reassemble opt) (http_analyzer_new web))
       (slot_if (enable_tls opt \<and> \<not> no_reassemble opt) (tls_analyzer_new web))
       (slot_if (enable_modbus opt \<and> \<not> no_reassemble opt)
          (modbus_analyzer_new (modbus_write_burst_threshold opt) (modbus_write_sustained_threshold opt)))
       (slot_if (enable_dnp3 opt \<and> \<not> no_reassemble opt) (dnp3_analyzer_new (dnp3_seed seeds) (dnp3_direct_operate_threshold opt)))
       (slot_if (enable_enip opt \<and> \<not> no_reassemble opt)
          (enip_analyzer_new (enip_seed seeds) (enip_write_burst_threshold opt) (enip_error_burst_threshold opt)))
       (slot_if (enable_iec104 opt \<and> \<not> no_reassemble opt) iec104_analyzer_new))"

definition main_ops ::
  "('h, 't) web_analyzers \<Rightarrow> ('h, 't, modbus_analyzer, dnp3_analyzer, enip_analyzer, iec104_analyzer) analyzers"
where
  "main_ops web =
     \<lparr>http_ops = web_http web, tls_ops = web_tls web, modbus_ops = modbus_handler, dnp3_ops = dnp3_handler,
      enip_ops = enip_handler, iec104_ops = iec104_handler\<rparr>"

section \<open>Targets\<close>

record dir_entry =
  de_name :: bytes
  de_is_file :: bool
  de_file :: file_source

text \<open>A directory has the entries \<open>read_dir\<close> yields, or an error in place of the listing or of an entry.\<close>

datatype target = RegularFile file_source | Directory "dir_entry option list option" | MissingTarget

text \<open>\<open>read_exact\<close>: as many \<open>read\<close> calls as the bytes need.\<close>

fun read_exact :: "nat \<Rightarrow> chunk list \<Rightarrow> bytes option" where
  "read_exact 0 cs = Some []"
| "read_exact (Suc n) [] = None"
| "read_exact (Suc n) (Chunk bs # cs) =
     (if bs = [] then None else map_option (\<lambda>rest. take (Suc n) bs @ rest) (read_exact (Suc n - length bs) cs))"
| "read_exact (Suc n) (ReadError # cs) = None"

definition read_magic :: "file_source \<Rightarrow> bytes option" where
  "read_magic f = (case file_stream f of None \<Rightarrow> None | Some stream \<Rightarrow> read_exact 4 stream)"

definition CAPTURE_MAGICS :: "bytes list" where
  "CAPTURE_MAGICS =
     [[0xA1, 0xB2, 0xC3, 0xD4], [0xD4, 0xC3, 0xB2, 0xA1], [0xA1, 0xB2, 0x3C, 0x4D], [0x4D, 0x3C, 0xB2, 0xA1], [0x0A, 0x0D, 0x0D, 0x0A]]"

definition is_capture :: "dir_entry \<Rightarrow> bool" where
  "is_capture e \<longleftrightarrow> de_is_file e \<and> (case read_magic (de_file e) of Some magic \<Rightarrow> magic \<in> set CAPTURE_MAGICS | None \<Rightarrow> False)"

definition resolve_targets :: "target \<Rightarrow> analyze_error + file_source list" where
  "resolve_targets t =
     (case t of
        RegularFile f \<Rightarrow> Inr [f]
      | Directory None \<Rightarrow> Inl ReadDirFailed
      | Directory (Some es) \<Rightarrow>
          (if None \<in> set es then Inl ReadDirFailed
           else Inr (map de_file (sort_key de_name (filter is_capture (map the es)))))
      | MissingTarget \<Rightarrow> Inl TargetNotFound)"

section \<open>The loop\<close>

record ('h, 't) analyze_state =
  an_summary :: capture_summary
  an_dns :: dns_analyzer
  an_arp :: arp_analyzer
  an_findings :: "finding list"
  an_decode_errors :: u64
  an_udp_gaps :: gap_counts
  an_reassembler :: "reassembler option"
  an_dispatcher :: "('h, 't) main_dispatcher"

definition count_udp_gap :: "parsed_packet \<Rightarrow> bool \<Rightarrow> gap_counts \<Rightarrow> gap_counts" where
  "count_udp_gap p by_dns gaps =
     (case udp_gap_key p by_dns of
        Some k \<Rightarrow> hm_insert k (sat_add64 (or_default (hm_get gaps k) 0) 1) gaps
      | None \<Rightarrow> gaps)"

definition reassemble_packet ::
  "'d stream_handler \<Rightarrow> parsed_packet \<Rightarrow> u32 \<Rightarrow> reassembler option \<times> 'd \<Rightarrow> (reassembler option \<times> 'd) rust"
where
  "reassemble_packet H p ts rd =
     (case fst rd of
        None \<Rightarrow> Some rd
      | Some r \<Rightarrow> do { (r', d') \<leftarrow> process_packet H p ts (r, snd rd); Some (Some r', d') })"

definition analyze_ip ::
  "('h, 't) web_analyzers \<Rightarrow> analyze_options \<Rightarrow> parsed_packet \<Rightarrow> u32 \<Rightarrow> ('h, 't) analyze_state \<Rightarrow> ('h, 't) analyze_state rust"
where
  "analyze_ip web opt p ts st = do {
     s \<leftarrow> ingest (an_summary st) p;
     let by_dns = dns_can_decode p;
     let (dns, fs) = (if enable_dns opt \<and> by_dns then dns_analyze (an_dns st) p else (an_dns st, []));
     (r, d) \<leftarrow> reassemble_packet (dispatcher_handler (main_ops web)) p ts (an_reassembler st, an_dispatcher st);
     Some (st\<lparr>an_summary := s, an_dns := dns, an_findings := an_findings st @ fs, an_reassembler := r, an_dispatcher := d,
              an_udp_gaps := (if coverage_gaps opt then count_udp_gap p by_dns (an_udp_gaps st) else an_udp_gaps st)\<rparr>)
   }"

definition analyze_arp :: "analyze_options \<Rightarrow> arp_frame \<Rightarrow> u32 \<Rightarrow> ('h, 't) analyze_state \<Rightarrow> ('h, 't) analyze_state rust" where
  "analyze_arp opt f ts st =
     (if enable_arp opt
      then do { (a, fs) \<leftarrow> process_arp (an_arp st) f ts; Some (st\<lparr>an_arp := a, an_findings := an_findings st @ fs\<rparr>) }
      else Some st)"

text \<open>The two error arms. The first is selected by the text of the error, which is that of \<open>NonEthernetIpv4Arp\<close>.\<close>

definition analyze_undecoded :: "analyze_options \<Rightarrow> decode_error \<Rightarrow> usize \<Rightarrow> ('h, 't) analyze_state \<Rightarrow> ('h, 't) analyze_state" where
  "analyze_undecoded opt e len st =
     (if e = NonEthernetIpv4Arp then
        (if enable_arp opt
         then (let (a, fs) = record_malformed (an_arp st) len in st\<lparr>an_arp := a, an_findings := an_findings st @ fs\<rparr>)
         else st\<lparr>an_arp := (an_arp st)\<lparr>aa_malformed_frames := sat_add64 (aa_malformed_frames (an_arp st)) 1\<rparr>\<rparr>)
      else st\<lparr>an_decode_errors := sat_add64 (an_decode_errors st) 1\<rparr>)"

definition analyze_packet ::
  "slicers \<Rightarrow> ('h, 't) web_analyzers \<Rightarrow> analyze_options \<Rightarrow> data_link \<Rightarrow> raw_packet \<Rightarrow> ('h, 't) analyze_state \<Rightarrow> ('h, 't) analyze_state rust"
where
  "analyze_packet S web opt link raw st = do {
     decoded \<leftarrow> decode_packet S (pkt_data raw) link;
     (case decoded of
        Inr (IpFrame p) \<Rightarrow> analyze_ip web opt p (timestamp_secs raw) st
      | Inr (ArpFrame f) \<Rightarrow> analyze_arp opt f (timestamp_secs raw) st
      | Inl e \<Rightarrow> Some (analyze_undecoded opt e (length (pkt_data raw)) st))
   }"

fun analyze_packets ::
  "slicers \<Rightarrow> ('h, 't) web_analyzers \<Rightarrow> analyze_options \<Rightarrow> data_link \<Rightarrow> raw_packet list \<Rightarrow> ('h, 't) analyze_state \<Rightarrow> ('h, 't) analyze_state rust"
where
  "analyze_packets S web opt link [] st = Some st"
| "analyze_packets S web opt link (raw # rest) st = do { st' \<leftarrow> analyze_packet S web opt link raw st; analyze_packets S web opt link rest st' }"

text \<open>The loop over the files of a target; the flag is \<open>any_error\<close>. A capture without packets only prints a notice.\<close>

fun analyze_files ::
  "('p, 'c) pcap_crate \<Rightarrow> slicers \<Rightarrow> ('h, 't) web_analyzers \<Rightarrow> analyze_options \<Rightarrow> file_source list \<Rightarrow>
   ('h, 't) analyze_state \<times> bool \<Rightarrow> (('h, 't) analyze_state \<times> bool) rust"
where
  "analyze_files P S web opt [] acc = Some acc"
| "analyze_files P S web opt (f # fs) (st, any_error) = do {
     r \<leftarrow> from_file P f;
     (case r of
        Inl e \<Rightarrow> analyze_files P S web opt fs (st, True)
      | Inr source \<Rightarrow>
          if packets source = [] then analyze_files P S web opt fs (st, any_error)
          else do {
            st' \<leftarrow> analyze_packets S web opt (datalink source) (packets source) st;
            analyze_files P S web opt fs (st', any_error)
          })
   }"

fun analyze_targets ::
  "('p, 'c) pcap_crate \<Rightarrow> slicers \<Rightarrow> ('h, 't) web_analyzers \<Rightarrow> analyze_options \<Rightarrow> target list \<Rightarrow>
   ('h, 't) analyze_state \<times> bool \<Rightarrow> (analyze_error + (('h, 't) analyze_state \<times> bool)) rust"
where
  "analyze_targets P S web opt [] acc = Some (Inr acc)"
| "analyze_targets P S web opt (t # ts) acc =
     (case resolve_targets t of
        Inl e \<Rightarrow> Some (Inl e)
      | Inr fs \<Rightarrow> do { acc' \<leftarrow> analyze_files P S web opt fs acc; analyze_targets P S web opt ts acc' })"

section \<open>The report\<close>

record analyze_report =
  rep_summary :: capture_summary
  rep_findings :: "finding list"
  rep_analyzers :: "analysis_summary list"
  rep_gaps :: "gap_counts option"
  rep_any_error :: bool

definition optional :: "'a option \<Rightarrow> ('a \<Rightarrow> 'b rust) \<Rightarrow> 'b list rust" where
  "optional v f = (case v of None \<Rightarrow> Some [] | Some x \<Rightarrow> do { y \<leftarrow> f x; Some [y] })"

definition slot_findings :: "'a option \<Rightarrow> ('a \<Rightarrow> finding list) \<Rightarrow> finding list" where
  "slot_findings v f = (case v of None \<Rightarrow> [] | Some x \<Rightarrow> f x)"

definition finish_reassembly ::
  "'d stream_handler \<Rightarrow> reassembler option \<times> 'd \<Rightarrow> (reassembler option \<times> 'd) rust"
where
  "finish_reassembly H rd =
     (case fst rd of
        None \<Rightarrow> Some rd
      | Some r \<Rightarrow> do { (r', d') \<leftarrow> finalize H (r, snd rd); Some (Some r', d') })"

definition reassembly_summary :: "u64 \<Rightarrow> reassembler \<Rightarrow> analysis_summary rust" where
  "reassembly_summary unclassified r = do {
     s \<leftarrow> reassembler_summarize r;
     Some (s\<lparr>detail := (detail s)(''unclassified_flows'' \<mapsto> Num unclassified)\<rparr>)
   }"

definition analyzer_summaries ::
  "('h, 't) web_analyzers \<Rightarrow> analyze_options \<Rightarrow> ('h, 't) analyze_state \<Rightarrow> analysis_summary list rust"
where
  "analyzer_summaries web opt st = do {
     let d = an_dispatcher st;
     reasm \<leftarrow> optional (an_reassembler st) (reassembly_summary (sd_unclassified_flows d));
     dns \<leftarrow> optional (slot_if (enable_dns opt) (an_dns st)) dns_summarize;
     http \<leftarrow> optional (sd_http d) (http_summarize web);
     tls \<leftarrow> optional (sd_tls d) (tls_summarize web);
     let (d1, modbus) = take_modbus_analyzer d;
     mb \<leftarrow> optional modbus (\<lambda>a. Some (modbus_summarize a));
     let (d2, dnp3) = take_dnp3_analyzer d1;
     dn \<leftarrow> optional dnp3 dnp3_summarize;
     let (d3, enip) = take_enip_analyzer d2;
     en \<leftarrow> optional enip (\<lambda>a. Some (enip_summarize a));
     let (d4, iec104) = take_iec104_analyzer d3;
     ie \<leftarrow> optional iec104 iec104_summarize;
     let arp = (if enable_arp opt then [arp_summarize (an_arp st)] else []);
     Some (reasm @ dns @ http @ tls @ mb @ dn @ en @ ie @ arp)
   }"

definition collected_findings :: "('h, 't) web_analyzers \<Rightarrow> ('h, 't) analyze_state \<Rightarrow> finding list" where
  "collected_findings web st =
     (let d = an_dispatcher st in
      an_findings st @ slot_findings (an_reassembler st) ra_findings @ slot_findings (sd_http d) (http_findings web) @
      slot_findings (sd_tls d) (tls_findings web) @ slot_findings (sd_modbus d) ma_all_findings @ slot_findings (sd_dnp3 d) da_all_findings @
      slot_findings (sd_enip d) ea_all_findings @ slot_findings (sd_iec104 d) ia_all_findings)"

definition analyze_finish ::
  "('h, 't) web_analyzers \<Rightarrow> hash_seeds \<Rightarrow> analyze_options \<Rightarrow> ('h, 't) analyze_state \<times> bool \<Rightarrow> analyze_report rust"
where
  "analyze_finish web seeds opt acc = do {
     let (st, any_error) = acc;
     let total_summary = (an_summary st)\<lparr>cs_skipped_packets := an_decode_errors st\<rparr>;
     (r, d) \<leftarrow> finish_reassembly (dispatcher_handler (main_ops web)) (an_reassembler st, an_dispatcher st);
     let st1 = st\<lparr>an_reassembler := r, an_dispatcher := d\<rparr>;
     summaries \<leftarrow> analyzer_summaries web opt st1;
     gaps \<leftarrow> (if coverage_gaps opt
              then map_option Some (collect_all_gaps (tcp_gap_seed seeds) (udp_gap_seed seeds) (sd_unclassified_port_counts d) (an_udp_gaps st))
              else Some None);
     Some \<lparr>rep_summary = total_summary, rep_findings = collected_findings web st1, rep_analyzers = summaries,
           rep_gaps = gaps, rep_any_error = any_error\<rparr>
   }"

definition analyze_start ::
  "('h, 't) web_analyzers \<Rightarrow> hash_seeds \<Rightarrow> analyze_options \<Rightarrow> ('h, 't) analyze_state rust"
where
  "analyze_start web seeds opt = do {
     r \<leftarrow> analyze_reassembler seeds opt;
     Some \<lparr>an_summary = capture_summary_new, an_dns = dns_analyzer_new,
           an_arp = arp_analyzer_new (binding_seed seeds) (storm_seed seeds) (arp_spoof_threshold opt) (arp_storm_rate opt),
           an_findings = [], an_decode_errors = 0, an_udp_gaps = [], an_reassembler = r,
           an_dispatcher = analyze_dispatcher web seeds opt\<rparr>
   }"

definition run_analyze ::
  "('p, 'c) pcap_crate \<Rightarrow> slicers \<Rightarrow> ('h, 't) web_analyzers \<Rightarrow> hash_seeds \<Rightarrow> analyze_options \<Rightarrow> target list \<Rightarrow>
   (analyze_error + analyze_report) rust"
where
  "run_analyze P S web seeds opt targets =
     (if modbus_write_burst_threshold opt = 0 then Some (Inl ZeroWriteBurst)
      else if modbus_write_sustained_threshold opt = 0 then Some (Inl ZeroWriteSustained)
      else if arp_storm_rate opt = 0 then Some (Inl ZeroStormRate)
      else if arp_spoof_threshold opt = 0 then Some (Inl ZeroSpoofThreshold)
      else do {
        st \<leftarrow> analyze_start web seeds opt;
        r \<leftarrow> analyze_targets P S web opt targets (st, False);
        (case r of
           Inl e \<Rightarrow> Some (Inl e)
         | Inr acc \<Rightarrow> map_option Inr (analyze_finish web seeds opt acc))
      })"

section \<open>The command \<open>summary\<close>\<close>

fun summary_packets ::
  "slicers \<Rightarrow> data_link \<Rightarrow> raw_packet list \<Rightarrow> capture_summary \<times> u64 \<Rightarrow> (capture_summary \<times> u64) rust"
where
  "summary_packets S link [] acc = Some acc"
| "summary_packets S link (raw # rest) (s, errors) = do {
     decoded \<leftarrow> decode_packet S (pkt_data raw) link;
     (case decoded of
        Inr (IpFrame p) \<Rightarrow> do { s' \<leftarrow> ingest s p; summary_packets S link rest (s', errors) }
      | Inr (ArpFrame f) \<Rightarrow> summary_packets S link rest (s, errors)
      | Inl e \<Rightarrow> summary_packets S link rest (s, sat_add64 errors 1))
   }"

fun summary_files ::
  "('p, 'c) pcap_crate \<Rightarrow> slicers \<Rightarrow> file_source list \<Rightarrow> (capture_summary \<times> u64) \<times> bool \<Rightarrow> ((capture_summary \<times> u64) \<times> bool) rust"
where
  "summary_files P S [] acc = Some acc"
| "summary_files P S (f # fs) (se, any_error) = do {
     r \<leftarrow> from_file P f;
     (case r of
        Inl e \<Rightarrow> summary_files P S fs (se, True)
      | Inr source \<Rightarrow>
          if packets source = [] then summary_files P S fs (se, any_error)
          else do { se' \<leftarrow> summary_packets S (datalink source) (packets source) se; summary_files P S fs (se', any_error) })
   }"

fun summary_targets ::
  "('p, 'c) pcap_crate \<Rightarrow> slicers \<Rightarrow> target list \<Rightarrow> (capture_summary \<times> u64) \<times> bool \<Rightarrow>
   (analyze_error + ((capture_summary \<times> u64) \<times> bool)) rust"
where
  "summary_targets P S [] acc = Some (Inr acc)"
| "summary_targets P S (t # ts) acc =
     (case resolve_targets t of
        Inl e \<Rightarrow> Some (Inl e)
      | Inr fs \<Rightarrow> do { acc' \<leftarrow> summary_files P S fs acc; summary_targets P S ts acc' })"

text \<open>The summary that is rendered, and whether the exit code is 1.\<close>

definition run_summary :: "('p, 'c) pcap_crate \<Rightarrow> slicers \<Rightarrow> target list \<Rightarrow> (analyze_error + (capture_summary \<times> bool)) rust" where
  "run_summary P S targets = do {
     r \<leftarrow> summary_targets P S targets ((capture_summary_new, 0), False);
     Some (case r of
         Inl e \<Rightarrow> Inl e
       | Inr ((s, errors), any_error) \<Rightarrow> Inr (s\<lparr>cs_skipped_packets := errors\<rparr>, any_error))
   }"

definition format_zero_packet_notice :: "string \<Rightarrow> pcap_source \<Rightarrow> flow_key fmt" where
  "format_zero_packet_notice path source =
     (let base = [Lit ''notice: '', Lit path, Lit '': 0 packets read from '', Lit (if is_pcapng source then ''pcapng file'' else ''pcap file'')];
          g = sat_subw (skipped_blocks source) (opb_skipped source);
          n = opb_skipped source;
          generic = [Lit '' ('', Dec (unat g), Lit '' block(s) skipped as unsupported)''];
          obsolete = [Lit '' (includes '', Dec (unat n), Lit '' obsolete Packet Block(s) whose data was not analyzed; re-save with mergecap)'']
      in base @ (if g > 0 then generic else []) @ (if n > 0 then obsolete else []))"

end
