(* ===== verification/Engine_Counts.thy ===== *)
theory Engine_Counts
  imports Engine_Run
begin

text \<open>
  How many flows the engine reports as completed: each packet ends at most one flow by FIN or RST, so the sum that
  \<open>summarize\<close> computes without saturation stays below the number of packets.
\<close>

definition ended :: "reassembler \<Rightarrow> nat" where
  "ended r = st_flows_fin (ra_stats r) + st_flows_rst (ra_stats r)"

named_theorems ended_simps \<open>operations that end no flow by FIN or RST\<close>

lemma ended_frame [ended_simps]:
  "ended (push_finding f r) = ended r" "ended (put_flow key fl r) = ended r" "ended (create_flow key ts r) = ended r"
  "ended (bump st_packets_processed_update r) = ended r" "ended (bump st_packets_tcp_update r) = ended r"
  "ended (bump st_flows_expired_update r) = ended r" "ended (bump st_evictions_update r) = ended r"
  "ended (bump st_flows_partial_update r) = ended r" "ended (r\<lparr>ra_flows := fs\<rparr>) = ended r" "ended (r\<lparr>ra_total_memory := m\<rparr>) = ended r"
  "ended (r\<lparr>ra_packet_index := i\<rparr>) = ended r" "ended (r\<lparr>ra_last_expiry_sweep_secs := t\<rparr>) = ended r"
  "ended (r\<lparr>ra_finalized := b\<rparr>) = ended r" "ended (r\<lparr>ra_findings := l\<rparr>) = ended r"
  "ended (fst (extract_tcp_context p r)) = ended r"
  by (auto simp: ended_def push_finding_def put_flow_def create_flow_def bump_def extract_tcp_context_def split: transport_info.splits)

lemma ended_bump: "ended (bump st_flows_fin_update r) \<le> ended r + 1" "ended (bump st_flows_rst_update r) \<le> ended r + 1"
  by (simp_all add: ended_def bump_def sat_add64_def)

lemma ended_count [ended_simps]: "ended (count_insert_result res n key src ts r) = ended r"
  by (simp add: count_insert_result_def generate_conflicting_overlap_finding_def generate_truncated_finding_def ended_simps Let_def split: insert_result.splits)
     (simp add: ended_def bump_def)

lemma deliver_ended:
  "deliver H key dir ts es (s, h) = Some (s', h') \<Longrightarrow> st_flows_fin s' = st_flows_fin s \<and> st_flows_rst s' = st_flows_rst s"
proof (induction es arbitrary: s h)
  case (Cons e es)
  obtain off data where "e = (off, data)" by fastforce
  then show ?case using Cons by (auto split: Option.bind_splits)
qed simp

lemma close_flow_ended: "close_flow H key reason (r, h) = Some (r', h') \<Longrightarrow> ended r' = ended r"
  by (auto simp: close_flow_def ended_def Let_def dest!: deliver_ended split: option.splits Option.bind_splits prod.splits)

lemma expire_loop_ended: "expire_loop H ks (r, h) = Some (r', h') \<Longrightarrow> ended r' = ended r"
proof (induction ks arbitrary: r h)
  case (Cons k ks)
  then show ?case by (auto simp: ended_simps dest!: close_flow_ended split: Option.bind_splits)
qed simp

lemma evict_loop_ended: "evict_loop H t vs (r, h) = Some (r', h') \<Longrightarrow> ended r' = ended r"
proof (induction vs arbitrary: r h)
  case (Cons v vs)
  obtain k a b where "v = (k, a, b)" by (cases v) auto
  then show ?case using Cons by (auto simp: ended_simps dest!: close_flow_ended split: Option.bind_splits if_splits)
qed simp

lemma evict_flows_ended: "evict_flows H trigger (r, h) = Some (r', h') \<Longrightarrow> ended r' = ended r"
  by (auto simp: evict_flows_def dest!: evict_loop_ended split: Option.bind_splits)

lemma sweeps_ended:
  "sweep_by_time H ts (r, h) = Some (r', h') \<Longrightarrow> ended r' = ended r" "sweep_by_index H (r, h) = Some (r', h') \<Longrightarrow> ended r' = ended r"
  by (auto simp: sweep_by_time_def sweep_by_index_def expire_idle_by_timeout_def expire_idle_by_packet_index_def ended_simps Let_def
      dest!: expire_loop_ended split: if_splits)

lemma touch_flow_ended: "touch_flow key ts r = Some r' \<Longrightarrow> ended r' = ended r"
  by (auto simp: touch_flow_def ended_simps split: option.splits)

lemma get_or_create_ended: "get_or_create_flow H key ts (r, h) = Some ((r', b), h') \<Longrightarrow> ended r' = ended r"
  by (auto simp: get_or_create_flow_def ended_simps Let_def dest!: touch_flow_ended evict_flows_ended split: if_splits Option.bind_splits)

lemma handshake_ended:
  assumes "apply_handshake_flags H p key tcp (r, h) = Some ((r', post), h')"
  shows "ended r' \<le> ended r + 1" and "post \<noteq> FlowClosed \<Longrightarrow> ended r' = ended r"
proof -
  obtain f where f: "hm_get (ra_flows r) key = Some f" using assms by (auto simp: apply_handshake_flags_def split: option.splits)
  let ?r = "bump st_flows_rst_update (put_flow key (on_rst (handshake_syn_ack p tcp (handshake_syn p tcp f))) r)"
  have c: "tf_rst tcp \<Longrightarrow> close_flow H key RstClose (?r, h) = Some (r', h') \<and> post = FlowClosed"
    using assms f by (auto simp: apply_handshake_flags_def split: Option.bind_splits)
  have n: "\<not> tf_rst tcp \<Longrightarrow> ended r' = ended r" using assms f by (auto simp: apply_handshake_flags_def Let_def ended_simps)
  show "ended r' \<le> ended r + 1"
  proof (cases "tf_rst tcp")
    case True
    then have "close_flow H key RstClose (?r, h) = Some (r', h')" using c by blast
    from close_flow_ended [OF this] have "ended r' = ended ?r" .
    then show ?thesis using ended_bump(2) [of "put_flow key (on_rst (handshake_syn_ack p tcp (handshake_syn p tcp f))) r"] by (simp add: ended_simps)
  qed (use n in simp)
  show "post \<noteq> FlowClosed \<Longrightarrow> ended r' = ended r" using c n by blast
qed

lemma insert_payload_ended: "insert_payload_segment p key tcp ts r = Some (r', dir) \<Longrightarrow> ended r' = ended r"
  by (auto simp: insert_payload_segment_def Let_def ended_simps split: option.splits Option.bind_splits prod.splits)

lemma checks_ended: "check_anomaly_thresholds p key dir ts r = Some r' \<Longrightarrow> ended r' = ended r"
  by (auto simp: check_anomaly_thresholds_def check_overlap_def check_small_segments_def check_out_of_window_def Let_def ended_simps
      split: option.splits if_splits prod.splits)

lemma flush_data_ended: "flush_contiguous_data H key dir ts (r, h) = Some (r', h') \<Longrightarrow> ended r' = ended r"
  by (auto simp: flush_contiguous_data_def ended_def put_flow_def Let_def dest!: deliver_ended split: option.splits Option.bind_splits prod.splits)

lemma process_payload_ended: "process_payload H p key tcp ts (r, h) = Some (r', h') \<Longrightarrow> ended r' = ended r"
  by (auto simp: process_payload_def dest!: insert_payload_ended checks_ended flush_data_ended split: if_splits Option.bind_splits)

lemma close_if_closed_ended: "close_if_closed H key (r, h) = Some (r', h') \<Longrightarrow> ended r' \<le> ended r + 1"
  using ended_bump(1) [of r] by (auto simp: close_if_closed_def dest!: close_flow_ended split: option.splits if_splits)

lemma enforce_memcap_ended: "enforce_memcap H (r, h) = Some (r', h') \<Longrightarrow> ended r' = ended r"
  by (auto simp: enforce_memcap_def dest!: evict_flows_ended split: if_splits)

lemma process_segment_ended:
  assumes "process_segment H p key tcp ts (r, h) = Some (r', h')"
  shows "ended r' \<le> ended r + 1"
proof -
  obtain r4 adm h4 where g: "get_or_create_flow H key ts (r, h) = Some ((r4, adm), h4)"
    using assms by (auto simp: process_segment_def split: Option.bind_splits)
  show ?thesis
  proof (cases adm)
    case True
    obtain r5 post h5 where f: "apply_handshake_flags H p key tcp (r4, h4) = Some ((r5, post), h5)"
      using assms g True by (auto simp: process_segment_def split: Option.bind_splits)
    show ?thesis
    proof (cases "post = FlowClosed")
      case True
      then show ?thesis using assms g f \<open>adm\<close> get_or_create_ended [OF g] handshake_ended(1) [OF f] by (simp add: process_segment_def)
    next
      case False
      then obtain r6 h6 r7 h7 where s: "process_payload H p key tcp ts (r5, h5) = Some (r6, h6)" "close_if_closed H key (r6, h6) = Some (r7, h7)"
          "enforce_memcap H (r7, h7) = Some (r', h')"
        using assms g f \<open>adm\<close> by (auto simp: process_segment_def split: Option.bind_splits)
      show ?thesis using get_or_create_ended [OF g] handshake_ended(2) [OF f False] process_payload_ended [OF s(1)]
          close_if_closed_ended [OF s(2)] enforce_memcap_ended [OF s(3)] by simp
    qed
  qed (use assms g get_or_create_ended [OF g] in \<open>simp add: process_segment_def\<close>)
qed

lemma process_packet_ended:
  assumes "process_packet H p ts (r, h) = Some (r', h')"
  shows "ended r' \<le> ended r + 1"
proof -
  let ?r0 = "(bump st_packets_processed_update r)\<lparr>ra_packet_index := ra_packet_index r + 1\<rparr>"
  obtain r1 h1 r2 h2 where s: "sweep_by_time H ts (?r0, h) = Some (r1, h1)" "sweep_by_index H (r1, h1) = Some (r2, h2)"
      and rest: "(case extract_tcp_context p r2 of (r3, None) \<Rightarrow> Some (r3, h2)
        | (r3, Some (key, tcp)) \<Rightarrow> process_segment H p key tcp ts (bump st_packets_tcp_update r3, h2)) = Some (r', h')"
    using assms by (auto simp: process_packet_def split: Option.bind_splits)
  have e: "ended r2 = ended r" using sweeps_ended(1) [OF s(1)] sweeps_ended(2) [OF s(2)] by (simp add: ended_simps)
  obtain r3 x where x: "extract_tcp_context p r2 = (r3, x)" by fastforce
  have "ended r3 = ended r" using e ended_frame(15) [of p r2] by (simp add: x)
  then show ?thesis using rest x by (cases x) (auto simp: ended_simps dest!: process_segment_ended)
qed

lemma process_packets_ended: "process_packets H ps (r, h) = Some (r', h') \<Longrightarrow> ended r' \<le> ended r + length ps"
proof (induction ps arbitrary: r h)
  case (Cons x ps)
  obtain p ts where x: "x = (p, ts)" by fastforce
  then obtain r1 h1 where s: "process_packet H p ts (r, h) = Some (r1, h1)" "process_packets H ps (r1, h1) = Some (r', h')"
    using Cons.prems by (auto split: Option.bind_splits)
  show ?case using Cons.IH [OF s(2)] process_packet_ended [OF s(1)] by simp
qed simp

lemma close_all_ended: "close_all H ks (r, h) = Some (r', h') \<Longrightarrow> ended r' = ended r"
proof (induction ks arbitrary: r h)
  case (Cons k ks)
  then show ?case by (auto dest!: close_flow_ended split: Option.bind_splits)
qed simp

lemma finalize_ended: "finalize H (r, h) = Some (r', h') \<Longrightarrow> ended r' = ended r"
  by (auto simp: finalize_def Let_def ended_simps dest!: close_all_ended split: if_splits Option.bind_splits)

lemma summarize_total: "ended r \<le> u64_max \<Longrightarrow> \<exists>s. reassembler_summarize r = Some s"
  by (simp add: reassembler_summarize_def ended_def Let_def)

end
