(* ===== verification/Analyze_Props.thy ===== *)
theory Analyze_Props
  imports Analyze Engine_Counts Reader_Walk Decoder_Props Catalog_Props Dispatcher_Inv Modbus_Inv Dnp3_Props Enip_Inv Iec104_Props Arp_Inv
begin

text \<open>
  The command \<open>analyze\<close> as a whole. The loop over targets, files and packets is one fold over the frames of the readable files;
  each component it feeds sees the frames of its kind, in order, whatever happens to the others. From that: the command
  never panics, and what its report is.
\<close>

section \<open>The frames of a run\<close>

type_synonym link_frame = "data_link \<times> raw_packet"

definition file_frames :: "('p, 'c) pcap_crate \<Rightarrow> file_source list \<Rightarrow> link_frame list" where
  "file_frames P fs =
     concat (map (\<lambda>f. case from_file P f of Some (Inr src) \<Rightarrow> map (Pair (datalink src)) (packets src) | _ \<Rightarrow> []) fs)"

definition unreadable :: "('p, 'c) pcap_crate \<Rightarrow> file_source list \<Rightarrow> bool" where
  "unreadable P fs \<longleftrightarrow> (\<exists>f \<in> set fs. \<exists>e. from_file P f = Some (Inl e))"

text \<open>The files of the targets, up to the first target that cannot be resolved.\<close>

fun target_files :: "target list \<Rightarrow> file_source list \<times> analyze_error option" where
  "target_files [] = ([], None)"
| "target_files (t # ts) =
     (case resolve_targets t of
        Inl e \<Rightarrow> ([], Some e)
      | Inr fs \<Rightarrow> (let (rest, e) = target_files ts in (fs @ rest, e)))"

definition decoded :: "slicers \<Rightarrow> link_frame \<Rightarrow> decode_error + decoded_frame" where
  "decoded S x = the (decode_packet S (pkt_data (snd x)) (fst x))"

definition ip_frames :: "slicers \<Rightarrow> link_frame list \<Rightarrow> (parsed_packet \<times> u32) list" where
  "ip_frames S xs = concat (map (\<lambda>x. case decoded S x of Inr (IpFrame p) \<Rightarrow> [(p, timestamp_secs (snd x))] | _ \<Rightarrow> []) xs)"

definition arp_frames :: "slicers \<Rightarrow> link_frame list \<Rightarrow> (arp_frame \<times> u32) list" where
  "arp_frames S xs = concat (map (\<lambda>x. case decoded S x of Inr (ArpFrame f) \<Rightarrow> [(f, timestamp_secs (snd x))] | _ \<Rightarrow> []) xs)"

definition undecoded :: "slicers \<Rightarrow> link_frame list \<Rightarrow> nat" where
  "undecoded S xs = length (filter (\<lambda>x. case decoded S x of Inl e \<Rightarrow> e \<noteq> NonEthernetIpv4Arp | Inr _ \<Rightarrow> False) xs)"

lemma frames_append [simp]:
  "ip_frames S (xs @ ys) = ip_frames S xs @ ip_frames S ys" "arp_frames S (xs @ ys) = arp_frames S xs @ arp_frames S ys"
  "undecoded S (xs @ ys) = undecoded S xs + undecoded S ys"
  by (simp_all add: ip_frames_def arp_frames_def undecoded_def)

lemma frames_Nil [simp]: "ip_frames S [] = []" "arp_frames S [] = []" "undecoded S [] = 0"
  by (simp_all add: ip_frames_def arp_frames_def undecoded_def)

lemma length_ip_frames: "length (ip_frames S xs) \<le> length xs"
  by (induction xs) (auto simp: ip_frames_def split: sum.splits decoded_frame.splits)

lemma undecoded_le: "undecoded S xs \<le> length xs"
  by (simp add: undecoded_def)

fun fold_frames ::
  "slicers \<Rightarrow> ('h, 't) web_analyzers \<Rightarrow> analyze_options \<Rightarrow> link_frame list \<Rightarrow> ('h, 't) analyze_state \<Rightarrow> ('h, 't) analyze_state rust"
where
  "fold_frames S web opt [] st = Some st"
| "fold_frames S web opt (x # xs) st = do { st' \<leftarrow> analyze_packet S web opt (fst x) (snd x) st; fold_frames S web opt xs st' }"

lemma fold_frames_append: "fold_frames S web opt (xs @ ys) st = do { st' \<leftarrow> fold_frames S web opt xs st; fold_frames S web opt ys st' }"
  by (induction xs arbitrary: st) (auto split: Option.bind_splits)

lemma analyze_packets_fold: "analyze_packets S web opt link raws st = fold_frames S web opt (map (Pair link) raws) st"
  by (induction raws arbitrary: st) (auto intro!: Option.bind_cong)

lemma analyze_files_fold:
  assumes "\<forall>f \<in> set fs. from_file P f \<noteq> None"
  shows "analyze_files P S web opt fs (st, b) = map_option (\<lambda>st'. (st', b \<or> unreadable P fs)) (fold_frames S web opt (file_frames P fs) st)"
  using assms
proof (induction fs arbitrary: st b)
  case (Cons f fs)
  then obtain r where r: "from_file P f = Some r" by auto
  have IH: "analyze_files P S web opt fs (st, b) = map_option (\<lambda>st'. (st', b \<or> unreadable P fs)) (fold_frames S web opt (file_frames P fs) st)" for st b
    using Cons by simp
  show ?case
  proof (cases r)
    case (Inl e)
    then show ?thesis using r IH by (simp add: file_frames_def unreadable_def)
  next
    case (Inr src)
    have "file_frames P (f # fs) = map (Pair (datalink src)) (packets src) @ file_frames P fs" "unreadable P (f # fs) = unreadable P fs"
      using r Inr by (auto simp: file_frames_def unreadable_def)
    then show ?thesis using r Inr IH
      by (cases "packets src = []") (simp_all add: analyze_packets_fold fold_frames_append map_option_bind o_def)
  qed
qed (simp add: file_frames_def unreadable_def)

lemma analyze_targets_fold:
  assumes "\<forall>f \<in> set (fst (target_files ts)). from_file P f \<noteq> None" "fold_frames S web opt (file_frames P (fst (target_files ts))) st \<noteq> None"
  shows "analyze_targets P S web opt ts (st, b) =
    (case snd (target_files ts) of
       Some e \<Rightarrow> Some (Inl e)
     | None \<Rightarrow> map_option (\<lambda>st'. Inr (st', b \<or> unreadable P (fst (target_files ts)))) (fold_frames S web opt (file_frames P (fst (target_files ts))) st))"
  using assms
proof (induction ts arbitrary: st b)
  case (Cons t ts)
  show ?case
  proof (cases "resolve_targets t")
    case (Inr fs)
    obtain rest e where t: "target_files ts = (rest, e)" by fastforce
    have all: "target_files (t # ts) = (fs @ rest, e)" using Inr t by simp
    have fr: "file_frames P (fs @ rest) = file_frames P fs @ file_frames P rest" "unreadable P (fs @ rest) \<longleftrightarrow> unreadable P fs \<or> unreadable P rest"
      by (auto simp: file_frames_def unreadable_def)
    obtain st1 where st1: "fold_frames S web opt (file_frames P fs) st = Some st1" "fold_frames S web opt (file_frames P rest) st1 \<noteq> None"
      using Cons.prems(2) unfolding all fst_conv fr fold_frames_append by (auto split: Option.bind_splits)
    have "analyze_files P S web opt fs (st, b) = Some (st1, b \<or> unreadable P fs)"
      using analyze_files_fold [of fs P S web opt st b] Cons.prems(1) [unfolded all] st1(1) by simp
    moreover have "analyze_targets P S web opt ts (st1, b \<or> unreadable P fs) =
      (case e of Some e \<Rightarrow> Some (Inl e)
       | None \<Rightarrow> map_option (\<lambda>st'. Inr (st', (b \<or> unreadable P fs) \<or> unreadable P rest)) (fold_frames S web opt (file_frames P rest) st1))"
      using Cons.IH [of st1, unfolded t fst_conv snd_conv] Cons.prems(1) [unfolded all] st1(2) by simp
    ultimately show ?thesis using st1(1) Inr unfolding all fst_conv snd_conv fr
      by (cases e) (simp_all add: fold_frames_append disj_assoc)
  qed simp
qed (simp add: file_frames_def unreadable_def)

section \<open>What each component has seen\<close>

abbreviation main_handler :: "('h, 't) web_analyzers \<Rightarrow> ('h, 't) main_dispatcher stream_handler" where
  "main_handler web \<equiv> dispatcher_handler (main_ops web)"

text \<open>The engine and the dispatcher after the packets \<open>ps\<close>.\<close>

definition engine_seen ::
  "('h, 't) web_analyzers \<Rightarrow> hash_seeds \<Rightarrow> analyze_options \<Rightarrow> (parsed_packet \<times> u32) list \<Rightarrow> reassembler option \<times> ('h, 't) main_dispatcher \<Rightarrow> bool"
where
  "engine_seen web seeds opt ps rd \<longleftrightarrow>
     (case analyze_reassembler seeds opt of
        Some (Some r0) \<Rightarrow> \<exists>r. fst rd = Some r \<and> process_packets (main_handler web) ps (r0, analyze_dispatcher web seeds opt) = Some (r, snd rd)
      | _ \<Rightarrow> rd = (None, analyze_dispatcher web seeds opt))"

text \<open>The engine gets through the packets \<open>ps\<close>.\<close>

definition engine_runs :: "('h, 't) web_analyzers \<Rightarrow> hash_seeds \<Rightarrow> analyze_options \<Rightarrow> (parsed_packet \<times> u32) list \<Rightarrow> bool" where
  "engine_runs web seeds opt ps \<longleftrightarrow>
     (\<forall>r0. analyze_reassembler seeds opt = Some (Some r0) \<longrightarrow> process_packets (main_handler web) ps (r0, analyze_dispatcher web seeds opt) \<noteq> None)"

lemma process_packets_append:
  "process_packets H (ps @ qs) rh = do { rh' \<leftarrow> process_packets H ps rh; process_packets H qs rh' }"
  by (induction ps arbitrary: rh) (auto split: Option.bind_splits)

lemma engine_runs_prefix: "engine_runs web seeds opt (ps @ qs) \<Longrightarrow> engine_runs web seeds opt ps"
  by (auto simp: engine_runs_def process_packets_append split: Option.bind_splits)

lemma engine_seen_step:
  assumes "engine_seen web seeds opt ps rd" "engine_runs web seeds opt (ps @ [(p, ts)])"
  shows "\<exists>rd'. reassemble_packet (main_handler web) p ts rd = Some rd' \<and> engine_seen web seeds opt (ps @ [(p, ts)]) rd'"
proof (cases "\<exists>r0. analyze_reassembler seeds opt = Some (Some r0)")
  case True
  then obtain r0 where r0: "analyze_reassembler seeds opt = Some (Some r0)" by blast
  obtain r where r: "fst rd = Some r" "process_packets (main_handler web) ps (r0, analyze_dispatcher web seeds opt) = Some (r, snd rd)"
    using assms(1) r0 by (auto simp: engine_seen_def)
  obtain r' d' where s: "process_packet (main_handler web) p ts (r, snd rd) = Some (r', d')"
    using assms(2) r0 r by (auto simp: engine_runs_def process_packets_append split: Option.bind_splits)
  have "engine_seen web seeds opt (ps @ [(p, ts)]) (Some r', d')" using r0 r s by (simp add: engine_seen_def process_packets_append)
  then show ?thesis using r s by (simp add: reassemble_packet_def)
next
  case False
  then have "rd = (None, analyze_dispatcher web seeds opt)" "engine_seen web seeds opt (ps @ [(p, ts)]) rd"
    using assms(1) by (auto simp: engine_seen_def split: option.splits)
  then show ?thesis by (simp add: reassemble_packet_def)
qed

definition run_seen ::
  "slicers \<Rightarrow> ('h, 't) web_analyzers \<Rightarrow> hash_seeds \<Rightarrow> analyze_options \<Rightarrow> link_frame list \<Rightarrow> ('h, 't) analyze_state \<Rightarrow> bool"
where
  "run_seen S web seeds opt xs st \<longleftrightarrow>
     arp_ok (an_arp st) \<and> ingested (map fst (ip_frames S xs)) (an_summary st) \<and>
     dn_query_count (an_dns st) + dn_response_count (an_dns st) \<le> length (ip_frames S xs) \<and> gaps_of UdpProto (an_udp_gaps st) \<and>
     an_decode_errors st = undecoded S xs \<and> engine_seen web seeds opt (ip_frames S xs) (an_reassembler st, an_dispatcher st)"

lemma count_udp_gap_ok: "gaps_of UdpProto m \<Longrightarrow> gaps_of UdpProto (count_udp_gap p b m)"
  by (auto simp: count_udp_gap_def udp_gap_key_def intro!: gaps_of_insert split: option.splits transport_info.splits if_splits)

lemma dns_step:
  "dn_query_count (fst (dns_analyze a p)) + dn_response_count (fst (dns_analyze a p)) \<le> Suc (dn_query_count a + dn_response_count a)"
  "snd (dns_analyze a p) = []"
  by (auto simp: dns_analyze_def sat_add64_def)

lemma seen_ip:
  assumes t: "run_seen S web seeds opt xs st" and x: "decoded S x = Inr (IpFrame p)"
    and run: "engine_runs web seeds opt (ip_frames S (xs @ [x]))" and len: "length xs < u64_max"
    and size: "sum_list (map (\<lambda>e. packet_len (fst e)) (ip_frames S (xs @ [x]))) \<le> u64_max"
  shows "\<exists>st'. analyze_ip web opt p (timestamp_secs (snd x)) st = Some st' \<and> run_seen S web seeds opt (xs @ [x]) st'"
proof -
  let ?ts = "timestamp_secs (snd x)"
  have ip: "ip_frames S [x] = [(p, ?ts)]" and ar: "undecoded S [x] = 0"
    using x by (simp_all add: ip_frames_def undecoded_def)
  have n: "length (map fst (ip_frames S xs)) < u64_max" using len length_ip_frames [of S xs] by simp
  obtain s where s: "ingest (an_summary st) p = Some s" "ingested (map fst (ip_frames S xs) @ [p]) s"
    using ingest_step [OF _ n, of "an_summary st" p] t size by (auto simp: run_seen_def ip o_def)
  obtain rd where rd: "reassemble_packet (main_handler web) p ?ts (an_reassembler st, an_dispatcher st) = Some rd"
      "engine_seen web seeds opt (ip_frames S xs @ [(p, ?ts)]) rd"
    using engine_seen_step [of web seeds opt "ip_frames S xs" "(an_reassembler st, an_dispatcher st)" p ?ts] t run
    unfolding run_seen_def frames_append ip by blast
  obtain r d where rd': "rd = (r, d)" by fastforce
  show ?thesis
    using t s rd dns_step [of "an_dns st" p] count_udp_gap_ok
    by (auto simp: analyze_ip_def run_seen_def ip ar rd' Let_def split: prod.splits)
qed

lemma seen_step:
  assumes ok: "slicers_ok S" and t: "run_seen S web seeds opt xs st"
    and run: "engine_runs web seeds opt (ip_frames S (xs @ [x]))" and len: "length xs < u64_max"
    and size: "sum_list (map (\<lambda>e. packet_len (fst e)) (ip_frames S (xs @ [x]))) \<le> u64_max"
    and short: "length (pkt_data (snd x)) \<le> isize_max"
  shows "\<exists>st'. analyze_packet S web opt (fst x) (snd x) st = Some st' \<and> run_seen S web seeds opt (xs @ [x]) st'"
proof -
  obtain r where r: "decode_packet S (pkt_data (snd x)) (fst x) = Some r" using decode_total [OF ok short] by blast
  then have d: "decoded S x = r" by (simp add: decoded_def)
  show ?thesis
  proof (cases r)
    case (Inl e)
    have u: "undecoded S xs < u64_max" using undecoded_le [of S xs] len by simp
    have f: "ip_frames S [x] = []" "undecoded S [x] = (if e = NonEthernetIpv4Arp then 0 else 1)"
      using d Inl by (simp_all add: ip_frames_def undecoded_def)
    have "run_seen S web seeds opt (xs @ [x]) (analyze_undecoded opt e (length (pkt_data (snd x))) st)"
      using t u by (auto simp: run_seen_def f analyze_undecoded_def arp_ok_def record_malformed_def sat_add64_exact Let_def)
    then show ?thesis using r Inl by (simp add: analyze_packet_def)
  next
    case (Inr frame)
    show ?thesis
    proof (cases frame)
      case (IpFrame p)
      then show ?thesis using seen_ip [OF t _ run len size, of p] r d Inr by (simp add: analyze_packet_def)
    next
      case (ArpFrame f)
      have e: "ip_frames S [x] = []" "undecoded S [x] = 0"
        using d Inr ArpFrame by (simp_all add: ip_frames_def undecoded_def)
      have "arp_ok (an_arp st)" using t by (simp add: run_seen_def)
      then obtain a l where a: "process_arp (an_arp st) f (timestamp_secs (snd x)) = Some (a, l)" "arp_ok a" using process_arp_ok by metis
      then show ?thesis using t r Inr ArpFrame by (auto simp: analyze_packet_def analyze_arp_def run_seen_def e)
    qed
  qed
qed

lemma seen_fold:
  assumes ok: "slicers_ok S" and "run_seen S web seeds opt xs st"
    and "engine_runs web seeds opt (ip_frames S (xs @ ys))" and "length (xs @ ys) \<le> u64_max"
    and "sum_list (map (\<lambda>e. packet_len (fst e)) (ip_frames S (xs @ ys))) \<le> u64_max"
    and "\<forall>x \<in> set ys. length (pkt_data (snd x)) \<le> isize_max"
  shows "\<exists>st'. fold_frames S web opt ys st = Some st' \<and> run_seen S web seeds opt (xs @ ys) st'"
  using assms(2-)
proof (induction ys arbitrary: xs st)
  case (Cons y ys)
  have split: "ip_frames S (xs @ y # ys) = ip_frames S (xs @ [y]) @ ip_frames S ys" using frames_append(1) [of S "xs @ [y]" ys] by simp
  have "engine_runs web seeds opt (ip_frames S (xs @ [y]))" using Cons.prems(2) engine_runs_prefix unfolding split by blast
  moreover have "sum_list (map (\<lambda>e. packet_len (fst e)) (ip_frames S (xs @ [y]))) \<le> u64_max" using Cons.prems(4) unfolding split by simp
  moreover have "length xs < u64_max" "length (pkt_data (snd y)) \<le> isize_max" using Cons.prems(3,5) by simp_all
  ultimately obtain st1 where st1: "analyze_packet S web opt (fst y) (snd y) st = Some st1" "run_seen S web seeds opt (xs @ [y]) st1"
    using seen_step [OF ok Cons.prems(1)] by blast
  show ?case using Cons.IH [OF st1(2)] Cons.prems(2-5) st1(1) by simp
qed simp

end
