(* ===== verification/Analyze_Run.thy ===== *)
theory Analyze_Run
  imports Analyze_Props
begin

text \<open>
  A run of \<open>analyze\<close> from the options to the report: what the options and the crates must promise, and that the
  command then returns, with which totals. The analyzers of HTTP and TLS are not modelled; the run is one that does not
  enable them, and then nothing is asked of them.
\<close>

section \<open>Contracts\<close>

text \<open>The payload of a transport slice is a part of the frame.\<close>

definition body_len :: "transport_slice option \<Rightarrow> nat" where
  "body_len t = (case t of Some (TcpSlice s) \<Rightarrow> length (ts_payload s) | Some (UdpSlice _ _ b) \<Rightarrow> length b | _ \<Rightarrow> 0)"

definition slices_within :: "slicers \<Rightarrow> bool" where
  "slices_within S \<longleftrightarrow>
     (\<forall>data sp. from_ethernet S data = Inr sp \<or> from_ip S data = Inr sp \<or> from_linux_sll S data = Inr sp \<longrightarrow> body_len (sp_transport sp) \<le> length data) \<and>
     (\<forall>data l. lax_from_ethernet S data = Some l \<or> lax_from_ip S data = Some l \<longrightarrow> body_len (sp_transport l) \<le> length data) \<and>
     (\<forall>ty data. body_len (sp_transport (lax_from_ether_type S ty data)) \<le> length data)"

text \<open>The iterator over the records of a classic capture ends, and the body of a pcapng block fits its length field.\<close>

definition crate_ok :: "('p, 'c) pcap_crate \<Rightarrow> bool" where
  "crate_ok P \<longleftrightarrow> short_bodies P \<and> (\<forall>res c acc. pcap_packets P res c acc \<noteq> None)"

definition options_ok :: "analyze_options \<Rightarrow> bool" where
  "options_ok opt \<longleftrightarrow>
     modbus_write_burst_threshold opt \<noteq> 0 \<and> modbus_write_sustained_threshold opt \<noteq> 0 \<and> arp_storm_rate opt \<noteq> 0 \<and> arp_spoof_threshold opt \<noteq> 0 \<and>
     0 < reassembly_depth opt \<and> reassembly_depth opt < 2 ^ 43 \<and> 0 < reassembly_memcap opt \<and> reassembly_memcap opt < 2 ^ 44"

text \<open>What an enabled analyzer of HTTP or TLS would have to be: a stream client, with some invariant, that can be
  summarized. Nothing is asked of one that is not enabled.\<close>

definition client_ok :: "bool \<Rightarrow> 'a stream_handler \<Rightarrow> 'a \<Rightarrow> ('a \<Rightarrow> 's rust) \<Rightarrow> (nat \<Rightarrow> 'a \<Rightarrow> bool) \<Rightarrow> bool" where
  "client_ok enabled H new summarize I \<longleftrightarrow>
     stream_client H I \<and> (enabled \<longrightarrow> (\<forall>n < 2 ^ 35. I n new)) \<and> (\<forall>a. I 0 a \<longrightarrow> summarize a \<noteq> None)"

definition web_ok :: "('h, 't) web_analyzers \<Rightarrow> analyze_options \<Rightarrow> (nat \<Rightarrow> 'h \<Rightarrow> bool) \<Rightarrow> (nat \<Rightarrow> 't \<Rightarrow> bool) \<Rightarrow> bool" where
  "web_ok web opt Ih It \<longleftrightarrow>
     client_ok (enable_http opt) (web_http web) (http_analyzer_new web) (http_summarize web) Ih \<and>
     client_ok (enable_tls opt) (web_tls web) (tls_analyzer_new web) (tls_summarize web) It"

lemma disabled_client_ok: "client_ok False H new summarize (\<lambda>_ _. False)"
  by (simp add: client_ok_def stream_client_def)

lemma disabled_web_ok: "\<not> enable_http opt \<Longrightarrow> \<not> enable_tls opt \<Longrightarrow> web_ok web opt (\<lambda>_ _. False) (\<lambda>_ _. False)"
  by (simp add: web_ok_def disabled_client_ok)

definition run_fits :: "link_frame list \<Rightarrow> bool" where
  "run_fits xs \<longleftrightarrow> length xs \<le> u64_max \<and> sum_list (map (\<lambda>x. length (pkt_data (snd x))) xs) < 2 ^ 35"

lemma run_fits_short:
  assumes "run_fits xs"
  shows "\<forall>x \<in> set xs. length (pkt_data (snd x)) \<le> isize_max"
proof
  fix x
  assume "x \<in> set xs"
  then have "length (pkt_data (snd x)) \<le> sum_list (map (\<lambda>x. length (pkt_data (snd x))) xs)" by (simp add: member_le_sum_list)
  then show "length (pkt_data (snd x)) \<le> isize_max" using assms by (simp add: run_fits_def isize_max_def)
qed

section \<open>What the contracts give\<close>

lemma decode_net_fits:
  assumes "decode_net ip net link t len = Some (Inr (IpFrame p))"
  shows "packet_len p = len \<and> length (payload p) = body_len t"
proof -
  obtain q where "p = build_parsed q t len"
    using assms by (cases net) (auto simp: decode_net_def decode_arp_def split: option.splits bind_splits)
  then show ?thesis
    by (cases q) (simp add: build_parsed_def body_len_def Let_def split: prod.splits option.splits transport_slice.splits)
qed

lemma strict_slice_within: "slices_within S \<Longrightarrow> strict_slice S data link = Inr (Inr sp) \<Longrightarrow> body_len (sp_transport sp) \<le> length data"
  by (cases link) (auto simp: strict_slice_def slices_within_def)

lemma lax_parse_within:
  assumes "slices_within S" "lax_parse S data link = Some (Inr l)"
  shows "body_len (sp_transport l) \<le> length data"
proof (cases link)
  case LINUX_SLL
  then obtain ty body where l: "l = lax_from_ether_type S ty body" "length body \<le> length data"
    using assms(2) by (auto simp: lax_parse_def byte_slice_def split: option.splits bind_splits if_splits)
  have "body_len (sp_transport (lax_from_ether_type S ty body)) \<le> length body" using assms(1) by (simp add: slices_within_def)
  then show ?thesis using l by simp
qed (use assms in \<open>auto simp: lax_parse_def slices_within_def split: option.splits\<close>)

lemma decode_fits:
  assumes S: "slices_within S" and d: "decode_packet S data link = Some (Inr (IpFrame p))"
  shows "packet_len p = length data \<and> length (payload p) \<le> length data"
proof (cases "strict_slice S data link")
  case (Inr s)
  show ?thesis
  proof (cases s)
    case (Inl e)
    obtain l where l: "lax_parse S data link = Some (Inr l)" "decode_lax data l = Some (Inr (IpFrame p))"
      using d Inr Inl by (cases e) (auto simp: decode_packet_def split: bind_splits sum.splits)
    then obtain net where "decode_net lax_ip_triple net (sp_link l) (sp_transport l) (length data) = Some (Inr (IpFrame p))"
      by (auto simp: decode_lax_def split: option.splits if_splits bind_splits)
    from decode_net_fits [OF this] show ?thesis using lax_parse_within [OF S l(1)] by simp
  next
    case (Inr sp)
    then have s: "strict_slice S data link = Inr (Inr sp)" using \<open>strict_slice S data link = Inr s\<close> by simp
    then obtain net where "decode_net strict_ip_triple net (sp_link sp) (sp_transport sp) (length data) = Some (Inr (IpFrame p))"
      using d by (auto simp: decode_packet_def split: option.splits)
    from decode_net_fits [OF this] show ?thesis using strict_slice_within [OF S s] by simp
  qed
qed (use d in \<open>simp add: decode_packet_def\<close>)

lemma frames_fit:
  assumes "slicers_ok S" "slices_within S" and "\<forall>x \<in> set xs. length (pkt_data (snd x)) \<le> isize_max"
  shows "capture_bytes (ip_frames S xs) \<le> sum_list (map (\<lambda>x. length (pkt_data (snd x))) xs) \<and>
    sum_list (map (\<lambda>e. packet_len (fst e)) (ip_frames S xs)) \<le> sum_list (map (\<lambda>x. length (pkt_data (snd x))) xs)"
  using assms(3)
proof (induction xs)
  case (Cons x xs)
  have split: "ip_frames S (x # xs) = ip_frames S [x] @ ip_frames S xs" using frames_append(1) [of S "[x]" xs] by simp
  have d: "decode_packet S (pkt_data (snd x)) (fst x) = Some (decoded S x)"
    using decode_total [OF assms(1), of "pkt_data (snd x)" "fst x"] Cons.prems by (auto simp: decoded_def)
  have "capture_bytes (ip_frames S [x]) \<le> length (pkt_data (snd x))"
    "sum_list (map (\<lambda>e. packet_len (fst e)) (ip_frames S [x])) \<le> length (pkt_data (snd x))"
    using decode_fits [OF assms(2)] d by (auto simp: ip_frames_def capture_bytes_def split: sum.splits decoded_frame.splits)
  with Cons show ?case unfolding split by (simp add: capture_bytes_def)
qed (simp add: capture_bytes_def)

lemma capture_fits:
  assumes "slicers_ok S" "slices_within S" "run_fits xs"
  shows "capture_ok (ip_frames S xs)" "capture_bytes (ip_frames S xs) < 2 ^ 35"
    "sum_list (map (\<lambda>e. packet_len (fst e)) (ip_frames S xs)) \<le> u64_max"
proof -
  note fit = frames_fit [OF assms(1,2) run_fits_short [OF assms(3)]]
  note f = conjunct1 [OF fit] conjunct2 [OF fit]
  show b: "capture_bytes (ip_frames S xs) < 2 ^ 35" using f(1) assms(3) by (simp add: run_fits_def)
  show "sum_list (map (\<lambda>e. packet_len (fst e)) (ip_frames S xs)) \<le> u64_max" using f(2) assms(3) by (simp add: run_fits_def u64_max_def)
  have "length (payload p) \<le> isize_max" if "(p, ts) \<in> set (ip_frames S xs)" for p ts
  proof -
    have "length (payload p) \<in> set (map (\<lambda>(p, ts). length (payload p)) (ip_frames S xs))" using that by force
    then have "length (payload p) \<le> capture_bytes (ip_frames S xs)" unfolding capture_bytes_def by (simp add: member_le_sum_list)
    then show ?thesis using b by (simp add: isize_max_def)
  qed
  then show "capture_ok (ip_frames S xs)"
    using b assms(3) length_ip_frames [of S xs] by (auto simp: capture_ok_def run_fits_def u64_max_def)
qed

lemma from_file_total: "crate_ok P \<Longrightarrow> from_file P f \<noteq> None"
proof -
  assume P: "crate_ok P"
  then have ng: "\<exists>r. read_pcapng_crate P raw = Some r" for raw using read_pcapng_total by (auto simp: crate_ok_def)
  have cl: "read_classic P stream \<noteq> None" for stream
    using P by (auto simp: crate_ok_def read_classic_def Let_def simp del: not_None_eq split: sum.splits prod.splits bind_splits)
  have "from_pcap_reader P stream \<noteq> None" for stream
    using ng cl by (auto simp: from_pcap_reader_def byte_slice_def split: option.splits)
  then show ?thesis by (auto simp: from_file_def byte_slice_def split: option.splits)
qed

lemma analyze_config_ok:
  assumes "options_ok opt"
  obtains c where "analyze_config opt = Some c" "config_ok c"
proof -
  have "reassembly_depth opt * 1048576 \<le> isize_max" "reassembly_memcap opt * 1048576 \<le> u64_max" "isize_max \<le> u64_max"
    using assms by (simp_all add: options_ok_def isize_max_def u64_max_def)
  then show ?thesis using assms that
    by (auto simp: analyze_config_def options_ok_def config_ok_def mul64_def reassembly_config_default_def Let_def u64_max_def)
qed


section \<open>The engine and the dispatcher\<close>

context dispatched_clients
begin

lemma dispatcher_client: "stream_client (dispatcher_handler ops) ok"
  by (rule dispatcher.stream_client_axioms)

end

abbreviation main_slots where
  "main_slots Ih It \<equiv> slots_ok Ih It modbus_ok dnp3_ok enip_ok iec104_ok"

lemma main_client:
  assumes "web_ok web opt Ih It"
  shows "stream_client (main_handler web) (main_slots Ih It)"
  unfolding main_ops_def
  by (rule dispatched_clients.dispatcher_client)
     (use assms in \<open>auto simp: web_ok_def client_ok_def intro!: dispatched_clients.intro
        modbus.stream_client_axioms dnp3.stream_client_axioms enip.stream_client_axioms iec104.stream_client_axioms\<close>)

lemma slot_if_ok: "(b \<Longrightarrow> I n a) \<Longrightarrow> slot_ok I n (slot_if b a)"
  by (simp add: slot_if_def)

lemma dispatcher_start_ok:
  assumes "web_ok web opt Ih It" "n < 2 ^ 35"
  shows "main_slots Ih It n (analyze_dispatcher web seeds opt)"
proof -
  have n: "n \<le> u64_max" using assms(2) by (simp add: u64_max_def)
  show ?thesis using assms n unfolding analyze_dispatcher_def slots_ok_def
    by (auto simp: with_coverage_gaps_def dispatcher_new_def web_ok_def client_ok_def
        intro!: slot_if_ok modbus_new_ok dnp3_new_ok enip_new_ok iec104_new_ok)
qed

lemma replay_gaps_of:
  "replay (dispatcher_handler A) es d = Some d' \<Longrightarrow> gaps_of TcpProto (sd_unclassified_port_counts d) \<Longrightarrow> gaps_of TcpProto (sd_unclassified_port_counts d')"
proof (induction es arbitrary: d)
  case (Cons e es)
  then obtain d1 where d1: "handle_event (dispatcher_handler A) e d = Some d1" "replay (dispatcher_handler A) es d1 = Some d'"
    by (auto split: bind_splits)
  have "gaps_of TcpProto (sd_unclassified_port_counts d1)"
    using d1(1) dispatcher_gaps_of [OF Cons.prems(2)] by (cases e) (simp_all add: dispatcher_handler_def)
  then show ?case using Cons.IH d1(2) by blast
qed simp

definition engine_done :: "(nat \<Rightarrow> 'h \<Rightarrow> bool) \<Rightarrow> (nat \<Rightarrow> 't \<Rightarrow> bool) \<Rightarrow> nat \<Rightarrow> reassembler option \<times> ('h, 't) main_dispatcher \<Rightarrow> bool" where
  "engine_done Ih It n rd \<longleftrightarrow>
     main_slots Ih It 0 (snd rd) \<and> gaps_of TcpProto (sd_unclassified_port_counts (snd rd)) \<and> (\<forall>r. fst rd = Some r \<longrightarrow> ended r \<le> n \<and> ra_flows r = [])"

lemma engine_new_ended: "reassembler_new seed c = Some r \<Longrightarrow> ended r = 0"
  by (auto simp: reassembler_new_def ended_def reassembly_stats_default_def split: if_splits)

lemma engine_run:
  assumes opt: "options_ok opt" and web: "web_ok web opt Ih It" and ps: "capture_ok ps" "capture_bytes ps < 2 ^ 35"
  shows "engine_runs web seeds opt ps"
    and "engine_seen web seeds opt ps rd \<Longrightarrow> \<exists>rd'. finish_reassembly (main_handler web) rd = Some rd' \<and> engine_done Ih It (length ps) rd'"
proof -
  let ?d = "analyze_dispatcher web seeds opt"
  have gaps: "gaps_of TcpProto (sd_unclassified_port_counts ?d)"
    by (simp add: analyze_dispatcher_def with_coverage_gaps_def dispatcher_new_def gaps_of_def)
  obtain c where c: "analyze_config opt = Some c" "config_ok c" by (rule analyze_config_ok [OF opt])
  obtain r0 r1 d1 r2 d2 es where run: "reassembler_new (flow_seed seeds) c = Some r0"
      "process_packets (main_handler web) ps (r0, ?d) = Some (r1, d1)" "finalize (main_handler web) (r1, d1) = Some (r2, d2)"
      and fin: "ra_flows r2 = []" "replay (main_handler web) es ?d = Some d2" "main_slots Ih It 0 d2"
    by (rule stream_client.run_safe [OF main_client [OF web] c(2) ps(1) dispatcher_start_ok [OF web ps(2)], of "flow_seed seeds"])
  have r: "analyze_reassembler seeds opt = Some (if needs_reassembly opt \<and> \<not> no_reassemble opt then Some r0 else None)"
    using c run(1) by (simp add: analyze_reassembler_def)
  show "engine_runs web seeds opt ps" using r run(2) by (auto simp: engine_runs_def split: if_splits)
  have "ended r2 \<le> length ps"
    using process_packets_ended [OF run(2)] finalize_ended [OF run(3)] engine_new_ended [OF run(1)] by simp
  then have over: "engine_done Ih It (length ps) (Some r2, d2)"
    using fin replay_gaps_of [OF fin(2) gaps] by (simp add: engine_done_def)
  have start: "engine_done Ih It (length ps) (None, ?d)"
    using gaps dispatcher_start_ok [OF web, of 0] by (simp add: engine_done_def)
  assume "engine_seen web seeds opt ps rd"
  then show "\<exists>rd'. finish_reassembly (main_handler web) rd = Some rd' \<and> engine_done Ih It (length ps) rd'"
    using r run(2,3) over start by (cases rd) (auto simp: engine_seen_def finish_reassembly_def split: if_splits)
qed

section \<open>The report\<close>

lemma optional_total: "(\<And>x. v = Some x \<Longrightarrow> f x \<noteq> None) \<Longrightarrow> \<exists>l. optional v f = Some l"
  by (cases v) (auto simp: optional_def)

lemma summaries_total:
  assumes web: "web_ok web opt Ih It" and over: "engine_done Ih It n (an_reassembler st, an_dispatcher st)" and n: "n \<le> u64_max"
    and dns: "dn_query_count (an_dns st) + dn_response_count (an_dns st) \<le> u64_max"
  shows "\<exists>l. analyzer_summaries web opt st = Some l"
proof -
  let ?d = "an_dispatcher st"
  have s: "slot_ok Ih 0 (sd_http ?d)" "slot_ok It 0 (sd_tls ?d)" "slot_ok dnp3_ok 0 (sd_dnp3 ?d)" "slot_ok iec104_ok 0 (sd_iec104 ?d)"
    using over by (simp_all add: engine_done_def slots_ok_def)
  have "reassembly_summary (sd_unclassified_flows ?d) r \<noteq> None" if "an_reassembler st = Some r" for r
  proof -
    have "ended r \<le> u64_max" using over n that by (simp add: engine_done_def)
    then obtain s where "reassembler_summarize r = Some s" using summarize_total by blast
    then show ?thesis by (simp add: reassembly_summary_def)
  qed
  then obtain l1 where l1: "optional (an_reassembler st) (reassembly_summary (sd_unclassified_flows ?d)) = Some l1"
    using optional_total by blast
  obtain l2 where l2: "optional (slot_if (enable_dns opt) (an_dns st)) dns_summarize = Some l2"
    using dns by (atomize_elim, auto intro!: optional_total simp: slot_if_def dns_summarize_def split: if_splits)
  obtain l3 l4 where l34: "optional (sd_http ?d) (http_summarize web) = Some l3" "optional (sd_tls ?d) (tls_summarize web) = Some l4"
    using web s(1,2) by (atomize_elim, auto intro!: optional_total simp: web_ok_def client_ok_def)
  obtain l5 l6 where l56: "optional (sd_dnp3 ?d) dnp3_summarize = Some l5" "optional (sd_iec104 ?d) iec104_summarize = Some l6"
    using s(3,4) dnp3_summarize_total iec104_summarize_total by (atomize_elim, fastforce intro!: optional_total)
  have "\<exists>l. optional (sd_modbus ?d) (\<lambda>a. Some (modbus_summarize a)) = Some l" "\<exists>l. optional (sd_enip ?d) (\<lambda>a. Some (enip_summarize a)) = Some l"
    by (rule optional_total, simp)+
  then show ?thesis
    using l1 l2 l34 l56
    by (auto simp: analyzer_summaries_def take_modbus_analyzer_def take_dnp3_analyzer_def take_enip_analyzer_def take_iec104_analyzer_def)
qed

definition report_of :: "slicers \<Rightarrow> link_frame list \<Rightarrow> analyze_report \<Rightarrow> bool" where
  "report_of S xs rep \<longleftrightarrow>
     ingested (map fst (ip_frames S xs)) ((rep_summary rep)\<lparr>cs_skipped_packets := 0\<rparr>) \<and> cs_skipped_packets (rep_summary rep) = undecoded S xs"

lemma finish_total:
  assumes opt: "options_ok opt" and web: "web_ok web opt Ih It" and ps: "capture_ok (ip_frames S xs)" "capture_bytes (ip_frames S xs) < 2 ^ 35"
    and st: "run_seen S web seeds opt xs st"
  shows "\<exists>rep. analyze_finish web seeds opt (st, b) = Some rep \<and> report_of S xs rep \<and> rep_any_error rep = b \<and>
    (rep_gaps rep \<noteq> None \<longleftrightarrow> coverage_gaps opt)"
proof -
  have e: "engine_seen web seeds opt (ip_frames S xs) (an_reassembler st, an_dispatcher st)" and n: "length (ip_frames S xs) \<le> u64_max"
    and dns: "dn_query_count (an_dns st) + dn_response_count (an_dns st) \<le> length (ip_frames S xs)" and udp: "gaps_of UdpProto (an_udp_gaps st)"
    using st ps(1) by (simp_all add: run_seen_def capture_ok_def)
  obtain r d where rd: "finish_reassembly (main_handler web) (an_reassembler st, an_dispatcher st) = Some (r, d)"
    and over: "engine_done Ih It (length (ip_frames S xs)) (r, d)"
    using engine_run(2) [OF opt web ps e] by auto
  obtain l where l: "analyzer_summaries web opt (st\<lparr>an_reassembler := r, an_dispatcher := d\<rparr>) = Some l"
    using summaries_total [OF web _ n, of "st\<lparr>an_reassembler := r, an_dispatcher := d\<rparr>"] over dns n by auto
  obtain all where "collect_all_gaps (tcp_gap_seed seeds) (udp_gap_seed seeds) (sd_unclassified_port_counts d) (an_udp_gaps st) = Some all"
    using collect_exact [OF _ udp, of "sd_unclassified_port_counts d" "tcp_gap_seed seeds" "udp_gap_seed seeds"] over by (auto simp: engine_done_def)
  moreover have "ingested (map fst (ip_frames S xs)) ((an_summary st)\<lparr>cs_skipped_packets := 0\<rparr>)" "an_decode_errors st = undecoded S xs"
    using st by (simp_all add: run_seen_def ingested_def)
  ultimately show ?thesis using rd l by (auto simp: analyze_finish_def report_of_def)
qed

lemma analyze_returns:
  assumes "slicers_ok S" and "slices_within S" and "crate_ok P" and "web_ok web opt Ih It" and "options_ok opt"
    and "run_fits (file_frames P (fst (target_files targets)))"
  shows "\<exists>rep. run_analyze P S web seeds opt targets = Some (case snd (target_files targets) of Some e \<Rightarrow> Inl e | None \<Rightarrow> Inr rep) \<and>
     report_of S (file_frames P (fst (target_files targets))) rep \<and>
     rep_any_error rep = unreadable P (fst (target_files targets)) \<and> (rep_gaps rep \<noteq> None \<longleftrightarrow> coverage_gaps opt)"
proof -
  let ?files = "fst (target_files targets)"
  let ?xs = "file_frames P ?files"
  note fits = capture_fits [OF assms(1,2,6)]
  obtain c where c: "analyze_config opt = Some c" "config_ok c" by (rule analyze_config_ok [OF assms(5)])
  obtain ro where ro: "analyze_reassembler seeds opt = Some ro"
    using c by (atomize_elim, auto simp: analyze_reassembler_def reassembler_new_def config_ok_def)
  then obtain st where st: "analyze_start web seeds opt = Some st" and "run_seen S web seeds opt [] st"
    by (auto simp: analyze_start_def run_seen_def arp_new_ok ingested_new dns_analyzer_new_def gaps_of_def engine_seen_def split: option.splits)
  then obtain st' where st': "fold_frames S web opt ?xs st = Some st'" "run_seen S web seeds opt ?xs st'"
    using seen_fold [OF assms(1), of web seeds opt "[]" st ?xs] engine_run(1) [OF assms(5,4) fits(1,2)] assms(6) fits(3)
      run_fits_short [OF assms(6)] by (auto simp: run_fits_def)
  obtain rep where rep: "analyze_finish web seeds opt (st', unreadable P ?files) = Some rep" "report_of S ?xs rep"
      "rep_any_error rep = unreadable P ?files" "rep_gaps rep \<noteq> None \<longleftrightarrow> coverage_gaps opt"
    using finish_total [OF assms(5,4) fits(1,2) st'(2)] by blast
  have "analyze_targets P S web opt targets (st, False) =
      Some (case snd (target_files targets) of Some e \<Rightarrow> Inl e | None \<Rightarrow> Inr (st', unreadable P ?files))"
    using analyze_targets_fold [of targets P S web opt st False] from_file_total [OF assms(3)] st'(1) by (auto split: option.splits)
  then have "run_analyze P S web seeds opt targets = Some (case snd (target_files targets) of Some e \<Rightarrow> Inl e | None \<Rightarrow> Inr rep)"
    using st rep(1) assms(5) by (cases "snd (target_files targets)") (simp_all add: run_analyze_def options_ok_def)
  then show ?thesis using rep(2-4) by blast
qed

text \<open>C37. The command \<open>analyze\<close> without its HTTP and TLS analyzers never panics, from the options to the report
  that is handed to the reporters: for every list of targets, every content of the files and directories behind them and every
  combination of the other options whose thresholds are not zero and whose sizes in bytes fit a word, it returns the error
  of the first target that cannot be resolved or a report. The report counts each decoded packet of each
  readable file once, whatever becomes of the files around it, with its bytes, hosts, protocols and services; every
  frame that does not decode, malformed ARP apart, is counted as skipped; and the exit status records whether some file was unreadable.
  The two analyzers that are not enabled are never called, so that nothing is asked of them.\<close>

theorem analyze_never_panics:
  assumes "slicers_ok S" and "slices_within S" and "crate_ok P" and "\<not> enable_http opt" and "\<not> enable_tls opt" and "options_ok opt"
    and "run_fits (file_frames P (fst (target_files targets)))"
  shows "\<exists>rep. run_analyze P S web seeds opt targets = Some (case snd (target_files targets) of Some e \<Rightarrow> Inl e | None \<Rightarrow> Inr rep) \<and>
     report_of S (file_frames P (fst (target_files targets))) rep \<and>
     rep_any_error rep = unreadable P (fst (target_files targets)) \<and> (rep_gaps rep \<noteq> None \<longleftrightarrow> coverage_gaps opt)"
  by (rule analyze_returns [OF assms(1-3) disabled_web_ok [OF assms(4,5)] assms(6,7)])

section \<open>Witness\<close>

definition demo_options :: analyze_options where
  "demo_options =
     \<lparr>enable_dns = True, enable_http = False, enable_tls = False, enable_modbus = True, modbus_write_burst_threshold = 20,
      modbus_write_sustained_threshold = 10, enable_dnp3 = True, dnp3_direct_operate_threshold = 10, enable_arp = True,
      arp_spoof_threshold = 3, arp_storm_rate = 50, enable_enip = True, enip_write_burst_threshold = 50,
      enip_error_burst_threshold = 10, enable_iec104 = True, coverage_gaps = True, no_reassemble = False, reassemble = False,
      reassembly_depth = 10, reassembly_memcap = 1024, overlap_threshold = None, small_segment_threshold = None,
      small_segment_max_bytes = None, small_segment_ignore_ports = None, out_of_window_threshold = None, flow_timeout = 300\<rparr>"

text \<open>Web analyzers that panic whenever they are called.\<close>

definition demo_web :: "(unit, unit) web_analyzers" where
  "demo_web =
     (let H = \<lparr>on_data = (\<lambda>h key dir data off ts. None), on_flow_close = (\<lambda>h key reason. None)\<rparr>
      in \<lparr>web_http = H, http_analyzer_new = (), http_findings = (\<lambda>_. []), http_summarize = (\<lambda>_. None),
          web_tls = H, tls_analyzer_new = (), tls_findings = (\<lambda>_. []), tls_summarize = (\<lambda>_. None)\<rparr>)"

definition demo_seeds :: hash_seeds where
  "demo_seeds =
     \<lparr>flow_seed = (\<lambda>_ _. 0), binding_seed = (\<lambda>_ _. 0), storm_seed = (\<lambda>_ _. 0), dnp3_seed = (\<lambda>_ _. 0), enip_seed = (\<lambda>_ _. 0),
      tcp_gap_seed = (\<lambda>_ _. 0), udp_gap_seed = (\<lambda>_ _. 0)\<rparr>"

definition demo_file :: file_source where
  "demo_file = \<lparr>file_stream = Some [Chunk [0x0A, 0x0D, 0x0D, 0x0A, 0, 0, 0]], file_size = Some 7\<rparr>"

lemma demo_contracts:
  "slices_within sample_slicers" "crate_ok demo_crate" "\<not> enable_http demo_options" "\<not> enable_tls demo_options" "options_ok demo_options"
proof -
  show "slices_within sample_slicers"
    by (auto simp: slices_within_def sample_slicers_def sample_slicer_def tagged_lax_def no_lax_def body_len_def Let_def split: if_splits)
  have "next_raw_packet demo_crate c = None" for c by (simp add: demo_crate_def)
  then show "crate_ok demo_crate" using demo_short by (simp add: crate_ok_def pcap_packets.simps)
  show "\<not> enable_http demo_options" "\<not> enable_tls demo_options" "options_ok demo_options" by (simp_all add: options_ok_def demo_options_def)
qed

abbreviation demo_targets :: "target list" where
  "demo_targets \<equiv> [RegularFile demo_file, RegularFile \<lparr>file_stream = None, file_size = None\<rparr>]"

lemma demo_frames:
  "snd (target_files demo_targets) = None" "file_frames demo_crate (fst (target_files demo_targets)) = [(ETHERNET, demo_packet)]"
  "unreadable demo_crate (fst (target_files demo_targets))" "run_fits [(ETHERNET, demo_packet)]"
  "undecoded sample_slicers [(ETHERNET, demo_packet)] = 1"
proof -
  let ?bad = "\<lparr>file_stream = None, file_size = None\<rparr>"
  have t: "target_files demo_targets = ([demo_file, ?bad], None)" by (simp add: resolve_targets_def)
  have f: "from_file demo_crate demo_file = Some (Inr demo_source)" "from_file demo_crate ?bad = Some (Inl OpenFailed)"
    using demo_read by (simp_all add: from_file_def from_pcap_reader_def byte_slice_def PCAPNG_MAGIC_def MAX_PCAPNG_FILE_BYTES_def demo_file_def)
  show "snd (target_files demo_targets) = None" "file_frames demo_crate (fst (target_files demo_targets)) = [(ETHERNET, demo_packet)]"
    "unreadable demo_crate (fst (target_files demo_targets))"
    unfolding t using f by (auto simp: file_frames_def unreadable_def demo_source_def)
  show "undecoded sample_slicers [(ETHERNET, demo_packet)] = 1"
    by (simp add: undecoded_def decoded_def demo_packet_def decode_packet_def strict_slice_def sample_slicers_def sample_slicer_def lax_parse_def
        decode_lax_def tagged_lax_def no_lax_def malformed_arp_header_def arp_offset_def add64_def u64_max_def byte_slice_def)
  show "run_fits [(ETHERNET, demo_packet)]" by (simp add: run_fits_def demo_packet_def u64_max_def)
qed

text \<open>The damaged file is recorded, and the frame of the other, too short for any layer, counted.\<close>

theorem analyze_never_panics_witness:
  "\<exists>rep. run_analyze demo_crate sample_slicers demo_web demo_seeds demo_options demo_targets = Some (Inr rep) \<and>
     cs_skipped_packets (rep_summary rep) = 1 \<and> rep_any_error rep"
  using analyze_never_panics [OF sample_slicers_ok demo_contracts, of demo_targets demo_web demo_seeds, unfolded demo_frames(1,2), OF demo_frames(4)]
    demo_frames(3,5) by (auto simp: report_of_def)

section \<open>Sizes\<close>

text \<open>The two sizes are given in units of a mebibyte and multiplied without a check: a value of \<open>2\<^sup>4\<^sup>4\<close> or more for
  either, which the command line accepts, makes \<open>analyze\<close> panic before it has read a target.\<close>

theorem analyze_size_overflow:
  assumes "modbus_write_burst_threshold opt \<noteq> 0" and "modbus_write_sustained_threshold opt \<noteq> 0" and "arp_storm_rate opt \<noteq> 0"
    and "arp_spoof_threshold opt \<noteq> 0" and "needs_reassembly opt" and "\<not> no_reassemble opt"
    and "2 ^ 44 \<le> reassembly_depth opt \<or> 2 ^ 44 \<le> reassembly_memcap opt"
  shows "run_analyze P S web seeds opt targets = None"
proof -
  have "analyze_config opt = None" using assms(7) by (auto simp: analyze_config_def mul64_def u64_max_def)
  then show ?thesis using assms(1-6) by (simp add: run_analyze_def analyze_start_def analyze_reassembler_def)
qed

theorem analyze_size_overflow_witness:
  "run_analyze demo_crate sample_slicers demo_web demo_seeds (demo_options\<lparr>reassembly_depth := 17592186044416\<rparr>) [RegularFile demo_file] = None"
  by (rule analyze_size_overflow) (simp_all add: demo_options_def needs_reassembly_def)

section \<open>The two commands\<close>

text \<open>\<open>summary\<close> keeps the totals of \<open>analyze\<close>, and counts at least as many frames as skipped.\<close>

definition totals_of :: "('h, 't) analyze_state \<Rightarrow> capture_summary \<times> u64 \<Rightarrow> bool" where
  "totals_of st se \<longleftrightarrow> fst se = an_summary st \<and> an_decode_errors st \<le> snd se \<and> snd se \<le> u64_max"

lemma ip_totals: "analyze_ip web opt p ts st = Some st' \<Longrightarrow> ingest (an_summary st) p = Some (an_summary st') \<and> an_decode_errors st' = an_decode_errors st"
  by (auto simp: analyze_ip_def Let_def split: bind_splits prod.splits)

lemma arp_totals: "analyze_arp opt f ts st = Some st' \<Longrightarrow> an_summary st' = an_summary st \<and> an_decode_errors st' = an_decode_errors st"
  by (auto simp: analyze_arp_def split: bind_splits if_splits)

lemma undecoded_totals: "totals_of st (s, n) \<Longrightarrow> totals_of (analyze_undecoded opt e len st) (s, sat_add64 n 1)"
  by (auto simp: totals_of_def analyze_undecoded_def sat_add64_def Let_def split: prod.splits)

lemma summary_packets_agree:
  assumes "analyze_packets S web opt link raws st = Some st'" "totals_of st se"
  shows "\<exists>se'. summary_packets S link raws se = Some se' \<and> totals_of st' se'"
  using assms
proof (induction raws arbitrary: st se)
  case (Cons raw raws)
  obtain s n where se: "se = (s, n)" by fastforce
  obtain r st1 where r: "decode_packet S (pkt_data raw) link = Some r" "analyze_packet S web opt link raw st = Some st1"
      and rest: "analyze_packets S web opt link raws st1 = Some st'"
    using Cons.prems(1) by (auto simp: analyze_packet_def split: bind_splits)
  consider e where "r = Inl e" | p where "r = Inr (IpFrame p)" | f where "r = Inr (ArpFrame f)"
    by (metis sum.exhaust decoded_frame.exhaust)
  then show ?case
  proof cases
    case 1
    have "totals_of st1 (s, sat_add64 n 1)" using r 1 undecoded_totals [OF Cons.prems(2) [unfolded se]] by (auto simp: analyze_packet_def)
    from Cons.IH [OF rest this] show ?thesis using r(1) 1 se by simp
  next
    case 2
    then have "ingest s p = Some (an_summary st1)" "totals_of st1 (an_summary st1, n)"
      using r ip_totals [of web opt p "timestamp_secs raw" st st1] Cons.prems(2) se by (auto simp: analyze_packet_def totals_of_def)
    then show ?thesis using Cons.IH [OF rest] r(1) 2 se by simp
  next
    case 3
    then have "totals_of st1 (s, n)"
      using r arp_totals [of opt f "timestamp_secs raw" st st1] Cons.prems(2) se by (auto simp: analyze_packet_def totals_of_def)
    then show ?thesis using Cons.IH [OF rest] r(1) 3 se by simp
  qed
qed simp

lemma summary_files_agree:
  assumes "analyze_files P S web opt fs (st, b) = Some (st', b')" "totals_of st se"
  shows "\<exists>se'. summary_files P S fs (se, b) = Some (se', b') \<and> totals_of st' se'"
  using assms
proof (induction fs arbitrary: st se b)
  case (Cons f fs)
  obtain r where r: "from_file P f = Some r" using Cons.prems(1) by (auto split: bind_splits)
  show ?case
  proof (cases r)
    case (Inl e)
    then show ?thesis using Cons.IH [OF _ Cons.prems(2)] Cons.prems(1) r by simp
  next
    case (Inr src)
    show ?thesis
    proof (cases "packets src = []")
      case True
      then show ?thesis using Cons.IH [OF _ Cons.prems(2)] Cons.prems(1) r Inr by simp
    next
      case False
      then obtain st1 where st1: "analyze_packets S web opt (datalink src) (packets src) st = Some st1" "analyze_files P S web opt fs (st1, b) = Some (st', b')"
        using Cons.prems(1) r Inr by (auto split: bind_splits)
      obtain se1 where "summary_packets S (datalink src) (packets src) se = Some se1" "totals_of st1 se1"
        using summary_packets_agree [OF st1(1) Cons.prems(2)] by blast
      then show ?thesis using Cons.IH [OF st1(2)] r Inr False by simp
    qed
  qed
qed simp

lemma summary_targets_agree:
  assumes "analyze_targets P S web opt ts (st, b) = Some (Inr (st', b'))" "totals_of st se"
  shows "\<exists>se'. summary_targets P S ts (se, b) = Some (Inr (se', b')) \<and> totals_of st' se'"
  using assms
proof (induction ts arbitrary: st se b)
  case (Cons t ts)
  obtain fs st1 b1 where t: "resolve_targets t = Inr fs" "analyze_files P S web opt fs (st, b) = Some (st1, b1)"
      "analyze_targets P S web opt ts (st1, b1) = Some (Inr (st', b'))"
    using Cons.prems(1) by (auto split: sum.splits bind_splits)
  obtain se1 where "summary_files P S fs (se, b) = Some (se1, b1)" "totals_of st1 se1"
    using summary_files_agree [OF t(2) Cons.prems(2)] by blast
  then show ?case using Cons.IH [OF t(3)] t(1) by simp
qed simp

text \<open>C38. The two commands agree: whenever \<open>analyze\<close> reports, \<open>summary\<close> over the same targets renders the same totals of packets, bytes,
  hosts, protocols and services and sets the same exit status, whatever options \<open>analyze\<close> was given and whatever its
  analyzers did. It counts at least as many frames as skipped, since it has no separate place for malformed ARP.\<close>

theorem summary_agrees_with_analyze:
  assumes "run_analyze P S web seeds opt targets = Some (Inr rep)"
  shows "\<exists>s. run_summary P S targets = Some (Inr (s, rep_any_error rep)) \<and>
     s\<lparr>cs_skipped_packets := cs_skipped_packets (rep_summary rep)\<rparr> = rep_summary rep \<and> cs_skipped_packets (rep_summary rep) \<le> cs_skipped_packets s"
proof -
  obtain st st' b where st: "analyze_start web seeds opt = Some st" "analyze_targets P S web opt targets (st, False) = Some (Inr (st', b))"
      "analyze_finish web seeds opt (st', b) = Some rep"
    using assms by (auto simp: run_analyze_def split: if_splits bind_splits sum.splits)
  have rep: "rep_summary rep = (an_summary st')\<lparr>cs_skipped_packets := an_decode_errors st'\<rparr>" "rep_any_error rep = b"
    using st(3) by (auto simp: analyze_finish_def Let_def split: bind_splits prod.splits)
  have "totals_of st (capture_summary_new, 0)" using st(1) by (auto simp: analyze_start_def totals_of_def split: bind_splits)
  from summary_targets_agree [OF st(2) this]
  obtain n where "summary_targets P S targets ((capture_summary_new, 0), False) = Some (Inr ((an_summary st', n), b))" "an_decode_errors st' \<le> n"
    by (auto simp: totals_of_def)
  then show ?thesis using rep by (simp add: run_summary_def)
qed

theorem summary_agrees_with_analyze_witness:
  "\<exists>rep s. run_analyze demo_crate sample_slicers demo_web demo_seeds demo_options demo_targets = Some (Inr rep) \<and>
     run_summary demo_crate sample_slicers demo_targets = Some (Inr (s, True)) \<and> 1 \<le> cs_skipped_packets s"
proof -
  obtain rep where rep: "run_analyze demo_crate sample_slicers demo_web demo_seeds demo_options demo_targets = Some (Inr rep)"
      "cs_skipped_packets (rep_summary rep) = 1" "rep_any_error rep"
    using analyze_returns [OF sample_slicers_ok demo_contracts(1,2) disabled_web_ok [OF demo_contracts(3,4)] demo_contracts(5), of demo_targets demo_web demo_seeds, unfolded demo_frames(1,2), OF demo_frames(4)]
      demo_frames(3,5) by (auto simp: report_of_def)
  then show ?thesis using summary_agrees_with_analyze [OF rep(1)] by auto
qed

end
