(* ===== verification/Spec2Isabelle.thy ===== *)
theory Spec2Isabelle
  imports Engine_Props Stream_Delivery Modbus_Props Dispatcher_Props Dnp3_Props Enip_Props Iec104_Props Flow_Scope
    S7comm_Props Arp_Props Decoder_Props Totals Reader_Walk
    Catalog_Props Analyze_Run
begin

text \<open>
  A verification of the stream pipeline of wirerust, a passive analyzer of network captures
  (Rust, under \<open>src/src\<close>).

  \<^bold>\<open>The program.\<close> \<open>main.rs\<close> reads a capture, decodes each packet (\<open>decoder.rs\<close>) and gives it to the
  reassembly engine (\<open>reassembly/\<close>), which keeps a table of TCP flows, orders the payload of each
  direction in a segment buffer, and hands contiguous bytes to a \<open>StreamHandler\<close>. The handler of
  the program is the dispatcher (\<open>dispatcher.rs\<close>): it classifies a flow by its content or ports
  and forwards its data to one analyzer (\<open>analyzer/\<close>), which cuts the stream into protocol frames
  and raises findings (\<open>findings.rs\<close>). At the end of the capture \<open>finalize\<close> closes every flow.

  \<^bold>\<open>Conventions\<close> (\<open>Prelude\<close>, \<open>Containers\<close>). A build with \<open>overflow-checks = true\<close>: a computation that can
  panic has an \<open>option\<close> type, and \<open>None\<close> is the panic. \<open>u8\<close>, \<open>u16\<close> and \<open>u32\<close> are words, \<open>u64\<close> and
  \<open>usize\<close> are \<open>nat\<close> with checked or saturating operations where the source has them. \<open>BTreeMap\<close> is a
  sorted list, \<open>HashMap\<close> a list of entries whose iteration order is taken from an arbitrary seed. The
  texts of findings are the fragments of their templates. The locale \<open>weighted_map\<close> is the
  interface of both containers; its laws carry the byte and memory accounting.

  \<^bold>\<open>The theories.\<close>
  \<^item> \<open>Findings\<close>: \<open>findings.rs\<close>, \<open>reassembly/handler.rs\<close>, the key of \<open>reassembly/flow.rs\<close>, the packet
    type of \<open>decoder.rs\<close>. \<open>Flow\<close>: the rest of \<open>reassembly/flow.rs\<close>.
  \<^item> \<open>Segment\<close>: \<open>reassembly/segment.rs\<close>, \<open>insert_segment\<close> and \<open>flush_contiguous\<close>. \<open>Segment_Gaps\<close>,
    \<open>Segment_Insert\<close> and \<open>Segment_Stream\<close> show that the gaps selected are exactly the uncovered
    bytes, that insertion is first-wins on every byte, and what a flush returns; \<open>Stream_Delivery\<close>
    has the properties of delivery.
  \<^item> \<open>Reassembly\<close>: \<open>reassembly/mod.rs\<close>, \<open>lifecycle.rs\<close>, \<open>config.rs\<close>, \<open>stats.rs\<close>. \<open>Replay\<close> shows that the
    engine does not depend on its handler, so the handler's side is the replay of a list of
    events. \<open>Engine_Inv\<close>, \<open>Engine_Steps\<close> and \<open>Engine_Packet\<close> keep the invariant \<open>engine_ok\<close> of an engine
    and its events through every step; \<open>Engine_Run\<close> states the contract of a handler, the locale
    \<open>stream_client\<close>, and drives any client through whole captures; \<open>Engine_Close\<close> has the events of a close, where
    eviction stops and what a FIN does; \<open>Engine_Props\<close> has the properties of the engine.
  \<^item> \<open>Modbus\<close>: \<open>analyzer/modbus.rs\<close>. \<open>Modbus_Inv\<close> interprets \<open>stream_client\<close> for it, \<open>Modbus_Stream\<close>
    shows that chunks can be joined, \<open>Rate_Alert\<close> is the locale of the three rate detectors,
    \<open>Modbus_Props\<close> has its properties.
  \<^item> \<open>Dispatcher\<close>: \<open>dispatcher.rs\<close>, over arbitrary analyzers. \<open>Dispatcher_Inv\<close> makes a dispatcher of
    clients a client (a sublocale), \<open>Dispatcher_Route\<close> relates it to an automaton per flow,
    \<open>Dispatcher_Props\<close> has its properties.
  \<^item> \<open>Dnp3\<close>: \<open>analyzer/dnp3.rs\<close>. \<open>Dnp3_Inv\<close> pays every unsaturated counter with bytes of the stream and
    interprets \<open>stream_client\<close>, \<open>Dnp3_Props\<close> has its properties: bounds, framing, what is lost above
    the cap of the carry, the scan for unanswered requests.
  \<^item> \<open>Enip\<close>: \<open>analyzer/enip.rs\<close>. \<open>Enip_Inv\<close> has its invariant and the interpretation of \<open>stream_client\<close>,
    \<open>Enip_Props\<close> its properties: bounds, framing under any cut of the stream, the round trip of the
    CIP request through its wire format, which requests raise which finding.
  \<^item> \<open>Iec104\<close>: \<open>analyzer/iec104.rs\<close>. \<open>Iec104_Inv\<close> has its invariant, the interpretation of
    \<open>stream_client\<close> and the independence of chunking, \<open>Iec104_Props\<close> its properties.
  \<^item> \<open>Iso_On_Tcp\<close>, \<open>S7comm\<close>: \<open>analyzer/iso_on_tcp.rs\<close> and \<open>analyzer/s7comm.rs\<close>, an analyzer that is not yet registered
    with the dispatcher. \<open>S7comm_Props\<close> reduces it to the list of payloads its deliveries complete.
  \<^item> \<open>Reader\<close>: \<open>reader.rs\<close> over arbitrary parsers of the crate for capture files. \<open>Reader_Props\<close> has timestamps, interface options
    and packet blocks, \<open>Reader_Walk\<close> the walk over the blocks: it ends, what it returns, against which interface table, and that it can be decoded.
  \<^item> \<open>Decoder\<close>: \<open>decoder.rs\<close> over arbitrary slicers; \<open>Decoder_Props\<close> has its properties. \<open>Totals\<close>: \<open>summary.rs\<close> and
    \<open>analyzer/dns.rs\<close>.
  \<^item> \<open>Arp\<close>: \<open>analyzer/arp.rs\<close>. \<open>Arp_Inv\<close> has its invariant and the effect of a frame as total functions,
    \<open>Arp_Props\<close> its properties over sequences of frames; the detector of rebinds is one more \<open>rate_alert\<close>.
  \<^item> \<open>Catalog\<close>: \<open>protocols.rs\<close> and the gap report of \<open>main.rs\<close>; \<open>Catalog_Props\<close> has its properties.
  \<^item> \<open>Analyze\<close>: the commands \<open>analyze\<close> and \<open>summary\<close> of \<open>main.rs\<close>, over the parameters of the reader and the decoder and over the
    HTTP and TLS analyzers. \<open>Analyze_Props\<close> makes the loop over targets, files and packets a fold over frames, \<open>Engine_Counts\<close>
    bounds the sum in the summary of the engine, and \<open>Analyze_Run\<close> composes all components: the command returns, up to the report it hands to the reporters, what that
    counts, and that the two commands agree.
  \<^item> \<open>Flow_Scope\<close>: the locale of analyzers that keep state per flow, and that the dispatcher closes a
    flow where its state is. This theory composes engine, dispatcher and analyzers.

  \<^bold>\<open>Bounds.\<close> Loops are recursive functions with termination proofs; there is no fuel. The two loops whose end depends on the crate
  for capture files are partial functions, and the walk over pcapng blocks is proved to return. \<open>capture_ok\<close> asks
  for payloads within \<open>isize::MAX\<close> and totals within a \<open>u64\<close>. The Modbus analyzer counts exceptions per
  window in a \<open>u32\<close> without saturation, and a PDU takes eight bytes, so its contract is for
  captures of fewer than \<open>2\<^sup>3\<^sup>5\<close> bytes; the invariant of a client is indexed by the number of bytes
  it can still take.

  \<^bold>\<open>Not modelled.\<close> The parsers of capture files and of link, IP and TCP headers are crates, parameters of the
  reader and the decoder; HTTP and TLS rest on \<open>httparse\<close> and \<open>tls-parser\<close>; the dispatcher is proved over any handlers in
  their slots, and \<open>analyze\<close> is proved to return when HTTP and TLS are not enabled, in which case their code is never called. Rendering of findings by the reporters, the JSON form of the gap
  report, the parsing of the command line, progress bars and warnings on standard error, writing the output, Kani harnesses and
  tests are left out.
\<close>

section \<open>The pipeline\<close>

text \<open>The analyzers of the pipeline: Modbus, DNP3, EtherNet/IP and IEC-104, and any handlers in the slots that are left empty.
  A slot that is not configured is never called, so it keeps any contract.\<close>

abbreviation absent :: "nat \<Rightarrow> 'a \<Rightarrow> bool" where
  "absent \<equiv> \<lambda>_ _. False"

definition pipeline_ops ::
  "'h stream_handler \<Rightarrow> 't stream_handler \<Rightarrow>
   ('h, 't, modbus_analyzer, dnp3_analyzer, enip_analyzer, iec104_analyzer) analyzers"
where
  "pipeline_ops Hh Ht =
     \<lparr>http_ops = Hh, tls_ops = Ht, modbus_ops = modbus_handler, dnp3_ops = dnp3_handler, enip_ops = enip_handler, iec104_ops = iec104_handler\<rparr>"

definition pipeline_new ::
  "u32 \<Rightarrow> u32 \<Rightarrow> (u16 \<times> u8) hash_seed \<Rightarrow> u32 \<Rightarrow> u8 hash_seed \<Rightarrow> u32 \<Rightarrow> u32 \<Rightarrow>
   ('h, 't, modbus_analyzer, dnp3_analyzer, enip_analyzer, iec104_analyzer) dispatcher"
where
  "pipeline_new burst sustained order direct eorder writes errors =
     dispatcher_new None None (Some (modbus_analyzer_new burst sustained)) (Some (dnp3_analyzer_new order direct))
       (Some (enip_analyzer_new eorder writes errors)) (Some iec104_analyzer_new)"

interpretation pipeline: dispatched_clients Hh absent Ht absent modbus_handler modbus_ok dnp3_handler dnp3_ok enip_handler enip_ok iec104_handler iec104_ok
  for Hh :: "'h stream_handler" and Ht :: "'t stream_handler"
  by unfold_locales simp_all

interpretation scope: scoped_clients Hh "\<lambda>_ _. False" Ht "\<lambda>_ _. False" modbus_handler modbus_holds dnp3_handler dnp3_holds
    enip_handler enip_holds iec104_handler iec104_holds
  for Hh :: "'h stream_handler" and Ht :: "'t stream_handler"
  by unfold_locales simp_all

lemma pipeline_new_ok:
  assumes "n < 2 ^ 35"
  shows "slots_ok absent absent modbus_ok dnp3_ok enip_ok iec104_ok n (pipeline_new burst sustained order direct eorder writes errors)"
  using modbus_new_ok [OF assms] iec104_new_ok [of n] dnp3_new_ok [of n] enip_new_ok [of n] assms
  by (simp add: pipeline_new_def dispatcher_new_def slots_ok_def u64_max_def)

text \<open>The whole pipeline, engine, dispatcher, Modbus, DNP3, EtherNet/IP and IEC-104 analyzers: no capture of fewer
  than 32 GiB of payload makes it panic, in any packet or at the end of the capture.\<close>

theorem pipeline_never_panics:
  assumes "config_ok c" and "capture_ok ps" and "capture_bytes ps < 2 ^ 35"
  shows "\<exists>r r1 d1 r2 d2. reassembler_new seed c = Some r \<and>
     process_packets (dispatcher_handler (pipeline_ops Hh Ht)) ps (r, pipeline_new burst sustained order direct eorder writes errors) = Some (r1, d1) \<and>
     finalize (dispatcher_handler (pipeline_ops Hh Ht)) (r1, d1) = Some (r2, d2)"
  unfolding pipeline_ops_def
  by (rule pipeline.dispatcher.run_safe [OF assms(1,2) pipeline_new_ok [OF assms(3)], of seed Hh Ht]) blast

definition idle :: "unit stream_handler" where
  "idle = \<lparr>on_data = (\<lambda>h key dir data off ts. Some h), on_flow_close = (\<lambda>h key reason. Some h)\<rparr>"

lemma sample_capture_bytes: "capture_bytes sample_capture = 2"
  by (simp add: sample_capture_def sample_packet_def capture_bytes_def)

theorem pipeline_never_panics_witness:
  "\<exists>r r1 d1 r2 d2. reassembler_new (\<lambda>_ _. 0) sample_config = Some r \<and>
     process_packets (dispatcher_handler (pipeline_ops idle idle)) sample_capture (r, pipeline_new 20 10 (\<lambda>_ _. 0) 10 (\<lambda>_ _. 0) 50 10) = Some (r1, d1) \<and>
     finalize (dispatcher_handler (pipeline_ops idle idle)) (r1, d1) = Some (r2, d2)"
  by (rule pipeline_never_panics [OF sample_config_ok sample_capture_ok]) (simp add: sample_capture_bytes)

text \<open>C15. Nothing the pipeline keeps about a flow outlives the capture: after \<open>finalize\<close> the engine has
  no flow, the dispatcher neither a route nor an attempt counter for any flow, and the
  analyzers no flow state, so no carry buffer or pending table is leaked on any path by
  which a flow can end.\<close>

theorem finalize_leaves_no_flow_state:
  fixes Hh :: "'h stream_handler" and Ht :: "'t stream_handler"
  assumes "config_ok c" and "capture_ok ps" and "capture_bytes ps < 2 ^ 35"
  shows "\<exists>r r1 d1 r2 d2. reassembler_new seed c = Some r \<and>
     process_packets (dispatcher_handler (pipeline_ops Hh Ht)) ps (r, pipeline_new burst sustained order direct eorder writes errors) = Some (r1, d1) \<and>
     finalize (dispatcher_handler (pipeline_ops Hh Ht)) (r1, d1) = Some (r2, d2) \<and>
     ra_flows r2 = [] \<and> (\<forall>k. \<not> tracked k d2) \<and>
     (\<forall>m. sd_modbus d2 = Some m \<longrightarrow> ma_flows m = []) \<and> (\<forall>a. sd_dnp3 d2 = Some a \<longrightarrow> da_flows a = []) \<and> (\<forall>a. sd_enip d2 = Some a \<longrightarrow> ea_flows a = []) \<and>
     (\<forall>a. sd_iec104 d2 = Some a \<longrightarrow> ia_flows a = [])"
proof -
  let ?d = "pipeline_new burst sustained order direct eorder writes errors :: ('h, 't, modbus_analyzer, dnp3_analyzer, enip_analyzer, iec104_analyzer) dispatcher"
  obtain r r1 d1 r2 d2 es where run: "reassembler_new seed c = Some r"
      "process_packets (dispatcher_handler (pipeline_ops Hh Ht)) ps (r, ?d) = Some (r1, d1)"
      "finalize (dispatcher_handler (pipeline_ops Hh Ht)) (r1, d1) = Some (r2, d2)"
      and ok: "engine_ok r2 es" "ra_flows r2 = []"
      and rp: "replay (dispatcher_handler (pipeline_ops Hh Ht)) es ?d = Some d2"
    unfolding pipeline_ops_def
    by (rule pipeline.dispatcher.run_safe [OF assms(1,2) pipeline_new_ok [OF assms(3)], of seed Hh Ht])
  have t: "\<not> tracked k ?d" for k by (simp add: pipeline_new_def dispatcher_new_def tracked_def)
  have h: "scope.held_by t ?d k = False" for t k
    by (cases t) (simp_all add: pipeline_new_def dispatcher_new_def modbus_holds_def dnp3_holds_def enip_holds_def iec104_holds_def
        modbus_analyzer_new_def dnp3_analyzer_new_def enip_analyzer_new_def iec104_analyzer_new_def)
  then have "scope.confined ?d" by (simp add: scope.confined_def)
  note n = scope.closed_leaves_nothing [OF rp [unfolded pipeline_ops_def] ok t this]
  have "ma_flows m = []" if "sd_modbus d2 = Some m" for m
    using n(2) [of ToModbus] that by (intro hm_empty) (simp add: modbus_holds_def)
  moreover have "ia_flows a = []" if "sd_iec104 d2 = Some a" for a
    using n(2) [of ToIec104] that by (intro hm_empty) (simp add: iec104_holds_def)
  moreover have "da_flows a = []" if "sd_dnp3 d2 = Some a" for a
    using n(2) [of ToDnp3] that by (intro hm_empty) (simp add: dnp3_holds_def)
  moreover have "ea_flows a = []" if "sd_enip d2 = Some a" for a
    using n(2) [of ToEnip] that by (intro hm_empty) (simp add: enip_holds_def)
  ultimately show ?thesis using run ok(2) n(1) by blast
qed

theorem finalize_leaves_no_flow_state_witness:
  "\<exists>r r1 d1 r2 d2. reassembler_new (\<lambda>_ _. 0) sample_config = Some r \<and>
     process_packets (dispatcher_handler (pipeline_ops idle idle)) sample_capture (r, pipeline_new 20 10 (\<lambda>_ _. 0) 10 (\<lambda>_ _. 0) 50 10) = Some (r1, d1) \<and>
     finalize (dispatcher_handler (pipeline_ops idle idle)) (r1, d1) = Some (r2, d2) \<and>
     ra_flows r2 = [] \<and> (\<forall>k. \<not> tracked k d2)"
proof -
  have "capture_bytes sample_capture < 2 ^ 35" by (simp add: sample_capture_bytes)
  from finalize_leaves_no_flow_state [OF sample_config_ok sample_capture_ok this, of "\<lambda>_ _. 0" idle idle 20 10 "\<lambda>_ _. 0" 10 "\<lambda>_ _. 0" 50 10]
  show ?thesis by blast
qed

end
